(* ===== verification/Prelude.thy ===== *)
theory Prelude
  imports Main "HOL-Library.Word" "HOL-Library.Char_ord" "HOL-Library.List_Lexorder"
begin

text \<open>
  What every component shares: fallible results as a sum with the error on the left, bytes and
  strings, the decimal rendering that Rust's \<open>format!\<close> gives an integer, and tables as lists of
  rows with the SQL statements the server uses as list operators.

  A Rust \<open>String\<close> or \<open>&str\<close> is the list of its UTF-8 bytes, each an Isabelle \<open>char\<close> (which has
  256 values); \<open>Vec<u8>\<close> is a list of \<open>8 word\<close>.
\<close>

unbundle bit_operations_syntax

named_theorems tx_simps \<open>unfolding of the result monad and of transactions\<close>
named_theorems table_simps \<open>membership and keys of tables after a statement\<close>

type_synonym u8 = "8 word"
type_synonym u16 = "16 word"
type_synonym bytes = "8 word list"

subsection \<open>Fallible results\<close>

definition rbind :: "'e + 'a \<Rightarrow> ('a \<Rightarrow> 'e + 'b) \<Rightarrow> 'e + 'b" where
  "rbind r f = (case r of Inl e \<Rightarrow> Inl e | Inr x \<Rightarrow> f x)"

definition require :: "bool \<Rightarrow> 'e \<Rightarrow> 'e + unit" where
  "require b e = (if b then Inr () else Inl e)"

definition ok_or :: "'a option \<Rightarrow> 'e \<Rightarrow> 'e + 'a" where
  "ok_or x e = (case x of None \<Rightarrow> Inl e | Some v \<Rightarrow> Inr v)"

definition map_err :: "('e \<Rightarrow> 'f) \<Rightarrow> 'e + 'a \<Rightarrow> 'f + 'a" where
  "map_err g r = (case r of Inl e \<Rightarrow> Inl (g e) | Inr x \<Rightarrow> Inr x)"

fun map_result :: "('a \<Rightarrow> 'e + 'b) \<Rightarrow> 'a list \<Rightarrow> 'e + 'b list" where
  "map_result f [] = Inr []"
| "map_result f (x # xs) = rbind (f x) (\<lambda>y. rbind (map_result f xs) (\<lambda>ys. Inr (y # ys)))"

fun fold_result :: "('s \<Rightarrow> 'a \<Rightarrow> 'e + 's) \<Rightarrow> 's \<Rightarrow> 'a list \<Rightarrow> 'e + 's" where
  "fold_result f s [] = Inr s"
| "fold_result f s (x # xs) = rbind (f s x) (\<lambda>s'. fold_result f s' xs)"

lemma rbind_simps [simp]:
  "rbind (Inl e) f = Inl e"
  "rbind (Inr x) f = f x"
  by (simp_all add: rbind_def)

lemma rbind_eq_Inr_iff [tx_simps]: "rbind r f = Inr y \<longleftrightarrow> (\<exists>x. r = Inr x \<and> f x = Inr y)"
  by (cases r) auto

lemma rbind_eq_Inl_iff:
  "rbind r f = Inl e \<longleftrightarrow> r = Inl e \<or> (\<exists>x. r = Inr x \<and> f x = Inl e)"
  by (cases r) auto

lemma rbind_assoc: "rbind (rbind r f) g = rbind r (\<lambda>x. rbind (f x) g)"
  by (cases r) auto

lemma require_simps [simp]:
  "require True e = Inr ()"
  "require False e = Inl e"
  by (simp_all add: require_def)

lemma require_eq_Inr_iff [tx_simps, simp]: "require b e = Inr u \<longleftrightarrow> b"
  by (simp add: require_def)

lemma require_eq_Inl_iff [simp]: "require b e = Inl e' \<longleftrightarrow> \<not> b \<and> e' = e"
  by (auto simp: require_def)

lemma ok_or_simps [simp]:
  "ok_or None e = Inl e"
  "ok_or (Some v) e = Inr v"
  by (simp_all add: ok_or_def)

lemma ok_or_eq_Inr_iff [tx_simps, simp]: "ok_or x e = Inr v \<longleftrightarrow> x = Some v"
  by (cases x) auto

lemma ok_or_eq_Inl_iff [simp]: "ok_or x e = Inl e' \<longleftrightarrow> x = None \<and> e' = e"
  by (cases x) auto

lemma map_err_simps [simp]:
  "map_err g (Inl e) = Inl (g e)"
  "map_err g (Inr x) = Inr x"
  by (simp_all add: map_err_def)

lemma map_err_eq_Inr_iff [tx_simps, simp]: "map_err g r = Inr x \<longleftrightarrow> r = Inr x"
  by (cases r) auto

lemma map_result_length: "map_result f xs = Inr ys \<Longrightarrow> length ys = length xs"
  by (induction xs arbitrary: ys) (auto simp: rbind_eq_Inr_iff)

lemma map_result_Inr_iff:
  "map_result f xs = Inr ys \<longleftrightarrow> list_all2 (\<lambda>x y. f x = Inr y) xs ys"
  by (induction xs arbitrary: ys) (auto simp: rbind_eq_Inr_iff list_all2_Cons1)

lemma fold_result_invariant:
  assumes "fold_result f s xs = Inr s'" and "P s"
    and step: "\<And>s x s'. P s \<Longrightarrow> f s x = Inr s' \<Longrightarrow> P s'"
  shows "P s'"
  using assms(1,2)
proof (induction xs arbitrary: s)
  case Nil
  then show ?case by simp
next
  case (Cons x xs)
  from Cons.prems(1) obtain t where "f s x = Inr t" "fold_result f t xs = Inr s'"
    by (auto simp: rbind_eq_Inr_iff)
  with Cons.prems(2) show ?case by (blast intro: Cons.IH step)
qed

subsection \<open>Codecs\<close>

text \<open>What an encoder and its fallible decoder promise each other.\<close>

locale codec =
  fixes enc :: "'a \<Rightarrow> 'b" and dec :: "'b \<Rightarrow> 'e + 'a"
  assumes dec_enc: "dec (enc x) = Inr x"
begin

lemma enc_inject: "enc x = enc y \<longleftrightarrow> x = y"
  by (metis dec_enc sum.inject(2))

lemma dec_enc_no_error: "dec (enc x) \<noteq> Inl e"
  by (simp add: dec_enc)

lemma map_result_dec_enc: "map_result dec (map enc xs) = Inr xs"
  by (induction xs) (simp_all add: dec_enc)

end

subsection \<open>Decimal rendering\<close>

text \<open>\<open>format!("{n}")\<close> of an unsigned and of a signed integer, and the value of a digit string.\<close>

definition digit_char :: "nat \<Rightarrow> char" where
  "digit_char d = char_of (48 + d)"

definition is_digit :: "char \<Rightarrow> bool" where
  "is_digit c \<longleftrightarrow> 48 \<le> (of_char c :: nat) \<and> (of_char c :: nat) \<le> 57"

definition digit_value :: "char \<Rightarrow> nat" where
  "digit_value c = of_char c - 48"

fun dec_nat :: "nat \<Rightarrow> string" where
  "dec_nat n = (if n < 10 then [digit_char n] else dec_nat (n div 10) @ [digit_char (n mod 10)])"

declare dec_nat.simps [simp del]

definition dec_int :: "int \<Rightarrow> string" where
  "dec_int i = (if i < 0 then CHR ''-'' # dec_nat (nat (- i)) else dec_nat (nat i))"

definition dec_value :: "string \<Rightarrow> nat" where
  "dec_value s = foldl (\<lambda>v c. 10 * v + digit_value c) 0 s"

lemma is_digit_digit_char [simp]: "d < 10 \<Longrightarrow> is_digit (digit_char d)"
  by (simp add: is_digit_def digit_char_def)

lemma digit_value_digit_char [simp]: "d < 10 \<Longrightarrow> digit_value (digit_char d) = d"
  by (simp add: digit_value_def digit_char_def)

lemma dec_nat_digits: "list_all is_digit (dec_nat n)"
proof (induction n rule: dec_nat.induct)
  case (1 n)
  then show ?case by (cases "n < 10") (simp_all add: dec_nat.simps [of n])
qed

lemma dec_nat_not_Nil [simp]: "dec_nat n \<noteq> []"
  by (simp add: dec_nat.simps [of n])

lemma dec_value_snoc: "dec_value (s @ [c]) = 10 * dec_value s + digit_value c"
  by (simp add: dec_value_def)

lemma dec_value_dec_nat [simp]: "dec_value (dec_nat n) = n"
proof (induction n rule: dec_nat.induct)
  case (1 n)
  show ?case
  proof (cases "n < 10")
    case True
    then show ?thesis by (simp add: dec_nat.simps [of n] dec_value_def)
  next
    case False
    with 1 have "dec_value (dec_nat (n div 10)) = n div 10" by simp
    with False show ?thesis by (simp add: dec_nat.simps [of n] dec_value_snoc)
  qed
qed

lemma dec_nat_inject [simp]: "dec_nat m = dec_nat n \<longleftrightarrow> m = n"
  by (metis dec_value_dec_nat)

lemma dec_nat_no_char: "\<not> is_digit c \<Longrightarrow> c \<notin> set (dec_nat n)"
  using dec_nat_digits [of n] by (auto simp: list_all_iff)

lemma not_is_digit_minus [simp]: "\<not> is_digit CHR ''-''"
  by (simp add: is_digit_def)

lemma dec_nat_ne_minus [simp]: "dec_nat n \<noteq> CHR ''-'' # s" "CHR ''-'' # s \<noteq> dec_nat n"
  using dec_nat_no_char [of "CHR ''-''" n] by (metis list.set_intros(1) not_is_digit_minus)+

lemma dec_int_inject [simp]: "dec_int i = dec_int j \<longleftrightarrow> i = j"
  by (auto simp: dec_int_def)

text \<open>\<open>str::parse::<i64>\<close>: an optional sign, at least one digit, and the value in range.\<close>

definition parse_digits :: "string \<Rightarrow> nat option" where
  "parse_digits s = (if s \<noteq> [] \<and> list_all is_digit s then Some (dec_value s) else None)"

definition in_i64 :: "int \<Rightarrow> bool" where
  "in_i64 i \<longleftrightarrow> - (2 ^ 63) \<le> i \<and> i < 2 ^ 63"

definition checked_i64 :: "int \<Rightarrow> int option" where
  "checked_i64 i = (if in_i64 i then Some i else None)"

definition parse_i64 :: "string \<Rightarrow> int option" where
  "parse_i64 s = (case s of
       [] \<Rightarrow> None
     | c # t \<Rightarrow>
         if c = CHR ''-'' then Option.bind (parse_digits t) (\<lambda>n. checked_i64 (- int n))
         else if c = CHR ''+'' then Option.bind (parse_digits t) (\<lambda>n. checked_i64 (int n))
         else Option.bind (parse_digits s) (\<lambda>n. checked_i64 (int n)))"

lemma parse_digits_dec_nat [simp]: "parse_digits (dec_nat n) = Some n"
  by (simp add: parse_digits_def dec_nat_digits)

lemma dec_nat_head: "dec_nat n = c # t \<Longrightarrow> is_digit c"
  using dec_nat_digits [of n] by simp

lemma parse_i64_dec_int:
  assumes "in_i64 i"
  shows "parse_i64 (dec_int i) = Some i"
proof (cases "i < 0")
  case True
  with assms show ?thesis by (simp add: parse_i64_def dec_int_def checked_i64_def)
next
  case False
  obtain c t where ct: "dec_nat (nat i) = c # t" by (cases "dec_nat (nat i)") auto
  then have "is_digit c" by (rule dec_nat_head)
  then have "c \<noteq> CHR ''-''" "c \<noteq> CHR ''+''" by (auto simp: is_digit_def)
  with False assms show ?thesis
    using parse_digits_dec_nat [of "nat i"]
    by (simp add: parse_i64_def dec_int_def checked_i64_def ct)
qed

subsection \<open>Trimming\<close>

text \<open>\<open>trim\<close> on ASCII text, and \<open>trim_start_matches\<close> of a pattern and \<open>trim_matches\<close> of a
  character, which strip as often as they match.\<close>

definition is_ascii_space :: "char \<Rightarrow> bool" where
  "is_ascii_space c \<longleftrightarrow> (let n = of_char c :: nat in (9 \<le> n \<and> n \<le> 13) \<or> n = 32)"

definition trim_by :: "('a \<Rightarrow> bool) \<Rightarrow> 'a list \<Rightarrow> 'a list" where
  "trim_by p s = rev (dropWhile p (rev (dropWhile p s)))"

fun trim_start_2 :: "'a \<Rightarrow> 'a \<Rightarrow> 'a list \<Rightarrow> 'a list" where
  "trim_start_2 a b (x # y # zs) = (if x = a \<and> y = b then trim_start_2 a b zs else x # y # zs)"
| "trim_start_2 a b s = s"

lemma dropWhile_none: "(\<And>x. x \<in> set s \<Longrightarrow> \<not> p x) \<Longrightarrow> dropWhile p s = s"
  by (cases s) auto

lemma trim_by_none: "(\<And>x. x \<in> set s \<Longrightarrow> \<not> p x) \<Longrightarrow> trim_by p s = s"
  unfolding trim_by_def by (subst (1 2) dropWhile_none) simp_all

text \<open>The \<open>join\<close> of Rust's slices, on strings and on lists.\<close>

fun join :: "'a list \<Rightarrow> 'a list list \<Rightarrow> 'a list" where
  "join sep [] = []"
| "join sep [x] = x"
| "join sep (x # y # zs) = x @ sep @ join sep (y # zs)"

text \<open>A field of text ends at the first separator: two texts that continue with the same
  separator, which neither contains, agree before it and after it.\<close>

lemma split_at_separator:
  assumes "xs @ c # ys = xs' @ c # ys'" and "c \<notin> set xs" and "c \<notin> set xs'"
  shows "xs = xs' \<and> ys = ys'"
  using assms
proof (induction xs arbitrary: xs')
  case Nil
  then show ?case by (cases xs') auto
next
  case (Cons x xs)
  then show ?case by (cases xs') auto
qed

subsection \<open>Tables\<close>

text \<open>
  A table is the list of its rows. The statements of the server's SQL are these operators; a
  primary key or a unique constraint is \<open>distinct (map key t)\<close>, an invariant of the table.
\<close>

definition sql_find :: "('r \<Rightarrow> bool) \<Rightarrow> 'r list \<Rightarrow> 'r option" where
  "sql_find p t = List.find p t"

definition sql_exists :: "('r \<Rightarrow> bool) \<Rightarrow> 'r list \<Rightarrow> bool" where
  "sql_exists p t \<longleftrightarrow> list_ex p t"

definition sql_count :: "('r \<Rightarrow> bool) \<Rightarrow> 'r list \<Rightarrow> nat" where
  "sql_count p t = length (filter p t)"

definition sql_select :: "('r \<Rightarrow> bool) \<Rightarrow> 'r list \<Rightarrow> 'r list" where
  "sql_select p t = filter p t"

definition sql_update :: "('r \<Rightarrow> bool) \<Rightarrow> ('r \<Rightarrow> 'r) \<Rightarrow> 'r list \<Rightarrow> 'r list" where
  "sql_update p f t = map (\<lambda>r. if p r then f r else r) t"

definition sql_delete :: "('r \<Rightarrow> bool) \<Rightarrow> 'r list \<Rightarrow> 'r list" where
  "sql_delete p t = filter (\<lambda>r. \<not> p r) t"

definition sql_insert :: "'r \<Rightarrow> 'r list \<Rightarrow> 'r list" where
  "sql_insert r t = t @ [r]"

lemma sql_find_Some_iff_distinct:
  assumes "distinct (map k t)" and "\<And>r. p r \<longleftrightarrow> k r = x"
  shows "sql_find p t = Some r \<longleftrightarrow> r \<in> set t \<and> p r"
  using assms by (induction t) (auto simp: sql_find_def)

lemma sql_find_SomeD: "sql_find p t = Some r \<Longrightarrow> r \<in> set t \<and> p r"
  unfolding sql_find_def by (induction t) (auto split: if_splits)

lemma sql_find_None_iff: "sql_find p t = None \<longleftrightarrow> (\<forall>r \<in> set t. \<not> p r)"
  by (auto simp: sql_find_def find_None_iff)

lemma sql_exists_iff [table_simps]: "sql_exists p t \<longleftrightarrow> (\<exists>r \<in> set t. p r)"
  by (simp add: sql_exists_def list_ex_iff)

lemma set_sql_select [table_simps, simp]: "set (sql_select p t) = {r \<in> set t. p r}"
  by (auto simp: sql_select_def)

lemma select_singleton: "sql_select p t = [r] \<Longrightarrow> r \<in> set t \<and> p r"
  by (auto simp: sql_select_def filter_eq_Cons_iff)

lemma set_sql_update [table_simps, simp]:
  "set (sql_update p f t) = {r \<in> set t. \<not> p r} \<union> f ` {r \<in> set t. p r}"
  by (auto simp: sql_update_def)

lemma set_sql_delete [table_simps, simp]: "set (sql_delete p t) = {r \<in> set t. \<not> p r}"
  by (auto simp: sql_delete_def)

lemma set_sql_insert [table_simps, simp]: "set (sql_insert r t) = insert r (set t)"
  by (auto simp: sql_insert_def)

lemma keys_sql_update [table_simps]:
  "(\<And>r. p r \<Longrightarrow> k (f r) = k r) \<Longrightarrow> map k (sql_update p f t) = map k t"
  by (auto simp: sql_update_def)

lemma distinct_sql_delete [table_simps]:
  "distinct (map k t) \<Longrightarrow> distinct (map k (sql_delete p t))"
  by (simp add: sql_delete_def distinct_map_filter)

lemma distinct_sql_insert [table_simps]:
  "distinct (map k (sql_insert r t)) \<longleftrightarrow> distinct (map k t) \<and> (\<forall>r' \<in> set t. k r' \<noteq> k r)"
  by (auto simp: sql_insert_def image_iff)

lemma sql_count_insert [simp]:
  "sql_count p (sql_insert r t) = sql_count p t + (if p r then 1 else 0)"
  by (simp add: sql_count_def sql_insert_def)

lemma sql_count_delete_disjoint:
  "(\<And>r. p r \<Longrightarrow> \<not> q r) \<Longrightarrow> sql_count p (sql_delete q t) = sql_count p t"
  by (induction t) (auto simp: sql_count_def sql_delete_def)

lemma sql_count_pos_iff: "0 < sql_count p t \<longleftrightarrow> (\<exists>r \<in> set t. p r)"
  by (induction t) (auto simp: sql_count_def)

lemma sql_count_unique:
  assumes "distinct (map k t)" and "\<And>r. p r \<Longrightarrow> k r = x"
  shows "sql_count p t \<le> 1"
  using assms(1)
proof (induction t)
  case Nil
  then show ?case by (simp add: sql_count_def)
next
  case (Cons r t)
  show ?case
  proof (cases "p r")
    case True
    with Cons.prems assms(2) have "filter p t = []"
      by (auto simp: filter_empty_conv image_iff)
    with True show ?thesis by (simp add: sql_count_def)
  next
    case False
    with Cons show ?thesis by (simp add: sql_count_def)
  qed
qed

lemma sql_find_update:
  assumes "\<And>r. p r \<Longrightarrow> q (f r) = q r"
  shows "sql_find q (sql_update p f t) = map_option (\<lambda>r. if p r then f r else r) (sql_find q t)"
  using assms by (induction t) (auto simp: sql_find_def sql_update_def)

lemma sql_find_insert:
  "sql_find q (sql_insert r t) = (case sql_find q t of None \<Rightarrow> if q r then Some r else None | Some s \<Rightarrow> Some s)"
  by (induction t) (auto simp: sql_find_def sql_insert_def)

lemma sql_find_delete:
  assumes "\<And>r. q r \<Longrightarrow> \<not> p r"
  shows "sql_find q (sql_delete p t) = sql_find q t"
  using assms by (induction t) (auto simp: sql_find_def sql_delete_def)

text \<open>One update per entry of a keyed list, as the rotation's loops do: each row ends with the value
  of the last entry for its key.\<close>

definition sql_rekey :: "('r \<Rightarrow> bool) \<Rightarrow> ('r \<Rightarrow> 'k) \<Rightarrow> ('v \<Rightarrow> 'r \<Rightarrow> 'r) \<Rightarrow> ('k \<times> 'v) list \<Rightarrow> 'r list \<Rightarrow> 'r list" where
  "sql_rekey p key upd kvs t = foldl (\<lambda>t (k, v). sql_update (\<lambda>r. key r = k \<and> p r) (upd v) t) t kvs"

lemma sql_rekey_map:
  assumes "\<And>v r. key (upd v r) = key r" and "\<And>v r. p (upd v r) = p r" and "\<And>v w r. upd v (upd w r) = upd v r"
  shows "sql_rekey p key upd kvs t =
    map (\<lambda>r. case map_of (rev kvs) (key r) of None \<Rightarrow> r | Some v \<Rightarrow> if p r then upd v r else r) t"
proof (induction kvs arbitrary: t)
  case Nil
  then show ?case by (simp add: sql_rekey_def)
next
  case (Cons kv kvs)
  obtain k v where kv: "kv = (k, v)" by (cases kv)
  have "sql_rekey p key upd (kv # kvs) t = sql_rekey p key upd kvs (sql_update (\<lambda>r. key r = k \<and> p r) (upd v) t)"
    by (simp add: sql_rekey_def kv)
  also have "\<dots> = map (\<lambda>r. case map_of (rev (kv # kvs)) (key r) of None \<Rightarrow> r | Some v \<Rightarrow> if p r then upd v r else r) t"
    unfolding Cons.IH by (auto simp: kv sql_update_def map_add_def assms split: option.splits)
  finally show ?case .
qed

text \<open>An update that keeps its own condition true leaves the other rows exactly as they were.\<close>

lemma in_sql_update_other:
  "(\<And>r. p r \<Longrightarrow> p (f r)) \<Longrightarrow> \<not> p x \<Longrightarrow> x \<in> set (sql_update p f t) \<longleftrightarrow> x \<in> set t"
  by (induction t) (auto simp: sql_update_def)

lemma in_sql_update_same:
  "p x \<Longrightarrow> x \<in> set (sql_update p f t) \<Longrightarrow> \<exists>r \<in> set t. p r \<and> x = f r"
  by (induction t) (auto simp: sql_update_def split: if_splits)

end
