(* ===== verification/Key_Format.thy ===== *)
theory Key_Format
  imports Prelude
begin

text \<open>
  The human-facing key encoding of \<open>crates/core/src/format.rs\<close>: Crockford base32, the Fletcher-16
  checksum, and the versioned key strings (\<open>SK1-...\<close>). The bit accumulators are kept at their
  width (\<open>u16\<close>); \<open>bits\<close> is a \<open>nat\<close>, which the loops keep below 13. The core's error type
  (\<open>crates/core/src/error.rs\<close>) is here as well, since every other core component uses it.

  The main results: decoding inverts encoding for every byte string and for every key, the
  decoder accepts exactly the strings that carry the matching checksum, and the checksum detects
  every change of one byte except the exchange of 0 and 255.
\<close>

subsection \<open>Errors of the core\<close>

datatype core_error =
    Malformed string
  | UnsupportedScheme u8 u8
  | Checksum
  | KeyPrefix
  | Crypto

subsection \<open>Crockford base32\<close>

definition CROCKFORD_ALPHABET :: string where
  "CROCKFORD_ALPHABET = ''0123456789ABCDEFGHJKMNPQRSTVWXYZ''"

text \<open>The inner \<open>while bits >= 5\<close> loop of \<open>encode\<close>: emits symbols and returns what is left of
  \<open>bits\<close>; \<open>acc\<close> is only read by it.\<close>

fun encode_symbols :: "u16 \<Rightarrow> nat \<Rightarrow> string \<times> nat" where
  "encode_symbols acc bits =
     (if 5 \<le> bits
      then let bits = bits - 5;
               idx = unat (drop_bit bits acc AND 31);
               (out, bits') = encode_symbols acc bits
           in (CROCKFORD_ALPHABET ! idx # out, bits')
      else ([], bits))"

declare encode_symbols.simps [simp del]

fun encode_loop :: "u16 \<Rightarrow> nat \<Rightarrow> bytes \<Rightarrow> string" where
  "encode_loop acc bits [] =
     (if 0 < bits
      then [CROCKFORD_ALPHABET ! unat (push_bit (5 - bits) acc AND 31)]
      else [])"
| "encode_loop acc bits (b # data) =
     (let acc = push_bit 8 acc OR ucast b;
          (out, bits) = encode_symbols acc (bits + 8);
          acc = acc AND (push_bit bits 1 - 1)
      in out @ encode_loop acc bits data)"

definition encode :: "bytes \<Rightarrow> string" where
  "encode data = encode_loop 0 0 data"

definition to_ascii_uppercase :: "char \<Rightarrow> char" where
  "to_ascii_uppercase c =
     (if 97 \<le> (of_char c :: nat) \<and> (of_char c :: nat) \<le> 122 then char_of (of_char c - 32 :: nat) else c)"

definition decode_symbol :: "char \<Rightarrow> u8 option" where
  "decode_symbol c =
     (let u = of_char (to_ascii_uppercase c) :: nat
      in if u = of_char CHR ''O'' then Some 0
         else if u = of_char CHR ''I'' \<or> u = of_char CHR ''L'' then Some 1
         else if 48 \<le> u \<and> u \<le> 57 then Some (of_nat (u - 48))
         else if 65 \<le> u \<and> u \<le> 72 then Some (of_nat (u - 65 + 10))
         else if 74 \<le> u \<and> u \<le> 75 then Some (of_nat (u - 74 + 18))
         else if 77 \<le> u \<and> u \<le> 78 then Some (of_nat (u - 77 + 20))
         else if 80 \<le> u \<and> u \<le> 84 then Some (of_nat (u - 80 + 22))
         else if 86 \<le> u \<and> u \<le> 90 then Some (of_nat (u - 86 + 27))
         else None)"

fun decode_loop :: "u16 \<Rightarrow> nat \<Rightarrow> string \<Rightarrow> core_error + bytes" where
  "decode_loop acc bits [] = Inr []"
| "decode_loop acc bits (c # s) =
     (if c = CHR ''-'' then decode_loop acc bits s
      else rbind (ok_or (decode_symbol c) (Malformed ''invalid base32 symbol'')) (\<lambda>v.
        let acc = push_bit 5 acc OR ucast v; bits = bits + 5
        in if 8 \<le> bits
           then let bits = bits - 8
                in rbind (decode_loop (acc AND (push_bit bits 1 - 1)) bits s) (\<lambda>out.
                     Inr (ucast (drop_bit bits acc) # out))
           else decode_loop acc bits s))"

definition decode :: "string \<Rightarrow> core_error + bytes" where
  "decode s = decode_loop 0 0 s"

subsection \<open>Key strings\<close>

definition tagged :: "string \<Rightarrow> u8 \<Rightarrow> bytes \<Rightarrow> bytes" where
  "tagged prefix version payload = map of_char prefix @ [version] @ payload"

fun fletcher16_loop :: "u16 \<Rightarrow> u16 \<Rightarrow> bytes \<Rightarrow> u16 \<times> u16" where
  "fletcher16_loop a b [] = (a, b)"
| "fletcher16_loop a b (x # data) =
     (let a = (a + ucast x) mod 255; b = (b + a) mod 255 in fletcher16_loop a b data)"

definition fletcher16 :: "bytes \<Rightarrow> bytes" where
  "fletcher16 data = (let (a, b) = fletcher16_loop 0 0 data in [ucast a, ucast b])"

function chunks :: "nat \<Rightarrow> 'a list \<Rightarrow> 'a list list" where
  "chunks n xs = (if xs = [] \<or> n = 0 then [] else take n xs # chunks n (drop n xs))"
  by pat_completeness auto
termination
  by (relation "measure (\<lambda>(n, xs). length xs)") auto

declare chunks.simps [simp del]

definition group :: "string \<Rightarrow> nat \<Rightarrow> string" where
  "group s n = join ''-'' (chunks n s)"

definition key_head :: "string \<Rightarrow> u8 \<Rightarrow> string" where
  "key_head prefix version = prefix @ dec_nat (unat version) @ ''-''"

definition encode_key :: "string \<Rightarrow> u8 \<Rightarrow> bytes \<Rightarrow> string" where
  "encode_key prefix version payload =
     (let check = fletcher16 (tagged prefix version payload);
          body = payload @ check
      in key_head prefix version @ group (encode body) 5)"

fun strip_prefix :: "'a list \<Rightarrow> 'a list \<Rightarrow> 'a list option" where
  "strip_prefix [] s = Some s"
| "strip_prefix (p # ps) [] = None"
| "strip_prefix (p # ps) (c # s) = (if p = c then strip_prefix ps s else None)"

definition decode_key :: "string \<Rightarrow> u8 \<Rightarrow> string \<Rightarrow> core_error + bytes" where
  "decode_key prefix version s =
     rbind (ok_or (strip_prefix (key_head prefix version) s) KeyPrefix) (\<lambda>rest.
     rbind (decode rest) (\<lambda>body.
     if length body < 2 then Inl (Malformed ''key too short'')
     else let payload = take (length body - 2) body; check = drop (length body - 2) body
          in if fletcher16 (tagged prefix version payload) \<noteq> check then Inl Checksum
             else Inr payload))"

subsection \<open>Bit strings\<close>

definition bits_of :: "nat \<Rightarrow> 'a::semiring_bits \<Rightarrow> bool list" where
  "bits_of n v = map (bit v) (rev [0..<n])"

lemma length_bits_of [simp]: "length (bits_of n v) = n"
  by (simp add: bits_of_def)

lemma bits_of_cong: "(\<And>i. i < n \<Longrightarrow> bit v i = bit w i) \<Longrightarrow> bits_of n v = bits_of n w"
  by (simp add: bits_of_def)

lemma bits_of_append:
  assumes "\<And>i. i < m \<Longrightarrow> bit v (i + n) = bit w i" and "\<And>i. i < n \<Longrightarrow> bit v i = bit u i"
  shows "bits_of (m + n) v = bits_of m w @ bits_of n u"
proof -
  have "[0..<m + n] = [0..<n] @ [n..<m + n]"
    using upt_add_eq_append [of 0 n m] by (simp only: add.commute [of m n] zero_le)
  moreover have "map (bit v) [n..<m + n] = map (bit w) [0..<m]"
    using assms(1) by (intro nth_equalityI) (auto simp: add.commute)
  moreover have "map (bit v) [0..<n] = map (bit u) [0..<n]"
    using assms(2) by simp
  ultimately have "map (bit v) [0..<m + n] = map (bit u) [0..<n] @ map (bit w) [0..<m]"
    by simp
  then show ?thesis by (simp add: bits_of_def rev_map [symmetric])
qed

lemma bits_of_byte_inject: "bits_of 8 (v :: u8) = bits_of 8 w \<longleftrightarrow> v = w"
proof
  assume "bits_of 8 v = bits_of 8 w"
  then have "\<forall>i<8. bit v i = bit w i" by (simp add: bits_of_def)
  then show "v = w" by (auto simp: bit_eq_iff dest: bit_imp_le_length)
qed simp

lemma bit_31_iff: "bit (31 :: u16) i \<longleftrightarrow> i < 5"
proof -
  have "(31 :: u16) = mask 5" by (simp add: mask_eq_exp_minus_1)
  then show ?thesis by (simp only: bit_mask_iff) (auto dest: bit_imp_le_length)
qed

lemma bits_of_5_and_31: "bits_of 5 (x AND 31 :: u16) = bits_of 5 x"
  by (rule bits_of_cong) (simp only: bit_and_iff bit_31_iff simp_thms)

lemma low_mask: "push_bit n 1 - 1 = (mask n :: 'a::len word)"
  by (simp add: mask_eq_exp_minus_1 push_bit_eq_mult)

lemma bits_of_mask: "bits_of n (x AND (push_bit n 1 - 1) :: u16) = bits_of n x"
proof (rule bits_of_cong)
  fix i assume "i < n"
  then show "bit (x AND (push_bit n 1 - 1)) i = bit x i"
    by (auto simp only: low_mask bit_and_iff bit_mask_iff dest: bit_imp_possible_bit)
qed

lemma bits_of_mask_power: "bits_of n (x AND (2 ^ n - 1) :: u16) = bits_of n x"
  using bits_of_mask [of n x] by simp

lemma bits_of_shift_in_byte:
  "m \<le> 8 \<Longrightarrow> bits_of (m + 8) (push_bit 8 acc OR ucast (b :: u8) :: u16) = bits_of m acc @ bits_of 8 b"
  by (rule bits_of_append) (auto simp: bit_simps dest: bit_imp_le_length)

lemma bits_of_shift_in_symbol:
  assumes "m \<le> 8" and "v < (32 :: u8)"
  shows "bits_of (m + 5) (push_bit 5 acc OR ucast v :: u16) = bits_of m acc @ bits_of 5 v"
proof -
  from assms(2) have "v = take_bit 5 v"
    by (simp add: take_bit_eq_mod word_less_nat_alt unat_mod word_arith_nat_mod)
  then have high: "\<not> bit v i" if "5 \<le> i" for i
    using that by (metis bit_take_bit_iff not_le)
  show ?thesis
    using assms(1) high by (intro bits_of_append) (auto simp: bit_simps)
qed

lemma bits_of_drop:
  "n \<le> 16 \<Longrightarrow> bits_of (m + n) (acc :: u16) = bits_of m (drop_bit n acc) @ bits_of n acc"
  by (rule bits_of_append) (auto simp: bit_simps add.commute)

lemma bits_of_ucast_unat: "bits_of 5 (of_nat (unat (x AND 31 :: u16)) :: u8) = bits_of 5 x"
  by (rule bits_of_cong, simp only: of_nat_unat bit_unsigned_iff bit_and_iff bit_31_iff) auto


definition sym_bits :: "char \<Rightarrow> bool list" where
  "sym_bits c = (case decode_symbol c of None \<Rightarrow> [] | Some v \<Rightarrow> bits_of 5 v)"

lemma decode_symbol_alphabet_all:
  "list_all (\<lambda>v. decode_symbol (CROCKFORD_ALPHABET ! v) = Some (of_nat v)) [0..<32]"
  by (simp add: upt_rec CROCKFORD_ALPHABET_def decode_symbol_def to_ascii_uppercase_def)

lemma decode_symbol_alphabet:
  "v < 32 \<Longrightarrow> decode_symbol (CROCKFORD_ALPHABET ! v) = Some (of_nat v)"
  using decode_symbol_alphabet_all by (auto simp: list_all_iff)

lemma decode_symbol_hyphen [simp]: "decode_symbol CHR ''-'' = None"
  by (simp add: decode_symbol_def to_ascii_uppercase_def)

lemma decode_symbol_bound: "decode_symbol c = Some v \<Longrightarrow> v < 32"
  by (auto simp del: of_nat_diff of_nat_add simp: decode_symbol_def Let_def word_less_nat_alt unat_of_nat split: if_splits)

lemma and_31_bound: "unat (x AND 31 :: u16) < 32"
  using word_and_le1 [of x 31] by (simp add: word_le_nat_alt)

definition is_symbol :: "char \<Rightarrow> bool" where
  "is_symbol c \<longleftrightarrow> decode_symbol c \<noteq> None"

lemma is_symbol_hyphen [simp]: "\<not> is_symbol CHR ''-''"
  by (simp add: is_symbol_def)

lemma symbol_of_bits:
  "sym_bits (CROCKFORD_ALPHABET ! unat (x AND 31 :: u16)) = bits_of 5 x"
  "is_symbol (CROCKFORD_ALPHABET ! unat (x AND 31 :: u16))"
  by (simp_all only: sym_bits_def is_symbol_def decode_symbol_alphabet [OF and_31_bound]
      option.simps bits_of_ucast_unat not_False_eq_True)

lemma encode_symbols_bits:
  "bits \<le> 16 \<Longrightarrow> encode_symbols acc bits = (out, bits') \<Longrightarrow>
    bits_of bits acc = concat (map sym_bits out) @ bits_of bits' acc \<and>
    list_all is_symbol out \<and> bits' < 5"
proof (induction acc bits arbitrary: out bits' rule: encode_symbols.induct)
  case (1 acc bits)
  show ?case
  proof (cases "5 \<le> bits")
    case True
    let ?idx = "unat (drop_bit (bits - 5) acc AND 31)"
    obtain out1 where rec: "encode_symbols acc (bits - 5) = (out1, bits')"
      and out: "out = CROCKFORD_ALPHABET ! ?idx # out1"
      using True "1.prems"(2)
      by (auto simp: encode_symbols.simps [of acc bits] Let_def split: prod.splits)
    have IH: "bits_of (bits - 5) acc = concat (map sym_bits out1) @ bits_of bits' acc \<and>
        list_all is_symbol out1 \<and> bits' < 5"
      using "1.IH" [OF True refl refl _ rec] "1.prems"(1) by simp
    have "bits_of bits acc = bits_of 5 (drop_bit (bits - 5) acc) @ bits_of (bits - 5) acc"
      using bits_of_drop [of "bits - 5" 5 acc] True "1.prems"(1) by simp
    with IH out show ?thesis by (simp add: symbol_of_bits)
  next
    case False
    with "1.prems" show ?thesis by (simp add: encode_symbols.simps [of acc bits])
  qed
qed

lemma bits_of_pad:
  "m < 5 \<Longrightarrow> bits_of 5 (push_bit (5 - m) acc :: u16) = bits_of m acc @ replicate (5 - m) False"
proof -
  assume m: "m < 5"
  have "bits_of (m + (5 - m)) (push_bit (5 - m) acc) = bits_of m acc @ bits_of (5 - m) (0 :: u16)"
    using m by (intro bits_of_append) (auto simp: bit_simps)
  moreover have "bits_of (5 - m) (0 :: u16) = replicate (5 - m) False"
    by (intro nth_equalityI) (simp_all add: bits_of_def)
  ultimately show ?thesis using m by simp
qed

lemma encode_loop_bits:
  "bits < 5 \<Longrightarrow> \<exists>p < 5. concat (map sym_bits (encode_loop acc bits data)) =
      bits_of bits acc @ concat (map (bits_of 8) data) @ replicate p False"
proof (induction acc bits data rule: encode_loop.induct)
  case (1 acc bits)
  then show ?case
    by (cases "bits = 0") (auto simp: symbol_of_bits bits_of_pad bits_of_def [of 0])
next
  case (2 acc bits b data)
  let ?acc = "push_bit 8 acc OR ucast b :: u16"
  obtain out bits' where sym: "encode_symbols ?acc (bits + 8) = (out, bits')"
    by (cases "encode_symbols ?acc (bits + 8)")
  have step: "bits_of (bits + 8) ?acc = concat (map sym_bits out) @ bits_of bits' ?acc" "bits' < 5"
    using encode_symbols_bits [OF _ sym] "2.prems" by simp_all
  obtain p where p: "p < 5" and rec: "concat (map sym_bits (encode_loop (?acc AND (push_bit bits' 1 - 1)) bits' data)) =
      bits_of bits' (?acc AND (push_bit bits' 1 - 1)) @ concat (map (bits_of 8) data) @ replicate p False"
    using "2.IH" [OF refl sym [symmetric] refl refl step(2)] by blast
  have "bits_of bits acc @ bits_of 8 b = concat (map sym_bits out) @ bits_of bits' ?acc"
    using step bits_of_shift_in_byte [of bits acc b] "2.prems" by simp
  with p rec show ?case
    by (intro exI [of _ p]) (simp add: Let_def sym bits_of_mask_power)
qed

lemma encode_loop_symbols: "bits < 5 \<Longrightarrow> list_all is_symbol (encode_loop acc bits data)"
proof (induction acc bits data rule: encode_loop.induct)
  case (1 acc bits)
  then show ?case by (simp add: symbol_of_bits)
next
  case (2 acc bits b data)
  let ?acc = "push_bit 8 acc OR ucast b :: u16"
  obtain out bits' where sym: "encode_symbols ?acc (bits + 8) = (out, bits')"
    by (cases "encode_symbols ?acc (bits + 8)")
  have "list_all is_symbol out" "bits' < 5"
    using encode_symbols_bits [OF _ sym] "2.prems" by simp_all
  with "2.IH" [OF refl sym [symmetric] refl refl] show ?case
    by (simp add: Let_def sym)
qed

lemma encode_symbols_only: "list_all is_symbol (encode data)"
  by (simp add: encode_def encode_loop_symbols)

subsection \<open>The decoder reads the bits back\<close>

definition b32_text :: "string \<Rightarrow> bool" where
  "b32_text s \<longleftrightarrow> list_all (\<lambda>c. c = CHR ''-'' \<or> is_symbol c) s"

definition dehyphen :: "string \<Rightarrow> string" where
  "dehyphen s = filter (\<lambda>c. c \<noteq> CHR ''-'') s"

lemma decode_loop_bits:
  "bits < 8 \<Longrightarrow> b32_text s \<Longrightarrow> \<exists>out left. decode_loop acc bits s = Inr out \<and> length left < 8 \<and>
     bits_of bits acc @ concat (map sym_bits (dehyphen s)) = concat (map (bits_of 8) out) @ left"
proof (induction s arbitrary: acc bits)
  case Nil
  then show ?case by (auto simp: dehyphen_def)
next
  case (Cons c s)
  from Cons.prems(2) have s: "b32_text s" by (simp add: b32_text_def)
  show ?case
  proof (cases "c = CHR ''-''")
    case True
    with Cons.IH [OF Cons.prems(1) s] show ?thesis by (simp add: dehyphen_def)
  next
    case False
    with Cons.prems(2) obtain v where v: "decode_symbol c = Some v"
      by (auto simp: b32_text_def is_symbol_def)
    let ?acc = "push_bit 5 acc OR ucast v :: u16"
    have shift: "bits_of (bits + 5) ?acc = bits_of bits acc @ sym_bits c"
      using bits_of_shift_in_symbol [OF _ decode_symbol_bound [OF v]] Cons.prems(1) v
      by (simp add: sym_bits_def)
    have hyphen: "dehyphen (c # s) = c # dehyphen s" using False by (simp add: dehyphen_def)
    show ?thesis
    proof (cases "8 \<le> bits + 5")
      case True
      let ?bits = "bits - 3"
      obtain out left where rec: "decode_loop (?acc AND (push_bit ?bits 1 - 1)) ?bits s = Inr out"
        and left: "length left < 8" "bits_of ?bits (?acc AND (push_bit ?bits 1 - 1)) @
          concat (map sym_bits (dehyphen s)) = concat (map (bits_of 8) out) @ left"
        using Cons.IH [OF _ s, of ?bits "?acc AND (push_bit ?bits 1 - 1)"] Cons.prems(1)
        by (meson less_imp_diff_less)
      have "bits_of (bits + 5) ?acc = bits_of 8 (drop_bit ?bits ?acc) @ bits_of ?bits ?acc"
        using bits_of_drop [of ?bits 8 ?acc] True Cons.prems(1) by (simp add: add.commute)
      moreover have "bits_of 8 (ucast (drop_bit ?bits ?acc) :: u8) = bits_of 8 (drop_bit ?bits ?acc)"
        by (rule bits_of_cong) (simp add: bit_simps)
      ultimately have "bits_of bits acc @ concat (map sym_bits (dehyphen (c # s))) =
          concat (map (bits_of 8) (ucast (drop_bit ?bits ?acc) # out)) @ left"
        using shift left(2) [unfolded bits_of_mask] by (simp add: hyphen) (metis append.assoc)
      then show ?thesis
        using \<open>c \<noteq> CHR ''-''\<close> True v rec left(1)
        by (intro exI [of _ "ucast (drop_bit ?bits ?acc) # out"] exI [of _ left]) (simp add: Let_def)
    next
      case low: False
      with Cons.IH [of "bits + 5" ?acc] s obtain out left where
        "decode_loop ?acc (bits + 5) s = Inr out" "length left < 8"
        "bits_of (bits + 5) ?acc @ concat (map sym_bits (dehyphen s)) = concat (map (bits_of 8) out) @ left"
        by auto
      with False low v shift show ?thesis
        by (intro exI [of _ out] exI [of _ left]) (simp add: hyphen Let_def)
    qed
  qed
qed

lemma bytes_from_bits:
  assumes "concat (map (bits_of 8) xs) @ l = concat (map (bits_of 8) ys) @ r"
    and "length l < 8" and "length r < 8"
  shows "xs = (ys :: bytes)"
  using assms(1)
proof (induction xs arbitrary: ys)
  case Nil
  show ?case
  proof (cases ys)
    case (Cons y ys')
    with Nil have "length l = length (bits_of 8 y @ concat (map (bits_of 8) ys') @ r)" by simp
    with assms(2) show ?thesis by simp
  qed simp
next
  case (Cons x xs)
  show ?case
  proof (cases ys)
    case Nil
    with Cons.prems have "length (bits_of 8 x @ concat (map (bits_of 8) xs) @ l) = length r" by simp
    with assms(3) show ?thesis by simp
  next
    case (Cons y ys')
    with Cons.prems have "bits_of 8 x = bits_of 8 y"
      "concat (map (bits_of 8) xs) @ l = concat (map (bits_of 8) ys') @ r" by auto
    with Cons.IH Cons show ?thesis by (simp add: bits_of_byte_inject)
  qed
qed

lemma decode_encode_hyphens:
  assumes "dehyphen s = encode data"
  shows "decode s = Inr data"
proof -
  have "b32_text s"
    using encode_symbols_only [of data] unfolding assms [symmetric]
    by (auto simp: b32_text_def dehyphen_def list_all_iff)
  then obtain out left where out: "decode s = Inr out" "length left < 8"
    "concat (map sym_bits (dehyphen s)) = concat (map (bits_of 8) out) @ left"
    using decode_loop_bits [of 0 s 0] by (auto simp: decode_def bits_of_def [of 0])
  moreover obtain p where "p < 5"
    "concat (map sym_bits (encode data)) = concat (map (bits_of 8) data) @ replicate p False"
    using encode_loop_bits [of 0 0 data] by (auto simp: encode_def bits_of_def [of 0])
  ultimately have "out = data"
    using bytes_from_bits [of out left data "replicate p False"] by (simp add: assms)
  with out(1) show ?thesis by simp
qed

lemma dehyphen_encode: "dehyphen (encode data) = encode data"
  using encode_symbols_only [of data] unfolding dehyphen_def list_all_iff
  by (intro filter_True ballI notI) (metis is_symbol_hyphen)

lemma dehyphen_join: "dehyphen (join ''-'' xss) = dehyphen (concat xss)"
  by (induction "''-''" xss rule: join.induct) (simp_all add: dehyphen_def)

lemma concat_chunks: "0 < n \<Longrightarrow> concat (chunks n xs) = xs"
proof (induction n xs rule: chunks.induct)
  case (1 n xs)
  then show ?case by (subst chunks.simps) auto
qed

lemma dehyphen_group: "0 < n \<Longrightarrow> dehyphen (group s n) = dehyphen s"
  by (simp add: group_def dehyphen_join concat_chunks)

lemma decode_loop_dehyphen: "decode_loop acc bits (dehyphen s) = decode_loop acc bits s"
proof (induction s arbitrary: acc bits)
  case (Cons c s)
  then show ?case
    by (cases "decode_symbol c") (auto simp: dehyphen_def Let_def simp del: push_bit_of_1)
qed (simp add: dehyphen_def)

lemma to_ascii_uppercase_idem [simp]: "to_ascii_uppercase (to_ascii_uppercase c) = to_ascii_uppercase c"
  by (auto simp: to_ascii_uppercase_def)

lemma decode_symbol_uppercase [simp]: "decode_symbol (to_ascii_uppercase c) = decode_symbol c"
  by (simp add: decode_symbol_def)

lemma uppercase_hyphen_iff: "to_ascii_uppercase c = CHR ''-'' \<longleftrightarrow> c = CHR ''-''"
proof
  assume "to_ascii_uppercase c = CHR ''-''"
  then have "of_char (to_ascii_uppercase c) = (45 :: nat)" by simp
  then have "of_char c = (of_char CHR ''-'' :: nat)"
    by (auto simp: to_ascii_uppercase_def split: if_splits)
  then show "c = CHR ''-''" by (simp only: of_char_eq_iff)
qed (simp add: to_ascii_uppercase_def)

lemma decode_loop_uppercase: "decode_loop acc bits (map to_ascii_uppercase s) = decode_loop acc bits s"
proof (induction s arbitrary: acc bits)
  case (Cons c s)
  then show ?case
    by (cases "decode_symbol c") (auto simp: Let_def uppercase_hyphen_iff simp del: push_bit_of_1)
qed simp


subsection \<open>The checksum\<close>

fun weighted_sum :: "bytes \<Rightarrow> nat" where
  "weighted_sum [] = 0"
| "weighted_sum (x # xs) = (length xs + 1) * unat x + weighted_sum xs"

abbreviation byte_sum :: "bytes \<Rightarrow> nat" where
  "byte_sum xs \<equiv> sum_list (map unat xs)"

lemma unat_add_mod_255:
  assumes "unat a < 255" and "n < 256" and "unat x = n"
  shows "unat ((a + x) mod 255 :: u16) = (unat a + n) mod 255"
  using assms by (simp add: unat_mod unat_word_ariths)

lemma unat_ucast_byte [simp]: "unat (ucast (x :: u8) :: u16) = unat x"
  using unsigned_less [of x, where 'a = nat] by (simp add: unsigned_ucast_eq take_bit_eq_mod)

lemma unat_ucast_u16: "unat (ucast (a :: u16) :: u8) = unat a mod 256"
  by (simp add: unsigned_ucast_eq take_bit_eq_mod)

lemma unat_byte_less: "unat (x :: u8) < 256"
  using unsigned_less [of x, where 'a = nat] by simp

lemma add_mod_cancel: "((a :: nat) + c) mod m = (b + c) mod m \<longleftrightarrow> a mod m = b mod m"
proof
  assume "(a + c) mod m = (b + c) mod m"
  then have "(int a + int c) mod int m = (int b + int c) mod int m"
    by (simp flip: of_nat_add of_nat_mod)
  then have "(int a + int c - int c) mod int m = (int b + int c - int c) mod int m"
    by (rule mod_diff_cong) simp
  then show "a mod m = b mod m" by (simp flip: of_nat_mod)
next
  assume "a mod m = b mod m"
  then show "(a + c) mod m = (b + c) mod m" by (rule mod_add_cong) simp
qed

lemma fletcher16_loop_sums:
  "unat a < 255 \<Longrightarrow> unat b < 255 \<Longrightarrow> fletcher16_loop a b data = (a', b') \<Longrightarrow>
    unat a' = (unat a + byte_sum data) mod 255 \<and>
    unat b' = (unat b + length data * unat a + weighted_sum data) mod 255"
proof (induction a b data rule: fletcher16_loop.induct)
  case (1 a b)
  then show ?case by simp
next
  case (2 a b x data)
  let ?a = "(a + ucast x) mod 255" and ?b = "(b + (a + ucast x) mod 255) mod 255"
  have a: "unat ?a = (unat a + unat x) mod 255"
    using unat_byte_less [of x] by (intro unat_add_mod_255 [OF "2.prems"(1)]) simp_all
  have b: "unat ?b = (unat b + unat ?a) mod 255"
    by (rule unat_add_mod_255 [OF "2.prems"(2) _ refl]) (simp add: a less_imp_le_nat order.strict_trans [of _ 255])
  have IH: "unat a' = (unat ?a + byte_sum data) mod 255"
    "unat b' = (unat ?b + length data * unat ?a + weighted_sum data) mod 255"
    using "2.IH" [OF refl refl] "2.prems" a b by (simp_all add: Let_def)
  have "unat a' = (unat a + (unat x + byte_sum data)) mod 255"
    unfolding IH(1) a by (simp add: mod_simps add.assoc)
  moreover have "unat b' = (unat b + (unat a + unat x) + length data * (unat a + unat x) + weighted_sum data) mod 255"
    unfolding IH(2) b a by (metis (no_types, lifting) mod_add_left_eq mod_add_right_eq mod_mult_right_eq)
  ultimately show ?case by (simp add: algebra_simps)
qed

lemma fletcher16_eqD:
  assumes "fletcher16 xs = fletcher16 ys"
  shows "byte_sum xs mod 255 = byte_sum ys mod 255"
    and "weighted_sum xs mod 255 = weighted_sum ys mod 255"
proof -
  obtain a b where x: "fletcher16_loop 0 0 xs = (a, b)" by force
  obtain c d where y: "fletcher16_loop 0 0 ys = (c, d)" by force
  note sums = fletcher16_loop_sums [OF _ _ x] fletcher16_loop_sums [OF _ _ y]
  have lt: "unat a < 256" "unat b < 256" "unat c < 256" "unat d < 256"
    using sums by (simp_all add: order.strict_trans [of _ 255])
  have "(ucast a :: u8) = ucast c" "(ucast b :: u8) = ucast d"
    using assms x y by (simp_all add: fletcher16_def)
  then have "unat (ucast a :: u8) = unat (ucast c :: u8)" "unat (ucast b :: u8) = unat (ucast d :: u8)"
    by simp_all
  then have "unat a = unat c" "unat b = unat d"
    using lt by (simp_all add: unat_ucast_u16)
  with sums show "byte_sum xs mod 255 = byte_sum ys mod 255"
    and "weighted_sum xs mod 255 = weighted_sum ys mod 255" by simp_all
qed

lemma length_fletcher16 [simp]: "length (fletcher16 xs) = 2"
  by (simp add: fletcher16_def split: prod.splits)

lemma weighted_sum_append: "weighted_sum (xs @ ys) = weighted_sum xs + length ys * byte_sum xs + weighted_sum ys"
  by (induction xs) (simp_all add: algebra_simps)

lemma fletcher16_substitution:
  assumes "unat x mod 255 \<noteq> unat y mod 255"
  shows "fletcher16 (xs @ x # ys) \<noteq> fletcher16 (xs @ y # ys)"
proof
  let ?s = "byte_sum xs + byte_sum ys"
  assume "fletcher16 (xs @ x # ys) = fletcher16 (xs @ y # ys)"
  then have "(unat x + ?s) mod 255 = (unat y + ?s) mod 255"
    using fletcher16_eqD(1) [of "xs @ x # ys" "xs @ y # ys"] by (simp add: algebra_simps)
  with assms show False by (simp only: add_mod_cancel)
qed

lemma fletcher16_transposition:
  assumes "unat x mod 255 \<noteq> unat y mod 255"
  shows "fletcher16 (xs @ x # y # ys) \<noteq> fletcher16 (xs @ y # x # ys)"
proof
  let ?r = "(length ys + 1) * (unat x + unat y) + weighted_sum ys + weighted_sum xs + (length ys + 2) * byte_sum xs"
  assume "fletcher16 (xs @ x # y # ys) = fletcher16 (xs @ y # x # ys)"
  then have "(unat x + ?r) mod 255 = (unat y + ?r) mod 255"
    using fletcher16_eqD(2) [of "xs @ x # y # ys" "xs @ y # x # ys"]
    by (simp add: weighted_sum_append algebra_simps)
  with assms show False by (simp only: add_mod_cancel)
qed

subsection \<open>Round trips, and what the decoders accept\<close>

lemma strip_prefix_append [simp]: "strip_prefix p (p @ s) = Some s"
  by (induction p) auto

lemma strip_prefix_Some_iff: "strip_prefix p s = Some r \<longleftrightarrow> s = p @ r"
  by (induction p s rule: strip_prefix.induct) auto

lemma strip_prefix_None_iff: "strip_prefix p s = None \<longleftrightarrow> (\<nexists>r. s = p @ r)"
  by (metis not_None_eq strip_prefix_Some_iff)

lemma b32_roundtrip_lemma: "decode (encode data) = Inr data"
  by (simp add: decode_encode_hyphens dehyphen_encode)

lemma key_roundtrip_lemma: "decode_key prefix version (encode_key prefix version payload) = Inr payload"
proof -
  have "decode (group (encode (payload @ fletcher16 (tagged prefix version payload))) 5) =
      Inr (payload @ fletcher16 (tagged prefix version payload))"
    by (rule decode_encode_hyphens) (simp add: dehyphen_group dehyphen_encode)
  then show ?thesis by (simp add: decode_key_def encode_key_def Let_def)
qed

lemma decode_loop_total: "b32_text s \<Longrightarrow> \<exists>out. decode_loop acc bits s = Inr out"
proof (induction s arbitrary: acc bits)
  case (Cons c s)
  then have s: "b32_text s" by (simp add: b32_text_def)
  show ?case
  proof (cases "c = CHR ''-''")
    case False
    with Cons.prems obtain v where "decode_symbol c = Some v"
      by (auto simp: b32_text_def is_symbol_def)
    with False Cons.IH [OF s] show ?thesis by (fastforce simp: Let_def rbind_eq_Inr_iff)
  qed (use Cons.IH [OF s] in simp)
qed simp

lemma decode_loop_fails:
  "\<not> b32_text s \<Longrightarrow> decode_loop acc bits s = Inl (Malformed ''invalid base32 symbol'')"
proof (induction s arbitrary: acc bits)
  case (Cons c s)
  show ?case
  proof (cases "c = CHR ''-'' \<or> is_symbol c")
    case True
    with Cons.prems have "\<not> b32_text s" by (auto simp: b32_text_def)
    with True Cons.IH show ?thesis by (cases "decode_symbol c") (auto simp: Let_def is_symbol_def)
  qed (auto simp: is_symbol_def)
qed (simp add: b32_text_def)

lemma decode_error_iff:
  "decode s = Inl e \<longleftrightarrow> \<not> b32_text s \<and> e = Malformed ''invalid base32 symbol''"
  using decode_loop_total [of s 0 0] decode_loop_fails [of s 0 0]
  by (cases "b32_text s") (auto simp: decode_def)

text \<open>Crockford base32 decoding inverts encoding for every byte string, also after the encoded
  text has been split into groups of five with hyphens.\<close>

theorem b32_roundtrip:
  "decode (encode data) = Inr data \<and> decode (group (encode data) 5) = Inr data"
  by (simp add: decode_encode_hyphens dehyphen_encode dehyphen_group)

text \<open>The decoder ignores hyphens and letter case, and fails, always with the same error, exactly
  when some other character is no base32 symbol.\<close>

theorem b32_decode_normalises:
  "decode (map to_ascii_uppercase (dehyphen s)) = decode s \<and>
   (decode s = Inl e \<longleftrightarrow> \<not> b32_text s \<and> e = Malformed ''invalid base32 symbol'')"
  using decode_error_iff [of s e] by (simp add: decode_def decode_loop_uppercase decode_loop_dehyphen)

text \<open>C30: A key string decodes to the payload it was made from, for every prefix, version and
  payload.\<close>

theorem key_roundtrip: "decode_key prefix version (encode_key prefix version payload) = Inr payload"
  by (rule key_roundtrip_lemma)

lemma decode_key_accepts:
  "decode_key prefix version s = Inr payload \<longleftrightarrow>
    (\<exists>rest. s = key_head prefix version @ rest \<and>
       decode rest = Inr (payload @ fletcher16 (tagged prefix version payload)))"
proof
  assume "decode_key prefix version s = Inr payload"
  then obtain rest body where *: "strip_prefix (key_head prefix version) s = Some rest"
    "decode rest = Inr body" and **: "(if length body < 2 then Inl (Malformed ''key too short'')
     else let payload = take (length body - 2) body; check = drop (length body - 2) body
          in if fletcher16 (tagged prefix version payload) \<noteq> check then Inl Checksum
             else Inr payload) = Inr payload"
    unfolding decode_key_def rbind_eq_Inr_iff ok_or_eq_Inr_iff by blast
  from ** have "payload = take (length body - 2) body"
    "fletcher16 (tagged prefix version payload) = drop (length body - 2) body"
    by (simp_all add: Let_def split: if_splits)
  then have "body = payload @ fletcher16 (tagged prefix version payload)"
    by (metis append_take_drop_id)
  with * show "\<exists>rest. s = key_head prefix version @ rest \<and>
       decode rest = Inr (payload @ fletcher16 (tagged prefix version payload))"
    unfolding strip_prefix_Some_iff by blast
next
  assume "\<exists>rest. s = key_head prefix version @ rest \<and>
       decode rest = Inr (payload @ fletcher16 (tagged prefix version payload))"
  then show "decode_key prefix version s = Inr payload"
    by (auto simp: decode_key_def Let_def)
qed

lemma key_head_conflict:
  assumes "key_head prefix version @ r = key_head prefix version' @ r'"
  shows "version = version'"
proof -
  have "dec_nat (unat version) @ CHR ''-'' # r = dec_nat (unat version') @ CHR ''-'' # r'"
    using assms by (simp add: key_head_def)
  then have "dec_nat (unat version) = dec_nat (unat version')"
    by (rule split_at_separator [THEN conjunct1]) (simp_all add: dec_nat_no_char)
  then show ?thesis by (simp add: word_unat_eq_iff)
qed

text \<open>A key string of one version is refused under every other version of the same prefix.\<close>

theorem key_version_separation:
  assumes "version \<noteq> version'"
  shows "decode_key prefix version' (encode_key prefix version payload) = Inl KeyPrefix"
proof -
  have "strip_prefix (key_head prefix version') (encode_key prefix version payload) = None"
    using assms key_head_conflict by (auto simp: strip_prefix_None_iff encode_key_def Let_def)
  then show ?thesis by (simp add: decode_key_def)
qed

theorem key_version_separation_witness:
  "decode_key ''SK'' 2 (encode_key ''SK'' 1 [1, 2, 3]) = Inl KeyPrefix"
  by (rule key_version_separation) simp

text \<open>The transcription errors a checksum is for: one byte replaced by another, or two neighbouring
  bytes exchanged. Bytes that agree modulo 255 (0 and 255) are the ones Fletcher-16 cannot tell
  apart.\<close>

inductive typo :: "bytes \<Rightarrow> bytes \<Rightarrow> bool" where
  replaced: "unat x mod 255 \<noteq> unat y mod 255 \<Longrightarrow> typo (xs @ x # ys) (xs @ y # ys)"
| exchanged: "unat x mod 255 \<noteq> unat y mod 255 \<Longrightarrow> typo (xs @ x # y # ys) (xs @ y # x # ys)"

lemma typo_Cons: "typo xs ys \<Longrightarrow> typo (z # xs) (z # ys)"
  by (induction rule: typo.induct) (metis append_Cons typo.intros)+

lemma typo_append: "typo xs ys \<Longrightarrow> typo (zs @ xs) (zs @ ys)"
  by (induction zs) (auto intro: typo_Cons)

lemma typo_fletcher16: "typo xs ys \<Longrightarrow> fletcher16 xs \<noteq> fletcher16 ys"
  by (induction rule: typo.induct) (simp_all add: fletcher16_substitution fletcher16_transposition)

text \<open>C31: A key string whose body is a payload with such a typo and the checksum of the payload
  itself is refused with the checksum error.\<close>

theorem key_typo_detected:
  assumes "decode rest = Inr (body @ fletcher16 (tagged prefix version payload))"
    and "typo payload body"
  shows "decode_key prefix version (key_head prefix version @ rest) = Inl Checksum"
proof -
  have "fletcher16 (map of_char prefix @ version # payload) \<noteq> fletcher16 (map of_char prefix @ version # body)"
    by (intro typo_fletcher16 typo_append typo_Cons assms(2))
  with assms(1) show ?thesis by (auto simp: decode_key_def Let_def tagged_def)
qed

theorem key_typo_detected_witness:
  "decode_key ''SK'' 1 (key_head ''SK'' 1 @ encode ([7, 9, 8] @ fletcher16 (tagged ''SK'' 1 [7, 5, 8]))) =
    Inl Checksum"
  using typo.replaced [of 5 9 "[7]" "[8]"]
  by (intro key_typo_detected [OF b32_roundtrip_lemma]) simp

subsection \<open>Both encodings as codecs\<close>

interpretation b32: codec encode decode
  by unfold_locales (simp add: b32_roundtrip_lemma)

interpretation key: codec "encode_key prefix version" "decode_key prefix version" for prefix version
  by unfold_locales (rule key_roundtrip_lemma)

end
