(* ===== verification/Crypto_Core.thy ===== *)
theory Crypto_Core
  imports Key_Format
begin

text \<open>
  The envelope and the thin layers over it: \<open>envelope.rs\<close>, \<open>aead.rs\<close>, \<open>kdf.rs\<close>, \<open>wrap.rs\<close>,
  \<open>names.rs\<close> and \<open>share.rs\<close> of \<open>crates/core/src\<close>.

  The primitives themselves (RustCrypto's XChaCha20-Poly1305, dryoc's sealed boxes, Argon2id and
  BLAKE2b) are third-party code: they are the fields of the record \<open>crypto\<close>, an argument of every
  definition that uses them. Fresh randomness (\<open>random::bytes\<close>) is an argument as well. A fixed
  size array \<open>[u8; N]\<close> is a byte list, with its length stated where a result depends on it.

  What the code relies on is named: \<open>aead_ok\<close> (decryption inverts encryption), \<open>aead_binding\<close> (a
  ciphertext opens under no other key and no other associated data) and \<open>box_ok\<close> (a sealed box
  opens with the secret key of the public key it was sealed to). \<open>demo_crypto\<close> is a concrete
  instance of all of them.
\<close>

record crypto =
  xchacha_encrypt :: "bytes \<Rightarrow> bytes \<Rightarrow> bytes \<Rightarrow> bytes \<Rightarrow> bytes"
  xchacha_decrypt :: "bytes \<Rightarrow> bytes \<Rightarrow> bytes \<Rightarrow> bytes \<Rightarrow> bytes option"
  box_seal :: "bytes \<Rightarrow> bytes \<Rightarrow> bytes \<Rightarrow> bytes option"
  box_unseal :: "bytes \<Rightarrow> bytes \<Rightarrow> bytes option"
  public_of :: "bytes \<Rightarrow> bytes"
  argon2id :: "bytes \<Rightarrow> bytes \<Rightarrow> nat \<Rightarrow> nat \<Rightarrow> bytes option"
  blake2b_keyed :: "bytes \<Rightarrow> bytes \<Rightarrow> bytes option"
  kdf_derive :: "bytes \<Rightarrow> bytes \<Rightarrow> nat \<Rightarrow> bytes option"

definition aead_ok :: "crypto \<Rightarrow> bool" where
  "aead_ok c \<longleftrightarrow> (\<forall>k n m a. xchacha_decrypt c k n (xchacha_encrypt c k n m a) a = Some m)"

definition aead_binding :: "crypto \<Rightarrow> bool" where
  "aead_binding c \<longleftrightarrow> (\<forall>k n m a k' a'. (k', a') \<noteq> (k, a) \<longrightarrow>
     xchacha_decrypt c k' n (xchacha_encrypt c k n m a) a' = None)"

definition box_ok :: "crypto \<Rightarrow> bool" where
  "box_ok c \<longleftrightarrow> (\<forall>r sk m. \<exists>sealed. box_seal c r (public_of c sk) m = Some sealed \<and>
     box_unseal c sk sealed = Some m)"

subsection \<open>The envelope\<close>

definition SCHEME_V1 :: u8 where
  "SCHEME_V1 = 1"

definition NONCE_LEN :: nat where
  "NONCE_LEN = 24"

definition KEY_LEN :: nat where
  "KEY_LEN = 32"

datatype Alg = XChaCha20Poly1305

fun alg_id :: "Alg \<Rightarrow> u8" where
  "alg_id XChaCha20Poly1305 = 1"

definition alg_from_u8 :: "u8 \<Rightarrow> Alg option" where
  "alg_from_u8 v = (if v = 1 then Some XChaCha20Poly1305 else None)"

definition parse :: "bytes \<Rightarrow> core_error + bytes \<times> bytes" where
  "parse bs =
     (if length bs < 2 + NONCE_LEN then Inl (Malformed ''envelope too short'')
      else let scheme = bs ! 0; alg = bs ! 1
           in if scheme \<noteq> SCHEME_V1 \<or> alg_from_u8 alg \<noteq> Some XChaCha20Poly1305
              then Inl (UnsupportedScheme scheme alg)
              else Inr (take NONCE_LEN (drop 2 bs), drop (2 + NONCE_LEN) bs))"

subsection \<open>AEAD\<close>

definition aead_seal :: "crypto \<Rightarrow> bytes \<Rightarrow> bytes \<Rightarrow> bytes \<Rightarrow> bytes \<Rightarrow> bytes" where
  "aead_seal c nonce key plaintext aad =
     [SCHEME_V1, alg_id XChaCha20Poly1305] @ nonce @ xchacha_encrypt c key nonce plaintext aad"

definition aead_open :: "crypto \<Rightarrow> bytes \<Rightarrow> bytes \<Rightarrow> bytes \<Rightarrow> core_error + bytes" where
  "aead_open c key envelope aad =
     rbind (parse envelope) (\<lambda>(nonce, ciphertext).
       ok_or (xchacha_decrypt c key nonce ciphertext aad) Crypto)"

subsection \<open>Key derivation\<close>

definition OPSLIMIT :: nat where
  "OPSLIMIT = 4"

definition MEMLIMIT :: nat where
  "MEMLIMIT = 256 * 1024 * 1024"

definition derive_master_key :: "crypto \<Rightarrow> bytes \<Rightarrow> bytes \<Rightarrow> bytes \<Rightarrow> core_error + bytes" where
  "derive_master_key c password secret_key salt =
     rbind (ok_or (argon2id c password salt OPSLIMIT MEMLIMIT) Crypto) (\<lambda>a.
     rbind (ok_or (blake2b_keyed c a secret_key) Crypto) (\<lambda>out.
     if length out \<noteq> KEY_LEN then Inl Crypto else Inr out))"

definition derive_subkey :: "crypto \<Rightarrow> bytes \<Rightarrow> bytes \<Rightarrow> nat \<Rightarrow> core_error + bytes" where
  "derive_subkey c master context_label subkey_id = ok_or (kdf_derive c master context_label subkey_id) Crypto"

subsection \<open>Key wrapping\<close>

record keypair =
  public :: bytes
  secret :: bytes

definition keypair_from_secret :: "crypto \<Rightarrow> bytes \<Rightarrow> keypair" where
  "keypair_from_secret c sk = \<lparr>public = public_of c sk, secret = sk\<rparr>"

definition seal_to_public :: "crypto \<Rightarrow> bytes \<Rightarrow> bytes \<Rightarrow> bytes \<Rightarrow> core_error + bytes" where
  "seal_to_public c rnd recipient_public plaintext = ok_or (box_seal c rnd recipient_public plaintext) Crypto"

definition open_sealed :: "crypto \<Rightarrow> keypair \<Rightarrow> bytes \<Rightarrow> core_error + bytes" where
  "open_sealed c kp sealed = ok_or (box_unseal c (secret kp) sealed) Crypto"

definition wrap_key :: "crypto \<Rightarrow> bytes \<Rightarrow> bytes \<Rightarrow> bytes \<Rightarrow> bytes \<Rightarrow> bytes" where
  "wrap_key c nonce kek key aad = aead_seal c nonce kek key aad"

definition unwrap_key :: "crypto \<Rightarrow> bytes \<Rightarrow> bytes \<Rightarrow> bytes \<Rightarrow> core_error + bytes" where
  "unwrap_key c kek wrapped aad =
     rbind (aead_open c kek wrapped aad) (\<lambda>pt.
       if length pt = KEY_LEN then Inr pt else Inl (Malformed ''wrapped key wrong length''))"

subsection \<open>Display names\<close>

definition as_bytes :: "string \<Rightarrow> bytes" where
  "as_bytes s = map of_char s"

definition org_aad :: "string \<Rightarrow> string" where
  "org_aad i = ''sotto/v1/org-name|id='' @ i"

definition project_aad :: "string \<Rightarrow> string" where
  "project_aad i = ''sotto/v1/project-name|id='' @ i"

definition env_aad :: "string \<Rightarrow> string" where
  "env_aad i = ''sotto/v1/env-name|id='' @ i"

definition encrypt_org_name :: "crypto \<Rightarrow> bytes \<Rightarrow> bytes \<Rightarrow> string \<Rightarrow> bytes \<Rightarrow> bytes" where
  "encrypt_org_name c nonce key i nm = aead_seal c nonce key nm (as_bytes (org_aad i))"

definition decrypt_org_name :: "crypto \<Rightarrow> bytes \<Rightarrow> string \<Rightarrow> bytes \<Rightarrow> core_error + bytes" where
  "decrypt_org_name c key i ciphertext = aead_open c key ciphertext (as_bytes (org_aad i))"

definition encrypt_project_name :: "crypto \<Rightarrow> bytes \<Rightarrow> bytes \<Rightarrow> string \<Rightarrow> bytes \<Rightarrow> bytes" where
  "encrypt_project_name c nonce key i nm = aead_seal c nonce key nm (as_bytes (project_aad i))"

definition decrypt_project_name :: "crypto \<Rightarrow> bytes \<Rightarrow> string \<Rightarrow> bytes \<Rightarrow> core_error + bytes" where
  "decrypt_project_name c key i ciphertext = aead_open c key ciphertext (as_bytes (project_aad i))"

definition encrypt_env_name :: "crypto \<Rightarrow> bytes \<Rightarrow> bytes \<Rightarrow> string \<Rightarrow> bytes \<Rightarrow> bytes" where
  "encrypt_env_name c nonce key i nm = aead_seal c nonce key nm (as_bytes (env_aad i))"

definition decrypt_env_name :: "crypto \<Rightarrow> bytes \<Rightarrow> string \<Rightarrow> bytes \<Rightarrow> core_error + bytes" where
  "decrypt_env_name c key i ciphertext = aead_open c key ciphertext (as_bytes (env_aad i))"

subsection \<open>Share links\<close>

definition SHARE_AAD :: bytes where
  "SHARE_AAD = as_bytes ''sotto/v1/share''"

definition share_seal :: "crypto \<Rightarrow> bytes \<Rightarrow> bytes \<Rightarrow> bytes \<Rightarrow> bytes" where
  "share_seal c nonce aead_key plaintext = aead_seal c nonce aead_key plaintext SHARE_AAD"

definition share_open :: "crypto \<Rightarrow> bytes \<Rightarrow> bytes \<Rightarrow> core_error + bytes" where
  "share_open c aead_key envelope = aead_open c aead_key envelope SHARE_AAD"

definition passphrase_key :: "crypto \<Rightarrow> bytes \<Rightarrow> bytes \<Rightarrow> bytes \<Rightarrow> core_error + bytes" where
  "passphrase_key c fragment_key passphrase salt = derive_master_key c passphrase fragment_key salt"

subsection \<open>A concrete instance of the primitives\<close>

text \<open>Each list is written with a continuation mark before every byte and an end mark, so key and
  associated data can be read off the front of a ciphertext.\<close>

definition marked :: "bytes \<Rightarrow> bytes" where
  "marked xs = concat (map (\<lambda>x. [1, x]) xs) @ [0]"

definition demo_crypto :: crypto where
  "demo_crypto = \<lparr>
     xchacha_encrypt = (\<lambda>k n m a. marked k @ marked a @ m),
     xchacha_decrypt = (\<lambda>k n ct a. strip_prefix (marked k @ marked a) ct),
     box_seal = (\<lambda>r pk m. Some (marked pk @ m)),
     box_unseal = (\<lambda>sk ct. strip_prefix (marked sk) ct),
     public_of = (\<lambda>sk. sk),
     argon2id = (\<lambda>p s t m. Some (take 32 (p @ s @ replicate 32 0))),
     blake2b_keyed = (\<lambda>k m. Some (take 32 (m @ k @ replicate 32 0))),
     kdf_derive = (\<lambda>k ctx i. Some (take 32 (ctx @ k @ replicate 32 0)))\<rparr>"

lemma marked_prefix_free: "marked xs @ r = marked ys @ s \<Longrightarrow> xs = ys \<and> r = s"
proof (induction xs arbitrary: ys)
  case Nil
  then show ?case by (cases ys) (auto simp: marked_def)
next
  case (Cons x xs)
  then show ?case by (cases ys) (auto simp: marked_def)
qed

lemma demo_crypto_ok: "aead_ok demo_crypto" "aead_binding demo_crypto" "box_ok demo_crypto"
proof -
  show "aead_ok demo_crypto"
    unfolding aead_ok_def demo_crypto_def by (simp flip: append_assoc)
  show "aead_binding demo_crypto"
    unfolding aead_binding_def demo_crypto_def
    by (auto simp: strip_prefix_None_iff dest!: marked_prefix_free)
  show "box_ok demo_crypto"
    unfolding box_ok_def demo_crypto_def by simp
qed

subsection \<open>What the envelope parser accepts\<close>

lemma alg_from_u8_Some_iff [simp]: "alg_from_u8 v = Some XChaCha20Poly1305 \<longleftrightarrow> v = 1"
  by (simp add: alg_from_u8_def)

text \<open>The envelope parser accepts exactly the byte strings made of the two header bytes, a
  24-byte nonce and a ciphertext, and gives back that nonce and ciphertext; a shorter input is
  malformed, whatever its header says, and any other header is an unsupported scheme.\<close>

theorem envelope_parse_exact:
  "(parse bs = Inr (nonce, ct) \<longleftrightarrow> length nonce = 24 \<and> bs = [1, 1] @ nonce @ ct) \<and>
   (parse bs = Inl e \<longleftrightarrow>
      (length bs < 26 \<and> e = Malformed ''envelope too short'') \<or>
      (\<exists>scheme alg rest. bs = scheme # alg # rest \<and> 24 \<le> length rest \<and> (scheme, alg) \<noteq> (1, 1) \<and>
         e = UnsupportedScheme scheme alg))"
proof (cases "length bs < 26")
  case True
  then show ?thesis by (auto simp: parse_def NONCE_LEN_def)
next
  case False
  then obtain x y rest where bs: "bs = x # y # rest" and len: "24 \<le> length rest"
    by (cases bs; cases "tl bs") auto
  have "parse bs = (if x \<noteq> 1 \<or> y \<noteq> 1 then Inl (UnsupportedScheme x y) else Inr (take 24 rest, drop 24 rest))"
    using len by (simp add: parse_def bs NONCE_LEN_def SCHEME_V1_def)
  then show ?thesis using len bs
    by (auto simp: bs append_eq_conv_conj)
qed

lemma parse_seal [simp]:
  "length nonce = NONCE_LEN \<Longrightarrow>
    parse (SCHEME_V1 # 1 # nonce @ ct) = Inr (nonce, ct)"
  by (simp add: parse_def NONCE_LEN_def SCHEME_V1_def)

lemma open_seal:
  assumes "aead_ok c" and "length nonce = NONCE_LEN"
  shows "aead_open c key (aead_seal c nonce key m aad) aad = Inr m"
  using assms by (simp add: aead_open_def aead_seal_def aead_ok_def)

lemma open_seal_elsewhere:
  assumes "aead_binding c" and "length nonce = NONCE_LEN" and "(key', aad') \<noteq> (key, aad)"
  shows "aead_open c key' (aead_seal c nonce key m aad) aad' = Inl Crypto"
  using assms by (simp add: aead_open_def aead_seal_def aead_binding_def)

lemma as_bytes_inject [simp]: "as_bytes s = as_bytes t \<longleftrightarrow> s = t"
proof -
  have "inj (of_char :: char \<Rightarrow> u8)"
  proof (rule injI)
    fix x y :: char
    assume "(of_char x :: u8) = of_char y"
    then have "(of_nat (of_char x) :: u8) = of_nat (of_char y)"
      by (simp only: of_nat_of_char)
    then have "unat (of_nat (of_char x) :: u8) = unat (of_nat (of_char y) :: u8)"
      by (rule arg_cong)
    then show "x = y" by (simp add: unat_of_nat)
  qed
  then show ?thesis by (simp add: as_bytes_def inj_map_eq_map)
qed

subsection \<open>Names sealed to their record\<close>

text \<open>The contract the three kinds of display name share: a name is sealed with the AEAD under
  associated data that determines the record.\<close>

locale record_sealing =
  fixes enc :: "crypto \<Rightarrow> bytes \<Rightarrow> bytes \<Rightarrow> 'i \<Rightarrow> bytes \<Rightarrow> bytes"
    and dec :: "crypto \<Rightarrow> bytes \<Rightarrow> 'i \<Rightarrow> bytes \<Rightarrow> core_error + bytes"
    and aad :: "'i \<Rightarrow> bytes"
  assumes enc_is: "enc c nonce key i m = aead_seal c nonce key m (aad i)"
    and dec_is: "dec c key i ct = aead_open c key ct (aad i)"
    and aad_inject: "aad i = aad j \<longleftrightarrow> i = j"
begin

lemma opens: "aead_ok c \<Longrightarrow> length nonce = NONCE_LEN \<Longrightarrow> dec c key i (enc c nonce key i m) = Inr m"
  by (simp add: enc_is dec_is open_seal)

lemma bound:
  "aead_binding c \<Longrightarrow> length nonce = NONCE_LEN \<Longrightarrow> (key', j) \<noteq> (key, i) \<Longrightarrow>
    dec c key' j (enc c nonce key i m) = Inl Crypto"
  by (rule open_seal_elsewhere [of c nonce key' "aad j" key "aad i" m, folded enc_is dec_is])
    (auto simp: aad_inject)

end

interpretation org_name: record_sealing encrypt_org_name decrypt_org_name "\<lambda>i. as_bytes (org_aad i)"
  by unfold_locales (simp_all add: encrypt_org_name_def decrypt_org_name_def org_aad_def)

interpretation project_name:
  record_sealing encrypt_project_name decrypt_project_name "\<lambda>i. as_bytes (project_aad i)"
  by unfold_locales (simp_all add: encrypt_project_name_def decrypt_project_name_def project_aad_def)

interpretation env_name: record_sealing encrypt_env_name decrypt_env_name "\<lambda>i. as_bytes (env_aad i)"
  by unfold_locales (simp_all add: encrypt_env_name_def decrypt_env_name_def env_aad_def)

lemma name_aads_distinct:
  "org_aad i \<noteq> project_aad j" "org_aad i \<noteq> env_aad j" "project_aad i \<noteq> env_aad j"
  by (simp_all add: org_aad_def project_aad_def env_aad_def)

text \<open>A project name sealed for one record opens, under the same key, as that project's name and
  as nothing else: not under another key, not for another project, and not as the name of an
  organisation or of an environment, even one with the same id.\<close>

theorem project_name_bound_to_record:
  assumes "aead_ok c" and "aead_binding c" and "length nonce = NONCE_LEN"
  shows "decrypt_project_name c key' j (encrypt_project_name c nonce key i nm) =
      (if key' = key \<and> j = i then Inr nm else Inl Crypto) \<and>
    decrypt_org_name c key' j (encrypt_project_name c nonce key i nm) = Inl Crypto \<and>
    decrypt_env_name c key' j (encrypt_project_name c nonce key i nm) = Inl Crypto"
proof (intro conjI)
  show "decrypt_project_name c key' j (encrypt_project_name c nonce key i nm) =
      (if key' = key \<and> j = i then Inr nm else Inl Crypto)"
    using assms by (auto simp: project_name.opens intro: project_name.bound)
  show "decrypt_org_name c key' j (encrypt_project_name c nonce key i nm) = Inl Crypto"
    "decrypt_env_name c key' j (encrypt_project_name c nonce key i nm) = Inl Crypto"
    using assms name_aads_distinct(1) [of j i] name_aads_distinct(3) [of i j]
    by (auto simp: decrypt_org_name_def decrypt_env_name_def encrypt_project_name_def
        intro!: open_seal_elsewhere)
qed

theorem project_name_bound_to_record_witness:
  "decrypt_env_name demo_crypto [1] ''p1'' (encrypt_project_name demo_crypto (replicate 24 0) [1] ''p1'' [65]) =
    Inl Crypto"
  using project_name_bound_to_record [OF demo_crypto_ok(1,2), of "replicate 24 0" "[1]" "''p1''" "[1]" "''p1''" "[65]"]
  by (simp add: NONCE_LEN_def)

subsection \<open>Wrapped keys\<close>

lemma unwrap_wrap:
  assumes "aead_ok c" and "length nonce = NONCE_LEN" and "length key = KEY_LEN"
  shows "unwrap_key c kek (wrap_key c nonce kek key aad) aad = Inr key"
  using assms by (simp add: unwrap_key_def wrap_key_def open_seal)

lemma unwrap_wrap_elsewhere:
  assumes "aead_binding c" and "length nonce = NONCE_LEN" and "(kek', aad') \<noteq> (kek, aad)"
  shows "unwrap_key c kek' (wrap_key c nonce kek key aad) aad' = Inl Crypto"
  using assms by (simp add: unwrap_key_def wrap_key_def open_seal_elsewhere)

lemma unwrap_key_length: "unwrap_key c kek wrapped aad = Inr key \<Longrightarrow> length key = KEY_LEN"
  by (auto simp: unwrap_key_def rbind_eq_Inr_iff split: if_splits)

end
