(* ===== verification/Vault.thy ===== *)
theory Vault
  imports Crypto_Core
begin

text \<open>
  The environment key hierarchy of \<open>crates/core/src/vault.rs\<close>: a vault key per environment, shared
  as sealed-box grants; per secret write a fresh data key wrapped under the vault key; name and value
  sealed under the data key; every ciphertext bound to its location (environment, secret, version,
  field) by its associated data.

  Results: the associated data determines the location for ids in the charset the server enforces
  (and not for arbitrary ids), secrets and grants open to what was sealed, a ciphertext moved to
  another location does not open, and rewrapping a data key moves a secret from the old to the new
  vault key.
\<close>

record encrypted_secret =
  enc_name :: bytes
  enc_value :: bytes
  enc_data_key :: bytes

definition PRIVKEYS_AAD :: bytes where
  "PRIVKEYS_AAD = as_bytes ''sotto/v1/privkeys''"

definition wrap_private_key :: "crypto \<Rightarrow> bytes \<Rightarrow> bytes \<Rightarrow> bytes \<Rightarrow> bytes" where
  "wrap_private_key c nonce master_key x25519_secret = wrap_key c nonce master_key x25519_secret PRIVKEYS_AAD"

definition open_account_keypair :: "crypto \<Rightarrow> bytes \<Rightarrow> bytes \<Rightarrow> core_error + keypair" where
  "open_account_keypair c master_key enc_private_keys =
     rbind (unwrap_key c master_key enc_private_keys PRIVKEYS_AAD) (\<lambda>sk. Inr (keypair_from_secret c sk))"

definition grant_vault_key :: "crypto \<Rightarrow> bytes \<Rightarrow> bytes \<Rightarrow> bytes \<Rightarrow> core_error + bytes" where
  "grant_vault_key c rnd recipient_public vault_key = seal_to_public c rnd recipient_public vault_key"

definition open_vault_key :: "crypto \<Rightarrow> keypair \<Rightarrow> bytes \<Rightarrow> core_error + bytes" where
  "open_vault_key c kp grant =
     rbind (open_sealed c kp grant) (\<lambda>opened.
       if length opened = KEY_LEN then Inr opened
       else Inl (Malformed ''granted vault key has the wrong length''))"

definition open_vault_grant :: "crypto \<Rightarrow> bytes \<Rightarrow> bytes \<Rightarrow> bytes \<Rightarrow> core_error + bytes" where
  "open_vault_grant c master_key enc_private_keys grant =
     rbind (open_account_keypair c master_key enc_private_keys) (\<lambda>kp. open_vault_key c kp grant)"

definition data_key_aad :: "string \<Rightarrow> string \<Rightarrow> int \<Rightarrow> string" where
  "data_key_aad env_id secret_id version =
     ''sotto/v1/datakey|env='' @ env_id @ ''|secret='' @ secret_id @ ''|ver='' @ dec_int version"

definition name_aad :: "string \<Rightarrow> string \<Rightarrow> int \<Rightarrow> string" where
  "name_aad env_id secret_id version =
     ''sotto/v1/name|env='' @ env_id @ ''|secret='' @ secret_id @ ''|ver='' @ dec_int version"

definition value_aad :: "string \<Rightarrow> string \<Rightarrow> int \<Rightarrow> string" where
  "value_aad env_id secret_id version =
     ''sotto/v1/value|env='' @ env_id @ ''|secret='' @ secret_id @ ''|ver='' @ dec_int version"

text \<open>\<open>encrypt_secret\<close> draws the data key and the three nonces, in this order.\<close>

definition encrypt_secret ::
  "crypto \<Rightarrow> bytes \<Rightarrow> bytes \<Rightarrow> bytes \<Rightarrow> bytes \<Rightarrow> bytes \<Rightarrow> string \<Rightarrow> string \<Rightarrow> int \<Rightarrow> bytes \<Rightarrow> bytes \<Rightarrow>
    encrypted_secret" where
  "encrypt_secret c data_key n1 n2 n3 vault_key env_id secret_id version nm val = \<lparr>
     enc_name = aead_seal c n1 data_key nm (as_bytes (name_aad env_id secret_id version)),
     enc_value = aead_seal c n2 data_key val (as_bytes (value_aad env_id secret_id version)),
     enc_data_key = wrap_key c n3 vault_key data_key (as_bytes (data_key_aad env_id secret_id version))\<rparr>"

definition unwrap_data_key ::
  "crypto \<Rightarrow> bytes \<Rightarrow> string \<Rightarrow> string \<Rightarrow> int \<Rightarrow> bytes \<Rightarrow> core_error + bytes" where
  "unwrap_data_key c vault_key env_id secret_id version edk =
     unwrap_key c vault_key edk (as_bytes (data_key_aad env_id secret_id version))"

definition decrypt_name ::
  "crypto \<Rightarrow> bytes \<Rightarrow> string \<Rightarrow> string \<Rightarrow> int \<Rightarrow> bytes \<Rightarrow> bytes \<Rightarrow> core_error + bytes" where
  "decrypt_name c vault_key env_id secret_id version en edk =
     rbind (unwrap_data_key c vault_key env_id secret_id version edk) (\<lambda>data_key.
       aead_open c data_key en (as_bytes (name_aad env_id secret_id version)))"

definition decrypt_value ::
  "crypto \<Rightarrow> bytes \<Rightarrow> string \<Rightarrow> string \<Rightarrow> int \<Rightarrow> bytes \<Rightarrow> bytes \<Rightarrow> core_error + bytes" where
  "decrypt_value c vault_key env_id secret_id version ev edk =
     rbind (unwrap_data_key c vault_key env_id secret_id version edk) (\<lambda>data_key.
       aead_open c data_key ev (as_bytes (value_aad env_id secret_id version)))"

definition decrypt_secret ::
  "crypto \<Rightarrow> bytes \<Rightarrow> string \<Rightarrow> string \<Rightarrow> int \<Rightarrow> bytes \<Rightarrow> bytes \<Rightarrow> bytes \<Rightarrow> core_error + bytes \<times> bytes" where
  "decrypt_secret c vault_key env_id secret_id version en ev edk =
     rbind (unwrap_data_key c vault_key env_id secret_id version edk) (\<lambda>data_key.
       let nm = aead_open c data_key en (as_bytes (name_aad env_id secret_id version));
           val = aead_open c data_key ev (as_bytes (value_aad env_id secret_id version))
       in case (nm, val) of
            (Inr n, Inr v) \<Rightarrow> Inr (n, v)
          | (Inr n, Inl e) \<Rightarrow> Inl e
          | (Inl e, Inr v) \<Rightarrow> Inl e
          | (Inl e, Inl e') \<Rightarrow> Inl e)"

definition rewrap_data_key ::
  "crypto \<Rightarrow> bytes \<Rightarrow> bytes \<Rightarrow> bytes \<Rightarrow> string \<Rightarrow> string \<Rightarrow> int \<Rightarrow> bytes \<Rightarrow> core_error + bytes" where
  "rewrap_data_key c nonce old_vault_key new_vault_key env_id secret_id version edk =
     rbind (unwrap_data_key c old_vault_key env_id secret_id version edk) (\<lambda>data_key.
       Inr (wrap_key c nonce new_vault_key data_key (as_bytes (data_key_aad env_id secret_id version))))"

subsection \<open>The associated data determines the location\<close>

text \<open>The three fields of a secret, and the associated data of each.\<close>

datatype secret_field = DataKeyField | NameField | ValueField

fun location_aad :: "secret_field \<Rightarrow> string \<Rightarrow> string \<Rightarrow> int \<Rightarrow> string" where
  "location_aad DataKeyField = data_key_aad"
| "location_aad NameField = name_aad"
| "location_aad ValueField = value_aad"

lemma aad_body_inject:
  assumes "env @ ''|secret='' @ sec @ ''|ver='' @ dec_int v = env' @ ''|secret='' @ sec' @ ''|ver='' @ dec_int v'"
    and "CHR ''|'' \<notin> set env" "CHR ''|'' \<notin> set env'" "CHR ''|'' \<notin> set sec" "CHR ''|'' \<notin> set sec'"
  shows "env = env' \<and> sec = sec' \<and> v = v'"
proof -
  have 1: "env = env' \<and> ''secret='' @ sec @ ''|ver='' @ dec_int v = ''secret='' @ sec' @ ''|ver='' @ dec_int v'"
    using assms(1) by (intro split_at_separator [of _ "CHR ''|''"] assms(2,3)) simp
  then have "sec = sec' \<and> ''ver='' @ dec_int v = ''ver='' @ dec_int v'"
    by (intro split_at_separator [of _ "CHR ''|''"] assms(4,5)) simp
  with 1 show ?thesis by simp
qed

text \<open>For ids without the delimiter the associated data of a ciphertext determines its field,
  environment, secret and version: two locations that share associated data are the same. Without
  the restriction on ids they need not be.\<close>

theorem aad_determines_location:
  assumes "CHR ''|'' \<notin> set (env @ env' @ sec @ sec')"
  shows "location_aad f env sec v = location_aad f' env' sec' v' \<longleftrightarrow>
      f = f' \<and> env = env' \<and> sec = sec' \<and> v = v'"
  using assms aad_body_inject [of env sec v env' sec' v']
  by (cases f; cases f') (auto simp: data_key_aad_def name_aad_def value_aad_def)

theorem aad_determines_location_witness:
  "location_aad NameField ''e1'' ''s1'' 1 \<noteq> location_aad NameField ''e1'' ''s1'' 2"
  using aad_determines_location [of "''e1''" "''e1''" "''s1''" "''s1''" NameField 1 NameField 2] by simp

lemma aad_ambiguous_with_delimiters:
  "value_aad ''a|secret=b'' ''c'' 1 = value_aad ''a'' ''b|secret=c'' 1"
  by (simp add: value_aad_def)

subsection \<open>Secrets\<close>

lemma unwrap_data_key_encrypt_secret:
  assumes "aead_ok c" "length n3 = NONCE_LEN" "length dk = KEY_LEN"
  shows "unwrap_data_key c vk env sec v (enc_data_key (encrypt_secret c dk n1 n2 n3 vk env sec v nm val)) = Inr dk"
  using assms by (simp add: unwrap_data_key_def encrypt_secret_def unwrap_wrap)

lemma unwrap_data_key_elsewhere:
  assumes "aead_binding c" "length nonce = NONCE_LEN" "CHR ''|'' \<notin> set (env @ env' @ sec @ sec')"
    and "(vk', env', sec', v') \<noteq> (vk, env, sec, v)"
  shows "unwrap_data_key c vk' env' sec' v' (wrap_key c nonce vk dk (as_bytes (data_key_aad env sec v))) = Inl Crypto"
proof -
  have "(vk', as_bytes (data_key_aad env' sec' v')) \<noteq> (vk, as_bytes (data_key_aad env sec v))"
    using assms(3,4) aad_body_inject [of env' sec' v' env sec v] by (auto simp: data_key_aad_def)
  then show ?thesis
    unfolding unwrap_data_key_def by (rule unwrap_wrap_elsewhere [OF assms(1,2)])
qed

lemma decrypt_encrypt_secret:
  assumes "aead_ok c" "length n1 = NONCE_LEN" "length n2 = NONCE_LEN" "length n3 = NONCE_LEN" "length dk = KEY_LEN"
  shows "decrypt_secret c vk env sec v (enc_name (encrypt_secret c dk n1 n2 n3 vk env sec v nm val))
      (enc_value (encrypt_secret c dk n1 n2 n3 vk env sec v nm val))
      (enc_data_key (encrypt_secret c dk n1 n2 n3 vk env sec v nm val)) = Inr (nm, val)"
  unfolding decrypt_secret_def unwrap_data_key_encrypt_secret [OF assms(1,4,5)]
  using assms by (simp add: encrypt_secret_def open_seal Let_def)

text \<open>Decrypting a secret is decrypting its name and then its value: it succeeds with both
  results, or fails with the name's error before the value's.\<close>

theorem decrypt_secret_is_both:
  "decrypt_secret c vk env sec v en ev edk =
    rbind (decrypt_name c vk env sec v en edk) (\<lambda>nm.
    rbind (decrypt_value c vk env sec v ev edk) (\<lambda>val. Inr (nm, val)))"
  by (cases "unwrap_data_key c vk env sec v edk")
    (auto simp: decrypt_secret_def decrypt_name_def decrypt_value_def Let_def split: sum.splits)

text \<open>C29: A secret encrypted under a vault key decrypts, at the location it was encrypted for, to the
  name and value it was made from. At every other location, and under every other vault key, it does
  not open. Ids are without the delimiter.\<close>

theorem secret_bound_to_location:
  assumes "aead_ok c" and "aead_binding c"
    and "length n1 = NONCE_LEN" "length n2 = NONCE_LEN" "length n3 = NONCE_LEN" "length dk = KEY_LEN"
    and "CHR ''|'' \<notin> set (env @ env' @ sec @ sec')"
    and "e = encrypt_secret c dk n1 n2 n3 vk env sec v nm val"
  shows "decrypt_secret c vk' env' sec' v' (enc_name e) (enc_value e) (enc_data_key e) =
      (if (vk', env', sec', v') = (vk, env, sec, v) then Inr (nm, val) else Inl Crypto)"
proof (cases "(vk', env', sec', v') = (vk, env, sec, v)")
  case True
  then show ?thesis using assms(1,3-6,8) by (simp add: decrypt_encrypt_secret)
next
  case False
  then have "unwrap_data_key c vk' env' sec' v' (enc_data_key e) = Inl Crypto"
    unfolding assms(8) encrypt_secret_def
    by (simp add: unwrap_data_key_elsewhere [OF assms(2,5,7)])
  with False show ?thesis by (auto simp: decrypt_secret_def)
qed

text \<open>One encrypted secret with the demonstration primitives.\<close>

definition demo_secret :: encrypted_secret where
  "demo_secret = encrypt_secret demo_crypto (replicate 32 7) (replicate 24 0) (replicate 24 0)
     (replicate 24 0) [9] ''e'' ''s'' 1 [5] [6]"

theorem secret_bound_to_location_witness:
  "decrypt_secret demo_crypto [9] ''e'' ''s'' 1 (enc_name demo_secret) (enc_value demo_secret)
     (enc_data_key demo_secret) = Inr ([5], [6]) \<and>
   decrypt_secret demo_crypto [9] ''e'' ''s'' 2 (enc_name demo_secret) (enc_value demo_secret)
     (enc_data_key demo_secret) = Inl Crypto"
proof -
  have "decrypt_secret demo_crypto [9] ''e'' ''s'' v' (enc_name demo_secret) (enc_value demo_secret)
      (enc_data_key demo_secret) =
      (if ([9 :: u8], ''e'', ''s'', v') = ([9], ''e'', ''s'', 1) then Inr ([5], [6]) else Inl Crypto)" for v'
    by (rule secret_bound_to_location [OF demo_crypto_ok(1,2) _ _ _ _ _ demo_secret_def])
      (simp_all add: NONCE_LEN_def KEY_LEN_def)
  from this [of 1] this [of 2] show ?thesis by simp
qed

text \<open>The name ciphertext does not pass for a value, nor the value ciphertext for a name.\<close>

lemma fields_not_interchangeable:
  assumes "aead_ok c" "aead_binding c"
    and "length n1 = NONCE_LEN" "length n2 = NONCE_LEN" "length n3 = NONCE_LEN" "length dk = KEY_LEN"
    and "e = encrypt_secret c dk n1 n2 n3 vk env sec v nm val"
  shows "decrypt_value c vk env sec v (enc_name e) (enc_data_key e) = Inl Crypto"
    and "decrypt_name c vk env sec v (enc_value e) (enc_data_key e) = Inl Crypto"
  unfolding assms(7) decrypt_value_def decrypt_name_def
    unwrap_data_key_encrypt_secret [OF assms(1,5,6)]
  using assms(2-4)
  by (simp_all add: encrypt_secret_def open_seal_elsewhere name_aad_def value_aad_def)

subsection \<open>Rotation of the vault key\<close>

lemma rewrap_wrapped:
  assumes "aead_ok c" "length n = NONCE_LEN" "length dk = KEY_LEN"
  shows "rewrap_data_key c nonce old new env sec v (wrap_key c n old dk (as_bytes (data_key_aad env sec v))) =
    Inr (wrap_key c nonce new dk (as_bytes (data_key_aad env sec v)))"
  using assms by (simp add: rewrap_data_key_def unwrap_data_key_def unwrap_wrap)

text \<open>Rewrapping the data key of a secret moves it to the new vault key: the untouched name and
  value ciphertexts decrypt under the new key to the same name and value, and no longer under the old
  one. Rewrapping under a key or at a location the data key is not wrapped for fails.\<close>

theorem rewrap_moves_secret:
  assumes "aead_ok c" and "aead_binding c"
    and "length n1 = NONCE_LEN" "length n2 = NONCE_LEN" "length n3 = NONCE_LEN" "length dk = KEY_LEN"
    and "length nonce = NONCE_LEN" and "old \<noteq> new" and "v \<noteq> v'"
    and "CHR ''|'' \<notin> set (env @ sec)"
    and "e = encrypt_secret c dk n1 n2 n3 old env sec v nm val"
  shows "\<exists>edk. rewrap_data_key c nonce old new env sec v (enc_data_key e) = Inr edk \<and>
      decrypt_secret c new env sec v (enc_name e) (enc_value e) edk = Inr (nm, val) \<and>
      decrypt_secret c old env sec v (enc_name e) (enc_value e) edk = Inl Crypto \<and>
      rewrap_data_key c nonce new old env sec v (enc_data_key e) = Inl Crypto \<and>
      rewrap_data_key c nonce old new env sec v' (enc_data_key e) = Inl Crypto"
proof -
  let ?wrap = "\<lambda>n k. wrap_key c n k dk (as_bytes (data_key_aad env sec v))"
  have edk: "enc_data_key e = ?wrap n3 old" by (simp add: assms(11) encrypt_secret_def)
  have wrong: "unwrap_data_key c k env sec w (?wrap n k') = Inl Crypto"
    if "(k, w) \<noteq> (k', v)" "length n = NONCE_LEN" for k k' w n
    using that assms(10) by (intro unwrap_data_key_elsewhere [OF assms(2)]) auto
  have "rewrap_data_key c nonce old new env sec v (enc_data_key e) = Inr (?wrap nonce new)"
    unfolding edk by (rule rewrap_wrapped [OF assms(1,5,6)])
  moreover have "decrypt_secret c new env sec v (enc_name e) (enc_value e) (?wrap nonce new) = Inr (nm, val)"
    using decrypt_encrypt_secret [OF assms(1,3,4,7,6), of new env sec v nm val]
    by (simp add: assms(11) encrypt_secret_def)
  moreover have "decrypt_secret c old env sec v (enc_name e) (enc_value e) (?wrap nonce new) = Inl Crypto"
    using assms(7,8) by (simp add: decrypt_secret_def wrong)
  moreover have "rewrap_data_key c nonce new old env sec v (enc_data_key e) = Inl Crypto"
    "rewrap_data_key c nonce old new env sec v' (enc_data_key e) = Inl Crypto"
    using assms(5,8,9) by (simp_all add: rewrap_data_key_def edk wrong)
  ultimately show ?thesis by blast
qed

theorem rewrap_moves_secret_witness:
  "\<exists>edk. rewrap_data_key demo_crypto (replicate 24 1) [9] [2] ''e'' ''s'' 1 (enc_data_key demo_secret) = Inr edk \<and>
     decrypt_secret demo_crypto [2] ''e'' ''s'' 1 (enc_name demo_secret) (enc_value demo_secret) edk = Inr ([5], [6])"
proof -
  have "\<exists>edk. rewrap_data_key demo_crypto (replicate 24 1) [9] [2] ''e'' ''s'' 1 (enc_data_key demo_secret) = Inr edk \<and>
      decrypt_secret demo_crypto [2] ''e'' ''s'' 1 (enc_name demo_secret) (enc_value demo_secret) edk = Inr ([5], [6]) \<and>
      decrypt_secret demo_crypto [9] ''e'' ''s'' 1 (enc_name demo_secret) (enc_value demo_secret) edk = Inl Crypto \<and>
      rewrap_data_key demo_crypto (replicate 24 1) [2] [9] ''e'' ''s'' 1 (enc_data_key demo_secret) = Inl Crypto \<and>
      rewrap_data_key demo_crypto (replicate 24 1) [9] [2] ''e'' ''s'' 2 (enc_data_key demo_secret) = Inl Crypto"
    by (rule rewrap_moves_secret [OF demo_crypto_ok(1,2) _ _ _ _ _ _ _ _ demo_secret_def])
      (simp_all add: NONCE_LEN_def KEY_LEN_def)
  then show ?thesis by blast
qed

subsection \<open>Grants\<close>

text \<open>A member who holds the master key recovers the account keypair from the sealed private key,
  and with it the vault key of every grant sealed to the matching public key; under another master
  key the private key does not open and neither does the grant.\<close>

theorem grant_opens_for_member:
  assumes "aead_ok c" and "aead_binding c" and "box_ok c"
    and "length nonce = NONCE_LEN" "length sk = KEY_LEN" "length vault_key = KEY_LEN"
    and "master' \<noteq> master"
  shows "\<exists>grant. grant_vault_key c rnd (public_of c sk) vault_key = Inr grant \<and>
      open_vault_grant c master (wrap_private_key c nonce master sk) grant = Inr vault_key \<and>
      open_vault_grant c master' (wrap_private_key c nonce master sk) grant = Inl Crypto"
proof -
  have kp: "open_account_keypair c master (wrap_private_key c nonce master sk) = Inr (keypair_from_secret c sk)"
    "open_account_keypair c master' (wrap_private_key c nonce master sk) = Inl Crypto"
    using assms by (simp_all add: open_account_keypair_def wrap_private_key_def unwrap_wrap unwrap_wrap_elsewhere)
  from assms(3) obtain sealed where "box_seal c rnd (public_of c sk) vault_key = Some sealed"
    "box_unseal c sk sealed = Some vault_key" unfolding box_ok_def by blast
  with assms(6) kp show ?thesis
    by (simp add: grant_vault_key_def seal_to_public_def open_vault_grant_def open_vault_key_def
        open_sealed_def keypair_from_secret_def)
qed

theorem grant_opens_for_member_witness:
  "\<exists>grant. open_vault_grant demo_crypto [1] (wrap_private_key demo_crypto (replicate 24 0) [1] (replicate 32 3)) grant =
    Inr (replicate 32 4)"
  using grant_opens_for_member [OF demo_crypto_ok, of "replicate 24 0" "replicate 32 3" "replicate 32 4" "[2]" "[1]"]
  by (auto simp: NONCE_LEN_def KEY_LEN_def)

end
