(* ===== verification/Server_Base.thy ===== *)
theory Server_Base
  imports Prelude
begin

text \<open>
  What every part of the server (\<open>crates/server/src\<close>) shares: the error type and its HTTP form
  (\<open>error.rs\<close>), the transport encoding (\<open>encoding.rs\<close>), id validation and the size caps
  (\<open>sync/mod.rs\<close>), the tables, transactions, and the audit log's insert (\<open>audit.rs\<close>).

  The tables are those the migrations create, with the columns the modelled handlers read or write.
  Timestamps are microseconds as \<open>int\<close>; \<open>now()\<close> is an argument of the handlers. Base64 and BLAKE2b are
  third-party code, the fields of the record \<open>lib\<close>; the law of base64 that results use is \<open>b64_ok\<close>.

  A transaction body takes the state and gives an error or a result with the new state; \<open>run_txn\<close>
  commits or rolls back. Handlers that first read outside their transaction take the state of those
  reads as a separate argument \<open>db0\<close>: it may be older than the state the transaction runs on.
\<close>

subsection \<open>Errors\<close>

datatype error =
    Config string
  | Db string
  | Internal string
  | Migrate string
  | Io string
  | Unauthorized
  | Forbidden string
  | Quota string
  | BadRequest string
  | NotFound string
  | Conflict string
  | Precondition string
  | NotConfigured string
  | Upstream string

fun into_response :: "error \<Rightarrow> nat \<times> string" where
  "into_response Unauthorized = (401, ''unauthorised'')"
| "into_response (Forbidden m) = (403, m)"
| "into_response (Quota m) = (402, m)"
| "into_response (BadRequest m) = (400, m)"
| "into_response (NotFound m) = (404, m)"
| "into_response (Conflict m) = (409, m)"
| "into_response (Precondition m) = (412, m)"
| "into_response (NotConfigured m) = (503, m)"
| "into_response (Upstream _) = (502, ''upstream authentication error'')"
| "into_response (Db _) = (500, ''internal error'')"
| "into_response (Internal _) = (500, ''internal error'')"
| "into_response (Config _) = (500, ''internal error'')"
| "into_response (Migrate _) = (500, ''internal error'')"
| "into_response (Io _) = (500, ''internal error'')"

subsection \<open>Transport encoding\<close>

record lib =
  b64_encode :: "bytes \<Rightarrow> string"
  b64_decode :: "string \<Rightarrow> bytes option"
  blake2b :: "string \<Rightarrow> bytes"

definition b64_ok :: "lib \<Rightarrow> bool" where
  "b64_ok L \<longleftrightarrow> (\<forall>bs. b64_decode L (b64_encode L bs) = Some bs \<and>
     length (b64_encode L bs) = (length bs + 2) div 3 * 4)"

definition encoding_encode :: "lib \<Rightarrow> bytes \<Rightarrow> string" where
  "encoding_encode L bs = b64_encode L bs"

definition encoding_decode :: "lib \<Rightarrow> string \<Rightarrow> string \<Rightarrow> nat \<Rightarrow> error + bytes" where
  "encoding_decode L val field limit =
     (let max_encoded = (limit + 2) div 3 * 4
      in if max_encoded < length val
         then Inl (BadRequest (field @ '' exceeds '' @ dec_nat limit @ '' bytes''))
         else rbind (ok_or (b64_decode L val) (BadRequest (field @ '' is not valid base64''))) (\<lambda>bs.
           if limit < length bs
           then Inl (BadRequest (field @ '' exceeds '' @ dec_nat limit @ '' bytes''))
           else Inr bs))"

subsection \<open>Ids\<close>

definition MAX_ID :: nat where "MAX_ID = 128"
definition MAX_ENC_NAME :: nat where "MAX_ENC_NAME = 4 * 1024"
definition MAX_ENC_VALUE :: nat where "MAX_ENC_VALUE = 64 * 1024"
definition MAX_ENC_KEY :: nat where "MAX_ENC_KEY = 1024"

definition is_ascii_alphanumeric :: "char \<Rightarrow> bool" where
  "is_ascii_alphanumeric c \<longleftrightarrow>
     (let n = of_char c :: nat in (48 \<le> n \<and> n \<le> 57) \<or> (65 \<le> n \<and> n \<le> 90) \<or> (97 \<le> n \<and> n \<le> 122))"

definition validate_id :: "string \<Rightarrow> string \<Rightarrow> error + unit" where
  "validate_id i field =
     (if i = [] \<or> MAX_ID < length i
      then Inl (BadRequest (field @ '' must be between 1 and '' @ dec_nat MAX_ID @ '' characters''))
      else if \<not> list_all (\<lambda>b. is_ascii_alphanumeric b \<or> b = CHR ''-'' \<or> b = CHR ''_'') i
      then Inl (BadRequest (field @ '' may contain only letters, digits, '' @ [CHR 0x27] @ ''-'' @
        [CHR 0x27] @ '', and '' @ [CHR 0x27] @ ''_'' @ [CHR 0x27]))
      else Inr ())"

subsection \<open>Tables\<close>

record user_row =
  u_id :: string
  u_provider :: string
  u_subject :: string
  u_email :: "string option"
  u_public_key :: "bytes option"
  u_enc_private_keys :: "bytes option"
  u_kdf_params :: "bytes option"
  u_recovery_blob :: "bytes option"

record org_row =
  o_id :: string
  o_enc_name :: "bytes option"
  o_created_by :: "string option"
  o_tier :: string
  o_trial_ends_at :: "int option"
  o_lifecycle :: string
  o_stripe_customer :: "string option"
  o_stripe_subscription :: "string option"
  o_deleted_at :: "int option"

record member_row =
  m_org :: string
  m_user :: string
  m_role :: string
  m_enc_org_key :: "bytes option"

record project_row =
  p_id :: string
  p_owner :: string
  p_org :: "string option"
  p_enc_name :: bytes

record env_row =
  e_id :: string
  e_project :: string
  e_enc_name :: bytes
  e_revision :: int

record grant_row =
  g_env :: string
  g_user :: string
  g_enc_vault_key :: bytes
  g_granted_by :: "string option"

record secret_row =
  s_id :: string
  s_env :: string
  s_enc_name :: bytes
  s_enc_value :: bytes
  s_enc_data_key :: bytes
  s_version :: int
  s_deleted_at :: "int option"

record version_row =
  v_secret :: string
  v_version :: int
  v_enc_name :: bytes
  v_enc_value :: bytes
  v_enc_data_key :: bytes

record token_row =
  t_id :: string
  t_env :: string
  t_name :: string
  t_hash :: bytes
  t_public_key :: bytes
  t_enc_vault_key :: bytes
  t_created_by :: "string option"
  t_revoked_at :: "int option"

record audit_row =
  a_id :: int
  a_org :: string
  a_actor :: string
  a_action :: string
  a_target :: "string option"
  a_env :: "string option"
  a_detail :: "string option"
  a_created_at :: int

record share_row =
  l_token :: string
  l_enc_blob :: bytes
  l_salt :: "bytes option"
  l_created_by :: string
  l_max_views :: int
  l_view_count :: int
  l_expires_at :: "int option"
  l_revoked_at :: "int option"

record session_row =
  ss_hash :: bytes
  ss_user :: string
  ss_expires_at :: int
  ss_legacy :: bool

record code_row =
  c_hash :: bytes
  c_user :: string
  c_state :: string
  c_expires_at :: int

record login_row =
  lg_state :: string
  lg_redirect :: string
  lg_cli_state :: string
  lg_wants_code :: bool
  lg_created_at :: int

text \<open>One attempt to delete an organisation (\<open>organization_deletions\<close>), the worker's counters, and the
  receipts and ordering watermarks of the billing webhook.\<close>

record deletion_row =
  d_id :: string
  d_org :: string
  d_state :: string
  d_resume_state :: "string option"
  d_requested_by :: string
  d_requested_at :: int
  d_purge_after :: int
  d_subscription :: "string option"
  d_billing_state :: "string option"
  d_billing_checked_at :: "int option"
  d_billing_source :: "string option"
  d_observed_by :: "string option"
  d_reason :: "string option"
  d_evidence :: "string option"
  d_attempt_count :: int
  d_next_attempt_at :: "int option"
  d_last_error :: "string option"
  d_state_version :: int
  d_lease_owner :: "string option"
  d_lease_expires_at :: "int option"
  d_cancelled_at :: "int option"
  d_completed_at :: "int option"
  d_backup_expiry_by :: "int option"
  d_purge_started_at :: "int option"

record counter_row =
  mc_metric :: string
  mc_outcome :: string
  mc_value :: int

record webhook_row =
  we_id :: string
  we_type :: string
  we_version :: string
  we_created :: int
  we_subscription :: "string option"
  we_received_at :: int
  we_processed_at :: "int option"

record watermark_row =
  wm_subscription :: string
  wm_created :: int
  wm_event :: string

record db =
  users :: "user_row list"
  orgs :: "org_row list"
  members :: "member_row list"
  projects :: "project_row list"
  envs :: "env_row list"
  grants :: "grant_row list"
  secrets :: "secret_row list"
  versions :: "version_row list"
  tokens :: "token_row list"
  audit :: "audit_row list"
  audit_next :: int
  shares :: "share_row list"
  sessions :: "session_row list"
  login_codes :: "code_row list"
  oauth_logins :: "login_row list"
  deletions :: "deletion_row list"
  counters :: "counter_row list"
  webhook_events :: "webhook_row list"
  watermarks :: "watermark_row list"

definition empty_db :: db where
  "empty_db = \<lparr>users = [], orgs = [], members = [], projects = [], envs = [], grants = [], secrets = [],
     versions = [], tokens = [], audit = [], audit_next = 1, shares = [], sessions = [],
     login_codes = [], oauth_logins = [], deletions = [], counters = [], webhook_events = [], watermarks = []\<rparr>"

subsection \<open>Transactions\<close>

definition run_txn :: "(db \<Rightarrow> error + 'a \<times> db) \<Rightarrow> db \<Rightarrow> (error + 'a) \<times> db" where
  "run_txn body db = (case body db of Inl e \<Rightarrow> (Inl e, db) | Inr (x, db') \<Rightarrow> (Inr x, db'))"

lemma run_txn_Inr [tx_simps]: "run_txn body db = (Inr x, db') \<longleftrightarrow> body db = Inr (x, db')"
  by (auto simp: run_txn_def split: sum.splits prod.splits)

lemma run_txn_Inl: "run_txn body db = (Inl e, db') \<longleftrightarrow> body db = Inl e \<and> db' = db"
  by (auto simp: run_txn_def split: sum.splits prod.splits)

lemma run_txn_cases:
  obtains (rolled_back) e where "body db = Inl e" "run_txn body db = (Inl e, db)"
  | (committed) x db' where "body db = Inr (x, db')" "run_txn body db = (Inr x, db')"
  by (cases "body db") (auto simp: run_txn_def split: prod.splits)

text \<open>The shape of most handlers: checks on a snapshot, then the transaction.\<close>

lemma checked_txn:
  assumes "(case pre of Inl e \<Rightarrow> (Inl e, db) | Inr y \<Rightarrow> run_txn (body y) db) = (Inr c, db')"
  shows "\<exists>y. pre = Inr y \<and> body y db = Inr (c, db')"
  using assms by (auto simp: run_txn_Inr split: sum.splits)

lemma checked_txn_failed:
  assumes "(case pre of Inl e \<Rightarrow> (Inl e, db) | Inr y \<Rightarrow> run_txn (body y) db) = (Inl e', db')"
  shows "db' = db"
  using assms by (auto simp: run_txn_Inl split: sum.splits)

lemma checked_txn_pair:
  assumes "(case pre of Inl e \<Rightarrow> (Inl e, db) | Inr (x, y) \<Rightarrow> run_txn (body x y) db) = (Inr c, db')"
  shows "\<exists>x y. pre = Inr (x, y) \<and> body x y db = Inr (c, db')"
  using assms by (auto simp: run_txn_Inr split: sum.splits prod.splits)

subsection \<open>The audit log\<close>

record audit_context =
  cx_target :: "string option"
  cx_env :: "string option"
  cx_detail :: "string option"

definition no_context :: audit_context where
  "no_context = \<lparr>cx_target = None, cx_env = None, cx_detail = None\<rparr>"

definition record_tx :: "int \<Rightarrow> string \<Rightarrow> string \<Rightarrow> string \<Rightarrow> audit_context \<Rightarrow> db \<Rightarrow> db" where
  "record_tx now org actor action ctx db = db\<lparr>
     audit := sql_insert \<lparr>a_id = audit_next db, a_org = org, a_actor = actor, a_action = action,
       a_target = cx_target ctx, a_env = cx_env ctx, a_detail = cx_detail ctx, a_created_at = now\<rparr> (audit db),
     audit_next := audit_next db + 1\<rparr>"

lemma record_tx_frame [simp]:
  "users (record_tx now org actor action ctx db) = users db"
  "orgs (record_tx now org actor action ctx db) = orgs db"
  "members (record_tx now org actor action ctx db) = members db"
  "projects (record_tx now org actor action ctx db) = projects db"
  "envs (record_tx now org actor action ctx db) = envs db"
  "grants (record_tx now org actor action ctx db) = grants db"
  "secrets (record_tx now org actor action ctx db) = secrets db"
  "versions (record_tx now org actor action ctx db) = versions db"
  "tokens (record_tx now org actor action ctx db) = tokens db"
  "shares (record_tx now org actor action ctx db) = shares db"
  "sessions (record_tx now org actor action ctx db) = sessions db"
  "login_codes (record_tx now org actor action ctx db) = login_codes db"
  "oauth_logins (record_tx now org actor action ctx db) = oauth_logins db"
  "deletions (record_tx now org actor action ctx db) = deletions db"
  "counters (record_tx now org actor action ctx db) = counters db"
  "webhook_events (record_tx now org actor action ctx db) = webhook_events db"
  "watermarks (record_tx now org actor action ctx db) = watermarks db"
  by (simp_all add: record_tx_def)

subsection \<open>Lemmas on ids, encodings and errors\<close>

lemma validate_id_no_delimiter:
  "validate_id i field = Inr u \<Longrightarrow> CHR ''|'' \<notin> set i \<and> CHR ''='' \<notin> set i"
  by (auto simp: validate_id_def list_all_iff is_ascii_alphanumeric_def Let_def split: if_splits)

lemma encoding_decode_bound:
  "encoding_decode L val field limit = Inr bs \<Longrightarrow> length bs \<le> limit \<and> b64_decode L val = Some bs"
  by (auto simp: encoding_decode_def Let_def rbind_eq_Inr_iff split: if_splits)

lemma encoding_decode_error:
  "encoding_decode L val field limit = Inl e \<Longrightarrow> \<exists>m. e = BadRequest m"
  by (auto simp: encoding_decode_def Let_def rbind_eq_Inl_iff split: if_splits)

lemma encoding_decode_encode:
  assumes "b64_ok L" and "length bs \<le> limit"
  shows "encoding_decode L (encoding_encode L bs) field limit = Inr bs"
proof -
  have "(length bs + 2) div 3 \<le> (limit + 2) div 3"
    using assms(2) by (intro div_le_mono) simp
  with assms show ?thesis
    by (auto simp: encoding_decode_def encoding_encode_def b64_ok_def Let_def)
qed

text \<open>A server-side fault (status 500 or above, not counting an optional feature that is not
  configured) answers with a fixed message that does not depend on the fault's details.\<close>

theorem internal_faults_do_not_leak:
  assumes "500 \<le> fst (into_response e)" and "fst (into_response e) \<noteq> 503"
  shows "snd (into_response e) \<in> {''internal error'', ''upstream authentication error''}"
  using assms by (cases e) simp_all

theorem internal_faults_do_not_leak_witness:
  "snd (into_response (Db ''password=hunter2'')) \<in> {''internal error'', ''upstream authentication error''}"
  by (rule internal_faults_do_not_leak) simp_all

subsection \<open>A small instance\<close>

text \<open>
  The tables the witnesses evaluate on: an organisation \<open>acme\<close> on the team tier with the owner
  \<open>alice\<close>, the admin \<open>bob\<close> and the member \<open>carol\<close> (\<open>dave\<close> is outside), one shared project and
  environment, and bob's personal project and environment.
\<close>

definition demo_user :: "string \<Rightarrow> user_row" where
  "demo_user i = \<lparr>u_id = i, u_provider = ''github'', u_subject = i, u_email = Some (i @ ''@example.org''),
     u_public_key = Some [1], u_enc_private_keys = Some [2], u_kdf_params = Some [3], u_recovery_blob = Some [4]\<rparr>"

definition demo_db :: db where
  "demo_db = empty_db\<lparr>
     users := map demo_user [''alice'', ''bob'', ''carol'', ''dave''],
     orgs := [\<lparr>o_id = ''acme'', o_enc_name = Some [7], o_created_by = Some ''alice'', o_tier = ''team'',
               o_trial_ends_at = None, o_lifecycle = ''active'', o_stripe_customer = None, o_stripe_subscription = None, o_deleted_at = None\<rparr>],
     members := [\<lparr>m_org = ''acme'', m_user = ''alice'', m_role = ''owner'', m_enc_org_key = Some [8]\<rparr>,
                 \<lparr>m_org = ''acme'', m_user = ''bob'', m_role = ''admin'', m_enc_org_key = None\<rparr>,
                 \<lparr>m_org = ''acme'', m_user = ''carol'', m_role = ''member'', m_enc_org_key = None\<rparr>],
     projects := [\<lparr>p_id = ''web'', p_owner = ''alice'', p_org = Some ''acme'', p_enc_name = [9]\<rparr>,
                  \<lparr>p_id = ''blog'', p_owner = ''bob'', p_org = None, p_enc_name = [10]\<rparr>],
     envs := [\<lparr>e_id = ''prod'', e_project = ''web'', e_enc_name = [11], e_revision = 3\<rparr>,
              \<lparr>e_id = ''home'', e_project = ''blog'', e_enc_name = [12], e_revision = 0\<rparr>],
     grants := [\<lparr>g_env = ''prod'', g_user = ''alice'', g_enc_vault_key = [13], g_granted_by = Some ''alice''\<rparr>,
                \<lparr>g_env = ''prod'', g_user = ''bob'', g_enc_vault_key = [14], g_granted_by = Some ''alice''\<rparr>,
                \<lparr>g_env = ''home'', g_user = ''bob'', g_enc_vault_key = [15], g_granted_by = Some ''bob''\<rparr>],
     secrets := [\<lparr>s_id = ''db_url'', s_env = ''prod'', s_enc_name = [16], s_enc_value = [17], s_enc_data_key = [18],
                  s_version = 2, s_deleted_at = None\<rparr>],
     versions := [\<lparr>v_secret = ''db_url'', v_version = 1, v_enc_name = [19], v_enc_value = [20], v_enc_data_key = [21]\<rparr>],
     tokens := [\<lparr>t_id = ''ci'', t_env = ''prod'', t_name = ''deploy'', t_hash = [22], t_public_key = [23],
                 t_enc_vault_key = [24], t_created_by = Some ''bob'', t_revoked_at = None\<rparr>]\<rparr>"

lemma fst_eqD: "fst x = a \<Longrightarrow> x = (a, snd x)"
  by (cases x) simp

definition demo_lib :: lib where
  "demo_lib = \<lparr>b64_encode = (\<lambda>bs. replicate ((length bs + 2) div 3 * 4) CHR ''A''),
     b64_decode = (\<lambda>s. Some (replicate (min 32 (length s div 4 * 3)) 0)), blake2b = (\<lambda>s. [of_nat (length s)])\<rparr>"

lemma demo_decode:
  "length val \<le> (limit + 2) div 3 * 4 \<Longrightarrow> length val div 4 * 3 \<le> limit \<Longrightarrow>
     encoding_decode demo_lib val field limit = Inr (replicate (min 32 (length val div 4 * 3)) 0)"
  by (simp add: encoding_decode_def demo_lib_def)

lemmas demo_eval = validate_id_def MAX_ID_def is_ascii_alphanumeric_def demo_decode
  MAX_ENC_NAME_def MAX_ENC_VALUE_def MAX_ENC_KEY_def run_txn_def sql_find_def sql_exists_def sql_count_def
  sql_select_def sql_update_def sql_delete_def sql_insert_def demo_db_def empty_db_def demo_user_def

end
