(* ===== verification/Org.thy ===== *)
theory Org
  imports Server_Base
begin

text \<open>
  Organisations, memberships, roles and the quotas on them: \<open>org.rs\<close> and \<open>entitlements.rs\<close>.

  A role and a lifecycle state are text in the tables, parsed where the code parses them. The
  handlers that change membership first authorise on a snapshot (\<open>db0\<close>) and authorise again inside
  the transaction, under the organisation's row lock; the lock is why the transaction body runs on
  one state.
\<close>

subsection \<open>Roles and lifecycle\<close>

datatype role = Owner | Admin | Member

fun as_str :: "role \<Rightarrow> string" where
  "as_str Owner = ''owner''"
| "as_str Admin = ''admin''"
| "as_str Member = ''member''"

definition role_from_db :: "string \<Rightarrow> error + role" where
  "role_from_db s =
     (if s = ''owner'' then Inr Owner
      else if s = ''admin'' then Inr Admin
      else if s = ''member'' then Inr Member
      else Inl (Config (''unknown membership role in db: '' @ s)))"

fun rank :: "role \<Rightarrow> nat" where
  "rank Owner = 2"
| "rank Admin = 1"
| "rank Member = 0"

definition is_at_least :: "role \<Rightarrow> role \<Rightarrow> bool" where
  "is_at_least r other \<longleftrightarrow> rank other \<le> rank r"

definition can_manage_members :: "role \<Rightarrow> bool" where
  "can_manage_members r \<longleftrightarrow> is_at_least r Admin"

datatype lifecycle_state = Active | Deleting | Deleted

definition lifecycle_from_db :: "string \<Rightarrow> error + lifecycle_state" where
  "lifecycle_from_db s =
     (if s = ''active'' then Inr Active
      else if s = ''deleting'' then Inr Deleting
      else if s = ''deleted'' then Inr Deleted
      else Inl (Config (''unknown organisation lifecycle state in db: '' @ s)))"

fun lifecycle_require_write :: "lifecycle_state \<Rightarrow> error + unit" where
  "lifecycle_require_write Active = Inr ()"
| "lifecycle_require_write Deleting = Inl (Conflict ''organisation deletion is in progress'')"
| "lifecycle_require_write Deleted = Inl (NotFound ''organisation not found'')"

record org_access =
  oa_role :: role
  oa_lifecycle :: lifecycle_state

definition oa_require_write :: "org_access \<Rightarrow> error + unit" where
  "oa_require_write a = lifecycle_require_write (oa_lifecycle a)"

subsection \<open>Resolving a caller\<close>

definition is_membership :: "string \<Rightarrow> string \<Rightarrow> member_row \<Rightarrow> bool" where
  "is_membership org user m \<longleftrightarrow> m_org m = org \<and> m_user m = user"

definition find_member :: "db \<Rightarrow> string \<Rightarrow> string \<Rightarrow> member_row option" where
  "find_member db org user = sql_find (is_membership org user) (members db)"

definition find_org :: "db \<Rightarrow> string \<Rightarrow> org_row option" where
  "find_org db org = sql_find (\<lambda>og. o_id og = org) (orgs db)"

definition member_exists :: "db \<Rightarrow> string \<Rightarrow> string \<Rightarrow> bool" where
  "member_exists db org target \<longleftrightarrow> find_member db org target \<noteq> None"

definition access_from_row :: "(string \<times> string) option \<Rightarrow> error + org_access" where
  "access_from_row row =
     rbind (ok_or row (NotFound ''organisation not found'')) (\<lambda>(role, lifecycle).
     rbind (lifecycle_from_db lifecycle) (\<lambda>lifecycle.
     if lifecycle = Deleted then Inl (NotFound ''organisation not found'')
     else rbind (role_from_db role) (\<lambda>role. Inr \<lparr>oa_role = role, oa_lifecycle = lifecycle\<rparr>)))"

definition org_access :: "db \<Rightarrow> string \<Rightarrow> string \<Rightarrow> error + org_access" where
  "org_access db org user =
     access_from_row (case (find_org db org, find_member db org user) of
         (Some og, Some m) \<Rightarrow> Some (m_role m, o_lifecycle og)
       | _ \<Rightarrow> None)"

definition access_for_update :: "db \<Rightarrow> string \<Rightarrow> string \<Rightarrow> error + org_access" where
  "access_for_update db org user =
     (case find_org db org of
        None \<Rightarrow> Inl (NotFound ''organisation not found'')
      | Some og \<Rightarrow> access_from_row (map_option (\<lambda>m. (m_role m, o_lifecycle og)) (find_member db org user)))"

definition member_role :: "db \<Rightarrow> string \<Rightarrow> string \<Rightarrow> error + role" where
  "member_role db org target =
     (case find_member db org target of
        Some m \<Rightarrow> role_from_db (m_role m)
      | None \<Rightarrow> Inl (NotFound ''member not found''))"

definition is_owner_row :: "string \<Rightarrow> member_row \<Rightarrow> bool" where
  "is_owner_row org m \<longleftrightarrow> m_org m = org \<and> m_role m = ''owner''"

definition lock_owner_count :: "db \<Rightarrow> string \<Rightarrow> nat" where
  "lock_owner_count db org = sql_count (is_owner_row org) (members db)"

subsection \<open>Entitlements\<close>

definition FREE_MAX_MEMBERS :: nat where "FREE_MAX_MEMBERS = 3"
definition FREE_MAX_ORG_PROJECTS :: nat where "FREE_MAX_ORG_PROJECTS = 1"

datatype tier = Free | Team

definition trial_active :: "int \<Rightarrow> org_row \<Rightarrow> bool" where
  "trial_active now og \<longleftrightarrow> (case o_trial_ends_at og of None \<Rightarrow> False | Some t \<Rightarrow> now < t)"

definition effective_tier :: "db \<Rightarrow> int \<Rightarrow> string \<Rightarrow> error + tier" where
  "effective_tier db now org =
     rbind (ok_or (find_org db org) (NotFound ''organisation not found'')) (\<lambda>og.
       if o_tier og = ''team'' \<or> trial_active now og then Inr Team else Inr Free)"

definition require_team :: "db \<Rightarrow> int \<Rightarrow> string \<Rightarrow> string \<Rightarrow> error + unit" where
  "require_team db now org feature =
     rbind (effective_tier db now org) (\<lambda>t. case t of
         Team \<Rightarrow> Inr ()
       | Free \<Rightarrow> Inl (Quota (feature @ '' is a Team feature; upgrade the organisation to keep using it'')))"

definition effective_tier_locked :: "db \<Rightarrow> int \<Rightarrow> string \<Rightarrow> error + tier" where
  "effective_tier_locked db now org =
     rbind (ok_or (find_org db org) (NotFound ''organisation not found'')) (\<lambda>og.
     rbind (lifecycle_from_db (o_lifecycle og)) (\<lambda>lifecycle.
     rbind (lifecycle_require_write lifecycle) (\<lambda>_.
       if o_tier og = ''team'' \<or> trial_active now og then Inr Team else Inr Free)))"

definition check_can_add_member :: "db \<Rightarrow> int \<Rightarrow> string \<Rightarrow> error + unit" where
  "check_can_add_member db now org =
     rbind (effective_tier_locked db now org) (\<lambda>t.
       if t = Team then Inr ()
       else if FREE_MAX_MEMBERS \<le> sql_count (\<lambda>m. m_org m = org) (members db)
       then Inl (Quota (''the free tier allows '' @ dec_nat FREE_MAX_MEMBERS @
         '' members per organisation; upgrade to add more''))
       else Inr ())"

definition check_can_create_org_project :: "db \<Rightarrow> int \<Rightarrow> string \<Rightarrow> string \<Rightarrow> error + unit" where
  "check_can_create_org_project db now org project_id =
     rbind (effective_tier_locked db now org) (\<lambda>t.
       if t = Team then Inr ()
       else if sql_exists (\<lambda>p. p_id p = project_id) (projects db) then Inr ()
       else if FREE_MAX_ORG_PROJECTS \<le> sql_count (\<lambda>p. p_org p = Some org) (projects db)
       then Inl (Quota (''the free tier allows '' @ dec_nat FREE_MAX_ORG_PROJECTS @
         '' project per organisation; upgrade to add more''))
       else Inr ())"

record entitlements_view =
  ev_tier :: string
  ev_effective_tier :: string
  ev_trial_ends_at :: "int option"
  ev_limits :: "(nat \<times> nat) option"
  ev_billing_enabled :: bool

definition get_entitlements :: "db \<Rightarrow> int \<Rightarrow> bool \<Rightarrow> string \<Rightarrow> string \<Rightarrow> error + entitlements_view" where
  "get_entitlements db now billing_enabled user org =
     rbind (org_access db org user) (\<lambda>_.
     rbind (ok_or (find_org db org) (Db ''no row'')) (\<lambda>og.
     rbind (effective_tier db now org) (\<lambda>effective.
       Inr \<lparr>ev_tier = o_tier og,
            ev_effective_tier = (case effective of Team \<Rightarrow> ''team'' | Free \<Rightarrow> ''free''),
            ev_trial_ends_at = o_trial_ends_at og,
            ev_limits = (case effective of Team \<Rightarrow> None | Free \<Rightarrow> Some (FREE_MAX_MEMBERS, FREE_MAX_ORG_PROJECTS)),
            ev_billing_enabled = billing_enabled\<rparr>)))"

subsection \<open>Organisations\<close>

definition user_exists :: "db \<Rightarrow> string \<Rightarrow> bool" where
  "user_exists db user = sql_exists (\<lambda>u. u_id u = user) (users db)"

definition create_org ::
    "lib \<Rightarrow> int \<Rightarrow> string \<Rightarrow> string \<Rightarrow> string \<Rightarrow> string \<Rightarrow> db \<Rightarrow> (error + nat) \<times> db" where
  "create_org L now user i enc_name enc_org_key db =
     (case rbind (validate_id i ''id'') (\<lambda>_.
           rbind (encoding_decode L enc_name ''enc_name'' MAX_ENC_NAME) (\<lambda>enc_name.
           rbind (encoding_decode L enc_org_key ''enc_org_key'' MAX_ENC_NAME) (\<lambda>enc_org_key.
             Inr (enc_name, enc_org_key)))) of
        Inl e \<Rightarrow> (Inl e, db)
      | Inr (enc_name, enc_org_key) \<Rightarrow>
          if find_org db i = None then
            run_txn (\<lambda>db.
              rbind (require (user_exists db user) (Db ''foreign key violation'')) (\<lambda>_.
              Inr (201, record_tx now i user ''org.created'' no_context
                (db\<lparr>orgs := sql_insert \<lparr>o_id = i, o_enc_name = Some enc_name, o_created_by = Some user,
                              o_tier = ''free'', o_trial_ends_at = Some (now + 14 * 86400 * 1000000),
                              o_lifecycle = ''active'', o_stripe_customer = None, o_stripe_subscription = None, o_deleted_at = None\<rparr> (orgs db),
                    members := sql_insert \<lparr>m_org = i, m_user = user, m_role = ''owner'',
                              m_enc_org_key = Some enc_org_key\<rparr> (members db)\<rparr>)))) db
          else
            (case map_option m_role (find_member db i user) of
               Some r \<Rightarrow> if r = ''owner'' then (Inr 200, db)
                         else (Inl (Conflict ''organisation id already in use''), db)
             | None \<Rightarrow> (Inl (Conflict ''organisation id already in use''), db)))"

record org_view =
  ov_id :: string
  ov_enc_name :: string
  ov_role :: role
  ov_enc_org_key :: "string option"

definition list_orgs :: "lib \<Rightarrow> db \<Rightarrow> string \<Rightarrow> error + org_view list" where
  "list_orgs L db user =
     map_result (\<lambda>(og, m).
         rbind (ok_or (o_enc_name og) (Db ''unexpected null'')) (\<lambda>enc_name.
         rbind (role_from_db (m_role m)) (\<lambda>r.
           Inr \<lparr>ov_id = o_id og, ov_enc_name = encoding_encode L enc_name, ov_role = r,
                ov_enc_org_key = map_option (encoding_encode L) (m_enc_org_key m)\<rparr>)))
       (sort_key (\<lambda>(og, m). o_id og)
         (concat (map (\<lambda>og. map (Pair og)
             (sql_select (\<lambda>m. m_org m = o_id og \<and> m_user m = user) (members db)))
           (sql_select (\<lambda>og. o_lifecycle og \<noteq> ''deleted'') (orgs db)))))"

definition grant_org_key ::
    "lib \<Rightarrow> int \<Rightarrow> string \<Rightarrow> string \<Rightarrow> string \<Rightarrow> string \<Rightarrow> db \<Rightarrow> (error + nat) \<times> db" where
  "grant_org_key L now user org target enc_org_key = run_txn (\<lambda>db.
     rbind (access_for_update db org user) (\<lambda>caller.
     rbind (oa_require_write caller) (\<lambda>_.
     rbind (require (can_manage_members (oa_role caller))
       (Forbidden ''must be an admin or owner to grant the org key'')) (\<lambda>_.
     rbind (encoding_decode L enc_org_key ''enc_org_key'' MAX_ENC_NAME) (\<lambda>enc_org_key.
     rbind (require (0 < sql_count (is_membership org target) (members db)) (NotFound ''member not found'')) (\<lambda>_.
     Inr (200, record_tx now org user ''member.org_key_granted'' (no_context\<lparr>cx_target := Some target\<rparr>)
       (db\<lparr>members := sql_update (is_membership org target) (\<lambda>m. m\<lparr>m_enc_org_key := Some enc_org_key\<rparr>)
                        (members db)\<rparr>))))))))"

subsection \<open>Members\<close>

record member_view =
  mv_user :: string
  mv_role :: role
  mv_public_key :: "string option"

definition list_members :: "lib \<Rightarrow> db \<Rightarrow> string \<Rightarrow> string \<Rightarrow> error + member_view list" where
  "list_members L db user org =
     rbind (org_access db org user) (\<lambda>_.
       map_result (\<lambda>(m, u). rbind (role_from_db (m_role m)) (\<lambda>r.
           Inr \<lparr>mv_user = m_user m, mv_role = r, mv_public_key = map_option (encoding_encode L) (u_public_key u)\<rparr>))
         (sort_key (\<lambda>(m, u). m_user m)
           (concat (map (\<lambda>m. map (Pair m) (sql_select (\<lambda>u. u_id u = m_user m) (users db)))
             (sql_select (\<lambda>m. m_org m = org) (members db))))))"

definition in_org_env :: "db \<Rightarrow> string \<Rightarrow> string \<Rightarrow> bool" where
  "in_org_env db org env \<longleftrightarrow> sql_exists (\<lambda>e. e_id e = env \<and>
     sql_exists (\<lambda>p. p_id p = e_project e \<and> p_org p = Some org) (projects db)) (envs db)"

definition org_grant :: "db \<Rightarrow> string \<Rightarrow> string \<Rightarrow> grant_row \<Rightarrow> bool" where
  "org_grant db org user g \<longleftrightarrow> g_user g = user \<and> in_org_env db org (g_env g)"

definition delete_org_grants :: "string \<Rightarrow> string \<Rightarrow> db \<Rightarrow> nat \<times> db" where
  "delete_org_grants org user db =
     (sql_count (org_grant db org user) (grants db),
      db\<lparr>grants := sql_delete (org_grant db org user) (grants db)\<rparr>)"

definition add_member ::
    "int \<Rightarrow> string \<Rightarrow> string \<Rightarrow> string \<Rightarrow> role \<Rightarrow> db \<Rightarrow> db \<Rightarrow> (error + nat) \<times> db" where
  "add_member now user org target role db0 db =
     (case rbind (org_access db0 org user) (\<lambda>caller.
           rbind (oa_require_write caller) (\<lambda>_.
           rbind (require (can_manage_members (oa_role caller))
             (Forbidden ''must be an admin or owner to add members'')) (\<lambda>_.
           require (\<not> (role = Owner \<and> oa_role caller \<noteq> Owner))
             (Forbidden ''only an owner can grant the owner role'')))) of
        Inl e \<Rightarrow> (Inl e, db)
      | Inr _ \<Rightarrow> run_txn (\<lambda>db.
          rbind (access_for_update db org user) (\<lambda>locked.
          rbind (oa_require_write locked) (\<lambda>_.
          rbind (require (can_manage_members (oa_role locked))
            (Forbidden ''must be an admin or owner to add members'')) (\<lambda>_.
          rbind (require (\<not> (role = Owner \<and> oa_role locked \<noteq> Owner))
            (Forbidden ''only an owner can grant the owner role'')) (\<lambda>_.
          rbind (check_can_add_member db now org) (\<lambda>_.
          rbind (require (\<not> member_exists db org target)
            (Conflict ''user is already a member; use update to change their role'')) (\<lambda>_.
          rbind (require (user_exists db target) (NotFound ''user not found'')) (\<lambda>_.
          let db = db\<lparr>members := sql_insert \<lparr>m_org = org, m_user = target, m_role = as_str role,
                                m_enc_org_key = None\<rparr> (members db)\<rparr>;
              (_, db) = delete_org_grants org target db
          in Inr (201, record_tx now org user ''member.added''
               (no_context\<lparr>cx_target := Some target, cx_detail := Some (as_str role)\<rparr>) db)))))))))  db)"

definition invite_member ::
    "lib \<Rightarrow> int \<Rightarrow> string \<Rightarrow> string \<Rightarrow> string \<Rightarrow> db \<Rightarrow> db \<Rightarrow> (error + string \<times> string option) \<times> db" where
  "invite_member L now user org email db0 db =
     (case rbind (org_access db0 org user) (\<lambda>caller.
           rbind (oa_require_write caller) (\<lambda>_.
           rbind (require (can_manage_members (oa_role caller))
             (Forbidden ''must be an admin or owner to invite members'')) (\<lambda>_.
           case sql_select (\<lambda>u. u_email u = Some email) (users db0) of
             [] \<Rightarrow> Inl (NotFound ''no Sotto user with that email'')
           | [only] \<Rightarrow> Inr (u_id only, u_public_key only)
           | _ \<Rightarrow> Inl (Conflict ''multiple users share that email'')))) of
        Inl e \<Rightarrow> (Inl e, db)
      | Inr (target_id, public_key) \<Rightarrow> run_txn (\<lambda>db.
          rbind (access_for_update db org user) (\<lambda>locked.
          rbind (oa_require_write locked) (\<lambda>_.
          rbind (require (can_manage_members (oa_role locked))
            (Forbidden ''must be an admin or owner to invite members'')) (\<lambda>_.
          rbind (check_can_add_member db now org) (\<lambda>_.
          rbind (require (\<not> member_exists db org target_id) (Conflict ''user is already a member'')) (\<lambda>_.
          rbind (require (user_exists db target_id) (Db ''foreign key violation'')) (\<lambda>_.
          let db = db\<lparr>members := sql_insert \<lparr>m_org = org, m_user = target_id, m_role = ''member'',
                                m_enc_org_key = None\<rparr> (members db)\<rparr>;
              (_, db) = delete_org_grants org target_id db
          in Inr ((target_id, map_option (encoding_encode L) public_key),
               record_tx now org user ''member.invited'' (no_context\<lparr>cx_target := Some target_id\<rparr>) db))))))))  db)"

definition member_env_grants :: "db \<Rightarrow> string \<Rightarrow> string \<Rightarrow> string \<Rightarrow> error + string list" where
  "member_env_grants db user org target =
     rbind (org_access db org user) (\<lambda>caller.
     rbind (require (can_manage_members (oa_role caller))
       (Forbidden ''must be an admin or owner to list a member's grants'')) (\<lambda>_.
     Inr (sort (map g_env (sql_select (org_grant db org target) (grants db))))))"

definition update_member ::
    "int \<Rightarrow> string \<Rightarrow> string \<Rightarrow> string \<Rightarrow> role \<Rightarrow> db \<Rightarrow> db \<Rightarrow> (error + nat) \<times> db" where
  "update_member now user org target role db0 db =
     (case rbind (org_access db0 org user) (\<lambda>caller.
           rbind (oa_require_write caller) (\<lambda>_.
           require (can_manage_members (oa_role caller))
             (Forbidden ''must be an admin or owner to change roles''))) of
        Inl e \<Rightarrow> (Inl e, db)
      | Inr _ \<Rightarrow> run_txn (\<lambda>db.
          rbind (access_for_update db org user) (\<lambda>locked.
          rbind (oa_require_write locked) (\<lambda>_.
          rbind (require (can_manage_members (oa_role locked))
            (Forbidden ''must be an admin or owner to change roles'')) (\<lambda>_.
          let owners = lock_owner_count db org in
          rbind (member_role db org target) (\<lambda>current.
          rbind (require (\<not> ((role = Owner \<or> current = Owner) \<and> oa_role locked \<noteq> Owner))
            (Forbidden ''only an owner can change the owner role'')) (\<lambda>_.
          rbind (require (\<not> (current = Owner \<and> role \<noteq> Owner \<and> owners = 1))
            (Conflict ''cannot demote the last owner'')) (\<lambda>_.
          Inr (200, record_tx now org user ''member.role_changed''
            (no_context\<lparr>cx_target := Some target, cx_detail := Some (as_str role)\<rparr>)
            (db\<lparr>members := sql_update (is_membership org target) (\<lambda>m. m\<lparr>m_role := as_str role\<rparr>)
                             (members db)\<rparr>))))))))) db)"

record revoked_token =
  rt_token :: string
  rt_name :: string
  rt_env :: string

record removal_receipt =
  rr_revoked_tokens :: "revoked_token list"
  rr_grants_deleted :: nat

definition peer_holds :: "db \<Rightarrow> string \<Rightarrow> string \<Rightarrow> string \<Rightarrow> bool" where
  "peer_holds db org target env \<longleftrightarrow> sql_exists (\<lambda>peer. g_env peer = env \<and> g_user peer \<noteq> target \<and>
     sql_exists (\<lambda>m. m_org m = org \<and> m_user m = g_user peer) (members db)) (grants db)"

definition target_envs :: "db \<Rightarrow> string \<Rightarrow> string \<Rightarrow> string list" where
  "target_envs db org target = sort (map g_env
     (sql_select (\<lambda>g. org_grant db org target g \<and> peer_holds db org target (g_env g)) (grants db)))"

definition caller_envs :: "db \<Rightarrow> string \<Rightarrow> string \<Rightarrow> string list" where
  "caller_envs db org user = map g_env (sql_select (org_grant db org user) (grants db))"

definition missing_envs :: "db \<Rightarrow> string \<Rightarrow> string \<Rightarrow> string \<Rightarrow> string list" where
  "missing_envs db org user target =
     filter (\<lambda>env. env \<notin> set (caller_envs db org user)) (target_envs db org target)"

definition created_in_org :: "db \<Rightarrow> string \<Rightarrow> string \<Rightarrow> token_row \<Rightarrow> bool" where
  "created_in_org db org target t \<longleftrightarrow>
     in_org_env db org (t_env t) \<and> t_created_by t = Some target \<and> t_revoked_at t = None"

definition revoke_created_tokens :: "int \<Rightarrow> string \<Rightarrow> string \<Rightarrow> db \<Rightarrow> revoked_token list \<times> db" where
  "revoke_created_tokens now org target db =
     (map (\<lambda>t. \<lparr>rt_token = t_id t, rt_name = t_name t, rt_env = t_env t\<rparr>)
        (sql_select (created_in_org db org target) (tokens db)),
      db\<lparr>tokens := sql_update (created_in_org db org target) (\<lambda>t. t\<lparr>t_revoked_at := Some now\<rparr>) (tokens db)\<rparr>)"

definition audit_revoked :: "int \<Rightarrow> string \<Rightarrow> string \<Rightarrow> revoked_token list \<Rightarrow> db \<Rightarrow> db" where
  "audit_revoked now org user revoked db = foldl (\<lambda>db r. record_tx now org user ''token.revoked''
     \<lparr>cx_target = Some (rt_token r), cx_env = Some (rt_env r), cx_detail = Some (rt_name r)\<rparr> db) db revoked"

definition missing_grants_message :: "string list \<Rightarrow> string" where
  "missing_grants_message missing = ''cannot complete removal: you hold no grant to environment(s) '' @
     join '', '' missing @ ''; ask a member who holds them to share each environment with you and retry, '' @
     ''or to perform the removal themselves''"

definition removal_detail :: "nat \<Rightarrow> nat \<Rightarrow> string" where
  "removal_detail grants_deleted revoked =
     ''removed '' @ dec_nat grants_deleted @ '' grant(s), revoked '' @ dec_nat revoked @ '' token(s)''"

definition commit_removal ::
    "int \<Rightarrow> string \<Rightarrow> string \<Rightarrow> string \<Rightarrow> db \<Rightarrow> removal_receipt \<times> db" where
  "commit_removal now org user target db =
     (let (grants_deleted, db) = delete_org_grants org target db;
          (revoked, db) = revoke_created_tokens now org target db;
          db = db\<lparr>members := sql_delete (is_membership org target) (members db)\<rparr>;
          db = audit_revoked now org user revoked db;
          db = record_tx now org user ''member.removed''
            (no_context\<lparr>cx_target := Some target,
               cx_detail := Some (removal_detail grants_deleted (length revoked))\<rparr>) db
      in (\<lparr>rr_revoked_tokens = revoked, rr_grants_deleted = grants_deleted\<rparr>, db))"

definition remove_member ::
    "int \<Rightarrow> string \<Rightarrow> string \<Rightarrow> string \<Rightarrow> db \<Rightarrow> db \<Rightarrow> (error + removal_receipt) \<times> db" where
  "remove_member now user org target db0 db =
     (case rbind (org_access db0 org user) (\<lambda>caller.
           rbind (oa_require_write caller) (\<lambda>_.
           require (can_manage_members (oa_role caller))
             (Forbidden ''must be an admin or owner to remove members''))) of
        Inl e \<Rightarrow> (Inl e, db)
      | Inr _ \<Rightarrow> run_txn (\<lambda>db.
          rbind (access_for_update db org user) (\<lambda>locked.
          rbind (oa_require_write locked) (\<lambda>_.
          rbind (require (can_manage_members (oa_role locked))
            (Forbidden ''must be an admin or owner to remove members'')) (\<lambda>_.
          let owners = lock_owner_count db org in
          rbind (member_role db org target) (\<lambda>current.
          rbind (if current = Owner
                 then rbind (require (oa_role locked = Owner)
                        (Forbidden ''only an owner can remove an owner'')) (\<lambda>_.
                      require (owners \<noteq> 1) (Conflict ''cannot remove the last owner''))
                 else Inr ()) (\<lambda>_.
          let missing = missing_envs db org user target in
          rbind (require (missing = [])
            (Conflict (missing_grants_message missing))) (\<lambda>_.
          Inr (commit_removal now org user target db)))))))) db)"

subsection \<open>What each operation commits\<close>

text \<open>
  For every operation: what held when it committed and the exact new state, from which the
  properties below follow by the laws of the table operators; and that a failed one changes nothing.
\<close>

lemma oa_require_write_Inr_iff: "oa_require_write a = Inr u \<longleftrightarrow> oa_lifecycle a = Active"
  by (cases "oa_lifecycle a") (simp_all add: oa_require_write_def)

lemma role_from_db_as_str [simp]: "role_from_db (as_str r) = Inr r"
  by (cases r) (simp_all add: role_from_db_def)

lemma role_from_db_Inr_iff: "role_from_db s = Inr r \<longleftrightarrow> s = as_str r"
  by (cases r) (auto simp: role_from_db_def)

interpretation role_text: codec as_str role_from_db
  by unfold_locales simp

lemma lifecycle_from_db_Active_iff: "lifecycle_from_db s = Inr Active \<longleftrightarrow> s = ''active''"
  by (simp add: lifecycle_from_db_def)

lemma access_from_row_Inr_iff:
  "access_from_row row = Inr a \<longleftrightarrow>
     (\<exists>l. row = Some (as_str (oa_role a), l) \<and> lifecycle_from_db l = Inr (oa_lifecycle a) \<and> oa_lifecycle a \<noteq> Deleted)"
  by (cases a) (auto simp: access_from_row_def rbind_eq_Inr_iff role_from_db_Inr_iff
      split: prod.splits if_splits)

lemma access_for_update_Inr_iff:
  "access_for_update db org user = Inr a \<longleftrightarrow>
     (\<exists>og m. find_org db org = Some og \<and> find_member db org user = Some m \<and>
       m_role m = as_str (oa_role a) \<and> lifecycle_from_db (o_lifecycle og) = Inr (oa_lifecycle a) \<and>
       oa_lifecycle a \<noteq> Deleted)"
  by (auto simp: access_for_update_def access_from_row_Inr_iff split: option.splits)

lemma org_access_eq_access_for_update: "org_access db org user = access_for_update db org user"
  by (auto simp: org_access_def access_for_update_def access_from_row_def split: option.splits)

lemma member_role_Inr_iff:
  "member_role db org target = Inr r \<longleftrightarrow> (\<exists>m. find_member db org target = Some m \<and> m_role m = as_str r)"
  by (auto simp: member_role_def role_from_db_Inr_iff split: option.splits)

lemma find_member_SomeD:
  "find_member db org user = Some m \<Longrightarrow> m \<in> set (members db) \<and> m_org m = org \<and> m_user m = user"
  unfolding find_member_def by (drule sql_find_SomeD) (simp add: is_membership_def)

lemma find_member_None_iff:
  "find_member db org user = None \<longleftrightarrow> (\<forall>m \<in> set (members db). \<not> is_membership org user m)"
  by (simp add: find_member_def sql_find_None_iff)

lemma find_org_SomeD: "find_org db org = Some og \<Longrightarrow> og \<in> set (orgs db) \<and> o_id og = org"
  unfolding find_org_def by (drule sql_find_SomeD) simp

lemma find_member_cong: "members db' = members db \<Longrightarrow> find_member db' = find_member db"
  by (simp add: find_member_def fun_eq_iff)

lemma find_org_cong: "orgs db' = orgs db \<Longrightarrow> find_org db' = find_org db"
  by (simp add: find_org_def fun_eq_iff)

lemma access_for_update_cong:
  "members db' = members db \<Longrightarrow> orgs db' = orgs db \<Longrightarrow> access_for_update db' = access_for_update db"
  using find_member_cong [of db' db] find_org_cong [of db' db]
  by (simp add: access_for_update_def fun_eq_iff split: option.split)

lemma in_org_env_cong [simp]:
  "in_org_env (db\<lparr>members := ms\<rparr>) = in_org_env db"
  "in_org_env (db\<lparr>grants := gs\<rparr>) = in_org_env db"
  "in_org_env (db\<lparr>tokens := ts\<rparr>) = in_org_env db"
  by (auto simp: in_org_env_def fun_eq_iff)

lemma org_grant_cong [simp]:
  "org_grant (db\<lparr>members := ms\<rparr>) = org_grant db"
  "org_grant (db\<lparr>grants := gs\<rparr>) = org_grant db"
  by (auto simp: org_grant_def fun_eq_iff)

lemma created_in_org_cong [simp]:
  "created_in_org (db\<lparr>members := ms\<rparr>) = created_in_org db"
  "created_in_org (db\<lparr>grants := gs\<rparr>) = created_in_org db"
  by (auto simp: created_in_org_def fun_eq_iff)

lemma audit_revoked_frame [simp]:
  "users (audit_revoked now org user rs db) = users db"
  "orgs (audit_revoked now org user rs db) = orgs db"
  "members (audit_revoked now org user rs db) = members db"
  "projects (audit_revoked now org user rs db) = projects db"
  "envs (audit_revoked now org user rs db) = envs db"
  "grants (audit_revoked now org user rs db) = grants db"
  "secrets (audit_revoked now org user rs db) = secrets db"
  "versions (audit_revoked now org user rs db) = versions db"
  "tokens (audit_revoked now org user rs db) = tokens db"
  "shares (audit_revoked now org user rs db) = shares db"
  "sessions (audit_revoked now org user rs db) = sessions db"
  "login_codes (audit_revoked now org user rs db) = login_codes db"
  "oauth_logins (audit_revoked now org user rs db) = oauth_logins db"
  "deletions (audit_revoked now org user rs db) = deletions db"
  unfolding audit_revoked_def by (induction rs arbitrary: db) simp_all

definition write_authority :: "db \<Rightarrow> string \<Rightarrow> string \<Rightarrow> role \<Rightarrow> bool" where
  "write_authority db org user r \<longleftrightarrow>
     access_for_update db org user = Inr \<lparr>oa_role = r, oa_lifecycle = Active\<rparr>"

lemma write_authorityI:
  "access_for_update db org user = Inr a \<Longrightarrow> oa_lifecycle a = Active \<Longrightarrow> write_authority db org user (oa_role a)"
  by (cases a) (simp add: write_authority_def)

lemma write_authority_iff:
  "write_authority db org user r \<longleftrightarrow>
     (\<exists>og m. find_org db org = Some og \<and> o_lifecycle og = ''active'' \<and>
       find_member db org user = Some m \<and> m_role m = as_str r)"
  by (simp add: write_authority_def access_for_update_Inr_iff lifecycle_from_db_Active_iff) blast

lemma create_org_committed:
  assumes "create_org L now user i enc_name enc_org_key db = (Inr c, db')"
  shows "(c = 201 \<and> find_org db i = None \<and> user_exists db user \<and> validate_id i ''id'' = Inr () \<and>
       (\<exists>name key. b64_decode L enc_name = Some name \<and> b64_decode L enc_org_key = Some key \<and>
          db' = record_tx now i user ''org.created'' no_context
            (db\<lparr>orgs := sql_insert \<lparr>o_id = i, o_enc_name = Some name, o_created_by = Some user,
                  o_tier = ''free'', o_trial_ends_at = Some (now + 14 * 86400 * 1000000),
                  o_lifecycle = ''active'', o_stripe_customer = None, o_stripe_subscription = None, o_deleted_at = None\<rparr> (orgs db),
                members := sql_insert \<lparr>m_org = i, m_user = user, m_role = ''owner'',
                  m_enc_org_key = Some key\<rparr> (members db)\<rparr>))) \<or>
     (c = 200 \<and> db' = db \<and> find_org db i \<noteq> None \<and> member_role db i user = Inr Owner)"
  using assms unfolding create_org_def
  by (auto simp: rbind_eq_Inr_iff run_txn_Inr member_role_Inr_iff dest!: encoding_decode_bound
      split: sum.splits prod.splits if_splits option.splits)

lemma create_org_failed: "create_org L now user i enc_name enc_org_key db = (Inl e, db') \<Longrightarrow> db' = db"
  unfolding create_org_def
  by (auto simp: run_txn_Inl split: sum.splits prod.splits if_splits option.splits)

lemma grant_org_key_committed:
  assumes "grant_org_key L now user org target enc_org_key db = (Inr c, db')"
  obtains r key where "c = 200" "write_authority db org user r" "can_manage_members r"
    "b64_decode L enc_org_key = Some key" "find_member db org target \<noteq> None"
    "db' = record_tx now org user ''member.org_key_granted'' (no_context\<lparr>cx_target := Some target\<rparr>)
       (db\<lparr>members := sql_update (is_membership org target) (\<lambda>m. m\<lparr>m_enc_org_key := Some key\<rparr>) (members db)\<rparr>)"
  using assms unfolding grant_org_key_def
  by (auto simp: run_txn_Inr rbind_eq_Inr_iff oa_require_write_Inr_iff sql_count_pos_iff find_member_None_iff
      dest!: encoding_decode_bound intro: write_authorityI)

lemma grant_org_key_failed: "grant_org_key L now user org target k db = (Inl e, db') \<Longrightarrow> db' = db"
  unfolding grant_org_key_def by (simp add: run_txn_Inl)

lemma add_member_committed:
  assumes "add_member now user org target role db0 db = (Inr c, db')"
  obtains r where "c = 201" "write_authority db org user r" "can_manage_members r"
    "role = Owner \<longrightarrow> r = Owner" "check_can_add_member db now org = Inr ()"
    "find_member db org target = None" "user_exists db target"
    "db' = record_tx now org user ''member.added''
       (no_context\<lparr>cx_target := Some target, cx_detail := Some (as_str role)\<rparr>)
       (db\<lparr>members := sql_insert \<lparr>m_org = org, m_user = target, m_role = as_str role, m_enc_org_key = None\<rparr>
             (members db),
           grants := sql_delete (org_grant db org target) (grants db)\<rparr>)"
  using assms unfolding add_member_def
  by (auto simp: run_txn_Inr rbind_eq_Inr_iff oa_require_write_Inr_iff delete_org_grants_def member_exists_def
      Let_def intro: write_authorityI split: sum.splits)

lemma add_member_failed: "add_member now user org target role db0 db = (Inl e, db') \<Longrightarrow> db' = db"
  unfolding add_member_def by (auto simp: run_txn_Inl split: sum.splits)

lemma invite_member_committed:
  assumes "invite_member L now user org email db0 db = (Inr c, db')"
  obtains r target where "write_authority db org user r" "can_manage_members r" "fst c = target"
    "check_can_add_member db now org = Inr ()" "find_member db org target = None" "user_exists db target"
    "\<exists>u \<in> set (users db0). u_id u = target \<and> u_email u = Some email"
    "db' = record_tx now org user ''member.invited'' (no_context\<lparr>cx_target := Some target\<rparr>)
       (db\<lparr>members := sql_insert \<lparr>m_org = org, m_user = target, m_role = ''member'', m_enc_org_key = None\<rparr>
             (members db),
           grants := sql_delete (org_grant db org target) (grants db)\<rparr>)"
proof -
  show thesis
  using assms unfolding invite_member_def
  apply -
  apply (drule checked_txn_pair)
  apply (elim exE conjE)
  apply (clarsimp simp: rbind_eq_Inr_iff oa_require_write_Inr_iff delete_org_grants_def member_exists_def Let_def split: prod.splits)
  apply (rule that)
  apply (erule (1) write_authorityI)
  apply assumption+
  apply (auto simp: split: list.splits dest: select_singleton)
  done
qed

lemma invite_member_failed: "invite_member L now user org email db0 db = (Inl e, db') \<Longrightarrow> db' = db"
  unfolding invite_member_def by (auto simp: run_txn_Inl split: sum.splits)

lemma update_member_committed:
  assumes "update_member now user org target role db0 db = (Inr c, db')"
  obtains r current where "c = 200" "write_authority db org user r" "can_manage_members r"
    "member_role db org target = Inr current" "role = Owner \<or> current = Owner \<longrightarrow> r = Owner"
    "current = Owner \<longrightarrow> role = Owner \<or> lock_owner_count db org \<noteq> 1"
    "db' = record_tx now org user ''member.role_changed''
       (no_context\<lparr>cx_target := Some target, cx_detail := Some (as_str role)\<rparr>)
       (db\<lparr>members := sql_update (is_membership org target) (\<lambda>m. m\<lparr>m_role := as_str role\<rparr>) (members db)\<rparr>)"
  using assms unfolding update_member_def
  by (auto simp: run_txn_Inr rbind_eq_Inr_iff oa_require_write_Inr_iff Let_def
      intro!: that intro: write_authorityI split: sum.splits)

lemma update_member_failed: "update_member now user org target role db0 db = (Inl e, db') \<Longrightarrow> db' = db"
  unfolding update_member_def by (auto simp: run_txn_Inl split: sum.splits)

lemma commit_removal_state:
  assumes "commit_removal now org user target db = (c, db')"
  shows "c = \<lparr>rr_revoked_tokens = map (\<lambda>t. \<lparr>rt_token = t_id t, rt_name = t_name t, rt_env = t_env t\<rparr>)
               (sql_select (created_in_org db org target) (tokens db)),
             rr_grants_deleted = sql_count (org_grant db org target) (grants db)\<rparr>"
    and "members db' = sql_delete (is_membership org target) (members db)"
    and "grants db' = sql_delete (org_grant db org target) (grants db)"
    and "tokens db' = sql_update (created_in_org db org target) (\<lambda>t. t\<lparr>t_revoked_at := Some now\<rparr>) (tokens db)"
    and "users db' = users db" and "orgs db' = orgs db" and "projects db' = projects db" and "envs db' = envs db"
    and "secrets db' = secrets db" and "versions db' = versions db" and "shares db' = shares db"
    and "sessions db' = sessions db" and "login_codes db' = login_codes db"
    and "oauth_logins db' = oauth_logins db" and "deletions db' = deletions db"
  using assms unfolding commit_removal_def delete_org_grants_def revoke_created_tokens_def Let_def
  by auto

lemma remove_member_committed:
  assumes "remove_member now user org target db0 db = (Inr c, db')"
  obtains r current where "write_authority db org user r" "can_manage_members r"
    "member_role db org target = Inr current"
    "current = Owner \<longrightarrow> r = Owner \<and> lock_owner_count db org \<noteq> 1"
    "missing_envs db org user target = []" "commit_removal now org user target db = (c, db')"
  using assms unfolding remove_member_def
  apply -
  apply (drule checked_txn)
  apply (elim exE conjE)
  apply (clarsimp simp: rbind_eq_Inr_iff oa_require_write_Inr_iff Let_def)
  subgoal for locked0 locked current
    apply (rule that [of "oa_role locked" current])
         apply (erule (1) write_authorityI)
        apply assumption
       apply assumption
      apply (simp add: rbind_eq_Inr_iff split: if_splits)
     apply assumption+
    done
  done

lemma remove_member_failed: "remove_member now user org target db0 db = (Inl e, db') \<Longrightarrow> db' = db"
  unfolding remove_member_def by (auto simp: run_txn_Inl split: sum.splits)

subsection \<open>The contract of a write to an organisation\<close>

text \<open>
  An operation on an organisation's data runs with the authority the tables give its caller at the
  moment it commits, whatever an earlier snapshot said, and a failed one changes nothing.
\<close>

locale org_write =
  fixes run :: "db \<Rightarrow> (error + 'a) \<times> db" and org user :: string and allowed :: "role \<Rightarrow> bool"
  assumes authorised: "run db = (Inr c, db') \<Longrightarrow> \<exists>r. write_authority db org user r \<and> allowed r"
    and rolled_back: "run db = (Inl e, db') \<Longrightarrow> db' = db"
begin

lemma refused:
  assumes "\<nexists>r. write_authority db org user r \<and> allowed r"
  shows "\<exists>e. run db = (Inl e, db)"
  using assms authorised rolled_back by (metis old.sum.exhaust surj_pair)

lemma frozen:
  assumes "find_org db org = Some og" and "o_lifecycle og \<noteq> ''active''"
  shows "\<exists>e. run db = (Inl e, db)"
  by (rule refused) (use assms in \<open>simp add: write_authority_iff\<close>)

lemma outsider:
  assumes "find_member db org user = None"
  shows "\<exists>e. run db = (Inl e, db)"
  by (rule refused) (use assms in \<open>simp add: write_authority_iff\<close>)

lemma too_low:
  assumes "member_role db org user = Inr r" and "\<not> allowed r"
  shows "\<exists>e. run db = (Inl e, db)"
proof (rule refused)
  show "\<nexists>r. write_authority db org user r \<and> allowed r"
    using assms by (auto simp: write_authority_iff member_role_Inr_iff role_text.enc_inject)
qed

lemma change_is_authorised:
  assumes "snd (run db) \<noteq> db"
  shows "\<exists>r. write_authority db org user r \<and> allowed r"
  using assms refused by (metis snd_conv)

end

lemma add_member_authorised:
  "add_member now user org target role db0 db = (Inr c, db') \<Longrightarrow>
     \<exists>r. write_authority db org user r \<and> can_manage_members r"
  by (erule add_member_committed) (rule exI, erule conjI, assumption)

interpretation add_member: org_write "add_member now user org target role db0" org user can_manage_members
  for now user org target role db0
  by unfold_locales (erule add_member_authorised, erule add_member_failed)

lemma invite_member_authorised:
  "invite_member L now user org email db0 db = (Inr c, db') \<Longrightarrow>
     \<exists>r. write_authority db org user r \<and> can_manage_members r"
  by (erule invite_member_committed) (rule exI, erule conjI, assumption)

interpretation invite_member: org_write "invite_member L now user org email db0" org user can_manage_members
  for L now user org email db0
  by unfold_locales (erule invite_member_authorised, erule invite_member_failed)

lemma update_member_authorised:
  "update_member now user org target role db0 db = (Inr c, db') \<Longrightarrow>
     \<exists>r. write_authority db org user r \<and> can_manage_members r"
  by (erule update_member_committed) (rule exI, erule conjI, assumption)

interpretation update_member: org_write "update_member now user org target role db0" org user can_manage_members
  for now user org target role db0
  by unfold_locales (erule update_member_authorised, erule update_member_failed)

lemma remove_member_authorised:
  "remove_member now user org target db0 db = (Inr c, db') \<Longrightarrow>
     \<exists>r. write_authority db org user r \<and> can_manage_members r"
  by (erule remove_member_committed) (rule exI, erule conjI, assumption)

interpretation remove_member: org_write "remove_member now user org target db0" org user can_manage_members
  for now user org target db0
  by unfold_locales (erule remove_member_authorised, erule remove_member_failed)

lemma grant_org_key_authorised:
  "grant_org_key L now user org target key db = (Inr c, db') \<Longrightarrow>
     \<exists>r. write_authority db org user r \<and> can_manage_members r"
  by (erule grant_org_key_committed) (rule exI, erule conjI, assumption)

interpretation grant_org_key: org_write "grant_org_key L now user org target key" org user can_manage_members
  for L now user org target key
  by unfold_locales (erule grant_org_key_authorised, erule grant_org_key_failed)

subsection \<open>Owners\<close>

definition owner_users :: "db \<Rightarrow> string \<Rightarrow> string list" where
  "owner_users db org = map m_user (sql_select (is_owner_row org) (members db))"

definition member_key :: "member_row \<Rightarrow> string \<times> string" where
  "member_key m = (m_org m, m_user m)"

lemma member_key_eq_iff: "member_key m = (org, user) \<longleftrightarrow> is_membership org user m"
  by (auto simp: member_key_def is_membership_def)

lemma set_owner_users:
  "set (owner_users db org) = {m_user m | m. m \<in> set (members db) \<and> is_owner_row org m}"
  by (auto simp: owner_users_def)

lemma owner_users_congD: "members db' = members db \<Longrightarrow> owner_users db' org = owner_users db org"
  by (simp add: owner_users_def)

lemma lock_owner_count_length: "lock_owner_count db org = length (owner_users db org)"
  by (simp add: lock_owner_count_def owner_users_def sql_count_def sql_select_def)

lemma owner_users_distinct:
  assumes "distinct (map member_key (members db))"
  shows "distinct (owner_users db org)"
  using assms unfolding owner_users_def sql_select_def
  by (induction "members db" arbitrary: db rule: list.induct)
     (auto simp: member_key_def is_owner_row_def image_iff distinct_map inj_on_def)

lemma owners_after_update:
  assumes "update_member now user org target role db0 db = (Inr c, db')"
  shows "set (owner_users db' org') = (if org' = org then
           (if role = Owner then insert target (set (owner_users db org)) else set (owner_users db org) - {target})
         else set (owner_users db org'))"
proof -
  from assms obtain current where found: "member_role db org target = Inr current"
    and ms: "members db' = sql_update (is_membership org target) (\<lambda>m. m\<lparr>m_role := as_str role\<rparr>) (members db)"
    by (rule update_member_committed) auto
  obtain m where m: "m \<in> set (members db)" "is_membership org target m"
    using found by (auto simp: member_role_Inr_iff is_membership_def dest: find_member_SomeD)
  have owner: "as_str role = ''owner'' \<longleftrightarrow> role = Owner" by (cases role) simp_all
  have char: "u \<in> set (owner_users db' org') \<longleftrightarrow> (\<exists>m \<in> set (members db). m_org m = org' \<and> m_user m = u \<and>
      (if is_membership org target m then role = Owner else m_role m = ''owner''))" for u
  proof -
    let ?f = "\<lambda>m. if is_membership org target m then m\<lparr>m_role := as_str role\<rparr> else m"
    have "u \<in> set (owner_users db' org') \<longleftrightarrow> (\<exists>m \<in> set (members db). u = m_user (?f m) \<and> is_owner_row org' (?f m))"
      unfolding set_owner_users ms sql_update_def set_map by blast
    also have "\<dots> \<longleftrightarrow> (\<exists>m \<in> set (members db). m_org m = org' \<and> m_user m = u \<and>
        (if is_membership org target m then role = Owner else m_role m = ''owner''))"
      by (intro bex_cong) (auto simp: is_owner_row_def owner)
    finally show ?thesis .
  qed
  have mem: "u \<in> set (owner_users db' org') \<longleftrightarrow>
      (if org' = org \<and> u = target then role = Owner else u \<in> set (owner_users db org'))" for u
  proof (cases "org' = org \<and> u = target")
    case True
    with m show ?thesis unfolding char is_membership_def by auto
  next
    case False
    then show ?thesis
      unfolding char is_membership_def set_owner_users [of db] is_owner_row_def by auto
  qed
  show ?thesis by (rule set_eqI) (simp add: mem)
qed

lemma owners_after_remove:
  assumes "remove_member now user org target db0 db = (Inr c, db')"
  shows "set (owner_users db' org') =
    (if org' = org then set (owner_users db org) - {target} else set (owner_users db org'))"
proof -
  from assms obtain "commit_removal now org user target db = (c, db')"
    by (rule remove_member_committed)
  from commit_removal_state(2) [OF this] show ?thesis
    unfolding set_owner_users by (auto simp: is_membership_def is_owner_row_def)
qed

lemma other_owner:
  assumes "distinct (map member_key (members db))" and "lock_owner_count db org \<noteq> 1"
    and "u \<in> set (owner_users db org)"
  shows "\<exists>v. v \<in> set (owner_users db org) - {u}"
proof (rule ccontr)
  assume "\<nexists>v. v \<in> set (owner_users db org) - {u}"
  with assms(3) have "set (owner_users db org) = {u}" by blast
  with owner_users_distinct [OF assms(1), of org] have "length (owner_users db org) = 1"
    by (metis card.empty card_insert_disjoint distinct_card empty_iff finite.emptyI One_nat_def)
  with assms(2) show False by (simp add: lock_owner_count_length)
qed

lemma member_role_owner_iff:
  assumes "distinct (map member_key (members db))"
  shows "member_role db org u = Inr Owner \<longleftrightarrow> u \<in> set (owner_users db org)"
proof -
  have "find_member db org u = Some m \<longleftrightarrow> m \<in> set (members db) \<and> is_membership org u m" for m
    unfolding find_member_def
    by (rule sql_find_Some_iff_distinct [OF assms, of _ "(org, u)"]) (simp add: member_key_eq_iff)
  then show ?thesis
    by (auto simp: member_role_Inr_iff set_owner_users is_membership_def is_owner_row_def)
qed

lemma update_keeps_an_owner:
  assumes "update_member now user org target role db0 db = (Inr c, db')"
    and keys: "distinct (map member_key (members db))" and "set (owner_users db org') \<noteq> {}"
  shows "set (owner_users db' org') \<noteq> {}"
proof (cases "org' = org \<and> role \<noteq> Owner")
  case True
  from assms(1) obtain current where cur: "member_role db org target = Inr current"
    and two: "current = Owner \<longrightarrow> role = Owner \<or> lock_owner_count db org \<noteq> 1"
    by (rule update_member_committed)
  show ?thesis
  proof (cases "current = Owner")
    case owner: True
    with cur keys have "target \<in> set (owner_users db org)" by (simp add: member_role_owner_iff)
    with other_owner [OF keys] owner two True owners_after_update [OF assms(1), of org] show ?thesis by auto
  next
    case False
    with cur keys have "target \<notin> set (owner_users db org)"
      by (metis member_role_owner_iff sum.inject(2))
    with True assms(3) owners_after_update [OF assms(1), of org] show ?thesis by simp
  qed
qed (use assms(3) owners_after_update [OF assms(1), of org'] in \<open>auto split: if_splits\<close>)

lemma remove_keeps_an_owner:
  assumes "remove_member now user org target db0 db = (Inr c, db')"
    and keys: "distinct (map member_key (members db))" and "set (owner_users db org') \<noteq> {}"
  shows "set (owner_users db' org') \<noteq> {}"
proof (cases "org' = org \<and> target \<in> set (owner_users db org)")
  case True
  with keys have "member_role db org target = Inr Owner" by (simp add: member_role_owner_iff)
  with assms(1) have "lock_owner_count db org \<noteq> 1"
    by (auto elim: remove_member_committed)
  with other_owner [OF keys] True owners_after_remove [OF assms(1), of org] show ?thesis by auto
qed (use assms(3) owners_after_remove [OF assms(1), of org'] in \<open>auto split: if_splits\<close>)

subsection \<open>Properties\<close>

text \<open>The membership row of a user in an organisation, as the code reads it.\<close>

definition live_token_of :: "db \<Rightarrow> string \<Rightarrow> string \<Rightarrow> token_row \<Rightarrow> bool" where
  "live_token_of db org user t \<longleftrightarrow> in_org_env db org (t_env t) \<and> t_created_by t = Some user \<and> t_revoked_at t = None"

text \<open>C7: Removing a member, once committed, leaves that user with no membership in the
  organisation, no grant to any of its environments and no live machine token they created there;
  and it touches nobody else: every other membership, every other grant (their grants to personal
  environments included) and every other token is exactly as before.\<close>

theorem removal_revokes_every_path:
  assumes "remove_member now user org target db0 db = (Inr receipt, db')"
  shows "find_member db' org target = None \<and>
     (\<forall>g. g \<in> set (grants db') \<longrightarrow> \<not> org_grant db' org target g) \<and>
     (\<forall>t. t \<in> set (tokens db') \<longrightarrow> \<not> live_token_of db' org target t) \<and>
     (\<forall>m. \<not> is_membership org target m \<longrightarrow> m \<in> set (members db') \<longleftrightarrow> m \<in> set (members db)) \<and>
     (\<forall>g. \<not> org_grant db org target g \<longrightarrow> g \<in> set (grants db') \<longleftrightarrow> g \<in> set (grants db)) \<and>
     (\<forall>t. \<not> live_token_of db org target t \<longrightarrow> t \<in> set (tokens db) \<longrightarrow> t \<in> set (tokens db'))"
proof -
  from assms obtain "commit_removal now org user target db = (receipt, db')"
    by (rule remove_member_committed)
  note st = commit_removal_state [OF this]
  have env: "in_org_env db' org = in_org_env db org"
    by (simp add: in_org_env_def fun_eq_iff st)
  show ?thesis
    by (auto simp: find_member_None_iff st env live_token_of_def created_in_org_def org_grant_def)
qed

theorem removal_revokes_every_path_witness:
  "find_member (snd (remove_member 50 ''alice'' ''acme'' ''bob'' demo_db demo_db)) ''acme'' ''bob'' = None"
proof -
  have "fst (remove_member 50 ''alice'' ''acme'' ''bob'' demo_db demo_db) =
      Inr \<lparr>rr_revoked_tokens = [\<lparr>rt_token = ''ci'', rt_name = ''deploy'', rt_env = ''prod''\<rparr>],
           rr_grants_deleted = 1\<rparr>"
    by code_simp
  from removal_revokes_every_path [OF fst_eqD [OF this]] show ?thesis by blast
qed

text \<open>A removal commits only if every environment of the organisation that its target holds, and
  that some other current member also holds, is held by the caller: no environment that somebody
  could re-key is left un-rotatable by whoever performs the removal.\<close>

theorem removal_needs_rekeyable_environments:
  assumes "remove_member now user org target db0 db = (Inr receipt, db')"
    and "g \<in> set (grants db)" and "org_grant db org target g" and "peer_holds db org target (g_env g)"
  shows "\<exists>h. h \<in> set (grants db) \<and> g_user h = user \<and> g_env h = g_env g"
proof -
  from assms(1) have "missing_envs db org user target = []"
    by (rule remove_member_committed)
  with assms(2-4) have "g_env g \<in> set (caller_envs db org user)"
    unfolding missing_envs_def target_envs_def filter_empty_conv by auto
  then show ?thesis by (auto simp: caller_envs_def org_grant_def)
qed

theorem removal_needs_rekeyable_environments_witness:
  "\<exists>h. h \<in> set (grants demo_db) \<and> g_user h = ''alice'' \<and> g_env h = ''prod''"
proof -
  define g where "g = \<lparr>g_env = ''prod'', g_user = ''bob'', g_enc_vault_key = [14], g_granted_by = Some ''alice''\<rparr>"
  have "fst (remove_member 50 ''alice'' ''acme'' ''bob'' demo_db demo_db) =
      Inr \<lparr>rr_revoked_tokens = [\<lparr>rt_token = ''ci'', rt_name = ''deploy'', rt_env = ''prod''\<rparr>],
           rr_grants_deleted = 1\<rparr>"
    by code_simp
  moreover have "g \<in> set (grants demo_db)" by (simp add: g_def demo_db_def)
  moreover have "org_grant demo_db ''acme'' ''bob'' g" unfolding g_def by code_simp
  moreover have "peer_holds demo_db ''acme'' ''bob'' (g_env g)" unfolding g_def by code_simp
  ultimately show ?thesis
    using removal_needs_rekeyable_environments [OF fst_eqD] by (fastforce simp: g_def)
qed

text \<open>The two ways into an organisation have the same effect on the joiner's rows.\<close>

definition joins :: "string \<Rightarrow> string \<Rightarrow> string \<Rightarrow> db \<Rightarrow> db \<Rightarrow> bool" where
  "joins org target role db db' \<longleftrightarrow> find_member db org target = None \<and>
     (\<exists>now user action ctx. db' = record_tx now org user action ctx
      (db\<lparr>members := sql_insert \<lparr>m_org = org, m_user = target, m_role = role, m_enc_org_key = None\<rparr> (members db),
          grants := sql_delete (org_grant db org target) (grants db)\<rparr>))"

lemma add_member_joins:
  "add_member now user org target role db0 db = (Inr c, db') \<Longrightarrow> joins org target (as_str role) db db'"
  unfolding joins_def by (erule add_member_committed) auto

lemma invite_member_joins:
  "invite_member L now user org email db0 db = (Inr c, db') \<Longrightarrow> joins org (fst c) ''member'' db db'"
  unfolding joins_def by (erule invite_member_committed) auto

lemma joined_state:
  assumes "joins org target role db db'"
  shows "sql_select (is_membership org target) (members db') =
      [\<lparr>m_org = org, m_user = target, m_role = role, m_enc_org_key = None\<rparr>]"
    and "g \<in> set (grants db') \<Longrightarrow> \<not> org_grant db' org target g"
    and "\<not> org_grant db org target g \<Longrightarrow> g \<in> set (grants db') \<longleftrightarrow> g \<in> set (grants db)"
    and "owner_users db' org' = owner_users db org' @ (if org' = org \<and> role = ''owner'' then [target] else [])"
proof -
  from assms obtain now user action ctx where new: "find_member db org target = None"
    and db': "db' = record_tx now org user action ctx
      (db\<lparr>members := sql_insert \<lparr>m_org = org, m_user = target, m_role = role, m_enc_org_key = None\<rparr> (members db),
          grants := sql_delete (org_grant db org target) (grants db)\<rparr>)"
    by (auto simp: joins_def)
  show "g \<in> set (grants db') \<Longrightarrow> \<not> org_grant db' org target g"
    by (auto simp: db' org_grant_def in_org_env_def)
  show "\<not> org_grant db org target g \<Longrightarrow> g \<in> set (grants db') \<longleftrightarrow> g \<in> set (grants db)"
    by (auto simp: db')
  show "sql_select (is_membership org target) (members db') =
      [\<lparr>m_org = org, m_user = target, m_role = role, m_enc_org_key = None\<rparr>]"
    using new by (auto simp: db' find_member_None_iff sql_select_def sql_insert_def is_membership_def)
  show "owner_users db' org' = owner_users db org' @ (if org' = org \<and> role = ''owner'' then [target] else [])"
    by (simp add: db' owner_users_def sql_select_def sql_insert_def is_owner_row_def)
qed

text \<open>Whoever joins (or rejoins) an organisation has exactly the one membership row with the
  granted role and no organisation key, and holds no grant to any of its environments, even if rows
  from an earlier membership were still there.\<close>

theorem joining_starts_grantless:
  assumes "add_member now user org target role db0 db = (Inr c, db')"
  shows "sql_select (is_membership org target) (members db') =
      [\<lparr>m_org = org, m_user = target, m_role = as_str role, m_enc_org_key = None\<rparr>] \<and>
    (\<forall>g. g \<in> set (grants db') \<longrightarrow> \<not> org_grant db' org target g)"
  using joined_state(1,2) [OF add_member_joins [OF assms]] by blast

theorem joining_starts_grantless_witness:
  "sql_select (is_membership ''acme'' ''dave'')
     (members (snd (add_member 50 ''bob'' ''acme'' ''dave'' Admin demo_db demo_db))) =
   [\<lparr>m_org = ''acme'', m_user = ''dave'', m_role = as_str Admin, m_enc_org_key = None\<rparr>]"
proof -
  have "fst (add_member 50 ''bob'' ''acme'' ''dave'' Admin demo_db demo_db) = Inr 201" by code_simp
  from joining_starts_grantless [OF fst_eqD [OF this]] show ?thesis by blast
qed

lemma owner_authority: "write_authority db org user Owner \<Longrightarrow> member_role db org user = Inr Owner"
  by (auto simp: write_authority_iff member_role_Inr_iff)

lemma joins_owner_change:
  assumes "joins org target role db db'" and "set (owner_users db' org') \<noteq> set (owner_users db org')"
  shows "org' = org \<and> role = ''owner''"
  using assms(2) joined_state(4) [OF assms(1)] by (auto split: if_splits)

lemma add_member_owner_change:
  assumes "add_member now user org target role db0 db = (Inr c, db')"
    and "set (owner_users db' org') \<noteq> set (owner_users db org')"
  shows "org' = org \<and> member_role db org user = Inr Owner"
proof -
  have "org' = org" "as_str role = ''owner''"
    using joins_owner_change [OF add_member_joins [OF assms(1)] assms(2)] by simp_all
  then have "role = Owner" by (cases role) simp_all
  with assms(1) \<open>org' = org\<close> show ?thesis by (auto elim: add_member_committed dest: owner_authority)
qed

lemma invite_member_owner_change:
  assumes "invite_member L now user org email db0 db = (Inr c, db')"
  shows "owner_users db' org' = owner_users db org'"
  using joined_state(4) [OF invite_member_joins [OF assms]] by simp

lemma update_member_owner_change:
  assumes "update_member now user org target role db0 db = (Inr c, db')"
    and "set (owner_users db' org') \<noteq> set (owner_users db org')"
    and "distinct (map member_key (members db))"
  shows "org' = org \<and> member_role db org user = Inr Owner"
proof -
  from assms(1) obtain r current where auth: "write_authority db org user r"
    and cur: "member_role db org target = Inr current" "role = Owner \<or> current = Owner \<longrightarrow> r = Owner"
    by (rule update_member_committed)
  have "org' = org \<and> (role = Owner \<or> target \<in> set (owner_users db org))"
    using assms(2) owners_after_update [OF assms(1), of org'] by (auto split: if_splits)
  with cur have "org' = org" "r = Owner"
    by (auto simp: member_role_owner_iff [OF assms(3), symmetric])
  with auth show ?thesis by (auto dest: owner_authority)
qed

lemma remove_member_owner_change:
  assumes "remove_member now user org target db0 db = (Inr c, db')"
    and "set (owner_users db' org') \<noteq> set (owner_users db org')"
    and "distinct (map member_key (members db))"
  shows "org' = org \<and> member_role db org user = Inr Owner"
proof -
  from assms(1) obtain r current where auth: "write_authority db org user r"
    and cur: "member_role db org target = Inr current" "current = Owner \<longrightarrow> r = Owner \<and> lock_owner_count db org \<noteq> 1"
    by (rule remove_member_committed)
  have "org' = org \<and> target \<in> set (owner_users db org)"
    using assms(2) owners_after_remove [OF assms(1), of org'] by (auto split: if_splits)
  with cur have "org' = org" "r = Owner"
    by (auto simp: member_role_owner_iff [OF assms(3), symmetric])
  with auth show ?thesis by (auto dest: owner_authority)
qed

subsection \<open>Quotas\<close>

lemma effective_tier_locked_Inr:
  "effective_tier_locked db now org = Inr t \<Longrightarrow> effective_tier db now org = Inr t"
  by (auto simp: effective_tier_locked_def effective_tier_def rbind_eq_Inr_iff)

lemma member_count_after_join:
  assumes "joins org target role db db'" and "check_can_add_member db now org = Inr ()"
    and "effective_tier db now org = Inr Free"
  shows "sql_count (\<lambda>m. m_org m = org) (members db') \<le> FREE_MAX_MEMBERS"
proof -
  from assms(2,3) have "\<not> FREE_MAX_MEMBERS \<le> sql_count (\<lambda>m. m_org m = org) (members db)"
    by (auto simp: check_can_add_member_def rbind_eq_Inr_iff dest: effective_tier_locked_Inr split: if_splits)
  with assms(1) show ?thesis by (auto simp: joins_def)
qed

lemma add_member_checked:
  "add_member now user org target role db0 db = (Inr c, db') \<Longrightarrow> check_can_add_member db now org = Inr ()"
  by (erule add_member_committed)

lemma invite_member_checked:
  "invite_member L now user org email db0 db = (Inr c, db') \<Longrightarrow> check_can_add_member db now org = Inr ()"
  by (erule invite_member_committed)

text \<open>On the free tier no join takes an organisation above the member quota: after an add or an
  invite it has at most \<open>FREE_MAX_MEMBERS\<close> members, counted in the state the join commits.\<close>

theorem free_tier_member_quota:
  assumes "add_member now user org target role db0 db = (Inr c, db') \<or>
      (\<exists>L email c. invite_member L now user org email db0 db = (Inr c, db'))"
    and "effective_tier db now org = Inr Free"
  shows "sql_count (\<lambda>m. m_org m = org) (members db') \<le> FREE_MAX_MEMBERS"
proof -
  have "check_can_add_member db now org = Inr () \<and> (\<exists>target role. joins org target role db db')"
    using assms(1) by (auto dest: add_member_joins add_member_checked invite_member_joins invite_member_checked)
  with member_count_after_join assms(2) show ?thesis by blast
qed

theorem free_tier_member_quota_witness:
  "sql_count (\<lambda>m. m_org m = ''acme'') (members (snd (add_member 50 ''alice'' ''acme'' ''dave'' Member demo_db
     (demo_db\<lparr>orgs := map (\<lambda>og. og\<lparr>o_tier := ''free''\<rparr>) (orgs demo_db),
              members := take 2 (members demo_db)\<rparr>)))) \<le> FREE_MAX_MEMBERS"
proof -
  let ?db = "demo_db\<lparr>orgs := map (\<lambda>og. og\<lparr>o_tier := ''free''\<rparr>) (orgs demo_db),
              members := take 2 (members demo_db)\<rparr>"
  have "fst (add_member 50 ''alice'' ''acme'' ''dave'' Member demo_db ?db) = Inr 201" by code_simp
  moreover have "effective_tier ?db 50 ''acme'' = Inr Free" by code_simp
  ultimately show ?thesis using free_tier_member_quota [OF disjI1 [OF fst_eqD]] by blast
qed

lemmas org_eval = demo_eval access_for_update_def access_from_row_def org_access_def find_org_def find_member_def
  is_membership_def lifecycle_from_db_def role_from_db_def oa_require_write_def is_at_least_def
  can_manage_members_def user_exists_def effective_tier_locked_def effective_tier_def trial_active_def
  check_can_create_org_project_def check_can_add_member_def FREE_MAX_MEMBERS_def FREE_MAX_ORG_PROJECTS_def

end
