(* ===== verification/Access.thy ===== *)
theory Access
  imports Org
begin

text \<open>
  Access to a project and to its environments and secrets: \<open>sync/access.rs\<close>. A personal project is
  its owner's; an organisation's project is reached through the membership, and its writes are
  authorised again under the organisation's lock (\<open>require_write_tx\<close>,
  \<open>require_manage_structure_tx\<close>).
\<close>

record project_acc =
  pa_is_owner :: bool
  pa_org_role :: "role option"
  pa_org_id :: "string option"
  pa_org_lifecycle :: "lifecycle_state option"
  pa_user_id :: string

definition can_manage_structure :: "project_acc \<Rightarrow> bool" where
  "can_manage_structure a \<longleftrightarrow> pa_is_owner a \<or>
     (case pa_org_role a of None \<Rightarrow> False | Some r \<Rightarrow> is_at_least r Admin)"

definition pa_require_write :: "project_acc \<Rightarrow> error + unit" where
  "pa_require_write a =
     (case pa_org_lifecycle a of None \<Rightarrow> Inr () | Some lifecycle \<Rightarrow> lifecycle_require_write lifecycle)"

definition require_manage_structure :: "project_acc \<Rightarrow> string \<Rightarrow> error + unit" where
  "require_manage_structure a message =
     rbind (pa_require_write a) (\<lambda>_. require (can_manage_structure a) (Forbidden message))"

fun map_project_access_error :: "error \<Rightarrow> error" where
  "map_project_access_error (NotFound _) = NotFound ''project not found''"
| "map_project_access_error e = e"

definition require_write_tx :: "project_acc \<Rightarrow> db \<Rightarrow> error + unit" where
  "require_write_tx a db =
     (case pa_org_id a of
        None \<Rightarrow> Inr ()
      | Some org \<Rightarrow>
          rbind (map_err map_project_access_error (access_for_update db org (pa_user_id a))) (\<lambda>acc.
            map_err map_project_access_error (oa_require_write acc)))"

definition require_manage_structure_tx :: "project_acc \<Rightarrow> db \<Rightarrow> string \<Rightarrow> error + unit" where
  "require_manage_structure_tx a db message =
     (case pa_org_id a of
        Some org \<Rightarrow>
          rbind (map_err map_project_access_error (access_for_update db org (pa_user_id a))) (\<lambda>acc.
          rbind (map_err map_project_access_error (oa_require_write acc)) (\<lambda>_.
            require (is_at_least (oa_role acc) Admin) (Forbidden message)))
      | None \<Rightarrow> require (can_manage_structure a) (Forbidden message))"

definition find_project :: "db \<Rightarrow> string \<Rightarrow> project_row option" where
  "find_project db i = sql_find (\<lambda>p. p_id p = i) (projects db)"

definition find_env :: "db \<Rightarrow> string \<Rightarrow> env_row option" where
  "find_env db i = sql_find (\<lambda>e. e_id e = i) (envs db)"

definition project_access :: "db \<Rightarrow> string \<Rightarrow> string \<Rightarrow> error + project_acc" where
  "project_access db project user =
     rbind (ok_or (find_project db project) (NotFound ''project not found'')) (\<lambda>p.
       case p_org p of
         None \<Rightarrow>
           if p_owner p = user
           then Inr \<lparr>pa_is_owner = True, pa_org_role = None, pa_org_id = None, pa_org_lifecycle = None,
                     pa_user_id = user\<rparr>
           else Inl (NotFound ''project not found'')
       | Some org \<Rightarrow>
           (case org_access db org user of
              Inr acc \<Rightarrow> Inr \<lparr>pa_is_owner = False, pa_org_role = Some (oa_role acc), pa_org_id = Some org,
                 pa_org_lifecycle = Some (oa_lifecycle acc), pa_user_id = user\<rparr>
            | Inl (NotFound _) \<Rightarrow> Inl (NotFound ''project not found'')
            | Inl e \<Rightarrow> Inl e))"

definition env_access :: "db \<Rightarrow> string \<Rightarrow> string \<Rightarrow> error + string \<times> project_acc" where
  "env_access db env user =
     rbind (ok_or (find_env db env) (NotFound ''environment not found'')) (\<lambda>e.
     rbind (project_access db (e_project e) user) (\<lambda>a. Inr (e_project e, a)))"

subsection \<open>What a resolved access means\<close>

definition reaches :: "db \<Rightarrow> string \<Rightarrow> project_row \<Rightarrow> bool" where
  "reaches db user p \<longleftrightarrow> (case p_org p of
       None \<Rightarrow> p_owner p = user
     | Some org \<Rightarrow> \<not> isl (access_for_update db org user))"

lemma reaches_personal [simp]: "p_org p = None \<Longrightarrow> reaches db user p \<longleftrightarrow> p_owner p = user"
  by (simp add: reaches_def)

lemma reaches_org:
  "p_org p = Some org \<Longrightarrow> reaches db user p \<longleftrightarrow> (\<exists>a. access_for_update db org user = Inr a)"
  by (cases "access_for_update db org user") (auto simp: reaches_def)

lemma access_for_update_error:
  "access_for_update db org user = Inl e \<Longrightarrow>
     e = NotFound ''organisation not found'' \<or> (\<exists>m. e = Config m)"
  by (auto simp: access_for_update_def access_from_row_def rbind_eq_Inl_iff lifecycle_from_db_def
      role_from_db_def split: option.splits if_splits)

lemma project_access_Inr:
  assumes "project_access db project user = Inr a"
  shows "\<exists>p. find_project db project = Some p \<and> reaches db user p \<and> pa_user_id a = user \<and>
    pa_org_id a = p_org p \<and> (pa_is_owner a \<longleftrightarrow> p_org p = None)"
proof (cases "find_project db project")
  case None
  with assms show ?thesis by (simp add: project_access_def)
next
  case (Some p)
  show ?thesis
  proof (cases "p_org p")
    case None
    with assms Some show ?thesis by (auto simp: project_access_def split: if_splits)
  next
    case org: (Some org)
    with assms Some show ?thesis
      by (auto simp: project_access_def org_access_eq_access_for_update reaches_org
          split: sum.splits error.splits)
  qed
qed

lemma env_access_Inr:
  assumes "env_access db env user = Inr (project, a)"
  shows "\<exists>e p. find_env db env = Some e \<and> e_project e = project \<and> find_project db project = Some p \<and>
    reaches db user p \<and> pa_user_id a = user \<and> pa_org_id a = p_org p \<and> (pa_is_owner a \<longleftrightarrow> p_org p = None)"
proof -
  from assms obtain e where "find_env db env = Some e" "e_project e = project"
      "project_access db project user = Inr a"
    by (auto simp: env_access_def rbind_eq_Inr_iff)
  with project_access_Inr [of db project user a] show ?thesis by simp
qed

text \<open>The recheck, in the transaction, that the caller may still write: their current membership
  of the organisation the project belonged to, or nothing for a personal project.\<close>

lemma locked_write_iff:
  "(\<exists>acc. access_for_update db org user = Inr acc \<and> oa_require_write acc = Inr () \<and> P (oa_role acc)) \<longleftrightarrow>
     (\<exists>r. write_authority db org user r \<and> P r)"
proof
  assume "\<exists>r. write_authority db org user r \<and> P r"
  then obtain r where "write_authority db org user r" "P r" by blast
  then show "\<exists>acc. access_for_update db org user = Inr acc \<and> oa_require_write acc = Inr () \<and> P (oa_role acc)"
    by (intro exI [of _ "\<lparr>oa_role = r, oa_lifecycle = Active\<rparr>"])
       (simp add: write_authority_def oa_require_write_Inr_iff)
qed (auto simp: oa_require_write_Inr_iff intro: write_authorityI)

lemma require_write_tx_Inr_iff:
  "require_write_tx a db = Inr u \<longleftrightarrow> (\<forall>org. pa_org_id a = Some org \<longrightarrow> (\<exists>r. write_authority db org (pa_user_id a) r))"
  using locked_write_iff [of db _ _ "\<lambda>_. True"]
  by (cases "pa_org_id a") (simp_all add: require_write_tx_def rbind_eq_Inr_iff)

lemma require_manage_structure_tx_Inr_iff:
  "require_manage_structure_tx a db message = Inr u \<longleftrightarrow>
     (case pa_org_id a of
        Some org \<Rightarrow> \<exists>r. write_authority db org (pa_user_id a) r \<and> can_manage_members r
      | None \<Rightarrow> can_manage_structure a)"
  using locked_write_iff [of db _ _ "can_manage_members"]
  by (cases "pa_org_id a") (simp_all add: require_manage_structure_tx_def rbind_eq_Inr_iff can_manage_members_def)

text \<open>To a caller without access, a project answers exactly as one that does not exist: resolving
  access fails with the same not-found error (or with the internal error for a corrupt row of the
  organisation), so the answer does not reveal that the project exists.\<close>

theorem project_existence_hidden:
  assumes "find_project db project = Some p" and "\<not> reaches db user p"
  shows "project_access db project user = project_access (db\<lparr>projects := []\<rparr>) project user \<or>
    (\<exists>m. project_access db project user = Inl (Config m))"
proof -
  have none: "project_access (db\<lparr>projects := []\<rparr>) project user = Inl (NotFound ''project not found'')"
    by (simp add: project_access_def find_project_def sql_find_def)
  show ?thesis
  proof (cases "p_org p")
    case None
    with assms none show ?thesis by (simp add: project_access_def)
  next
    case (Some org)
    with assms(2) obtain e where e: "access_for_update db org user = Inl e"
      by (cases "access_for_update db org user") (auto simp: reaches_org)
    from access_for_update_error [OF this] show ?thesis
      using assms(1) none Some e by (auto simp: project_access_def org_access_eq_access_for_update)
  qed
qed

theorem project_existence_hidden_witness:
  "project_access demo_db ''blog'' ''alice'' = project_access (demo_db\<lparr>projects := []\<rparr>) ''blog'' ''alice''"
proof -
  let ?p = "\<lparr>p_id = ''blog'', p_owner = ''bob'', p_org = None, p_enc_name = [10]\<rparr>"
  have "find_project demo_db ''blog'' = Some ?p" by code_simp
  moreover have "\<not> reaches demo_db ''alice'' ?p" by simp
  moreover have "project_access demo_db ''blog'' ''alice'' \<noteq> Inl (Config m)" for m
  proof -
    have "project_access demo_db ''blog'' ''alice'' = Inl (NotFound ''project not found'')" by code_simp
    then show ?thesis by simp
  qed
  ultimately show ?thesis using project_existence_hidden by blast
qed

end
