(* ===== verification/Secrets.thy ===== *)
theory Secrets
  imports Access
begin

text \<open>
  The secret sync path: \<open>sync/secrets.rs\<close>. A batch of changes applies to one environment at the
  revision it was made for, all of it or none, and bumps the revision by one.
\<close>

subsection \<open>Reads\<close>

definition in_env :: "db \<Rightarrow> string \<Rightarrow> version_row \<Rightarrow> bool" where
  "in_env db env v \<longleftrightarrow> sql_exists (\<lambda>s. s_id s = v_secret v \<and> s_env s = env) (secrets db)"

record history_row =
  h_secret_id :: string
  h_version :: int
  h_enc_name :: string
  h_enc_value :: string
  h_enc_data_key :: string

definition history :: "lib \<Rightarrow> db \<Rightarrow> string \<Rightarrow> string \<Rightarrow> error + history_row list" where
  "history L db user env =
     rbind (env_access db env user) (\<lambda>_.
     Inr (map (\<lambda>v. \<lparr>h_secret_id = v_secret v, h_version = v_version v,
            h_enc_name = encoding_encode L (v_enc_name v), h_enc_value = encoding_encode L (v_enc_value v),
            h_enc_data_key = encoding_encode L (v_enc_data_key v)\<rparr>)
       (sort_key v_secret (sort_key v_version (sql_select (in_env db env) (versions db))))))"

definition env_revision :: "db \<Rightarrow> string \<Rightarrow> error + int" where
  "env_revision db env =
     ok_or (map_option e_revision (find_env db env)) (NotFound ''environment not found'')"

definition etag_of :: "int \<Rightarrow> string" where
  "etag_of revision = CHR 0x22 # dec_int revision @ [CHR 0x22]"

definition parse_etag :: "string \<Rightarrow> int option" where
  "parse_etag value =
     parse_i64 (trim_by (\<lambda>c. c = CHR 0x22) (trim_start_2 CHR ''W'' CHR ''/'' (trim_by is_ascii_space value)))"

record secret_view =
  sv_id :: string
  sv_enc_name :: string
  sv_enc_value :: string
  sv_enc_data_key :: string
  sv_version :: int
  sv_deleted :: bool

datatype snapshot_response =
    NotModified string
  | Snapshot string int "secret_view list"

definition secret_views :: "lib \<Rightarrow> db \<Rightarrow> string \<Rightarrow> secret_view list" where
  "secret_views L db env =
     map (\<lambda>s. \<lparr>sv_id = s_id s, sv_enc_name = encoding_encode L (s_enc_name s),
          sv_enc_value = encoding_encode L (s_enc_value s), sv_enc_data_key = encoding_encode L (s_enc_data_key s),
          sv_version = s_version s, sv_deleted = (s_deleted_at s \<noteq> None)\<rparr>)
       (sort_key s_id (sql_select (\<lambda>s. s_env s = env) (secrets db)))"

definition snapshot ::
    "lib \<Rightarrow> db \<Rightarrow> string \<Rightarrow> string \<Rightarrow> string option \<Rightarrow> error + snapshot_response" where
  "snapshot L db user env if_none_match =
     rbind (env_access db env user) (\<lambda>_.
     rbind (env_revision db env) (\<lambda>revision.
     if (case if_none_match of None \<Rightarrow> False | Some inm \<Rightarrow> parse_etag inm = Some revision)
     then Inr (NotModified (etag_of revision))
     else Inr (Snapshot (etag_of revision) revision (secret_views L db env))))"

subsection \<open>Batch writes\<close>

datatype change_op = Set | Delete

record change =
  ch_id :: string
  ch_op :: change_op
  ch_version :: int
  ch_enc_name :: "string option"
  ch_enc_value :: "string option"
  ch_enc_data_key :: "string option"

definition decode_required :: "lib \<Rightarrow> string option \<Rightarrow> string \<Rightarrow> nat \<Rightarrow> error + bytes" where
  "decode_required L val field limit =
     rbind (ok_or val (BadRequest (''set requires '' @ field))) (\<lambda>v. encoding_decode L v field limit)"

definition find_secret :: "db \<Rightarrow> string \<Rightarrow> secret_row option" where
  "find_secret db i = sql_find (\<lambda>s. s_id s = i) (secrets db)"

definition upsert_secret ::
    "string \<Rightarrow> string \<Rightarrow> bytes \<Rightarrow> bytes \<Rightarrow> bytes \<Rightarrow> int \<Rightarrow> db \<Rightarrow> nat \<times> db" where
  "upsert_secret env i name val key version db =
     (case find_secret db i of
        None \<Rightarrow> (1, db\<lparr>secrets := sql_insert \<lparr>s_id = i, s_env = env, s_enc_name = name, s_enc_value = val,
                   s_enc_data_key = key, s_version = version, s_deleted_at = None\<rparr> (secrets db)\<rparr>)
      | Some s \<Rightarrow>
          if s_env s = env
          then (1, db\<lparr>secrets := sql_update (\<lambda>s. s_id s = i) (\<lambda>s. s\<lparr>s_enc_name := name, s_enc_value := val,
                   s_enc_data_key := key, s_version := version, s_deleted_at := None\<rparr>) (secrets db)\<rparr>)
          else (0, db))"

definition version_exists :: "db \<Rightarrow> string \<Rightarrow> int \<Rightarrow> bool" where
  "version_exists db i version = sql_exists (\<lambda>v. v_secret v = i \<and> v_version v = version) (versions db)"

definition apply_set :: "lib \<Rightarrow> string \<Rightarrow> change \<Rightarrow> db \<Rightarrow> error + db" where
  "apply_set L env c db =
     rbind (require (1 \<le> ch_version c) (BadRequest ''set requires version >= 1'')) (\<lambda>_.
     rbind (decode_required L (ch_enc_name c) ''enc_name'' MAX_ENC_NAME) (\<lambda>name.
     rbind (decode_required L (ch_enc_value c) ''enc_value'' MAX_ENC_VALUE) (\<lambda>val.
     rbind (decode_required L (ch_enc_data_key c) ''enc_data_key'' MAX_ENC_KEY) (\<lambda>key.
     let (rows_affected, db) = upsert_secret env (ch_id c) name val key (ch_version c) db
     in rbind (require (rows_affected \<noteq> 0)
          (Conflict (''secret id '' @ ch_id c @ '' belongs to another environment''))) (\<lambda>_.
        rbind (require (\<not> version_exists db (ch_id c) (ch_version c))
          (Conflict ''secret version already exists'')) (\<lambda>_.
        Inr (db\<lparr>versions := sql_insert \<lparr>v_secret = ch_id c, v_version = ch_version c, v_enc_name = name,
               v_enc_value = val, v_enc_data_key = key\<rparr> (versions db)\<rparr>)))))))"

definition apply_delete :: "int \<Rightarrow> string \<Rightarrow> change \<Rightarrow> db \<Rightarrow> error + db" where
  "apply_delete now env c db =
     Inr (db\<lparr>secrets := sql_update (\<lambda>s. s_id s = ch_id c \<and> s_env s = env) (\<lambda>s. s\<lparr>s_deleted_at := Some now\<rparr>)
       (secrets db)\<rparr>)"

definition apply_change :: "lib \<Rightarrow> int \<Rightarrow> string \<Rightarrow> db \<Rightarrow> change \<Rightarrow> error + db" where
  "apply_change L now env db c =
     rbind (validate_id (ch_id c) ''change id'') (\<lambda>_.
       case ch_op c of Set \<Rightarrow> apply_set L env c db | Delete \<Rightarrow> apply_delete now env c db)"

definition set_revision :: "string \<Rightarrow> int \<Rightarrow> db \<Rightarrow> db" where
  "set_revision env revision db =
     db\<lparr>envs := sql_update (\<lambda>e. e_id e = env) (\<lambda>e. e\<lparr>e_revision := revision\<rparr>) (envs db)\<rparr>"

definition write_secrets_tx ::
    "lib \<Rightarrow> int \<Rightarrow> project_acc \<Rightarrow> string \<Rightarrow> string \<Rightarrow> int \<Rightarrow> change list \<Rightarrow> db \<Rightarrow> error + int \<times> db" where
  "write_secrets_tx L now acc user env base_revision changes db =
     rbind (require_write_tx acc db) (\<lambda>_.
     rbind (env_revision db env) (\<lambda>current.
     rbind (require (current = base_revision)
       (Precondition ''base_revision is stale; re-pull the snapshot'')) (\<lambda>_.
     rbind (fold_result (apply_change L now env) db changes) (\<lambda>db.
     let new_revision = current + 1;
         db = set_revision env new_revision db;
         detail = dec_nat (length changes) @ '' change(s), revision '' @ dec_int new_revision
     in Inr (new_revision, case pa_org_id acc of
          None \<Rightarrow> db
        | Some org \<Rightarrow> record_tx now org user ''secrets.written''
            (no_context\<lparr>cx_env := Some env, cx_detail := Some detail\<rparr>) db)))))"

definition write_secrets ::
    "lib \<Rightarrow> int \<Rightarrow> string \<Rightarrow> string \<Rightarrow> int \<Rightarrow> change list \<Rightarrow> db \<Rightarrow> db \<Rightarrow> (error + string \<times> int) \<times> db" where
  "write_secrets L now user env base_revision changes db0 db =
     (case rbind (require (changes \<noteq> []) (BadRequest ''batch must contain at least one change'')) (\<lambda>_.
           rbind (env_access db0 env user) (\<lambda>(_, acc).
           rbind (pa_require_write acc) (\<lambda>_. Inr acc))) of
        Inl e \<Rightarrow> (Inl e, db)
      | Inr acc \<Rightarrow>
          (case run_txn (write_secrets_tx L now acc user env base_revision changes) db of
             (Inl e, db) \<Rightarrow> (Inl e, db)
           | (Inr revision, db) \<Rightarrow> (Inr (etag_of revision, revision), db)))"

subsection \<open>Conditional reads\<close>

lemma char_not_digit: "\<not> is_digit c \<Longrightarrow> c \<notin> set (dec_int i) \<or> c = CHR ''-''"
  by (auto simp: dec_int_def dec_nat_no_char)

lemma not_is_digit_chars [simp]:
  "\<not> is_digit CHR 0x22" "\<not> is_digit CHR ''W''" "\<not> is_digit CHR ''/''"
  by (simp_all add: is_digit_def)

lemma is_ascii_space_not_digit: "is_ascii_space c \<Longrightarrow> \<not> is_digit c \<and> c \<noteq> CHR ''-'' \<and> c \<noteq> CHR 0x22"
  by (auto simp: is_ascii_space_def is_digit_def Let_def)

lemma trim_start_2_none: "s \<noteq> [] \<Longrightarrow> hd s \<noteq> a \<Longrightarrow> trim_start_2 a b s = s"
  by (induction a b s rule: trim_start_2.induct) auto

lemma trim_quotes: "CHR 0x22 \<notin> set s \<Longrightarrow> s \<noteq> [] \<Longrightarrow> trim_by (\<lambda>c. c = CHR 0x22) (CHR 0x22 # s @ [CHR 0x22]) = s"
proof -
  assume s: "CHR 0x22 \<notin> set s" "s \<noteq> []"
  then have "dropWhile (\<lambda>c. c = CHR 0x22) (s @ [CHR 0x22]) = s @ [CHR 0x22]"
    by (cases s) auto
  moreover from s have "dropWhile (\<lambda>c. c = CHR 0x22) (rev s) = rev s"
    by (intro dropWhile_none) auto
  ultimately show ?thesis by (simp add: trim_by_def)
qed

lemma dec_int_not_Nil [simp]: "dec_int i \<noteq> []"
  by (simp add: dec_int_def)

lemma parse_etag_etag_of:
  assumes "in_i64 revision"
  shows "parse_etag (etag_of revision) = Some revision"
proof -
  have "trim_by is_ascii_space (etag_of revision) = etag_of revision"
  proof (rule trim_by_none)
    fix c assume "c \<in> set (etag_of revision)"
    then show "\<not> is_ascii_space c"
      using char_not_digit [of c revision] by (auto simp: etag_of_def dest: is_ascii_space_not_digit)
  qed
  moreover have "trim_start_2 CHR ''W'' CHR ''/'' (etag_of revision) = etag_of revision"
    by (rule trim_start_2_none) (simp_all add: etag_of_def)
  moreover have "trim_by (\<lambda>c. c = CHR 0x22) (etag_of revision) = dec_int revision"
    unfolding etag_of_def using char_not_digit [of "CHR 0x22" revision] by (intro trim_quotes) auto
  ultimately show ?thesis
    by (simp add: parse_etag_def parse_i64_dec_int assms)
qed

text \<open>The entity tag is a faithful validator: a client that sends back the tag it got with one
  revision is told "not modified" exactly when the environment is still at that revision, and
  otherwise gets the full snapshot with the current revision.\<close>

theorem etag_validates_revision:
  assumes "env_access db env user = Inr acc" and "env_revision db env = Inr current" and "in_i64 seen"
  shows "snapshot L db user env (Some (etag_of seen)) =
    Inr (if seen = current then NotModified (etag_of current)
         else Snapshot (etag_of current) current (secret_views L db env))"
  using assms by (simp add: snapshot_def parse_etag_etag_of)

lemmas access_eval = org_eval project_access_def env_access_def find_project_def find_env_def require_write_tx_def
  pa_require_write_def

theorem etag_validates_revision_witness:
  "snapshot demo_lib demo_db ''carol'' ''prod'' (Some (etag_of 3)) = Inr (NotModified (etag_of 3))"
proof -
  obtain acc where "env_access demo_db ''prod'' ''carol'' = Inr acc" by (simp add: access_eval)
  moreover have "env_revision demo_db ''prod'' = Inr 3" by (simp add: access_eval env_revision_def)
  moreover have "in_i64 3" by (simp add: in_i64_def)
  ultimately show ?thesis by (simp add: etag_validates_revision)
qed

subsection \<open>The abstract environment\<close>

text \<open>
  What a batch means: an environment is a map from secret ids to entries, a set replaces the entry
  (and revives a deleted one), a delete marks an existing entry and does nothing otherwise.
\<close>

record secret_entry =
  en_name :: bytes
  en_value :: bytes
  en_data_key :: bytes
  en_version :: int
  en_deleted :: bool

definition entry_of :: "secret_row \<Rightarrow> secret_entry" where
  "entry_of s = \<lparr>en_name = s_enc_name s, en_value = s_enc_value s, en_data_key = s_enc_data_key s,
     en_version = s_version s, en_deleted = (s_deleted_at s \<noteq> None)\<rparr>"

definition abs_env :: "db \<Rightarrow> string \<Rightarrow> string \<Rightarrow> secret_entry option" where
  "abs_env db env i = (case find_secret db i of
       None \<Rightarrow> None
     | Some s \<Rightarrow> if s_env s = env then Some (entry_of s) else None)"

definition payload :: "lib \<Rightarrow> string option \<Rightarrow> bytes" where
  "payload L v = the (b64_decode L (the v))"

definition spec_change :: "lib \<Rightarrow> (string \<Rightarrow> secret_entry option) \<Rightarrow> change \<Rightarrow> (string \<Rightarrow> secret_entry option)" where
  "spec_change L m c = (case ch_op c of
       Set \<Rightarrow> m(ch_id c \<mapsto> \<lparr>en_name = payload L (ch_enc_name c), en_value = payload L (ch_enc_value c),
          en_data_key = payload L (ch_enc_data_key c), en_version = ch_version c, en_deleted = False\<rparr>)
     | Delete \<Rightarrow> (case m (ch_id c) of
          None \<Rightarrow> m
        | Some e \<Rightarrow> m(ch_id c \<mapsto> e\<lparr>en_deleted := True\<rparr>)))"

definition set_version :: "lib \<Rightarrow> change \<Rightarrow> version_row" where
  "set_version L c = \<lparr>v_secret = ch_id c, v_version = ch_version c, v_enc_name = payload L (ch_enc_name c),
     v_enc_value = payload L (ch_enc_value c), v_enc_data_key = payload L (ch_enc_data_key c)\<rparr>"

lemma decode_required_payload: "decode_required L v field limit = Inr bs \<Longrightarrow> bs = payload L v"
  by (auto simp: decode_required_def rbind_eq_Inr_iff payload_def dest!: encoding_decode_bound)

lemma find_secret_congD: "secrets db' = secrets db \<Longrightarrow> find_secret db' i = find_secret db i"
  by (simp add: find_secret_def)

lemma abs_env_congD: "secrets db' = secrets db \<Longrightarrow> abs_env db' = abs_env db"
  by (simp add: abs_env_def fun_eq_iff find_secret_congD [of db' db])

lemma upsert_secret_state:
  assumes "upsert_secret env i name val key version db = (n, db')" and "n \<noteq> 0"
  shows "db' = db\<lparr>secrets := secrets db'\<rparr>"
    and "abs_env db' env = (abs_env db env)(i \<mapsto> \<lparr>en_name = name, en_value = val, en_data_key = key,
          en_version = version, en_deleted = False\<rparr>)"
    and "env' \<noteq> env \<Longrightarrow> abs_env db' env' = abs_env db env'"
proof -
  show "db' = db\<lparr>secrets := secrets db'\<rparr>"
    using assms by (auto simp: upsert_secret_def split: option.splits if_splits)
  have "find_secret db' j = (if j = i then Some \<lparr>s_id = i, s_env = env, s_enc_name = name, s_enc_value = val,
      s_enc_data_key = key, s_version = version, s_deleted_at = None\<rparr> else find_secret db j) \<and>
      (\<forall>s. find_secret db i = Some s \<longrightarrow> s_env s = env)" for j
  proof (cases "find_secret db i")
    case None
    then show ?thesis
      using assms by (auto simp: upsert_secret_def find_secret_def sql_find_insert split: option.splits)
  next
    case (Some s)
    then have s: "s_id s = i" by (auto simp: find_secret_def dest: sql_find_SomeD)
    let ?f = "\<lambda>s. s\<lparr>s_enc_name := name, s_enc_value := val, s_enc_data_key := key, s_version := version,
        s_deleted_at := None\<rparr>"
    from Some assms have env: "s_env s = env" and "db' = db\<lparr>secrets := sql_update (\<lambda>s. s_id s = i) ?f (secrets db)\<rparr>"
      by (auto simp: upsert_secret_def split: if_splits)
    then have upd: "find_secret db' j = map_option (\<lambda>r. if s_id r = i then ?f r else r) (find_secret db j)"
      by (simp add: find_secret_def sql_find_update)
    show ?thesis
    proof (cases "j = i")
      case True
      with upd Some s env show ?thesis by simp
    next
      case False
      with upd Some env show ?thesis
        by (cases "find_secret db j") (auto simp: find_secret_def dest: sql_find_SomeD)
    qed
  qed
  then show "abs_env db' env = (abs_env db env)(i \<mapsto> \<lparr>en_name = name, en_value = val, en_data_key = key,
          en_version = version, en_deleted = False\<rparr>)"
    and "env' \<noteq> env \<Longrightarrow> abs_env db' env' = abs_env db env'"
    by (auto simp: abs_env_def fun_eq_iff entry_of_def split: option.splits)
qed

definition is_set :: "change \<Rightarrow> bool" where
  "is_set c \<longleftrightarrow> ch_op c = Set"

text \<open>One change and a whole batch refine the abstract step, in the batch's environment only, and
  append to the history exactly the versions that were set.\<close>

definition applied :: "lib \<Rightarrow> string \<Rightarrow> change list \<Rightarrow> db \<Rightarrow> db \<Rightarrow> bool" where
  "applied L env cs db db' \<longleftrightarrow>
     abs_env db' env = foldl (spec_change L) (abs_env db env) cs \<and>
     (\<forall>env'. env' \<noteq> env \<longrightarrow> abs_env db' env' = abs_env db env') \<and>
     versions db' = versions db @ map (set_version L) (filter is_set cs) \<and>
     db' = db\<lparr>secrets := secrets db', versions := versions db'\<rparr>"

lemma applied_Nil: "applied L env [] db db"
  by (simp add: applied_def)

lemma applied_Cons: "applied L env [c] db db1 \<Longrightarrow> applied L env cs db1 db' \<Longrightarrow> applied L env (c # cs) db db'"
  by (cases db; cases db1; cases db') (auto simp: applied_def)

lemma apply_set_applied:
  assumes "apply_set L env c db = Inr db'" and "is_set c"
  shows "applied L env [c] db db'"
proof -
  from assms(1) obtain name val key where
    dec: "decode_required L (ch_enc_name c) ''enc_name'' MAX_ENC_NAME = Inr name"
      "decode_required L (ch_enc_value c) ''enc_value'' MAX_ENC_VALUE = Inr val"
      "decode_required L (ch_enc_data_key c) ''enc_data_key'' MAX_ENC_KEY = Inr key"
    and rows: "fst (upsert_secret env (ch_id c) name val key (ch_version c) db) \<noteq> 0"
    and res: "db' = (let db1 = snd (upsert_secret env (ch_id c) name val key (ch_version c) db) in
       db1\<lparr>versions := sql_insert \<lparr>v_secret = ch_id c, v_version = ch_version c, v_enc_name = name,
               v_enc_value = val, v_enc_data_key = key\<rparr> (versions db1)\<rparr>)"
    by (auto simp: apply_set_def rbind_eq_Inr_iff Let_def case_prod_beta)
  obtain n db1 where pair: "upsert_secret env (ch_id c) name val key (ch_version c) db = (n, db1)"
    by (cases "upsert_secret env (ch_id c) name val key (ch_version c) db") blast
  have up: "upsert_secret env (ch_id c) name val key (ch_version c) db = (n, db1)" "n \<noteq> 0"
    using rows by (simp_all add: pair)
  have db': "db' = db1\<lparr>versions := sql_insert \<lparr>v_secret = ch_id c, v_version = ch_version c, v_enc_name = name,
               v_enc_value = val, v_enc_data_key = key\<rparr> (versions db1)\<rparr>"
    using res by (simp add: pair Let_def)
  note st = upsert_secret_state [OF up]
  have "abs_env db' = abs_env db1" by (rule abs_env_congD) (simp add: db')
  moreover have "versions db1 = versions db"
    by (subst st(1)) simp
  moreover have "db' = db\<lparr>secrets := secrets db', versions := versions db'\<rparr>"
    unfolding db' by (subst st(1)) simp
  ultimately show ?thesis
    using st(2,3) dec [THEN decode_required_payload] assms(2)
    by (auto simp: applied_def spec_change_def is_set_def set_version_def db' sql_insert_def)
qed

lemma find_secret_delete:
  "find_secret (db\<lparr>secrets := sql_update (\<lambda>s. s_id s = i \<and> s_env s = env) (\<lambda>s. s\<lparr>s_deleted_at := Some now\<rparr>) (secrets db)\<rparr>) j =
     map_option (\<lambda>s. if s_id s = i \<and> s_env s = env then s\<lparr>s_deleted_at := Some now\<rparr> else s) (find_secret db j)"
  by (simp add: find_secret_def sql_find_update)

lemma find_secret_id: "find_secret db i = Some s \<Longrightarrow> s_id s = i \<and> s \<in> set (secrets db)"
  by (auto simp: find_secret_def dest: sql_find_SomeD)

lemma apply_delete_applied:
  assumes "apply_delete now env c db = Inr db'" and "\<not> is_set c"
  shows "applied L env [c] db db'"
proof -
  have db': "db' = db\<lparr>secrets := sql_update (\<lambda>s. s_id s = ch_id c \<and> s_env s = env) (\<lambda>s. s\<lparr>s_deleted_at := Some now\<rparr>)
       (secrets db)\<rparr>"
    using assms(1) by (simp add: apply_delete_def)
  have op: "ch_op c = Delete" using assms(2) by (cases "ch_op c") (simp_all add: is_set_def)
  have step: "spec_change L m c i = (if i = ch_id c then map_option (\<lambda>e. e\<lparr>en_deleted := True\<rparr>) (m i) else m i)" for m i
    by (auto simp: spec_change_def op split: option.splits)
  have find: "find_secret db' i = map_option (\<lambda>s. if s_id s = ch_id c \<and> s_env s = env
      then s\<lparr>s_deleted_at := Some now\<rparr> else s) (find_secret db i)" for i
    unfolding db' by (rule find_secret_delete)
  have "abs_env db' env' i = (if env' = env then spec_change L (abs_env db env) c i else abs_env db env' i)" for env' i
  proof (cases "find_secret db i")
    case (Some s)
    from find_secret_id [OF this] have "s_id s = i" by simp
    with Some show ?thesis by (auto simp: abs_env_def find step entry_of_def)
  qed (auto simp: abs_env_def find step)
  then show ?thesis
    using assms(2) by (auto simp: applied_def fun_eq_iff db')
qed

lemma apply_change_applied:
  assumes "apply_change L now env db c = Inr db'"
  shows "applied L env [c] db db'"
  using assms apply_set_applied [of L env c db db'] apply_delete_applied [of now env c db db' L]
  by (auto simp: apply_change_def rbind_eq_Inr_iff is_set_def split: change_op.splits)

lemma apply_changes_applied:
  "fold_result (apply_change L now env) db cs = Inr db' \<Longrightarrow> applied L env cs db db'"
proof (induction cs arbitrary: db)
  case (Cons c cs)
  then show ?case
    by (auto simp: rbind_eq_Inr_iff intro: applied_Cons apply_change_applied)
qed (simp add: applied_Nil)

subsection \<open>What a batch commits\<close>

lemma env_revision_set:
  "env_revision (set_revision env revision db) env' =
     (if env' = env then map_err id (rbind (env_revision db env) (\<lambda>_. Inr revision)) else env_revision db env')"
proof -
  have "find_env (set_revision env revision db) env' =
      map_option (\<lambda>e. if e_id e = env then e\<lparr>e_revision := revision\<rparr> else e) (find_env db env')"
    by (simp add: find_env_def set_revision_def sql_find_update)
  moreover have "find_env db env' = Some e \<Longrightarrow> e_id e = env'" for e
    by (auto simp: find_env_def dest: sql_find_SomeD)
  ultimately show ?thesis
    by (cases "find_env db env'") (auto simp: env_revision_def)
qed

lemma env_revision_congD: "envs db' = envs db \<Longrightarrow> env_revision db' = env_revision db"
  by (simp add: env_revision_def find_env_def fun_eq_iff)

lemma write_secrets_tx_committed:
  assumes "write_secrets_tx L now acc user env base cs db = Inr (rv, db')"
  obtains db1 where "require_write_tx acc db = Inr ()" "env_revision db env = Inr base" "rv = base + 1"
    "fold_result (apply_change L now env) db cs = Inr db1"
    "secrets db' = secrets db1" "versions db' = versions db1" "envs db' = envs (set_revision env rv db)"
    "db' = db\<lparr>secrets := secrets db', versions := versions db', envs := envs db', audit := audit db',
              audit_next := audit_next db'\<rparr>"
proof -
  from assms obtain db1 where ok: "require_write_tx acc db = Inr ()" "env_revision db env = Inr base" "rv = base + 1"
      "fold_result (apply_change L now env) db cs = Inr db1"
    and db': "\<exists>detail. db' = (case pa_org_id acc of
          None \<Rightarrow> set_revision env rv db1
        | Some org \<Rightarrow> record_tx now org user ''secrets.written''
            (no_context\<lparr>cx_env := Some env, cx_detail := Some detail\<rparr>) (set_revision env rv db1))"
    by (auto simp: write_secrets_tx_def rbind_eq_Inr_iff Let_def)
  obtain ss vs where frame: "db1 = db\<lparr>secrets := ss, versions := vs\<rparr>"
    using apply_changes_applied [OF ok(4)] unfolding applied_def by blast
  from db' have "secrets db' = secrets db1" "versions db' = versions db1" "envs db' = envs (set_revision env rv db)"
    by (auto simp: frame set_revision_def split: option.splits)
  moreover have "db' = db\<lparr>secrets := secrets db', versions := versions db', envs := envs db', audit := audit db',
              audit_next := audit_next db'\<rparr>"
    using db' by (auto simp: frame set_revision_def record_tx_def split: option.splits)
  ultimately show thesis using ok by (intro that)
qed

text \<open>Either the batch committed, on the caller's access as of the snapshot, or nothing changed.\<close>

lemma write_secrets_committed:
  assumes "write_secrets L now user env base cs db0 db = (Inr (tag, rv), db')"
  obtains project acc where "env_access db0 env user = Inr (project, acc)" "tag = etag_of rv" "cs \<noteq> []"
    "write_secrets_tx L now acc user env base cs db = Inr (rv, db')"
  using assms unfolding write_secrets_def
  by (auto simp: rbind_eq_Inr_iff run_txn_def split: sum.splits prod.splits)

lemma write_secrets_failed:
  "write_secrets L now user env base cs db0 db = (Inl e, db') \<Longrightarrow> db' = db"
  unfolding write_secrets_def
  by (auto simp: run_txn_def split: sum.splits prod.splits)

lemma write_secrets_unless_current:
  assumes "env_revision db env \<noteq> Inr base"
  shows "\<exists>e. write_secrets L now user env base cs db0 db = (Inl e, db)"
proof (cases "fst (write_secrets L now user env base cs db0 db)")
  case (Inl e)
  then show ?thesis by (metis prod.collapse write_secrets_failed)
next
  case (Inr r)
  obtain tag rv db' where "write_secrets L now user env base cs db0 db = (Inr (tag, rv), db')"
    using Inr by (metis prod.collapse)
  then have "env_revision db env = Inr base"
    by (auto elim!: write_secrets_committed write_secrets_tx_committed)
  with assms show ?thesis by simp
qed

interpretation write_secrets: org_write
  "run_txn (write_secrets_tx L now (acc\<lparr>pa_org_id := Some org, pa_user_id := user\<rparr>) user env base cs)"
  org user "\<lambda>_. True"
  for L now acc user env base cs org
proof unfold_locales
  fix db c db'
  assume "run_txn (write_secrets_tx L now (acc\<lparr>pa_org_id := Some org, pa_user_id := user\<rparr>) user env base cs) db = (Inr c, db')"
  then show "\<exists>r. write_authority db org user r \<and> True"
    by (auto simp: run_txn_Inr require_write_tx_Inr_iff elim!: write_secrets_tx_committed)
qed (simp add: run_txn_Inl)

subsection \<open>Properties\<close>

lemma write_secrets_state:
  assumes "write_secrets L now user env base cs db0 db = (Inr (tag, rv), db')"
  shows "env_revision db env = Inr base" and "rv = base + 1" and "tag = etag_of rv"
    and "env_revision db' env' = (if env' = env then Inr rv else env_revision db env')"
    and "abs_env db' env = foldl (spec_change L) (abs_env db env) cs"
    and "env' \<noteq> env \<Longrightarrow> abs_env db' env' = abs_env db env'"
    and "versions db' = versions db @ map (set_version L) (filter is_set cs)"
    and "db' = db\<lparr>secrets := secrets db', versions := versions db', envs := envs db', audit := audit db',
              audit_next := audit_next db'\<rparr>"
proof -
  from assms obtain project acc where tag: "tag = etag_of rv"
    and "write_secrets_tx L now acc user env base cs db = Inr (rv, db')"
    by (rule write_secrets_committed)
  from this(2) obtain db1 where st: "env_revision db env = Inr base" "rv = base + 1"
    "fold_result (apply_change L now env) db cs = Inr db1"
    "secrets db' = secrets db1" "versions db' = versions db1" "envs db' = envs (set_revision env rv db)"
    "db' = db\<lparr>secrets := secrets db', versions := versions db', envs := envs db', audit := audit db',
              audit_next := audit_next db'\<rparr>"
    by (rule write_secrets_tx_committed)
  show "env_revision db env = Inr base" "rv = base + 1" "tag = etag_of rv" by fact+
  show "env_revision db' env' = (if env' = env then Inr rv else env_revision db env')"
    using st(1) by (simp add: env_revision_congD [OF st(6)] env_revision_set)
  have app: "applied L env cs db db1" using st(3) by (rule apply_changes_applied)
  have abs: "abs_env db' = abs_env db1" by (rule abs_env_congD) (rule st(4))
  show "abs_env db' env = foldl (spec_change L) (abs_env db env) cs"
    using app by (simp add: abs applied_def)
  show "env' \<noteq> env \<Longrightarrow> abs_env db' env' = abs_env db env'"
    using app by (simp add: abs applied_def)
  show "versions db' = versions db @ map (set_version L) (filter is_set cs)"
    using app by (simp add: st(5) applied_def)
  show "db' = db\<lparr>secrets := secrets db', versions := versions db', envs := envs db', audit := audit db',
              audit_next := audit_next db'\<rparr>"
    by fact
qed

text \<open>C8: A committed batch refines the abstract one: it was applied to the revision it was made for,
  the environment's entries are the abstract fold of its changes in order, its revision is one
  higher, the history has exactly the set versions appended, and no other environment's entries or
  revision changed, whatever ids the batch names.\<close>

theorem batch_refines_map:
  assumes "write_secrets L now user env base cs db0 db = (Inr (tag, rv), db')"
  shows "env_revision db env = Inr base \<and> rv = base + 1 \<and> env_revision db' env = Inr rv \<and>
    abs_env db' env = foldl (spec_change L) (abs_env db env) cs \<and>
    versions db' = versions db @ map (set_version L) (filter is_set cs) \<and>
    (\<forall>env'. env' \<noteq> env \<longrightarrow> abs_env db' env' = abs_env db env' \<and> env_revision db' env' = env_revision db env')"
  using write_secrets_state [OF assms] by simp

definition demo_change :: change where
  "demo_change = \<lparr>ch_id = ''api_key'', ch_op = Set, ch_version = 1, ch_enc_name = Some ''AAAA'',
     ch_enc_value = Some ''AAAA'', ch_enc_data_key = Some ''AAAA''\<rparr>"

lemmas secret_eval = access_eval write_secrets_def write_secrets_tx_def env_revision_def demo_change_def
  apply_change_def apply_set_def decode_required_def upsert_secret_def find_secret_def version_exists_def

lemma demo_write:
  "fst (write_secrets demo_lib 50 ''carol'' ''prod'' 3 [demo_change] demo_db demo_db) = Inr (etag_of 4, 4)"
  by (simp add: secret_eval)

theorem batch_refines_map_witness:
  "env_revision (snd (write_secrets demo_lib 50 ''carol'' ''prod'' 3 [demo_change] demo_db demo_db)) ''prod'' = Inr 4"
  using batch_refines_map [OF fst_eqD [OF demo_write]] by blast

text \<open>C14: No update is lost: once a batch made for a revision has committed, any other batch made for
  the same revision is refused and changes nothing, whoever sends it and whatever it contains.\<close>

theorem no_lost_update:
  assumes "write_secrets L now user env base cs db0 db = (Inr r, db')"
  shows "\<exists>e. write_secrets L now' user' env base cs' db0' db' = (Inl e, db')"
proof (rule write_secrets_unless_current)
  obtain tag rv where "r = (tag, rv)" by (cases r)
  with assms have "write_secrets L now user env base cs db0 db = (Inr (tag, rv), db')" by simp
  from write_secrets_state(2) [OF this] write_secrets_state(4) [OF this, of env] show "env_revision db' env \<noteq> Inr base" by simp
qed

theorem no_lost_update_witness:
  "\<exists>e. write_secrets demo_lib 60 ''bob'' ''prod'' 3 [demo_change]
      demo_db (snd (write_secrets demo_lib 50 ''carol'' ''prod'' 3 [demo_change] demo_db demo_db)) =
    (Inl e, snd (write_secrets demo_lib 50 ''carol'' ''prod'' 3 [demo_change] demo_db demo_db))"
  by (rule no_lost_update [OF fst_eqD [OF demo_write]])

text \<open>Every stored entry has its version in the history, with the same name and value.\<close>

definition history_complete :: "db \<Rightarrow> bool" where
  "history_complete db \<longleftrightarrow> (\<forall>env i e. abs_env db env i = Some e \<longrightarrow>
     (\<exists>v \<in> set (versions db). v_secret v = i \<and> v_version v = en_version e \<and>
       v_enc_name v = en_name e \<and> v_enc_value v = en_value e))"

definition in_history :: "version_row list \<Rightarrow> string \<Rightarrow> secret_entry \<Rightarrow> bool" where
  "in_history vs i e \<longleftrightarrow> (\<exists>v \<in> set vs. v_secret v = i \<and> v_version v = en_version e \<and>
     v_enc_name v = en_name e \<and> v_enc_value v = en_value e)"

lemma in_history_mono: "in_history vs i e \<Longrightarrow> set vs \<subseteq> set vs' \<Longrightarrow> in_history vs' i e"
  by (auto simp: in_history_def)

lemma spec_change_in_history:
  assumes "\<forall>i e. m i = Some e \<longrightarrow> in_history vs i e"
  shows "\<forall>i e. spec_change L m c i = Some e \<longrightarrow> in_history (vs @ map (set_version L) (filter is_set [c])) i e"
proof (intro allI impI)
  fix i e
  assume e: "spec_change L m c i = Some e"
  have old: "m i = Some e' \<Longrightarrow> in_history (vs @ ws) i e'" for e' ws
    using assms in_history_mono by (metis append_Nil set_append sup_ge1)
  show "in_history (vs @ map (set_version L) (filter is_set [c])) i e"
  proof (cases "ch_op c")
    case Set
    with e old show ?thesis
      by (cases "i = ch_id c") (auto simp: spec_change_def is_set_def in_history_def set_version_def)
  next
    case Delete
    with e obtain e' where "m i = Some e'" "e = e' \<or> e = e'\<lparr>en_deleted := True\<rparr>"
      by (auto simp: spec_change_def split: option.splits if_splits)
    with old [of e' "map (set_version L) (filter is_set [c])"] show ?thesis by (auto simp: in_history_def)
  qed
qed

lemma spec_changes_in_history:
  assumes "\<forall>i e. m i = Some e \<longrightarrow> in_history vs i e"
  shows "\<forall>i e. foldl (spec_change L) m cs i = Some e \<longrightarrow> in_history (vs @ map (set_version L) (filter is_set cs)) i e"
  using assms
proof (induction cs arbitrary: m vs)
  case (Cons c cs)
  from Cons.IH [OF spec_change_in_history [OF Cons.prems, of L c]]
  show ?case by (cases "is_set c") simp_all
qed simp

lemma write_keeps_history_complete:
  assumes "write_secrets L now user env base cs db0 db = (Inr (tag, rv), db')" and "history_complete db"
  shows "history_complete db'"
proof -
  have hist: "history_complete d \<longleftrightarrow> (\<forall>env i e. abs_env d env i = Some e \<longrightarrow> in_history (versions d) i e)" for d
    by (simp add: history_complete_def in_history_def)
  note st = write_secrets_state [OF assms(1)]
  show ?thesis
    unfolding hist
  proof (intro allI impI)
    fix env' i e
    assume e: "abs_env db' env' i = Some e"
    show "in_history (versions db') i e"
    proof (cases "env' = env")
      case True
      with e st(5,7) spec_changes_in_history [of "abs_env db env" "versions db" L cs] assms(2)
      show ?thesis by (simp add: hist)
    next
      case False
      with e st(6) assms(2) have "in_history (versions db) i e" by (simp add: hist)
      then show ?thesis by (rule in_history_mono) (simp add: st(7))
    qed
  qed
qed

end
