(* ===== verification/Grants.thy ===== *)
theory Grants
  imports Secrets
begin

text \<open>
  Who can decrypt an environment: \<open>sync/grants.rs\<close>. A grant is the environment's vault key sealed to
  one member; a rotation replaces the vault key, with every grant, data key, history key and
  machine grant at once.
\<close>

definition list_grant_holders :: "db \<Rightarrow> string \<Rightarrow> string \<Rightarrow> error + string list" where
  "list_grant_holders db user env =
     rbind (env_access db env user) (\<lambda>(_, acc).
     rbind (require (can_manage_structure acc) (Forbidden ''must be an admin or owner to list grant holders'')) (\<lambda>_.
     Inr (sort (map g_user (sql_select (\<lambda>g. g_env g = env) (grants db))))))"

definition env_org :: "db \<Rightarrow> string \<Rightarrow> error + string option" where
  "env_org db env =
     rbind (ok_or (find_env db env) (Db ''no row'')) (\<lambda>e.
     rbind (ok_or (find_project db (e_project e)) (Db ''no row'')) (\<lambda>p. Inr (p_org p)))"

definition is_grant :: "string \<Rightarrow> string \<Rightarrow> grant_row \<Rightarrow> bool" where
  "is_grant env user g \<longleftrightarrow> g_env g = env \<and> g_user g = user"

definition share_message :: string where
  "share_message = ''must be an admin or owner to share an environment''"

definition upsert_grant :: "grant_row \<Rightarrow> db \<Rightarrow> db" where
  "upsert_grant g db =
     (if sql_exists (is_grant (g_env g) (g_user g)) (grants db)
      then db\<lparr>grants := sql_update (is_grant (g_env g) (g_user g))
             (\<lambda>h. h\<lparr>g_enc_vault_key := g_enc_vault_key g, g_granted_by := g_granted_by g\<rparr>) (grants db)\<rparr>
      else db\<lparr>grants := sql_insert g (grants db)\<rparr>)"

definition create_grant ::
    "lib \<Rightarrow> int \<Rightarrow> string \<Rightarrow> string \<Rightarrow> string \<Rightarrow> string \<Rightarrow> db \<Rightarrow> db \<Rightarrow> (error + nat) \<times> db" where
  "create_grant L now user env target enc_vault_key db0 db =
     (case rbind (encoding_decode L enc_vault_key ''enc_vault_key'' MAX_ENC_KEY) (\<lambda>enc_vault_key.
           rbind (env_access db0 env user) (\<lambda>(_, acc).
           rbind (require_manage_structure acc share_message) (\<lambda>_.
           rbind (env_org db0 env) (\<lambda>org.
           rbind (ok_or org (BadRequest ''environment is not in an organisation; nothing to share'')) (\<lambda>org.
           Inr (acc, org, enc_vault_key)))))) of
        Inl e \<Rightarrow> (Inl e, db)
      | Inr (acc, org, enc_vault_key) \<Rightarrow> run_txn (\<lambda>db.
          rbind (require_manage_structure_tx acc db share_message) (\<lambda>_.
          rbind (require (member_exists db org target)
            (BadRequest ''target user is not a member of this organisation'')) (\<lambda>_.
          rbind (require (find_env db env \<noteq> None) (Db ''foreign key violation'')) (\<lambda>_.
          Inr (200, record_tx now org user ''env.shared''
            (no_context\<lparr>cx_target := Some target, cx_env := Some env\<rparr>)
            (upsert_grant \<lparr>g_env = env, g_user = target, g_enc_vault_key = enc_vault_key,
                           g_granted_by = Some user\<rparr> db)))))) db)"

definition get_grant :: "lib \<Rightarrow> db \<Rightarrow> string \<Rightarrow> string \<Rightarrow> error + string" where
  "get_grant L db user env =
     rbind (env_access db env user) (\<lambda>_.
     rbind (ok_or (map_option g_enc_vault_key (sql_find (is_grant env user) (grants db)))
       (NotFound ''no grant for this environment'')) (\<lambda>k. Inr (encoding_encode L k)))"

subsection \<open>Rotation\<close>

record rotate_request =
  rq_base_revision :: int
  rq_grants :: "(string \<times> string) list"
  rq_data_keys :: "(string \<times> string) list"
  rq_machine_grants :: "(string \<times> string) list"
  rq_history_keys :: "((string \<times> int) \<times> string) list"

record rotation =
  ro_grants :: "(string \<times> bytes) list"
  ro_data_keys :: "(string \<times> bytes) list"
  ro_machine_grants :: "(string \<times> bytes) list"
  ro_history_keys :: "((string \<times> int) \<times> bytes) list"

definition decode_keys :: "lib \<Rightarrow> string \<Rightarrow> ('k \<times> string) list \<Rightarrow> error + ('k \<times> bytes) list" where
  "decode_keys L field = map_result (\<lambda>(k, v). rbind (encoding_decode L v field MAX_ENC_KEY) (\<lambda>b. Inr (k, b)))"

fun decode_distinct :: "lib \<Rightarrow> string \<Rightarrow> string \<Rightarrow> 'k list \<Rightarrow> ('k \<times> string) list \<Rightarrow> error + ('k \<times> bytes) list" where
  "decode_distinct L field msg seen [] = Inr []"
| "decode_distinct L field msg seen ((k, v) # xs) =
     rbind (require (k \<notin> set seen) (BadRequest msg)) (\<lambda>_.
     rbind (encoding_decode L v field MAX_ENC_KEY) (\<lambda>b.
     rbind (decode_distinct L field msg (k # seen) xs) (\<lambda>r. Inr ((k, b) # r))))"

definition decode_rotation :: "lib \<Rightarrow> string \<Rightarrow> rotate_request \<Rightarrow> error + rotation" where
  "decode_rotation L user req =
     rbind (require (distinct (map fst (rq_grants req)))
       (BadRequest ''duplicate user_id in the rotation grant set'')) (\<lambda>_.
     rbind (decode_keys L ''enc_vault_key'' (rq_grants req)) (\<lambda>gs.
     rbind (decode_keys L ''enc_data_key'' (rq_data_keys req)) (\<lambda>ds.
     rbind (decode_distinct L ''enc_vault_key'' ''duplicate token_id in the rotation machine-grant set''
       [] (rq_machine_grants req)) (\<lambda>ms.
     rbind (decode_distinct L ''enc_data_key'' ''duplicate (secret_id, version) in the rotation history set''
       [] (rq_history_keys req)) (\<lambda>hs.
     rbind (require (user \<in> set (map fst gs))
       (BadRequest ''you must include your own grant in the rotation'')) (\<lambda>_.
     Inr \<lparr>ro_grants = gs, ro_data_keys = ds, ro_machine_grants = ms, ro_history_keys = hs\<rparr>))))))"

definition verify_covers_all_secrets :: "db \<Rightarrow> string \<Rightarrow> (string \<times> bytes) list \<Rightarrow> error + unit" where
  "verify_covers_all_secrets db env data_keys =
     require (set (map fst data_keys) = set (map s_id (sql_select (\<lambda>s. s_env s = env) (secrets db))))
       (BadRequest ''rotation must rewrap exactly the environment's current secrets'')"

definition version_key :: "version_row \<Rightarrow> string \<times> int" where
  "version_key v = (v_secret v, v_version v)"

definition verify_covers_history :: "db \<Rightarrow> string \<Rightarrow> ((string \<times> int) \<times> bytes) list \<Rightarrow> error + unit" where
  "verify_covers_history db env history_keys =
     require (set (map fst history_keys) = set (map version_key (sql_select (in_env db env) (versions db))))
       (BadRequest ''rotation must rewrap exactly the environment's retained history versions'')"

definition active_token :: "string \<Rightarrow> token_row \<Rightarrow> bool" where
  "active_token env t \<longleftrightarrow> t_env t = env \<and> t_revoked_at t = None"

definition verify_covers_tokens :: "db \<Rightarrow> string \<Rightarrow> (string \<times> bytes) list \<Rightarrow> error + unit" where
  "verify_covers_tokens db env machine_grants =
     require (set (map fst machine_grants) = set (map t_id (sql_select (active_token env) (tokens db))))
       (BadRequest ''rotation must re-grant exactly the environment's active machine tokens'')"

definition rewrap_history :: "((string \<times> int) \<times> bytes) list \<Rightarrow> db \<Rightarrow> db" where
  "rewrap_history keys db =
     db\<lparr>versions := sql_rekey (\<lambda>_. True) version_key (\<lambda>k v. v\<lparr>v_enc_data_key := k\<rparr>) keys (versions db)\<rparr>"

definition regrant_machines :: "string \<Rightarrow> (string \<times> bytes) list \<Rightarrow> db \<Rightarrow> db" where
  "regrant_machines env keys db =
     db\<lparr>tokens := sql_rekey (\<lambda>t. t_env t = env) t_id (\<lambda>k t. t\<lparr>t_enc_vault_key := k\<rparr>) keys (tokens db)\<rparr>"

definition rewrap_secrets :: "string \<Rightarrow> (string \<times> bytes) list \<Rightarrow> db \<Rightarrow> db" where
  "rewrap_secrets env keys db =
     db\<lparr>secrets := sql_rekey (\<lambda>s. s_env s = env) s_id (\<lambda>k s. s\<lparr>s_enc_data_key := k\<rparr>) keys (secrets db)\<rparr>"

definition insert_grant :: "string \<Rightarrow> string \<Rightarrow> db \<Rightarrow> string \<times> bytes \<Rightarrow> error + db" where
  "insert_grant env granted_by db g =
     rbind (require (\<not> sql_exists (is_grant env (fst g)) (grants db)) (Db ''unique violation'')) (\<lambda>_.
     rbind (require (user_exists db (fst g)) (BadRequest ''a grant recipient is not a known user'')) (\<lambda>_.
     Inr (db\<lparr>grants := sql_insert \<lparr>g_env = env, g_user = fst g, g_enc_vault_key = snd g,
            g_granted_by = Some granted_by\<rparr> (grants db)\<rparr>)))"

definition rotation_detail :: "rotation \<Rightarrow> string" where
  "rotation_detail ro = dec_nat (length (ro_grants ro)) @ '' member grant(s), '' @
     dec_nat (length (ro_machine_grants ro)) @ '' machine grant(s), '' @
     dec_nat (length (ro_history_keys ro)) @ '' history version(s)''"

definition rotate_message :: string where
  "rotate_message = ''must be an admin or owner to rotate an environment''"

definition rotate_tx ::
    "int \<Rightarrow> project_acc \<Rightarrow> string \<Rightarrow> string \<Rightarrow> string \<Rightarrow> int \<Rightarrow> rotation \<Rightarrow> db \<Rightarrow> error + int \<times> db" where
  "rotate_tx now acc org user env base_revision ro db =
     rbind (require_manage_structure_tx acc db rotate_message) (\<lambda>_.
     rbind (require (\<forall>g \<in> set (ro_grants ro). member_exists db org (fst g))
       (BadRequest ''a grant recipient is not a member of this organisation'')) (\<lambda>_.
     rbind (env_revision db env) (\<lambda>current.
     rbind (require (current = base_revision)
       (Precondition ''base_revision is stale; re-pull and re-rotate'')) (\<lambda>_.
     rbind (verify_covers_all_secrets db env (ro_data_keys ro)) (\<lambda>_.
     rbind (verify_covers_history db env (ro_history_keys ro)) (\<lambda>_.
     let db = rewrap_history (ro_history_keys ro) db in
     rbind (verify_covers_tokens db env (ro_machine_grants ro)) (\<lambda>_.
     let db = regrant_machines env (ro_machine_grants ro) db;
         db = rewrap_secrets env (ro_data_keys ro) db;
         db = db\<lparr>grants := sql_delete (\<lambda>g. g_env g = env) (grants db)\<rparr> in
     rbind (fold_result (insert_grant env user) db (ro_grants ro)) (\<lambda>db.
     let new_revision = current + 1;
         db = set_revision env new_revision db
     in Inr (new_revision, record_tx now org user ''env.rotated''
          (no_context\<lparr>cx_env := Some env, cx_detail := Some (rotation_detail ro)\<rparr>) db)))))))))"

definition rotate_env ::
    "lib \<Rightarrow> int \<Rightarrow> string \<Rightarrow> string \<Rightarrow> rotate_request \<Rightarrow> db \<Rightarrow> db \<Rightarrow> (error + int) \<times> db" where
  "rotate_env L now user env req db0 db =
     (case rbind (env_access db0 env user) (\<lambda>(_, acc).
           rbind (require_manage_structure acc rotate_message) (\<lambda>_.
           rbind (env_org db0 env) (\<lambda>org.
           rbind (ok_or org (BadRequest ''environment is not in an organisation'')) (\<lambda>org.
           rbind (decode_rotation L user req) (\<lambda>ro.
           Inr ((acc, org), ro)))))) of
        Inl e \<Rightarrow> (Inl e, db)
      | Inr (ao, ro) \<Rightarrow> run_txn (rotate_tx now (fst ao) (snd ao) user env (rq_base_revision req) ro) db)"

subsection \<open>What a grant and a rotation commit\<close>

lemma env_org_access:
  assumes "env_access db env user = Inr (project, acc)" and "env_org db env = Inr org"
  shows "pa_org_id acc = org \<and> pa_user_id acc = user"
  using env_access_Inr [OF assms(1)] assms(2) by (auto simp: env_org_def rbind_eq_Inr_iff)

lemma manage_tx_authority:
  assumes "require_manage_structure_tx acc db message = Inr ()" and "pa_org_id acc = Some org"
  shows "\<exists>r. write_authority db org (pa_user_id acc) r \<and> can_manage_members r"
  using assms by (simp add: require_manage_structure_tx_Inr_iff)

lemma create_grant_committed:
  assumes "create_grant L now user env target key db0 db = (Inr c, db')"
  obtains org k where "c = 200" "env_org db0 env = Inr (Some org)" "b64_decode L key = Some k"
    "\<exists>r. write_authority db org user r \<and> can_manage_members r" "find_member db org target \<noteq> None"
    "find_env db env \<noteq> None"
    "db' = record_tx now org user ''env.shared'' (no_context\<lparr>cx_target := Some target, cx_env := Some env\<rparr>)
       (upsert_grant \<lparr>g_env = env, g_user = target, g_enc_vault_key = k, g_granted_by = Some user\<rparr> db)"
proof -
  from assms obtain project acc org k where pre: "b64_decode L key = Some k"
      "env_access db0 env user = Inr (project, acc)" "env_org db0 env = Inr (Some org)"
    and tx: "require_manage_structure_tx acc db share_message = Inr ()" "member_exists db org target"
      "find_env db env \<noteq> None" "c = 200"
      "db' = record_tx now org user ''env.shared'' (no_context\<lparr>cx_target := Some target, cx_env := Some env\<rparr>)
       (upsert_grant \<lparr>g_env = env, g_user = target, g_enc_vault_key = k, g_granted_by = Some user\<rparr> db)"
    unfolding create_grant_def
    by (auto simp: rbind_eq_Inr_iff run_txn_Inr dest!: encoding_decode_bound split: sum.splits [where 'a = error])
  have acc: "pa_org_id acc = Some org" "pa_user_id acc = user"
    using env_org_access [OF pre(2,3)] by simp_all
  show thesis
    by (rule that [of org k]) (use pre tx acc manage_tx_authority [OF tx(1) acc(1)] in \<open>simp_all add: member_exists_def\<close>)
qed

lemma create_grant_failed: "create_grant L now user env target key db0 db = (Inl e, db') \<Longrightarrow> db' = db"
  unfolding create_grant_def by (auto simp: run_txn_Inl split: sum.splits)

lemma upsert_grant_frame: "upsert_grant g db = db\<lparr>grants := grants (upsert_grant g db)\<rparr>"
  by (simp add: upsert_grant_def)

definition rotated_grants :: "string \<Rightarrow> string \<Rightarrow> (string \<times> bytes) list \<Rightarrow> grant_row list" where
  "rotated_grants env user gs = map (\<lambda>g. \<lparr>g_env = env, g_user = fst g, g_enc_vault_key = snd g,
     g_granted_by = Some user\<rparr>) gs"

lemma insert_grants_state:
  "fold_result (insert_grant env user) db gs = Inr db' \<Longrightarrow>
     db' = db\<lparr>grants := grants db @ rotated_grants env user gs\<rparr>"
proof (induction gs arbitrary: db)
  case (Cons g gs)
  from Cons.prems obtain db1 where db1: "insert_grant env user db g = Inr db1"
      "fold_result (insert_grant env user) db1 gs = Inr db'"
    by (auto simp: rbind_eq_Inr_iff)
  from db1(1) have "db1 = db\<lparr>grants := grants db @ rotated_grants env user [g]\<rparr>"
    by (auto simp: insert_grant_def rbind_eq_Inr_iff sql_insert_def rotated_grants_def)
  with Cons.IH [OF db1(2)] show ?case by (simp add: rotated_grants_def)
qed (simp add: rotated_grants_def)

lemma rotate_committed:
  assumes "rotate_env L now user env req db0 db = (Inr rv, db')"
  obtains org ro where "env_org db0 env = Inr (Some org)" "decode_rotation L user req = Inr ro"
    "\<exists>r. write_authority db org user r \<and> can_manage_members r"
    "\<forall>g \<in> set (ro_grants ro). find_member db org (fst g) \<noteq> None"
    "env_revision db env = Inr (rq_base_revision req)" "rv = rq_base_revision req + 1"
    "verify_covers_all_secrets db env (ro_data_keys ro) = Inr ()"
    "verify_covers_history db env (ro_history_keys ro) = Inr ()"
    "verify_covers_tokens db env (ro_machine_grants ro) = Inr ()"
    "db' = record_tx now org user ''env.rotated''
          (no_context\<lparr>cx_env := Some env, cx_detail := Some (rotation_detail ro)\<rparr>)
       (set_revision env rv
       (db\<lparr>grants := sql_delete (\<lambda>g. g_env g = env) (grants db) @ rotated_grants env user (ro_grants ro),
           versions := versions (rewrap_history (ro_history_keys ro) db),
           tokens := tokens (regrant_machines env (ro_machine_grants ro) db),
           secrets := secrets (rewrap_secrets env (ro_data_keys ro) db)\<rparr>))"
proof -
  from assms obtain project acc org ro where pre: "env_access db0 env user = Inr (project, acc)"
      "env_org db0 env = Inr (Some org)" "decode_rotation L user req = Inr ro"
    and tx: "rotate_tx now acc org user env (rq_base_revision req) ro db = Inr (rv, db')"
    unfolding rotate_env_def
    by (auto simp: rbind_eq_Inr_iff run_txn_Inr split: sum.splits [where 'a = error] prod.splits)
  have acc: "pa_org_id acc = Some org" "pa_user_id acc = user"
    using env_org_access [OF pre(1,2)] by simp_all
  let ?db1 = "rewrap_history (ro_history_keys ro) db"
  from tx obtain db2 where ok: "require_manage_structure_tx acc db rotate_message = Inr ()"
      "\<forall>g \<in> set (ro_grants ro). member_exists db org (fst g)"
      "env_revision db env = Inr (rq_base_revision req)" "rv = rq_base_revision req + 1"
      "verify_covers_all_secrets db env (ro_data_keys ro) = Inr ()"
      "verify_covers_history db env (ro_history_keys ro) = Inr ()"
      "verify_covers_tokens ?db1 env (ro_machine_grants ro) = Inr ()"
    and db2: "fold_result (insert_grant env user)
        (let d = rewrap_secrets env (ro_data_keys ro) (regrant_machines env (ro_machine_grants ro) ?db1)
         in d\<lparr>grants := sql_delete (\<lambda>g. g_env g = env) (grants d)\<rparr>) (ro_grants ro) = Inr db2"
    and db': "db' = record_tx now org user ''env.rotated''
          (no_context\<lparr>cx_env := Some env, cx_detail := Some (rotation_detail ro)\<rparr>) (set_revision env rv db2)"
    unfolding rotate_tx_def Let_def rbind_eq_Inr_iff require_eq_Inr_iff by auto
  have "verify_covers_tokens db env (ro_machine_grants ro) = Inr ()"
    using ok(7) by (simp add: verify_covers_tokens_def rewrap_history_def)
  moreover have "db2 = db\<lparr>grants := sql_delete (\<lambda>g. g_env g = env) (grants db) @ rotated_grants env user (ro_grants ro),
           versions := versions (rewrap_history (ro_history_keys ro) db),
           tokens := tokens (regrant_machines env (ro_machine_grants ro) db),
           secrets := secrets (rewrap_secrets env (ro_data_keys ro) db)\<rparr>"
    using insert_grants_state [OF db2] by (simp add: Let_def rewrap_history_def regrant_machines_def rewrap_secrets_def)
  ultimately show thesis
    using that [OF pre(2,3)] manage_tx_authority [OF ok(1) acc(1)] ok db' acc(2) by (simp add: member_exists_def)
qed

lemma rotate_failed: "rotate_env L now user env req db0 db = (Inl e, db') \<Longrightarrow> db' = db"
  unfolding rotate_env_def by (auto simp: run_txn_Inl split: sum.splits)

subsection \<open>The contract of the environment's revision\<close>

text \<open>
  Operations that change an environment's secrets or keys are made for one revision, commit only at
  it and leave the next one, in that environment only.
\<close>

locale revision_guarded =
  fixes run :: "db \<Rightarrow> (error + 'a) \<times> db" and env :: string and base :: int
  assumes commits_at: "run db = (Inr c, db') \<Longrightarrow> env_revision db env = Inr base \<and>
      env_revision db' env' = (if env' = env then Inr (base + 1) else env_revision db env')"
    and aborts: "run db = (Inl e, db') \<Longrightarrow> db' = db"
begin

lemma stale:
  assumes "env_revision db env \<noteq> Inr base"
  shows "\<exists>e. run db = (Inl e, db)"
  using assms commits_at aborts by (metis old.sum.exhaust surj_pair)

lemma once:
  assumes "run db = (Inr c, db')"
  shows "env_revision db' env \<noteq> Inr base"
  using commits_at [OF assms, of env] by simp

lemma monotone:
  assumes "env_revision db env' = Inr r"
  shows "\<exists>r'. env_revision (snd (run db)) env' = Inr r' \<and> r \<le> r'"
proof (cases "fst (run db)")
  case (Inl e)
  with assms aborts [of db e "snd (run db)"] show ?thesis by (metis order_refl prod.collapse)
next
  case (Inr c)
  then have "run db = (Inr c, snd (run db))" by (metis prod.collapse)
  from commits_at [OF this, of env'] assms show ?thesis by (auto split: if_splits)
qed

end

lemma rotate_revision:
  assumes "rotate_env L now user env req db0 db = (Inr rv, db')"
  shows "env_revision db env = Inr (rq_base_revision req)"
    and "env_revision db' env' = (if env' = env then Inr (rq_base_revision req + 1) else env_revision db env')"
proof -
  from assms obtain org ro where r: "env_revision db env = Inr (rq_base_revision req)" "rv = rq_base_revision req + 1"
    and e: "envs db' = envs (set_revision env rv db)"
    by (rule rotate_committed) (simp add: set_revision_def)
  then show "env_revision db env = Inr (rq_base_revision req)"
    and "env_revision db' env' = (if env' = env then Inr (rq_base_revision req + 1) else env_revision db env')"
    by (simp_all add: env_revision_congD [OF e] env_revision_set)
qed

interpretation write_guard: revision_guarded "write_secrets L now user env base cs db0" env base
  for L now user env base cs db0
proof unfold_locales
  fix db c db' env'
  assume run: "write_secrets L now user env base cs db0 db = (Inr c, db')"
  obtain tag rv where "c = (tag, rv)" by (cases c)
  with run write_secrets_state(1,2,4) [of L now user env base cs db0 db tag rv db']
  show "env_revision db env = Inr base \<and>
      env_revision db' env' = (if env' = env then Inr (base + 1) else env_revision db env')" by simp
qed (rule write_secrets_failed)

interpretation rotate_guard: revision_guarded "rotate_env L now user env req db0" env "rq_base_revision req"
  for L now user env req db0
  by unfold_locales (simp_all add: rotate_revision rotate_failed)

subsection \<open>Properties\<close>

text \<open>C17: A rotation and a batch write made for the same revision of an environment never both commit:
  whichever is first, the other is refused and changes nothing, so no data key wrapped under the
  old vault key slips in behind a rotation.\<close>

theorem rotation_excludes_writes:
  shows "(\<forall>rv db'. rotate_env L now user env req db0 db = (Inr rv, db') \<longrightarrow>
        (\<exists>e. write_secrets L now' user' env (rq_base_revision req) cs db0' db' = (Inl e, db'))) \<and>
    (\<forall>r db'. write_secrets L now' user' env (rq_base_revision req) cs db0' db = (Inr r, db') \<longrightarrow>
        (\<exists>e. rotate_env L now user env req db0 db' = (Inl e, db')))"
  by (intro conjI allI impI; (rule write_guard.stale, erule rotate_guard.once | rule rotate_guard.stale, erule write_guard.once))

lemma sql_rekey_entries:
  assumes "\<And>v r. key (upd v r) = key r" "\<And>v r. p (upd v r) = p r" "\<And>v w r. upd v (upd w r) = upd v r"
    and r: "r' \<in> set (sql_rekey p key upd kvs t)" "p r'" "key r' \<in> fst ` set kvs"
  shows "\<exists>r v. r \<in> set t \<and> r' = upd v r \<and> (key r', v) \<in> set kvs"
proof -
  have "r' \<in> set (map (\<lambda>r. case map_of (rev kvs) (key r) of None \<Rightarrow> r | Some v \<Rightarrow> if p r then upd v r else r) t)"
    using r(1) unfolding sql_rekey_map [where key = key and upd = upd and p = p, OF assms(1-3)] .
  then obtain r where "r \<in> set t"
    and r': "r' = (case map_of (rev kvs) (key r) of None \<Rightarrow> r | Some v \<Rightarrow> if p r then upd v r else r)"
    by auto
  then have same: "key r' = key r" "p r' = p r" by (auto simp: assms(1,2) split: option.splits)
  obtain v where v: "map_of (rev kvs) (key r) = Some v"
    using r(3) unfolding same by (metis map_of_eq_None_iff not_None_eq set_rev)
  with r' same r(2) have "r' = upd v r" by simp
  moreover from v have "(key r', v) \<in> set kvs" unfolding same by (auto dest: map_of_SomeD)
  ultimately show ?thesis using \<open>r \<in> set t\<close> by blast
qed

definition demo_rotation :: rotate_request where
  "demo_rotation = \<lparr>rq_base_revision = 3, rq_grants = [(''bob'', ''AAAA''), (''alice'', ''AAAA'')],
     rq_data_keys = [(''db_url'', ''AAAA'')], rq_machine_grants = [(''ci'', ''AAAA'')],
     rq_history_keys = [((''db_url'', 1), ''AAAA'')]\<rparr>"

lemmas grant_eval = secret_eval env_org_def require_manage_structure_def require_manage_structure_tx_def
  can_manage_structure_def member_exists_def is_grant_def rotate_env_def demo_rotation_def decode_rotation_def
  decode_keys_def rotate_tx_def verify_covers_all_secrets_def verify_covers_history_def verify_covers_tokens_def
  rewrap_history_def regrant_machines_def rewrap_secrets_def insert_grant_def sql_rekey_def version_key_def
  active_token_def in_env_def set_revision_def record_tx_def

lemma demo_rotate: "fst (rotate_env demo_lib 50 ''bob'' ''prod'' demo_rotation demo_db demo_db) = Inr 4"
  by (simp add: grant_eval del: set_sql_select set_filter)

theorem rotation_excludes_writes_witness:
  "\<exists>e. write_secrets demo_lib 60 ''carol'' ''prod'' (rq_base_revision demo_rotation) [demo_change] demo_db
      (snd (rotate_env demo_lib 50 ''bob'' ''prod'' demo_rotation demo_db demo_db)) =
    (Inl e, snd (rotate_env demo_lib 50 ''bob'' ''prod'' demo_rotation demo_db demo_db))"
  using rotation_excludes_writes fst_eqD [OF demo_rotate] by blast

text \<open>A committed rotation replaces the environment's grants by exactly the requested set, in
  which every recipient is a member of the organisation at that moment and the caller is one of
  them; grants to other environments are untouched. Whoever is not listed has no grant left.\<close>

theorem rotation_replaces_grants:
  assumes "rotate_env L now user env req db0 db = (Inr rv, db')"
  shows "\<exists>org ro. env_org db0 env = Inr (Some org) \<and> decode_rotation L user req = Inr ro \<and>
    sql_select (\<lambda>g. g_env g = env) (grants db') = rotated_grants env user (ro_grants ro) \<and>
    sql_select (\<lambda>g. g_env g \<noteq> env) (grants db') = sql_select (\<lambda>g. g_env g \<noteq> env) (grants db) \<and>
    user \<in> fst ` set (ro_grants ro) \<and> distinct (map fst (ro_grants ro)) \<and>
    (\<forall>u. u \<in> fst ` set (ro_grants ro) \<longrightarrow> find_member db' org u \<noteq> None)"
proof -
  from assms obtain org ro where r: "env_org db0 env = Inr (Some org)" "decode_rotation L user req = Inr ro"
    and mem: "\<forall>g \<in> set (ro_grants ro). find_member db org (fst g) \<noteq> None"
    and st: "members db' = members db"
      "grants db' = sql_delete (\<lambda>g. g_env g = env) (grants db) @ rotated_grants env user (ro_grants ro)"
    by (rule rotate_committed) (simp add: set_revision_def)
  have keys: "decode_keys L field xs = Inr ys \<Longrightarrow> map fst ys = map fst xs" for field and xs :: "(string \<times> string) list" and ys
    unfolding decode_keys_def by (induction xs arbitrary: ys) (auto simp: rbind_eq_Inr_iff)
  from r(2) have "distinct (map fst (ro_grants ro))" "user \<in> fst ` set (ro_grants ro)"
    by (auto simp: decode_rotation_def rbind_eq_Inr_iff dest: keys)
  moreover have "sql_select (\<lambda>g. g_env g = env) (rotated_grants env user (ro_grants ro)) = rotated_grants env user (ro_grants ro)"
      "sql_select (\<lambda>g. g_env g \<noteq> env) (rotated_grants env user (ro_grants ro)) = []"
    by (simp_all add: sql_select_def rotated_grants_def)
  ultimately show ?thesis
    using r mem by (auto simp: st find_member_cong [OF st(1)] sql_select_def sql_delete_def)
qed

theorem rotation_replaces_grants_witness:
  "\<exists>ro. decode_rotation demo_lib ''bob'' demo_rotation = Inr ro \<and>
     sql_select (\<lambda>g. g_env g = ''prod'')
       (grants (snd (rotate_env demo_lib 50 ''bob'' ''prod'' demo_rotation demo_db demo_db))) =
     rotated_grants ''prod'' ''bob'' (ro_grants ro)"
  using rotation_replaces_grants [OF fst_eqD [OF demo_rotate]] by blast

lemma rekey_covered:
  assumes "r' \<in> set (sql_rekey p key upd kvs t)" and "q r'"
    and "\<And>v r. key (upd v r) = key r" "\<And>v r. p (upd v r) = p r" "\<And>v w r. upd v (upd w r) = upd v r"
    and "\<And>v r. get (upd v r) = v" "\<And>v r. q (upd v r) = q r" "\<And>r. q r \<Longrightarrow> p r"
    and cover: "\<And>r. r \<in> set t \<Longrightarrow> q r \<Longrightarrow> key r \<in> fst ` set kvs"
  shows "(key r', get r') \<in> set kvs"
proof -
  obtain r where r: "r \<in> set t" "key r' = key r" "q r"
    using assms(1) unfolding sql_rekey_map [where key = key and upd = upd and p = p, OF assms(3-5)]
    using assms(2,3,7) by (fastforce split: option.splits if_splits)
  then have "key r' \<in> fst ` set kvs" using cover by simp
  from sql_rekey_entries [of key upd p r' kvs t, OF assms(3-5,1) assms(8) [OF assms(2)] this]
  show ?thesis using assms(6) by auto
qed

lemma rotation_covers:
  assumes "rotate_env L now user env req db0 db = (Inr rv, db')"
  shows "\<exists>ro. decode_rotation L user req = Inr ro \<and>
    (\<forall>s. s \<in> set (secrets db') \<longrightarrow> s_env s = env \<longrightarrow> (s_id s, s_enc_data_key s) \<in> set (ro_data_keys ro)) \<and>
    (\<forall>v. v \<in> set (versions db') \<longrightarrow> in_env db' env v \<longrightarrow> (version_key v, v_enc_data_key v) \<in> set (ro_history_keys ro)) \<and>
    (\<forall>t. t \<in> set (tokens db') \<longrightarrow> active_token env t \<longrightarrow> (t_id t, t_enc_vault_key t) \<in> set (ro_machine_grants ro)) \<and>
    map (\<lambda>s. s\<lparr>s_enc_data_key := []\<rparr>) (secrets db') = map (\<lambda>s. s\<lparr>s_enc_data_key := []\<rparr>) (secrets db) \<and>
    map (\<lambda>v. v\<lparr>v_enc_data_key := []\<rparr>) (versions db') = map (\<lambda>v. v\<lparr>v_enc_data_key := []\<rparr>) (versions db) \<and>
    map (\<lambda>t. t\<lparr>t_enc_vault_key := []\<rparr>) (tokens db') = map (\<lambda>t. t\<lparr>t_enc_vault_key := []\<rparr>) (tokens db)"
proof -
  from assms obtain org ro where ro: "decode_rotation L user req = Inr ro"
    and cov: "verify_covers_all_secrets db env (ro_data_keys ro) = Inr ()"
      "verify_covers_history db env (ro_history_keys ro) = Inr ()"
      "verify_covers_tokens db env (ro_machine_grants ro) = Inr ()"
    and st: "versions db' = sql_rekey (\<lambda>_. True) version_key (\<lambda>k v. v\<lparr>v_enc_data_key := k\<rparr>) (ro_history_keys ro) (versions db)"
      "tokens db' = sql_rekey (\<lambda>t. t_env t = env) t_id (\<lambda>k t. t\<lparr>t_enc_vault_key := k\<rparr>) (ro_machine_grants ro) (tokens db)"
      "secrets db' = sql_rekey (\<lambda>s. s_env s = env) s_id (\<lambda>k s. s\<lparr>s_enc_data_key := k\<rparr>) (ro_data_keys ro) (secrets db)"
    by (rule rotate_committed)
       (simp add: set_revision_def rewrap_history_def regrant_machines_def rewrap_secrets_def)
  have vkey: "version_key (v\<lparr>v_enc_data_key := k\<rparr>) = version_key v" for v k by (simp add: version_key_def)
  note sc = st(3) [unfolded sql_rekey_map [where key = s_id and p = "\<lambda>s. s_env s = env" and
      upd = "\<lambda>k s. s\<lparr>s_enc_data_key := k\<rparr>", simplified]]
  note vs = st(1) [unfolded sql_rekey_map [where key = version_key and p = "\<lambda>_. True" and
      upd = "\<lambda>k v. v\<lparr>v_enc_data_key := k\<rparr>", simplified vkey, simplified]]
  note tk = st(2) [unfolded sql_rekey_map [where key = t_id and p = "\<lambda>t. t_env t = env" and
      upd = "\<lambda>k t. t\<lparr>t_enc_vault_key := k\<rparr>", simplified]]
  have same: "map (\<lambda>s. s\<lparr>s_enc_data_key := []\<rparr>) (secrets db') = map (\<lambda>s. s\<lparr>s_enc_data_key := []\<rparr>) (secrets db)"
    "map (\<lambda>v. v\<lparr>v_enc_data_key := []\<rparr>) (versions db') = map (\<lambda>v. v\<lparr>v_enc_data_key := []\<rparr>) (versions db)"
    "map (\<lambda>t. t\<lparr>t_enc_vault_key := []\<rparr>) (tokens db') = map (\<lambda>t. t\<lparr>t_enc_vault_key := []\<rparr>) (tokens db)"
    unfolding sc vs tk by (auto split: option.splits)
  have in_env: "in_env db' env v \<longleftrightarrow> in_env db env v" for v
  proof -
    have "map (\<lambda>s. (s_id s, s_env s)) (secrets db') = map (\<lambda>s. (s_id s, s_env s)) (secrets db)"
      unfolding sc by (auto split: option.splits)
    then have "set (map (\<lambda>s. (s_id s, s_env s)) (secrets db')) = set (map (\<lambda>s. (s_id s, s_env s)) (secrets db))"
      by (rule arg_cong)
    moreover have "in_env d env v \<longleftrightarrow> (v_secret v, env) \<in> set (map (\<lambda>s. (s_id s, s_env s)) (secrets d))" for d
      by (force simp: in_env_def sql_exists_iff)
    ultimately show ?thesis by simp
  qed
  have in_upd: "in_env db env (v\<lparr>v_enc_data_key := k\<rparr>) \<longleftrightarrow> in_env db env v" for v k
    by (simp add: in_env_def)
  have "(s_id s, s_enc_data_key s) \<in> set (ro_data_keys ro)" if "s \<in> set (secrets db')" "s_env s = env" for s
    using that(1) [unfolded st]
    by (rule rekey_covered [where q = "\<lambda>s. s_env s = env" and get = s_enc_data_key])
       (use that(2) cov(1) in \<open>auto simp: verify_covers_all_secrets_def\<close>)
  moreover have "(version_key v, v_enc_data_key v) \<in> set (ro_history_keys ro)" if "v \<in> set (versions db')" "in_env db' env v" for v
    using that(1) [unfolded st]
    by (rule rekey_covered [where q = "in_env db env" and get = v_enc_data_key])
       (use that(2) cov(2) in \<open>auto simp: verify_covers_history_def in_env vkey in_upd\<close>)
  moreover have "(t_id t, t_enc_vault_key t) \<in> set (ro_machine_grants ro)" if "t \<in> set (tokens db')" "active_token env t" for t
    using that(1) [unfolded st]
    by (rule rekey_covered [where q = "active_token env" and get = t_enc_vault_key])
       (use that(2) cov(3) in \<open>auto simp: verify_covers_tokens_def active_token_def\<close>)
  ultimately show ?thesis using ro same by blast
qed



end
