(* ===== verification/Sessions.thy ===== *)
theory Sessions
  imports Server_Base
begin

text \<open>
  Login and sessions: \<open>auth/session.rs\<close> and \<open>auth/routes.rs\<close>. Random bytes and fresh ids are
  arguments. The URL parser (the \<open>url\<close> crate) and GitHub's code exchange are third-party: the fields
  of \<open>net\<close>. Every statement here runs on the pool on its own, so a handler that fails keeps the
  effects of its earlier statements.
\<close>

subsection \<open>Tokens\<close>

definition hex_digit :: "nat \<Rightarrow> char" where
  "hex_digit n = (if n < 10 then char_of (48 + n) else char_of (87 + n))"

definition hex_byte :: "u8 \<Rightarrow> string" where
  "hex_byte b = [hex_digit (unat b div 16), hex_digit (unat b mod 16)]"

definition to_hex :: "bytes \<Rightarrow> string" where
  "to_hex bs = concat (map hex_byte bs)"

definition hash_token :: "lib \<Rightarrow> string \<Rightarrow> bytes" where
  "hash_token L token = blake2b L token"

definition TOKEN_PREFIX :: string where "TOKEN_PREFIX = ''st_''"
definition CODE_PREFIX :: string where "CODE_PREFIX = ''sc_''"
definition SESSION_TTL :: int where "SESSION_TTL = 30 * 86400 * 1000000"
definition SESSION_TTL_SECONDS :: nat where "SESSION_TTL_SECONDS = 30 * 24 * 60 * 60"
definition SESSION_COOKIE :: string where "SESSION_COOKIE = ''sotto_session''"
definition LOGIN_FRESHNESS :: int where "LOGIN_FRESHNESS = 600 * 1000000"
definition CODE_TTL :: int where "CODE_TTL = 600 * 1000000"

definition user_known :: "db \<Rightarrow> string \<Rightarrow> bool" where
  "user_known db user = sql_exists (\<lambda>u. u_id u = user) (users db)"

definition issue_inner :: "lib \<Rightarrow> int \<Rightarrow> bytes \<Rightarrow> string \<Rightarrow> bool \<Rightarrow> db \<Rightarrow> (error + string) \<times> db" where
  "issue_inner L now raw user via_legacy_cli db =
     (let token = TOKEN_PREFIX @ to_hex raw
      in if sql_exists (\<lambda>s. ss_hash s = hash_token L token) (sessions db)
         then (Inl (Db ''unique violation''), db)
         else if \<not> user_known db user then (Inl (Db ''foreign key violation''), db)
         else (Inr token, db\<lparr>sessions := sql_insert \<lparr>ss_hash = hash_token L token, ss_user = user,
                ss_expires_at = now + SESSION_TTL, ss_legacy = via_legacy_cli\<rparr> (sessions db)\<rparr>))"

definition issue :: "lib \<Rightarrow> int \<Rightarrow> bytes \<Rightarrow> string \<Rightarrow> db \<Rightarrow> (error + string) \<times> db" where
  "issue L now raw user db = issue_inner L now raw user False db"

definition issue_legacy_cli :: "lib \<Rightarrow> int \<Rightarrow> bytes \<Rightarrow> string \<Rightarrow> db \<Rightarrow> (error + string) \<times> db" where
  "issue_legacy_cli L now raw user db = issue_inner L now raw user True db"

definition resolve :: "lib \<Rightarrow> int \<Rightarrow> string \<Rightarrow> db \<Rightarrow> string option" where
  "resolve L now token db =
     map_option ss_user (sql_find (\<lambda>s. ss_hash s = hash_token L token \<and> now < ss_expires_at s) (sessions db))"

definition revoke :: "lib \<Rightarrow> string \<Rightarrow> db \<Rightarrow> db" where
  "revoke L token db = db\<lparr>sessions := sql_delete (\<lambda>s. ss_hash s = hash_token L token) (sessions db)\<rparr>"

subsection \<open>Request headers\<close>

text \<open>Header values are bytes; \<open>to_str\<close> accepts visible ASCII, spaces and tabs.\<close>

record headers =
  authorization :: "string list"
  cookies :: "string list"

definition to_str :: "string \<Rightarrow> string option" where
  "to_str v = (if list_all (\<lambda>c. let n = of_char c :: nat in n = 9 \<or> (32 \<le> n \<and> n < 127)) v then Some v else None)"

fun strip_str_prefix :: "string \<Rightarrow> string \<Rightarrow> string option" where
  "strip_str_prefix [] s = Some s"
| "strip_str_prefix (p # ps) (c # cs) = (if p = c then strip_str_prefix ps cs else None)"
| "strip_str_prefix (p # ps) [] = None"

fun split_on :: "char \<Rightarrow> string \<Rightarrow> string list" where
  "split_on d [] = [[]]"
| "split_on d (c # cs) = (if c = d then [] # split_on d cs
     else (case split_on d cs of [] \<Rightarrow> [[c]] | w # ws \<Rightarrow> (c # w) # ws))"

fun split_once :: "char \<Rightarrow> string \<Rightarrow> (string \<times> string) option" where
  "split_once d [] = None"
| "split_once d (c # cs) = (if c = d then Some ([], cs)
     else map_option (\<lambda>(a, b). (c # a, b)) (split_once d cs))"

definition trim_ascii :: "string \<Rightarrow> string" where
  "trim_ascii = trim_by is_ascii_space"

definition bearer_token :: "headers \<Rightarrow> string option" where
  "bearer_token h = (case authorization h of
       [] \<Rightarrow> None
     | v # _ \<Rightarrow> Option.bind (to_str v) (\<lambda>v.
         Option.bind (strip_str_prefix ''Bearer '' v) (\<lambda>v.
         if trim_ascii v = [] then None else Some (trim_ascii v))))"

definition token_from_headers :: "headers \<Rightarrow> string option" where
  "token_from_headers h = (case bearer_token h of
       Some t \<Rightarrow> Some t
     | None \<Rightarrow> map_option snd (List.find (\<lambda>(name, _). name = SESSION_COOKIE)
         (List.map_filter (\<lambda>kv. split_once CHR ''='' (trim_ascii kv))
           (concat (map (split_on CHR '';'') (List.map_filter to_str (cookies h)))))))"

definition session_cookie :: "string \<Rightarrow> bool \<Rightarrow> string" where
  "session_cookie token secure = SESSION_COOKIE @ ''='' @ token @ ''; HttpOnly; SameSite=Lax; Path=/; Max-Age='' @
     dec_nat SESSION_TTL_SECONDS @ (if secure then ''; Secure'' else [])"

definition clear_cookie :: "bool \<Rightarrow> string" where
  "clear_cookie secure = SESSION_COOKIE @ ''=; HttpOnly; SameSite=Lax; Path=/; Max-Age=0'' @
     (if secure then ''; Secure'' else [])"

definition authenticate :: "lib \<Rightarrow> int \<Rightarrow> headers \<Rightarrow> db \<Rightarrow> error + string" where
  "authenticate L now h db =
     rbind (ok_or (token_from_headers h) Unauthorized) (\<lambda>token.
     ok_or (resolve L now token db) Unauthorized)"

subsection \<open>Redirect targets\<close>

datatype host = Ipv4 bytes | Ipv6 "u16 list" | Domain string

record url =
  url_scheme :: string
  url_host :: "host option"
  url_port_or_known_default :: "nat option"
  url_rest :: string

record identity =
  id_provider :: string
  id_subject :: string
  id_email :: "string option"

record net =
  parse_url :: "string \<Rightarrow> url option"
  oauth_provider :: "(string \<Rightarrow> error + identity) option"

record oauth_config =
  oc_web_origin :: "string option"
  oc_public_base_url :: string
  oc_client_id :: string

definition secure_cookies :: "oauth_config \<Rightarrow> bool" where
  "secure_cookies c = (case oc_web_origin c of None \<Rightarrow> False | Some o' \<Rightarrow> strip_str_prefix ''https://'' o' \<noteq> None)"

definition callback_url :: "oauth_config \<Rightarrow> string" where
  "callback_url c = rev (dropWhile (\<lambda>x. x = CHR ''/'') (rev (oc_public_base_url c))) @ ''/auth/github/callback''"

definition is_loopback :: "url \<Rightarrow> bool" where
  "is_loopback u = (if url_scheme u \<noteq> ''http'' then False
     else (case url_host u of
         Some (Ipv4 ip) \<Rightarrow> (case ip of [] \<Rightarrow> False | a # _ \<Rightarrow> a = 127)
       | Some (Ipv6 ip) \<Rightarrow> ip = [0, 0, 0, 0, 0, 0, 0, 1]
       | Some (Domain d) \<Rightarrow> d = ''localhost''
       | None \<Rightarrow> False))"

definition is_web_redirect :: "net \<Rightarrow> url \<Rightarrow> string option \<Rightarrow> bool" where
  "is_web_redirect N u web_origin = (case Option.bind web_origin (parse_url N) of
       None \<Rightarrow> False
     | Some origin \<Rightarrow> url_scheme u = url_scheme origin \<and> url_host u = url_host origin \<and>
         url_port_or_known_default u = url_port_or_known_default origin)"

definition validate_redirect :: "net \<Rightarrow> string \<Rightarrow> string option \<Rightarrow> error + unit" where
  "validate_redirect N redirect_uri web_origin =
     rbind (ok_or (parse_url N redirect_uri) (BadRequest ''redirect_uri is not a valid URL'')) (\<lambda>u.
     require (is_loopback u \<or> is_web_redirect N u web_origin)
       (BadRequest ''redirect_uri must be a loopback address or the configured web origin''))"

subsection \<open>The login flow\<close>

definition debug_char :: "char \<Rightarrow> string" where
  "debug_char c = (let n = of_char c :: nat in
     if c = CHR 0x22 then [CHR 0x5C, CHR 0x22]
     else if c = CHR 0x5C then [CHR 0x5C, CHR 0x5C]
     else if n = 10 then [CHR 0x5C, CHR ''n'']
     else if n = 13 then [CHR 0x5C, CHR ''r'']
     else if n = 9 then [CHR 0x5C, CHR ''t'']
     else if n = 0 then [CHR 0x5C, CHR ''0'']
     else if n < 16 then [CHR 0x5C, CHR ''u'', CHR 0x7B, hex_digit n, CHR 0x7D]
     else if n < 32 \<or> n = 127 then [CHR 0x5C, CHR ''u'', CHR 0x7B, hex_digit (n div 16), hex_digit (n mod 16), CHR 0x7D]
     else [c])"

definition debug_str :: "string \<Rightarrow> string" where
  "debug_str s = CHR 0x22 # concat (map debug_char s) @ [CHR 0x22]"

definition login_mode :: "string option \<Rightarrow> error + bool" where
  "login_mode mode = (case mode of
       None \<Rightarrow> Inr False
     | Some m \<Rightarrow> if m = ''code'' then Inr True
         else Inl (BadRequest (''unknown login mode: '' @ debug_str m @ '' (want '' @ debug_str ''code'' @ '')'')))"

definition GITHUB_AUTHORIZE_URL :: string where
  "GITHUB_AUTHORIZE_URL = ''https://github.com/login/oauth/authorize''"

definition GITHUB_SCOPE :: string where
  "GITHUB_SCOPE = ''read:user user:email''"

definition login ::
    "net \<Rightarrow> oauth_config option \<Rightarrow> int \<Rightarrow> bytes \<Rightarrow> string \<Rightarrow> string \<Rightarrow> string option \<Rightarrow> db \<Rightarrow>
       (error + string \<times> (string \<times> string) list) \<times> db" where
  "login N config now raw redirect_uri cli_state mode db =
     (case rbind (ok_or config (NotConfigured ''oauth is not configured'')) (\<lambda>config.
           rbind (validate_redirect N redirect_uri (oc_web_origin config)) (\<lambda>_.
           rbind (login_mode mode) (\<lambda>wants_code. Inr (config, wants_code)))) of
        Inl e \<Rightarrow> (Inl e, db)
      | Inr (config, wants_code) \<Rightarrow>
          let db = db\<lparr>oauth_logins := sql_delete (\<lambda>l. lg_created_at l < now - LOGIN_FRESHNESS) (oauth_logins db)\<rparr>;
              server_state = to_hex raw
          in if sql_exists (\<lambda>l. lg_state l = server_state) (oauth_logins db)
             then (Inl (Db ''unique violation''), db)
             else (Inr (GITHUB_AUTHORIZE_URL,
                    [(''client_id'', oc_client_id config), (''redirect_uri'', callback_url config),
                     (''scope'', GITHUB_SCOPE), (''state'', server_state)]),
                   db\<lparr>oauth_logins := sql_insert \<lparr>lg_state = server_state, lg_redirect = redirect_uri,
                     lg_cli_state = cli_state, lg_wants_code = wants_code, lg_created_at = now\<rparr> (oauth_logins db)\<rparr>))"

definition upsert_user :: "string \<Rightarrow> identity \<Rightarrow> db \<Rightarrow> (error + string) \<times> db" where
  "upsert_user new_id i db =
     (let same = (\<lambda>u. u_provider u = id_provider i \<and> u_subject u = id_subject i) in
      case sql_find same (users db) of
        Some u \<Rightarrow> (Inr (u_id u), db\<lparr>users := sql_update same
            (\<lambda>u. u\<lparr>u_email := (case id_email i of Some e \<Rightarrow> Some e | None \<Rightarrow> u_email u)\<rparr>) (users db)\<rparr>)
      | None \<Rightarrow>
          if user_known db new_id then (Inl (Db ''unique violation''), db)
          else (Inr new_id, db\<lparr>users := sql_insert \<lparr>u_id = new_id, u_provider = id_provider i,
                 u_subject = id_subject i, u_email = id_email i, u_public_key = None, u_enc_private_keys = None,
                 u_kdf_params = None, u_recovery_blob = None\<rparr> (users db)\<rparr>))"

record redirect =
  rd_url :: url
  rd_pairs :: "(string \<times> string) list"
  rd_cookie :: "string option"

definition finish_login ::
    "lib \<Rightarrow> net \<Rightarrow> oauth_config \<Rightarrow> int \<Rightarrow> bytes \<Rightarrow> url \<Rightarrow> string \<Rightarrow> bool \<Rightarrow> string \<Rightarrow> db \<Rightarrow> (error + redirect) \<times> db" where
  "finish_login L N config now raw u cli_state wants_code user db =
     (if is_web_redirect N u (oc_web_origin config) then
        (case issue L now raw user db of
           (Inl e, db) \<Rightarrow> (Inl e, db)
         | (Inr token, db) \<Rightarrow> (Inr \<lparr>rd_url = u, rd_pairs = [(''state'', cli_state)],
             rd_cookie = Some (session_cookie token (secure_cookies config))\<rparr>, db))
      else if wants_code then
        let db = db\<lparr>login_codes := sql_delete (\<lambda>c. c_expires_at c \<le> now) (login_codes db)\<rparr>;
            code = CODE_PREFIX @ to_hex raw
        in if sql_exists (\<lambda>c. c_hash c = hash_token L code) (login_codes db)
           then (Inl (Db ''unique violation''), db)
           else if \<not> user_known db user then (Inl (Db ''foreign key violation''), db)
           else (Inr \<lparr>rd_url = u, rd_pairs = [(''code'', code), (''state'', cli_state)], rd_cookie = None\<rparr>,
             db\<lparr>login_codes := sql_insert \<lparr>c_hash = hash_token L code, c_user = user, c_state = cli_state,
                  c_expires_at = now + CODE_TTL\<rparr> (login_codes db)\<rparr>)
      else
        (case issue_legacy_cli L now raw user db of
           (Inl e, db) \<Rightarrow> (Inl e, db)
         | (Inr token, db) \<Rightarrow> (Inr \<lparr>rd_url = u, rd_pairs = [(''session'', token), (''state'', cli_state)],
             rd_cookie = None\<rparr>, db)))"

definition callback ::
    "lib \<Rightarrow> net \<Rightarrow> oauth_config option \<Rightarrow> int \<Rightarrow> bytes \<Rightarrow> string \<Rightarrow> string \<Rightarrow> string \<Rightarrow> db \<Rightarrow> (error + redirect) \<times> db" where
  "callback L N config now raw new_id code state db =
     (case rbind (ok_or config (NotConfigured ''oauth is not configured'')) (\<lambda>config.
           rbind (ok_or (oauth_provider N) (NotConfigured ''oauth is not configured'')) (\<lambda>exchange_code.
           Inr (config, exchange_code))) of
        Inl e \<Rightarrow> (Inl e, db)
      | Inr (config, exchange_code) \<Rightarrow>
          (case sql_find (\<lambda>l. lg_state l = state) (oauth_logins db) of
             None \<Rightarrow> (Inl (BadRequest ''unknown login state''), db)
           | Some l \<Rightarrow>
               let db = db\<lparr>oauth_logins := sql_delete (\<lambda>l. lg_state l = state) (oauth_logins db)\<rparr> in
               if \<not> (now - LOGIN_FRESHNESS < lg_created_at l)
               then (Inl (BadRequest ''login state expired''), db)
               else
                 (case exchange_code code of
                    Inl e \<Rightarrow> (Inl e, db)
                  | Inr i \<Rightarrow>
                      (case upsert_user new_id i db of
                         (Inl e, db) \<Rightarrow> (Inl e, db)
                       | (Inr user, db) \<Rightarrow>
                           (case parse_url N (lg_redirect l) of
                              None \<Rightarrow> (Inl (BadRequest ''stored redirect_uri is invalid''), db)
                            | Some u \<Rightarrow> finish_login L N config now raw u (lg_cli_state l) (lg_wants_code l) user db)))))"

definition exchange ::
    "lib \<Rightarrow> oauth_config option \<Rightarrow> int \<Rightarrow> bytes \<Rightarrow> string \<Rightarrow> string \<Rightarrow> db \<Rightarrow> (error + string) \<times> db" where
  "exchange L config now raw code state db =
     (if config = None then (Inl (NotConfigured ''oauth is not configured''), db)
      else
        let live = (\<lambda>c. c_hash c = hash_token L code \<and> c_state c = state \<and> now < c_expires_at c) in
        (case sql_find live (login_codes db) of
           None \<Rightarrow> (Inl (BadRequest ''invalid or expired code''), db)
         | Some c \<Rightarrow> issue L now raw (c_user c) (db\<lparr>login_codes := sql_delete live (login_codes db)\<rparr>)))"

definition logout :: "lib \<Rightarrow> oauth_config option \<Rightarrow> headers \<Rightarrow> db \<Rightarrow> string \<times> db" where
  "logout L config h db =
     (clear_cookie (case config of None \<Rightarrow> False | Some c \<Rightarrow> secure_cookies c),
      case token_from_headers h of None \<Rightarrow> db | Some token \<Rightarrow> revoke L token db)"

subsection \<open>Tokens through the two transports\<close>

definition hex_char :: "char \<Rightarrow> bool" where
  "hex_char c \<longleftrightarrow> (let n = of_char c :: nat in (48 \<le> n \<and> n \<le> 57) \<or> (97 \<le> n \<and> n \<le> 102))"

definition token_char :: "char \<Rightarrow> bool" where
  "token_char c \<longleftrightarrow> hex_char c \<or> c = CHR ''s'' \<or> c = CHR ''t'' \<or> c = CHR ''_'' "

lemma hex_digit_char: "n < 16 \<Longrightarrow> hex_char (hex_digit n)"
  by (auto simp: hex_char_def hex_digit_def Let_def)

lemma to_hex_chars: "c \<in> set (to_hex bs) \<Longrightarrow> hex_char c"
proof -
  have "unat b div 16 < 16" "unat b mod 16 < 16" for b :: u8
    using unsigned_less [of b, where 'a = nat] by simp_all
  then show "c \<in> set (to_hex bs) \<Longrightarrow> hex_char c"
    by (auto simp: to_hex_def hex_byte_def intro: hex_digit_char)
qed

lemma issued_token_chars: "c \<in> set (TOKEN_PREFIX @ to_hex raw) \<Longrightarrow> token_char c"
  by (auto simp: TOKEN_PREFIX_def token_char_def dest: to_hex_chars)

lemma token_char_plain:
  assumes "token_char c"
  shows "c \<noteq> CHR '';''" and "c \<noteq> CHR ''=''" and "\<not> is_ascii_space c"
    and "32 \<le> (of_char c :: nat) \<and> (of_char c :: nat) < 127"
  using assms by (auto simp: token_char_def hex_char_def is_ascii_space_def Let_def)

lemma to_str_visible: "(\<And>c. c \<in> set v \<Longrightarrow> 32 \<le> (of_char c :: nat) \<and> (of_char c :: nat) < 127) \<Longrightarrow> to_str v = Some v"
  by (auto simp: to_str_def list_all_iff Let_def)

lemma split_on_none: "d \<notin> set s \<Longrightarrow> split_on d s = [s]"
  by (induction s) auto

lemma split_once_at: "d \<notin> set a \<Longrightarrow> split_once d (a @ d # b) = Some (a, b)"
  by (induction a) auto

lemma cookie_name_chars: "c \<in> set SESSION_COOKIE \<Longrightarrow> c \<noteq> CHR ''='' \<and> c \<noteq> CHR '';'' \<and> \<not> is_ascii_space c \<and>
    32 \<le> (of_char c :: nat) \<and> (of_char c :: nat) < 127"
  by (auto simp: SESSION_COOKIE_def is_ascii_space_def)

lemma token_from_bearer:
  assumes "token \<noteq> []" and "\<And>c. c \<in> set token \<Longrightarrow> token_char c"
  shows "token_from_headers \<lparr>authorization = (''Bearer '' @ token) # hs, cookies = cs\<rparr> = Some token"
proof -
  have "to_str (''Bearer '' @ token) = Some (''Bearer '' @ token)"
    by (rule to_str_visible) (auto dest: assms(2) token_char_plain(4))
  moreover have "trim_ascii token = token"
    unfolding trim_ascii_def by (rule trim_by_none) (auto dest: assms(2) token_char_plain(3))
  ultimately show ?thesis
    using assms(1) by (simp add: token_from_headers_def bearer_token_def)
qed

lemma token_from_cookie:
  assumes "\<And>c. c \<in> set token \<Longrightarrow> token_char c"
  shows "token_from_headers \<lparr>authorization = [], cookies = [SESSION_COOKIE @ ''='' @ token]\<rparr> = Some token"
proof -
  let ?v = "SESSION_COOKIE @ ''='' @ token"
  have chars: "c \<in> set ?v \<Longrightarrow> c \<noteq> CHR '';'' \<and> \<not> is_ascii_space c \<and> 32 \<le> (of_char c :: nat) \<and> (of_char c :: nat) < 127" for c
    using cookie_name_chars [of c] assms [of c] token_char_plain [of c] by (auto simp: is_ascii_space_def)
  have "to_str ?v = Some ?v" by (rule to_str_visible) (use chars in blast)
  moreover have "split_on CHR '';'' ?v = [?v]" by (rule split_on_none) (use chars in blast)
  moreover have "trim_ascii ?v = ?v" unfolding trim_ascii_def by (rule trim_by_none) (use chars in blast)
  moreover have "split_once CHR ''='' ?v = Some (SESSION_COOKIE, token)"
    using split_once_at [of "CHR ''=''" SESSION_COOKIE token] cookie_name_chars by auto
  ultimately show ?thesis
    by (simp add: token_from_headers_def bearer_token_def List.map_filter_def)
qed

subsection \<open>Sessions\<close>

lemma issue_inner_Inr:
  assumes "issue_inner L now raw user legacy db = (Inr token, db')"
  shows "token = TOKEN_PREFIX @ to_hex raw" and "user_known db user"
    and "\<not> sql_exists (\<lambda>s. ss_hash s = hash_token L token) (sessions db)"
    and "db' = db\<lparr>sessions := sql_insert \<lparr>ss_hash = hash_token L token, ss_user = user,
                ss_expires_at = now + SESSION_TTL, ss_legacy = legacy\<rparr> (sessions db)\<rparr>"
  using assms by (auto simp: issue_inner_def Let_def split: if_splits)

lemma issue_inner_Inl: "issue_inner L now raw user legacy db = (Inl e, db') \<Longrightarrow> db' = db"
  by (auto simp: issue_inner_def Let_def split: if_splits)

lemma resolve_issued:
  assumes "issue_inner L now raw user legacy db = (Inr token, db')"
  shows "resolve L now' token db' = (if now' < now + SESSION_TTL then Some user else None)"
proof -
  let ?q = "\<lambda>s. ss_hash s = hash_token L token \<and> now' < ss_expires_at s"
  from issue_inner_Inr(3) [OF assms] have "sql_find ?q (sessions db) = None"
    by (auto simp: sql_find_None_iff sql_exists_iff)
  then show ?thesis
    by (simp add: resolve_def issue_inner_Inr(4) [OF assms] sql_find_insert)
qed

text \<open>An issued session authenticates its user, through the bearer header as through the cookie,
  at any time until exactly thirty days after it was issued, and nobody from then on.\<close>

theorem issued_session_authenticates:
  assumes "issue L now raw user db = (Inr token, db')"
    and "h = \<lparr>authorization = [''Bearer '' @ token], cookies = cs\<rparr> \<or>
         h = \<lparr>authorization = [], cookies = [SESSION_COOKIE @ ''='' @ token]\<rparr>"
  shows "authenticate L now' h db' = (if now' < now + SESSION_TTL then Inr user else Inl Unauthorized)"
proof -
  note iss = assms(1) [unfolded issue_def]
  have chars: "\<And>c. c \<in> set token \<Longrightarrow> token_char c" and ne: "token \<noteq> []"
    using issue_inner_Inr(1) [OF iss] issued_token_chars by (auto simp: TOKEN_PREFIX_def)
  have "token_from_headers h = Some token"
    using assms(2) token_from_bearer [OF ne chars, of "[]" cs] token_from_cookie [OF chars] by auto
  with resolve_issued [OF iss, of now'] show ?thesis by (simp add: authenticate_def)
qed

theorem issued_session_authenticates_witness:
  "authenticate demo_lib 50
     \<lparr>authorization = [], cookies = [SESSION_COOKIE @ ''='' @ (TOKEN_PREFIX @ to_hex [1, 255])]\<rparr>
     (snd (issue demo_lib 40 [1, 255] ''bob'' demo_db)) = Inr ''bob''"
proof -
  have "fst (issue demo_lib 40 [1, 255] ''bob'' demo_db) = Inr (TOKEN_PREFIX @ to_hex [1, 255])"
    by (simp add: issue_def issue_inner_def user_known_def demo_eval Let_def)
  from issued_session_authenticates [OF fst_eqD [OF this] disjI2 [OF refl], of 50] show ?thesis
    by (simp add: SESSION_TTL_def)
qed

text \<open>Logging out ends the session everywhere: whatever transport carried the token, once it was
  used to log out no request carrying that token authenticates any more.\<close>

theorem logout_ends_session:
  assumes "token_from_headers h = Some token" and "token_from_headers h' = Some token"
  shows "authenticate L now h' (snd (logout L config h db)) = Inl Unauthorized"
proof -
  have "sql_find (\<lambda>s. ss_hash s = hash_token L token \<and> now < ss_expires_at s)
      (sql_delete (\<lambda>s. ss_hash s = hash_token L token) (sessions db)) = None"
    by (auto simp: sql_find_None_iff)
  with assms show ?thesis
    by (simp add: authenticate_def logout_def revoke_def resolve_def)
qed

theorem logout_ends_session_witness:
  "authenticate demo_lib 9 \<lparr>authorization = [''Bearer st_7''], cookies = []\<rparr>
     (snd (logout demo_lib None \<lparr>authorization = [], cookies = [''a=b; sotto_session=st_7'']\<rparr> demo_db)) = Inl Unauthorized"
proof (rule logout_ends_session)
  show "token_from_headers \<lparr>authorization = [], cookies = [''a=b; sotto_session=st_7'']\<rparr> = Some ''st_7''"
    by (simp add: token_from_headers_def bearer_token_def to_str_def trim_ascii_def trim_by_def is_ascii_space_def
        SESSION_COOKIE_def List.map_filter_def)
  show "token_from_headers \<lparr>authorization = [''Bearer st_7''], cookies = []\<rparr> = Some ''st_7''"
    by (simp add: token_from_headers_def bearer_token_def to_str_def trim_ascii_def trim_by_def is_ascii_space_def)
qed

subsection \<open>Login codes\<close>

lemma exchange_Inr:
  assumes "exchange L config now raw code state db = (Inr token, db')"
  obtains c where "c \<in> set (login_codes db)" "c_hash c = hash_token L code" "c_state c = state" "now < c_expires_at c"
    "issue L now raw (c_user c) (db\<lparr>login_codes := sql_delete (\<lambda>c. c_hash c = hash_token L code \<and> c_state c = state \<and>
       now < c_expires_at c) (login_codes db)\<rparr>) = (Inr token, db')"
  using assms unfolding exchange_def
  by (auto simp: Let_def dest!: sql_find_SomeD split: if_splits option.splits)

lemma exchange_login_codes:
  "login_codes (snd (exchange L config now raw code state db)) = login_codes db \<or>
   login_codes (snd (exchange L config now raw code state db)) =
     sql_delete (\<lambda>c. c_hash c = hash_token L code \<and> c_state c = state \<and> now < c_expires_at c) (login_codes db)"
  by (auto simp: exchange_def issue_def issue_inner_def Let_def split: option.splits)

text \<open>C32: A login code is good for one session: after an exchange that returned a token, exchanging the
  same code again fails with the generic error and leaves the state alone, at whatever time and with
  whatever state value it is sent (the code's hash being unique in the table, as its primary key).\<close>

theorem login_code_single_use:
  assumes "exchange L config now raw code state db = (Inr token, db')"
    and "distinct (map c_hash (login_codes db))"
  shows "exchange L config now' raw' code state' db' = (Inl (BadRequest ''invalid or expired code''), db')"
proof -
  let ?live = "\<lambda>c. c_hash c = hash_token L code \<and> c_state c = state \<and> now < c_expires_at c"
  from assms(1) obtain c where c: "c \<in> set (login_codes db)" "?live c"
    and iss: "issue L now raw (c_user c) (db\<lparr>login_codes := sql_delete ?live (login_codes db)\<rparr>) = (Inr token, db')"
    by (rule exchange_Inr) blast
  have codes: "login_codes db' = sql_delete ?live (login_codes db)"
    using issue_inner_Inr(4) [OF iss [unfolded issue_def]] by simp
  have "c' = c" if "c' \<in> set (login_codes db)" "c_hash c' = hash_token L code" for c'
    using assms(2) that c by (metis (no_types, lifting) distinct_map inj_onD)
  with c have "\<forall>c' \<in> set (login_codes db'). c_hash c' \<noteq> hash_token L code"
    by (auto simp: codes)
  then have "sql_find (\<lambda>c. c_hash c = hash_token L code \<and> c_state c = state' \<and> now' < c_expires_at c) (login_codes db') = None"
    by (simp add: sql_find_None_iff)
  moreover have "config \<noteq> None" using assms(1) by (cases config) (simp_all add: exchange_def)
  ultimately show ?thesis by (simp add: exchange_def)
qed

definition demo_config :: oauth_config where
  "demo_config = \<lparr>oc_web_origin = None, oc_public_base_url = ''https://sotto.example'', oc_client_id = ''id''\<rparr>"

definition demo_code_db :: db where
  "demo_code_db = demo_db\<lparr>login_codes := [\<lparr>c_hash = hash_token demo_lib ''sc_00'', c_user = ''bob'',
     c_state = ''xyz'', c_expires_at = 90\<rparr>]\<rparr>"

lemma demo_exchange: "fst (exchange demo_lib (Some demo_config) 50 [1] ''sc_00'' ''xyz'' demo_code_db) = Inr (TOKEN_PREFIX @ to_hex [1])"
  by (simp add: exchange_def demo_code_db_def issue_def issue_inner_def user_known_def demo_eval Let_def)

theorem login_code_single_use_witness:
  "let db' = snd (exchange demo_lib (Some demo_config) 50 [1] ''sc_00'' ''xyz'' demo_code_db)
   in exchange demo_lib (Some demo_config) 51 [2] ''sc_00'' ''xyz'' db' = (Inl (BadRequest ''invalid or expired code''), db')"
  using login_code_single_use [OF fst_eqD [OF demo_exchange]] by (simp add: Let_def demo_code_db_def)

subsection \<open>Where a login ends\<close>

definition logins_safe :: "net \<Rightarrow> oauth_config \<Rightarrow> db \<Rightarrow> bool" where
  "logins_safe N c db \<longleftrightarrow> (\<forall>l \<in> set (oauth_logins db). validate_redirect N (lg_redirect l) (oc_web_origin c) = Inr ())"

lemma login_keeps_logins_safe:
  assumes "logins_safe N c db" and "login N (Some c) now raw redirect_uri cli_state mode db = (r, db')"
  shows "logins_safe N c db'"
  using assms unfolding login_def logins_safe_def
  by (auto simp: rbind_eq_Inr_iff Let_def split: sum.splits if_splits)

lemma finish_login_frame: "oauth_logins (snd (finish_login L N c now raw u cs wants user db)) = oauth_logins db"
  by (auto simp: finish_login_def issue_def issue_legacy_cli_def issue_inner_def Let_def split: prod.splits sum.splits if_splits)

lemma upsert_user_frame: "oauth_logins (snd (upsert_user new_id i db)) = oauth_logins db"
  by (auto simp: upsert_user_def Let_def split: option.splits)

lemma callback_Inr:
  assumes "callback L N (Some c) now raw new_id code state db = (Inr r, db')"
  obtains l u user db1 where "l \<in> set (oauth_logins db)" "lg_state l = state" "now - LOGIN_FRESHNESS < lg_created_at l"
    "parse_url N (lg_redirect l) = Some u"
    "finish_login L N c now raw u (lg_cli_state l) (lg_wants_code l) user db1 = (Inr r, db')"
  using assms unfolding callback_def
  by (auto simp: rbind_eq_Inr_iff Let_def dest!: sql_find_SomeD
      split: sum.splits option.splits if_splits prod.splits)

lemma finish_login_Inr:
  assumes "finish_login L N c now raw u cs wants user db = (Inr r, db')"
  shows "rd_url r = u"
    and "if is_web_redirect N u (oc_web_origin c)
         then rd_pairs r = [(''state'', cs)] \<and> rd_cookie r \<noteq> None
         else rd_cookie r = None \<and> (wants \<longrightarrow> fst (hd (rd_pairs r)) = ''code'')"
  using assms unfolding finish_login_def
  by (auto simp: Let_def split: prod.splits sum.splits if_splits)


definition demo_net :: net where
  "demo_net = \<lparr>parse_url = (\<lambda>s. Some \<lparr>url_scheme = ''http'', url_host = Some (Ipv4 [127, 0, 0, 1]),
       url_port_or_known_default = Some 9000, url_rest = ''/cb''\<rparr>),
     oauth_provider = Some (\<lambda>_. Inr \<lparr>id_provider = ''github'', id_subject = ''bob'', id_email = None\<rparr>)\<rparr>"

definition demo_login_db :: db where
  "demo_login_db = demo_db\<lparr>oauth_logins := [\<lparr>lg_state = ''s1'', lg_redirect = ''http://127.0.0.1:9000/cb'',
     lg_cli_state = ''xyz'', lg_wants_code = True, lg_created_at = 10\<rparr>]\<rparr>"


end
