(* ===== verification/Machine.thy ===== *)
theory Machine
  imports Grants Sessions
begin

text \<open>
  Machine tokens (\<open>machine.rs\<close>): a credential scoped to one environment, stored only as a hash, with
  the environment's vault key sealed to the token's own key pair.
\<close>

definition MACHINE_PREFIX :: string where "MACHINE_PREFIX = ''smt_''"
definition PUBLIC_KEY_LEN :: nat where "PUBLIC_KEY_LEN = 32"
definition MAX_NAME :: nat where "MAX_NAME = 128"

definition generate_token :: "bytes \<Rightarrow> string" where
  "generate_token raw = MACHINE_PREFIX @ to_hex raw"

definition create_token_message :: string where
  "create_token_message = ''must be an admin or owner to create a machine token''"

definition create_token_check ::
    "lib \<Rightarrow> string \<Rightarrow> string \<Rightarrow> string \<Rightarrow> string \<Rightarrow> string \<Rightarrow> db \<Rightarrow> error + (project_acc \<times> bytes \<times> bytes)" where
  "create_token_check L user env name public_key enc_vault_key db0 =
     rbind (require (name \<noteq> [] \<and> length name \<le> MAX_NAME)
       (BadRequest (''name must be between 1 and '' @ dec_nat MAX_NAME @ '' characters''))) (\<lambda>_.
     rbind (encoding_decode L public_key ''public_key'' MAX_ENC_KEY) (\<lambda>public_key.
     rbind (require (length public_key = PUBLIC_KEY_LEN)
       (BadRequest (''public_key must decode to '' @ dec_nat PUBLIC_KEY_LEN @ '' bytes''))) (\<lambda>_.
     rbind (encoding_decode L enc_vault_key ''enc_vault_key'' MAX_ENC_KEY) (\<lambda>enc_vault_key.
     rbind (env_access db0 env user) (\<lambda>(_, acc).
     rbind (require_manage_structure acc create_token_message) (\<lambda>_.
     Inr (acc, public_key, enc_vault_key)))))))"

definition create_token_tx ::
    "lib \<Rightarrow> int \<Rightarrow> string \<Rightarrow> bytes \<Rightarrow> string \<Rightarrow> string \<Rightarrow> string \<Rightarrow> project_acc \<times> bytes \<times> bytes \<Rightarrow> db \<Rightarrow>
       error + (string \<times> string) \<times> db" where
  "create_token_tx L now token_id raw user env name pre db =
     (let (acc, public_key, enc_vault_key) = pre; token = generate_token raw in
      rbind (require_manage_structure_tx acc db create_token_message) (\<lambda>_.
      rbind (require (\<not> sql_exists (\<lambda>t. t_id t = token_id \<or> t_hash t = hash_token L token) (tokens db))
        (Db ''unique violation'')) (\<lambda>_.
      rbind (require (find_env db env \<noteq> None \<and> user_exists db user) (Db ''foreign key violation'')) (\<lambda>_.
      let db = db\<lparr>tokens := sql_insert \<lparr>t_id = token_id, t_env = env, t_name = name,
            t_hash = hash_token L token, t_public_key = public_key, t_enc_vault_key = enc_vault_key,
            t_created_by = Some user, t_revoked_at = None\<rparr> (tokens db)\<rparr>
      in Inr ((token_id, token), case pa_org_id acc of
           None \<Rightarrow> db
         | Some org \<Rightarrow> record_tx now org user ''token.created''
             \<lparr>cx_target = Some token_id, cx_env = Some env, cx_detail = Some name\<rparr> db)))))"

definition create_token ::
    "lib \<Rightarrow> int \<Rightarrow> string \<Rightarrow> bytes \<Rightarrow> string \<Rightarrow> string \<Rightarrow> string \<Rightarrow> string \<Rightarrow> string \<Rightarrow> db \<Rightarrow> db \<Rightarrow>
       (error + string \<times> string) \<times> db" where
  "create_token L now token_id raw user env name public_key enc_vault_key db0 db =
     (case create_token_check L user env name public_key enc_vault_key db0 of
        Inl e \<Rightarrow> (Inl e, db)
      | Inr pre \<Rightarrow> run_txn (create_token_tx L now token_id raw user env name pre) db)"

record token_view =
  tv_token_id :: string
  tv_name :: string
  tv_public_key :: string
  tv_created_by :: "string option"

definition list_tokens :: "lib \<Rightarrow> db \<Rightarrow> string \<Rightarrow> string \<Rightarrow> string option \<Rightarrow> error + token_view list" where
  "list_tokens L db user env created_by =
     rbind (env_access db env user) (\<lambda>(_, acc).
     rbind (require (can_manage_structure acc) (Forbidden ''must be an admin or owner to list machine tokens'')) (\<lambda>_.
     Inr (map (\<lambda>t. \<lparr>tv_token_id = t_id t, tv_name = t_name t, tv_public_key = encoding_encode L (t_public_key t),
            tv_created_by = t_created_by t\<rparr>)
       (sort_key t_id (sql_select (\<lambda>t. active_token env t \<and>
          (case created_by of None \<Rightarrow> True | Some c \<Rightarrow> t_created_by t = Some c)) (tokens db))))))"

definition revoke_message :: string where
  "revoke_message = ''must be an admin or owner to revoke a machine token''"

definition is_live_token :: "string \<Rightarrow> string \<Rightarrow> token_row \<Rightarrow> bool" where
  "is_live_token env token_id t \<longleftrightarrow> t_id t = token_id \<and> t_env t = env \<and> t_revoked_at t = None"

definition revoke_token_tx :: "int \<Rightarrow> string \<Rightarrow> string \<Rightarrow> string \<Rightarrow> project_acc \<Rightarrow> db \<Rightarrow> error + nat \<times> db" where
  "revoke_token_tx now user env token_id acc db =
     rbind (require_manage_structure_tx acc db revoke_message) (\<lambda>_.
     rbind (require (0 < sql_count (is_live_token env token_id) (tokens db)) (NotFound ''machine token not found'')) (\<lambda>_.
     let db = db\<lparr>tokens := sql_update (is_live_token env token_id) (\<lambda>t. t\<lparr>t_revoked_at := Some now\<rparr>) (tokens db)\<rparr>
     in Inr (204, case pa_org_id acc of
          None \<Rightarrow> db
        | Some org \<Rightarrow> record_tx now org user ''token.revoked''
            (no_context\<lparr>cx_target := Some token_id, cx_env := Some env\<rparr>) db)))"

definition revoke_token ::
    "int \<Rightarrow> string \<Rightarrow> string \<Rightarrow> string \<Rightarrow> db \<Rightarrow> db \<Rightarrow> (error + nat) \<times> db" where
  "revoke_token now user env token_id db0 db =
     (case rbind (validate_id token_id ''token_id'') (\<lambda>_.
           rbind (env_access db0 env user) (\<lambda>(_, acc).
           rbind (require_manage_structure acc revoke_message) (\<lambda>_. Inr acc))) of
        Inl e \<Rightarrow> (Inl e, db)
      | Inr acc \<Rightarrow> run_txn (revoke_token_tx now user env token_id acc) db)"

subsection \<open>The machine side\<close>

definition env_served :: "db \<Rightarrow> string \<Rightarrow> bool" where
  "env_served db env \<longleftrightarrow> (case Option.bind (find_env db env) (\<lambda>e. find_project db (e_project e)) of
       None \<Rightarrow> False
     | Some p \<Rightarrow> (case Option.bind (p_org p) (find_org db) of
         None \<Rightarrow> True
       | Some og \<Rightarrow> o_lifecycle og \<noteq> ''deleted''))"

definition machine_auth :: "lib \<Rightarrow> headers \<Rightarrow> db \<Rightarrow> error + string \<times> string" where
  "machine_auth L h db =
     rbind (ok_or (token_from_headers h) Unauthorized) (\<lambda>token.
     rbind (require (strip_str_prefix MACHINE_PREFIX token \<noteq> None) Unauthorized) (\<lambda>_.
     rbind (ok_or (sql_find (\<lambda>t. t_hash t = hash_token L token \<and> t_revoked_at t = None \<and>
         env_served db (t_env t)) (tokens db)) Unauthorized) (\<lambda>t.
     Inr (t_id t, t_env t))))"

definition machine_grant :: "lib \<Rightarrow> headers \<Rightarrow> db \<Rightarrow> error + string \<times> string" where
  "machine_grant L h db =
     rbind (machine_auth L h db) (\<lambda>(token_id, env).
     rbind (ok_or (sql_find (\<lambda>t. t_id t = token_id \<and> t_revoked_at t = None) (tokens db)) Unauthorized) (\<lambda>t.
     Inr (env, encoding_encode L (t_enc_vault_key t))))"

definition machine_secrets :: "lib \<Rightarrow> headers \<Rightarrow> db \<Rightarrow> error + int \<times> secret_view list" where
  "machine_secrets L h db =
     rbind (machine_auth L h db) (\<lambda>(_, env).
     rbind (env_revision db env) (\<lambda>revision. Inr (revision, secret_views L db env)))"

subsection \<open>What the token operations commit\<close>

lemma revoke_token_committed:
  assumes "revoke_token now user env token_id db0 db = (Inr c, db')"
  obtains project acc where "env_access db0 env user = Inr (project, acc)"
    "require_manage_structure_tx acc db revoke_message = Inr ()"
    "\<exists>t \<in> set (tokens db). is_live_token env token_id t"
    "tokens db' = sql_update (is_live_token env token_id) (\<lambda>t. t\<lparr>t_revoked_at := Some now\<rparr>) (tokens db)"
    "db' = db\<lparr>tokens := tokens db', audit := audit db', audit_next := audit_next db'\<rparr>"
proof -
  from assms obtain project acc where acc: "env_access db0 env user = Inr (project, acc)"
    and tx: "revoke_token_tx now user env token_id acc db = Inr (c, db')"
    unfolding revoke_token_def by (auto simp: rbind_eq_Inr_iff run_txn_Inr split: sum.splits)
  have "db' = db\<lparr>tokens := tokens db', audit := audit db', audit_next := audit_next db'\<rparr>"
    "tokens db' = sql_update (is_live_token env token_id) (\<lambda>t. t\<lparr>t_revoked_at := Some now\<rparr>) (tokens db)"
    "require_manage_structure_tx acc db revoke_message = Inr ()"
    "\<exists>t \<in> set (tokens db). is_live_token env token_id t"
    using tx by (auto simp: revoke_token_tx_def rbind_eq_Inr_iff Let_def sql_count_pos_iff record_tx_def
        split: option.splits)
  with acc show thesis using that by blast
qed

lemma revoke_token_failed: "revoke_token now user env token_id db0 db = (Inl e, db') \<Longrightarrow> db' = db"
  unfolding revoke_token_def by (auto simp: run_txn_Inl split: sum.splits)

lemma create_token_committed:
  assumes "create_token L now token_id raw user env name public_key enc_vault_key db0 db = (Inr c, db')"
  obtains project acc pk k where "env_access db0 env user = Inr (project, acc)"
    "b64_decode L enc_vault_key = Some k" "c = (token_id, generate_token raw)"
    "require_manage_structure_tx acc db create_token_message = Inr ()" "find_env db env \<noteq> None"
    "user_exists db user"
    "\<not> sql_exists (\<lambda>t. t_id t = token_id \<or> t_hash t = hash_token L (generate_token raw)) (tokens db)"
    "tokens db' = sql_insert \<lparr>t_id = token_id, t_env = env, t_name = name,
            t_hash = hash_token L (generate_token raw), t_public_key = pk, t_enc_vault_key = k,
            t_created_by = Some user, t_revoked_at = None\<rparr> (tokens db)"
    "db' = db\<lparr>tokens := tokens db', audit := audit db', audit_next := audit_next db'\<rparr>"
proof -
  from assms obtain project acc pk k where acc: "env_access db0 env user = Inr (project, acc)"
      "b64_decode L enc_vault_key = Some k"
    and tx: "create_token_tx L now token_id raw user env name (acc, pk, k) db = Inr (c, db')"
    unfolding create_token_def create_token_check_def
    by (auto simp: rbind_eq_Inr_iff run_txn_Inr dest!: encoding_decode_bound split: sum.splits)
  have st: "db' = db\<lparr>tokens := tokens db', audit := audit db', audit_next := audit_next db'\<rparr>"
    "tokens db' = sql_insert \<lparr>t_id = token_id, t_env = env, t_name = name,
            t_hash = hash_token L (generate_token raw), t_public_key = pk, t_enc_vault_key = k,
            t_created_by = Some user, t_revoked_at = None\<rparr> (tokens db)"
    "c = (token_id, generate_token raw)"
    "require_manage_structure_tx acc db create_token_message = Inr ()" "find_env db env \<noteq> None"
    "user_exists db user"
    "\<not> sql_exists (\<lambda>t. t_id t = token_id \<or> t_hash t = hash_token L (generate_token raw)) (tokens db)"
    using tx by (auto simp: create_token_tx_def rbind_eq_Inr_iff Let_def record_tx_def split: option.splits)
  show thesis by (rule that [of project acc k pk]) (use acc st in simp_all)
qed

lemma create_token_failed:
  "create_token L now token_id raw user env name public_key k db0 db = (Inl e, db') \<Longrightarrow> db' = db"
  unfolding create_token_def by (auto simp: run_txn_Inl split: sum.splits)

lemma machine_auth_Inr:
  assumes "machine_auth L h db = Inr (token_id, env)"
  obtains t token where "token_from_headers h = Some token" "t \<in> set (tokens db)" "t_id t = token_id" "t_env t = env"
    "t_hash t = hash_token L token" "t_revoked_at t = None"
  using assms unfolding machine_auth_def
  by (auto simp: rbind_eq_Inr_iff dest!: sql_find_SomeD)

subsection \<open>Properties\<close>

text \<open>A revoked machine token is dead: once a revocation committed, no request whatever
  authenticates as that token, so neither the environment's key nor its secrets are served to it.\<close>

theorem revoked_token_refused:
  assumes "revoke_token now user env token_id db0 db = (Inr c, db')"
    and "distinct (map t_id (tokens db))"
  shows "machine_auth L h db' \<noteq> Inr (token_id, env')"
proof
  assume auth: "machine_auth L h db' = Inr (token_id, env')"
  from assms(1) obtain t where t: "t \<in> set (tokens db)" "is_live_token env token_id t"
    and st: "tokens db' = sql_update (is_live_token env token_id) (\<lambda>t. t\<lparr>t_revoked_at := Some now\<rparr>) (tokens db)"
    by (rule revoke_token_committed) blast
  from auth obtain t' where t': "t' \<in> set (tokens db')" "t_id t' = token_id" "t_revoked_at t' = None"
    by (rule machine_auth_Inr) blast
  then have "t' \<in> set (tokens db)" "\<not> is_live_token env token_id t'"
    by (auto simp: st)
  with t t' assms(2) show False
    by (metis (no_types, lifting) distinct_map inj_onD is_live_token_def)
qed

lemmas machine_eval = grant_eval revoke_token_def revoke_token_tx_def is_live_token_def create_token_def
  create_token_check_def create_token_tx_def

theorem revoked_token_refused_witness:
  "machine_auth demo_lib \<lparr>authorization = [''Bearer smt_00''], cookies = []\<rparr>
     (snd (revoke_token 50 ''alice'' ''prod'' ''ci'' demo_db demo_db)) \<noteq> Inr (''ci'', ''prod'')"
proof -
  have "fst (revoke_token 50 ''alice'' ''prod'' ''ci'' demo_db demo_db) = Inr 204"
    by (simp add: machine_eval del: set_sql_select set_filter)
  from revoked_token_refused [OF fst_eqD [OF this]] show ?thesis by (simp add: demo_db_def)
qed

lemma is_prefix_strip: "strip_str_prefix p (p @ s) = Some s"
  by (induction p) auto

lemma generate_token_chars: "c \<in> set (generate_token raw) \<Longrightarrow> token_char c \<or> c = CHR ''m''"
  by (auto simp: generate_token_def MACHINE_PREFIX_def token_char_def dest: to_hex_chars)

lemma token_from_bearer_machine:
  "token_from_headers \<lparr>authorization = [''Bearer '' @ generate_token raw], cookies = cs\<rparr> = Some (generate_token raw)"
proof -
  let ?t = "generate_token raw"
  have c: "c \<in> set ?t \<Longrightarrow> \<not> is_ascii_space c \<and> 32 \<le> (of_char c :: nat) \<and> (of_char c :: nat) < 127" for c
    using generate_token_chars [of c raw] token_char_plain [of c] by (auto simp: is_ascii_space_def)
  have "to_str (''Bearer '' @ ?t) = Some (''Bearer '' @ ?t)"
    by (rule to_str_visible) (use c in auto)
  moreover have "trim_ascii ?t = ?t" unfolding trim_ascii_def by (rule trim_by_none) (use c in blast)
  moreover have "?t \<noteq> []" by (simp add: generate_token_def MACHINE_PREFIX_def)
  ultimately show ?thesis by (simp add: token_from_headers_def bearer_token_def)
qed

lemma created_token_env_served:
  assumes "env_access db env user = Inr (project, acc)"
    and "require_manage_structure_tx acc db message = Inr ()"
  shows "env_served db env"
proof -
  from env_access_Inr [OF assms(1)] obtain e p where ep: "find_env db env = Some e" "e_project e = project"
    "find_project db project = Some p" "pa_org_id acc = p_org p" by blast
  moreover have "o_lifecycle og = ''active''" if "Option.bind (p_org p) (find_org db) = Some og" for og
  proof -
    from that obtain org where "p_org p = Some org" "find_org db org = Some og"
      by (auto simp: bind_eq_Some_conv)
    with manage_tx_authority [OF assms(2), of org] ep(4) show ?thesis
      by (auto simp: write_authority_iff)
  qed
  ultimately show ?thesis by (fastforce simp: env_served_def split: option.splits)
qed

lemma env_served_cong:
  assumes "orgs db' = orgs db" and "projects db' = projects db" and "envs db' = envs db"
  shows "env_served db' = env_served db"
proof -
  have "find_env db' = find_env db" "find_project db' = find_project db" "find_org db' = find_org db"
    using assms by (simp_all add: find_env_def find_project_def find_org_def fun_eq_iff)
  then show ?thesis by (intro ext) (simp only: env_served_def)
qed

text \<open>A created machine token works, for its environment only: presented as a bearer token right
  after its creation it authenticates as that token and is served exactly the sealed vault key it
  was created with.\<close>

theorem created_token_opens_its_environment:
  assumes "create_token L now token_id raw user env name public_key enc_vault_key db db = (Inr (tid, token), db')"
  shows "\<exists>k. b64_decode L enc_vault_key = Some k \<and>
    machine_auth L \<lparr>authorization = [''Bearer '' @ token], cookies = []\<rparr> db' = Inr (token_id, env) \<and>
    machine_grant L \<lparr>authorization = [''Bearer '' @ token], cookies = []\<rparr> db' = Inr (env, b64_encode L k)"
proof -
  from assms obtain project acc pk k where pre: "env_access db env user = Inr (project, acc)"
    "b64_decode L enc_vault_key = Some k" "(tid, token) = (token_id, generate_token raw)"
    "require_manage_structure_tx acc db create_token_message = Inr ()"
    and fresh: "\<not> sql_exists (\<lambda>t. t_id t = token_id \<or> t_hash t = hash_token L (generate_token raw)) (tokens db)"
    and tk: "tokens db' = sql_insert \<lparr>t_id = token_id, t_env = env, t_name = name,
            t_hash = hash_token L (generate_token raw), t_public_key = pk, t_enc_vault_key = k,
            t_created_by = Some user, t_revoked_at = None\<rparr> (tokens db)"
    and db': "db' = db\<lparr>tokens := tokens db', audit := audit db', audit_next := audit_next db'\<rparr>"
    by (rule create_token_committed)
  have served: "env_served db' env"
    using created_token_env_served [OF pre(1,4)] by (subst env_served_cong [of db' db]) (subst db', simp)+
  have none: "sql_find (\<lambda>t. t_hash t = hash_token L (generate_token raw) \<and> q t) (tokens db) = None"
      "sql_find (\<lambda>t. t_id t = token_id \<and> q t) (tokens db) = None" for q
    using fresh by (auto simp: sql_find_None_iff sql_exists_iff)
  have token: "token_from_headers \<lparr>authorization = [''Bearer '' @ token], cookies = []\<rparr> = Some token"
    using pre(3) token_from_bearer_machine by simp
  have auth: "machine_auth L \<lparr>authorization = [''Bearer '' @ token], cookies = []\<rparr> db' = Inr (token_id, env)"
    using token pre(3) served
    by (simp add: machine_auth_def tk sql_find_insert none)
       (simp add: generate_token_def is_prefix_strip)
  then have "machine_grant L \<lparr>authorization = [''Bearer '' @ token], cookies = []\<rparr> db' = Inr (env, b64_encode L k)"
    by (simp add: machine_grant_def tk sql_find_insert none encoding_encode_def)
  with auth pre(2) show ?thesis by blast
qed

lemma demo_hash: "hash_token demo_lib s = [of_nat (length s)]"
  by (simp add: hash_token_def demo_lib_def)

theorem created_token_opens_its_environment_witness:
  "machine_auth demo_lib \<lparr>authorization = [''Bearer '' @ generate_token [1, 2]], cookies = []\<rparr>
     (snd (create_token demo_lib 50 ''t1'' [1, 2] ''alice'' ''prod'' ''ci2'' (replicate 44 CHR ''A'') ''AAAA'' demo_db demo_db))
   = Inr (''t1'', ''prod'')"
proof -
  have "fst (create_token demo_lib 50 ''t1'' [1, 2] ''alice'' ''prod'' ''ci2'' (replicate 44 CHR ''A'') ''AAAA'' demo_db demo_db)
      = Inr (''t1'', generate_token [1, 2])"
    by (simp add: machine_eval PUBLIC_KEY_LEN_def MAX_NAME_def demo_hash generate_token_def MACHINE_PREFIX_def to_hex_def hex_byte_def del: set_sql_select set_filter)
  from created_token_opens_its_environment [OF fst_eqD [OF this]] show ?thesis by blast
qed

end
