(* ===== verification/Account.thy ===== *)
theory Account
  imports Org
begin

text \<open>
  A user's key bundle (\<open>account.rs\<close>), stored once and replaced only by an explicit reset, and the
  reading of the audit log (\<open>audit.rs\<close>).
\<close>

definition MAX_BLOB :: nat where "MAX_BLOB = 16 * 1024"
definition MAX_ENCODED :: nat where "MAX_ENCODED = (MAX_BLOB + 2) div 3 * 4"
definition ACCOUNT_KEY_LEN :: nat where "ACCOUNT_KEY_LEN = 32"

record account_bundle =
  ab_public_key :: string
  ab_enc_private_keys :: string
  ab_kdf_params :: string
  ab_recovery_blob :: string

record account_keys =
  ak_public_key :: bytes
  ak_enc_private_keys :: bytes
  ak_kdf_params :: bytes
  ak_recovery_blob :: bytes

definition account_decode :: "lib \<Rightarrow> string \<Rightarrow> string \<Rightarrow> error + bytes" where
  "account_decode L val field =
     rbind (require (length val \<le> MAX_ENCODED)
       (BadRequest (field @ '' exceeds '' @ dec_nat MAX_BLOB @ '' bytes''))) (\<lambda>_.
     rbind (ok_or (b64_decode L val) (BadRequest (field @ '' is not valid base64''))) (\<lambda>bs.
     rbind (require (length bs \<le> MAX_BLOB)
       (BadRequest (field @ '' exceeds '' @ dec_nat MAX_BLOB @ '' bytes''))) (\<lambda>_. Inr bs)))"

definition decode_bundle :: "lib \<Rightarrow> account_bundle \<Rightarrow> error + account_keys" where
  "decode_bundle L b =
     rbind (account_decode L (ab_public_key b) ''public_key'') (\<lambda>public_key.
     rbind (require (length public_key = ACCOUNT_KEY_LEN)
       (BadRequest (''public_key must decode to '' @ dec_nat ACCOUNT_KEY_LEN @ '' bytes''))) (\<lambda>_.
     rbind (account_decode L (ab_enc_private_keys b) ''enc_private_keys'') (\<lambda>enc_private_keys.
     rbind (account_decode L (ab_kdf_params b) ''kdf_params'') (\<lambda>kdf_params.
     rbind (account_decode L (ab_recovery_blob b) ''recovery_blob'') (\<lambda>recovery_blob.
     Inr \<lparr>ak_public_key = public_key, ak_enc_private_keys = enc_private_keys, ak_kdf_params = kdf_params,
          ak_recovery_blob = recovery_blob\<rparr>)))))"

definition store_keys :: "account_keys \<Rightarrow> user_row \<Rightarrow> user_row" where
  "store_keys k u = u\<lparr>u_public_key := Some (ak_public_key k), u_enc_private_keys := Some (ak_enc_private_keys k),
     u_kdf_params := Some (ak_kdf_params k), u_recovery_blob := Some (ak_recovery_blob k)\<rparr>"

definition put_account :: "lib \<Rightarrow> string \<Rightarrow> account_bundle \<Rightarrow> db \<Rightarrow> (error + nat) \<times> db" where
  "put_account L user bundle db =
     (case decode_bundle L bundle of
        Inl e \<Rightarrow> (Inl e, db)
      | Inr k \<Rightarrow>
          let uninitialised = (\<lambda>u. u_id u = user \<and> u_public_key u = None) in
          if sql_exists uninitialised (users db)
          then (Inr 201, db\<lparr>users := sql_update uninitialised (store_keys k) (users db)\<rparr>)
          else (Inl (Conflict ''account already initialised''), db))"

definition org_rows :: "db \<Rightarrow> string \<Rightarrow> org_row list" where
  "org_rows db user = sql_select (\<lambda>og. member_exists db (o_id og) user) (orgs db)"

definition require_writable :: "org_row \<Rightarrow> error + unit" where
  "require_writable og = rbind (lifecycle_from_db (o_lifecycle og)) lifecycle_require_write"

definition reset_account_tx :: "int \<Rightarrow> string \<Rightarrow> account_keys \<Rightarrow> db \<Rightarrow> error + nat \<times> db" where
  "reset_account_tx now user k db =
     rbind (map_result require_writable (org_rows db user)) (\<lambda>_.
     let initialised = (\<lambda>u. u_id u = user \<and> u_public_key u \<noteq> None) in
     rbind (require (sql_exists initialised (users db))
       (NotFound ''account is not initialised; use PUT /account'')) (\<lambda>_.
     let orgs' = org_rows db user;
         db = db\<lparr>users := sql_update initialised (store_keys k) (users db)\<rparr>;
         db = db\<lparr>grants := sql_delete (\<lambda>g. g_user g = user) (grants db)\<rparr>;
         db = db\<lparr>members := sql_update (\<lambda>m. m_user m = user) (\<lambda>m. m\<lparr>m_enc_org_key := None\<rparr>) (members db)\<rparr>
     in Inr (200, foldl (\<lambda>db og. record_tx now (o_id og) user ''account.reset''
          (no_context\<lparr>cx_target := Some user\<rparr>) db) db orgs')))"

definition reset_account :: "lib \<Rightarrow> int \<Rightarrow> string \<Rightarrow> account_bundle \<Rightarrow> db \<Rightarrow> (error + nat) \<times> db" where
  "reset_account L now user bundle db =
     (case decode_bundle L bundle of
        Inl e \<Rightarrow> (Inl e, db)
      | Inr k \<Rightarrow> run_txn (reset_account_tx now user k) db)"

definition get_account :: "lib \<Rightarrow> db \<Rightarrow> string \<Rightarrow> error + account_bundle" where
  "get_account L db user =
     rbind (ok_or (sql_find (\<lambda>u. u_id u = user \<and> u_public_key u \<noteq> None) (users db))
       (NotFound ''account is not initialised'')) (\<lambda>u.
     case (u_public_key u, u_enc_private_keys u, u_kdf_params u, u_recovery_blob u) of
       (Some pk, Some sk, Some kp, Some rb) \<Rightarrow>
         Inr \<lparr>ab_public_key = b64_encode L pk, ab_enc_private_keys = b64_encode L sk,
              ab_kdf_params = b64_encode L kp, ab_recovery_blob = b64_encode L rb\<rparr>
     | _ \<Rightarrow> Inl (Db ''unexpected null''))"

subsection \<open>Reading the audit log\<close>

definition DEFAULT_LIMIT :: int where "DEFAULT_LIMIT = 100"
definition MAX_LIMIT :: int where "MAX_LIMIT = 500"

definition list_events :: "db \<Rightarrow> int \<Rightarrow> string \<Rightarrow> string \<Rightarrow> int option \<Rightarrow> error + audit_row list" where
  "list_events db now user org limit =
     rbind (org_access db org user) (\<lambda>acc.
     rbind (require (can_manage_members (oa_role acc))
       (Forbidden ''must be an admin or owner to read the audit log'')) (\<lambda>_.
     rbind (require_team db now org ''the audit log'') (\<lambda>_.
     let limit = max 1 (min MAX_LIMIT (case limit of None \<Rightarrow> DEFAULT_LIMIT | Some n \<Rightarrow> n))
     in Inr (take (nat limit) (sort_key (\<lambda>a. - a_id a) (sql_select (\<lambda>a. a_org a = org) (audit db)))))))"

subsection \<open>Properties\<close>

lemma put_account_Inr:
  assumes "put_account L user bundle db = (Inr c, db')"
  obtains k where "decode_bundle L bundle = Inr k" "c = 201"
    "\<exists>u \<in> set (users db). u_id u = user \<and> u_public_key u = None"
    "db' = db\<lparr>users := sql_update (\<lambda>u. u_id u = user \<and> u_public_key u = None) (store_keys k) (users db)\<rparr>"
  using assms unfolding put_account_def
  by (auto simp: Let_def sql_exists_iff split: sum.splits if_splits)

lemma store_keys_simps [simp]:
  "u_id (store_keys k u) = u_id u" "u_public_key (store_keys k u) = Some (ak_public_key k)"
  by (simp_all add: store_keys_def)

definition encode_bundle :: "lib \<Rightarrow> account_keys \<Rightarrow> account_bundle" where
  "encode_bundle L k = \<lparr>ab_public_key = b64_encode L (ak_public_key k),
     ab_enc_private_keys = b64_encode L (ak_enc_private_keys k), ab_kdf_params = b64_encode L (ak_kdf_params k),
     ab_recovery_blob = b64_encode L (ak_recovery_blob k)\<rparr>"

text \<open>A key bundle is stored once: after it was stored the account reads back as exactly the decoded
  bundle, and every later attempt to store one, whatever it holds, is a conflict that changes
  nothing.\<close>

theorem account_keys_create_only:
  assumes "put_account L user bundle db = (Inr c, db')" and "distinct (map u_id (users db))"
  shows "\<exists>k. decode_bundle L bundle = Inr k \<and> get_account L db' user = Inr (encode_bundle L k) \<and>
    (\<forall>other. \<exists>e. put_account L user other db' = (Inl e, db'))"
proof -
  from assms(1) obtain k u where k: "decode_bundle L bundle = Inr k"
    and u: "u \<in> set (users db)" "u_id u = user" "u_public_key u = None"
    and db': "db' = db\<lparr>users := sql_update (\<lambda>u. u_id u = user \<and> u_public_key u = None) (store_keys k) (users db)\<rparr>"
    by (rule put_account_Inr) blast
  have ids: "map u_id (users db') = map u_id (users db)"
    by (simp add: db' keys_sql_update)
  have new: "store_keys k u \<in> set (users db')" using u by (auto simp: db')
  have only: "v = store_keys k u" if "v \<in> set (users db')" "u_id v = user" for v
    using assms(2) new u(2) that unfolding ids [symmetric] by (metis (no_types, lifting) distinct_map inj_onD store_keys_simps(1))
  have "sql_find (\<lambda>u. u_id u = user \<and> u_public_key u \<noteq> None) (users db') = Some (store_keys k u)"
  proof (cases "sql_find (\<lambda>u. u_id u = user \<and> u_public_key u \<noteq> None) (users db')")
    case None
    with new u(2) show ?thesis by (auto simp: sql_find_None_iff)
  next
    case (Some v)
    with only sql_find_SomeD [OF Some] show ?thesis by blast
  qed
  then have "get_account L db' user = Inr (encode_bundle L k)"
    by (simp add: get_account_def store_keys_def encode_bundle_def)
  moreover have "\<not> sql_exists (\<lambda>u. u_id u = user \<and> u_public_key u = None) (users db')"
    using only by (force simp: sql_exists_iff)
  then have "\<exists>e. put_account L user other db' = (Inl e, db')" for other
    by (auto simp: put_account_def split: sum.splits)
  ultimately show ?thesis using k by blast
qed

definition demo_bundle :: account_bundle where
  "demo_bundle = \<lparr>ab_public_key = replicate 44 CHR ''A'', ab_enc_private_keys = ''AAAA'', ab_kdf_params = ''AAAA'',
     ab_recovery_blob = ''AAAA''\<rparr>"

definition demo_new_db :: db where
  "demo_new_db = demo_db\<lparr>users := map (\<lambda>u. u\<lparr>u_public_key := None\<rparr>) (users demo_db)\<rparr>"

lemmas account_eval = org_eval demo_bundle_def demo_new_db_def put_account_def decode_bundle_def account_decode_def
  ACCOUNT_KEY_LEN_def MAX_BLOB_def MAX_ENCODED_def reset_account_def reset_account_tx_def org_rows_def
  require_writable_def member_exists_def

theorem account_keys_create_only_witness:
  "\<exists>e. put_account demo_lib ''carol'' demo_bundle (snd (put_account demo_lib ''carol'' demo_bundle demo_new_db)) =
     (Inl e, snd (put_account demo_lib ''carol'' demo_bundle demo_new_db))"
proof -
  have "fst (put_account demo_lib ''carol'' demo_bundle demo_new_db) = Inr 201"
    by (simp add: account_eval demo_lib_def)
  moreover have "distinct (map u_id (users demo_new_db))" by (simp add: account_eval)
  ultimately show ?thesis using account_keys_create_only [OF fst_eqD] by blast
qed

lemma reset_audit_frame [simp]:
  "users (foldl (\<lambda>db og. record_tx now (o_id og) user act ctx db) db os) = users db"
  "orgs (foldl (\<lambda>db og. record_tx now (o_id og) user act ctx db) db os) = orgs db"
  "members (foldl (\<lambda>db og. record_tx now (o_id og) user act ctx db) db os) = members db"
  "projects (foldl (\<lambda>db og. record_tx now (o_id og) user act ctx db) db os) = projects db"
  "envs (foldl (\<lambda>db og. record_tx now (o_id og) user act ctx db) db os) = envs db"
  "grants (foldl (\<lambda>db og. record_tx now (o_id og) user act ctx db) db os) = grants db"
  "secrets (foldl (\<lambda>db og. record_tx now (o_id og) user act ctx db) db os) = secrets db"
  "versions (foldl (\<lambda>db og. record_tx now (o_id og) user act ctx db) db os) = versions db"
  "tokens (foldl (\<lambda>db og. record_tx now (o_id og) user act ctx db) db os) = tokens db"
  "shares (foldl (\<lambda>db og. record_tx now (o_id og) user act ctx db) db os) = shares db"
  "sessions (foldl (\<lambda>db og. record_tx now (o_id og) user act ctx db) db os) = sessions db"
  "login_codes (foldl (\<lambda>db og. record_tx now (o_id og) user act ctx db) db os) = login_codes db"
  "oauth_logins (foldl (\<lambda>db og. record_tx now (o_id og) user act ctx db) db os) = oauth_logins db"
  "deletions (foldl (\<lambda>db og. record_tx now (o_id og) user act ctx db) db os) = deletions db"
  by (induction os arbitrary: db) simp_all

lemma reset_account_committed:
  assumes "reset_account L now user bundle db = (Inr c, db')"
  obtains k where "decode_bundle L bundle = Inr k"
    "\<exists>vs. map_result require_writable (org_rows db user) = Inr vs"
    "\<exists>u \<in> set (users db). u_id u = user \<and> u_public_key u \<noteq> None"
    "users db' = sql_update (\<lambda>u. u_id u = user \<and> u_public_key u \<noteq> None) (store_keys k) (users db)"
    "grants db' = sql_delete (\<lambda>g. g_user g = user) (grants db)"
    "members db' = sql_update (\<lambda>m. m_user m = user) (\<lambda>m. m\<lparr>m_enc_org_key := None\<rparr>) (members db)"
    "orgs db' = orgs db" "projects db' = projects db" "envs db' = envs db" "secrets db' = secrets db"
    "versions db' = versions db" "tokens db' = tokens db" "shares db' = shares db" "sessions db' = sessions db"
    "login_codes db' = login_codes db" "oauth_logins db' = oauth_logins db" "deletions db' = deletions db"
  using assms unfolding reset_account_def reset_account_tx_def
  by (auto simp: Let_def run_txn_Inr rbind_eq_Inr_iff sql_exists_iff split: sum.splits)

lemma reset_account_failed: "reset_account L now user bundle db = (Inl e, db') \<Longrightarrow> db' = db"
  unfolding reset_account_def by (auto simp: run_txn_Inl split: sum.splits)

lemma put_account_failed: "put_account L user bundle db = (Inl e, db') \<Longrightarrow> db' = db"
  unfolding put_account_def by (auto simp: Let_def split: sum.splits if_splits)

lemma map_result_Inr_all: "map_result f xs = Inr ys \<Longrightarrow> x \<in> set xs \<Longrightarrow> \<exists>y. f x = Inr y"
  by (induction xs arbitrary: ys) (auto simp: rbind_eq_Inr_iff)

lemma require_writable_Inr: "require_writable og = Inr u \<Longrightarrow> o_lifecycle og = ''active''"
  by (auto simp: require_writable_def rbind_eq_Inr_iff lifecycle_from_db_def split: if_splits)

text \<open>An account reset ends the user's decryption everywhere and nobody else's: no grant and no
  organisation key of theirs is left, every membership keeps its role, and all other users' rows,
  grants and memberships are untouched. It commits only if each of their organisations is active.\<close>

theorem reset_drops_own_keys_only:
  assumes "reset_account L now user bundle db = (Inr c, db')"
  shows "(\<forall>g. g \<in> set (grants db') \<longleftrightarrow> g \<in> set (grants db) \<and> g_user g \<noteq> user) \<and>
    (\<forall>m. m \<in> set (members db') \<and> m_user m = user \<longrightarrow> m_enc_org_key m = None) \<and>
    map (\<lambda>m. (m_org m, m_user m, m_role m)) (members db') = map (\<lambda>m. (m_org m, m_user m, m_role m)) (members db) \<and>
    (\<forall>m. m_user m \<noteq> user \<longrightarrow> m \<in> set (members db') \<longleftrightarrow> m \<in> set (members db)) \<and>
    (\<forall>u. u_id u \<noteq> user \<longrightarrow> u \<in> set (users db') \<longleftrightarrow> u \<in> set (users db)) \<and>
    (\<forall>og. og \<in> set (orgs db) \<and> member_exists db (o_id og) user \<longrightarrow> o_lifecycle og = ''active'')"
proof -
  from assms obtain k where lc: "\<exists>vs. map_result require_writable (org_rows db user) = Inr vs"
    and st: "users db' = sql_update (\<lambda>u. u_id u = user \<and> u_public_key u \<noteq> None) (store_keys k) (users db)"
      "grants db' = sql_delete (\<lambda>g. g_user g = user) (grants db)"
      "members db' = sql_update (\<lambda>m. m_user m = user) (\<lambda>m. m\<lparr>m_enc_org_key := None\<rparr>) (members db)"
    by (rule reset_account_committed)
  have active: "o_lifecycle og = ''active''" if "og \<in> set (orgs db) \<and> member_exists db (o_id og) user" for og
    using lc that by (auto simp: org_rows_def dest!: map_result_Inr_all [where x = og] require_writable_Inr)
  have roles: "map (\<lambda>m. (m_org m, m_user m, m_role m)) (members db') = map (\<lambda>m. (m_org m, m_user m, m_role m)) (members db)"
    by (simp add: st keys_sql_update)
  have gone: "g \<in> set (grants db') \<longleftrightarrow> g \<in> set (grants db) \<and> g_user g \<noteq> user" for g
    by (simp add: st)
  have nokey: "m_enc_org_key m = None" if "m \<in> set (members db') \<and> m_user m = user" for m
  proof -
    from that have "m_user m = user" "m \<in> set (sql_update (\<lambda>m. m_user m = user) (\<lambda>m. m\<lparr>m_enc_org_key := None\<rparr>) (members db))"
      by (simp_all only: st)
    from in_sql_update_same [OF this] obtain r where "m = r\<lparr>m_enc_org_key := None\<rparr>" by blast
    then show ?thesis by simp
  qed
  have others: "m_user m \<noteq> user \<Longrightarrow> m \<in> set (members db') \<longleftrightarrow> m \<in> set (members db)" for m
    unfolding st by (rule in_sql_update_other) simp_all
  have users: "u_id u \<noteq> user \<Longrightarrow> u \<in> set (users db') \<longleftrightarrow> u \<in> set (users db)" for u
    unfolding st by (rule in_sql_update_other) simp_all
  show ?thesis
    by (intro conjI allI impI; (rule gone | rule roles | erule nokey | erule others | erule users | erule active))
qed

theorem reset_drops_own_keys_only_witness:
  "map (\<lambda>m. (m_org m, m_user m, m_role m)) (members (snd (reset_account demo_lib 50 ''bob'' demo_bundle demo_db))) =
    map (\<lambda>m. (m_org m, m_user m, m_role m)) (members demo_db)"
proof -
  have "fst (reset_account demo_lib 50 ''bob'' demo_bundle demo_db) = Inr 200"
    by (simp add: account_eval demo_lib_def)
  from reset_drops_own_keys_only [OF fst_eqD [OF this]] show ?thesis by blast
qed

text \<open>The audit log is served to admins and owners only, newest first, at most 500 events of that
  organisation; an event it leaves out is older than every one it shows.\<close>

theorem audit_page_is_newest:
  assumes "list_events db now user org limit = Inr page"
  shows "length page \<le> 500 \<and> sorted_wrt (\<lambda>a b. a_id b \<le> a_id a) page \<and>
    (\<forall>a. a \<in> set page \<longrightarrow> a \<in> set (audit db) \<and> a_org a = org) \<and>
    (\<forall>a b. a \<in> set (audit db) \<and> a_org a = org \<and> a \<notin> set page \<and> b \<in> set page \<longrightarrow> a_id a \<le> a_id b) \<and>
    (\<exists>r. member_role db org user = Inr r \<and> can_manage_members r)"
proof -
  let ?all = "sort_key (\<lambda>a. - a_id a) (sql_select (\<lambda>a. a_org a = org) (audit db))"
  from assms obtain acc n where acc: "access_for_update db org user = Inr acc" "can_manage_members (oa_role acc)"
    and n: "n \<le> 500" "page = take n ?all"
  proof -
    let ?n = "nat (max 1 (min MAX_LIMIT (case limit of None \<Rightarrow> DEFAULT_LIMIT | Some n \<Rightarrow> n)))"
    from assms obtain acc where "access_for_update db org user = Inr acc" "can_manage_members (oa_role acc)"
        "page = take ?n ?all"
      by (auto simp: list_events_def rbind_eq_Inr_iff Let_def org_access_eq_access_for_update)
    moreover have "?n \<le> 500" by (auto simp: MAX_LIMIT_def)
    ultimately show thesis using that by blast
  qed
  have sorted: "sorted_wrt (\<lambda>a b. a_id b \<le> a_id a) ?all"
    using sorted_sort_key [of "\<lambda>a. - a_id a" "sql_select (\<lambda>a. a_org a = org) (audit db)"]
    by (simp add: sorted_map)
  have split: "?all = page @ drop n ?all" by (simp add: n)
  have older: "a_id a \<le> a_id b"
    if "a \<in> set (audit db) \<and> a_org a = org \<and> a \<notin> set page \<and> b \<in> set page" for a b
  proof -
    have "a \<in> set ?all" using that by simp
    then have "a \<in> set (drop n ?all)" using that by (subst (asm) split) simp
    with sorted that show ?thesis by (subst (asm) split) (simp add: sorted_wrt_append)
  qed
  have page: "sorted_wrt (\<lambda>a b. a_id b \<le> a_id a) page"
    using sorted by (subst (asm) split) (simp add: sorted_wrt_append)
  have own: "a \<in> set (audit db)" "a_org a = org" if "a \<in> set page" for a
    using set_take_subset [of n ?all] that by (auto simp: n(2))
  have role: "\<exists>r. member_role db org user = Inr r \<and> can_manage_members r"
    using acc by (auto simp: access_for_update_Inr_iff member_role_Inr_iff)
  have len: "length page \<le> 500" using n by simp
  show ?thesis
    by (intro conjI allI impI; (rule len | rule page | rule role | erule own | erule older))
qed

theorem audit_page_is_newest_witness:
  "length ([] :: audit_row list) \<le> 500 \<and> (\<exists>r. member_role demo_db ''acme'' ''bob'' = Inr r \<and> can_manage_members r)"
proof -
  have "list_events demo_db 5 ''bob'' ''acme'' None = Inr []"
    by (simp add: account_eval list_events_def require_team_def)
  from audit_page_is_newest [OF this] show ?thesis by simp
qed

end
