(* ===== verification/Projects.thy ===== *)
theory Projects
  imports Access
begin

text \<open>Projects and environments: \<open>sync/projects.rs\<close> and \<open>sync/environments.rs\<close>.\<close>

subsection \<open>Projects\<close>

definition require_org_admin :: "error + org_access \<Rightarrow> error + unit" where
  "require_org_admin r =
     rbind r (\<lambda>acc.
     rbind (oa_require_write acc) (\<lambda>_.
     require (is_at_least (oa_role acc) Admin)
       (Forbidden ''must be an admin or owner to create a project in this organisation'')))"

definition create_project_tx :: "int \<Rightarrow> string \<Rightarrow> string \<Rightarrow> bytes \<Rightarrow> string option \<Rightarrow> db \<Rightarrow> error + bool \<times> db" where
  "create_project_tx now user i enc_name org db =
     rbind (case org of
         None \<Rightarrow> Inr ()
       | Some org \<Rightarrow> rbind (require_org_admin (access_for_update db org user)) (\<lambda>_.
           check_can_create_org_project db now org i)) (\<lambda>_.
     if find_project db i = None
     then rbind (require (user_exists db user) (Db ''foreign key violation'')) (\<lambda>_.
       Inr (True, db\<lparr>projects := sql_insert \<lparr>p_id = i, p_owner = user, p_org = org, p_enc_name = enc_name\<rparr>
         (projects db)\<rparr>))
     else Inr (False, db))"

definition create_project ::
    "lib \<Rightarrow> int \<Rightarrow> string \<Rightarrow> string \<Rightarrow> string \<Rightarrow> string option \<Rightarrow> db \<Rightarrow> db \<Rightarrow> (error + nat) \<times> db" where
  "create_project L now user i enc_name org db0 db =
     (case rbind (validate_id i ''id'') (\<lambda>_.
           rbind (encoding_decode L enc_name ''enc_name'' MAX_ENC_NAME) (\<lambda>enc_name.
           rbind (case org of
               None \<Rightarrow> Inr ()
             | Some org \<Rightarrow> (case org_access db0 org user of
                 Inl (NotFound _) \<Rightarrow> Inl (NotFound ''organisation not found'')
               | r \<Rightarrow> require_org_admin r)) (\<lambda>_. Inr enc_name))) of
        Inl e \<Rightarrow> (Inl e, db)
      | Inr enc_name \<Rightarrow>
          (case run_txn (create_project_tx now user i enc_name org) db of
             (Inl e, db) \<Rightarrow> (Inl e, db)
           | (Inr created, db) \<Rightarrow>
               if created then (Inr 201, db)
               else
                 let same_shape = (case find_project db i of None \<Rightarrow> False | Some p \<Rightarrow> p_org p = org)
                 in if same_shape \<and> \<not> isl (project_access db i user) then (Inr 200, db)
                    else (Inl (Conflict ''project id already in use''), db)))"

record project_view =
  pv_id :: string
  pv_enc_name :: string
  pv_org_id :: "string option"

definition list_projects :: "lib \<Rightarrow> db \<Rightarrow> string \<Rightarrow> error + project_view list" where
  "list_projects L db user =
     Inr (map (\<lambda>p. \<lparr>pv_id = p_id p, pv_enc_name = encoding_encode L (p_enc_name p), pv_org_id = p_org p\<rparr>)
       (sort_key p_id (sql_select (\<lambda>p. case p_org p of
            None \<Rightarrow> p_owner p = user
          | Some org \<Rightarrow> sql_exists (\<lambda>m. m_org m = org \<and> m_user m = user \<and>
              sql_exists (\<lambda>og. o_id og = m_org m \<and> o_lifecycle og \<noteq> ''deleted'') (orgs db)) (members db))
          (projects db))))"

subsection \<open>Environments\<close>

definition env_admin_message :: string where
  "env_admin_message = ''must be an admin or owner to create an environment''"

definition grant_exists :: "db \<Rightarrow> string \<Rightarrow> string \<Rightarrow> bool" where
  "grant_exists db env user = sql_exists (\<lambda>g. g_env g = env \<and> g_user g = user) (grants db)"

definition create_environment_tx ::
    "project_acc \<Rightarrow> string \<Rightarrow> string \<Rightarrow> string \<Rightarrow> bytes \<Rightarrow> bytes \<Rightarrow> db \<Rightarrow> error + bool \<times> db" where
  "create_environment_tx acc user project i enc_name enc_vault_key db =
     rbind (require_manage_structure_tx acc db env_admin_message) (\<lambda>_.
     if find_env db i = None
     then rbind (require (find_project db project \<noteq> None \<and> user_exists db user) (Db ''foreign key violation'')) (\<lambda>_.
       let db = db\<lparr>envs := sql_insert \<lparr>e_id = i, e_project = project, e_enc_name = enc_name, e_revision = 0\<rparr> (envs db)\<rparr>
       in Inr (True, if grant_exists db i user then db
            else db\<lparr>grants := sql_insert \<lparr>g_env = i, g_user = user, g_enc_vault_key = enc_vault_key,
                         g_granted_by = Some user\<rparr> (grants db)\<rparr>))
     else Inr (False, db))"

definition create_environment ::
    "lib \<Rightarrow> string \<Rightarrow> string \<Rightarrow> string \<Rightarrow> string \<Rightarrow> string \<Rightarrow> db \<Rightarrow> db \<Rightarrow> (error + nat) \<times> db" where
  "create_environment L user project i enc_name enc_vault_key db0 db =
     (case rbind (validate_id i ''id'') (\<lambda>_.
           rbind (encoding_decode L enc_name ''enc_name'' MAX_ENC_NAME) (\<lambda>enc_name.
           rbind (encoding_decode L enc_vault_key ''enc_vault_key'' MAX_ENC_KEY) (\<lambda>enc_vault_key.
           rbind (project_access db0 project user) (\<lambda>acc.
           rbind (require_manage_structure acc env_admin_message) (\<lambda>_.
           Inr (acc, enc_name, enc_vault_key)))))) of
        Inl e \<Rightarrow> (Inl e, db)
      | Inr (acc, enc_name, enc_vault_key) \<Rightarrow>
          (case run_txn (create_environment_tx acc user project i enc_name enc_vault_key) db of
             (Inl e, db) \<Rightarrow> (Inl e, db)
           | (Inr created, db) \<Rightarrow>
               if created then (Inr 201, db)
               else
                 (case map_option e_project (find_env db i) of
                    Some p \<Rightarrow> if p = project then (Inr 200, db)
                              else (Inl (Conflict ''environment id already in use''), db)
                  | None \<Rightarrow> (Inl (Conflict ''environment id already in use''), db))))"

record environment_view =
  nv_id :: string
  nv_enc_name :: string
  nv_enc_vault_key :: "string option"
  nv_revision :: int

definition find_grant :: "db \<Rightarrow> string \<Rightarrow> string \<Rightarrow> grant_row option" where
  "find_grant db env user = sql_find (\<lambda>g. g_env g = env \<and> g_user g = user) (grants db)"

definition list_environments :: "lib \<Rightarrow> db \<Rightarrow> string \<Rightarrow> string \<Rightarrow> error + environment_view list" where
  "list_environments L db user project =
     rbind (project_access db project user) (\<lambda>_.
     Inr (map (\<lambda>e. \<lparr>nv_id = e_id e, nv_enc_name = encoding_encode L (e_enc_name e),
            nv_enc_vault_key = map_option (\<lambda>g. encoding_encode L (g_enc_vault_key g)) (find_grant db (e_id e) user),
            nv_revision = e_revision e\<rparr>)
       (sort_key e_id (sql_select (\<lambda>e. e_project e = project) (envs db)))))"

subsection \<open>What the creations commit\<close>

definition project_authority :: "db \<Rightarrow> string \<Rightarrow> string option \<Rightarrow> bool" where
  "project_authority db user org \<longleftrightarrow> (case org of
       None \<Rightarrow> True
     | Some org \<Rightarrow> \<exists>r. write_authority db org user r \<and> can_manage_members r)"

lemma require_org_admin_Inr_iff:
  "require_org_admin (access_for_update db org user) = Inr u \<longleftrightarrow>
     (\<exists>r. write_authority db org user r \<and> can_manage_members r)"
  using locked_write_iff [of db org user can_manage_members]
  by (auto simp: require_org_admin_def rbind_eq_Inr_iff can_manage_members_def)

lemma create_project_tx_Inr:
  assumes "create_project_tx now user i enc_name org db = Inr (created, db')"
  shows "project_authority db user org \<and> (created \<longleftrightarrow> find_project db i = None) \<and>
    (\<forall>o'. org = Some o' \<longrightarrow> check_can_create_org_project db now o' i = Inr ()) \<and>
    (if created then user_exists db user \<and> db' = db\<lparr>projects := sql_insert
        \<lparr>p_id = i, p_owner = user, p_org = org, p_enc_name = enc_name\<rparr> (projects db)\<rparr>
     else db' = db)"
  using assms unfolding create_project_tx_def project_authority_def
  by (auto simp: rbind_eq_Inr_iff require_org_admin_Inr_iff split: option.splits if_splits)

text \<open>Either nothing changes, or the one new project does, with its checks.\<close>

lemma create_project_effect:
  assumes "create_project L now user i enc_name org db0 db = (r, db')" and "db' \<noteq> db"
  obtains name where "r = Inr 201" "project_authority db user org" "find_project db i = None" "user_exists db user"
    "validate_id i ''id'' = Inr ()" "b64_decode L enc_name = Some name"
    "\<forall>o'. org = Some o' \<longrightarrow> check_can_create_org_project db now o' i = Inr ()"
    "db' = db\<lparr>projects := sql_insert \<lparr>p_id = i, p_owner = user, p_org = org, p_enc_name = name\<rparr> (projects db)\<rparr>"
proof -
  from assms obtain name where pre: "validate_id i ''id'' = Inr ()" "b64_decode L enc_name = Some name"
    and tx: "(case run_txn (create_project_tx now user i name org) db of
             (Inl e, db) \<Rightarrow> (Inl e, db)
           | (Inr created, db) \<Rightarrow>
               if created then (Inr 201, db)
               else
                 let same_shape = (case find_project db i of None \<Rightarrow> False | Some p \<Rightarrow> p_org p = org)
                 in if same_shape \<and> \<not> isl (project_access db i user) then (Inr 200, db)
                    else (Inl (Conflict ''project id already in use''), db)) = (r, db')"
    unfolding create_project_def
    by (auto simp: rbind_eq_Inr_iff dest!: encoding_decode_bound split: sum.splits [where 'a = error])
  show thesis
  proof (cases "create_project_tx now user i name org db")
    case (Inl e)
    with tx assms(2) show thesis by (simp add: run_txn_def)
  next
    case (Inr p)
    then obtain created db1 where p: "create_project_tx now user i name org db = Inr (created, db1)"
      by (cases p) auto
    from create_project_tx_Inr [OF p] tx assms(2) pre show thesis
      by (intro that [of name]) (auto simp: run_txn_def p Let_def split: if_splits)
  qed
qed

lemma create_environment_tx_Inr:
  assumes "create_environment_tx acc user project i name key db = Inr (created, db')"
  shows "require_manage_structure_tx acc db env_admin_message = Inr () \<and> (created \<longleftrightarrow> find_env db i = None) \<and>
    (if created then find_project db project \<noteq> None \<and> user_exists db user \<and>
       db' = (let db = db\<lparr>envs := sql_insert \<lparr>e_id = i, e_project = project, e_enc_name = name, e_revision = 0\<rparr> (envs db)\<rparr>
         in if grant_exists db i user then db
            else db\<lparr>grants := sql_insert \<lparr>g_env = i, g_user = user, g_enc_vault_key = key, g_granted_by = Some user\<rparr>
                          (grants db)\<rparr>)
     else db' = db)"
  using assms unfolding create_environment_tx_def
  by (auto simp: rbind_eq_Inr_iff Let_def split: if_splits)

lemma create_environment_effect:
  assumes "create_environment L user project i enc_name enc_vault_key db0 db = (r, db')" and "db' \<noteq> db"
  obtains p acc name key where "r = Inr 201" "find_project db0 project = Some p" "reaches db0 user p"
    "project_authority db user (p_org p)" "find_env db i = None" "find_project db project \<noteq> None"
    "user_exists db user" "validate_id i ''id'' = Inr ()"
    "b64_decode L enc_name = Some name" "b64_decode L enc_vault_key = Some key"
    "envs db' = sql_insert \<lparr>e_id = i, e_project = project, e_enc_name = name, e_revision = 0\<rparr> (envs db)"
    "grants db' = (if grant_exists db i user then grants db else sql_insert
        \<lparr>g_env = i, g_user = user, g_enc_vault_key = key, g_granted_by = Some user\<rparr> (grants db))"
    "db' = db\<lparr>envs := envs db', grants := grants db'\<rparr>"
proof -
  let ?post = "\<lambda>x. (case x of
             (Inl e, db) \<Rightarrow> (Inl e, db)
           | (Inr created, db) \<Rightarrow>
               if created then (Inr 201, db)
               else
                 (case map_option e_project (find_env db i) of
                    Some p \<Rightarrow> if p = project then (Inr 200, db)
                              else (Inl (Conflict ''environment id already in use''), db)
                  | None \<Rightarrow> (Inl (Conflict ''environment id already in use''), db)))"
  from assms obtain acc name key where pre: "validate_id i ''id'' = Inr ()"
      "b64_decode L enc_name = Some name" "b64_decode L enc_vault_key = Some key"
      "project_access db0 project user = Inr acc" "require_manage_structure acc env_admin_message = Inr ()"
    and tx: "?post (run_txn (create_environment_tx acc user project i name key) db) = (r, db')"
    unfolding create_environment_def
    by (auto simp: rbind_eq_Inr_iff dest!: encoding_decode_bound split: sum.splits [where 'a = error])
  obtain p where p: "find_project db0 project = Some p" "reaches db0 user p" "pa_user_id acc = user"
    "pa_org_id acc = p_org p"
    using project_access_Inr [OF pre(4)] by blast
  show thesis
  proof (cases "create_environment_tx acc user project i name key db")
    case (Inl e)
    with tx assms(2) show thesis by (simp add: run_txn_def)
  next
    case (Inr q)
    then obtain created db1 where q: "create_environment_tx acc user project i name key db = Inr (created, db1)"
      by (cases q) auto
    have run: "run_txn (create_environment_tx acc user project i name key) db = (Inr created, db1)"
      by (simp add: run_txn_def q)
    note tx = tx [unfolded run, simplified] and eff = create_environment_tx_Inr [OF q]
    from eff have auth: "project_authority db user (p_org p)"
      by (auto simp: require_manage_structure_tx_Inr_iff project_authority_def p split: option.splits)
    show thesis
    proof (cases created)
      case True
      with tx eff auth p pre show thesis
        by (intro that [of p name key]) (auto simp: Let_def grant_exists_def)
    next
      case False
      with tx eff assms(2) show thesis by (auto split: option.splits if_splits)
    qed
  qed
qed

subsection \<open>Properties\<close>

lemma find_after_insert:
  assumes "sql_find p t = None" and "p r"
  shows "sql_find p (sql_insert r t) = Some r"
  using assms unfolding sql_find_def sql_insert_def by (induction t) (auto split: if_splits)

lemma find_project_insert:
  "find_project db (p_id p) = None \<Longrightarrow>
     find_project (db\<lparr>projects := sql_insert p (projects db)\<rparr>) (p_id p) = Some p"
  unfolding find_project_def by (simp add: find_after_insert)

lemma check_can_create_existing:
  assumes "write_authority db org user r" and "sql_exists (\<lambda>p. p_id p = i) (projects db)"
  shows "check_can_create_org_project db now org i = Inr ()"
  using assms
  by (auto simp: write_authority_iff check_can_create_org_project_def effective_tier_locked_def lifecycle_from_db_def)

text \<open>Creating a project is idempotent: after a creation that answered 201, sending the same
  request again at any later time (with nothing changed in between) answers 200 and changes nothing,
  even for an organisation that this project brought to its quota.\<close>

theorem create_project_idempotent:
  assumes "create_project L now user i enc_name org db0 db = (Inr 201, db')"
  shows "create_project L now' user i enc_name org db' db' = (Inr 200, db')"
proof -
  have "db' \<noteq> db"
  proof
    assume same: "db' = db"
    obtain name where "create_project_tx now user i name org db = Inr (True, db)"
      using assms unfolding create_project_def same
      by (auto simp: rbind_eq_Inr_iff run_txn_def Let_def
          split: sum.splits [where 'a = error] prod.splits if_splits)
    from create_project_tx_Inr [OF this]
    have "projects db = sql_insert \<lparr>p_id = i, p_owner = user, p_org = org, p_enc_name = name\<rparr> (projects db)"
      by (metis (no_types, lifting) db.select_convs(4) db.surjective db.update_convs(4))
    then show False by (simp add: sql_insert_def)
  qed
  from create_project_effect [OF assms this] obtain name where
    new: "project_authority db user org" "find_project db i = None"
    and bytes: "validate_id i ''id'' = Inr ()" "b64_decode L enc_name = Some name"
    and db': "db' = db\<lparr>projects := sql_insert \<lparr>p_id = i, p_owner = user, p_org = org, p_enc_name = name\<rparr> (projects db)\<rparr>" .
  let ?p = "\<lparr>p_id = i, p_owner = user, p_org = org, p_enc_name = name\<rparr>"
  obtain dec where dec: "encoding_decode L enc_name ''enc_name'' MAX_ENC_NAME = Inr dec"
    using assms unfolding create_project_def
    by (cases "encoding_decode L enc_name ''enc_name'' MAX_ENC_NAME") (simp_all add: bytes)
  have found: "find_project db' i = Some ?p"
    using find_project_insert [of db ?p] new(2) by (simp add: db')
  have upd: "access_for_update db' = access_for_update db" by (intro access_for_update_cong) (simp_all add: db')
  have exists: "sql_exists (\<lambda>p. p_id p = i) (projects db')" by (simp add: db' sql_exists_iff)
  show ?thesis
  proof (cases org)
    case None
    with found show ?thesis
      by (simp add: create_project_def bytes dec create_project_tx_def run_txn_def project_access_def)
  next
    case (Some o')
    with new(1) obtain r where r: "write_authority db o' user r" "can_manage_members r"
      by (auto simp: project_authority_def)
    then have r': "write_authority db' o' user r" by (simp add: write_authority_def upd)
    then have acc: "access_for_update db' o' user = Inr \<lparr>oa_role = r, oa_lifecycle = Active\<rparr>"
      by (simp add: write_authority_def)
    have adm: "require_org_admin (access_for_update db' o' user) = Inr ()"
      using r(2) r' by (auto simp: require_org_admin_Inr_iff)
    show ?thesis
      using Some found adm check_can_create_existing [OF r' exists]
      by (simp add: create_project_def bytes dec create_project_tx_def run_txn_def project_access_def
          org_access_eq_access_for_update acc)
  qed
qed

lemmas project_eval = org_eval create_project_def create_project_tx_def require_org_admin_def find_project_def
  project_access_def

theorem create_project_idempotent_witness:
  "let db' = snd (create_project demo_lib 50 ''bob'' ''api'' ''nm'' (Some ''acme'') demo_db demo_db)
   in create_project demo_lib 60 ''bob'' ''api'' ''nm'' (Some ''acme'') db' db' = (Inr 200, db')"
proof -
  have "fst (create_project demo_lib 50 ''bob'' ''api'' ''nm'' (Some ''acme'') demo_db demo_db) = Inr 201"
    by (simp add: project_eval)
  from create_project_idempotent [OF fst_eqD [OF this]] show ?thesis by (simp add: Let_def)
qed

text \<open>On the free tier no creation takes an organisation above its project quota: whenever a
  request adds a project to it, it then has at most \<open>FREE_MAX_ORG_PROJECTS\<close> of them.\<close>

theorem free_tier_project_quota:
  assumes "create_project L now user i enc_name (Some org) db0 db = (r, db')" and "db' \<noteq> db"
    and "effective_tier db now org = Inr Free"
  shows "sql_count (\<lambda>p. p_org p = Some org) (projects db') \<le> FREE_MAX_ORG_PROJECTS"
  using assms(1,2)
proof (rule create_project_effect)
  fix name
  assume new: "find_project db i = None"
    and check: "\<forall>o'. Some org = Some o' \<longrightarrow> check_can_create_org_project db now o' i = Inr ()"
    and db': "db' = db\<lparr>projects := sql_insert \<lparr>p_id = i, p_owner = user, p_org = Some org, p_enc_name = name\<rparr> (projects db)\<rparr>"
  from new have "\<not> sql_exists (\<lambda>p. p_id p = i) (projects db)"
    by (simp add: find_project_def sql_find_None_iff sql_exists_iff)
  with check assms(3) have "\<not> FREE_MAX_ORG_PROJECTS \<le> sql_count (\<lambda>p. p_org p = Some org) (projects db)"
    by (auto simp: check_can_create_org_project_def rbind_eq_Inr_iff dest: effective_tier_locked_Inr split: if_splits)
  then show ?thesis by (simp add: db')
qed

theorem free_tier_project_quota_witness:
  "let db = demo_db\<lparr>orgs := map (\<lambda>og. og\<lparr>o_tier := ''free''\<rparr>) (orgs demo_db), projects := [], envs := []\<rparr>
   in sql_count (\<lambda>p. p_org p = Some ''acme'')
       (projects (snd (create_project demo_lib 50 ''bob'' ''api'' ''nm'' (Some ''acme'') db db))) \<le> FREE_MAX_ORG_PROJECTS"
proof -
  let ?db = "demo_db\<lparr>orgs := map (\<lambda>og. og\<lparr>o_tier := ''free''\<rparr>) (orgs demo_db), projects := [], envs := []\<rparr>"
  let ?run = "create_project demo_lib 50 ''bob'' ''api'' ''nm'' (Some ''acme'') ?db ?db"
  have "length (projects (snd ?run)) = 1" by (simp add: project_eval)
  moreover have "length (projects ?db) = 0" by simp
  ultimately have "snd ?run \<noteq> ?db" by (metis zero_neq_one)
  moreover have "effective_tier ?db 50 ''acme'' = Inr Free" by code_simp
  ultimately have "sql_count (\<lambda>p. p_org p = Some ''acme'') (projects (snd ?run)) \<le> FREE_MAX_ORG_PROJECTS"
    by (rule free_tier_project_quota [OF prod.collapse [symmetric]])
  then show ?thesis by (simp only: Let_def)
qed

end
