(* ===== verification/Share.thy ===== *)
theory Share
  imports Sessions
begin

text \<open>
  Share links (\<open>share.rs\<close>): a ciphertext served a bounded number of times, until it expires or is
  revoked. Every operation is one SQL statement, so each is one step on the table.
\<close>

definition MAX_SHARE_BLOB :: nat where "MAX_SHARE_BLOB = 64 * 1024"
definition MAX_SALT :: nat where "MAX_SALT = 64"
definition MAX_VIEWS :: int where "MAX_VIEWS = 100"
definition MAX_TTL_SECONDS :: int where "MAX_TTL_SECONDS = 30 * 24 * 60 * 60"

definition share_validate :: "int \<Rightarrow> int option \<Rightarrow> error + unit" where
  "share_validate max_views ttl_seconds =
     rbind (require (1 \<le> max_views \<and> max_views \<le> MAX_VIEWS)
       (BadRequest (''max_views must be between 1 and '' @ dec_int MAX_VIEWS))) (\<lambda>_.
     (case ttl_seconds of
        None \<Rightarrow> Inr ()
      | Some ttl \<Rightarrow> require (1 \<le> ttl \<and> ttl \<le> MAX_TTL_SECONDS)
          (BadRequest (''ttl_seconds must be between 1 and '' @ dec_int MAX_TTL_SECONDS))))"

definition create_share ::
    "lib \<Rightarrow> int \<Rightarrow> bytes \<Rightarrow> string \<Rightarrow> string \<Rightarrow> int \<Rightarrow> int option \<Rightarrow> string option \<Rightarrow> db \<Rightarrow>
       (error + string \<times> int option) \<times> db" where
  "create_share L now raw user enc_blob max_views ttl_seconds passphrase_salt db =
     (case rbind (encoding_decode L enc_blob ''enc_blob'' MAX_SHARE_BLOB) (\<lambda>enc_blob.
           rbind (case passphrase_salt of
               None \<Rightarrow> Inr None
             | Some s \<Rightarrow> rbind (encoding_decode L s ''passphrase_salt'' MAX_SALT) (\<lambda>s. Inr (Some s))) (\<lambda>salt.
           rbind (share_validate max_views ttl_seconds) (\<lambda>_. Inr (enc_blob, salt)))) of
        Inl e \<Rightarrow> (Inl e, db)
      | Inr (enc_blob, salt) \<Rightarrow>
          let token = to_hex raw;
              expires_at = map_option (\<lambda>ttl. now + ttl * 1000000) ttl_seconds
          in if sql_exists (\<lambda>l. l_token l = token) (shares db) then (Inl (Db ''unique violation''), db)
             else if \<not> user_known db user then (Inl (Db ''foreign key violation''), db)
             else (Inr (token, expires_at), db\<lparr>shares := sql_insert \<lparr>l_token = token, l_enc_blob = enc_blob,
                    l_salt = salt, l_created_by = user, l_max_views = max_views, l_view_count = 0,
                    l_expires_at = expires_at, l_revoked_at = None\<rparr> (shares db)\<rparr>))"

definition claimable :: "int \<Rightarrow> string \<Rightarrow> share_row \<Rightarrow> bool" where
  "claimable now token l \<longleftrightarrow> l_token l = token \<and> l_revoked_at l = None \<and>
     (case l_expires_at l of None \<Rightarrow> True | Some t \<Rightarrow> now < t) \<and> l_view_count l < l_max_views l"

definition fetch_share :: "lib \<Rightarrow> int \<Rightarrow> string \<Rightarrow> db \<Rightarrow> (error + string \<times> string option) \<times> db" where
  "fetch_share L now token db =
     (case sql_find (claimable now token) (shares db) of
        None \<Rightarrow> (Inl (NotFound ''share not found''), db)
      | Some l \<Rightarrow>
          (Inr (encoding_encode L (l_enc_blob l), map_option (encoding_encode L) (l_salt l)),
           db\<lparr>shares := sql_update (claimable now token) (\<lambda>l. l\<lparr>l_view_count := l_view_count l + 1\<rparr>) (shares db)\<rparr>))"

definition revocable :: "string \<Rightarrow> string \<Rightarrow> share_row \<Rightarrow> bool" where
  "revocable user token l \<longleftrightarrow> l_token l = token \<and> l_created_by l = user \<and> l_revoked_at l = None"

definition revoke_share :: "int \<Rightarrow> string \<Rightarrow> string \<Rightarrow> db \<Rightarrow> (error + nat) \<times> db" where
  "revoke_share now user token db =
     (if sql_exists (revocable user token) (shares db)
      then (Inr 204, db\<lparr>shares := sql_update (revocable user token) (\<lambda>l. l\<lparr>l_revoked_at := Some now\<rparr>) (shares db)\<rparr>)
      else (Inl (NotFound ''share not found''), db))"

subsection \<open>Links as a state machine\<close>

text \<open>
  The operations on the table as steps, labelled with what they served: \<open>served tr token\<close> counts the
  fetches of a link in a run.
\<close>

datatype share_event = Created string int | Served string | Revoked string | Refused

inductive share_step :: "lib \<Rightarrow> db \<Rightarrow> share_event \<Rightarrow> db \<Rightarrow> bool" for L where
  create: "create_share L now raw user blob max_views ttl salt db = (Inr (token, exp), db') \<Longrightarrow>
     share_step L db (Created token max_views) db'"
| create_refused: "create_share L now raw user blob max_views ttl salt db = (Inl e, db') \<Longrightarrow>
     share_step L db Refused db'"
| fetch: "fetch_share L now token db = (Inr r, db') \<Longrightarrow> share_step L db (Served token) db'"
| fetch_refused: "fetch_share L now token db = (Inl e, db') \<Longrightarrow> share_step L db Refused db'"
| revoke: "revoke_share now user token db = (Inr c, db') \<Longrightarrow> share_step L db (Revoked token) db'"
| revoke_refused: "revoke_share now user token db = (Inl e, db') \<Longrightarrow> share_step L db Refused db'"

inductive share_run :: "lib \<Rightarrow> db \<Rightarrow> share_event list \<Rightarrow> db \<Rightarrow> bool" for L where
  nil: "share_run L db [] db"
| snoc: "share_run L db tr db' \<Longrightarrow> share_step L db' ev db'' \<Longrightarrow> share_run L db (tr @ [ev]) db''"

inductive_cases share_run_snocE: "share_run L db (tr @ [ev]) db'"

definition served :: "share_event list \<Rightarrow> string \<Rightarrow> nat" where
  "served tr token = length (filter (\<lambda>ev. ev = Served token) tr)"

definition shares_ok :: "db \<Rightarrow> bool" where
  "shares_ok db \<longleftrightarrow> distinct (map l_token (shares db)) \<and>
     (\<forall>l \<in> set (shares db). 0 \<le> l_view_count l \<and> l_view_count l \<le> l_max_views l \<and> l_max_views l \<le> MAX_VIEWS)"

lemma fetch_Inr:
  assumes "fetch_share L now token db = (Inr r, db')"
  obtains l where "l \<in> set (shares db)" "claimable now token l"
    "r = (encoding_encode L (l_enc_blob l), map_option (encoding_encode L) (l_salt l))"
    "db' = db\<lparr>shares := sql_update (claimable now token) (\<lambda>l. l\<lparr>l_view_count := l_view_count l + 1\<rparr>) (shares db)\<rparr>"
  using assms unfolding fetch_share_def by (auto dest!: sql_find_SomeD split: option.splits)

lemma create_share_Inr:
  assumes "create_share L now raw user blob max_views ttl salt db = (Inr (token, exp), db')"
  obtains b s where "b64_decode L blob = Some b" "share_validate max_views ttl = Inr ()"
    "exp = map_option (\<lambda>ttl. now + ttl * 1000000) ttl" "\<forall>l \<in> set (shares db). l_token l \<noteq> token"
    "db' = db\<lparr>shares := sql_insert \<lparr>l_token = token, l_enc_blob = b, l_salt = s, l_created_by = user,
       l_max_views = max_views, l_view_count = 0, l_expires_at = exp, l_revoked_at = None\<rparr> (shares db)\<rparr>"
  using assms unfolding create_share_def
  by (auto simp: rbind_eq_Inr_iff Let_def sql_exists_iff dest!: encoding_decode_bound
      split: sum.splits if_splits)

lemma refused_unchanged:
  "share_step L db Refused db' \<Longrightarrow> db' = db"
  by (erule share_step.cases)
     (auto simp: create_share_def fetch_share_def revoke_share_def Let_def
       split: sum.splits option.splits if_splits prod.splits)

lemma shares_tokens:
  assumes "share_step L db ev db'"
  shows "map l_token (shares db') = map l_token (shares db) @ (case ev of Created token _ \<Rightarrow> [token] | _ \<Rightarrow> [])"
  using assms
proof cases
  case (create now raw user blob max_views ttl salt token exp)
  show ?thesis using create(2) by (rule create_share_Inr) (simp add: create sql_insert_def)
next
  case (fetch now token r)
  show ?thesis using fetch(2) by (rule fetch_Inr) (simp add: fetch keys_sql_update)
next
  case (revoke now user token c)
  then show ?thesis by (auto simp: revoke_share_def keys_sql_update split: if_splits)
qed (use refused_unchanged [of L db db'] assms in simp_all)

lemma revoke_share_Inr:
  assumes "revoke_share now user token db = (Inr c, db')"
  shows "\<exists>l \<in> set (shares db). revocable user token l"
    and "db' = db\<lparr>shares := sql_update (revocable user token) (\<lambda>l. l\<lparr>l_revoked_at := Some now\<rparr>) (shares db)\<rparr>"
  using assms by (auto simp: revoke_share_def sql_exists_iff split: if_splits)

lemma share_step_ok:
  assumes "share_step L db ev db'" and "shares_ok db"
  shows "shares_ok db'"
  using assms(1)
proof cases
  case (create now raw user blob max_views ttl salt token exp)
  show ?thesis using create(2)
    by (rule create_share_Inr)
       (use assms(2) in \<open>auto simp: shares_ok_def distinct_sql_insert share_validate_def rbind_eq_Inr_iff\<close>)
next
  case (fetch now token r)
  show ?thesis using fetch(2)
    by (rule fetch_Inr) (use assms(2) in \<open>auto simp: shares_ok_def keys_sql_update claimable_def\<close>)
next
  case (revoke now user token c)
  then show ?thesis using revoke_share_Inr(2) [OF revoke(2)] assms(2)
    by (auto simp: shares_ok_def keys_sql_update)
qed (use refused_unchanged [of L db db'] assms in simp_all)

lemma share_run_ok: "share_run L db tr db' \<Longrightarrow> shares_ok db \<Longrightarrow> shares_ok db'"
  by (induction rule: share_run.induct) (auto intro: share_step_ok)

lemma share_run_append:
  "share_run L db (tr1 @ tr2) db' \<longleftrightarrow> (\<exists>db1. share_run L db tr1 db1 \<and> share_run L db1 tr2 db')"
proof (induction tr2 arbitrary: db' rule: rev_induct)
  case Nil
  have "share_run L db1 [] db' \<longleftrightarrow> db1 = db'" for db1
    by (auto elim: share_run.cases intro: share_run.intros)
  then show ?case by simp
next
  case (snoc ev tr2)
  have run_snoc: "share_run L d (t @ [ev]) d' \<longleftrightarrow> (\<exists>d1. share_run L d t d1 \<and> share_step L d1 ev d')" for d t d'
    by (auto elim: share_run_snocE intro: share_run.intros)
  show ?case using snoc by (simp add: append_assoc [symmetric] run_snoc del: append_assoc) blast
qed

subsection \<open>Views\<close>

definition views_of :: "db \<Rightarrow> string \<Rightarrow> int" where
  "views_of db token = (case sql_find (\<lambda>l. l_token l = token) (shares db) of None \<Rightarrow> 0 | Some l \<Rightarrow> l_view_count l)"

lemma views_of_row:
  assumes "shares_ok db" and "l \<in> set (shares db)"
  shows "views_of db (l_token l) = l_view_count l"
proof -
  have "sql_find (\<lambda>l'. l_token l' = l_token l) (shares db) = Some l"
    using assms by (subst sql_find_Some_iff_distinct [where k = l_token]) (auto simp: shares_ok_def)
  then show ?thesis by (simp add: views_of_def)
qed

lemma step_views:
  assumes "share_step L db ev db'" and "shares_ok db"
  shows "views_of db' token = views_of db token + (if ev = Served token then 1 else 0)"
  using assms(1)
proof cases
  case (create now raw user blob max_views ttl salt tok exp)
  show ?thesis using create(2)
    by (rule create_share_Inr) (simp add: create views_of_def sql_find_insert split: option.split)
next
  case (fetch now tok r)
  from fetch(2) obtain l where l: "l \<in> set (shares db)" "claimable now tok l"
    and db': "db' = db\<lparr>shares := sql_update (claimable now tok) (\<lambda>l. l\<lparr>l_view_count := l_view_count l + 1\<rparr>) (shares db)\<rparr>"
    by (rule fetch_Inr)
  have "sql_find (\<lambda>l. l_token l = token) (shares db') = map_option (\<lambda>l. if claimable now tok l
      then l\<lparr>l_view_count := l_view_count l + 1\<rparr> else l) (sql_find (\<lambda>l. l_token l = token) (shares db))"
    by (simp add: db' sql_find_update)
  moreover have "sql_find (\<lambda>l. l_token l = tok) (shares db) = Some l"
    using assms(2) l by (subst sql_find_Some_iff_distinct [where k = l_token]) (auto simp: shares_ok_def claimable_def)
  ultimately show ?thesis
    using l(2) by (cases "token = tok")
      (auto simp: fetch views_of_def claimable_def split: option.split dest!: sql_find_SomeD)
next
  case (revoke now user tok c)
  have "sql_find (\<lambda>l. l_token l = token) (shares db') = map_option (\<lambda>l. if revocable user tok l
      then l\<lparr>l_revoked_at := Some now\<rparr> else l) (sql_find (\<lambda>l. l_token l = token) (shares db))"
    by (simp add: revoke_share_Inr(2) [OF revoke(2)] sql_find_update)
  then show ?thesis by (auto simp: revoke views_of_def split: option.split)
qed (use refused_unchanged [of L db db'] assms in simp_all)

lemma run_views:
  "share_run L db tr db' \<Longrightarrow> shares_ok db \<Longrightarrow> views_of db' token = views_of db token + int (served tr token)"
  by (induction rule: share_run.induct) (auto simp: served_def step_views share_run_ok)

text \<open>C34: A share link is never served more often than its creator allowed, over any sequence of
  creations, fetches and revocations: the number of successful fetches of a token, added to the
  views it already had, never exceeds the link's own maximum, which is at most 100.\<close>

theorem share_views_bounded:
  assumes "share_run L db tr db'" and "shares_ok db" and "l \<in> set (shares db')"
  shows "views_of db (l_token l) + int (served tr (l_token l)) \<le> l_max_views l \<and> l_max_views l \<le> 100"
proof -
  have ok: "shares_ok db'" using share_run_ok [OF assms(1,2)] .
  then have "l_view_count l \<le> l_max_views l" "l_max_views l \<le> 100"
    using assms(3) by (auto simp: shares_ok_def MAX_VIEWS_def)
  with run_views [OF assms(1,2)] views_of_row [OF ok assms(3)] show ?thesis by simp
qed

definition demo_share_db :: db where
  "demo_share_db = snd (create_share demo_lib 10 [7] ''bob'' ''AAAA'' 1 (Some 60) None demo_db)"

lemma demo_share_row:
  "shares demo_share_db = [\<lparr>l_token = to_hex [7], l_enc_blob = [0, 0, 0], l_salt = None, l_created_by = ''bob'',
     l_max_views = 1, l_view_count = 0, l_expires_at = Some 60000010, l_revoked_at = None\<rparr>]"
  and demo_share_created: "fst (create_share demo_lib 10 [7] ''bob'' ''AAAA'' 1 (Some 60) None demo_db) =
     Inr (to_hex [7], Some 60000010)"
proof -
  have three: "replicate 3 (0 :: u8) = [0, 0, 0]" by (simp add: numeral_3_eq_3)
  have dec: "encoding_decode demo_lib ''AAAA'' ''enc_blob'' MAX_SHARE_BLOB = Inr [0, 0, 0]"
    using three by (simp add: demo_decode MAX_SHARE_BLOB_def)
  show "shares demo_share_db = [\<lparr>l_token = to_hex [7], l_enc_blob = [0, 0, 0], l_salt = None, l_created_by = ''bob'',
     l_max_views = 1, l_view_count = 0, l_expires_at = Some 60000010, l_revoked_at = None\<rparr>]"
    and "fst (create_share demo_lib 10 [7] ''bob'' ''AAAA'' 1 (Some 60) None demo_db) = Inr (to_hex [7], Some 60000010)"
    by (simp_all add: demo_share_db_def create_share_def dec share_validate_def MAX_VIEWS_def MAX_TTL_SECONDS_def
        user_known_def demo_eval Let_def)
qed

lemma demo_share_ok: "shares_ok demo_share_db"
  by (simp add: shares_ok_def demo_share_row MAX_VIEWS_def)

definition demo_fetched_db :: db where
  "demo_fetched_db = snd (fetch_share demo_lib 20 (to_hex [7]) demo_share_db)"

lemma demo_fetched: "\<exists>r. fetch_share demo_lib 20 (to_hex [7]) demo_share_db = (Inr r, demo_fetched_db)"
proof -
  have "\<exists>r. fst (fetch_share demo_lib 20 (to_hex [7]) demo_share_db) = Inr r"
    by (simp add: fetch_share_def demo_share_row claimable_def sql_find_def)
  then show ?thesis unfolding demo_fetched_db_def by (auto dest: fst_eqD)
qed

lemma demo_share_run: "share_run demo_lib demo_share_db [Served (to_hex [7])] demo_fetched_db"
  using share_run.snoc [OF share_run.nil] demo_fetched share_step.fetch by (metis append_Nil)

theorem share_views_bounded_witness:
  "views_of demo_share_db (to_hex [7]) + int (served [Served (to_hex [7])] (to_hex [7])) \<le> 1"
proof -
  obtain l where l: "l \<in> set (shares demo_fetched_db)" "l_token l = to_hex [7]" "l_max_views l = 1"
    by (simp add: demo_fetched_db_def fetch_share_def demo_share_row claimable_def sql_find_def sql_update_def)
  from share_views_bounded [OF demo_share_run demo_share_ok l(1)] l(2,3) show ?thesis by simp
qed

subsection \<open>Revocation and expiry\<close>

definition dead :: "db \<Rightarrow> string \<Rightarrow> bool" where
  "dead db token \<longleftrightarrow> (\<exists>l \<in> set (shares db). l_token l = token) \<and>
     (\<forall>l \<in> set (shares db). l_token l = token \<longrightarrow> l_revoked_at l \<noteq> None)"

lemma dead_step:
  assumes "share_step L db ev db'" and "dead db token"
  shows "dead db' token \<and> ev \<noteq> Served token"
  using assms(1)
proof cases
  case (create now raw user blob max_views ttl salt tok exp)
  show ?thesis using create(2)
    by (rule create_share_Inr) (use assms(2) in \<open>auto simp: create dead_def\<close>)
next
  case (fetch now tok r)
  show ?thesis using fetch(2)
    by (rule fetch_Inr) (use assms(2) in \<open>auto simp: fetch dead_def claimable_def\<close>)
next
  case (revoke now user tok c)
  with assms(2) show ?thesis
    by (auto simp: revoke dead_def revoke_share_Inr(2) [OF revoke(2)] revocable_def)
qed (use refused_unchanged [of L db db'] assms in simp_all)

lemma dead_run: "share_run L db tr db' \<Longrightarrow> dead db token \<Longrightarrow> dead db' token \<and> Served token \<notin> set tr"
  by (induction rule: share_run.induct) (auto dest: dead_step)

lemma revoked_dead:
  assumes "share_step L db (Revoked token) db'" and "shares_ok db"
  shows "dead db' token"
  using assms(1)
proof cases
  case (revoke now user c)
  from revoke_share_Inr(1) [OF revoke(1)] obtain l where l: "l \<in> set (shares db)" "revocable user token l" by blast
  have only: "l' = l" if "l' \<in> set (shares db)" "l_token l' = token" for l'
    using assms(2) l that unfolding shares_ok_def revocable_def by (metis (no_types, lifting) distinct_map inj_onD)
  have "l\<lparr>l_revoked_at := Some now\<rparr> \<in> set (shares db')"
    unfolding revoke_share_Inr(2) [OF revoke(1)] using l by simp
  moreover have "l_token (l\<lparr>l_revoked_at := Some now\<rparr>) = token" using l by (simp add: revocable_def)
  moreover have "l_revoked_at l' \<noteq> None" if "l' \<in> set (shares db')" "l_token l' = token" for l'
    using that l only unfolding revoke_share_Inr(2) [OF revoke(1)] by auto
  ultimately show ?thesis unfolding dead_def by blast
qed

text \<open>A revocation is final: after a link was revoked, no later step of any run serves it.\<close>

theorem revoked_share_never_served:
  assumes "share_run L db (tr @ Revoked token # tr') db'" and "shares_ok db"
  shows "Served token \<notin> set tr'"
proof -
  from assms(1) obtain db1 where run: "share_run L db tr db1" "share_run L db1 (Revoked token # tr') db'"
    by (auto simp: share_run_append)
  from run(2) obtain db2 where "share_run L db1 [Revoked token] db2" and tail: "share_run L db2 tr' db'"
    using share_run_append [of L db1 "[Revoked token]" tr' db'] by auto
  then have "share_step L db1 (Revoked token) db2"
    by (auto elim!: share_run.cases [of _ _ "[Revoked token]"] share_run.cases [of _ _ "[]"])
  then have "dead db2 token" using share_run_ok [OF run(1) assms(2)] by (rule revoked_dead)
  with dead_run [OF tail] show ?thesis by blast
qed

theorem revoked_share_never_served_witness:
  "Served (to_hex [7]) \<notin> set ([] :: share_event list)"
proof -
  have "\<exists>c. fst (revoke_share 20 ''bob'' (to_hex [7]) demo_share_db) = Inr c"
    by (simp add: revoke_share_def demo_share_row revocable_def sql_exists_def)
  then have "\<exists>db'. share_step demo_lib demo_share_db (Revoked (to_hex [7])) db'"
    by (auto dest!: fst_eqD intro: share_step.revoke)
  then obtain db' where "share_run demo_lib demo_share_db ([] @ Revoked (to_hex [7]) # []) db'"
    using share_run.snoc [OF share_run.nil] by blast
  then show ?thesis by (rule revoked_share_never_served) (rule demo_share_ok)
qed

text \<open>An unavailable link gives nothing away: whether it never existed, was revoked, has expired or
  is used up, the answer is the one for an empty table, and the fetch changes nothing.\<close>

theorem unavailable_share_uniform:
  assumes "\<And>l. l \<in> set (shares db) \<Longrightarrow> l_token l = token \<Longrightarrow>
      l_revoked_at l \<noteq> None \<or> (\<exists>t. l_expires_at l = Some t \<and> t \<le> now) \<or> l_max_views l \<le> l_view_count l"
  shows "fetch_share L now token db = (fst (fetch_share L now token (db\<lparr>shares := []\<rparr>)), db)"
proof -
  have "sql_find (claimable now token) (shares db) = None"
    using assms by (fastforce simp: sql_find_None_iff claimable_def split: option.splits)
  then show ?thesis by (simp add: fetch_share_def sql_find_def)
qed

theorem unavailable_share_uniform_witness:
  "fetch_share demo_lib 60000010 (to_hex [7]) demo_share_db =
     (fst (fetch_share demo_lib 60000010 (to_hex [7]) (demo_share_db\<lparr>shares := []\<rparr>)), demo_share_db)"
  by (rule unavailable_share_uniform) (simp add: demo_share_row)

end
