(* ===== verification/Text.thy ===== *)
theory Text
  imports Prelude
begin

text \<open>
  Text where the code looks at characters rather than bytes: a list of Unicode code points, with the
  \<open>str\<close> operations the pure modules use (\<open>trim\<close>, \<open>trim_start\<close>, \<open>lines\<close>, \<open>strip_prefix\<close>,
  \<open>split_once\<close>). Rust compares strings bytewise, which for UTF-8 is the order of the code points.
\<close>

type_synonym codepoints = "nat list"

definition ascii :: "string \<Rightarrow> codepoints" where
  "ascii s = map of_char s"

definition is_whitespace :: "nat \<Rightarrow> bool" where
  "is_whitespace c \<longleftrightarrow> (9 \<le> c \<and> c \<le> 13) \<or> c = 32 \<or> c = 0x85 \<or> c = 0xA0 \<or> c = 0x1680 \<or>
     (0x2000 \<le> c \<and> c \<le> 0x200A) \<or> c = 0x2028 \<or> c = 0x2029 \<or> c = 0x202F \<or> c = 0x205F \<or> c = 0x3000"

definition trim :: "codepoints \<Rightarrow> codepoints" where
  "trim = trim_by is_whitespace"

definition trim_start :: "codepoints \<Rightarrow> codepoints" where
  "trim_start = dropWhile is_whitespace"

fun strip_text_prefix :: "codepoints \<Rightarrow> codepoints \<Rightarrow> codepoints option" where
  "strip_text_prefix [] s = Some s"
| "strip_text_prefix (p # ps) (c # cs) = (if p = c then strip_text_prefix ps cs else None)"
| "strip_text_prefix (p # ps) [] = None"

fun split_text_once :: "nat \<Rightarrow> codepoints \<Rightarrow> (codepoints \<times> codepoints) option" where
  "split_text_once d [] = None"
| "split_text_once d (c # cs) = (if c = d then Some ([], cs)
     else map_option (\<lambda>(a, b). (c # a, b)) (split_text_once d cs))"

text \<open>\<open>str::lines\<close>: split after each newline, a trailing carriage return of a line dropped with its
  newline, and no line after a final newline.\<close>

fun split_newlines :: "codepoints \<Rightarrow> codepoints \<Rightarrow> codepoints list" where
  "split_newlines acc [] = (if acc = [] then [] else [rev acc])"
| "split_newlines acc (c # cs) =
     (if c = 10 then rev (if acc \<noteq> [] \<and> hd acc = 13 then tl acc else acc) # split_newlines [] cs
      else split_newlines (c # acc) cs)"

definition lines :: "codepoints \<Rightarrow> codepoints list" where
  "lines s = split_newlines [] s"

lemma dropWhile_all: "list_all p s \<Longrightarrow> dropWhile p s = []"
  by (induction s) auto

lemma all_of_dropWhile:
  assumes "\<forall>x \<in> set (dropWhile p s). p x"
  shows "list_all p s"
proof -
  have "dropWhile p s = []"
    using assms hd_dropWhile [of p s] hd_in_set [of "dropWhile p s"] by blast
  then show ?thesis unfolding dropWhile_eq_Nil_conv list_all_iff .
qed

lemma trim_blank_iff: "trim s = [] \<longleftrightarrow> list_all is_whitespace s"
proof
  assume "trim s = []"
  then have "\<forall>x \<in> set (dropWhile is_whitespace s). is_whitespace x"
    unfolding trim_def trim_by_def rev_is_Nil_conv dropWhile_eq_Nil_conv set_rev .
  then show "list_all is_whitespace s" by (rule all_of_dropWhile)
next
  assume "list_all is_whitespace s"
  then have "dropWhile is_whitespace s = []" by (rule dropWhile_all)
  then show "trim s = []" by (simp only: trim_def trim_by_def rev.simps dropWhile.simps)
qed

end
