(* ===== verification/Coverage.thy ===== *)
theory Coverage
  imports Text "HOL-Library.Product_Lexorder" "HOL-Library.Option_ord" "HOL-Library.Multiset"
begin

text \<open>
  The evaluation of a person's paid coverage: \<open>cloud_coverage.rs\<close>, a pure module. Timestamps are
  Unix seconds, \<open>i64\<close> with checked additions; the two hash maps of the normalisation are lists with
  at most one entry per key, which the final sort makes irrelevant to the result.
\<close>

definition RENEWAL_RECOVERY_SECONDS :: int where "RENEWAL_RECOVERY_SECONDS = 14 * 24 * 60 * 60"
definition EXPORT_WINDOW_SECONDS :: int where "EXPORT_WINDOW_SECONDS = 30 * 24 * 60 * 60"

record paid_interval =
  coverage_id :: codepoints
  source_id :: codepoints
  starts_at :: int
  paid_until :: int
  failed_renewal_id :: "codepoints option"

record person_coverage =
  beneficiary_id :: codepoints
  paid_intervals :: "paid_interval list"

datatype coverage_state = CFree | Paid | RenewalRecovery | ExportOnly | Expired

record coverage_decision =
  cd_state :: coverage_state
  cd_active_until :: "int option"
  cd_recovery_until :: "int option"
  cd_export_until :: "int option"

datatype invalid_coverage =
    EmptyBeneficiary
  | EmptyCoverageId
  | EmptySourceId
  | InvalidInterval
  | EmptyRenewalId
  | RecoveryDeadlineOverflow
  | ConflictingCoverage
  | ConflictingRenewal
  | ExportDeadlineOverflow

datatype interval_kind = PaidKind | RecoveryKind

fun kind_rank :: "interval_kind \<Rightarrow> nat" where
  "kind_rank PaidKind = 0"
| "kind_rank RecoveryKind = 1"

record eligible_interval =
  ei_starts_at :: int
  ei_ends_at :: int
  ei_kind :: interval_kind
  ei_coverage_id :: codepoints

record episode =
  ep_starts_at :: int
  ep_ends_at :: int

type_synonym renewal_identity = "codepoints \<times> codepoints \<times> int \<times> int"

subsection \<open>Normalisation\<close>

definition checked_add :: "int \<Rightarrow> int \<Rightarrow> int option" where
  "checked_add a b = checked_i64 (a + b)"

definition identity_of :: "paid_interval \<Rightarrow> renewal_identity" where
  "identity_of i = (coverage_id i, source_id i, starts_at i, paid_until i)"

definition check_renewal ::
    "(codepoints \<times> renewal_identity) list \<Rightarrow> paid_interval \<Rightarrow> invalid_coverage + (codepoints \<times> renewal_identity) list" where
  "check_renewal renewals i =
     (case failed_renewal_id i of
        None \<Rightarrow> Inr renewals
      | Some renewal_id \<Rightarrow>
          rbind (require (trim renewal_id \<noteq> []) EmptyRenewalId) (\<lambda>_.
          rbind (require (case map_of renewals renewal_id of None \<Rightarrow> True | Some previous \<Rightarrow> previous = identity_of i)
            ConflictingRenewal) (\<lambda>_.
          rbind (ok_or (checked_add (paid_until i) RENEWAL_RECOVERY_SECONDS) RecoveryDeadlineOverflow) (\<lambda>_.
          Inr ((renewal_id, identity_of i) # renewals)))))"

definition normalise_step ::
    "paid_interval list \<times> (codepoints \<times> renewal_identity) list \<Rightarrow> paid_interval \<Rightarrow>
       invalid_coverage + paid_interval list \<times> (codepoints \<times> renewal_identity) list" where
  "normalise_step st i =
     (let (unique, renewals) = st in
      rbind (require (trim (coverage_id i) \<noteq> []) EmptyCoverageId) (\<lambda>_.
      rbind (require (trim (source_id i) \<noteq> []) EmptySourceId) (\<lambda>_.
      rbind (require (starts_at i < paid_until i) InvalidInterval) (\<lambda>_.
      rbind (check_renewal renewals i) (\<lambda>renewals.
      case List.find (\<lambda>p. coverage_id p = coverage_id i) unique of
        Some previous \<Rightarrow> rbind (require (previous = i) ConflictingCoverage) (\<lambda>_. Inr (unique, renewals))
      | None \<Rightarrow> Inr (i # unique, renewals))))))"

definition interval_key :: "paid_interval \<Rightarrow> codepoints \<times> codepoints \<times> int \<times> int \<times> codepoints option" where
  "interval_key i = (coverage_id i, source_id i, starts_at i, paid_until i, failed_renewal_id i)"

definition normalise_confirmed_intervals :: "person_coverage \<Rightarrow> invalid_coverage + paid_interval list" where
  "normalise_confirmed_intervals c =
     rbind (require (trim (beneficiary_id c) \<noteq> []) EmptyBeneficiary) (\<lambda>_.
     rbind (fold_result normalise_step ([], []) (paid_intervals c)) (\<lambda>(unique, _).
     Inr (sort_key interval_key unique)))"

subsection \<open>Eligible intervals and episodes\<close>

definition eligible_of :: "paid_interval \<Rightarrow> invalid_coverage + eligible_interval list" where
  "eligible_of i =
     (let paid = \<lparr>ei_starts_at = starts_at i, ei_ends_at = paid_until i, ei_kind = PaidKind,
            ei_coverage_id = coverage_id i\<rparr> in
      if failed_renewal_id i = None then Inr [paid]
      else rbind (ok_or (checked_add (paid_until i) RENEWAL_RECOVERY_SECONDS) RecoveryDeadlineOverflow) (\<lambda>e.
        Inr [paid, \<lparr>ei_starts_at = paid_until i, ei_ends_at = e, ei_kind = RecoveryKind,
                   ei_coverage_id = coverage_id i\<rparr>]))"

definition eligible_key :: "eligible_interval \<Rightarrow> int \<times> int \<times> nat \<times> codepoints" where
  "eligible_key e = (ei_starts_at e, ei_ends_at e, kind_rank (ei_kind e), ei_coverage_id e)"

definition eligible_intervals :: "person_coverage \<Rightarrow> invalid_coverage + eligible_interval list" where
  "eligible_intervals c =
     rbind (normalise_confirmed_intervals c) (\<lambda>unique.
     rbind (map_result eligible_of unique) (\<lambda>es.
     Inr (sort_key eligible_key (concat es))))"

fun add_interval :: "episode list \<Rightarrow> eligible_interval \<Rightarrow> episode list" where
  "add_interval (e # es) i =
     (if ei_starts_at i \<le> ep_ends_at e
      then e\<lparr>ep_ends_at := max (ep_ends_at e) (ei_ends_at i)\<rparr> # es
      else \<lparr>ep_starts_at = ei_starts_at i, ep_ends_at = ei_ends_at i\<rparr> # e # es)"
| "add_interval [] i = [\<lparr>ep_starts_at = ei_starts_at i, ep_ends_at = ei_ends_at i\<rparr>]"

definition episodes :: "eligible_interval list \<Rightarrow> episode list" where
  "episodes intervals = rev (foldl add_interval [] intervals)"

subsection \<open>Evaluation\<close>

definition during :: "int \<Rightarrow> eligible_interval \<Rightarrow> bool" where
  "during now i \<longleftrightarrow> ei_starts_at i \<le> now \<and> now < ei_ends_at i"

definition max_option :: "int list \<Rightarrow> int option" where
  "max_option xs = (if xs = [] then None else Some (foldr max (tl xs) (hd xs)))"

definition evaluate :: "person_coverage \<Rightarrow> int \<Rightarrow> invalid_coverage + coverage_decision" where
  "evaluate c now =
     rbind (eligible_intervals c) (\<lambda>intervals.
     let eps = episodes intervals in
     case List.find (\<lambda>e. ep_starts_at e \<le> now \<and> now < ep_ends_at e) eps of
       Some current \<Rightarrow>
         let paid_now = list_ex (\<lambda>i. ei_kind i = PaidKind \<and> during now i) intervals;
             recovery_until = max_option (map ei_ends_at (filter (\<lambda>i. ei_kind i = RecoveryKind \<and> during now i) intervals))
         in Inr \<lparr>cd_state = (if paid_now then Paid else RenewalRecovery), cd_active_until = Some (ep_ends_at current),
                 cd_recovery_until = (if paid_now then None else recovery_until), cd_export_until = None\<rparr>
     | None \<Rightarrow>
         (case max_option (map ep_ends_at (filter (\<lambda>e. ep_ends_at e \<le> now) eps)) of
            None \<Rightarrow> Inr \<lparr>cd_state = CFree, cd_active_until = None, cd_recovery_until = None, cd_export_until = None\<rparr>
          | Some latest_end \<Rightarrow>
              rbind (ok_or (checked_add latest_end EXPORT_WINDOW_SECONDS) ExportDeadlineOverflow) (\<lambda>export_until.
              Inr \<lparr>cd_state = (if now < export_until then ExportOnly else Expired), cd_active_until = None,
                   cd_recovery_until = None, cd_export_until = Some export_until\<rparr>)))"

subsection \<open>Normalisation depends on the set of facts only\<close>

definition valid_interval :: "paid_interval \<Rightarrow> bool" where
  "valid_interval i \<longleftrightarrow> trim (coverage_id i) \<noteq> [] \<and> trim (source_id i) \<noteq> [] \<and> starts_at i < paid_until i \<and>
     (case failed_renewal_id i of None \<Rightarrow> True
      | Some r \<Rightarrow> trim r \<noteq> [] \<and> in_i64 (paid_until i + RENEWAL_RECOVERY_SECONDS))"

definition agree :: "paid_interval \<Rightarrow> paid_interval \<Rightarrow> bool" where
  "agree i j \<longleftrightarrow> (coverage_id i = coverage_id j \<longrightarrow> i = j) \<and>
     (\<forall>r. failed_renewal_id i = Some r \<and> failed_renewal_id j = Some r \<longrightarrow> identity_of i = identity_of j)"

definition consistent :: "paid_interval set \<Rightarrow> bool" where
  "consistent S \<longleftrightarrow> (\<forall>i \<in> S. \<forall>j \<in> S. agree i j)"

lemma agree_refl [simp]: "agree i i"
  by (simp add: agree_def)

lemma agree_sym: "agree i j \<Longrightarrow> agree j i"
  by (auto simp: agree_def)

lemma consistent_insert: "consistent (insert i S) \<longleftrightarrow> consistent S \<and> (\<forall>j \<in> S. agree i j)"
  by (auto simp: consistent_def dest: agree_sym)

definition norm_inv ::
    "paid_interval set \<Rightarrow> paid_interval list \<times> (codepoints \<times> renewal_identity) list \<Rightarrow> bool" where
  "norm_inv S st \<longleftrightarrow> set (fst st) = S \<and> distinct (map coverage_id (fst st)) \<and> consistent S \<and>
     (\<forall>i \<in> S. valid_interval i) \<and>
     (\<forall>r x. map_of (snd st) r = Some x \<longleftrightarrow> (\<exists>i \<in> S. failed_renewal_id i = Some r \<and> identity_of i = x))"

lemma checked_add_Some_iff: "checked_add a b = Some s \<longleftrightarrow> in_i64 (a + b) \<and> s = a + b"
  by (auto simp: checked_add_def checked_i64_def)

lemma check_renewal_iff:
  assumes "\<forall>r x. map_of ren r = Some x \<longleftrightarrow> (\<exists>j \<in> S. failed_renewal_id j = Some r \<and> identity_of j = x)"
  shows "check_renewal ren i = Inr ren' \<longleftrightarrow>
    (case failed_renewal_id i of None \<Rightarrow> ren' = ren
     | Some r \<Rightarrow> trim r \<noteq> [] \<and> in_i64 (paid_until i + RENEWAL_RECOVERY_SECONDS) \<and>
         (\<forall>j \<in> S. failed_renewal_id j = Some r \<longrightarrow> identity_of j = identity_of i) \<and>
         ren' = (r, identity_of i) # ren)"
proof (cases "failed_renewal_id i")
  case (Some r)
  have "(case map_of ren r of None \<Rightarrow> True | Some previous \<Rightarrow> previous = identity_of i) \<longleftrightarrow>
      (\<forall>x. map_of ren r = Some x \<longrightarrow> x = identity_of i)"
    by (cases "map_of ren r") auto
  also have "\<dots> \<longleftrightarrow> (\<forall>j \<in> S. failed_renewal_id j = Some r \<longrightarrow> identity_of j = identity_of i)"
    unfolding assms [rule_format] by blast
  finally show ?thesis
    using Some by (auto simp: check_renewal_def rbind_eq_Inr_iff checked_add_Some_iff)
qed (auto simp: check_renewal_def)

lemma find_coverage:
  assumes "set u = S" and "consistent S"
  shows "(case List.find (\<lambda>p. coverage_id p = coverage_id i) u of None \<Rightarrow> True | Some p \<Rightarrow> p = i) \<longleftrightarrow>
      (\<forall>j \<in> S. coverage_id i = coverage_id j \<longrightarrow> i = j)"
proof (cases "List.find (\<lambda>p. coverage_id p = coverage_id i) u")
  case None
  then have "\<forall>j \<in> S. coverage_id i \<noteq> coverage_id j"
    unfolding find_None_iff assms(1) [symmetric] by metis
  then show ?thesis unfolding None by simp
next
  case (Some p)
  then have p: "p \<in> S" "coverage_id p = coverage_id i"
    using assms(1) by (auto simp: find_Some_iff)
  have "j = p" if "j \<in> S" "coverage_id i = coverage_id j" for j
    using that p assms(2) by (auto simp: consistent_def agree_def)
  then have "p = i \<longleftrightarrow> (\<forall>j \<in> S. coverage_id i = coverage_id j \<longrightarrow> i = j)"
    using p by metis
  then show ?thesis unfolding Some by simp
qed

lemma normalise_step_ok:
  assumes inv: "norm_inv S st"
  shows "(\<exists>st'. normalise_step st i = Inr st') \<longleftrightarrow> valid_interval i \<and> consistent (insert i S)"
    and "normalise_step st i = Inr st' \<Longrightarrow> norm_inv (insert i S) st'"
proof -
  obtain u ren where st: "st = (u, ren)" by (cases st)
  have ren: "\<forall>r x. map_of ren r = Some x \<longleftrightarrow> (\<exists>j \<in> S. failed_renewal_id j = Some r \<and> identity_of j = x)"
    and u: "set u = S" "distinct (map coverage_id u)" "consistent S" "\<forall>i \<in> S. valid_interval i"
    using inv by (simp_all add: norm_inv_def st)
  note find = find_coverage [OF u(1,3), of i] and ck = check_renewal_iff [OF ren]
  have step: "normalise_step st i = Inr st' \<longleftrightarrow> valid_interval i \<and> (\<forall>j \<in> S. agree i j) \<and>
      st' = (if i \<in> S then u else i # u, case failed_renewal_id i of None \<Rightarrow> ren | Some r \<Rightarrow> (r, identity_of i) # ren)" for st'
  proof -
    have known: "(case List.find (\<lambda>p. coverage_id p = coverage_id i) u of
          Some previous \<Rightarrow> rbind (require (previous = i) ConflictingCoverage) (\<lambda>_. Inr (u, ren'))
        | None \<Rightarrow> Inr (i # u, ren')) = Inr st' \<longleftrightarrow>
        (\<forall>j \<in> S. coverage_id i = coverage_id j \<longrightarrow> i = j) \<and> st' = (if i \<in> S then u else i # u, ren')" for ren'
    proof (cases "List.find (\<lambda>p. coverage_id p = coverage_id i) u")
      case None
      then have "i \<notin> S" using u(1) by (auto simp: find_None_iff)
      with None find show ?thesis by auto
    next
      case (Some p)
      then have "p \<in> S" using u(1) by (auto simp: find_Some_iff)
      with Some find show ?thesis by (auto simp: rbind_eq_Inr_iff)
    qed
    show ?thesis
      unfolding normalise_step_def st Let_def prod.case rbind_eq_Inr_iff require_eq_Inr_iff ck known
      by (cases "failed_renewal_id i") (auto simp: valid_interval_def agree_def)
  qed
  show "(\<exists>st'. normalise_step st i = Inr st') \<longleftrightarrow> valid_interval i \<and> consistent (insert i S)"
    by (auto simp: step consistent_insert u(3))
  assume "normalise_step st i = Inr st'"
  then have ok: "valid_interval i" "\<forall>j \<in> S. agree i j"
    and st': "st' = (if i \<in> S then u else i # u, case failed_renewal_id i of None \<Rightarrow> ren | Some r \<Rightarrow> (r, identity_of i) # ren)"
    by (simp_all add: step)
  have "coverage_id i \<notin> coverage_id ` S" if "i \<notin> S"
    using that ok(2) by (auto simp: agree_def)
  moreover have "map_of (snd st') r = Some x \<longleftrightarrow>
      (\<exists>j \<in> insert i S. failed_renewal_id j = Some r \<and> identity_of j = x)" for r x
    using ok(2) by (cases "failed_renewal_id i") (auto simp: st' agree_def ren [rule_format])
  ultimately show "norm_inv (insert i S) st'"
    using u ok by (auto simp: norm_inv_def st' consistent_insert)
qed

lemma normalise_fold:
  assumes "norm_inv S st"
  shows "(\<exists>st'. fold_result normalise_step st is = Inr st') \<longleftrightarrow>
      (\<forall>i \<in> set is. valid_interval i) \<and> consistent (set is \<union> S)"
    and "fold_result normalise_step st is = Inr st' \<Longrightarrow> norm_inv (set is \<union> S) st'"
proof -
  show "(\<exists>st'. fold_result normalise_step st is = Inr st') \<longleftrightarrow>
      (\<forall>i \<in> set is. valid_interval i) \<and> consistent (set is \<union> S)"
    using assms
  proof (induction "is" arbitrary: S st)
    case Nil
    then show ?case by (auto simp: norm_inv_def)
  next
    case (Cons i "is")
    have mono: "consistent (insert i S)" if "consistent (set (i # is) \<union> S)"
      using that by (auto simp: consistent_def)
    have "(\<exists>st'. fold_result normalise_step st (i # is) = Inr st') \<longleftrightarrow>
        (\<exists>st1. normalise_step st i = Inr st1 \<and> (\<exists>st'. fold_result normalise_step st1 is = Inr st'))"
      by (auto simp: rbind_eq_Inr_iff)
    also have "\<dots> \<longleftrightarrow> (\<exists>st1. normalise_step st i = Inr st1) \<and> (\<forall>i \<in> set is. valid_interval i) \<and>
        consistent (set is \<union> insert i S)"
      using Cons.IH normalise_step_ok(2) [OF Cons.prems] by blast
    also have "\<dots> \<longleftrightarrow> (\<forall>i \<in> set (i # is). valid_interval i) \<and> consistent (set (i # is) \<union> S)"
      using mono unfolding normalise_step_ok(1) [OF Cons.prems] by auto
    finally show ?case .
  qed
  show "fold_result normalise_step st is = Inr st' \<Longrightarrow> norm_inv (set is \<union> S) st'"
    using assms
  proof (induction "is" arbitrary: S st)
    case (Cons i "is")
    then show ?case
      using normalise_step_ok(2) [of S st i] by (fastforce simp: rbind_eq_Inr_iff)
  qed simp
qed

lemma normalise_Inr_iff:
  "(\<exists>l. normalise_confirmed_intervals c = Inr l) \<longleftrightarrow>
     trim (beneficiary_id c) \<noteq> [] \<and> (\<forall>i \<in> set (paid_intervals c). valid_interval i) \<and> consistent (set (paid_intervals c))"
proof -
  have "norm_inv {} ([], [])" by (simp add: norm_inv_def consistent_def)
  from normalise_fold(1) [OF this, of "paid_intervals c"] show ?thesis
    by (auto simp: normalise_confirmed_intervals_def rbind_eq_Inr_iff split: prod.splits)
qed

lemma normalise_Inr:
  assumes "normalise_confirmed_intervals c = Inr l"
  shows "set l = set (paid_intervals c)" and "distinct (map interval_key l)" and "sorted (map interval_key l)"
proof -
  from assms obtain u ren where fold: "fold_result normalise_step ([], []) (paid_intervals c) = Inr (u, ren)"
    and l: "l = sort_key interval_key u"
    by (auto simp: normalise_confirmed_intervals_def rbind_eq_Inr_iff)
  have "norm_inv {} ([], [])" by (simp add: norm_inv_def consistent_def)
  from normalise_fold(2) [OF this fold] have u: "set u = set (paid_intervals c)" "distinct (map coverage_id u)"
    by (simp_all add: norm_inv_def)
  have "distinct (map fst (map interval_key u))" using u(2) by (simp add: interval_key_def comp_def)
  then have "distinct (map interval_key u)" by (rule distinct_map [THEN iffD1, THEN conjunct1])
  then show "set l = set (paid_intervals c)" "distinct (map interval_key l)" "sorted (map interval_key l)"
    using u(1) by (simp_all add: l distinct_map)
qed

lemma interval_key_inject: "interval_key i = interval_key j \<longleftrightarrow> i = j"
  by (cases i; cases j) (auto simp: interval_key_def)

lemma normalise_cong:
  assumes "normalise_confirmed_intervals c = Inr l" and "beneficiary_id c' = beneficiary_id c"
    and "set (paid_intervals c') = set (paid_intervals c)"
  shows "normalise_confirmed_intervals c' = Inr l"
proof -
  obtain l' where l': "normalise_confirmed_intervals c' = Inr l'"
    using normalise_Inr_iff [of c] normalise_Inr_iff [of c'] assms by auto
  have "map interval_key l' = map interval_key l"
    using normalise_Inr [OF assms(1)] normalise_Inr [OF l'] assms(3)
    by (intro sorted_distinct_set_unique) simp_all
  then have "l' = l"
    by (rule map_injective) (simp add: inj_def interval_key_inject)
  with l' show ?thesis by simp
qed

text \<open>Coverage depends on the set of confirmed facts, not on how they arrive: reordering them, or
  repeating any of them as a retry would, gives the same decision at every instant.\<close>

theorem coverage_ignores_order_and_retries:
  assumes "evaluate c now = Inr d" and "beneficiary_id c' = beneficiary_id c"
    and "set (paid_intervals c') = set (paid_intervals c)"
  shows "evaluate c' now = Inr d"
proof -
  from assms(1) obtain l where l: "normalise_confirmed_intervals c = Inr l"
    by (auto simp: evaluate_def eligible_intervals_def rbind_eq_Inr_iff)
  from normalise_cong [OF this assms(2,3)] l have "eligible_intervals c' = eligible_intervals c"
    by (simp add: eligible_intervals_def)
  with assms(1) show ?thesis by (simp add: evaluate_def)
qed

subsection \<open>Episodes\<close>

definition covered :: "eligible_interval list \<Rightarrow> int \<Rightarrow> bool" where
  "covered is t \<longleftrightarrow> (\<exists>i \<in> set is. during t i)"

definition in_episode :: "int \<Rightarrow> episode \<Rightarrow> bool" where
  "in_episode t e \<longleftrightarrow> ep_starts_at e \<le> t \<and> t < ep_ends_at e"

definition episodes_inv :: "eligible_interval list \<Rightarrow> episode list \<Rightarrow> bool" where
  "episodes_inv is es \<longleftrightarrow>
     (\<forall>t. (\<exists>e \<in> set es. in_episode t e) \<longleftrightarrow> covered is t) \<and>
     sorted_wrt (\<lambda>e e'. ep_ends_at e' < ep_starts_at e) es \<and>
     (\<forall>e \<in> set es. ep_starts_at e < ep_ends_at e \<and> ep_ends_at e \<in> ei_ends_at ` set is \<and> ep_starts_at e \<in> ei_starts_at ` set is) \<and>
     (\<forall>i \<in> set is. \<exists>e \<in> set es. ep_starts_at e \<le> ei_starts_at i \<and> ei_ends_at i \<le> ep_ends_at e)"

lemma add_interval_inv:
  assumes "episodes_inv is es" and "ei_starts_at i < ei_ends_at i"
    and "\<forall>j \<in> set is. ei_starts_at j \<le> ei_starts_at i"
  shows "episodes_inv (is @ [i]) (add_interval es i)"
proof (cases es)
  case Nil
  with assms show ?thesis
    by (auto simp: episodes_inv_def covered_def in_episode_def during_def)
next
  case (Cons e es')
  have start: "ep_starts_at e \<le> ei_starts_at i"
    using assms(1,3) by (auto simp: episodes_inv_def Cons)
  have cov: "(\<exists>e \<in> set es. in_episode t e) \<longleftrightarrow> covered is t" for t
    using assms(1) by (simp add: episodes_inv_def)
  have cov': "covered (is @ [i]) t \<longleftrightarrow> in_episode t e \<or> (\<exists>e \<in> set es'. in_episode t e) \<or> during t i" for t
    using cov [of t] by (auto simp: covered_def Cons)
  show ?thesis
  proof (cases "ei_starts_at i \<le> ep_ends_at e")
    case True
    let ?e = "e\<lparr>ep_ends_at := max (ep_ends_at e) (ei_ends_at i)\<rparr>"
    have "in_episode t ?e \<longleftrightarrow> in_episode t e \<or> during t i" for t
      using True start assms(2) by (auto simp: in_episode_def during_def)
    with True assms show ?thesis
      unfolding episodes_inv_def cov' by (auto simp: Cons start max_def)
  next
    case False
    let ?e = "\<lparr>ep_starts_at = ei_starts_at i, ep_ends_at = ei_ends_at i\<rparr>"
    have "in_episode t ?e \<longleftrightarrow> during t i" for t
      by (simp add: in_episode_def during_def)
    with False assms show ?thesis
      unfolding episodes_inv_def cov' by (auto simp: Cons)
  qed
qed

lemma episodes_inv_foldl:
  assumes "sorted (map ei_starts_at (js @ is))" and "\<forall>i \<in> set is. ei_starts_at i < ei_ends_at i" and "episodes_inv js es"
  shows "episodes_inv (js @ is) (foldl add_interval es is)"
  using assms
proof (induction "is" arbitrary: js es)
  case (Cons i "is")
  have "episodes_inv (js @ [i]) (add_interval es i)"
    using Cons.prems by (intro add_interval_inv) (auto simp: sorted_append)
  with Cons.IH [of "js @ [i]" "add_interval es i"] Cons.prems(1,2) show ?case by simp
qed simp

lemma episodes_spec:
  assumes "sorted (map ei_starts_at is)" and "\<forall>i \<in> set is. ei_starts_at i < ei_ends_at i"
  shows "episodes_inv is (rev (episodes is))"
proof -
  have "episodes_inv [] []" by (simp add: episodes_inv_def covered_def)
  from episodes_inv_foldl [OF _ assms(2) this] assms(1) show ?thesis by (simp add: episodes_def)
qed

definition paid_of :: "paid_interval \<Rightarrow> eligible_interval" where
  "paid_of i = \<lparr>ei_starts_at = starts_at i, ei_ends_at = paid_until i, ei_kind = PaidKind, ei_coverage_id = coverage_id i\<rparr>"

definition recovery_of :: "paid_interval \<Rightarrow> eligible_interval" where
  "recovery_of i = \<lparr>ei_starts_at = paid_until i, ei_ends_at = paid_until i + RENEWAL_RECOVERY_SECONDS,
     ei_kind = RecoveryKind, ei_coverage_id = coverage_id i\<rparr>"

lemma eligible_of_Inr:
  "eligible_of i = Inr es \<Longrightarrow> es = paid_of i # (if failed_renewal_id i = None then [] else [recovery_of i])"
  by (auto simp: eligible_of_def Let_def rbind_eq_Inr_iff paid_of_def recovery_of_def checked_add_Some_iff split: if_splits)

lemma map_result_eligible:
  "map_result eligible_of xs = Inr ys \<Longrightarrow>
     ys = map (\<lambda>i. paid_of i # (if failed_renewal_id i = None then [] else [recovery_of i])) xs"
  by (induction xs arbitrary: ys) (auto simp: rbind_eq_Inr_iff dest!: eligible_of_Inr)

lemma sorted_map_fst_key: "sorted (map (\<lambda>x. (f x, g x)) xs) \<Longrightarrow> sorted (map f xs)"
  by (induction xs) (auto simp: less_eq_prod_def)

lemma eligible_intervals_spec:
  assumes "eligible_intervals c = Inr is"
  shows "set is = paid_of ` set (paid_intervals c) \<union> recovery_of ` {i \<in> set (paid_intervals c). failed_renewal_id i \<noteq> None}"
    and "sorted (map ei_starts_at is)" and "\<forall>i \<in> set is. ei_starts_at i < ei_ends_at i"
proof -
  from assms obtain l es where l: "normalise_confirmed_intervals c = Inr l"
    and es: "map_result eligible_of l = Inr es" and "is": "is = sort_key eligible_key (concat es)"
    by (auto simp: eligible_intervals_def rbind_eq_Inr_iff)
  show set: "set is = paid_of ` set (paid_intervals c) \<union> recovery_of ` {i \<in> set (paid_intervals c). failed_renewal_id i \<noteq> None}"
  proof -
    have "x \<in> set is \<longleftrightarrow> (\<exists>i \<in> set l. x = paid_of i \<or> failed_renewal_id i \<noteq> None \<and> x = recovery_of i)" for x
      unfolding "is" map_result_eligible [OF es] by simp (metis not_None_eq)
    then show ?thesis unfolding normalise_Inr(1) [OF l] by blast
  qed
  have key: "eligible_key = (\<lambda>e. (ei_starts_at e, ei_ends_at e, kind_rank (ei_kind e), ei_coverage_id e))"
    by (rule ext) (rule eligible_key_def)
  have "sorted (map eligible_key is)" unfolding "is" by (rule sorted_sort_key)
  then show "sorted (map ei_starts_at is)" unfolding key by (rule sorted_map_fst_key)
  have "\<forall>i \<in> set (paid_intervals c). valid_interval i" using l normalise_Inr_iff by blast
  then show "\<forall>i \<in> set is. ei_starts_at i < ei_ends_at i"
    unfolding set by (auto simp: paid_of_def recovery_of_def valid_interval_def RENEWAL_RECOVERY_SECONDS_def)
qed

lemma foldr_max_ge: "x \<in> insert a (set xs) \<Longrightarrow> x \<le> foldr max xs (a :: int)"
  by (induction xs) (auto simp: le_max_iff_disj)

lemma foldr_max_in: "foldr max xs (a :: int) \<in> insert a (set xs)"
  by (induction xs) (auto simp: max_def)

lemma max_option_Some_iff: "max_option xs = Some m \<longleftrightarrow> m \<in> set xs \<and> (\<forall>x \<in> set xs. x \<le> m)"
proof (cases xs)
  case (Cons a ys)
  then show ?thesis
    using foldr_max_ge [of _ a ys] foldr_max_in [of ys a] by (auto simp: max_option_def intro: order.antisym)
qed (simp add: max_option_def)

lemma max_option_None_iff: "max_option xs = None \<longleftrightarrow> xs = []"
  by (simp add: max_option_def)

lemma max_option_eqI:
  assumes "\<And>x. x \<in> set xs \<Longrightarrow> \<exists>y \<in> set ys. x \<le> y" and "\<And>y. y \<in> set ys \<Longrightarrow> \<exists>x \<in> set xs. y \<le> x"
  shows "max_option xs = max_option ys"
proof (cases "max_option xs")
  case None
  with assms(2) have "ys = []" by (cases ys) (force simp: max_option_None_iff)+
  with None show ?thesis by (simp add: max_option_def)
next
  case (Some m)
  then have m: "m \<in> set xs" "\<forall>x \<in> set xs. x \<le> m" by (simp_all add: max_option_Some_iff)
  obtain y where y: "y \<in> set ys" "m \<le> y" using assms(1) [OF m(1)] by blast
  have up: "z \<le> m" if "z \<in> set ys" for z
    using assms(2) [OF that] m(2) by (meson order_trans)
  with y have "m \<in> set ys" by (metis order.antisym)
  with up have "max_option ys = Some m" by (simp add: max_option_Some_iff)
  with Some show ?thesis by simp
qed

subsection \<open>What a decision means\<close>

text \<open>The decision in terms of the facts alone, without intervals or episodes.\<close>

definition paid_at :: "person_coverage \<Rightarrow> int \<Rightarrow> bool" where
  "paid_at c t \<longleftrightarrow> (\<exists>i \<in> set (paid_intervals c). starts_at i \<le> t \<and> t < paid_until i)"

definition recovering_at :: "person_coverage \<Rightarrow> int \<Rightarrow> bool" where
  "recovering_at c t \<longleftrightarrow> (\<exists>i \<in> set (paid_intervals c). failed_renewal_id i \<noteq> None \<and>
     paid_until i \<le> t \<and> t < paid_until i + RENEWAL_RECOVERY_SECONDS)"

definition coverage_ends :: "person_coverage \<Rightarrow> int list" where
  "coverage_ends c = map paid_until (paid_intervals c) @
     map (\<lambda>i. paid_until i + RENEWAL_RECOVERY_SECONDS) (filter (\<lambda>i. failed_renewal_id i \<noteq> None) (paid_intervals c))"

definition state_spec :: "person_coverage \<Rightarrow> int \<Rightarrow> coverage_state" where
  "state_spec c now =
     (if paid_at c now then Paid
      else if recovering_at c now then RenewalRecovery
      else case max_option (filter (\<lambda>t. t \<le> now) (coverage_ends c)) of
        None \<Rightarrow> CFree
      | Some t \<Rightarrow> if now < t + EXPORT_WINDOW_SECONDS then ExportOnly else Expired)"

lemma eligible_facts:
  assumes "eligible_intervals c = Inr is"
  shows "(\<exists>i \<in> set is. ei_kind i = PaidKind \<and> during t i) \<longleftrightarrow> paid_at c t"
    and "covered is t \<longleftrightarrow> paid_at c t \<or> recovering_at c t"
    and "ei_ends_at ` set is = set (coverage_ends c)"
  unfolding eligible_intervals_spec(1) [OF assms] covered_def
  by (simp_all add: bex_Un paid_at_def recovering_at_def coverage_ends_def during_def paid_of_def recovery_of_def
      image_Un image_image conj_assoc) auto

lemma latest_end_cong:
  assumes "episodes_inv is (rev es)" and "\<not> covered is now" and "\<forall>i \<in> set is. ei_starts_at i < ei_ends_at i"
  shows "max_option (map ep_ends_at (filter (\<lambda>e. ep_ends_at e \<le> now) es)) =
    max_option (filter (\<lambda>t. t \<le> now) (map ei_ends_at is))"
proof (rule max_option_eqI)
  fix x
  assume "x \<in> set (map ep_ends_at (filter (\<lambda>e. ep_ends_at e \<le> now) es))"
  with assms(1) show "\<exists>y \<in> set (filter (\<lambda>t. t \<le> now) (map ei_ends_at is)). x \<le> y"
    by (force simp: episodes_inv_def)
next
  fix y
  assume "y \<in> set (filter (\<lambda>t. t \<le> now) (map ei_ends_at is))"
  then obtain i where i: "i \<in> set is" "y = ei_ends_at i" "y \<le> now" by auto
  with assms(1) obtain e where e: "e \<in> set es" "ep_starts_at e \<le> ei_starts_at i" "ei_ends_at i \<le> ep_ends_at e"
    by (auto simp: episodes_inv_def)
  have starts: "\<forall>i \<in> set is. ei_starts_at i < ei_ends_at i" by fact
  have "\<not> in_episode now e" using assms e(1) by (auto simp: episodes_inv_def)
  moreover have "\<not> now < ep_starts_at e" if "ei_starts_at i < ei_ends_at i" using e(2) i(2,3) that by simp
  moreover have "ep_ends_at e \<le> now \<or> in_episode now e \<or> now < ep_starts_at e" by (auto simp: in_episode_def)
  ultimately have "ep_ends_at e \<le> now" using starts i(1) by blast
  with e i(2) show "\<exists>x \<in> set (map ep_ends_at (filter (\<lambda>e. ep_ends_at e \<le> now) es)). y \<le> x" by auto
qed

lemma find_episode:
  assumes "episodes_inv is (rev es)"
  shows "(\<exists>e. List.find (\<lambda>e. ep_starts_at e \<le> now \<and> now < ep_ends_at e) es = Some e) \<longleftrightarrow> covered is now"
proof -
  have "covered is now \<longleftrightarrow> (\<exists>e \<in> set es. ep_starts_at e \<le> now \<and> now < ep_ends_at e)"
    using assms by (simp add: episodes_inv_def in_episode_def)
  then show ?thesis
    by (cases "List.find (\<lambda>e. ep_starts_at e \<le> now \<and> now < ep_ends_at e) es")
       (auto simp: find_None_iff find_Some_iff)
qed

lemma evaluate_covered:
  assumes "evaluate c now = Inr d" and "eligible_intervals c = Inr is"
  shows "covered is now \<Longrightarrow> cd_state d = (if paid_at c now then Paid else RenewalRecovery) \<and> cd_export_until d = None \<and>
      (\<exists>e \<in> set (episodes is). in_episode now e \<and> cd_active_until d = Some (ep_ends_at e))"
    and "\<not> covered is now \<Longrightarrow> cd_active_until d = None \<and> cd_state d =
      (case max_option (filter (\<lambda>t. t \<le> now) (map ei_ends_at is)) of None \<Rightarrow> CFree
       | Some t \<Rightarrow> if now < t + EXPORT_WINDOW_SECONDS then ExportOnly else Expired) \<and>
      cd_export_until d = map_option (\<lambda>t. t + EXPORT_WINDOW_SECONDS) (max_option (filter (\<lambda>t. t \<le> now) (map ei_ends_at is)))"
proof -
  let ?find = "List.find (\<lambda>e. ep_starts_at e \<le> now \<and> now < ep_ends_at e) (episodes is)"
  note elig = eligible_intervals_spec [OF assms(2)]
  note inv = episodes_spec [OF elig(2,3)]
  have paid: "list_ex (\<lambda>i. ei_kind i = PaidKind \<and> during now i) is \<longleftrightarrow> paid_at c now"
    using eligible_facts(1) [OF assms(2)] by (simp add: list_ex_iff)
  {
    assume "covered is now"
    then obtain e where e: "?find = Some e" using find_episode [OF inv] by blast
    then have "e \<in> set (episodes is)" "in_episode now e" by (auto simp: find_Some_iff in_episode_def)
    with assms e paid show "cd_state d = (if paid_at c now then Paid else RenewalRecovery) \<and> cd_export_until d = None \<and>
        (\<exists>e \<in> set (episodes is). in_episode now e \<and> cd_active_until d = Some (ep_ends_at e))"
      by (auto simp: evaluate_def Let_def)
  next
    assume no: "\<not> covered is now"
    then have "?find = None" using find_episode [OF inv] by (cases ?find) auto
    with assms latest_end_cong [OF inv no elig(3)]
    show "cd_active_until d = None \<and> cd_state d =
        (case max_option (filter (\<lambda>t. t \<le> now) (map ei_ends_at is)) of None \<Rightarrow> CFree
         | Some t \<Rightarrow> if now < t + EXPORT_WINDOW_SECONDS then ExportOnly else Expired) \<and>
        cd_export_until d = map_option (\<lambda>t. t + EXPORT_WINDOW_SECONDS) (max_option (filter (\<lambda>t. t \<le> now) (map ei_ends_at is)))"
      by (auto simp: evaluate_def Let_def rbind_eq_Inr_iff checked_add_Some_iff split: option.splits)
  }
qed

text \<open>C18: A decision says what the facts say: Paid exactly while some confirmed interval is running,
  renewal recovery exactly in the fourteen days after one whose renewal failed, otherwise free if no
  coverage has ended yet, export-only for thirty days after the latest end, and expired from then
  on. Merging intervals into episodes never changes this.\<close>

theorem evaluate_state_correct:
  assumes "evaluate c now = Inr d"
  shows "cd_state d = state_spec c now"
proof -
  from assms obtain "is" where "is": "eligible_intervals c = Inr is"
    by (auto simp: evaluate_def rbind_eq_Inr_iff)
  note facts = eligible_facts [OF "is"]
  have "max_option (filter (\<lambda>t. t \<le> now) (map ei_ends_at is)) = max_option (filter (\<lambda>t. t \<le> now) (coverage_ends c))"
    using facts(3) by (intro max_option_eqI) (force simp flip: facts(3))+
  with evaluate_covered [OF assms "is"] facts(2) [of now] show ?thesis
    by (cases "covered is now") (auto simp: state_spec_def)
qed

definition demo_coverage :: person_coverage where
  "demo_coverage = \<lparr>beneficiary_id = [97], paid_intervals =
     [\<lparr>coverage_id = [98], source_id = [99], starts_at = 0, paid_until = 100, failed_renewal_id = Some [100]\<rparr>,
      \<lparr>coverage_id = [101], source_id = [99], starts_at = 50, paid_until = 200, failed_renewal_id = None\<rparr>]\<rparr>"

lemma demo_coverage_renewals:
  "trim [97] = [97]" "trim [98] = [98]" "trim [99] = [99]" "trim [100] = [100]" "trim [101] = [101]"
  by (simp_all add: trim_def trim_by_def is_whitespace_def)

lemma demo_coverage_normalised:
  "normalise_confirmed_intervals demo_coverage = Inr (paid_intervals demo_coverage)"
  by (simp add: demo_coverage_def normalise_confirmed_intervals_def normalise_step_def demo_coverage_renewals
      require_def rbind_def check_renewal_def checked_add_def checked_i64_def in_i64_def RENEWAL_RECOVERY_SECONDS_def
      identity_of_def interval_key_def ok_or_def)

lemma demo_coverage_evaluates:
  "evaluate demo_coverage 150 = Inr \<lparr>cd_state = Paid, cd_active_until = Some 1209700, cd_recovery_until = None, cd_export_until = None\<rparr>"
  by (simp add: evaluate_def eligible_intervals_def demo_coverage_normalised rbind_def)
    (simp add: demo_coverage_def eligible_of_def
      checked_add_def checked_i64_def in_i64_def RENEWAL_RECOVERY_SECONDS_def ok_or_def eligible_key_def episodes_def max_option_def during_def rbind_def)

lemma sorted_wrt_pair: "sorted_wrt P xs \<Longrightarrow> x \<in> set xs \<Longrightarrow> y \<in> set xs \<Longrightarrow> x = y \<or> P x y \<or> P y x"
  by (induction xs) auto

lemma active_until_covered:
  assumes "evaluate c now = Inr d" and "eligible_intervals c = Inr is" and "cd_active_until d = Some t"
  shows "now < t" and "now \<le> s \<Longrightarrow> s < t \<Longrightarrow> covered is s" and "\<not> covered is t"
proof -
  note elig = eligible_intervals_spec [OF assms(2)]
  note inv = episodes_spec [OF elig(2,3)]
  have "covered is now" using evaluate_covered(2) [OF assms(1,2)] assms(3) by force
  with evaluate_covered(1) [OF assms(1,2)] assms(3)
  obtain e where e: "e \<in> set (episodes is)" "in_episode now e" "t = ep_ends_at e" by auto
  have cov: "covered is u \<longleftrightarrow> (\<exists>e \<in> set (episodes is). in_episode u e)" for u
    using inv by (simp add: episodes_inv_def)
  show "now < t" using e(2,3) by (simp add: in_episode_def)
  show "now \<le> s \<Longrightarrow> s < t \<Longrightarrow> covered is s" using e unfolding cov by (intro bexI [of _ e]) (auto simp: in_episode_def)
  show "\<not> covered is t"
  proof
    assume "covered is t"
    then obtain f where f: "f \<in> set (episodes is)" "in_episode t f" unfolding cov by blast
    have pos: "ep_starts_at e < ep_ends_at e" "ep_starts_at f < ep_ends_at f"
      using inv e(1) f(1) by (simp_all add: episodes_inv_def)
    have "e = f \<or> ep_ends_at e < ep_starts_at f \<or> ep_ends_at f < ep_starts_at e"
      using inv e(1) f(1) sorted_wrt_pair [of _ "rev (episodes is)" e f] by (auto simp: episodes_inv_def)
    with f(2) e(3) pos show False by (auto simp: in_episode_def)
  qed
qed

text \<open>The end a decision announces is exact: cover (paid or renewal recovery) holds at every instant
  from now until then and has stopped at that instant, however the confirmed intervals overlap, touch
  or nest.\<close>

theorem active_until_is_exact:
  assumes "evaluate c now = Inr d" and "cd_active_until d = Some t"
  shows "now < t \<and> (\<forall>s. now \<le> s \<and> s < t \<longrightarrow> paid_at c s \<or> recovering_at c s) \<and>
    \<not> paid_at c t \<and> \<not> recovering_at c t"
proof -
  from assms obtain "is" where "is": "eligible_intervals c = Inr is"
    by (auto simp: evaluate_def rbind_eq_Inr_iff)
  with active_until_covered [OF assms(1) "is" assms(2)] eligible_facts(2) [OF "is"] show ?thesis by blast
qed

theorem active_until_is_exact_witness:
  "(150::int) < 1209700 \<and> (paid_at demo_coverage 1000000 \<or> recovering_at demo_coverage 1000000) \<and>
    \<not> paid_at demo_coverage 1209700 \<and> \<not> recovering_at demo_coverage 1209700"
  using active_until_is_exact [OF demo_coverage_evaluates, of 1209700] by simp

theorem evaluate_state_correct_witness: "Paid = state_spec demo_coverage 150"
  using evaluate_state_correct [OF demo_coverage_evaluates] by simp

theorem coverage_ignores_order_and_retries_witness:
  "evaluate (demo_coverage\<lparr>paid_intervals := rev (paid_intervals demo_coverage) @ paid_intervals demo_coverage\<rparr>) 150 =
    evaluate demo_coverage 150"
proof -
  have "evaluate (demo_coverage\<lparr>paid_intervals := rev (paid_intervals demo_coverage) @ paid_intervals demo_coverage\<rparr>) 150 =
      Inr \<lparr>cd_state = Paid, cd_active_until = Some 1209700, cd_recovery_until = None, cd_export_until = None\<rparr>"
    by (rule coverage_ignores_order_and_retries [OF demo_coverage_evaluates]) simp_all
  then show ?thesis by (simp add: demo_coverage_evaluates)
qed

end
