(* ===== verification/Coverage_Store.thy ===== *)
theory Coverage_Store
  imports Coverage
begin

text \<open>
  The durable coverage projections: \<open>cloud_coverage_store.rs\<close> over the tables of migration 0023. A
  publication is one transaction; two publishers of a beneficiary are ordered by the lock on its head,
  so the second one sees the first one's rows. Revisions are \<open>i64\<close>; their increment is checked.
\<close>

fun invalid_coverage_str :: "invalid_coverage \<Rightarrow> string" where
  "invalid_coverage_str EmptyBeneficiary = ''beneficiary_id must not be empty''"
| "invalid_coverage_str EmptyCoverageId = ''coverage_id must not be empty''"
| "invalid_coverage_str EmptySourceId = ''source_id must not be empty''"
| "invalid_coverage_str InvalidInterval = ''coverage interval must have starts_at before paid_until''"
| "invalid_coverage_str EmptyRenewalId = ''failed_renewal_id must not be empty''"
| "invalid_coverage_str RecoveryDeadlineOverflow = ''failed renewal recovery deadline overflows the timestamp range''"
| "invalid_coverage_str ConflictingCoverage = ''duplicate coverage_id has conflicting contents''"
| "invalid_coverage_str ConflictingRenewal = ''the same failed renewal is attached to conflicting paid intervals''"
| "invalid_coverage_str ExportDeadlineOverflow = ''export deadline overflows the timestamp range''"

datatype unavailable_reason = NeedsReconciliation | ConflictingEvidence

fun reason_str :: "unavailable_reason \<Rightarrow> string" where
  "reason_str NeedsReconciliation = ''needs_reconciliation''"
| "reason_str ConflictingEvidence = ''conflicting_evidence''"

definition reason_parse :: "string \<Rightarrow> unavailable_reason option" where
  "reason_parse s =
     (if s = ''needs_reconciliation'' then Some NeedsReconciliation
      else if s = ''conflicting_evidence'' then Some ConflictingEvidence else None)"

datatype coverage_projection = Complete "paid_interval list" | Unavailable unavailable_reason

datatype publication_outcome = Applied | AlreadyApplied

record publication_receipt =
  pr_revision :: int
  pr_outcome :: publication_outcome

record loaded_coverage =
  lc_revision :: int
  lc_coverage :: person_coverage

datatype store_error =
    Database string
  | StoreEmptyBeneficiary
  | EmptyOperationId
  | EmptyEvidenceReference
  | InvalidExpectedRevision
  | InvalidCoverage invalid_coverage
  | RevisionOverflow
  | ProjectionMissing
  | ProjectionUnavailable unavailable_reason
  | StoreOperationConflict
  | RevisionConflict "int option" "int option"
  | CorruptProjection string

record canonical_projection =
  cp_status :: string
  cp_reason :: "unavailable_reason option"
  cp_intervals :: "paid_interval list"

record stored_operation =
  so_revision :: int
  so_expected :: "int option"
  so_evidence :: codepoints
  so_projection :: canonical_projection

subsection \<open>The tables\<close>

record coverage_head =
  ch_beneficiary :: codepoints
  ch_revision :: "int option"

record revision_row =
  rv_beneficiary :: codepoints
  rv_revision :: int
  rv_operation :: codepoints
  rv_expected :: "int option"
  rv_evidence :: codepoints
  rv_status :: string
  rv_reason :: "string option"
  rv_count :: int

record fact_row =
  fr_beneficiary :: codepoints
  fr_revision :: int
  fr_fact :: paid_interval

record coverage_store =
  cs_users :: "codepoints list"
  heads :: "coverage_head list"
  revisions :: "revision_row list"
  facts :: "fact_row list"

text \<open>\<open>btrim(x) <> ''\<close>, which strips spaces only.\<close>

definition not_blank :: "codepoints \<Rightarrow> bool" where
  "not_blank s \<longleftrightarrow> trim_by (\<lambda>c. c = 32) s \<noteq> []"

definition revision_checks :: "revision_row \<Rightarrow> bool" where
  "revision_checks r \<longleftrightarrow> 0 < rv_revision r \<and> not_blank (rv_operation r) \<and>
     (case rv_expected r of None \<Rightarrow> True | Some e \<Rightarrow> 0 < e) \<and> not_blank (rv_evidence r) \<and> 0 \<le> rv_count r \<and>
     (rv_status r = ''complete'' \<and> rv_reason r = None \<or>
      rv_status r = ''unavailable'' \<and> rv_reason r \<in> {Some ''needs_reconciliation'', Some ''conflicting_evidence''} \<and> rv_count r = 0)"

definition fact_checks :: "paid_interval \<Rightarrow> bool" where
  "fact_checks i \<longleftrightarrow> not_blank (coverage_id i) \<and> not_blank (source_id i) \<and>
     (case failed_renewal_id i of None \<Rightarrow> True | Some r \<Rightarrow> not_blank r) \<and> starts_at i < paid_until i"

definition insert_revision :: "revision_row \<Rightarrow> 'a coverage_store_scheme \<Rightarrow> store_error + 'a coverage_store_scheme" where
  "insert_revision r db =
     rbind (require (revision_checks r) (Database ''check violation'')) (\<lambda>_.
     rbind (require (rv_beneficiary r \<in> set (cs_users db)) (Database ''foreign key violation'')) (\<lambda>_.
     rbind (require (\<not> sql_exists (\<lambda>r'. rv_beneficiary r' = rv_beneficiary r \<and>
         (rv_revision r' = rv_revision r \<or> rv_operation r' = rv_operation r)) (revisions db)) (Database ''unique violation'')) (\<lambda>_.
     Inr (db\<lparr>revisions := sql_insert r (revisions db)\<rparr>))))"

definition insert_fact :: "codepoints \<Rightarrow> int \<Rightarrow> 'a coverage_store_scheme \<Rightarrow> paid_interval \<Rightarrow> store_error + 'a coverage_store_scheme" where
  "insert_fact b revision db i =
     rbind (require (fact_checks i) (Database ''check violation'')) (\<lambda>_.
     rbind (require (\<not> sql_exists (\<lambda>f. fr_beneficiary f = b \<and> fr_revision f = revision \<and>
         (coverage_id (fr_fact f) = coverage_id i \<or>
          failed_renewal_id i \<noteq> None \<and> failed_renewal_id (fr_fact f) = failed_renewal_id i)) (facts db)) (Database ''unique violation'')) (\<lambda>_.
     rbind (require (sql_exists (\<lambda>r. rv_beneficiary r = b \<and> rv_revision r = revision) (revisions db)) (Database ''foreign key violation'')) (\<lambda>_.
     Inr (db\<lparr>facts := sql_insert \<lparr>fr_beneficiary = b, fr_revision = revision, fr_fact = i\<rparr> (facts db)\<rparr>))))"

definition set_head :: "codepoints \<Rightarrow> int \<Rightarrow> 'a coverage_store_scheme \<Rightarrow> 'a coverage_store_scheme" where
  "set_head b revision db =
     db\<lparr>heads := sql_update (\<lambda>h. ch_beneficiary h = b) (\<lambda>h. h\<lparr>ch_revision := Some revision\<rparr>) (heads db)\<rparr>"

definition find_head :: "'a coverage_store_scheme \<Rightarrow> codepoints \<Rightarrow> coverage_head option" where
  "find_head db b = sql_find (\<lambda>h. ch_beneficiary h = b) (heads db)"

definition insert_head :: "codepoints \<Rightarrow> 'a coverage_store_scheme \<Rightarrow> store_error + bool \<times> 'a coverage_store_scheme" where
  "insert_head b db =
     (if find_head db b \<noteq> None then Inr (False, db)
      else rbind (require (b \<in> set (cs_users db)) (Database ''foreign key violation'')) (\<lambda>_.
        Inr (True, db\<lparr>heads := sql_insert \<lparr>ch_beneficiary = b, ch_revision = None\<rparr> (heads db)\<rparr>)))"

text \<open>The facts of a revision in the order of \<open>ORDER BY coverage_id COLLATE "C"\<close>.\<close>

definition select_facts :: "'a coverage_store_scheme \<Rightarrow> codepoints \<Rightarrow> int \<Rightarrow> paid_interval list" where
  "select_facts db b revision = sort_key coverage_id
     (map fr_fact (sql_select (\<lambda>f. fr_beneficiary f = b \<and> fr_revision f = revision) (facts db)))"

subsection \<open>Publishing\<close>

definition validate_identifier :: "codepoints \<Rightarrow> 'e \<Rightarrow> 'e + unit" where
  "validate_identifier value error = (if trim value = [] then Inl error else Inr ())"

fun canonical_projection_of :: "codepoints \<Rightarrow> coverage_projection \<Rightarrow> store_error + canonical_projection" where
  "canonical_projection_of b (Complete intervals) =
     rbind (map_err InvalidCoverage (normalise_confirmed_intervals \<lparr>beneficiary_id = b, paid_intervals = intervals\<rparr>)) (\<lambda>canonical.
     Inr \<lparr>cp_status = ''complete'', cp_reason = None, cp_intervals = canonical\<rparr>)"
| "canonical_projection_of b (Unavailable reason) =
     Inr \<lparr>cp_status = ''unavailable'', cp_reason = Some reason, cp_intervals = []\<rparr>"

definition projection_metadata :: "string \<Rightarrow> string option \<Rightarrow> int \<Rightarrow> store_error + canonical_projection" where
  "projection_metadata status unavailable_reason fact_count =
     (if fact_count < 0 then Inl (CorruptProjection ''fact count is negative'')
      else case Option.bind unavailable_reason reason_parse of
        None \<Rightarrow>
          if status = ''complete'' then Inr \<lparr>cp_status = ''complete'', cp_reason = None, cp_intervals = []\<rparr>
          else Inl (CorruptProjection ''invalid projection status or unavailable reason'')
      | Some reason \<Rightarrow>
          if status = ''unavailable'' \<and> fact_count = 0 then Inr \<lparr>cp_status = ''unavailable'', cp_reason = Some reason, cp_intervals = []\<rparr>
          else Inl (CorruptProjection ''invalid projection status or unavailable reason''))"

definition load_operation :: "codepoints \<Rightarrow> revision_row \<Rightarrow> 'a coverage_store_scheme \<Rightarrow> store_error + stored_operation" where
  "load_operation b row db =
     (let intervals = select_facts db b (rv_revision row) in
      rbind (projection_metadata (rv_status row) (rv_reason row) (rv_count row)) (\<lambda>projection.
      rbind (require (rv_count row = int (length intervals))
        (CorruptProjection (''operation revision '' @ dec_int (rv_revision row) @ '' declares '' @ dec_int (rv_count row) @
           '' facts but stores '' @ dec_nat (length intervals)))) (\<lambda>_.
      Inr \<lparr>so_revision = rv_revision row, so_expected = rv_expected row, so_evidence = rv_evidence row,
           so_projection = projection\<lparr>cp_intervals := intervals\<rparr>\<rparr>)))"

definition write_revision ::
    "codepoints \<Rightarrow> int \<Rightarrow> codepoints \<Rightarrow> int option \<Rightarrow> codepoints \<Rightarrow> canonical_projection \<Rightarrow>
       'a coverage_store_scheme \<Rightarrow> store_error + 'a coverage_store_scheme" where
  "write_revision b revision op expected evidence canonical db =
     rbind (insert_revision \<lparr>rv_beneficiary = b, rv_revision = revision, rv_operation = op, rv_expected = expected,
       rv_evidence = evidence, rv_status = cp_status canonical, rv_reason = map_option reason_str (cp_reason canonical),
       rv_count = int (length (cp_intervals canonical))\<rparr> db) (\<lambda>db.
     rbind (fold_result (insert_fact b revision) db (cp_intervals canonical)) (\<lambda>db.
     Inr (set_head b revision db)))"

text \<open>The rest of \<open>publish\<close>, the head locked: a stored operation is compared, a new one appended.\<close>

definition publish_locked ::
    "bool \<Rightarrow> codepoints \<Rightarrow> int option \<Rightarrow> codepoints \<Rightarrow> codepoints \<Rightarrow> canonical_projection \<Rightarrow> 'a coverage_store_scheme \<Rightarrow>
       (store_error + publication_receipt) \<times> 'a coverage_store_scheme" where
  "publish_locked inserted b expected op evidence canonical db =
     (let current = Option.bind (find_head db b) ch_revision in
      if current = None \<and> \<not> inserted then (Inl (CorruptProjection ''head has no current revision''), db)
      else case sql_find (\<lambda>r. rv_beneficiary r = b \<and> rv_operation r = op) (revisions db) of
        Some row \<Rightarrow>
          (case load_operation b row db of
             Inl e \<Rightarrow> (Inl e, db)
           | Inr stored \<Rightarrow>
               if so_expected stored = expected \<and> so_evidence stored = evidence \<and> so_projection stored = canonical
               then (Inr \<lparr>pr_revision = so_revision stored, pr_outcome = AlreadyApplied\<rparr>, db)
               else (Inl StoreOperationConflict, db))
      | None \<Rightarrow>
          if current \<noteq> expected then
            (Inl (RevisionConflict expected current),
             if inserted then db\<lparr>heads := sql_delete (\<lambda>h. ch_beneficiary h = b \<and> ch_revision h = None) (heads db)\<rparr> else db)
          else case checked_add (case current of None \<Rightarrow> 0 | Some r \<Rightarrow> r) 1 of
            None \<Rightarrow> (Inl RevisionOverflow, db)
          | Some revision \<Rightarrow>
              (case write_revision b revision op expected evidence canonical db of
                 Inl e \<Rightarrow> (Inl e, db)
               | Inr db' \<Rightarrow> (Inr \<lparr>pr_revision = revision, pr_outcome = Applied\<rparr>, db')))"

definition publish ::
    "codepoints \<Rightarrow> int option \<Rightarrow> codepoints \<Rightarrow> codepoints \<Rightarrow> coverage_projection \<Rightarrow> 'a coverage_store_scheme \<Rightarrow>
       (store_error + publication_receipt) \<times> 'a coverage_store_scheme" where
  "publish b expected op evidence projection db =
     (case rbind (validate_identifier b StoreEmptyBeneficiary) (\<lambda>_.
           rbind (validate_identifier op EmptyOperationId) (\<lambda>_.
           rbind (validate_identifier evidence EmptyEvidenceReference) (\<lambda>_.
           rbind (require (case expected of None \<Rightarrow> True | Some revision \<Rightarrow> 0 < revision) InvalidExpectedRevision) (\<lambda>_.
           rbind (canonical_projection_of b projection) (\<lambda>canonical.
           rbind (insert_head b db) (\<lambda>head. Inr (canonical, head))))))) of
        Inl e \<Rightarrow> (Inl e, db)
      | Inr (canonical, inserted, db') \<Rightarrow> publish_locked inserted b expected op evidence canonical db')"

subsection \<open>Loading\<close>

definition current_revision :: "codepoints \<Rightarrow> 'a coverage_store_scheme \<Rightarrow> store_error + int option" where
  "current_revision b db =
     rbind (validate_identifier b StoreEmptyBeneficiary) (\<lambda>_.
     case find_head db b of
       None \<Rightarrow> Inr None
     | Some h \<Rightarrow> (case ch_revision h of
         Some revision \<Rightarrow> Inr (Some revision)
       | None \<Rightarrow> Inl (CorruptProjection ''head has no current revision'')))"

definition load_revision :: "codepoints \<Rightarrow> int \<Rightarrow> revision_row \<Rightarrow> 'a coverage_store_scheme \<Rightarrow> store_error + loaded_coverage" where
  "load_revision b revision row db =
     rbind (projection_metadata (rv_status row) (rv_reason row) (rv_count row)) (\<lambda>projection.
     rbind (require (case rv_expected row of None \<Rightarrow> True | Some e \<Rightarrow> 0 < e) (CorruptProjection ''expected revision is not positive'')) (\<lambda>_.
     rbind (validate_identifier (rv_evidence row) (CorruptProjection ''evidence reference is empty'')) (\<lambda>_.
     let intervals = select_facts db b revision; coverage = \<lparr>beneficiary_id = b, paid_intervals = intervals\<rparr> in
     rbind (require (rv_count row = int (length intervals))
       (CorruptProjection (''revision '' @ dec_int revision @ '' declares '' @ dec_int (rv_count row) @
          '' facts but stores '' @ dec_nat (length intervals)))) (\<lambda>_.
     rbind (map_err (\<lambda>e. CorruptProjection (invalid_coverage_str e)) (normalise_confirmed_intervals coverage)) (\<lambda>canonical.
     rbind (require (canonical = intervals) (CorruptProjection ''stored facts are not in canonical order'')) (\<lambda>_.
     case cp_reason projection of
       Some reason \<Rightarrow> Inl (ProjectionUnavailable reason)
     | None \<Rightarrow> Inr \<lparr>lc_revision = revision, lc_coverage = coverage\<rparr>))))))"

definition load :: "codepoints \<Rightarrow> 'a coverage_store_scheme \<Rightarrow> store_error + loaded_coverage" where
  "load b db =
     rbind (validate_identifier b StoreEmptyBeneficiary) (\<lambda>_.
     case Option.bind (find_head db b) ch_revision of
       None \<Rightarrow> Inl (if find_head db b = None then ProjectionMissing else CorruptProjection ''head has no current revision'')
     | Some revision \<Rightarrow>
         (case sql_find (\<lambda>r. rv_beneficiary r = b \<and> rv_revision r = revision) (revisions db) of
            None \<Rightarrow> Inl (CorruptProjection (''head points to missing revision '' @ dec_int revision))
          | Some row \<Rightarrow> load_revision b revision row db))"


subsection \<open>The log of a beneficiary\<close>

text \<open>What the store promises: per beneficiary a log of publications, appended to when the publisher
  knows its length, replayed when the operation is known, and read at its end.\<close>

record publication =
  pb_operation :: codepoints
  pb_evidence :: codepoints
  pb_projection :: canonical_projection

definition version :: "nat \<Rightarrow> int option" where
  "version n = (if n = 0 then None else Some (int n))"

definition log_publish :: "int option \<Rightarrow> publication \<Rightarrow> publication list \<Rightarrow> (store_error + publication_receipt) \<times> publication list" where
  "log_publish expected p log =
     (case List.find (\<lambda>i. pb_operation (log ! i) = pb_operation p) [0..<length log] of
        Some i \<Rightarrow>
          (if log ! i = p \<and> version i = expected then Inr \<lparr>pr_revision = int i + 1, pr_outcome = AlreadyApplied\<rparr>
           else Inl StoreOperationConflict, log)
      | None \<Rightarrow>
          if version (length log) \<noteq> expected then (Inl (RevisionConflict expected (version (length log))), log)
          else if \<not> in_i64 (int (length log) + 1) then (Inl RevisionOverflow, log)
          else (Inr \<lparr>pr_revision = int (length log) + 1, pr_outcome = Applied\<rparr>, log @ [p]))"

definition log_load :: "codepoints \<Rightarrow> publication list \<Rightarrow> store_error + loaded_coverage" where
  "log_load b log =
     (if log = [] then Inl ProjectionMissing
      else case cp_reason (pb_projection (last log)) of
        Some reason \<Rightarrow> Inl (ProjectionUnavailable reason)
      | None \<Rightarrow> Inr \<lparr>lc_revision = int (length log),
          lc_coverage = \<lparr>beneficiary_id = b, paid_intervals = cp_intervals (pb_projection (last log))\<rparr>\<rparr>)"

definition rows :: "codepoints \<Rightarrow> 'a coverage_store_scheme \<Rightarrow> revision_row list" where
  "rows b db = sql_select (\<lambda>r. rv_beneficiary r = b) (revisions db)"

definition entry :: "'a coverage_store_scheme \<Rightarrow> revision_row \<Rightarrow> publication" where
  "entry db r = \<lparr>pb_operation = rv_operation r, pb_evidence = rv_evidence r,
     pb_projection = \<lparr>cp_status = rv_status r, cp_reason = Option.bind (rv_reason r) reason_parse,
       cp_intervals = select_facts db (rv_beneficiary r) (rv_revision r)\<rparr>\<rparr>"

definition log_of :: "codepoints \<Rightarrow> 'a coverage_store_scheme \<Rightarrow> publication list" where
  "log_of b db = map (entry db) (rows b db)"

subsection \<open>The invariant of the tables\<close>

definition canonical_ok :: "codepoints \<Rightarrow> canonical_projection \<Rightarrow> bool" where
  "canonical_ok b c \<longleftrightarrow>
     cp_status c = ''complete'' \<and> cp_reason c = None \<and>
       normalise_confirmed_intervals \<lparr>beneficiary_id = b, paid_intervals = cp_intervals c\<rparr> = Inr (cp_intervals c) \<or>
     cp_status c = ''unavailable'' \<and> cp_reason c \<noteq> None \<and> cp_intervals c = []"

definition row_ok :: "'a coverage_store_scheme \<Rightarrow> revision_row \<Rightarrow> bool" where
  "row_ok db r \<longleftrightarrow> rv_beneficiary r \<in> set (cs_users db) \<and> trim (rv_beneficiary r) \<noteq> [] \<and> trim (rv_evidence r) \<noteq> [] \<and>
     0 < rv_revision r \<and> rv_expected r = version (nat (rv_revision r - 1)) \<and>
     rv_reason r = map_option reason_str (Option.bind (rv_reason r) reason_parse) \<and>
     rv_count r = int (length (select_facts db (rv_beneficiary r) (rv_revision r))) \<and>
     canonical_ok (rv_beneficiary r) (pb_projection (entry db r))"

definition store_ok :: "'a coverage_store_scheme \<Rightarrow> bool" where
  "store_ok db \<longleftrightarrow>
     (\<forall>b. find_head db b = (if rows b db = [] then None else Some \<lparr>ch_beneficiary = b, ch_revision = Some (int (length (rows b db)))\<rparr>)) \<and>
     (\<forall>b. map rv_revision (rows b db) = map (\<lambda>i. int i + 1) [0..<length (rows b db)]) \<and>
     (\<forall>b. distinct (map rv_operation (rows b db))) \<and>
     (\<forall>r \<in> set (revisions db). row_ok db r) \<and>
     (\<forall>f \<in> set (facts db). \<exists>r \<in> set (revisions db). rv_beneficiary r = fr_beneficiary f \<and> rv_revision r = fr_revision f)"

lemma store_okD:
  assumes "store_ok db"
  shows "find_head db b = (if rows b db = [] then None else Some \<lparr>ch_beneficiary = b, ch_revision = Some (int (length (rows b db)))\<rparr>)"
    and "map rv_revision (rows b db) = map (\<lambda>i. int i + 1) [0..<length (rows b db)]"
    and "distinct (map rv_operation (rows b db))"
    and "r \<in> set (revisions db) \<Longrightarrow> row_ok db r"
    and "f \<in> set (facts db) \<Longrightarrow> \<exists>r \<in> set (revisions db). rv_beneficiary r = fr_beneficiary f \<and> rv_revision r = fr_revision f"
  using assms unfolding store_ok_def by blast+

lemma reason_parse_str [simp]: "reason_parse (reason_str r) = Some r"
  by (cases r) (simp_all add: reason_parse_def)

interpretation reason_codec: codec reason_str "\<lambda>s. ok_or (reason_parse s) ()"
  by unfold_locales simp

lemma trim_by_blank: "trim_by p s = [] \<Longrightarrow> list_all p s"
proof -
  assume "trim_by p s = []"
  then have "\<forall>x \<in> set (dropWhile p s). p x"
    unfolding trim_by_def rev_is_Nil_conv dropWhile_eq_Nil_conv set_rev .
  then show ?thesis by (rule all_of_dropWhile)
qed

lemma not_blankI: "trim s \<noteq> [] \<Longrightarrow> not_blank s"
proof -
  have "list_all (\<lambda>c. c = 32) s \<Longrightarrow> list_all is_whitespace s"
    by (erule list.pred_mono_strong) (simp add: is_whitespace_def)
  then show "trim s \<noteq> [] \<Longrightarrow> not_blank s"
    unfolding not_blank_def trim_blank_iff by (auto dest: trim_by_blank)
qed

lemma validate_identifier_Inr [tx_simps, simp]: "validate_identifier v e = Inr u \<longleftrightarrow> trim v \<noteq> []"
  by (simp add: validate_identifier_def)

text \<open>Canonical facts satisfy every constraint of their table.\<close>

lemma normalise_again:
  assumes "normalise_confirmed_intervals \<lparr>beneficiary_id = b, paid_intervals = is\<rparr> = Inr l"
  shows "normalise_confirmed_intervals \<lparr>beneficiary_id = b, paid_intervals = l\<rparr> = Inr l"
  using normalise_cong [OF assms, of "\<lparr>beneficiary_id = b, paid_intervals = l\<rparr>"] normalise_Inr(1) [OF assms] by simp

lemma canonical_projection_ok: "canonical_projection_of b p = Inr c \<Longrightarrow> canonical_ok b c"
  by (cases p) (auto simp: rbind_eq_Inr_iff canonical_ok_def dest: normalise_again)

lemma canonical_intervals:
  assumes "normalise_confirmed_intervals \<lparr>beneficiary_id = b, paid_intervals = is\<rparr> = Inr is"
  shows "i \<in> set is \<Longrightarrow> fact_checks i" and "distinct is"
    and "i \<in> set is \<Longrightarrow> j \<in> set is \<Longrightarrow>
      coverage_id i = coverage_id j \<or> failed_renewal_id i \<noteq> None \<and> failed_renewal_id i = failed_renewal_id j \<Longrightarrow> i = j"
    and "sorted (map coverage_id is)" and "trim b \<noteq> []"
proof -
  have n: "trim b \<noteq> []" "\<forall>i \<in> set is. valid_interval i" "consistent (set is)"
    using assms normalise_Inr_iff [of "\<lparr>beneficiary_id = b, paid_intervals = is\<rparr>"] by auto
  show "trim b \<noteq> []" by (fact n)
  show "fact_checks i" if "i \<in> set is"
    using n(2) that by (auto simp: valid_interval_def fact_checks_def not_blankI split: option.splits)
  show "i = j" if "i \<in> set is" "j \<in> set is"
    "coverage_id i = coverage_id j \<or> failed_renewal_id i \<noteq> None \<and> failed_renewal_id i = failed_renewal_id j"
  proof -
    have "agree i j" using n(3) that by (simp add: consistent_def)
    moreover have "identity_of i = identity_of j \<Longrightarrow> coverage_id i = coverage_id j" by (simp add: identity_of_def)
    ultimately show ?thesis using that(3) unfolding agree_def by (cases "failed_renewal_id i") auto
  qed
  note l = normalise_Inr [OF assms]
  show "distinct is" using l(2) by (simp add: distinct_map)
  have key: "interval_key = (\<lambda>i. (coverage_id i, source_id i, starts_at i, paid_until i, failed_renewal_id i))"
    by (rule ext) (rule interval_key_def)
  from l(3) show "sorted (map coverage_id is)" unfolding key by (rule sorted_map_fst_key)
qed


definition fact_rows :: "codepoints \<Rightarrow> int \<Rightarrow> paid_interval list \<Rightarrow> fact_row list" where
  "fact_rows b n is = map (\<lambda>i. \<lparr>fr_beneficiary = b, fr_revision = n, fr_fact = i\<rparr>) is"

lemma insert_facts:
  assumes "\<exists>r \<in> set (revisions db). rv_beneficiary r = b \<and> rv_revision r = n"
    and "\<forall>i \<in> set is. fact_checks i" and "distinct is"
    and "\<And>f i. f \<in> set (facts db) \<Longrightarrow> i \<in> set is \<Longrightarrow> fr_beneficiary f = b \<Longrightarrow> fr_revision f = n \<Longrightarrow>
      coverage_id (fr_fact f) \<noteq> coverage_id i \<and> (failed_renewal_id i = None \<or> failed_renewal_id (fr_fact f) \<noteq> failed_renewal_id i)"
    and "\<And>i j. i \<in> set is \<Longrightarrow> j \<in> set is \<Longrightarrow>
      coverage_id i = coverage_id j \<or> failed_renewal_id i \<noteq> None \<and> failed_renewal_id i = failed_renewal_id j \<Longrightarrow> i = j"
  shows "fold_result (insert_fact b n) db is = Inr (db\<lparr>facts := facts db @ fact_rows b n is\<rparr>)"
  using assms
proof (induction "is" arbitrary: db)
  case Nil
  then show ?case by (simp add: fact_rows_def)
next
  case (Cons i "is")
  let ?db = "db\<lparr>facts := facts db @ [\<lparr>fr_beneficiary = b, fr_revision = n, fr_fact = i\<rparr>]\<rparr>"
  have "\<not> (\<exists>f \<in> set (facts db). fr_beneficiary f = b \<and> fr_revision f = n \<and> (coverage_id (fr_fact f) = coverage_id i \<or>
      failed_renewal_id i \<noteq> None \<and> failed_renewal_id (fr_fact f) = failed_renewal_id i))"
    using Cons.prems(4) [of _ i] by auto
  then have step: "insert_fact b n db i = Inr ?db"
    using Cons.prems(1,2) by (simp add: insert_fact_def sql_exists_iff sql_insert_def)
  have new: "coverage_id i \<noteq> coverage_id j \<and> (failed_renewal_id j = None \<or> failed_renewal_id i \<noteq> failed_renewal_id j)"
    if "j \<in> set is" for j
    using Cons.prems(3) Cons.prems(5) [of j i] that by auto
  have "fold_result (insert_fact b n) ?db is = Inr (?db\<lparr>facts := facts ?db @ fact_rows b n is\<rparr>)"
  proof (rule Cons.IH)
    fix f j
    assume f: "f \<in> set (facts ?db)" "fr_beneficiary f = b" "fr_revision f = n" and j: "j \<in> set is"
    from f(1) have "f \<in> set (facts db) \<or> fr_fact f = i" by auto
    then show "coverage_id (fr_fact f) \<noteq> coverage_id j \<and>
        (failed_renewal_id j = None \<or> failed_renewal_id (fr_fact f) \<noteq> failed_renewal_id j)"
      using Cons.prems(4) [of f j] f(2,3) j new [OF j] by auto
  next
    show "i' = j'" if "i' \<in> set is" "j' \<in> set is"
      "coverage_id i' = coverage_id j' \<or> failed_renewal_id i' \<noteq> None \<and> failed_renewal_id i' = failed_renewal_id j'" for i' j'
      using Cons.prems(5) [of i' j'] that by simp
  qed (use Cons.prems(1-3) in auto)
  then show ?case by (simp add: step fact_rows_def)
qed

lemma sort_sorted: "sorted (map f xs) \<Longrightarrow> sort_key f xs = xs"
  by (rule sort_key_id_if_sorted)

lemma select_facts_insert:
  "select_facts (db\<lparr>facts := facts db @ fact_rows b n is\<rparr>) b' m =
     (if b' = b \<and> m = n then sort_key coverage_id (map fr_fact (sql_select (\<lambda>f. fr_beneficiary f = b \<and> fr_revision f = n) (facts db)) @ is)
      else select_facts db b' m)"
  by (auto simp: select_facts_def sql_select_def fact_rows_def filter_map comp_def)


lemma select_facts_fresh:
  assumes "store_ok db" and "n = int (length (rows b db)) + 1"
  shows "sql_select (\<lambda>f. fr_beneficiary f = b \<and> fr_revision f = n) (facts db) = []"
    and "r \<in> set (rows b db) \<Longrightarrow> rv_revision r < n"
proof -
  note ok = store_okD [OF assms(1)]
  show lt: "rv_revision r < n" if "r \<in> set (rows b db)" for r
  proof -
    have "rv_revision r \<in> set (map rv_revision (rows b db))" using that by simp
    then show ?thesis unfolding ok(2) assms(2) by auto
  qed
  have "\<not> (fr_beneficiary f = b \<and> fr_revision f = n)" if f: "f \<in> set (facts db)" for f
  proof
    assume "fr_beneficiary f = b \<and> fr_revision f = n"
    with ok(5) [OF f] obtain r where "r \<in> set (rows b db)" "rv_revision r = n" by (auto simp: rows_def)
    with lt show False by fastforce
  qed
  then show "sql_select (\<lambda>f. fr_beneficiary f = b \<and> fr_revision f = n) (facts db) = []"
    by (simp add: sql_select_def filter_empty_conv)
qed

lemma rows_frame [simp]:
  "rows b (db\<lparr>facts := f\<rparr>) = rows b db" "rows b (db\<lparr>heads := h\<rparr>) = rows b db"
  by (simp_all add: rows_def)

lemma select_facts_frame [simp]:
  "select_facts (db\<lparr>revisions := r\<rparr>) = select_facts db" "select_facts (db\<lparr>heads := h\<rparr>) = select_facts db"
  by (simp_all add: select_facts_def fun_eq_iff)

lemma rows_insert: "rows b (db\<lparr>revisions := sql_insert r (revisions db)\<rparr>) = rows b db @ (if rv_beneficiary r = b then [r] else [])"
  by (simp add: rows_def sql_insert_def sql_select_def)

text \<open>A canonical projection is stored without an error, as the next entry of the log.\<close>

definition next_row :: "codepoints \<Rightarrow> 'a coverage_store_scheme \<Rightarrow> codepoints \<Rightarrow> codepoints \<Rightarrow> canonical_projection \<Rightarrow> revision_row" where
  "next_row b db op evidence c =
     \<lparr>rv_beneficiary = b, rv_revision = int (length (rows b db)) + 1, rv_operation = op, rv_expected = version (length (rows b db)),
      rv_evidence = evidence, rv_status = cp_status c, rv_reason = map_option reason_str (cp_reason c), rv_count = int (length (cp_intervals c))\<rparr>"

definition extended :: "codepoints \<Rightarrow> codepoints \<Rightarrow> codepoints \<Rightarrow> canonical_projection \<Rightarrow> 'a coverage_store_scheme \<Rightarrow> 'a coverage_store_scheme" where
  "extended b op evidence c db =
     db\<lparr>revisions := sql_insert (next_row b db op evidence c) (revisions db),
        facts := facts db @ fact_rows b (int (length (rows b db)) + 1) (cp_intervals c)\<rparr>"

lemma canonical_row_checks:
  assumes "canonical_ok b c" and "trim op \<noteq> []" and "trim evidence \<noteq> []"
  shows "revision_checks (next_row b db op evidence c)"
proof -
  have "reason_str x \<in> {''needs_reconciliation'', ''conflicting_evidence''}" for x by (cases x) auto
  then show ?thesis
    using assms by (auto simp: revision_checks_def next_row_def canonical_ok_def version_def not_blankI)
qed

lemma write_revision_ok:
  assumes ok: "store_ok db" and c: "canonical_ok b c" "trim op \<noteq> []" "trim evidence \<noteq> []" "b \<in> set (cs_users db)"
    and new: "\<forall>r \<in> set (rows b db). rv_operation r \<noteq> op"
  shows "write_revision b (int (length (rows b db)) + 1) op (version (length (rows b db))) evidence c (db\<lparr>heads := hs\<rparr>) =
    Inr (set_head b (int (length (rows b db)) + 1) (extended b op evidence c db\<lparr>heads := hs\<rparr>))"
proof -
  let ?n = "int (length (rows b db)) + 1" and ?r = "next_row b db op evidence c"
  let ?db = "db\<lparr>heads := hs, revisions := sql_insert ?r (revisions db)\<rparr>"
  note fresh = select_facts_fresh [OF ok, of ?n b, OF refl]
  have "\<not> (\<exists>r \<in> set (revisions db). rv_beneficiary r = b \<and> (rv_revision r = ?n \<or> rv_operation r = op))"
    using new fresh(2) by (fastforce simp: rows_def)
  then have ins: "insert_revision ?r (db\<lparr>heads := hs\<rparr>) = Inr ?db"
    using canonical_row_checks [OF c(1-3), of db] c(4) by (simp add: insert_revision_def sql_exists_iff next_row_def)
  have none: "\<not> (fr_beneficiary f = b \<and> fr_revision f = ?n)" if "f \<in> set (facts db)" for f
    using fresh(1) that by (auto simp: sql_select_def filter_empty_conv)
  have "fold_result (insert_fact b ?n) ?db (cp_intervals c) = Inr (?db\<lparr>facts := facts ?db @ fact_rows b ?n (cp_intervals c)\<rparr>)"
  proof (cases "cp_intervals c = []")
    case True
    then show ?thesis by (simp add: fact_rows_def)
  next
    case False
    then have "normalise_confirmed_intervals \<lparr>beneficiary_id = b, paid_intervals = cp_intervals c\<rparr> = Inr (cp_intervals c)"
      using c(1) by (auto simp: canonical_ok_def)
    note can = canonical_intervals [OF this]
    show ?thesis
    proof (rule insert_facts)
      show "\<exists>r \<in> set (revisions ?db). rv_beneficiary r = b \<and> rv_revision r = ?n"
        by (rule bexI [of _ ?r]) (simp_all add: next_row_def)
    qed (use can none in auto)
  qed
  with ins show ?thesis by (cases db) (simp add: write_revision_def next_row_def extended_def)
qed


lemma rows_extended:
  "rows b' (set_head b n (extended b op evidence c db\<lparr>heads := hs\<rparr>)) =
     rows b' db @ (if b' = b then [next_row b db op evidence c] else [])"
  by (simp add: rows_def set_head_def extended_def sql_insert_def sql_select_def next_row_def)

lemma select_facts_extended:
  assumes "store_ok db" and "canonical_ok b c"
  shows "select_facts (set_head b n (extended b op evidence c db\<lparr>heads := hs\<rparr>)) b' m =
    (if b' = b \<and> m = int (length (rows b db)) + 1 then cp_intervals c else select_facts db b' m)"
proof -
  let ?n = "int (length (rows b db)) + 1"
  have sort: "sort_key coverage_id (cp_intervals c) = cp_intervals c"
    using assms(2) canonical_intervals(4) by (auto simp: canonical_ok_def intro!: sort_sorted)
  have "select_facts (set_head b n (extended b op evidence c db\<lparr>heads := hs\<rparr>)) b' m =
      select_facts (db\<lparr>facts := facts db @ fact_rows b ?n (cp_intervals c)\<rparr>) b' m"
    by (simp add: select_facts_def set_head_def extended_def)
  then show ?thesis
    unfolding select_facts_insert select_facts_fresh(1) [OF assms(1) refl] by (simp add: sort)
qed

lemma find_head_set:
  "find_head (set_head b n db) b' = map_option (\<lambda>h. if b' = b then h\<lparr>ch_revision := Some n\<rparr> else h) (find_head db b')"
  unfolding find_head_def set_head_def by (simp add: sql_find_update) (auto simp: sql_find_def find_Some_iff intro!: option.map_cong0)

lemma store_ok_extended:
  assumes ok: "store_ok db" and c: "canonical_ok b c" "trim evidence \<noteq> []" "trim b \<noteq> []" "b \<in> set (cs_users db)"
    and new: "\<forall>r \<in> set (rows b db). rv_operation r \<noteq> op"
    and hs: "find_head (db\<lparr>heads := hs\<rparr>) b \<noteq> None" "\<forall>b'. b' \<noteq> b \<longrightarrow> find_head (db\<lparr>heads := hs\<rparr>) b' = find_head db b'"
  defines "db' \<equiv> set_head b (int (length (rows b db)) + 1) (extended b op evidence c db\<lparr>heads := hs\<rparr>)"
  shows "store_ok db'" and "log_of b db' = log_of b db @ [\<lparr>pb_operation = op, pb_evidence = evidence, pb_projection = c\<rparr>]"
    and "b' \<noteq> b \<Longrightarrow> log_of b' db' = log_of b' db"
proof -
  let ?r = "next_row b db op evidence c"
  note rows = rows_extended [where b = b and n = "int (length (rows b db)) + 1" and op = op and evidence = evidence and c = c and
      db = db and hs = hs, folded db'_def]
  note sel = select_facts_extended [OF ok c(1), where n = "int (length (rows b db)) + 1" and op = op and evidence = evidence and hs = hs, folded db'_def]
  note okd = store_okD [OF ok]
  have reason: "Option.bind (rv_reason ?r) reason_parse = cp_reason c"
    by (cases "cp_reason c") (simp_all add: next_row_def)
  have new_entry: "entry db' ?r = \<lparr>pb_operation = op, pb_evidence = evidence, pb_projection = c\<rparr>"
    unfolding entry_def reason by (simp add: sel) (simp add: next_row_def)
  have old: "select_facts db' (rv_beneficiary r) (rv_revision r) = select_facts db (rv_beneficiary r) (rv_revision r)"
    if "r \<in> set (revisions db)" for r
    using select_facts_fresh(2) [OF ok refl, of r b] that by (auto simp: sel rows_def)
  then have old_entry: "entry db' r = entry db r" if "r \<in> set (revisions db)" for r
    using that by (simp add: entry_def)
  show "log_of b db' = log_of b db @ [\<lparr>pb_operation = op, pb_evidence = evidence, pb_projection = c\<rparr>]"
    using old_entry new_entry by (simp add: log_of_def rows) (simp add: rows_def)
  show "log_of b' db' = log_of b' db" if "b' \<noteq> b"
    using old_entry that by (simp add: log_of_def rows) (simp add: rows_def)
  have head: "find_head db' b' = (if b' = b then Some \<lparr>ch_beneficiary = b, ch_revision = Some (int (length (rows b db)) + 1)\<rparr> else find_head db b')" for b'
  proof (cases "b' = b")
    case True
    obtain h where h: "find_head (db\<lparr>heads := hs\<rparr>) b = Some h" using hs(1) by auto
    then have "ch_beneficiary h = b" by (auto simp: find_head_def dest: sql_find_SomeD)
    with h True show ?thesis
      unfolding db'_def find_head_set by (cases h) (simp add: find_head_def extended_def)
  next
    case False
    with hs(2) show ?thesis unfolding db'_def find_head_set by (simp add: find_head_def extended_def option.map_ident)
  qed
  have users: "cs_users db' = cs_users db" by (simp add: db'_def set_head_def extended_def)
  have revs: "revisions db' = revisions db @ [?r]" by (simp add: db'_def set_head_def extended_def sql_insert_def)
  have facts': "facts db' = facts db @ fact_rows b (int (length (rows b db)) + 1) (cp_intervals c)"
    by (simp add: db'_def set_head_def extended_def)
  have r_ok: "row_ok db' ?r"
    using c new_entry sel [of b "int (length (rows b db)) + 1"] unfolding row_ok_def reason by (simp add: users) (simp add: next_row_def)
  have old_ok: "row_ok db' r" if "r \<in> set (revisions db)" for r
    using okd(4) [OF that] old [OF that] old_entry [OF that] by (simp add: row_ok_def users)
  show "store_ok db'"
    unfolding store_ok_def
  proof (intro conjI allI ballI)
    fix b'
    show "find_head db' b' = (if rows b' db' = [] then None else Some \<lparr>ch_beneficiary = b', ch_revision = Some (int (length (rows b' db')))\<rparr>)"
      using okd(1) [of b'] by (simp add: head rows)
    show "map rv_revision (rows b' db') = map (\<lambda>i. int i + 1) [0..<length (rows b' db')]"
      using okd(2) [of b'] by (simp add: rows) (simp add: next_row_def)
    show "distinct (map rv_operation (rows b' db'))"
      using okd(3) [of b'] new by (simp add: rows) (auto simp: next_row_def)
  next
    show "row_ok db' r" if "r \<in> set (revisions db')" for r
      using that r_ok old_ok by (auto simp: revs)
  next
    fix f assume "f \<in> set (facts db')"
    then have "f \<in> set (facts db) \<or> fr_beneficiary f = rv_beneficiary ?r \<and> fr_revision f = rv_revision ?r"
      by (auto simp: facts' fact_rows_def next_row_def)
    then show "\<exists>r \<in> set (revisions db'). rv_beneficiary r = fr_beneficiary f \<and> rv_revision r = fr_revision f"
      using okd(5) [of f] by (auto simp: revs)
  qed
qed


subsection \<open>The store implements the log\<close>

lemma sql_find_select: "sql_find (\<lambda>r. p r \<and> q r) t = List.find q (sql_select p t)"
  by (induction t) (auto simp: sql_find_def sql_select_def)

lemma find_by_index: "List.find p xs = map_option ((!) xs) (List.find (\<lambda>i. p (xs ! i)) [0..<length xs])"
proof (cases "List.find (\<lambda>i. p (xs ! i)) [0..<length xs]")
  case None
  then have "\<forall>i < length xs. \<not> p (xs ! i)" by (simp add: find_None_iff)
  then have "List.find p xs = None" by (auto simp: find_None_iff in_set_conv_nth)
  with None show ?thesis by simp
next
  case (Some i)
  then have "i < length xs" "p (xs ! i)" "\<forall>j < i. \<not> p (xs ! j)" by (auto simp: find_Some_iff)
  then have "List.find p xs = Some (xs ! i)" by (auto simp: find_Some_iff)
  with Some show ?thesis by simp
qed

lemma find_operation:
  "sql_find (\<lambda>r. rv_beneficiary r = b \<and> rv_operation r = op) (revisions db) =
     map_option ((!) (rows b db)) (List.find (\<lambda>i. pb_operation (log_of b db ! i) = op) [0..<length (log_of b db)])"
proof -
  have "List.find (\<lambda>i. pb_operation (log_of b db ! i) = op) [0..<length (log_of b db)] =
      List.find (\<lambda>i. rv_operation (rows b db ! i) = op) [0..<length (rows b db)]"
    unfolding log_of_def length_map by (rule find_cong) (auto simp: entry_def)
  then show ?thesis unfolding sql_find_select rows_def [symmetric] by (simp add: find_by_index [of _ "rows b db"])
qed

lemma projection_metadata_ok:
  assumes "canonical_ok b c" and "n = int (length (cp_intervals c))"
  shows "projection_metadata (cp_status c) (map_option reason_str (cp_reason c)) n = Inr (c\<lparr>cp_intervals := []\<rparr>)"
  using assms by (cases c; cases "cp_reason c") (auto simp: canonical_ok_def projection_metadata_def)

lemma load_operation_ok:
  assumes "row_ok db r"
  shows "load_operation (rv_beneficiary r) r db = Inr \<lparr>so_revision = rv_revision r, so_expected = rv_expected r,
    so_evidence = rv_evidence r, so_projection = pb_projection (entry db r)\<rparr>"
proof -
  have c: "canonical_ok (rv_beneficiary r) (pb_projection (entry db r))"
    "rv_reason r = map_option reason_str (Option.bind (rv_reason r) reason_parse)"
    "rv_count r = int (length (select_facts db (rv_beneficiary r) (rv_revision r)))"
    using assms by (simp_all add: row_ok_def)
  have "projection_metadata (rv_status r) (rv_reason r) (rv_count r) = Inr (pb_projection (entry db r)\<lparr>cp_intervals := []\<rparr>)"
    using projection_metadata_ok [OF c(1), of "rv_count r"] c(2,3) by (simp add: entry_def)
  with c(3) show ?thesis by (simp add: load_operation_def Let_def entry_def)
qed

lemma row_at:
  assumes "store_ok db" and "i < length (rows b db)"
  shows "row_ok db (rows b db ! i)" and "rv_beneficiary (rows b db ! i) = b" and "rv_revision (rows b db ! i) = int i + 1"
    and "rv_expected (rows b db ! i) = version i" and "log_of b db ! i = entry db (rows b db ! i)"
proof -
  have mem: "rows b db ! i \<in> set (rows b db)" using assms(2) by simp
  then show b: "rv_beneficiary (rows b db ! i) = b" and ok: "row_ok db (rows b db ! i)"
    using store_okD(4) [OF assms(1)] by (simp_all add: rows_def)
  have "rv_revision (rows b db ! i) = map rv_revision (rows b db) ! i" using assms(2) by simp
  also have "\<dots> = int i + 1" unfolding store_okD(2) [OF assms(1)] using assms(2) by simp
  finally show n: "rv_revision (rows b db ! i) = int i + 1" .
  show "rv_expected (rows b db ! i) = version i" using ok n by (simp add: row_ok_def)
  show "log_of b db ! i = entry db (rows b db ! i)" using assms(2) by (simp add: log_of_def)
qed

lemma insert_head_cases:
  assumes "store_ok db" and "insert_head b db = Inr (inserted, db1)"
  obtains (new) "inserted" "rows b db = []" "find_head db b = None"
      "db1 = db\<lparr>heads := sql_insert \<lparr>ch_beneficiary = b, ch_revision = None\<rparr> (heads db)\<rparr>"
      "find_head db1 b = Some \<lparr>ch_beneficiary = b, ch_revision = None\<rparr>"
    | (known) "\<not> inserted" "rows b db \<noteq> []" "db1 = db"
proof (cases "rows b db = []")
  case True
  then have "find_head db b = None" using store_okD(1) [OF assms(1), of b] by simp
  with True assms(2) show ?thesis
    by (intro new) (auto simp: insert_head_def rbind_eq_Inr_iff find_head_def sql_find_insert)
next
  case False
  with assms(2) store_okD(1) [OF assms(1), of b] show ?thesis by (intro known) (auto simp: insert_head_def)
qed

lemma publish_locked_log:
  assumes ok: "store_ok db" and c: "canonical_ok b c" "trim op \<noteq> []" "trim evidence \<noteq> []" "trim b \<noteq> []" "b \<in> set (cs_users db)"
    and head: "insert_head b db = Inr (inserted, db1)"
    and run: "publish_locked inserted b expected op evidence c db1 = (r, db')"
  shows "(r, log_of b db') = log_publish expected \<lparr>pb_operation = op, pb_evidence = evidence, pb_projection = c\<rparr> (log_of b db)"
    and "store_ok db'" and "b' \<noteq> b \<Longrightarrow> log_of b' db' = log_of b' db"
proof -
  let ?p = "\<lparr>pb_operation = op, pb_evidence = evidence, pb_projection = c\<rparr>" and ?L = "log_of b db"
  have len: "length ?L = length (rows b db)" by (simp add: log_of_def)
  have current: "Option.bind (find_head db1 b) ch_revision = version (length ?L)"
    and none: "\<not> (version (length ?L) = None \<and> \<not> inserted)" and revs: "revisions db1 = revisions db"
    using head store_okD(1) [OF ok, of b] by (cases rule: insert_head_cases [OF ok head]; simp add: version_def len)+
  have start: "(case version (length ?L) of None \<Rightarrow> 0 | Some r \<Rightarrow> r) = int (length ?L)" by (simp add: version_def)
  let ?found = "List.find (\<lambda>i. pb_operation (?L ! i) = op) [0..<length ?L]"
  have goal: "(r, log_of b db') = log_publish expected ?p ?L \<and> store_ok db' \<and> (\<forall>b'. b' \<noteq> b \<longrightarrow> log_of b' db' = log_of b' db)"
  proof (cases ?found)
    case (Some i)
    then have i: "i < length (rows b db)" by (auto simp: find_Some_iff len)
    note at = row_at [OF ok i]
    have "db1 = db" using i by (cases rule: insert_head_cases [OF ok head]) auto
    moreover have "?L ! i = ?p \<longleftrightarrow> rv_evidence (rows b db ! i) = evidence \<and> pb_projection (?L ! i) = c"
      using Some unfolding at(5) by (auto simp: find_Some_iff entry_def len at(5))
    ultimately show ?thesis
      using run ok Some load_operation_ok [OF at(1)] none current
      by (auto simp: publish_locked_def Let_def find_operation revs at(2-4) log_publish_def len simp flip: at(5) split: if_splits)
  next
    case None
    then have op: "sql_find (\<lambda>r. rv_beneficiary r = b \<and> rv_operation r = op) (revisions db1) = None"
      unfolding revs find_operation by simp
    have locked: "(r, db') =
        (if version (length ?L) \<noteq> expected then (Inl (RevisionConflict expected (version (length ?L))),
           if inserted then db1\<lparr>heads := sql_delete (\<lambda>h. ch_beneficiary h = b \<and> ch_revision h = None) (heads db1)\<rparr> else db1)
         else case checked_add (int (length ?L)) 1 of
           None \<Rightarrow> (Inl RevisionOverflow, db1)
         | Some revision \<Rightarrow>
             (case write_revision b revision op expected evidence c db1 of
                Inl e \<Rightarrow> (Inl e, db1)
              | Inr db' \<Rightarrow> (Inr \<lparr>pr_revision = revision, pr_outcome = Applied\<rparr>, db')))"
      unfolding run [symmetric] publish_locked_def Let_def current if_not_P [OF none] op option.case start ..
    from op have new: "\<forall>r \<in> set (rows b db). rv_operation r \<noteq> op" by (auto simp: revs rows_def sql_find_None_iff)
    show ?thesis
    proof (cases "version (length ?L) = expected")
      case False
      moreover have "(if inserted then db1\<lparr>heads := sql_delete (\<lambda>h. ch_beneficiary h = b \<and> ch_revision h = None) (heads db1)\<rparr> else db1) = db"
        using ok head
      proof (cases rule: insert_head_cases)
        case new
        then have "filter (\<lambda>h. ch_beneficiary h = b \<longrightarrow> ch_revision h \<noteq> None) (heads db) = heads db"
          by (auto simp: find_head_def sql_find_None_iff intro!: filter_True)
        with new show ?thesis by (simp add: sql_delete_def sql_insert_def)
      qed simp
      ultimately show ?thesis
        using locked ok None by (simp add: log_publish_def)
    next
      case True
      show ?thesis
      proof (cases "in_i64 (int (length ?L) + 1)")
        case False
        then have "0 < length ?L" by (cases "length ?L") (auto simp: in_i64_def)
        then have same: "db1 = db" using len by (cases rule: insert_head_cases [OF ok head]) auto
        have "(r, db') = (Inl RevisionOverflow, db1)"
          using locked True False by (simp add: checked_add_def checked_i64_def)
        with ok True False None show ?thesis by (simp add: same log_publish_def)
      next
        case range: True
        obtain hs where hs: "db1 = db\<lparr>heads := hs\<rparr>" "find_head (db\<lparr>heads := hs\<rparr>) b \<noteq> None"
          "\<forall>b'. b' \<noteq> b \<longrightarrow> find_head (db\<lparr>heads := hs\<rparr>) b' = find_head db b'"
          using ok head
        proof (cases rule: insert_head_cases)
          case new
          then show ?thesis by (intro that) (auto simp: find_head_def sql_find_insert split: option.splits)
        next
          case known
          then show ?thesis using store_okD(1) [OF ok, of b] by (intro that [of "heads db"]) auto
        qed
        note ext = store_ok_extended [OF ok c(1,3,4,5) new hs(2,3)]
        have "write_revision b (int (length ?L) + 1) op expected evidence c db1 =
            Inr (set_head b (int (length ?L) + 1) (extended b op evidence c db\<lparr>heads := hs\<rparr>))"
          using write_revision_ok [OF ok c(1,2,3,5) new, of hs] unfolding True [symmetric] len hs(1) .
        then have "db' = set_head b (int (length (rows b db)) + 1) (extended b op evidence c db\<lparr>heads := hs\<rparr>)"
          and "r = Inr \<lparr>pr_revision = int (length ?L) + 1, pr_outcome = Applied\<rparr>"
          using locked range by (simp_all add: checked_add_def checked_i64_def True [symmetric] len)
        with ext True range None show ?thesis by (auto simp: log_publish_def)
      qed
    qed
  qed
  then show "(r, log_of b db') = log_publish expected ?p ?L" and "store_ok db'"
    and "b' \<noteq> b \<Longrightarrow> log_of b' db' = log_of b' db" by blast+
qed


definition publish_request :: "codepoints \<Rightarrow> int option \<Rightarrow> codepoints \<Rightarrow> codepoints \<Rightarrow> coverage_projection \<Rightarrow> store_error + canonical_projection" where
  "publish_request b expected op evidence projection =
     rbind (validate_identifier b StoreEmptyBeneficiary) (\<lambda>_.
     rbind (validate_identifier op EmptyOperationId) (\<lambda>_.
     rbind (validate_identifier evidence EmptyEvidenceReference) (\<lambda>_.
     rbind (require (case expected of None \<Rightarrow> True | Some revision \<Rightarrow> 0 < revision) InvalidExpectedRevision) (\<lambda>_.
     canonical_projection_of b projection))))"

lemma publish_request: "publish b expected op evidence projection db =
    (case rbind (publish_request b expected op evidence projection) (\<lambda>canonical.
        rbind (insert_head b db) (\<lambda>head. Inr (canonical, head))) of
       Inl e \<Rightarrow> (Inl e, db)
     | Inr (canonical, inserted, db') \<Rightarrow> publish_locked inserted b expected op evidence canonical db')"
  unfolding publish_def publish_request_def rbind_assoc ..

lemma publish_request_ok:
  assumes "publish_request b expected op evidence projection = Inr c"
  shows "canonical_ok b c" and "trim op \<noteq> []" and "trim evidence \<noteq> []" and "trim b \<noteq> []"
    and "case expected of None \<Rightarrow> True | Some revision \<Rightarrow> 0 < revision" and "canonical_projection_of b projection = Inr c"
  using assms by (auto simp: publish_request_def rbind_eq_Inr_iff canonical_projection_ok)

lemma insert_head_Inr:
  "store_ok db \<Longrightarrow> (\<exists>h. insert_head b db = Inr h) \<longleftrightarrow> b \<in> set (cs_users db)"
  using store_okD(1) [of db b] store_okD(4) [of db] by (auto simp: insert_head_def rbind_eq_Inr_iff row_ok_def rows_def sql_select_def filter_empty_conv)

lemma insert_head_Inl: "insert_head b db = Inl e \<Longrightarrow> e = Database ''foreign key violation''"
  by (auto simp: insert_head_def rbind_eq_Inl_iff split: if_splits)

lemma publish_spec:
  assumes ok: "store_ok db"
  shows "publish_request b expected op evidence projection = Inl e \<Longrightarrow> publish b expected op evidence projection db = (Inl e, db)"
    and "\<lbrakk>publish_request b expected op evidence projection = Inr c; b \<notin> set (cs_users db)\<rbrakk> \<Longrightarrow>
      publish b expected op evidence projection db = (Inl (Database ''foreign key violation''), db)"
    and "\<lbrakk>publish_request b expected op evidence projection = Inr c; b \<in> set (cs_users db);
        publish b expected op evidence projection db = (r, db')\<rbrakk> \<Longrightarrow>
      (r, log_of b db') = log_publish expected \<lparr>pb_operation = op, pb_evidence = evidence, pb_projection = c\<rparr> (log_of b db) \<and>
      store_ok db' \<and> (\<forall>b'. b' \<noteq> b \<longrightarrow> log_of b' db' = log_of b' db)"
proof -
  show "publish b expected op evidence projection db = (Inl e, db)" if "publish_request b expected op evidence projection = Inl e"
    using that by (simp add: publish_request)
  show "publish b expected op evidence projection db = (Inl (Database ''foreign key violation''), db)"
    if a: "publish_request b expected op evidence projection = Inr c" "b \<notin> set (cs_users db)"
  proof -
    obtain e where "insert_head b db = Inl e" using insert_head_Inr [OF ok, of b] a(2) by (cases "insert_head b db") auto
    with insert_head_Inl [OF this] a(1) show ?thesis by (simp add: publish_request)
  qed
  assume a: "publish_request b expected op evidence projection = Inr c" "b \<in> set (cs_users db)"
    "publish b expected op evidence projection db = (r, db')"
  then obtain inserted db1 where h: "insert_head b db = Inr (inserted, db1)" using insert_head_Inr [OF ok, of b] by auto
  note req = publish_request_ok [OF a(1)]
  have "publish_locked inserted b expected op evidence c db1 = (r, db')" using a h by (simp add: publish_request)
  from publish_locked_log [OF ok req(1-4) a(2) h this]
  show "(r, log_of b db') = log_publish expected \<lparr>pb_operation = op, pb_evidence = evidence, pb_projection = c\<rparr> (log_of b db) \<and>
      store_ok db' \<and> (\<forall>b'. b' \<noteq> b \<longrightarrow> log_of b' db' = log_of b' db)" by blast
qed

inductive store_step :: "'a coverage_store_scheme \<Rightarrow> 'a coverage_store_scheme \<Rightarrow> bool" where
  publish: "publish b expected op evidence projection db = (r, db') \<Longrightarrow> store_step db db'"

lemma store_step_ok:
  assumes "store_step db db'" and "store_ok db"
  shows "store_ok db' \<and> (\<exists>more. log_of b db' = log_of b db @ more)"
  using assms(1)
proof cases
  case (publish b0 expected op evidence projection r)
  show ?thesis
  proof (cases "publish_request b0 expected op evidence projection")
    case (Inl e)
    with publish publish_spec(1) [OF assms(2)] assms(2) show ?thesis by auto
  next
    case (Inr c)
    show ?thesis
    proof (cases "b0 \<in> set (cs_users db)")
      case True
      note spec = publish_spec(3) [OF assms(2) Inr True publish]
      then have "\<exists>more. log_of b0 db' = log_of b0 db @ more"
        by (auto simp: log_publish_def split: option.splits if_splits)
      with spec show ?thesis by (cases "b = b0") auto
    qed (use publish publish_spec(2) [OF assms(2) Inr] assms(2) in auto)
  qed
qed

lemma store_steps_ok:
  "store_step\<^sup>*\<^sup>* db db' \<Longrightarrow> store_ok db \<Longrightarrow> store_ok db' \<and> (\<exists>more. log_of b db' = log_of b db @ more)"
proof (induction rule: rtranclp_induct)
  case (step y z)
  then show ?case using store_step_ok [of y z b] by auto
qed auto

lemma store_ok_empty: "store_ok (coverage_store.make users [] [] [])"
  by (simp add: coverage_store.make_def store_ok_def rows_def find_head_def sql_find_def sql_select_def)

subsection \<open>Reading back\<close>

lemma load_revision_ok:
  assumes "row_ok db r"
  shows "load_revision (rv_beneficiary r) (rv_revision r) r db =
    (case cp_reason (pb_projection (entry db r)) of
       Some reason \<Rightarrow> Inl (ProjectionUnavailable reason)
     | None \<Rightarrow> Inr \<lparr>lc_revision = rv_revision r, lc_coverage =
         \<lparr>beneficiary_id = rv_beneficiary r, paid_intervals = cp_intervals (pb_projection (entry db r))\<rparr>\<rparr>)"
proof -
  let ?c = "pb_projection (entry db r)"
  have c: "canonical_ok (rv_beneficiary r) ?c" "rv_reason r = map_option reason_str (cp_reason ?c)" "rv_status r = cp_status ?c"
    "rv_count r = int (length (cp_intervals ?c))" "trim (rv_evidence r) \<noteq> []" "trim (rv_beneficiary r) \<noteq> []"
    and sel: "select_facts db (rv_beneficiary r) (rv_revision r) = cp_intervals ?c"
    using assms by (simp_all add: row_ok_def entry_def)
  have meta: "projection_metadata (rv_status r) (rv_reason r) (rv_count r) = Inr (?c\<lparr>cp_intervals := []\<rparr>)"
    unfolding c(2,3) by (rule projection_metadata_ok [OF c(1,4)])
  have expected: "require (case rv_expected r of None \<Rightarrow> True | Some e \<Rightarrow> 0 < e) e = Inr ()" for e :: store_error
    using assms by (simp add: row_ok_def version_def)
  have norm: "normalise_confirmed_intervals \<lparr>beneficiary_id = rv_beneficiary r, paid_intervals = cp_intervals ?c\<rparr> = Inr (cp_intervals ?c)"
    using c(1,6) by (auto simp: canonical_ok_def normalise_confirmed_intervals_def)
  have evidence: "validate_identifier (rv_evidence r) e = Inr ()" for e :: store_error using c(5) by simp
  show ?thesis
    unfolding load_revision_def meta rbind_simps expected evidence Let_def sel norm map_err_simps
    by (simp add: c(4))
qed

lemma load_log:
  assumes ok: "store_ok db" and "trim b \<noteq> []"
  shows "load b db = log_load b (log_of b db)"
proof (cases "rows b db = []")
  case True
  with store_okD(1) [OF ok, of b] assms(2) show ?thesis by (simp add: load_def log_load_def log_of_def rbind_def validate_identifier_def)
next
  case False
  let ?n = "length (rows b db)" let ?r = "rows b db ! (?n - 1)"
  have n: "?n - 1 < ?n" "int (?n - 1) + 1 = int ?n" using False by (simp_all add: of_nat_diff Suc_le_eq)
  note at = row_at [OF ok n(1), unfolded n(2)]
  have "distinct (map rv_revision (rows b db))" unfolding store_okD(2) [OF ok] by (simp add: distinct_map inj_on_def)
  then have find: "sql_find (\<lambda>r. rv_beneficiary r = b \<and> rv_revision r = int ?n) (revisions db) = Some ?r"
    unfolding sql_find_select rows_def [symmetric]
    using sql_find_Some_iff_distinct [of rv_revision "rows b db" "\<lambda>r. rv_revision r = int ?n" "int ?n" ?r] n(1) at(3)
    by (simp add: sql_find_def)
  have last: "log_of b db \<noteq> []" "last (log_of b db) = entry db ?r" "length (log_of b db) = ?n"
    using False at(5) by (simp_all add: log_of_def last_conv_nth)
  have "load b db = load_revision b (int ?n) ?r db"
    using store_okD(1) [OF ok, of b] False assms(2) find by (simp add: load_def validate_identifier_def)
  also have "\<dots> = log_load b (log_of b db)"
    using load_revision_ok [OF at(1), unfolded at(2,3)] last(1) unfolding log_load_def last(2,3) by simp
  finally show ?thesis .
qed


text \<open>A known operation with the same contents is answered from the tables, which stay as they are.\<close>

lemma publish_known:
  assumes ok: "store_ok db" and req: "publish_request b expected op evidence projection = Inr c"
    and i: "i < length (log_of b db)" "log_of b db ! i = \<lparr>pb_operation = op, pb_evidence = evidence, pb_projection = c\<rparr>" "version i = expected"
  shows "publish b expected op evidence projection db = (Inr \<lparr>pr_revision = int i + 1, pr_outcome = AlreadyApplied\<rparr>, db)"
proof -
  have len: "length (log_of b db) = length (rows b db)" by (simp add: log_of_def)
  with i(1) have i': "i < length (rows b db)" by simp
  note at = row_at [OF ok i']
  have user: "b \<in> set (cs_users db)" using at(1,2) by (simp add: row_ok_def)
  have "pb_operation (log_of b db ! j) \<noteq> op" if "j < i" for j
  proof
    assume "pb_operation (log_of b db ! j) = op"
    then have "map rv_operation (rows b db) ! j = map rv_operation (rows b db) ! i"
      using i(2) i' that row_at(5) [OF ok, of _ b] by (simp add: entry_def)
    with nth_eq_iff_index_eq [OF store_okD(3) [OF ok, of b], of j i] i' that show False by simp
  qed
  then have find: "List.find (\<lambda>i. pb_operation (log_of b db ! i) = op) [0..<length (log_of b db)] = Some i"
    unfolding find_Some_iff using i(1,2) by (intro exI [of _ i]) simp
  have head: "insert_head b db = Inr (False, db)" and current: "Option.bind (find_head db b) ch_revision \<noteq> None"
    using store_okD(1) [OF ok, of b] i' by (auto simp: insert_head_def)
  have "load_operation b (rows b db ! i) db = Inr \<lparr>so_revision = int i + 1, so_expected = expected,
      so_evidence = evidence, so_projection = c\<rparr>"
    using load_operation_ok [OF at(1)] i(2,3) at(2-5) by (simp add: entry_def)
  with current show ?thesis
    unfolding publish_request req rbind_simps head sum.case prod.case publish_locked_def Let_def find_operation find option.map
    by simp
qed

text \<open>C20: Publishing implements the log. On tables that satisfy the invariant, a valid request for a
  known person answers what the log answers (a replay gives the old revision, a reused operation or
  a wrong expected revision is refused, anything else is the next revision), the log of that person
  changes the same way, every other log stays, and the invariant is kept: no unique index, foreign
  key or check of the tables is ever hit half way.\<close>

theorem publish_refines_log:
  assumes "store_ok db" and "publish_request b expected op evidence projection = Inr c" and "b \<in> set (cs_users db)"
    and "publish b expected op evidence projection db = (r, db')"
  shows "(r, log_of b db') = log_publish expected \<lparr>pb_operation = op, pb_evidence = evidence, pb_projection = c\<rparr> (log_of b db) \<and>
    store_ok db' \<and> (\<forall>b'. b' \<noteq> b \<longrightarrow> log_of b' db' = log_of b' db)"
  by (rule publish_spec(3) [OF assms])

text \<open>A reader of the tables sees the end of the log and nothing else: the person's last
  publication, or that it is unavailable and why, or that there is none. After any sequence of
  publications from empty tables, whatever they asked for, no load reports corruption.\<close>

theorem load_reads_last_publication:
  assumes "store_step\<^sup>*\<^sup>* (coverage_store.make users [] [] []) db" and "trim b \<noteq> []"
  shows "load b db = log_load b (log_of b db) \<and> load b db \<noteq> Inl (CorruptProjection msg)"
proof -
  have "store_ok db" using store_steps_ok [OF assms(1) store_ok_empty] by blast
  from load_log [OF this assms(2)] show ?thesis by (simp add: log_load_def split: option.splits)
qed

text \<open>What is published is what is evaluated: after a complete projection was applied, loading
  gives its revision and coverage on which every evaluation, at every instant, decides as it would
  on the facts that were handed in, in the order and with the repetitions they came.\<close>

theorem published_coverage_evaluates_the_same:
  assumes "store_ok db" and "publish b expected op evidence (Complete is) db = (Inr receipt, db')"
    and "pr_outcome receipt = Applied"
  shows "\<exists>c. load b db' = Inr \<lparr>lc_revision = pr_revision receipt, lc_coverage = c\<rparr> \<and>
    evaluate c now = evaluate \<lparr>beneficiary_id = b, paid_intervals = is\<rparr> now"
proof -
  obtain c where c: "publish_request b expected op evidence (Complete is) = Inr c"
    using assms(2) publish_spec(1) [OF assms(1)] by (cases "publish_request b expected op evidence (Complete is)") auto
  have "b \<in> set (cs_users db)" using assms(2) publish_spec(2) [OF assms(1) c] by fastforce
  from publish_spec(3) [OF assms(1) c this assms(2)] assms(3) have
    log: "log_of b db' = log_of b db @ [\<lparr>pb_operation = op, pb_evidence = evidence, pb_projection = c\<rparr>]"
    "pr_revision receipt = int (length (log_of b db)) + 1" and ok: "store_ok db'"
    by (auto simp: log_publish_def split: option.splits if_splits)
  note req = publish_request_ok [OF c]
  obtain l where l: "normalise_confirmed_intervals \<lparr>beneficiary_id = b, paid_intervals = is\<rparr> = Inr l" "c = \<lparr>cp_status = ''complete'', cp_reason = None, cp_intervals = l\<rparr>"
    using req(6) by (auto simp: rbind_eq_Inr_iff)
  have "load b db' = Inr \<lparr>lc_revision = pr_revision receipt, lc_coverage = \<lparr>beneficiary_id = b, paid_intervals = l\<rparr>\<rparr>"
    unfolding load_log [OF ok req(4)] log log_load_def by (simp add: l(2))
  moreover have "evaluate \<lparr>beneficiary_id = b, paid_intervals = l\<rparr> now = evaluate \<lparr>beneficiary_id = b, paid_intervals = is\<rparr> now"
    by (simp add: evaluate_def eligible_intervals_def normalise_again [OF l(1)] l(1))
  ultimately show ?thesis by blast
qed

text \<open>A publication that was acknowledged can be sent again at any time. However many other
  publications came in between, the same request answers its old revision and writes nothing.\<close>

theorem publication_replays:
  assumes "store_ok db" and "publish b expected op evidence projection db = (Inr receipt, db1)" and "store_step\<^sup>*\<^sup>* db1 db2"
  shows "publish b expected op evidence projection db2 = (Inr \<lparr>pr_revision = pr_revision receipt, pr_outcome = AlreadyApplied\<rparr>, db2)"
proof -
  obtain c where c: "publish_request b expected op evidence projection = Inr c"
    using assms(2) publish_spec(1) [OF assms(1)] by (cases "publish_request b expected op evidence projection") auto
  have "b \<in> set (cs_users db)" using assms(2) publish_spec(2) [OF assms(1) c] by fastforce
  note spec = publish_spec(3) [OF assms(1) c this assms(2)]
  let ?p = "\<lparr>pb_operation = op, pb_evidence = evidence, pb_projection = c\<rparr>"
  have "\<exists>i < length (log_of b db1). log_of b db1 ! i = ?p \<and> version i = expected \<and> pr_revision receipt = int i + 1"
    using spec by (auto simp: log_publish_def find_Some_iff nth_append split: option.splits if_splits intro!: exI [of _ "length (log_of b db)"])
  then obtain i where i: "i < length (log_of b db1)" "log_of b db1 ! i = ?p" "version i = expected" "pr_revision receipt = int i + 1" by blast
  obtain more where later: "store_ok db2" "log_of b db2 = log_of b db1 @ more"
    using store_steps_ok [OF assms(3), of b] spec by blast
  from publish_known [OF later(1) c, of i] i show ?thesis by (simp add: later(2) nth_append)
qed


subsection \<open>Examples\<close>

definition demo_store :: coverage_store where
  "demo_store = coverage_store.make [[97]] [] [] []"

definition demo_published :: coverage_store where
  "demo_published = snd (publish [97] None [111] [101] (Complete (rev (paid_intervals demo_coverage))) demo_store)"

lemma demo_store_ok: "store_ok demo_store" "log_of b demo_store = []" "cs_users demo_store = [[97]]"
  unfolding demo_store_def by (rule store_ok_empty) (simp_all add: log_of_def rows_def sql_select_def coverage_store.make_def)

lemma demo_trims: "trim [111] = [111]" "trim [101] = [101]" "trim [97] = [97]"
  by (simp_all add: trim_def trim_by_def is_whitespace_def)

lemma demo_normalised:
  "normalise_confirmed_intervals \<lparr>beneficiary_id = [97], paid_intervals = rev (paid_intervals demo_coverage)\<rparr> = Inr (paid_intervals demo_coverage)"
  by (rule normalise_cong [OF demo_coverage_normalised]) (auto simp: demo_coverage_def)

lemma demo_request:
  "publish_request [97] None [111] [101] (Complete (rev (paid_intervals demo_coverage))) =
     Inr \<lparr>cp_status = ''complete'', cp_reason = None, cp_intervals = paid_intervals demo_coverage\<rparr>"
  by (simp add: publish_request_def validate_identifier_def demo_trims demo_normalised)

lemma demo_publish:
  "publish [97] None [111] [101] (Complete (rev (paid_intervals demo_coverage))) demo_store =
     (Inr \<lparr>pr_revision = 1, pr_outcome = Applied\<rparr>, demo_published)"
proof -
  obtain r where r: "publish [97] None [111] [101] (Complete (rev (paid_intervals demo_coverage))) demo_store = (r, demo_published)"
    unfolding demo_published_def by (metis prod.collapse)
  from publish_spec(3) [OF demo_store_ok(1) demo_request _ this] show ?thesis
    by (simp add: demo_store_ok r log_publish_def version_def in_i64_def)
qed

theorem publish_refines_log_witness:
  "log_of [97] demo_published =
     [\<lparr>pb_operation = [111], pb_evidence = [101], pb_projection =
        \<lparr>cp_status = ''complete'', cp_reason = None, cp_intervals = paid_intervals demo_coverage\<rparr>\<rparr>]"
  using publish_refines_log [OF demo_store_ok(1) demo_request _ demo_publish]
  by (simp add: demo_store_ok log_publish_def version_def in_i64_def)

theorem load_reads_last_publication_witness: "load [98] demo_published \<noteq> Inl (CorruptProjection ''head has no current revision'')"
proof -
  have "store_step\<^sup>*\<^sup>* (coverage_store.make [[97]] [] [] []) demo_published"
    using demo_publish by (intro r_into_rtranclp store_step.publish) (simp add: demo_store_def)
  from load_reads_last_publication [OF this, of "[98]" "''head has no current revision''", THEN conjunct2] demo_coverage_renewals
  show ?thesis by simp
qed

theorem published_coverage_evaluates_the_same_witness:
  "\<exists>c. load [97] demo_published = Inr \<lparr>lc_revision = 1, lc_coverage = c\<rparr>"
  using published_coverage_evaluates_the_same [OF demo_store_ok(1) demo_publish] by auto

theorem publication_replays_witness:
  "publish [97] None [111] [101] (Complete (rev (paid_intervals demo_coverage))) demo_published =
     (Inr \<lparr>pr_revision = 1, pr_outcome = AlreadyApplied\<rparr>, demo_published)"
  using publication_replays [OF demo_store_ok(1) demo_publish rtranclp.rtrancl_refl] by simp

end
