(* ===== verification/Coverage_Reconciliation.thy ===== *)
theory Coverage_Reconciliation
  imports Coverage_Store
begin

text \<open>
  The coordination of trusted coverage sources: \<open>cloud_coverage_reconciliation.rs\<close> over the tables of
  migrations 0024 and 0025. Each operation is one transaction that starts by locking the
  beneficiary's coordinator row, so the operations on a beneficiary run one after the other; the
  caller commits a success and rolls back an error. The rows of this component extend those of the
  projection store.
\<close>

section \<open>JSON values\<close>

text \<open>\<open>serde_json::Value\<close> as it comes back from a \<open>JSONB\<close> column: an object is its list of fields in the
  order of their names, the order of serde's \<open>BTreeMap\<close>, so that equal values are equal terms.\<close>

datatype jvalue = VNull | VBool bool | VNumber int | VString codepoints | VArray "jvalue list" | VObject "(string \<times> jvalue) list"

fun as_object :: "jvalue \<Rightarrow> (string \<times> jvalue) list option" where
  "as_object (VObject kvs) = Some kvs"
| "as_object _ = None"

fun as_array :: "jvalue \<Rightarrow> jvalue list option" where
  "as_array (VArray vs) = Some vs"
| "as_array _ = None"

fun as_str :: "jvalue \<Rightarrow> codepoints option" where
  "as_str (VString s) = Some s"
| "as_str _ = None"

fun as_i64 :: "jvalue \<Rightarrow> int option" where
  "as_i64 (VNumber n) = checked_i64 n"
| "as_i64 _ = None"

section \<open>Types\<close>

record source_binding =
  sb_beneficiary :: codepoints
  sb_source :: codepoints
  sb_namespace :: codepoints
  sb_allocation :: codepoints
  sb_evidence :: codepoints

datatype registration_outcome = RegApplied | RegAlreadyApplied

record registration_receipt =
  rr_source :: codepoints
  rr_generation :: int
  rr_revision :: "int option"
  rr_outcome :: registration_outcome

datatype collection_status = Pending | Superseded | Completed

record collection_ticket =
  ct_beneficiary :: codepoints
  ct_attempt :: codepoints
  ct_epoch :: int
  ct_generation :: int
  ct_expected :: "int option"
  ct_bindings :: "source_binding list"
  ct_status :: collection_status
  ct_completed :: "int option"

datatype source_observation =
    ObservedComplete (obs_source: codepoints) (obs_evidence: codepoints) "paid_interval list"
  | ObservedUnavailable (obs_source: codepoints) (obs_evidence: codepoints) unavailable_reason

record reconciliation_receipt =
  rc_attempt :: codepoints
  rc_revision :: int
  rc_outcome :: publication_outcome

datatype corrupt_reason =
    BindingShape | BindingOwnership | BindingSourceSet | CompletionReceipt | ResultShape | ResultEvidence | ResultCanonical

datatype reconciliation_error =
    ReconciliationDb string
  | StoreFailed store_error
  | InvalidSource string
  | InvalidIdentifier string
  | EmptyRegistrationId
  | RegistrationConflict
  | BootstrapConflict
  | CorruptRegistration
  | SourceBindingConflict
  | EmptyAttemptId
  | NoSources
  | AttemptMissing
  | AttemptSuperseded
  | CollectionConflict
  | OperationConflict
  | CorruptAttempt corrupt_reason
  | SourceBatchMismatch
  | SourceObservationConflict string
  | InvalidObservation invalid_coverage
  | EpochOverflow
  | GenerationOverflow

section \<open>Tables\<close>

record coordinator =
  co_beneficiary :: codepoints
  co_generation :: int
  co_epoch :: int
  co_attempt :: "codepoints option"

record source_row =
  sr_binding :: source_binding
  sr_operation :: codepoints
  sr_generation :: int
  sr_revision :: "int option"

record attempt_row =
  at_id :: codepoints
  at_beneficiary :: codepoints
  at_epoch :: int
  at_generation :: int
  at_expected :: "int option"
  at_bindings :: jvalue
  at_status :: string
  at_evidence :: "codepoints option"
  at_result :: "jvalue option"
  at_revision :: "int option"

record coverage_db = coverage_store +
  coordinators :: "coordinator list"
  sources :: "source_row list"
  attempts :: "attempt_row list"

definition insert_coordinator :: "codepoints \<Rightarrow> coverage_db \<Rightarrow> reconciliation_error + coverage_db" where
  "insert_coordinator b db =
     (if sql_exists (\<lambda>c. co_beneficiary c = b) (coordinators db) then Inr db
      else rbind (require (b \<in> set (cs_users db)) (ReconciliationDb ''foreign key violation'')) (\<lambda>_.
        Inr (db\<lparr>coordinators := sql_insert \<lparr>co_beneficiary = b, co_generation = 0, co_epoch = 0, co_attempt = None\<rparr> (coordinators db)\<rparr>)))"

definition find_coordinator :: "coverage_db \<Rightarrow> codepoints \<Rightarrow> coordinator option" where
  "find_coordinator db b = sql_find (\<lambda>c. co_beneficiary c = b) (coordinators db)"

definition update_coordinator :: "codepoints \<Rightarrow> (coordinator \<Rightarrow> coordinator) \<Rightarrow> coverage_db \<Rightarrow> coverage_db" where
  "update_coordinator b f db = db\<lparr>coordinators := sql_update (\<lambda>c. co_beneficiary c = b) f (coordinators db)\<rparr>"

text \<open>The insert of a source and \<open>map_source_insert_error\<close>: a violation of the primary key or of the
  unique provider allocation is a binding conflict, any other one a database error.\<close>

definition insert_source :: "source_row \<Rightarrow> coverage_db \<Rightarrow> reconciliation_error + coverage_db" where
  "insert_source r db =
     rbind (require (not_blank (sb_source (sr_binding r)) \<and> not_blank (sb_namespace (sr_binding r)) \<and>
       not_blank (sb_allocation (sr_binding r)) \<and> not_blank (sb_evidence (sr_binding r)) \<and> not_blank (sr_operation r) \<and>
       0 < sr_generation r) (ReconciliationDb ''check violation'')) (\<lambda>_.
     rbind (require (sb_beneficiary (sr_binding r) \<in> set (cs_users db)) (ReconciliationDb ''foreign key violation'')) (\<lambda>_.
     rbind (require (\<not> sql_exists (\<lambda>r'. sb_source (sr_binding r') = sb_source (sr_binding r) \<or>
         sb_namespace (sr_binding r') = sb_namespace (sr_binding r) \<and> sb_allocation (sr_binding r') = sb_allocation (sr_binding r)) (sources db))
       SourceBindingConflict) (\<lambda>_.
     rbind (require (\<not> sql_exists (\<lambda>r'. sb_beneficiary (sr_binding r') = sb_beneficiary (sr_binding r) \<and>
         sr_operation r' = sr_operation r) (sources db)) (ReconciliationDb ''unique violation'')) (\<lambda>_.
     Inr (db\<lparr>sources := sql_insert r (sources db)\<rparr>)))))"

definition attempt_checks :: "attempt_row \<Rightarrow> bool" where
  "attempt_checks r \<longleftrightarrow> not_blank (at_id r) \<and> 0 < at_epoch r \<and> 0 < at_generation r \<and>
     (case at_expected r of None \<Rightarrow> True | Some e \<Rightarrow> 0 < e) \<and> as_array (at_bindings r) \<noteq> None \<and>
     (at_status r = ''completed'' \<and> (\<exists>e. at_evidence r = Some e \<and> not_blank e) \<and>
        (\<exists>v. at_result r = Some v \<and> as_object v \<noteq> None) \<and> (\<exists>n. at_revision r = Some n \<and> 0 < n) \<or>
      at_status r \<in> {''pending'', ''superseded''} \<and> at_evidence r = None \<and> at_result r = None \<and> at_revision r = None)"

definition insert_attempt :: "attempt_row \<Rightarrow> coverage_db \<Rightarrow> reconciliation_error + coverage_db" where
  "insert_attempt r db =
     rbind (require (attempt_checks r) (ReconciliationDb ''check violation'')) (\<lambda>_.
     rbind (require (\<not> sql_exists (\<lambda>r'. at_beneficiary r' = at_beneficiary r \<and>
         (at_id r' = at_id r \<or> at_epoch r' = at_epoch r)) (attempts db)) (ReconciliationDb ''unique violation'')) (\<lambda>_.
     Inr (db\<lparr>attempts := sql_insert r (attempts db)\<rparr>)))"

definition supersede :: "(attempt_row \<Rightarrow> bool) \<Rightarrow> coverage_db \<Rightarrow> coverage_db" where
  "supersede p db = db\<lparr>attempts := sql_update (\<lambda>r. p r \<and> at_status r = ''pending'') (\<lambda>r. r\<lparr>at_status := ''superseded''\<rparr>) (attempts db)\<rparr>"

definition bindings_of :: "(source_row \<Rightarrow> bool) \<Rightarrow> coverage_db \<Rightarrow> source_binding list" where
  "bindings_of p db = sort_key sb_source (map sr_binding (sql_select p (sources db)))"

section \<open>Validation\<close>

definition require_text :: "codepoints \<Rightarrow> string \<Rightarrow> reconciliation_error + unit" where
  "require_text value name = (if trim value = [] then Inl (InvalidIdentifier (name @ '' must not be empty'')) else Inr ())"

fun validate_fields :: "(string \<times> codepoints) list \<Rightarrow> reconciliation_error + unit" where
  "validate_fields [] = Inr ()"
| "validate_fields ((name, value) # rest) =
     (if trim value = [] then Inl (InvalidSource (name @ '' must not be empty'')) else validate_fields rest)"

definition validate_binding :: "source_binding \<Rightarrow> reconciliation_error + unit" where
  "validate_binding s = validate_fields
     [(''beneficiary_id'', sb_beneficiary s), (''source_id'', sb_source s), (''provider_namespace'', sb_namespace s),
      (''external_allocation_reference'', sb_allocation s), (''ownership_evidence_reference'', sb_evidence s)]"

definition stored_string :: "(string \<times> jvalue) list \<Rightarrow> string \<Rightarrow> corrupt_reason \<Rightarrow> reconciliation_error + codepoints" where
  "stored_string kvs field reason = ok_or (Option.bind (map_of kvs field) as_str) (CorruptAttempt reason)"

definition stored_i64 :: "(string \<times> jvalue) list \<Rightarrow> string \<Rightarrow> reconciliation_error + int" where
  "stored_i64 kvs field = ok_or (Option.bind (map_of kvs field) as_i64) (CorruptAttempt ResultShape)"

definition has_fields :: "(string \<times> jvalue) list \<Rightarrow> string list \<Rightarrow> bool" where
  "has_fields kvs names \<longleftrightarrow> length kvs = length names \<and> list_all (\<lambda>f. map_of kvs f \<noteq> None) names"

section \<open>Stored bindings\<close>

definition binding_json :: "source_binding \<Rightarrow> jvalue" where
  "binding_json s = VObject [(''beneficiary_id'', VString (sb_beneficiary s)),
     (''external_allocation_reference'', VString (sb_allocation s)),
     (''ownership_evidence_reference'', VString (sb_evidence s)),
     (''provider_namespace'', VString (sb_namespace s)), (''source_id'', VString (sb_source s))]"

definition parse_binding :: "codepoints \<Rightarrow> jvalue \<Rightarrow> reconciliation_error + source_binding" where
  "parse_binding b v =
     rbind (ok_or (as_object v) (CorruptAttempt BindingShape)) (\<lambda>kvs.
     rbind (require (has_fields kvs [''beneficiary_id'', ''source_id'', ''provider_namespace'',
       ''external_allocation_reference'', ''ownership_evidence_reference'']) (CorruptAttempt BindingShape)) (\<lambda>_.
     rbind (stored_string kvs ''beneficiary_id'' BindingShape) (\<lambda>beneficiary.
     rbind (stored_string kvs ''source_id'' BindingShape) (\<lambda>source.
     rbind (stored_string kvs ''provider_namespace'' BindingShape) (\<lambda>namespace.
     rbind (stored_string kvs ''external_allocation_reference'' BindingShape) (\<lambda>allocation.
     rbind (stored_string kvs ''ownership_evidence_reference'' BindingShape) (\<lambda>evidence.
     let binding = \<lparr>sb_beneficiary = beneficiary, sb_source = source, sb_namespace = namespace,
           sb_allocation = allocation, sb_evidence = evidence\<rparr> in
     rbind (require (beneficiary = b) (CorruptAttempt BindingOwnership)) (\<lambda>_.
     rbind (map_err (\<lambda>_. CorruptAttempt BindingShape) (validate_binding binding)) (\<lambda>_.
     Inr binding)))))))))"

definition parse_stored_bindings :: "jvalue \<Rightarrow> codepoints \<Rightarrow> reconciliation_error + source_binding list" where
  "parse_stored_bindings v b =
     rbind (ok_or (as_array v) (CorruptAttempt BindingShape)) (\<lambda>vs.
     rbind (require (vs \<noteq> []) (CorruptAttempt BindingShape)) (\<lambda>_.
     rbind (map_result (parse_binding b) vs) (\<lambda>parsed.
     rbind (require (list_all (\<lambda>(s, t). sb_source s < sb_source t) (zip parsed (tl parsed))) (CorruptAttempt BindingShape)) (\<lambda>_.
     Inr parsed))))"

definition status_from_db :: "string \<Rightarrow> reconciliation_error + collection_status" where
  "status_from_db s =
     (if s = ''pending'' then Inr Pending else if s = ''superseded'' then Inr Superseded
      else if s = ''completed'' then Inr Completed else Inl CollectionConflict)"

definition collection_ticket_from_row :: "attempt_row \<Rightarrow> reconciliation_error + collection_ticket" where
  "collection_ticket_from_row r =
     rbind (status_from_db (at_status r)) (\<lambda>status.
     rbind (parse_stored_bindings (at_bindings r) (at_beneficiary r)) (\<lambda>bindings.
     Inr \<lparr>ct_beneficiary = at_beneficiary r, ct_attempt = at_id r, ct_epoch = at_epoch r, ct_generation = at_generation r,
          ct_expected = at_expected r, ct_bindings = bindings, ct_status = status, ct_completed = at_revision r\<rparr>))"

definition validate_stored_bindings :: "coverage_db \<Rightarrow> collection_ticket \<Rightarrow> reconciliation_error + unit" where
  "validate_stored_bindings db t =
     (let p = (\<lambda>r. sb_beneficiary (sr_binding r) = ct_beneficiary t \<and> sr_generation r \<le> ct_generation t);
          authoritative = bindings_of p db; latest = max_option (map sr_generation (sql_select p (sources db))) in
      require (latest = Some (ct_generation t) \<and> authoritative \<noteq> [] \<and> authoritative = ct_bindings t)
        (CorruptAttempt BindingSourceSet))"

section \<open>The canonical form of a collection\<close>

definition interval_json :: "paid_interval \<Rightarrow> jvalue" where
  "interval_json i = VObject [(''coverage_id'', VString (coverage_id i)),
     (''failed_renewal_id'', case failed_renewal_id i of None \<Rightarrow> VNull | Some r \<Rightarrow> VString r),
     (''paid_until'', VNumber (paid_until i)), (''source_id'', VString (source_id i)), (''starts_at'', VNumber (starts_at i))]"

fun observation_json :: "source_observation \<Rightarrow> jvalue" where
  "observation_json (ObservedComplete source evidence intervals) = VObject [(''evidence_reference'', VString evidence),
     (''paid_intervals'', VArray (map interval_json intervals)), (''source_id'', VString source), (''status'', VString (ascii ''complete''))]"
| "observation_json (ObservedUnavailable source evidence reason) = VObject [(''evidence_reference'', VString evidence),
     (''reason'', VString (ascii (reason_str reason))), (''source_id'', VString source), (''status'', VString (ascii ''unavailable''))]"

definition claim_interval :: "codepoints \<Rightarrow> codepoints list \<times> codepoints list \<Rightarrow> paid_interval \<Rightarrow>
    reconciliation_error + codepoints list \<times> codepoints list" where
  "claim_interval source st i =
     (let (fact_sources, renewal_sources) = st in
      rbind (require (source_id i = source)
        (SourceObservationConflict ''coverage fact source_id does not match its registered source'')) (\<lambda>_.
      rbind (require (coverage_id i \<notin> set fact_sources) (SourceObservationConflict ''coverage_id appears in multiple sources'')) (\<lambda>_.
      case failed_renewal_id i of
        None \<Rightarrow> Inr (coverage_id i # fact_sources, renewal_sources)
      | Some renewal \<Rightarrow>
          rbind (require (renewal \<notin> set renewal_sources)
            (SourceObservationConflict ''failed_renewal_id appears in multiple sources'')) (\<lambda>_.
          Inr (coverage_id i # fact_sources, renewal # renewal_sources)))))"

record collecting =
  cg_seen :: "codepoints list"
  cg_observations :: "jvalue list"
  cg_facts :: "paid_interval list"
  cg_claims :: "codepoints list \<times> codepoints list"
  cg_reason :: "unavailable_reason option"

definition collect_observation :: "codepoints \<Rightarrow> codepoints list \<Rightarrow> collecting \<Rightarrow> source_observation \<Rightarrow> reconciliation_error + collecting" where
  "collect_observation b expected st ob =
     rbind (require (trim (obs_evidence ob) \<noteq> [] \<and> obs_source ob \<in> set expected \<and> obs_source ob \<notin> set (cg_seen st)) SourceBatchMismatch) (\<lambda>_.
     let st = st\<lparr>cg_seen := obs_source ob # cg_seen st\<rparr> in
     case ob of
       ObservedComplete source evidence intervals \<Rightarrow>
         rbind (map_err InvalidObservation (normalise_confirmed_intervals \<lparr>beneficiary_id = b, paid_intervals = intervals\<rparr>)) (\<lambda>normalised.
         rbind (fold_result (claim_interval source) (cg_claims st) normalised) (\<lambda>claims.
         Inr (st\<lparr>cg_claims := claims, cg_facts := cg_facts st @ normalised,
           cg_observations := cg_observations st @ [observation_json (ObservedComplete source evidence normalised)]\<rparr>)))
     | ObservedUnavailable source evidence reason \<Rightarrow>
         Inr (st\<lparr>cg_reason := (if reason = ConflictingEvidence then Some ConflictingEvidence
                              else if cg_reason st = None then Some NeedsReconciliation else cg_reason st),
           cg_observations := cg_observations st @ [observation_json ob]\<rparr>))"

definition json_source :: "jvalue \<Rightarrow> codepoints" where
  "json_source v = (case Option.bind (Option.bind (as_object v) (\<lambda>kvs. map_of kvs ''source_id'')) as_str of None \<Rightarrow> [] | Some s \<Rightarrow> s)"

definition canonical_collection :: "codepoints \<Rightarrow> source_binding list \<Rightarrow> source_observation list \<Rightarrow> codepoints \<Rightarrow>
    reconciliation_error + jvalue \<times> coverage_projection" where
  "canonical_collection b bindings observations evidence =
     rbind (require (length observations = length bindings) SourceBatchMismatch) (\<lambda>_.
     let expected = remdups (map sb_source bindings) in
     rbind (fold_result (collect_observation b expected)
       \<lparr>cg_seen = [], cg_observations = [], cg_facts = [], cg_claims = ([], []), cg_reason = None\<rparr> observations) (\<lambda>st.
     rbind (require (length (cg_seen st) = length expected) SourceBatchMismatch) (\<lambda>_.
     Inr (VObject [(''aggregate_evidence_reference'', VString evidence),
            (''sources'', VArray (sort_key json_source (cg_observations st)))],
          case cg_reason st of
            Some reason \<Rightarrow> Unavailable reason
          | None \<Rightarrow> Complete (sort_key coverage_id (cg_facts st))))))"

section \<open>Stored results\<close>

definition parse_stored_interval :: "jvalue \<Rightarrow> reconciliation_error + paid_interval" where
  "parse_stored_interval v =
     rbind (ok_or (as_object v) (CorruptAttempt ResultShape)) (\<lambda>kvs.
     rbind (require (has_fields kvs [''coverage_id'', ''source_id'', ''starts_at'', ''paid_until'', ''failed_renewal_id'']) (CorruptAttempt ResultShape)) (\<lambda>_.
     rbind (case map_of kvs ''failed_renewal_id'' of
         Some VNull \<Rightarrow> Inr None | Some (VString r) \<Rightarrow> Inr (Some r) | _ \<Rightarrow> Inl (CorruptAttempt ResultShape)) (\<lambda>renewal.
     rbind (stored_string kvs ''coverage_id'' ResultShape) (\<lambda>coverage.
     rbind (stored_string kvs ''source_id'' ResultShape) (\<lambda>source.
     rbind (stored_i64 kvs ''starts_at'') (\<lambda>starts.
     rbind (stored_i64 kvs ''paid_until'') (\<lambda>until.
     Inr \<lparr>coverage_id = coverage, source_id = source, starts_at = starts, paid_until = until, failed_renewal_id = renewal\<rparr>)))))))"

definition parse_stored_observation :: "jvalue \<Rightarrow> reconciliation_error + source_observation" where
  "parse_stored_observation v =
     rbind (ok_or (as_object v) (CorruptAttempt ResultShape)) (\<lambda>kvs.
     rbind (stored_string kvs ''status'' ResultShape) (\<lambda>status.
     rbind (stored_string kvs ''source_id'' ResultShape) (\<lambda>source.
     rbind (stored_string kvs ''evidence_reference'' ResultShape) (\<lambda>evidence.
     if status = ascii ''complete'' then
       rbind (require (length kvs = 4 \<and> map_of kvs ''paid_intervals'' \<noteq> None) (CorruptAttempt ResultShape)) (\<lambda>_.
       rbind (ok_or (Option.bind (map_of kvs ''paid_intervals'') as_array) (CorruptAttempt ResultShape)) (\<lambda>vs.
       rbind (map_result parse_stored_interval vs) (\<lambda>intervals.
       Inr (ObservedComplete source evidence intervals))))
     else if status = ascii ''unavailable'' then
       rbind (require (length kvs = 4 \<and> map_of kvs ''reason'' \<noteq> None) (CorruptAttempt ResultShape)) (\<lambda>_.
       rbind (stored_string kvs ''reason'' ResultShape) (\<lambda>reason.
       if reason = ascii ''needs_reconciliation'' then Inr (ObservedUnavailable source evidence NeedsReconciliation)
       else if reason = ascii ''conflicting_evidence'' then Inr (ObservedUnavailable source evidence ConflictingEvidence)
       else Inl (CorruptAttempt ResultShape)))
     else Inl (CorruptAttempt ResultShape)))))"

definition validate_stored_result :: "collection_ticket \<Rightarrow> codepoints \<Rightarrow> jvalue \<Rightarrow> reconciliation_error + jvalue" where
  "validate_stored_result t evidence v =
     rbind (require (trim evidence \<noteq> []) (CorruptAttempt ResultEvidence)) (\<lambda>_.
     rbind (ok_or (as_object v) (CorruptAttempt ResultShape)) (\<lambda>kvs.
     rbind (require (has_fields kvs [''aggregate_evidence_reference'', ''sources'']) (CorruptAttempt ResultShape)) (\<lambda>_.
     rbind (stored_string kvs ''aggregate_evidence_reference'' ResultShape) (\<lambda>stored.
     rbind (require (stored = evidence \<and> trim stored \<noteq> []) (CorruptAttempt ResultEvidence)) (\<lambda>_.
     rbind (ok_or (Option.bind (map_of kvs ''sources'') as_array) (CorruptAttempt ResultShape)) (\<lambda>vs.
     rbind (map_result parse_stored_observation vs) (\<lambda>observations.
     rbind (map_err (\<lambda>_. CorruptAttempt ResultCanonical)
       (canonical_collection (ct_beneficiary t) (ct_bindings t) observations evidence)) (\<lambda>(canonical, _).
     rbind (require (v = canonical) (CorruptAttempt ResultCanonical)) (\<lambda>_.
     Inr canonical)))))))))"

record completion_receipt =
  sc_evidence :: codepoints
  sc_result :: jvalue
  sc_revision :: int

definition stored_completion_receipt ::
    "collection_status \<Rightarrow> codepoints option \<Rightarrow> jvalue option \<Rightarrow> int option \<Rightarrow>
       reconciliation_error + (codepoints \<times> jvalue \<times> int) option" where
  "stored_completion_receipt status evidence result revision =
     (case (status, evidence, result, revision) of
        (Completed, Some e, Some v, Some n) \<Rightarrow> Inr (Some (e, v, n))
      | (Pending, None, None, None) \<Rightarrow> Inr None
      | (Superseded, None, None, None) \<Rightarrow> Inr None
      | _ \<Rightarrow> Inl (CorruptAttempt CompletionReceipt))"

definition validate_stored_attempt :: "coverage_db \<Rightarrow> collection_ticket \<Rightarrow> attempt_row \<Rightarrow> reconciliation_error + completion_receipt option" where
  "validate_stored_attempt db t r =
     rbind (validate_stored_bindings db t) (\<lambda>_.
     rbind (stored_completion_receipt (ct_status t) (at_evidence r) (at_result r) (at_revision r)) (\<lambda>receipt.
     case receipt of
       None \<Rightarrow> Inr None
     | Some (evidence, v, revision) \<Rightarrow>
         rbind (validate_stored_result t evidence v) (\<lambda>canonical.
         Inr (Some \<lparr>sc_evidence = evidence, sc_result = canonical, sc_revision = revision\<rparr>))))"


section \<open>Registering a source\<close>

text \<open>An operation returns its receipt with the tables to commit, or the error on which its caller rolls back.\<close>

definition publish_in :: "codepoints \<Rightarrow> int option \<Rightarrow> codepoints \<Rightarrow> codepoints \<Rightarrow> coverage_projection \<Rightarrow> coverage_db \<Rightarrow>
    reconciliation_error + publication_receipt \<times> coverage_db" where
  "publish_in b expected op evidence projection db =
     (case publish b expected op evidence projection db of
        (Inl e, _) \<Rightarrow> Inl (StoreFailed e)
      | (Inr receipt, db') \<Rightarrow> Inr (receipt, db'))"

fun projection_outcome :: "publication_outcome \<Rightarrow> registration_outcome" where
  "projection_outcome Applied = RegApplied"
| "projection_outcome AlreadyApplied = RegAlreadyApplied"

definition unavailable_projection :: coverage_projection where
  "unavailable_projection = Unavailable NeedsReconciliation"

definition registration_op :: "codepoints \<Rightarrow> codepoints" where
  "registration_op op = ascii ''source-registration:'' @ op"

definition collection_op :: "codepoints \<Rightarrow> codepoints" where
  "collection_op attempt = ascii ''collection:'' @ attempt"

definition replay_registration :: "source_binding \<Rightarrow> source_row \<Rightarrow> reconciliation_error + registration_receipt" where
  "replay_registration binding r =
     (if sr_binding r = binding then
        rbind (ok_or (sr_revision r) CorruptRegistration) (\<lambda>revision.
        Inr \<lparr>rr_source = sb_source (sr_binding r), rr_generation = sr_generation r, rr_revision = Some revision,
             rr_outcome = RegAlreadyApplied\<rparr>)
      else Inl RegistrationConflict)"

definition new_source :: "codepoints \<Rightarrow> source_binding \<Rightarrow> int \<Rightarrow> source_row" where
  "new_source op binding generation =
     \<lparr>sr_binding = binding, sr_operation = op, sr_generation = generation, sr_revision = None\<rparr>"

definition add_source :: "codepoints \<Rightarrow> source_binding \<Rightarrow> int \<Rightarrow> int option \<Rightarrow> coverage_db \<Rightarrow> reconciliation_error + registration_receipt \<times> coverage_db" where
  "add_source op binding generation expected db =
     (let b = sb_beneficiary binding in
      rbind (ok_or (checked_add generation 1) GenerationOverflow) (\<lambda>next.
      rbind (insert_source (new_source op binding next) db) (\<lambda>db.
      let db = supersede (\<lambda>r. at_beneficiary r = b) db;
          db = update_coordinator b (\<lambda>c. c\<lparr>co_generation := next, co_attempt := None\<rparr>) db in
      rbind (publish_in b expected (registration_op op) (sb_evidence binding) unavailable_projection db) (\<lambda>(publication, db).
      rbind (require (sql_count (\<lambda>r. sb_source (sr_binding r) = sb_source binding) (sources db) = 1) CorruptRegistration) (\<lambda>_.
      Inr (\<lparr>rr_source = sb_source binding, rr_generation = next, rr_revision = Some (pr_revision publication),
            rr_outcome = projection_outcome (pr_outcome publication)\<rparr>,
           db\<lparr>sources := sql_update (\<lambda>r. sb_source (sr_binding r) = sb_source binding)
             (\<lambda>r. r\<lparr>sr_revision := Some (pr_revision publication)\<rparr>) (sources db)\<rparr>))))))"

definition register_source :: "codepoints \<Rightarrow> source_binding \<Rightarrow> coverage_db \<Rightarrow> reconciliation_error + registration_receipt \<times> coverage_db" where
  "register_source op binding db =
     (let b = sb_beneficiary binding in
      rbind (require (trim op \<noteq> []) EmptyRegistrationId) (\<lambda>_.
      rbind (validate_binding binding) (\<lambda>_.
      rbind (map_err StoreFailed (current_revision b db)) (\<lambda>existing.
      rbind (require (sql_exists (\<lambda>c. co_beneficiary c = b) (coordinators db) \<or> existing = None) BootstrapConflict) (\<lambda>_.
      rbind (insert_coordinator b db) (\<lambda>db.
      rbind (ok_or (find_coordinator db b) (ReconciliationDb ''row not found'')) (\<lambda>c.
      rbind (map_err StoreFailed (current_revision b db)) (\<lambda>expected.
      rbind (require (\<not> (co_generation c = 0 \<and> expected \<noteq> None)) BootstrapConflict) (\<lambda>_.
      case sql_find (\<lambda>r. sb_beneficiary (sr_binding r) = b \<and> sr_operation r = op) (sources db) of
        Some r \<Rightarrow> rbind (replay_registration binding r) (\<lambda>receipt. Inr (receipt, db))
      | None \<Rightarrow>
          rbind (require (\<not> sql_exists (\<lambda>r. sb_source (sr_binding r) = sb_source binding) (sources db) \<and>
              \<not> sql_exists (\<lambda>r. sb_namespace (sr_binding r) = sb_namespace binding \<and>
                  sb_allocation (sr_binding r) = sb_allocation binding) (sources db)) SourceBindingConflict) (\<lambda>_.
          add_source op binding (co_generation c) expected db))))))))))"

section \<open>Collecting\<close>

definition find_attempt :: "coverage_db \<Rightarrow> codepoints \<Rightarrow> codepoints \<Rightarrow> attempt_row option" where
  "find_attempt db b attempt = sql_find (\<lambda>r. at_beneficiary r = b \<and> at_id r = attempt) (attempts db)"

definition start_attempt :: "codepoints \<Rightarrow> codepoints \<Rightarrow> coordinator \<Rightarrow> coverage_db \<Rightarrow> reconciliation_error + collection_ticket \<times> coverage_db" where
  "start_attempt b attempt c db =
     (let bindings = bindings_of (\<lambda>r. sb_beneficiary (sr_binding r) = b) db in
      rbind (require (bindings \<noteq> [] \<and> co_generation c \<noteq> 0) NoSources) (\<lambda>_.
      rbind (map_err StoreFailed (current_revision b db)) (\<lambda>expected.
      rbind (ok_or (checked_add (co_epoch c) 1) EpochOverflow) (\<lambda>epoch.
      let db = (case co_attempt c of
          None \<Rightarrow> db
        | Some previous \<Rightarrow> supersede (\<lambda>r. at_beneficiary r = b \<and> at_id r = previous) db) in
      rbind (insert_attempt \<lparr>at_id = attempt, at_beneficiary = b, at_epoch = epoch, at_generation = co_generation c,
        at_expected = expected, at_bindings = VArray (map binding_json bindings), at_status = ''pending'',
        at_evidence = None, at_result = None, at_revision = None\<rparr> db) (\<lambda>db.
      Inr (\<lparr>ct_beneficiary = b, ct_attempt = attempt, ct_epoch = epoch, ct_generation = co_generation c,
            ct_expected = expected, ct_bindings = bindings, ct_status = Pending, ct_completed = None\<rparr>,
           update_coordinator b (\<lambda>c. c\<lparr>co_epoch := epoch, co_attempt := Some attempt\<rparr>) db))))))"

definition begin_collection :: "codepoints \<Rightarrow> codepoints \<Rightarrow> coverage_db \<Rightarrow> reconciliation_error + collection_ticket \<times> coverage_db" where
  "begin_collection b attempt db =
     rbind (require_text b ''beneficiary_id'') (\<lambda>_.
     rbind (require (trim attempt \<noteq> []) EmptyAttemptId) (\<lambda>_.
     rbind (ok_or (find_coordinator db b) NoSources) (\<lambda>c.
     case find_attempt db b attempt of
       Some r \<Rightarrow>
         rbind (collection_ticket_from_row r) (\<lambda>t.
         rbind (validate_stored_attempt db t r) (\<lambda>_.
         Inr (t, db)))
     | None \<Rightarrow> start_attempt b attempt c db)))"

definition complete_attempt :: "codepoints \<Rightarrow> codepoints \<Rightarrow> codepoints \<Rightarrow> jvalue \<Rightarrow> int \<Rightarrow> coverage_db \<Rightarrow> reconciliation_error + coverage_db" where
  "complete_attempt b attempt evidence canonical revision db =
     (let p = (\<lambda>r. at_beneficiary r = b \<and> at_id r = attempt \<and> at_status r = ''pending'');
          f = (\<lambda>r. r\<lparr>at_status := ''completed'', at_evidence := Some evidence, at_result := Some canonical, at_revision := Some revision\<rparr>) in
      rbind (require (list_all (\<lambda>r. p r \<longrightarrow> attempt_checks (f r)) (attempts db)) (ReconciliationDb ''check violation'')) (\<lambda>_.
      rbind (require (sql_count p (attempts db) = 1) CollectionConflict) (\<lambda>_.
      Inr (db\<lparr>attempts := sql_update p f (attempts db)\<rparr>))))"

definition same_ticket :: "collection_ticket \<Rightarrow> collection_ticket \<Rightarrow> bool" where
  "same_ticket stored t \<longleftrightarrow> ct_beneficiary stored = ct_beneficiary t \<and> ct_epoch stored = ct_epoch t \<and>
     ct_generation stored = ct_generation t \<and> ct_expected stored = ct_expected t \<and> ct_bindings stored = ct_bindings t"

definition replay_completion :: "collection_ticket \<Rightarrow> codepoints \<Rightarrow> source_observation list \<Rightarrow> completion_receipt option \<Rightarrow>
    reconciliation_error + reconciliation_receipt" where
  "replay_completion t evidence observations completion =
     rbind (map_err (\<lambda>_. OperationConflict) (canonical_collection (ct_beneficiary t) (ct_bindings t) observations evidence)) (\<lambda>(canonical, _).
     rbind (ok_or completion (CorruptAttempt CompletionReceipt)) (\<lambda>stored.
     if sc_evidence stored = evidence \<and> sc_result stored = canonical
     then Inr \<lparr>rc_attempt = ct_attempt t, rc_revision = sc_revision stored, rc_outcome = AlreadyApplied\<rparr>
     else Inl OperationConflict))"

definition commit_collection :: "collection_ticket \<Rightarrow> codepoints \<Rightarrow> source_observation list \<Rightarrow> coordinator \<Rightarrow> coverage_db \<Rightarrow>
    reconciliation_error + reconciliation_receipt \<times> coverage_db" where
  "commit_collection t evidence observations c db =
     rbind (require_text evidence ''aggregate_evidence_reference'') (\<lambda>_.
     rbind (canonical_collection (ct_beneficiary t) (ct_bindings t) observations evidence) (\<lambda>(canonical, projection).
     rbind (require (co_attempt c = Some (ct_attempt t) \<and> co_generation c = ct_generation t \<and> co_epoch c = ct_epoch t) CollectionConflict) (\<lambda>_.
     rbind (map_err StoreFailed (current_revision (ct_beneficiary t) db)) (\<lambda>actual.
     rbind (require (actual = ct_expected t) (StoreFailed (RevisionConflict (ct_expected t) actual))) (\<lambda>_.
     rbind (publish_in (ct_beneficiary t) (ct_expected t) (collection_op (ct_attempt t)) evidence projection db) (\<lambda>(publication, db).
     rbind (complete_attempt (ct_beneficiary t) (ct_attempt t) evidence canonical (pr_revision publication) db) (\<lambda>db.
     Inr (\<lparr>rc_attempt = ct_attempt t, rc_revision = pr_revision publication, rc_outcome = pr_outcome publication\<rparr>,
          db\<lparr>coordinators := sql_update (\<lambda>c. co_beneficiary c = ct_beneficiary t \<and> co_attempt c = Some (ct_attempt t))
            (\<lambda>c. c\<lparr>co_attempt := None\<rparr>) (coordinators db)\<rparr>))))))))"

definition finish_collection :: "collection_ticket \<Rightarrow> codepoints \<Rightarrow> source_observation list \<Rightarrow> coverage_db \<Rightarrow>
    reconciliation_error + reconciliation_receipt \<times> coverage_db" where
  "finish_collection t evidence observations db =
     rbind (require_text (ct_beneficiary t) ''beneficiary_id'') (\<lambda>_.
     rbind (require (trim (ct_attempt t) \<noteq> []) EmptyAttemptId) (\<lambda>_.
     rbind (ok_or (find_coordinator db (ct_beneficiary t)) NoSources) (\<lambda>c.
     rbind (ok_or (find_attempt db (ct_beneficiary t) (ct_attempt t)) AttemptMissing) (\<lambda>r.
     rbind (collection_ticket_from_row r) (\<lambda>stored.
     rbind (validate_stored_attempt db stored r) (\<lambda>completion.
     rbind (require (same_ticket stored t) CollectionConflict) (\<lambda>_.
     case ct_status stored of
       Completed \<Rightarrow> rbind (replay_completion t evidence observations completion) (\<lambda>receipt. Inr (receipt, db))
     | Superseded \<Rightarrow> Inl AttemptSuperseded
     | Pending \<Rightarrow> commit_collection t evidence observations c db)))))))"

end
