(* ===== verification/Coverage_Canonical.thy ===== *)
theory Coverage_Canonical
  imports Coverage_Reconciliation
begin

text \<open>
  The canonical form of a collection: which batches of observations it accepts, that neither their
  order nor the order or repetition of their facts matters, what it publishes, and that the stored
  form reads back as itself.
\<close>

section \<open>What is accepted\<close>

fun intervals_of :: "codepoints \<Rightarrow> source_observation \<Rightarrow> reconciliation_error + paid_interval list" where
  "intervals_of b (ObservedComplete source evidence intervals) =
     map_err InvalidObservation (normalise_confirmed_intervals \<lparr>beneficiary_id = b, paid_intervals = intervals\<rparr>)"
| "intervals_of b (ObservedUnavailable source evidence reason) = Inr []"

definition facts_of :: "codepoints \<Rightarrow> source_observation \<Rightarrow> paid_interval list" where
  "facts_of b ob = (case intervals_of b ob of Inl e \<Rightarrow> [] | Inr l \<Rightarrow> l)"

fun canonical_observation :: "codepoints \<Rightarrow> source_observation \<Rightarrow> source_observation" where
  "canonical_observation b (ObservedComplete source evidence intervals) =
     ObservedComplete source evidence (facts_of b (ObservedComplete source evidence intervals))"
| "canonical_observation b (ObservedUnavailable source evidence reason) = ObservedUnavailable source evidence reason"

fun unavailable :: "source_observation \<Rightarrow> unavailable_reason option" where
  "unavailable (ObservedComplete _ _ _) = None"
| "unavailable (ObservedUnavailable _ _ reason) = Some reason"

definition renewals :: "paid_interval list \<Rightarrow> codepoints list" where
  "renewals is = concat (map (\<lambda>i. case failed_renewal_id i of None \<Rightarrow> [] | Some r \<Rightarrow> [r]) is)"

definition acceptable_observation :: "codepoints \<Rightarrow> codepoints list \<Rightarrow> source_observation \<Rightarrow> bool" where
  "acceptable_observation b expected ob \<longleftrightarrow> trim (obs_evidence ob) \<noteq> [] \<and> obs_source ob \<in> set expected \<and>
     (\<exists>l. intervals_of b ob = Inr l) \<and> (\<forall>i \<in> set (facts_of b ob). source_id i = obs_source ob)"

text \<open>The facts of a list of observations, and the reason that none of them may be published.\<close>

definition all_facts :: "codepoints \<Rightarrow> source_observation list \<Rightarrow> paid_interval list" where
  "all_facts b obs = concat (map (facts_of b) obs)"

definition reason_of :: "source_observation list \<Rightarrow> unavailable_reason option" where
  "reason_of obs =
     (if Some ConflictingEvidence \<in> unavailable ` set obs then Some ConflictingEvidence
      else if Some NeedsReconciliation \<in> unavailable ` set obs then Some NeedsReconciliation else None)"

definition acceptable :: "codepoints \<Rightarrow> source_binding list \<Rightarrow> source_observation list \<Rightarrow> bool" where
  "acceptable b bindings obs \<longleftrightarrow> length obs = length bindings \<and> distinct (map obs_source obs) \<and>
     length obs = length (remdups (map sb_source bindings)) \<and>
     (\<forall>ob \<in> set obs. acceptable_observation b (map sb_source bindings) ob) \<and>
     distinct (map coverage_id (all_facts b obs)) \<and> distinct (renewals (all_facts b obs))"

definition collection_json :: "codepoints \<Rightarrow> source_observation list \<Rightarrow> codepoints \<Rightarrow> jvalue" where
  "collection_json b obs evidence = VObject [(''aggregate_evidence_reference'', VString evidence),
     (''sources'', VArray (map observation_json (sort_key obs_source (map (canonical_observation b) obs))))]"

definition collection_projection :: "codepoints \<Rightarrow> source_observation list \<Rightarrow> coverage_projection" where
  "collection_projection b obs =
     (case reason_of obs of Some reason \<Rightarrow> Unavailable reason | None \<Rightarrow> Complete (sort_key coverage_id (all_facts b obs)))"

lemma renewals_simps [simp]:
  "renewals [] = []"
  "renewals (i # is) = (case failed_renewal_id i of None \<Rightarrow> [] | Some r \<Rightarrow> [r]) @ renewals is"
  "renewals (is @ js) = renewals is @ renewals js"
  by (simp_all add: renewals_def)

lemma canonical_observation_simps [simp]:
  "obs_source (canonical_observation b ob) = obs_source ob"
  "obs_evidence (canonical_observation b ob) = obs_evidence ob"
  "unavailable (canonical_observation b ob) = unavailable ob"
  by (cases ob; simp)+

section \<open>The loops\<close>

lemma claim_intervals:
  "fold_result (claim_interval source) (ids, rens) is = Inr st \<longleftrightarrow>
     (\<forall>i \<in> set is. source_id i = source) \<and> distinct (map coverage_id is) \<and> set (map coverage_id is) \<inter> set ids = {} \<and>
     distinct (renewals is) \<and> set (renewals is) \<inter> set rens = {} \<and>
     st = (rev (map coverage_id is) @ ids, rev (renewals is) @ rens)"
proof (induction "is" arbitrary: ids rens)
  case Nil
  then show ?case by auto
next
  case (Cons i "is")
  then show ?case
    by (cases "failed_renewal_id i") (auto simp: claim_interval_def rbind_eq_Inr_iff)
qed

definition worst :: "unavailable_reason option \<Rightarrow> unavailable_reason option \<Rightarrow> unavailable_reason option" where
  "worst r s = (if r = Some ConflictingEvidence \<or> s = Some ConflictingEvidence then Some ConflictingEvidence
     else if r = None then s else r)"

lemma collect_step:
  "collect_observation b expected st ob = Inr st' \<longleftrightarrow>
     acceptable_observation b expected ob \<and> obs_source ob \<notin> set (cg_seen st) \<and>
     distinct (map coverage_id (facts_of b ob)) \<and> set (map coverage_id (facts_of b ob)) \<inter> set (fst (cg_claims st)) = {} \<and>
     distinct (renewals (facts_of b ob)) \<and> set (renewals (facts_of b ob)) \<inter> set (snd (cg_claims st)) = {} \<and>
     st' = \<lparr>cg_seen = obs_source ob # cg_seen st,
       cg_observations = cg_observations st @ [observation_json (canonical_observation b ob)],
       cg_facts = cg_facts st @ facts_of b ob,
       cg_claims = (rev (map coverage_id (facts_of b ob)) @ fst (cg_claims st), rev (renewals (facts_of b ob)) @ snd (cg_claims st)),
       cg_reason = worst (cg_reason st) (unavailable ob)\<rparr>"
proof (cases ob)
  case (ObservedComplete source evidence intervals)
  then show ?thesis
    by (cases st) (auto simp: collect_observation_def Let_def rbind_eq_Inr_iff claim_intervals acceptable_observation_def facts_of_def worst_def disjoint_iff)
next
  case (ObservedUnavailable source evidence reason)
  then show ?thesis
    by (cases st; cases reason) (auto simp: collect_observation_def Let_def rbind_eq_Inr_iff acceptable_observation_def facts_of_def worst_def)
qed

lemma collect_all:
  "fold_result (collect_observation b expected) st obs = Inr st' \<longleftrightarrow>
     (\<forall>ob \<in> set obs. acceptable_observation b expected ob) \<and> distinct (map obs_source obs) \<and>
     set (map obs_source obs) \<inter> set (cg_seen st) = {} \<and>
     distinct (map coverage_id (all_facts b obs)) \<and> set (map coverage_id (all_facts b obs)) \<inter> set (fst (cg_claims st)) = {} \<and>
     distinct (renewals (all_facts b obs)) \<and> set (renewals (all_facts b obs)) \<inter> set (snd (cg_claims st)) = {} \<and>
     st' = \<lparr>cg_seen = rev (map obs_source obs) @ cg_seen st,
       cg_observations = cg_observations st @ map (\<lambda>ob. observation_json (canonical_observation b ob)) obs,
       cg_facts = cg_facts st @ all_facts b obs,
       cg_claims = (rev (map coverage_id (all_facts b obs)) @ fst (cg_claims st), rev (renewals (all_facts b obs)) @ snd (cg_claims st)),
       cg_reason = foldl worst (cg_reason st) (map unavailable obs)\<rparr>"
proof (induction obs arbitrary: st)
  case Nil
  then show ?case by (cases st) (auto simp: all_facts_def)
next
  case (Cons ob obs)
  have facts: "all_facts b (ob # obs) = facts_of b ob @ all_facts b obs" by (simp add: all_facts_def)
  show ?case
    unfolding fold_result.simps rbind_eq_Inr_iff collect_step Cons.IH facts
    by (auto simp: collecting.simps)
qed


lemma worst_fold: "foldl worst None (map unavailable obs) = reason_of obs"
proof (induction obs rule: rev_induct)
  case (snoc ob obs)
  have "foldl worst None (map unavailable (obs @ [ob])) = worst (reason_of obs) (unavailable ob)" using snoc by simp
  also have "\<dots> = reason_of (obs @ [ob])"
    by (cases "unavailable ob"; cases "the (unavailable ob)") (auto simp: worst_def reason_of_def)
  finally show ?case .
qed (simp add: reason_of_def)

lemma json_source_observation [simp]: "json_source (observation_json ob) = obs_source ob"
  by (cases ob) (simp_all add: json_source_def)

lemma insort_key_map: "insort_key f (g x) (map g xs) = map g (insort_key (\<lambda>y. f (g y)) x xs)"
  by (induction xs) auto

lemma sort_key_map: "sort_key f (map g xs) = map g (sort_key (\<lambda>y. f (g y)) xs)"
  by (induction xs) (simp_all add: insort_key_map)

lemma all_facts_source:
  "\<forall>ob \<in> set obs. acceptable_observation b expected ob \<Longrightarrow> i \<in> set (all_facts b obs) \<Longrightarrow> \<exists>ob \<in> set obs. i \<in> set (facts_of b ob) \<and> source_id i = obs_source ob"
  by (auto simp: all_facts_def acceptable_observation_def)

text \<open>The code's single pass in closed form.\<close>

lemma canonical_collection_iff:
  "canonical_collection b bindings obs evidence = Inr x \<longleftrightarrow>
     acceptable b bindings obs \<and> x = (collection_json b obs evidence, collection_projection b obs)"
proof -
  let ?expected = "remdups (map sb_source bindings)"
  have sort: "sort_key json_source (map (\<lambda>ob. observation_json (canonical_observation b ob)) obs) =
      map observation_json (sort_key obs_source (map (canonical_observation b) obs))"
    by (simp add: sort_key_map)
  have seen: "acceptable_observation b ?expected = acceptable_observation b (map sb_source bindings)"
    by (simp add: acceptable_observation_def fun_eq_iff)
  show ?thesis
    unfolding canonical_collection_def Let_def rbind_eq_Inr_iff collect_all collecting.simps worst_fold seen
    by (cases "reason_of obs") (auto simp: acceptable_def collection_json_def collection_projection_def sort worst_fold)
qed

section \<open>Order and repetition\<close>

lemma mset_concat_map: "mset (concat (map f xs)) = (\<Sum>x \<in># mset xs. mset (f x))"
  by (induction xs) simp_all

lemma mset_all_facts: "mset obs = mset obs' \<Longrightarrow> mset (all_facts b obs) = mset (all_facts b obs')"
  by (simp add: all_facts_def mset_concat_map)

lemma mset_renewals: "mset is = mset js \<Longrightarrow> mset (renewals is) = mset (renewals js)"
  by (simp add: renewals_def mset_concat_map)

lemma distinct_permuted: "mset xs = mset ys \<Longrightarrow> distinct (map f xs) \<longleftrightarrow> distinct (map f ys)"
  by (metis mset_map mset_eq_imp_distinct_iff)

lemma acceptable_permuted:
  assumes "mset obs = mset obs'" and "acceptable b bindings obs"
  shows "acceptable b bindings obs'"
proof -
  note m = mset_all_facts [OF assms(1), of b]
  have "distinct (map obs_source obs')" "distinct (map coverage_id (all_facts b obs'))" "distinct (renewals (all_facts b obs'))"
    using assms(2) distinct_permuted [OF assms(1), of obs_source] distinct_permuted [OF m, of coverage_id] mset_eq_imp_distinct_iff [OF mset_renewals [OF m]]
    by (simp_all add: acceptable_def)
  with assms(2) mset_eq_length [OF assms(1)] mset_eq_setD [OF assms(1)] show ?thesis by (simp add: acceptable_def)
qed

lemma collection_permuted:
  assumes "mset obs = mset obs'" and "acceptable b bindings obs"
  shows "collection_json b obs' evidence = collection_json b obs evidence" and "collection_projection b obs' = collection_projection b obs"
proof -
  have set: "set obs' = set obs" using assms(1) by (metis mset_eq_setD)
  have "mset (map (canonical_observation b) obs') = mset (map (canonical_observation b) obs)" using assms(1) by (metis mset_map)
  moreover have "inj_on obs_source (set (map (canonical_observation b) obs'))"
    using acceptable_permuted [OF assms] by (auto simp: acceptable_def distinct_map inj_on_def)
  ultimately have "sort_key obs_source (map (canonical_observation b) obs') = sort_key obs_source (map (canonical_observation b) obs)"
    by (rule sort_key_eq_sort_key)
  then show "collection_json b obs' evidence = collection_json b obs evidence" by (simp add: collection_json_def)
  have "inj_on coverage_id (set (all_facts b obs'))"
    using acceptable_permuted [OF assms] by (simp add: acceptable_def distinct_map)
  then have "sort_key coverage_id (all_facts b obs') = sort_key coverage_id (all_facts b obs)"
    using mset_all_facts [OF assms(1)] by (intro sort_key_eq_sort_key) auto
  then show "collection_projection b obs' = collection_projection b obs"
    by (simp add: collection_projection_def reason_of_def set)
qed

text \<open>Observing a source again with the same facts in another order, or with some of them repeated,
  is the same observation.\<close>

fun same_observation :: "source_observation \<Rightarrow> source_observation \<Rightarrow> bool" where
  "same_observation (ObservedComplete s e is) (ObservedComplete s' e' is') \<longleftrightarrow> s' = s \<and> e' = e \<and> set is' = set is"
| "same_observation (ObservedUnavailable s e r) (ObservedUnavailable s' e' r') \<longleftrightarrow> s' = s \<and> e' = e \<and> r' = r"
| "same_observation _ _ \<longleftrightarrow> False"

lemma same_intervals:
  assumes "set is' = set is"
  shows "(\<exists>l. normalise_confirmed_intervals \<lparr>beneficiary_id = b, paid_intervals = is'\<rparr> = Inr l \<and>
      normalise_confirmed_intervals \<lparr>beneficiary_id = b, paid_intervals = is\<rparr> = Inr l) \<or>
    (\<exists>e e'. normalise_confirmed_intervals \<lparr>beneficiary_id = b, paid_intervals = is'\<rparr> = Inl e' \<and>
      normalise_confirmed_intervals \<lparr>beneficiary_id = b, paid_intervals = is\<rparr> = Inl e)"
proof -
  note cong = normalise_cong [of "\<lparr>beneficiary_id = b, paid_intervals = is\<rparr>" _ "\<lparr>beneficiary_id = b, paid_intervals = is'\<rparr>"]
    normalise_cong [of "\<lparr>beneficiary_id = b, paid_intervals = is'\<rparr>" _ "\<lparr>beneficiary_id = b, paid_intervals = is\<rparr>"]
  show ?thesis
    using cong assms
    by (cases "normalise_confirmed_intervals \<lparr>beneficiary_id = b, paid_intervals = is\<rparr>";
        cases "normalise_confirmed_intervals \<lparr>beneficiary_id = b, paid_intervals = is'\<rparr>") auto
qed

lemma same_observation:
  assumes "same_observation ob ob'"
  shows "canonical_observation b ob' = canonical_observation b ob" and "obs_source ob' = obs_source ob"
    and "acceptable_observation b expected ob' = acceptable_observation b expected ob"
    and "unavailable ob' = unavailable ob" and "facts_of b ob' = facts_of b ob"
proof -
  have all: "canonical_observation b ob' = canonical_observation b ob \<and> obs_source ob' = obs_source ob \<and>
      acceptable_observation b expected ob' = acceptable_observation b expected ob \<and>
      unavailable ob' = unavailable ob \<and> facts_of b ob' = facts_of b ob"
  proof (cases ob)
    case (ObservedComplete s e "is")
    with assms obtain is' where ob': "ob' = ObservedComplete s e is'" "set is' = set is" by (cases ob') auto
    from same_intervals [OF ob'(2), of b] show ?thesis
      by (auto simp: ObservedComplete ob'(1) facts_of_def acceptable_observation_def)
  next
    case (ObservedUnavailable s e r)
    with assms show ?thesis by (cases ob') auto
  qed
  then show "canonical_observation b ob' = canonical_observation b ob" and "obs_source ob' = obs_source ob"
    and "acceptable_observation b expected ob' = acceptable_observation b expected ob"
    and "unavailable ob' = unavailable ob" and "facts_of b ob' = facts_of b ob" by blast+
qed

lemma map_same:
  assumes "list_all2 same_observation obs obs'" and "\<And>ob ob'. same_observation ob ob' \<Longrightarrow> f ob' = f ob"
  shows "map f obs' = map f obs"
  using assms(1) by (induction rule: list_all2_induct) (simp_all add: assms(2))

lemma same_observations:
  assumes "list_all2 same_observation obs obs'"
  shows "acceptable b bindings obs' = acceptable b bindings obs" and "collection_json b obs' evidence = collection_json b obs evidence"
    and "collection_projection b obs' = collection_projection b obs"
proof -
  note m = map_same [OF assms]
  have facts: "all_facts b obs' = all_facts b obs" unfolding all_facts_def by (simp add: m [OF same_observation(5)])
  have "(\<forall>ob \<in> set obs'. acceptable_observation b e ob) = (\<forall>ob \<in> set obs. acceptable_observation b e ob)" for e
    using arg_cong [OF m [of "acceptable_observation b e", OF same_observation(3)], of "\<lambda>xs. \<forall>x \<in> set xs. x"] by simp
  then show "acceptable b bindings obs' = acceptable b bindings obs"
    using list_all2_lengthD [OF assms] m [of obs_source, OF same_observation(2)] by (simp add: acceptable_def facts)
  show "collection_json b obs' evidence = collection_json b obs evidence"
    by (simp add: collection_json_def m [OF same_observation(1)])
  have "unavailable ` set obs' = unavailable ` set obs"
    using arg_cong [OF m [of unavailable, OF same_observation(4)], of set] by simp
  then show "collection_projection b obs' = collection_projection b obs"
    by (simp add: collection_projection_def reason_of_def facts)
qed

text \<open>What a collection publishes and stores depends on what the sources said, not on how they
  were asked: with the observations in another order, and the facts of any source in another order
  or repeated, the stored result and the projection are the same.\<close>

theorem collection_ignores_order:
  assumes "canonical_collection b bindings obs evidence = Inr x"
    and "list_all2 same_observation obs obs'" and "mset obs' = mset obs''"
  shows "canonical_collection b bindings obs'' evidence = Inr x"
proof -
  have "acceptable b bindings obs'" and x: "x = (collection_json b obs' evidence, collection_projection b obs')"
    using assms(1) unfolding canonical_collection_iff same_observations [OF assms(2)] by simp_all
  with acceptable_permuted [OF assms(3), of b bindings] collection_permuted [OF assms(3), of b bindings] show ?thesis
    unfolding canonical_collection_iff by simp
qed


section \<open>Stored forms read back\<close>

lemma parse_stored_interval_json:
  assumes "in_i64 (starts_at i)" and "in_i64 (paid_until i)"
  shows "parse_stored_interval (interval_json i) = Inr i"
  using assms by (cases "failed_renewal_id i")
    (simp_all add: parse_stored_interval_def interval_json_def has_fields_def stored_string_def stored_i64_def checked_i64_def)

lemma ascii_inject [simp]: "ascii s = ascii t \<longleftrightarrow> s = t"
  by (auto simp: ascii_def inj_map_eq_map inj_def)

text \<open>Timestamps of the program are \<open>i64\<close> values.\<close>

definition storable :: "source_observation \<Rightarrow> bool" where
  "storable ob = (case ob of ObservedComplete s e is \<Rightarrow> \<forall>i \<in> set is. in_i64 (starts_at i) \<and> in_i64 (paid_until i) | _ \<Rightarrow> True)"

lemma parse_stored_observation_json: "storable ob \<Longrightarrow> parse_stored_observation (observation_json ob) = Inr ob"
proof (cases ob)
  case (ObservedComplete s e "is")
  assume "storable ob"
  then have "list_all2 (\<lambda>x y. parse_stored_interval x = Inr y) (map interval_json is) is"
    by (simp add: list_all2_map1 list_all2_same storable_def ObservedComplete parse_stored_interval_json)
  then have "map_result parse_stored_interval (map interval_json is) = Inr is" by (simp add: map_result_Inr_iff)
  then show ?thesis by (simp add: ObservedComplete parse_stored_observation_def stored_string_def)
next
  case (ObservedUnavailable s e r)
  then show ?thesis by (cases r) (simp_all add: parse_stored_observation_def stored_string_def)
qed

lemma parse_binding_json:
  assumes "validate_binding s = Inr ()" and "sb_beneficiary s = b"
  shows "parse_binding b (binding_json s) = Inr s"
  using assms by (cases s) (simp add: parse_binding_def binding_json_def has_fields_def stored_string_def Let_def)

lemma canonical_idempotent:
  assumes "acceptable_observation b e ob"
  shows "canonical_observation b (canonical_observation b ob) = canonical_observation b ob"
    and "facts_of b (canonical_observation b ob) = facts_of b ob"
    and "acceptable_observation b e (canonical_observation b ob)"
proof -
  have all: "canonical_observation b (canonical_observation b ob) = canonical_observation b ob \<and>
      facts_of b (canonical_observation b ob) = facts_of b ob \<and> acceptable_observation b e (canonical_observation b ob)"
  proof (cases ob)
    case (ObservedComplete s ev "is")
    then obtain l where "normalise_confirmed_intervals \<lparr>beneficiary_id = b, paid_intervals = is\<rparr> = Inr l"
      using assms by (auto simp: acceptable_observation_def)
    moreover from normalise_again [OF this]
    have "normalise_confirmed_intervals \<lparr>beneficiary_id = b, paid_intervals = l\<rparr> = Inr l" .
    ultimately show ?thesis using assms by (simp add: ObservedComplete facts_of_def acceptable_observation_def)
  next
    case (ObservedUnavailable s ev r)
    with assms show ?thesis by simp
  qed
  then show "canonical_observation b (canonical_observation b ob) = canonical_observation b ob"
    and "facts_of b (canonical_observation b ob) = facts_of b ob" and "acceptable_observation b e (canonical_observation b ob)" by blast+
qed

text \<open>The observations that a stored result lists.\<close>

definition stored_observations :: "codepoints \<Rightarrow> source_observation list \<Rightarrow> source_observation list" where
  "stored_observations b obs = sort_key obs_source (map (canonical_observation b) obs)"

lemma stored_observations_again:
  assumes "acceptable b bindings obs"
  shows "acceptable b bindings (stored_observations b obs)"
    and "collection_json b (stored_observations b obs) evidence = collection_json b obs evidence"
    and "collection_projection b (stored_observations b obs) = collection_projection b obs"
proof -
  let ?canon = "map (canonical_observation b) obs"
  note canon = canonical_idempotent [of b "map sb_source bindings"]
  have ok: "acceptable_observation b (map sb_source bindings) ob" if "ob \<in> set obs" for ob
    using assms that by (simp add: acceptable_def)
  have facts: "all_facts b ?canon = all_facts b obs"
    unfolding all_facts_def map_map by (rule arg_cong [of _ _ concat]) (use canon(2) ok in auto)
  have again: "map (canonical_observation b) ?canon = ?canon" using canon(1) ok by simp
  have src: "map obs_source ?canon = map obs_source obs" by simp
  have acc: "acceptable b bindings ?canon"
    using assms ok canon(3) unfolding acceptable_def facts src by simp
  have m: "mset ?canon = mset (stored_observations b obs)" by (simp add: stored_observations_def)
  show "acceptable b bindings (stored_observations b obs)" by (rule acceptable_permuted [OF m acc])
  note p = collection_permuted [OF m acc]
  show "collection_json b (stored_observations b obs) evidence = collection_json b obs evidence"
    unfolding p(1) by (simp only: collection_json_def again)
  have "unavailable ` set ?canon = unavailable ` set obs" by (simp add: image_image)
  then show "collection_projection b (stored_observations b obs) = collection_projection b obs"
    unfolding p(2) by (simp only: collection_projection_def reason_of_def facts)
qed


lemma storable_canonical:
  assumes "acceptable_observation b e ob" and "storable ob"
  shows "storable (canonical_observation b ob)"
proof (cases ob)
  case (ObservedComplete s ev "is")
  with assms(1) obtain l where "normalise_confirmed_intervals \<lparr>beneficiary_id = b, paid_intervals = is\<rparr> = Inr l"
    by (auto simp: acceptable_observation_def)
  with normalise_Inr(1) [OF this] assms(2) show ?thesis by (simp add: ObservedComplete facts_of_def storable_def)
qed (use assms(2) in simp)

lemma collection_reads_back:
  assumes "acceptable b bindings obs" and "\<forall>ob \<in> set obs. storable ob"
  shows "map_result parse_stored_observation (map observation_json (stored_observations b obs)) = Inr (stored_observations b obs)"
    and "canonical_collection b bindings (stored_observations b obs) evidence =
      Inr (collection_json b obs evidence, collection_projection b obs)"
    and "collection_json b obs evidence = VObject [(''aggregate_evidence_reference'', VString evidence),
      (''sources'', VArray (map observation_json (stored_observations b obs)))]"
proof -
  have "\<forall>ob \<in> set (stored_observations b obs). parse_stored_observation (observation_json ob) = Inr ob"
    using assms by (auto simp: stored_observations_def acceptable_def intro!: parse_stored_observation_json storable_canonical)
  then show "map_result parse_stored_observation (map observation_json (stored_observations b obs)) = Inr (stored_observations b obs)"
    by (simp add: map_result_Inr_iff list_all2_map1 list_all2_same)
  show "canonical_collection b bindings (stored_observations b obs) evidence =
      Inr (collection_json b obs evidence, collection_projection b obs)"
    using stored_observations_again [OF assms(1)] by (simp add: canonical_collection_iff)
qed (simp add: collection_json_def stored_observations_def)

lemma validate_stored_result_json:
  assumes "acceptable (ct_beneficiary t) (ct_bindings t) obs" and "\<forall>ob \<in> set obs. storable ob" and "trim evidence \<noteq> []"
  shows "validate_stored_result t evidence (collection_json (ct_beneficiary t) obs evidence) =
    Inr (collection_json (ct_beneficiary t) obs evidence)"
proof -
  note reads = collection_reads_back [OF assms(1,2)]
  show ?thesis
    using assms(3) reads(1,2) unfolding validate_stored_result_def reads(3) by (simp add: has_fields_def stored_string_def)
qed

lemma sort_strict:
  fixes f :: "'a \<Rightarrow> 'b :: linorder"
  assumes "distinct (map f xs)"
  shows "list_all (\<lambda>(s, t). f s < f t) (zip (sort_key f xs) (tl (sort_key f xs)))"
proof -
  have "sorted_wrt (\<lambda>s t. f s < f t) (sort_key f xs)"
  proof -
    have "distinct (map f (sort_key f xs))" using assms by (simp add: distinct_map)
    then have "sorted_wrt (<) (map f (sort_key f xs))" by (simp add: strict_sorted_iff)
    then show ?thesis by (simp add: sorted_wrt_map)
  qed
  moreover have "sorted_wrt (\<lambda>s t. f s < f t) ys \<Longrightarrow> list_all (\<lambda>(s, t). f s < f t) (zip ys (tl ys))" for ys
    by (induction ys rule: induct_list012) auto
  ultimately show ?thesis by blast
qed

lemma parse_stored_bindings_json:
  assumes "bs \<noteq> []" and "\<forall>s \<in> set bs. validate_binding s = Inr () \<and> sb_beneficiary s = b" and "distinct (map sb_source bs)"
  shows "parse_stored_bindings (VArray (map binding_json (sort_key sb_source bs))) b = Inr (sort_key sb_source bs)"
proof -
  have "map_result (parse_binding b) (map binding_json (sort_key sb_source bs)) = Inr (sort_key sb_source bs)"
    using assms(2) by (simp add: map_result_Inr_iff list_all2_map1 list_all2_same parse_binding_json)
  moreover have "sort_key sb_source bs \<noteq> []" using assms(1) by (metis set_empty set_sort)
  ultimately show ?thesis using sort_strict [OF assms(3)] by (simp add: parse_stored_bindings_def)
qed

text \<open>A stored collection is read back as it was written. The result that finishing a
  collection stores passes every check that a later replay makes of it, whatever the order of the
  observations, and parsing it gives a batch with the same result and the same projection.\<close>

theorem stored_result_reads_back:
  assumes "canonical_collection (ct_beneficiary t) (ct_bindings t) obs evidence = Inr (v, projection)"
    and "trim evidence \<noteq> []" and "\<forall>ob \<in> set obs. storable ob"
  shows "validate_stored_result t evidence v = Inr v \<and>
    (\<exists>kvs vs obs'. as_object v = Some kvs \<and> map_of kvs ''sources'' = Some (VArray vs) \<and>
       map_result parse_stored_observation vs = Inr obs' \<and>
       canonical_collection (ct_beneficiary t) (ct_bindings t) obs' evidence = Inr (v, projection))"
proof -
  have acc: "acceptable (ct_beneficiary t) (ct_bindings t) obs"
    and v: "v = collection_json (ct_beneficiary t) obs evidence" "projection = collection_projection (ct_beneficiary t) obs"
    using assms(1) by (simp_all add: canonical_collection_iff)
  note reads = collection_reads_back [OF acc assms(3)]
  from validate_stored_result_json [OF acc assms(3,2)] reads show ?thesis by (simp add: v)
qed


section \<open>A collection at work\<close>

definition demo_binding :: source_binding where
  "demo_binding = \<lparr>sb_beneficiary = [97], sb_source = [120], sb_namespace = [110], sb_allocation = [108], sb_evidence = [101]\<rparr>"

lemma demo_trim: "trim [97] = [97]" "trim [114] = [114]" "trim [120] = [120]" "trim [110] = [110]" "trim [108] = [108]" "trim [101] = [101]"
   "trim [116] = [116]" "trim_by (\<lambda>c. c = 32) [c] = (if c = 32 then [] else [c])"
  by (simp_all add: trim_def trim_by_def is_whitespace_def)

definition demo_facts :: "paid_interval list" where
  "demo_facts = [\<lparr>coverage_id = [98], source_id = [120], starts_at = 0, paid_until = 100, failed_renewal_id = None\<rparr>,
      \<lparr>coverage_id = [101], source_id = [120], starts_at = 50, paid_until = 200, failed_renewal_id = None\<rparr>]"

definition demo_observations :: "source_observation list" where
  "demo_observations = [ObservedComplete [120] [101] demo_facts]"

lemma demo_facts_normalised: "normalise_confirmed_intervals \<lparr>beneficiary_id = [97], paid_intervals = demo_facts\<rparr> = Inr demo_facts"
  by (simp add: demo_facts_def normalise_confirmed_intervals_def normalise_step_def demo_trim trim_def trim_by_def is_whitespace_def
      require_def rbind_def check_renewal_def checked_add_def checked_i64_def in_i64_def
      identity_of_def interval_key_def ok_or_def)

lemma demo_collected: "canonical_collection [97] [demo_binding] demo_observations [101] =
    Inr (collection_json [97] demo_observations [101], Complete demo_facts)"
proof -
  have "facts_of [97] (ObservedComplete [120] [101] demo_facts) = demo_facts" by (simp add: facts_of_def demo_facts_normalised)
  then show ?thesis
    unfolding canonical_collection_iff demo_observations_def
    by (simp add: acceptable_def acceptable_observation_def demo_facts_normalised all_facts_def demo_trim collection_projection_def reason_of_def demo_binding_def)
     (simp add: demo_facts_def)
qed

definition demo_ticket :: collection_ticket where
  "demo_ticket = \<lparr>ct_beneficiary = [97], ct_attempt = [116], ct_epoch = 1, ct_generation = 1, ct_expected = Some 1,
     ct_bindings = [demo_binding], ct_status = Pending, ct_completed = None\<rparr>"

theorem collection_ignores_order_witness:
  "canonical_collection [97] [demo_binding] [ObservedComplete [120] [101] (rev demo_facts)] [101] =
     Inr (collection_json [97] demo_observations [101], Complete demo_facts)"
  by (rule collection_ignores_order [OF demo_collected, of "[ObservedComplete [120] [101] (rev demo_facts)]"])
    (simp_all add: demo_observations_def)

theorem stored_result_reads_back_witness:
  "validate_stored_result demo_ticket [101] (collection_json [97] demo_observations [101]) =
     Inr (collection_json [97] demo_observations [101])"
  using stored_result_reads_back [of demo_ticket demo_observations "[101]"] demo_collected
  by (simp add: demo_ticket_def demo_trim demo_observations_def storable_def demo_facts_def in_i64_def)

end
