(* ===== verification/Coverage_Coordination.thy ===== *)
theory Coverage_Coordination
  imports Coverage_Canonical
begin

text \<open>
  What the coordination guarantees. The invariant of its tables, kept by every operation; and from it
  that coverage which can be loaded was observed on every registered source, that nothing stored is
  ever found corrupt, and that finished collections can be replayed but stale ones cannot finish.
\<close>

section \<open>Frames\<close>

lemma log_of_frame [simp]:
  fixes db :: coverage_db
  shows "log_of b (db\<lparr>coordinators := c\<rparr>) = log_of b db" "log_of b (db\<lparr>sources := s\<rparr>) = log_of b db"
    "log_of b (db\<lparr>attempts := a\<rparr>) = log_of b db"
  by (simp_all add: log_of_def rows_def entry_def select_facts_def)

lemma store_ok_frame [simp]:
  fixes db :: coverage_db
  shows "store_ok (db\<lparr>coordinators := c\<rparr>) = store_ok db" "store_ok (db\<lparr>sources := s\<rparr>) = store_ok db"
    "store_ok (db\<lparr>attempts := a\<rparr>) = store_ok db"
  by (simp_all add: store_ok_def rows_def row_ok_def entry_def select_facts_def find_head_def)

lemma current_revision_frame [simp]:
  fixes db :: coverage_db
  shows "current_revision b (db\<lparr>coordinators := c\<rparr>) = current_revision b db" "current_revision b (db\<lparr>sources := s\<rparr>) = current_revision b db"
    "current_revision b (db\<lparr>attempts := a\<rparr>) = current_revision b db"
  by (simp_all add: current_revision_def find_head_def)

lemma find_coordinator_frame [simp]:
  "find_coordinator (db\<lparr>sources := s\<rparr>) = find_coordinator db" "find_coordinator (db\<lparr>attempts := a\<rparr>) = find_coordinator db"
  by (simp_all add: find_coordinator_def fun_eq_iff)

lemma find_coordinator_update:
  assumes "\<And>c. co_beneficiary (f c) = co_beneficiary c"
  shows "find_coordinator (update_coordinator b f db) b' = map_option (\<lambda>c. if b' = b then f c else c) (find_coordinator db b')"
  using assms by (simp add: find_coordinator_def update_coordinator_def sql_find_update)
    (auto simp: sql_find_def find_Some_iff intro!: option.map_cong0)

lemma current_revision_log:
  assumes "store_ok db" and "trim b \<noteq> []"
  shows "current_revision b db = Inr (version (length (log_of b db)))"
  using store_okD(1) [OF assms(1), of b] assms(2)
  by (simp add: current_revision_def validate_identifier_def version_def log_of_def)

text \<open>Publishing touches the store's own tables only.\<close>

lemma insert_facts_more:
  "fold_result (insert_fact b n) db is = Inr db' \<Longrightarrow> coverage_store.more db' = coverage_store.more db \<and> cs_users db' = cs_users db"
  by (erule fold_result_invariant) (auto simp: insert_fact_def rbind_eq_Inr_iff)

lemma write_revision_more:
  "write_revision b n op expected evidence c db = Inr db' \<Longrightarrow> coverage_store.more db' = coverage_store.more db \<and> cs_users db' = cs_users db"
  by (auto simp: write_revision_def insert_revision_def set_head_def rbind_eq_Inr_iff dest!: insert_facts_more)

lemma publish_more:
  "publish b expected op evidence projection db = (r, db') \<Longrightarrow> coverage_store.more db' = coverage_store.more db \<and> cs_users db' = cs_users db"
  by (auto simp: publish_request insert_head_def rbind_eq_Inr_iff publish_locked_def Let_def dest: write_revision_more
      split: sum.splits option.splits if_splits prod.splits)

lemma same_more:
  fixes db db' :: coverage_db
  shows "coverage_store.more db' = coverage_store.more db \<Longrightarrow> coordinators db' = coordinators db \<and> sources db' = sources db \<and> attempts db' = attempts db"
  by (cases db; cases db') simp

lemma publish_in_spec:
  assumes "store_ok db" and "publish_in b expected op evidence projection db = Inr (receipt, db')"
    and "\<forall>p \<in> set (log_of b db). pb_operation p \<noteq> op"
  obtains c where "publish_request b expected op evidence projection = Inr c" and "b \<in> set (cs_users db)"
    and "expected = version (length (log_of b db))" and "store_ok db'"
    and "receipt = \<lparr>pr_revision = int (length (log_of b db)) + 1, pr_outcome = Applied\<rparr>"
    and "log_of b db' = log_of b db @ [\<lparr>pb_operation = op, pb_evidence = evidence, pb_projection = c\<rparr>]"
    and "\<forall>b'. b' \<noteq> b \<longrightarrow> log_of b' db' = log_of b' db"
    and "coordinators db' = coordinators db" and "sources db' = sources db" and "attempts db' = attempts db" and "cs_users db' = cs_users db"
proof -
  have run: "publish b expected op evidence projection db = (Inr receipt, db')"
    using assms(2) by (auto simp: publish_in_def split: prod.splits sum.splits)
  obtain c where c: "publish_request b expected op evidence projection = Inr c"
    using run publish_spec(1) [OF assms(1)] by (cases "publish_request b expected op evidence projection") auto
  have user: "b \<in> set (cs_users db)" using run publish_spec(2) [OF assms(1) c] by fastforce
  have none: "List.find (\<lambda>i. pb_operation (log_of b db ! i) = op) [0..<length (log_of b db)] = None"
    using assms(3) by (auto simp: find_None_iff)
  note spec = publish_spec(3) [OF assms(1) c user run]
  note more = publish_more [OF run]
  show ?thesis
    using spec none c user more same_more [of db' db]
    by (intro that [of c]) (auto simp: log_publish_def split: if_splits)
qed


section \<open>The invariant\<close>

definition sources_of :: "codepoints \<Rightarrow> coverage_db \<Rightarrow> source_row list" where
  "sources_of b db = sql_select (\<lambda>r. sb_beneficiary (sr_binding r) = b) (sources db)"

definition bindings_upto :: "codepoints \<Rightarrow> int \<Rightarrow> coverage_db \<Rightarrow> source_binding list" where
  "bindings_upto b n db = bindings_of (\<lambda>r. sb_beneficiary (sr_binding r) = b \<and> sr_generation r \<le> n) db"

definition source_ok :: "coverage_db \<Rightarrow> source_row \<Rightarrow> bool" where
  "source_ok db r \<longleftrightarrow> validate_binding (sr_binding r) = Inr () \<and> trim (sr_operation r) \<noteq> [] \<and>
     find_coordinator db (sb_beneficiary (sr_binding r)) \<noteq> None \<and> sr_revision r \<noteq> None"

definition no_receipt :: "attempt_row \<Rightarrow> bool" where
  "no_receipt r \<longleftrightarrow> at_evidence r = None \<and> at_result r = None \<and> at_revision r = None"

definition completion_ok :: "coverage_db \<Rightarrow> attempt_row \<Rightarrow> bool" where
  "completion_ok db r \<longleftrightarrow> (\<exists>obs evidence k c. let b = at_beneficiary r in
     acceptable b (bindings_upto b (at_generation r) db) obs \<and> (\<forall>ob \<in> set obs. storable ob) \<and> trim evidence \<noteq> [] \<and>
     at_evidence r = Some evidence \<and> at_result r = Some (collection_json b obs evidence) \<and> at_revision r = Some (int k + 1) \<and>
     canonical_projection_of b (collection_projection b obs) = Inr c \<and> k < length (log_of b db) \<and>
     log_of b db ! k = \<lparr>pb_operation = collection_op (at_id r), pb_evidence = evidence, pb_projection = c\<rparr>)"

definition attempt_ok :: "coverage_db \<Rightarrow> attempt_row \<Rightarrow> bool" where
  "attempt_ok db r \<longleftrightarrow> (\<exists>c. find_coordinator db (at_beneficiary r) = Some c \<and>
     1 \<le> at_generation r \<and> at_generation r \<le> co_generation c \<and> 1 \<le> at_epoch r \<and> at_epoch r \<le> co_epoch c \<and> trim (at_id r) \<noteq> [] \<and>
     (case at_expected r of None \<Rightarrow> True | Some e \<Rightarrow> 0 < e) \<and>
     at_bindings r = VArray (map binding_json (bindings_upto (at_beneficiary r) (at_generation r) db)) \<and>
     (at_status r = ''pending'' \<and> no_receipt r \<and> co_attempt c = Some (at_id r) \<and> co_generation c = at_generation r \<and> co_epoch c = at_epoch r \<or>
      at_status r = ''superseded'' \<and> no_receipt r \<or>
      at_status r = ''completed'' \<and> completion_ok db r))"

text \<open>Every publication of a coordinated person is a registration of one of its sources or one of its
  completed collections.\<close>

definition explained :: "coverage_db \<Rightarrow> codepoints \<Rightarrow> publication \<Rightarrow> bool" where
  "explained db b p \<longleftrightarrow>
     (\<exists>r \<in> set (sources_of b db). pb_operation p = registration_op (sr_operation r)) \<or>
     (\<exists>r \<in> set (attempts db). at_beneficiary r = b \<and> at_status r = ''completed'' \<and> pb_operation p = collection_op (at_id r))"

lemma explained_mono:
  assumes "explained db b p" and "set (sources_of b db) \<subseteq> set (sources_of b db')"
    and "\<And>r. r \<in> set (attempts db) \<Longrightarrow> at_beneficiary r = b \<Longrightarrow> at_status r = ''completed'' \<Longrightarrow> r \<in> set (attempts db')"
  shows "explained db' b p"
  using assms unfolding explained_def by blast

definition coordinator_ok :: "coverage_db \<Rightarrow> coordinator \<Rightarrow> bool" where
  "coordinator_ok db c \<longleftrightarrow> (let b = co_beneficiary c in trim b \<noteq> [] \<and>
     1 \<le> co_generation c \<and> 0 \<le> co_epoch c \<and>
     map sr_generation (sources_of b db) = map (\<lambda>i. int i + 1) [0..<nat (co_generation c)] \<and>
     (case co_attempt c of None \<Rightarrow> True | Some a \<Rightarrow> \<exists>r \<in> set (attempts db). at_beneficiary r = b \<and> at_id r = a \<and> at_status r = ''pending'') \<and>
     log_of b db \<noteq> [] \<and>
     (cp_reason (pb_projection (last (log_of b db))) = None \<longrightarrow> (\<exists>r \<in> set (attempts db). at_beneficiary r = b \<and>
        at_status r = ''completed'' \<and> at_generation r = co_generation c \<and> at_revision r = Some (int (length (log_of b db))))) \<and>
     (\<forall>p \<in> set (log_of b db). explained db b p))"

definition coverage_ok :: "coverage_db \<Rightarrow> bool" where
  "coverage_ok db \<longleftrightarrow> store_ok db \<and>
     distinct (map (\<lambda>r. sb_source (sr_binding r)) (sources db)) \<and>
     distinct (map (\<lambda>r. (sb_namespace (sr_binding r), sb_allocation (sr_binding r))) (sources db)) \<and>
     distinct (map (\<lambda>r. (sb_beneficiary (sr_binding r), sr_operation r)) (sources db)) \<and>
     distinct (map (\<lambda>r. (at_beneficiary r, at_id r)) (attempts db)) \<and>
     (\<forall>r \<in> set (sources db). source_ok db r) \<and> (\<forall>r \<in> set (attempts db). attempt_ok db r) \<and>
     (\<forall>b c. find_coordinator db b = Some c \<longrightarrow> coordinator_ok db c)"

lemma coverage_okD:
  assumes "coverage_ok db"
  shows "store_ok db" and "distinct (map (\<lambda>r. sb_source (sr_binding r)) (sources db))"
    and "distinct (map (\<lambda>r. (sb_namespace (sr_binding r), sb_allocation (sr_binding r))) (sources db))"
    and "distinct (map (\<lambda>r. (sb_beneficiary (sr_binding r), sr_operation r)) (sources db))"
    and "distinct (map (\<lambda>r. (at_beneficiary r, at_id r)) (attempts db))"
    and "r \<in> set (sources db) \<Longrightarrow> source_ok db r" and "a \<in> set (attempts db) \<Longrightarrow> attempt_ok db a"
    and "find_coordinator db b = Some c \<Longrightarrow> coordinator_ok db c"
  using assms unfolding coverage_ok_def by blast+

lemma find_coordinator_id: "find_coordinator db b = Some c \<Longrightarrow> co_beneficiary c = b"
  by (auto simp: find_coordinator_def dest: sql_find_SomeD)

lemma find_attempt_Some:
  assumes "distinct (map (\<lambda>r. (at_beneficiary r, at_id r)) (attempts db))"
  shows "find_attempt db b a = Some r \<longleftrightarrow> r \<in> set (attempts db) \<and> at_beneficiary r = b \<and> at_id r = a"
  unfolding find_attempt_def
  using sql_find_Some_iff_distinct [OF assms, of "\<lambda>r. at_beneficiary r = b \<and> at_id r = a" "(b, a)" r] by simp

lemma coordinator_okD:
  assumes "coordinator_ok db c" and "co_beneficiary c = b"
  shows "trim b \<noteq> []" and "1 \<le> co_generation c" and "0 \<le> co_epoch c"
    and "map sr_generation (sources_of b db) = map (\<lambda>i. int i + 1) [0..<nat (co_generation c)]"
    and "co_attempt c = Some a \<Longrightarrow> \<exists>r \<in> set (attempts db). at_beneficiary r = b \<and> at_id r = a \<and> at_status r = ''pending''"
    and "log_of b db \<noteq> []"
    and "cp_reason (pb_projection (last (log_of b db))) = None \<Longrightarrow> \<exists>r \<in> set (attempts db). at_beneficiary r = b \<and>
        at_status r = ''completed'' \<and> at_generation r = co_generation c \<and> at_revision r = Some (int (length (log_of b db)))"
    and "p \<in> set (log_of b db) \<Longrightarrow> explained db b p"
  using assms unfolding coordinator_ok_def Let_def by (blast | simp)+

text \<open>The bindings a coordinator's sources give, by registration generation.\<close>

lemma source_generations:
  assumes "coordinator_ok db c" and "co_beneficiary c = b"
  shows "sr_generation ` set (sources_of b db) = {1..co_generation c}"
proof -
  have "sr_generation ` set (sources_of b db) = set (map (\<lambda>i. int i + 1) [0..<nat (co_generation c)])"
    unfolding coordinator_okD(4) [OF assms, symmetric] by simp
  also have "\<dots> = {1..co_generation c}"
  proof -
    have "x \<in> (\<lambda>i. int i + 1) ` {0..<nat (co_generation c)}" if "x \<in> {1..co_generation c}" for x
      by (rule image_eqI [of _ _ "nat (x - 1)"]) (use that in auto)
    then show ?thesis by auto
  qed
  finally show ?thesis .
qed

lemma bindings_upto_current:
  assumes "coordinator_ok db c" and "co_beneficiary c = b"
  shows "bindings_upto b (co_generation c) db = bindings_of (\<lambda>r. sb_beneficiary (sr_binding r) = b) db"
proof -
  have "sr_generation r \<le> co_generation c" if "r \<in> set (sources_of b db)" for r
    using source_generations [OF assms] that by auto
  then have "sql_select (\<lambda>r. sb_beneficiary (sr_binding r) = b \<and> sr_generation r \<le> co_generation c) (sources db) =
      sql_select (\<lambda>r. sb_beneficiary (sr_binding r) = b) (sources db)"
    unfolding sql_select_def by (intro filter_cong) (auto simp: sources_of_def)
  then show ?thesis by (simp add: bindings_upto_def bindings_of_def)
qed

lemma generations:
  assumes "coordinator_ok db c" and "co_beneficiary c = b" and "1 \<le> n" and "n \<le> co_generation c"
  shows "max_option (map sr_generation (sql_select (\<lambda>r. sb_beneficiary (sr_binding r) = b \<and> sr_generation r \<le> n) (sources db))) = Some n"
proof -
  have "set (map sr_generation (sql_select (\<lambda>r. sb_beneficiary (sr_binding r) = b \<and> sr_generation r \<le> n) (sources db))) =
      {g \<in> sr_generation ` set (sources_of b db). g \<le> n}"
    by (auto simp: sources_of_def)
  also have "\<dots> = {1..n}" unfolding source_generations [OF assms(1,2)] using assms(4) by auto
  finally show ?thesis using assms(3) unfolding max_option_Some_iff by simp
qed

lemma bindings_upto_ok:
  assumes ok: "coverage_ok db" and "find_coordinator db b = Some c" and "1 \<le> n" and "n \<le> co_generation c"
  shows "bindings_upto b n db \<noteq> []" and "parse_stored_bindings (VArray (map binding_json (bindings_upto b n db))) b = Inr (bindings_upto b n db)"
proof -
  note co = coverage_okD(8) [OF ok assms(2)]
  let ?rows = "sql_select (\<lambda>r. sb_beneficiary (sr_binding r) = b \<and> sr_generation r \<le> n) (sources db)"
  have "max_option (map sr_generation ?rows) = Some n" by (rule generations [OF co find_coordinator_id [OF assms(2)] assms(3,4)])
  then have ne: "map sr_binding ?rows \<noteq> []" by (auto simp: max_option_def)
  have valid: "\<forall>s \<in> set (map sr_binding ?rows). validate_binding s = Inr () \<and> sb_beneficiary s = b"
    using coverage_okD(6) [OF ok] by (auto simp: source_ok_def)
  have "distinct (map sb_source (map sr_binding ?rows))"
    using coverage_okD(2) [OF ok] by (simp add: sql_select_def comp_def distinct_map_filter)
  from parse_stored_bindings_json [OF ne valid this]
  show "parse_stored_bindings (VArray (map binding_json (bindings_upto b n db))) b = Inr (bindings_upto b n db)"
    by (simp add: bindings_upto_def bindings_of_def)
  show "bindings_upto b n db \<noteq> []" using ne by (metis bindings_of_def bindings_upto_def set_empty set_sort)
qed


section \<open>Attempts read back\<close>

definition ticket_of :: "coverage_db \<Rightarrow> attempt_row \<Rightarrow> collection_ticket" where
  "ticket_of db r = \<lparr>ct_beneficiary = at_beneficiary r, ct_attempt = at_id r, ct_epoch = at_epoch r, ct_generation = at_generation r,
     ct_expected = at_expected r, ct_bindings = bindings_upto (at_beneficiary r) (at_generation r) db,
     ct_status = (if at_status r = ''pending'' then Pending else if at_status r = ''superseded'' then Superseded else Completed),
     ct_completed = at_revision r\<rparr>"

definition completion_of :: "attempt_row \<Rightarrow> completion_receipt option" where
  "completion_of r = (case (at_evidence r, at_result r, at_revision r) of
     (Some e, Some v, Some n) \<Rightarrow> Some \<lparr>sc_evidence = e, sc_result = v, sc_revision = n\<rparr> | _ \<Rightarrow> None)"

lemma attempt_okD:
  assumes "attempt_ok db r"
  obtains c where "find_coordinator db (at_beneficiary r) = Some c" "1 \<le> at_generation r" "at_generation r \<le> co_generation c"
    "1 \<le> at_epoch r" "at_epoch r \<le> co_epoch c" "trim (at_id r) \<noteq> []" "case at_expected r of None \<Rightarrow> True | Some e \<Rightarrow> 0 < e"
    "at_bindings r = VArray (map binding_json (bindings_upto (at_beneficiary r) (at_generation r) db))"
    "at_status r = ''pending'' \<and> no_receipt r \<and> co_attempt c = Some (at_id r) \<and> co_generation c = at_generation r \<and> co_epoch c = at_epoch r \<or>
      at_status r = ''superseded'' \<and> no_receipt r \<or> at_status r = ''completed'' \<and> completion_ok db r"
  using assms unfolding attempt_ok_def by blast

lemma attempt_reads:
  assumes ok: "coverage_ok db" and r: "r \<in> set (attempts db)"
  shows "collection_ticket_from_row r = Inr (ticket_of db r)"
    and "validate_stored_attempt db (ticket_of db r) r = Inr (completion_of r)"
proof -
  obtain c where c: "find_coordinator db (at_beneficiary r) = Some c" "1 \<le> at_generation r" "at_generation r \<le> co_generation c"
    and b: "at_bindings r = VArray (map binding_json (bindings_upto (at_beneficiary r) (at_generation r) db))"
    and st: "at_status r = ''pending'' \<and> no_receipt r \<or>
      at_status r = ''superseded'' \<and> no_receipt r \<or> at_status r = ''completed'' \<and> completion_ok db r"
    using attempt_okD [OF coverage_okD(7) [OF ok r]] by metis
  note co = coverage_okD(8) [OF ok c(1)]
  note bind = bindings_upto_ok [OF ok c]
  show "collection_ticket_from_row r = Inr (ticket_of db r)"
    using st by (auto simp: collection_ticket_from_row_def b bind(2) ticket_of_def status_from_db_def)
  have "validate_stored_bindings db (ticket_of db r) = Inr ()"
    using generations [OF co find_coordinator_id [OF c(1)] c(2,3)] bind(1)
    by (simp add: validate_stored_bindings_def Let_def ticket_of_def bindings_upto_def)
  then show "validate_stored_attempt db (ticket_of db r) r = Inr (completion_of r)"
    using st
  proof (elim disjE)
    assume s: "at_status r = ''completed'' \<and> completion_ok db r" and v: "validate_stored_bindings db (ticket_of db r) = Inr ()"
    then obtain obs evidence k where d: "acceptable (at_beneficiary r) (bindings_upto (at_beneficiary r) (at_generation r) db) obs"
        "\<forall>ob \<in> set obs. storable ob" "trim evidence \<noteq> []" "at_evidence r = Some evidence"
        "at_result r = Some (collection_json (at_beneficiary r) obs evidence)" "at_revision r = Some (int k + 1)"
      unfolding completion_ok_def Let_def by blast
    have t: "ct_beneficiary (ticket_of db r) = at_beneficiary r"
      "ct_bindings (ticket_of db r) = bindings_upto (at_beneficiary r) (at_generation r) db" "ct_status (ticket_of db r) = Completed"
      using s by (simp_all add: ticket_of_def)
    note stored = validate_stored_result_json [of "ticket_of db r" obs evidence, unfolded t(1,2), OF d(1-3)]
    then show ?thesis
      unfolding validate_stored_attempt_def v rbind_simps t(3) d(4-6) stored_completion_receipt_def
      by (simp add: completion_of_def d)
  qed (simp_all add: validate_stored_attempt_def ticket_of_def stored_completion_receipt_def no_receipt_def completion_of_def)
qed

definition superseded :: "codepoints \<Rightarrow> attempt_row list \<Rightarrow> attempt_row list" where
  "superseded b = sql_update (\<lambda>r. at_beneficiary r = b \<and> at_status r = ''pending'') (\<lambda>r. r\<lparr>at_status := ''superseded''\<rparr>)"

lemma in_superseded:
  "r \<in> set (superseded b t) \<longleftrightarrow> (\<exists>r0 \<in> set t. r = (if at_beneficiary r0 = b \<and> at_status r0 = ''pending'' then r0\<lparr>at_status := ''superseded''\<rparr> else r0))"
  unfolding superseded_def sql_update_def set_map image_iff ..

lemma superseded_keep: "at_beneficiary r \<noteq> b \<or> at_status r = ''completed'' \<Longrightarrow> r \<in> set (superseded b t) \<longleftrightarrow> r \<in> set t"
  by (auto simp: superseded_def)

section \<open>Registering\<close>

lemma find_coordinator_insert:
  assumes "insert_coordinator b db = Inr db'"
  shows "find_coordinator db' b' = (if b' = b \<and> find_coordinator db b = None
      then Some \<lparr>co_beneficiary = b, co_generation = 0, co_epoch = 0, co_attempt = None\<rparr> else find_coordinator db b')"
    and "find_coordinator db b \<noteq> None \<Longrightarrow> db' = db" and "find_coordinator db b = None \<Longrightarrow> b \<in> set (cs_users db)"
    and "\<exists>cs. db' = db\<lparr>coordinators := cs\<rparr>"
proof -
  have ex: "sql_exists (\<lambda>c. co_beneficiary c = b) (coordinators db) \<longleftrightarrow> find_coordinator db b \<noteq> None"
    unfolding sql_exists_iff find_coordinator_def sql_find_None_iff by blast
  show "find_coordinator db' b' = (if b' = b \<and> find_coordinator db b = None
      then Some \<lparr>co_beneficiary = b, co_generation = 0, co_epoch = 0, co_attempt = None\<rparr> else find_coordinator db b')"
    and "find_coordinator db b \<noteq> None \<Longrightarrow> db' = db" and "find_coordinator db b = None \<Longrightarrow> b \<in> set (cs_users db)"
    and "\<exists>cs. db' = db\<lparr>coordinators := cs\<rparr>"
  proof -
    have all: "(find_coordinator db b \<noteq> None \<longrightarrow> db' = db) \<and> (find_coordinator db b = None \<longrightarrow> b \<in> set (cs_users db) \<and>
        db' = db\<lparr>coordinators := sql_insert \<lparr>co_beneficiary = b, co_generation = 0, co_epoch = 0, co_attempt = None\<rparr> (coordinators db)\<rparr>)"
      using assms unfolding insert_coordinator_def ex by (cases "find_coordinator db b") (auto simp: rbind_eq_Inr_iff)
    then show "find_coordinator db b \<noteq> None \<Longrightarrow> db' = db" and "find_coordinator db b = None \<Longrightarrow> b \<in> set (cs_users db)" by blast+
    show "\<exists>cs. db' = db\<lparr>coordinators := cs\<rparr>"
    proof (cases "find_coordinator db b")
      case (Some c)
      with all have "db' = db\<lparr>coordinators := coordinators db\<rparr>" by simp
      then show ?thesis by blast
    qed (use all in blast)
    show "find_coordinator db' b' = (if b' = b \<and> find_coordinator db b = None
      then Some \<lparr>co_beneficiary = b, co_generation = 0, co_epoch = 0, co_attempt = None\<rparr> else find_coordinator db b')"
    proof (cases "find_coordinator db b")
      case None
      let ?new = "\<lparr>co_beneficiary = b, co_generation = 0, co_epoch = 0, co_attempt = None\<rparr>"
      from None all have db': "db' = db\<lparr>coordinators := sql_insert ?new (coordinators db)\<rparr>" by blast
      have "find_coordinator db' b' = (case find_coordinator db b' of None \<Rightarrow> if b = b' then Some ?new else None | Some s \<Rightarrow> Some s)"
        unfolding db' find_coordinator_def by (simp add: sql_find_insert)
      with None show ?thesis by (cases "find_coordinator db b'") auto
    qed (use all in simp)
  qed
qed

lemma operation_ids:
  "registration_op a = registration_op b \<longleftrightarrow> a = b" "collection_op a = collection_op b \<longleftrightarrow> a = b"
  "registration_op a \<noteq> collection_op b" "collection_op b \<noteq> registration_op a"
  by (simp_all add: registration_op_def collection_op_def ascii_def)

lemma update_new_only:
  "\<forall>r \<in> set t. \<not> p r \<Longrightarrow> p r' \<Longrightarrow> sql_update p f (sql_insert r' t) = t @ [f r']"
  by (simp add: sql_update_def sql_insert_def map_idI)

lemma add_source_spec:
  assumes store: "store_ok db" and run: "add_source op binding generation expected db = Inr (receipt, db')" and b: "sb_beneficiary binding = b"
    and fresh: "\<forall>p \<in> set (log_of b db). pb_operation p \<noteq> registration_op op"
    and new: "\<forall>r \<in> set (sources db). sb_source (sr_binding r) \<noteq> sb_source binding"
  shows "sources db' = sources db @ [\<lparr>sr_binding = binding, sr_operation = op, sr_generation = generation + 1,
         sr_revision = Some (int (length (log_of b db)) + 1)\<rparr>]"
    and "attempts db' = superseded b (attempts db)"
    and "find_coordinator db' b' = map_option (\<lambda>c. if b' = b then c\<lparr>co_generation := generation + 1, co_attempt := None\<rparr> else c) (find_coordinator db b')"
    and "log_of b db' = log_of b db @ [\<lparr>pb_operation = registration_op op, pb_evidence = sb_evidence binding,
         pb_projection = \<lparr>cp_status = ''unavailable'', cp_reason = Some NeedsReconciliation, cp_intervals = []\<rparr>\<rparr>]"
    and "b' \<noteq> b \<Longrightarrow> log_of b' db' = log_of b' db" and "store_ok db'" and "cs_users db' = cs_users db"
    and "rr_outcome receipt = RegApplied" and "rr_revision receipt = Some (int (length (log_of b db)) + 1)" and "rr_generation receipt = generation + 1"
proof -
  let ?new = "new_source op binding (generation + 1)"
  let ?db1 = "update_coordinator b (\<lambda>c. c\<lparr>co_generation := generation + 1, co_attempt := None\<rparr>)
    (supersede (\<lambda>r. at_beneficiary r = b) (db\<lparr>sources := sql_insert ?new (sources db)\<rparr>))"
  obtain publication db2 where
    pub: "publish_in b expected (registration_op op) (sb_evidence binding) unavailable_projection ?db1 = Inr (publication, db2)"
    and receipt: "receipt = \<lparr>rr_source = sb_source binding, rr_generation = generation + 1, rr_revision = Some (pr_revision publication),
            rr_outcome = projection_outcome (pr_outcome publication)\<rparr>"
    and db': "db' = db2\<lparr>sources := sql_update (\<lambda>r. sb_source (sr_binding r) = sb_source binding)
             (\<lambda>r. r\<lparr>sr_revision := Some (pr_revision publication)\<rparr>) (sources db2)\<rparr>"
    using run by (auto simp: add_source_def Let_def b rbind_eq_Inr_iff insert_source_def checked_add_Some_iff)
  have frame: "log_of b' ?db1 = log_of b' db" "store_ok ?db1 = store_ok db" "cs_users ?db1 = cs_users db" for b'
    by (simp_all add: update_coordinator_def supersede_def)
  obtain c where p: "publish_request b expected (registration_op op) (sb_evidence binding) unavailable_projection = Inr c" "store_ok db2"
    "publication = \<lparr>pr_revision = int (length (log_of b db)) + 1, pr_outcome = Applied\<rparr>"
    "log_of b db2 = log_of b db @ [\<lparr>pb_operation = registration_op op, pb_evidence = sb_evidence binding, pb_projection = c\<rparr>]"
    "\<forall>b'. b' \<noteq> b \<longrightarrow> log_of b' db2 = log_of b' db"
    "coordinators db2 = coordinators ?db1" "sources db2 = sources ?db1" "attempts db2 = attempts ?db1" "cs_users db2 = cs_users db"
    using publish_in_spec [OF _ pub] store fresh unfolding frame by blast
  have c: "c = \<lparr>cp_status = ''unavailable'', cp_reason = Some NeedsReconciliation, cp_intervals = []\<rparr>"
    using publish_request_ok(6) [OF p(1)] by (simp add: unavailable_projection_def)
  show "log_of b db' = log_of b db @ [\<lparr>pb_operation = registration_op op, pb_evidence = sb_evidence binding,
         pb_projection = \<lparr>cp_status = ''unavailable'', cp_reason = Some NeedsReconciliation, cp_intervals = []\<rparr>\<rparr>]"
    using p(4) by (simp add: db' c)
  have "sources ?db1 = sql_insert ?new (sources db)" by (simp add: update_coordinator_def supersede_def)
  with new show "sources db' = sources db @ [\<lparr>sr_binding = binding, sr_operation = op, sr_generation = generation + 1,
         sr_revision = Some (int (length (log_of b db)) + 1)\<rparr>]"
    by (simp add: db' p(3,7) update_new_only new_source_def)
  show "attempts db' = superseded b (attempts db)"
    by (simp add: db' p(8)) (simp add: update_coordinator_def supersede_def superseded_def)
  have "coordinators db' = coordinators ?db1" unfolding db' by (simp add: p(6))
  then have "find_coordinator db' b' = find_coordinator ?db1 b'" by (simp only: find_coordinator_def)
  then show "find_coordinator db' b' = map_option (\<lambda>c. if b' = b then c\<lparr>co_generation := generation + 1, co_attempt := None\<rparr> else c) (find_coordinator db b')"
    by (simp add: find_coordinator_update supersede_def)
  show "b' \<noteq> b \<Longrightarrow> log_of b' db' = log_of b' db" and "store_ok db'" and "cs_users db' = cs_users db"
    using p by (simp_all add: db')
  show "rr_outcome receipt = RegApplied" and "rr_revision receipt = Some (int (length (log_of b db)) + 1)" and "rr_generation receipt = generation + 1"
    by (simp_all add: receipt p(3))
qed

text \<open>A registration that is not a replay, as one change of the tables.\<close>

lemma register_source_cases:
  assumes ok: "coverage_ok db" and run: "register_source op binding db = Inr (receipt, db')" and b: "sb_beneficiary binding = b"
  obtains (replay) r where "db' = db" "r \<in> set (sources db)" "sr_binding r = binding" "sr_operation r = op"
      "rr_outcome receipt = RegAlreadyApplied" "rr_revision receipt = sr_revision r" "rr_generation receipt = sr_generation r"
    | (new) generation where "validate_binding binding = Inr ()" "trim op \<noteq> []"
      "generation = (case find_coordinator db b of None \<Rightarrow> 0 | Some c \<Rightarrow> co_generation c)"
      "find_coordinator db b = None \<Longrightarrow> log_of b db = []"
      "\<forall>r \<in> set (sources db). sb_source (sr_binding r) \<noteq> sb_source binding \<and>
        \<not> (sb_namespace (sr_binding r) = sb_namespace binding \<and> sb_allocation (sr_binding r) = sb_allocation binding) \<and>
        \<not> (sb_beneficiary (sr_binding r) = b \<and> sr_operation r = op)"
      "sources db' = sources db @ [\<lparr>sr_binding = binding, sr_operation = op, sr_generation = generation + 1,
         sr_revision = Some (int (length (log_of b db)) + 1)\<rparr>]"
      "attempts db' = superseded b (attempts db)"
      "\<forall>b'. find_coordinator db' b' = (if b' = b then Some \<lparr>co_beneficiary = b, co_generation = generation + 1,
         co_epoch = (case find_coordinator db b of None \<Rightarrow> 0 | Some c \<Rightarrow> co_epoch c), co_attempt = None\<rparr> else find_coordinator db b')"
      "log_of b db' = log_of b db @ [\<lparr>pb_operation = registration_op op, pb_evidence = sb_evidence binding,
         pb_projection = \<lparr>cp_status = ''unavailable'', cp_reason = Some NeedsReconciliation, cp_intervals = []\<rparr>\<rparr>]"
      "\<forall>b'. b' \<noteq> b \<longrightarrow> log_of b' db' = log_of b' db" "store_ok db'" "cs_users db' = cs_users db"
      "rr_outcome receipt = RegApplied" "rr_revision receipt = Some (int (length (log_of b db)) + 1)" "rr_generation receipt = generation + 1"
proof -
  obtain existing db1 c expected where
    valid: "trim op \<noteq> []" "validate_binding binding = Inr ()"
    and existing: "current_revision b db = Inr existing" "sql_exists (\<lambda>c. co_beneficiary c = b) (coordinators db) \<or> existing = None"
    and db1: "insert_coordinator b db = Inr db1" and c: "find_coordinator db1 b = Some c"
    and expected: "current_revision b db1 = Inr expected"
    and rest: "(case sql_find (\<lambda>r. sb_beneficiary (sr_binding r) = b \<and> sr_operation r = op) (sources db1) of
        Some r \<Rightarrow> rbind (replay_registration binding r) (\<lambda>receipt. Inr (receipt, db1))
      | None \<Rightarrow>
          rbind (require (\<not> sql_exists (\<lambda>r. sb_source (sr_binding r) = sb_source binding) (sources db1) \<and>
              \<not> sql_exists (\<lambda>r. sb_namespace (sr_binding r) = sb_namespace binding \<and>
                  sb_allocation (sr_binding r) = sb_allocation binding) (sources db1)) SourceBindingConflict) (\<lambda>_.
          add_source op binding (co_generation c) expected db1)) = Inr (receipt, db')"
    using run unfolding register_source_def Let_def b rbind_eq_Inr_iff require_eq_Inr_iff ok_or_eq_Inr_iff map_err_eq_Inr_iff
    by (elim exE conjE) (rule that, (assumption | simp)+)
  note ins = find_coordinator_insert [OF db1]
  obtain cs where cs: "db1 = db\<lparr>coordinators := cs\<rparr>" using ins(4) by blast
  then have frame: "sources db1 = sources db" "attempts db1 = attempts db" "cs_users db1 = cs_users db" "log_of b' db1 = log_of b' db"
    "store_ok db1 = store_ok db" for b' by simp_all
  show ?thesis
  proof (cases "sql_find (\<lambda>r. sb_beneficiary (sr_binding r) = b \<and> sr_operation r = op) (sources db1)")
    case (Some r)
    then have r: "r \<in> set (sources db)" "sb_beneficiary (sr_binding r) = b" "sr_operation r = op"
      unfolding frame by (auto dest: sql_find_SomeD)
    have "find_coordinator db b \<noteq> None" using coverage_okD(6) [OF ok r(1)] r(2) by (simp add: source_ok_def)
    then have "db1 = db" by (rule ins(2))
    with rest Some r show ?thesis
      by (intro replay [of r]) (auto simp: replay_registration_def rbind_eq_Inr_iff split: if_splits)
  next
    case None
    then have unused: "\<forall>r \<in> set (sources db). \<not> (sb_beneficiary (sr_binding r) = b \<and> sr_operation r = op)"
      unfolding frame sql_find_None_iff .
    have other: "\<forall>r \<in> set (sources db). sb_source (sr_binding r) \<noteq> sb_source binding \<and>
        \<not> (sb_namespace (sr_binding r) = sb_namespace binding \<and> sb_allocation (sr_binding r) = sb_allocation binding)"
      and run: "add_source op binding (co_generation c) expected db1 = Inr (receipt, db')"
      using rest None by (auto simp: rbind_eq_Inr_iff sql_exists_iff frame)
    have no_log: "log_of b db = []" if "find_coordinator db b = None"
    proof -
      have "existing = None" using existing(2) that unfolding sql_exists_iff find_coordinator_def sql_find_None_iff by blast
      moreover have "trim b \<noteq> []" using existing(1) by (auto simp: current_revision_def rbind_eq_Inr_iff)
      ultimately show ?thesis
        using existing(1) current_revision_log [OF coverage_okD(1) [OF ok], of b] by (auto simp: version_def split: if_splits)
    qed
    have fresh: "\<forall>p \<in> set (log_of b db1). pb_operation p \<noteq> registration_op op"
    proof (cases "find_coordinator db b")
      case None
      then show ?thesis using no_log frame by simp
    next
      case (Some c')
      note co = coverage_okD(8) [OF ok Some]
      show ?thesis
        using coordinator_okD(8) [OF co find_coordinator_id [OF Some]] unused
        by (fastforce simp: frame operation_ids sources_of_def explained_def)
    qed
    have "store_ok db1" using coverage_okD(1) [OF ok] frame by simp
    note spec = add_source_spec [OF this run b fresh, unfolded frame]
    let ?generation = "case find_coordinator db b of None \<Rightarrow> 0 | Some c \<Rightarrow> co_generation c"
    have gen: "co_generation c = ?generation" using c ins(1) [of b] by (auto split: option.splits)
    have coord: "find_coordinator db' b' = (if b' = b then Some \<lparr>co_beneficiary = b, co_generation = ?generation + 1,
         co_epoch = (case find_coordinator db b of None \<Rightarrow> 0 | Some c \<Rightarrow> co_epoch c), co_attempt = None\<rparr> else find_coordinator db b')" for b'
    proof -
      have "find_coordinator db' b' = map_option (\<lambda>c'. if b' = b then c'\<lparr>co_generation := co_generation c + 1, co_attempt := None\<rparr> else c')
          (find_coordinator db1 b')"
        using spec(3) other by blast
      then show ?thesis
        using ins(1) [of b'] gen by (cases "find_coordinator db b") (auto simp: option.map_ident find_coordinator_id split: if_splits)
    qed
    show ?thesis
      using valid no_log other unused spec coord unfolding gen
      by (intro new [of ?generation]) blast+
  qed
qed


lemma completion_ok_mono:
  assumes "completion_ok db r" and "log_of (at_beneficiary r) db' = log_of (at_beneficiary r) db @ new_entries"
    and "bindings_upto (at_beneficiary r) (at_generation r) db' = bindings_upto (at_beneficiary r) (at_generation r) db"
  shows "completion_ok db' r"
proof -
  obtain obs evidence k c where d: "acceptable (at_beneficiary r) (bindings_upto (at_beneficiary r) (at_generation r) db) obs"
      "\<forall>ob \<in> set obs. storable ob" "trim evidence \<noteq> []" "at_evidence r = Some evidence"
      "at_result r = Some (collection_json (at_beneficiary r) obs evidence)" "at_revision r = Some (int k + 1)"
      "canonical_projection_of (at_beneficiary r) (collection_projection (at_beneficiary r) obs) = Inr c"
      "k < length (log_of (at_beneficiary r) db)"
      "log_of (at_beneficiary r) db ! k = \<lparr>pb_operation = collection_op (at_id r), pb_evidence = evidence, pb_projection = c\<rparr>"
    using assms(1) unfolding completion_ok_def Let_def by blast
  show ?thesis
    unfolding completion_ok_def Let_def assms(2,3)
    by (rule exI [of _ obs], rule exI [of _ evidence], rule exI [of _ k], rule exI [of _ c]) (use d in \<open>simp add: nth_append\<close>)
qed

lemma bindings_upto_append:
  assumes "sources db' = sources db @ [r]" and "sb_beneficiary (sr_binding r) = b \<Longrightarrow> n < sr_generation r"
  shows "bindings_upto b n db' = bindings_upto b n db"
proof -
  have "\<not> (sb_beneficiary (sr_binding r) = b \<and> sr_generation r \<le> n)" using assms(2) by auto
  then show ?thesis by (auto simp: bindings_upto_def bindings_of_def assms(1) sql_select_def)
qed

lemma no_coordinator:
  assumes "coverage_ok db" and "find_coordinator db b = None"
  shows "sources_of b db = []" and "\<forall>r \<in> set (attempts db). at_beneficiary r \<noteq> b"
proof -
  have "sb_beneficiary (sr_binding r) \<noteq> b" if "r \<in> set (sources db)" for r
    using coverage_okD(6) [OF assms(1) that] assms(2) by (auto simp: source_ok_def)
  then show "sources_of b db = []" by (simp add: sources_of_def sql_select_def)
  have "at_beneficiary r \<noteq> b" if "r \<in> set (attempts db)" for r
    using coverage_okD(7) [OF assms(1) that] assms(2) by (auto simp: attempt_ok_def)
  then show "\<forall>r \<in> set (attempts db). at_beneficiary r \<noteq> b" by blast
qed

text \<open>An attempt keeps its state under changes elsewhere.\<close>

lemma attempt_ok_other:
  assumes "attempt_ok db r" and "find_coordinator db' (at_beneficiary r) = find_coordinator db (at_beneficiary r)"
    and "log_of (at_beneficiary r) db' = log_of (at_beneficiary r) db @ new_entries"
    and "bindings_upto (at_beneficiary r) (at_generation r) db' = bindings_upto (at_beneficiary r) (at_generation r) db"
  shows "attempt_ok db' r"
  using assms(1) completion_ok_mono [OF _ assms(3,4)] unfolding attempt_ok_def assms(2,4) by blast

lemma coordinator_ok_other:
  assumes "coordinator_ok db c" and "co_beneficiary c = b" and "sources_of b db' = sources_of b db" and "log_of b db' = log_of b db"
    and "\<And>r. at_beneficiary r = b \<Longrightarrow> r \<in> set (attempts db') \<longleftrightarrow> r \<in> set (attempts db)"
  shows "coordinator_ok db' c"
proof -
  have explained: "explained db' b = explained db b"
    using assms(3,5) by (auto simp: explained_def fun_eq_iff)
  have ex: "(\<exists>r \<in> set (attempts db'). at_beneficiary r = b \<and> P r) \<longleftrightarrow> (\<exists>r \<in> set (attempts db). at_beneficiary r = b \<and> P r)" for P
    using assms(5) by blast
  show ?thesis
    using assms(1) unfolding coordinator_ok_def Let_def assms(2-4) ex explained .
qed

lemma register_ok:
  assumes ok: "coverage_ok db" and run: "register_source op binding db = Inr (receipt, db')"
  shows "coverage_ok db'"
  using ok run refl
proof (cases rule: register_source_cases)
  case (replay r)
  with ok show ?thesis by simp
next
  case (new generation)
  let ?b = "sb_beneficiary binding"
  let ?r = "\<lparr>sr_binding = binding, sr_operation = op, sr_generation = generation + 1, sr_revision = Some (int (length (log_of ?b db)) + 1)\<rparr>"
  have logs: "\<exists>new_entries. log_of b db' = log_of b db @ new_entries" for b using new(9,10) by (cases "b = ?b") auto
  have keep: "r \<in> set (attempts db') \<longleftrightarrow> r \<in> set (attempts db)" if "at_beneficiary r \<noteq> ?b \<or> at_status r = ''completed''" for r
    using that unfolding new(7) by (rule superseded_keep)
  have sources: "sources_of b db' = sources_of b db @ (if b = ?b then [?r] else [])" for b
    by (simp add: sources_of_def new(6) sql_select_def)
  show ?thesis
    unfolding coverage_ok_def
  proof (intro conjI ballI allI impI)
    show "store_ok db'" by (fact new)
    show "distinct (map (\<lambda>r. sb_source (sr_binding r)) (sources db'))"
      "distinct (map (\<lambda>r. (sb_namespace (sr_binding r), sb_allocation (sr_binding r))) (sources db'))"
      "distinct (map (\<lambda>r. (sb_beneficiary (sr_binding r), sr_operation r)) (sources db'))"
      using coverage_okD(2-4) [OF ok] new(5) by (auto simp: new(6))
    show "distinct (map (\<lambda>r. (at_beneficiary r, at_id r)) (attempts db'))"
      using coverage_okD(5) [OF ok] by (simp add: new(7) superseded_def keys_sql_update)
  next
    fix r assume "r \<in> set (sources db')"
    then show "source_ok db' r"
      using coverage_okD(6) [OF ok, of r] new(1,2,8) by (auto simp: new(6) source_ok_def)
  next
    fix r assume "r \<in> set (attempts db')"
    then obtain r0 where r0: "r0 \<in> set (attempts db)" "r = (if at_beneficiary r0 = ?b \<and> at_status r0 = ''pending'' then r0\<lparr>at_status := ''superseded''\<rparr> else r0)"
      unfolding new(7) in_superseded by blast
    have same: "at_beneficiary r = at_beneficiary r0" "at_generation r = at_generation r0" "at_epoch r = at_epoch r0"
      "at_id r = at_id r0" "at_expected r = at_expected r0" "at_bindings r = at_bindings r0" "no_receipt r = no_receipt r0"
      by (simp_all add: r0(2) no_receipt_def)
    from coverage_okD(7) [OF ok r0(1)] obtain c where c: "find_coordinator db (at_beneficiary r0) = Some c" "1 \<le> at_generation r0"
      "at_generation r0 \<le> co_generation c" "1 \<le> at_epoch r0" "at_epoch r0 \<le> co_epoch c" "trim (at_id r0) \<noteq> []"
      "case at_expected r0 of None \<Rightarrow> True | Some e \<Rightarrow> 0 < e"
      "at_bindings r0 = VArray (map binding_json (bindings_upto (at_beneficiary r0) (at_generation r0) db))"
      "at_status r0 = ''pending'' \<and> no_receipt r0 \<and> co_attempt c = Some (at_id r0) \<and> co_generation c = at_generation r0 \<and> co_epoch c = at_epoch r0 \<or>
       at_status r0 = ''superseded'' \<and> no_receipt r0 \<or> at_status r0 = ''completed'' \<and> completion_ok db r0"
      by (rule attempt_okD)
    have bind: "bindings_upto (at_beneficiary r0) (at_generation r0) db' = bindings_upto (at_beneficiary r0) (at_generation r0) db"
      using c(1,3) new(3) by (intro bindings_upto_append [OF new(6)]) auto
    obtain new_entries where more: "log_of (at_beneficiary r0) db' = log_of (at_beneficiary r0) db @ new_entries" using logs by blast
    show "attempt_ok db' r"
    proof (cases "at_beneficiary r0 = ?b")
      case False
      then have "r = r0" using r0(2) by simp
      with attempt_ok_other [OF coverage_okD(7) [OF ok r0(1)] _ more bind] new(8) False show ?thesis by simp
    next
      case True
      obtain c' where c': "find_coordinator db' (at_beneficiary r0) = Some c'" "co_generation c' = co_generation c + 1" "co_epoch c' = co_epoch c"
        using new(8) c(1) True new(3) by auto
      have "at_status r = ''superseded'' \<and> no_receipt r0 \<or> at_status r = ''completed'' \<and> completion_ok db' r"
      proof (cases "at_status r0 = ''pending''")
        case True
        with c(9) r0(2) \<open>at_beneficiary r0 = ?b\<close> show ?thesis by simp
      next
        case False
        then have "r = r0" by (simp add: r0(2))
        with c(9) False completion_ok_mono [OF _ more bind] show ?thesis by blast
      qed
      with c c' show ?thesis unfolding attempt_ok_def same bind by auto
    qed
  next
    fix b c assume c: "find_coordinator db' b = Some c"
    show "coordinator_ok db' c"
    proof (cases "b = ?b")
      case False
      with c new(8) have c0: "find_coordinator db b = Some c" by simp
      show ?thesis
        using False new(10) keep by (intro coordinator_ok_other [OF coverage_okD(8) [OF ok c0] find_coordinator_id [OF c0]]) (auto simp: sources)
    next
      case True
      have r: "?r \<in> set (sources_of b db')" by (simp add: True sources)
      have c': "c = \<lparr>co_beneficiary = b, co_generation = generation + 1,
          co_epoch = (case find_coordinator db b of None \<Rightarrow> 0 | Some c \<Rightarrow> co_epoch c), co_attempt = None\<rparr>"
        using c new(8) True by simp
      have old: "0 \<le> generation \<and> 0 \<le> co_epoch c \<and> trim b \<noteq> [] \<and>
          map sr_generation (sources_of b db) = map (\<lambda>i. int i + 1) [0..<nat generation] \<and>
          (\<forall>p \<in> set (log_of b db). explained db b p)"
      proof (cases "find_coordinator db b")
        case None
        have "trim b \<noteq> []" using new(1) True by (auto simp: validate_binding_def split: if_splits)
        with None no_coordinator(1) [OF ok None] new(3,4) True show ?thesis by (simp add: c')
      next
        case (Some c0)
        note co = coordinator_okD [OF coverage_okD(8) [OF ok Some] find_coordinator_id [OF Some]]
        from Some True new(3) have "generation = co_generation c0" by simp
        with co(1-4,8) Some show ?thesis by (simp add: c')
      qed
      have upto: "[0..<nat (generation + 1)] = [0..<nat generation] @ [nat generation]"
        using old by (simp add: nat_add_distrib)
      have "explained db' b p" if "p \<in> set (log_of b db)" for p
        using old that keep by (intro explained_mono [of db b p db']) (auto simp: sources)
      moreover have "explained db' b p" if "pb_operation p = registration_op op" for p
        unfolding explained_def using r that by (intro disjI1 bexI [of _ ?r]) simp_all
      ultimately have "\<forall>p \<in> set (log_of b db'). explained db' b p" unfolding True new(9) by (simp add: ball_Un)
      with old upto show ?thesis
        unfolding coordinator_ok_def Let_def by (simp add: c') (simp add: True sources new(9))
    qed
  qed
qed


section \<open>Beginning a collection\<close>

definition new_attempt :: "codepoints \<Rightarrow> codepoints \<Rightarrow> coordinator \<Rightarrow> coverage_db \<Rightarrow> attempt_row" where
  "new_attempt b a c db = \<lparr>at_id = a, at_beneficiary = b, at_epoch = co_epoch c + 1, at_generation = co_generation c,
     at_expected = version (length (log_of b db)), at_bindings = VArray (map binding_json (bindings_upto b (co_generation c) db)),
     at_status = ''pending'', at_evidence = None, at_result = None, at_revision = None\<rparr>"

lemma pending_is_current:
  assumes "coverage_ok db" and "r \<in> set (attempts db)" and "at_status r = ''pending''" and "find_coordinator db (at_beneficiary r) = Some c"
  shows "co_attempt c = Some (at_id r)" and "co_generation c = at_generation r" and "co_epoch c = at_epoch r"
  using coverage_okD(7) [OF assms(1,2)] assms(3,4) by (auto elim!: attempt_okD)

lemma begin_collection_cases:
  assumes ok: "coverage_ok db" and run: "begin_collection b a db = Inr (t, db')"
  obtains (replay) r where "find_attempt db b a = Some r" "t = ticket_of db r" "db' = db"
    | (new) c where "find_coordinator db b = Some c" "find_attempt db b a = None" "trim a \<noteq> []"
      "attempts db' = superseded b (attempts db) @ [new_attempt b a c db]" "sources db' = sources db"
      "\<forall>b'. find_coordinator db' b' = (if b' = b then Some (c\<lparr>co_epoch := co_epoch c + 1, co_attempt := Some a\<rparr>) else find_coordinator db b')"
      "\<forall>b'. log_of b' db' = log_of b' db" "store_ok db'" "cs_users db' = cs_users db"
      "t = ticket_of db' (new_attempt b a c db)"
proof -
  obtain c where c: "find_coordinator db b = Some c" and a: "trim a \<noteq> []"
    and rest: "(case find_attempt db b a of
       Some r \<Rightarrow> rbind (collection_ticket_from_row r) (\<lambda>t. rbind (validate_stored_attempt db t r) (\<lambda>_. Inr (t, db)))
     | None \<Rightarrow> start_attempt b a c db) = Inr (t, db')"
    using run by (auto simp: begin_collection_def rbind_eq_Inr_iff)
  note co = coverage_okD(8) [OF ok c]
  show ?thesis
  proof (cases "find_attempt db b a")
    case (Some r)
    then have "r \<in> set (attempts db)" unfolding find_attempt_Some [OF coverage_okD(5) [OF ok]] by blast
    from attempt_reads [OF ok this] rest Some show ?thesis by (intro replay) auto
  next
    case None
    let ?p = "\<lambda>r. case co_attempt c of None \<Rightarrow> False | Some previous \<Rightarrow> at_beneficiary r = b \<and> at_id r = previous \<and> at_status r = ''pending''"
    have "?p r \<longleftrightarrow> at_beneficiary r = b \<and> at_status r = ''pending''" if "r \<in> set (attempts db)" for r
      using pending_is_current(1) [OF ok that] c by (auto split: option.splits)
    then have sup: "sql_update ?p (\<lambda>r. r\<lparr>at_status := ''superseded''\<rparr>) (attempts db) = superseded b (attempts db)"
      by (auto simp: sql_update_def superseded_def)
    have id_sup: "sql_update (\<lambda>r. False) f t = t" for f :: "attempt_row \<Rightarrow> attempt_row" and t by (simp add: sql_update_def)
    have bindings: "bindings_of (\<lambda>r. sb_beneficiary (sr_binding r) = b) db = bindings_upto b (co_generation c) db"
      using bindings_upto_current [OF co find_coordinator_id [OF c]] by simp
    have rev: "current_revision b db = Inr (version (length (log_of b db)))"
      by (rule current_revision_log [OF coverage_okD(1) [OF ok] coordinator_okD(1) [OF co find_coordinator_id [OF c]]])
    let ?db = "db\<lparr>attempts := superseded b (attempts db) @ [new_attempt b a c db]\<rparr>"
    have supersede: "(case co_attempt c of None \<Rightarrow> db | Some previous \<Rightarrow> supersede (\<lambda>r. at_beneficiary r = b \<and> at_id r = previous) db) =
        db\<lparr>attempts := superseded b (attempts db)\<rparr>"
      unfolding sup [symmetric] by (cases "co_attempt c") (simp_all add: supersede_def id_sup conj_assoc)
    have fields: "db' = update_coordinator b (\<lambda>c'. c'\<lparr>co_epoch := co_epoch c + 1, co_attempt := Some a\<rparr>) ?db"
      "t = \<lparr>ct_beneficiary = b, ct_attempt = a, ct_epoch = co_epoch c + 1, ct_generation = co_generation c,
            ct_expected = version (length (log_of b db)), ct_bindings = bindings_upto b (co_generation c) db,
            ct_status = Pending, ct_completed = None\<rparr>"
      using rest None unfolding start_attempt_def bindings rev supersede Let_def
      by (auto simp: rbind_eq_Inr_iff checked_add_Some_iff insert_attempt_def new_attempt_def sql_insert_def)
    have frame: "sources db' = sources db" "attempts db' = attempts ?db" "cs_users db' = cs_users db" "log_of b' db' = log_of b' db"
      "store_ok db' = store_ok db" for b'
      by (simp_all add: fields(1) update_coordinator_def)
    have coord: "find_coordinator db' b' = (if b' = b then Some (c\<lparr>co_epoch := co_epoch c + 1, co_attempt := Some a\<rparr>) else find_coordinator db b')" for b'
      using c by (auto simp: fields(1) find_coordinator_update option.map_ident)
    have "t = ticket_of db' (new_attempt b a c db)"
      by (simp add: fields(2) ticket_of_def new_attempt_def) (simp add: bindings_upto_def bindings_of_def frame)
    with c None a frame coord coverage_okD(1) [OF ok] show ?thesis by (intro new [of c]) simp_all
  qed
qed


lemma begin_ok:
  assumes ok: "coverage_ok db" and run: "begin_collection b a db = Inr (t, db')"
  shows "coverage_ok db'"
  using ok run
proof (cases rule: begin_collection_cases)
  case (replay r)
  with ok show ?thesis by simp
next
  case (new c)
  let ?r = "new_attempt b a c db"
  note co = coordinator_okD [OF coverage_okD(8) [OF ok new(1)] find_coordinator_id [OF new(1)]]
  have keep: "r \<in> set (attempts db') \<longleftrightarrow> r \<in> set (attempts db) \<or> r = ?r" if "at_beneficiary r \<noteq> b \<or> at_status r = ''completed''" for r
    using superseded_keep [OF that, of "attempts db"] by (auto simp: new(4))
  have bind: "bindings_upto b' n db' = bindings_upto b' n db" for b' n by (simp add: bindings_upto_def bindings_of_def new(5))
  have sources: "sources_of b' db' = sources_of b' db" for b' by (simp add: sources_of_def new(5))
  show ?thesis
    unfolding coverage_ok_def
  proof (intro conjI ballI allI impI)
    show "store_ok db'" by (fact new)
    show "distinct (map (\<lambda>r. sb_source (sr_binding r)) (sources db'))"
      "distinct (map (\<lambda>r. (sb_namespace (sr_binding r), sb_allocation (sr_binding r))) (sources db'))"
      "distinct (map (\<lambda>r. (sb_beneficiary (sr_binding r), sr_operation r)) (sources db'))"
      using coverage_okD(2-4) [OF ok] by (simp_all add: new(5))
    have "map (\<lambda>r. (at_beneficiary r, at_id r)) (superseded b (attempts db)) = map (\<lambda>r. (at_beneficiary r, at_id r)) (attempts db)"
      by (simp add: superseded_def keys_sql_update)
    moreover have "(b, a) \<notin> (\<lambda>r. (at_beneficiary r, at_id r)) ` set (attempts db)"
      using new(2) find_attempt_Some [OF coverage_okD(5) [OF ok], of b a] by auto
    ultimately show "distinct (map (\<lambda>r. (at_beneficiary r, at_id r)) (attempts db'))"
      using coverage_okD(5) [OF ok] unfolding new(4) map_append
      by (simp add: new_attempt_def)
  next
    fix r assume "r \<in> set (sources db')"
    then show "source_ok db' r"
      using coverage_okD(6) [OF ok, of r] new(6) by (auto simp: new(5) source_ok_def)
  next
    fix r assume "r \<in> set (attempts db')"
    then consider "r = ?r" | r0 where "r0 \<in> set (attempts db)" "at_beneficiary r0 \<noteq> b" "r = r0"
      | r0 where "r0 \<in> set (attempts db)" "at_beneficiary r0 = b"
          "r = (if at_status r0 = ''pending'' then r0\<lparr>at_status := ''superseded''\<rparr> else r0)"
    proof -
      from \<open>r \<in> set (attempts db')\<close> have "r = ?r \<or> r \<in> set (superseded b (attempts db))" by (auto simp: new(4))
      then show ?thesis
      proof
        assume "r \<in> set (superseded b (attempts db))"
        then obtain r0 where "r0 \<in> set (attempts db)"
          "r = (if at_beneficiary r0 = b \<and> at_status r0 = ''pending'' then r0\<lparr>at_status := ''superseded''\<rparr> else r0)"
          unfolding in_superseded by blast
        with that(2,3) [of r0] show ?thesis by (cases "at_beneficiary r0 = b") simp_all
      qed (rule that(1))
    qed
    then show "attempt_ok db' r"
    proof cases
      case 1
      have "version (length (log_of b db)) = Some (int (length (log_of b db)))" using co(6) by (simp add: version_def)
      then show ?thesis
        using new(3,6) co(2,3,6) unfolding attempt_ok_def 1 bind by (simp add: new_attempt_def no_receipt_def)
    next
      case 2
      then show ?thesis
        using attempt_ok_other [OF coverage_okD(7) [OF ok, of r0], of db' "[]"] new(6,7) bind by simp
    next
      case 3
      obtain c0 where c0: "find_coordinator db (at_beneficiary r0) = Some c0" "1 \<le> at_generation r0"
        "at_generation r0 \<le> co_generation c0" "1 \<le> at_epoch r0" "at_epoch r0 \<le> co_epoch c0" "trim (at_id r0) \<noteq> []"
        "case at_expected r0 of None \<Rightarrow> True | Some e \<Rightarrow> 0 < e"
        "at_bindings r0 = VArray (map binding_json (bindings_upto (at_beneficiary r0) (at_generation r0) db))"
        "at_status r0 = ''pending'' \<and> no_receipt r0 \<and> co_attempt c0 = Some (at_id r0) \<and> co_generation c0 = at_generation r0 \<and> co_epoch c0 = at_epoch r0 \<or>
         at_status r0 = ''superseded'' \<and> no_receipt r0 \<or> at_status r0 = ''completed'' \<and> completion_ok db r0"
        using coverage_okD(7) [OF ok 3(1)] by (rule attempt_okD)
      have same: "at_beneficiary r = at_beneficiary r0" "at_generation r = at_generation r0" "at_epoch r = at_epoch r0"
        "at_id r = at_id r0" "at_expected r = at_expected r0" "at_bindings r = at_bindings r0" "no_receipt r = no_receipt r0"
        by (simp_all add: 3(3) no_receipt_def)
      have "completion_ok db r0 \<Longrightarrow> completion_ok db' r0"
        by (rule completion_ok_mono [of _ _ _ "[]"]) (simp_all add: new(7) bind)
      then have "at_status r = ''superseded'' \<and> no_receipt r0 \<or> at_status r = ''completed'' \<and> completion_ok db' r"
        using c0(9) by (auto simp: 3(3))
      moreover have "c0 = c" using c0(1) new(1) 3(2) by simp
      ultimately show ?thesis using c0 new(6) 3(2) unfolding attempt_ok_def same bind by auto
    qed
  next
    fix b' c' assume c': "find_coordinator db' b' = Some c'"
    show "coordinator_ok db' c'"
    proof (cases "b' = b")
      case False
      with c' new(6) have c0: "find_coordinator db b' = Some c'" by simp
      show ?thesis
        using False keep new(7) by (intro coordinator_ok_other [OF coverage_okD(8) [OF ok c0] find_coordinator_id [OF c0]])
          (auto simp: sources new_attempt_def)
    next
      case True
      then have c'_def: "c' = c\<lparr>co_epoch := co_epoch c + 1, co_attempt := Some a\<rparr>" using c' new(6) by simp
      have "explained db' b p" if "p \<in> set (log_of b db)" for p
        using co(8) [OF that] keep by (intro explained_mono [of db b p db']) (auto simp: sources)
      moreover have "\<exists>r \<in> set (attempts db'). at_beneficiary r = b \<and> at_id r = a \<and> at_status r = ''pending''"
        by (rule bexI [of _ ?r]) (simp_all add: new(4) new_attempt_def)
      moreover have "\<exists>r \<in> set (attempts db'). at_beneficiary r = b \<and> at_status r = ''completed'' \<and> at_generation r = co_generation c \<and>
          at_revision r = Some (int (length (log_of b db)))" if "cp_reason (pb_projection (last (log_of b db))) = None"
        using co(7) [OF that] keep by blast
      ultimately show ?thesis
        using co(1-4,6) find_coordinator_id [OF new(1)] unfolding coordinator_ok_def Let_def by (simp add: c'_def sources new(7))
    qed
  qed
qed


section \<open>Finishing a collection\<close>

definition completed :: "codepoints \<Rightarrow> jvalue \<Rightarrow> int \<Rightarrow> attempt_row \<Rightarrow> attempt_row" where
  "completed evidence v n r = r\<lparr>at_status := ''completed'', at_evidence := Some evidence, at_result := Some v, at_revision := Some n\<rparr>"

lemma attempt_unique:
  assumes "coverage_ok db" and "r \<in> set (attempts db)" and "r' \<in> set (attempts db)"
    and "at_beneficiary r' = at_beneficiary r" and "at_id r' = at_id r"
  shows "r' = r"
  using coverage_okD(5) [OF assms(1)] assms(2-5) by (auto simp: distinct_map inj_on_def)

lemma sql_update_cong: "(\<And>r. r \<in> set t \<Longrightarrow> p r = q r) \<Longrightarrow> (\<And>r. r \<in> set t \<Longrightarrow> p r \<Longrightarrow> f r = g r) \<Longrightarrow> sql_update p f t = sql_update q g t"
  by (auto simp: sql_update_def)

lemma finish_collection_cases:
  assumes ok: "coverage_ok db" and run: "finish_collection t evidence obs db = Inr (receipt, db')" and b: "ct_beneficiary t = b"
  obtains (replay) r where "db' = db" "r \<in> set (attempts db)" "at_beneficiary r = b" "at_id r = ct_attempt t" "at_status r = ''completed''"
      "at_evidence r = Some evidence" "acceptable b (ct_bindings t) obs" "at_result r = Some (collection_json b obs evidence)"
      "receipt = \<lparr>rc_attempt = at_id r, rc_revision = the (at_revision r), rc_outcome = AlreadyApplied\<rparr>"
      "ct_bindings t = bindings_upto b (at_generation r) db"
    | (commit) r c p where "r \<in> set (attempts db)" "at_beneficiary r = b" "at_id r = ct_attempt t" "at_status r = ''pending''"
      "find_coordinator db b = Some c" "co_generation c = at_generation r" "co_epoch c = at_epoch r" "co_attempt c = Some (at_id r)"
      "ct_bindings t = bindings_upto b (at_generation r) db" "ct_expected t = version (length (log_of b db))"
      "trim evidence \<noteq> []" "acceptable b (ct_bindings t) obs"
      "canonical_projection_of b (collection_projection b obs) = Inr p"
      "attempts db' = sql_update (\<lambda>x. x = r) (completed evidence (collection_json b obs evidence) (int (length (log_of b db)) + 1)) (attempts db)"
      "\<forall>b'. find_coordinator db' b' = (if b' = b then Some (c\<lparr>co_attempt := None\<rparr>) else find_coordinator db b')"
      "log_of b db' = log_of b db @ [\<lparr>pb_operation = collection_op (at_id r), pb_evidence = evidence, pb_projection = p\<rparr>]"
      "\<forall>b'. b' \<noteq> b \<longrightarrow> log_of b' db' = log_of b' db" "sources db' = sources db" "store_ok db'" "cs_users db' = cs_users db"
      "receipt = \<lparr>rc_attempt = at_id r, rc_revision = int (length (log_of b db)) + 1, rc_outcome = Applied\<rparr>"
proof -
  obtain c r stored completion where c: "find_coordinator db b = Some c" and r: "find_attempt db b (ct_attempt t) = Some r"
    and stored: "collection_ticket_from_row r = Inr stored" "validate_stored_attempt db stored r = Inr completion" "same_ticket stored t"
    and rest: "(case ct_status stored of
       Completed \<Rightarrow> rbind (replay_completion t evidence obs completion) (\<lambda>receipt. Inr (receipt, db))
     | Superseded \<Rightarrow> Inl AttemptSuperseded
     | Pending \<Rightarrow> commit_collection t evidence obs c db) = Inr (receipt, db')"
    using run by (auto simp: finish_collection_def b rbind_eq_Inr_iff)
  have mem: "r \<in> set (attempts db)" "at_beneficiary r = b" "at_id r = ct_attempt t"
    using r unfolding find_attempt_Some [OF coverage_okD(5) [OF ok]] by blast+
  note reads = attempt_reads [OF ok mem(1)]
  have st: "stored = ticket_of db r" "completion = completion_of r" using stored reads by simp_all
  have bind: "ct_bindings t = bindings_upto b (at_generation r) db" and gen: "ct_generation t = at_generation r"
    and epoch: "ct_epoch t = at_epoch r" and exp: "ct_expected t = at_expected r"
    using stored(3) mem(2) by (auto simp: same_ticket_def st ticket_of_def)
  show ?thesis
  proof (cases "ct_status stored")
    case Superseded
    with rest show ?thesis by simp
  next
    case Completed
    have "at_status r = ''pending'' \<and> no_receipt r \<or> at_status r = ''superseded'' \<and> no_receipt r \<or> at_status r = ''completed'' \<and> completion_ok db r"
      using coverage_okD(7) [OF ok mem(1)] by (auto simp: attempt_ok_def)
    then have fin: "at_status r = ''completed''" "completion_ok db r" using Completed by (auto simp: st ticket_of_def split: if_splits)
    with rest Completed bind mem show ?thesis
      by (intro replay [of r])
        (auto simp: st replay_completion_def rbind_eq_Inr_iff canonical_collection_iff b completion_of_def completion_ok_def Let_def split: if_splits)
  next
    case Pending
    then have pend: "at_status r = ''pending''" by (auto simp: st ticket_of_def split: if_splits)
    note cur = pending_is_current [OF ok mem(1) pend, unfolded mem(2), OF c]
    have completed_fun: "completed e v n = (\<lambda>r. r\<lparr>at_status := ''completed'', at_evidence := Some e, at_result := Some v, at_revision := Some n\<rparr>)" for e v n
      by (simp add: completed_def fun_eq_iff)
    obtain publication db1 where ev: "trim evidence \<noteq> []" and acc: "acceptable b (ct_bindings t) obs"
      and rev: "current_revision b db = Inr (ct_expected t)"
      and pub: "publish_in b (ct_expected t) (collection_op (at_id r)) evidence (collection_projection b obs) db = Inr (publication, db1)"
      and receipt: "receipt = \<lparr>rc_attempt = at_id r, rc_revision = pr_revision publication, rc_outcome = pr_outcome publication\<rparr>"
      and db': "db' = db1\<lparr>attempts := sql_update (\<lambda>x. at_beneficiary x = b \<and> at_id x = at_id r \<and> at_status x = ''pending'')
            (completed evidence (collection_json b obs evidence) (pr_revision publication)) (attempts db1),
          coordinators := sql_update (\<lambda>c. co_beneficiary c = b \<and> co_attempt c = Some (at_id r)) (\<lambda>c. c\<lparr>co_attempt := None\<rparr>) (coordinators db1)\<rparr>"
      using rest Pending unfolding commit_collection_def complete_attempt_def Let_def b mem(3) [symmetric] completed_fun
      by (auto simp: rbind_eq_Inr_iff canonical_collection_iff require_text_def split: if_splits)
    have fresh: "\<forall>p \<in> set (log_of b db). pb_operation p \<noteq> collection_op (at_id r)"
    proof (intro ballI notI)
      fix p assume p: "p \<in> set (log_of b db)" "pb_operation p = collection_op (at_id r)"
      have "explained db b p" by (rule coordinator_okD(8) [OF coverage_okD(8) [OF ok c] find_coordinator_id [OF c] p(1)])
      then obtain r' where "r' \<in> set (attempts db)" "at_beneficiary r' = b" "at_id r' = at_id r" "at_status r' = ''completed''"
        using p(2) by (auto simp: explained_def operation_ids)
      with attempt_unique [OF ok mem(1), of r'] mem(2) pend show False by simp
    qed
    obtain p where p: "publish_request b (ct_expected t) (collection_op (at_id r)) evidence (collection_projection b obs) = Inr p"
      "store_ok db1" "publication = \<lparr>pr_revision = int (length (log_of b db)) + 1, pr_outcome = Applied\<rparr>"
      "log_of b db1 = log_of b db @ [\<lparr>pb_operation = collection_op (at_id r), pb_evidence = evidence, pb_projection = p\<rparr>]"
      "\<forall>b'. b' \<noteq> b \<longrightarrow> log_of b' db1 = log_of b' db"
      "coordinators db1 = coordinators db" "sources db1 = sources db" "attempts db1 = attempts db" "cs_users db1 = cs_users db"
      "ct_expected t = version (length (log_of b db))"
      using publish_in_spec [OF coverage_okD(1) [OF ok] pub fresh] by blast
    have "sql_update (\<lambda>x. at_beneficiary x = b \<and> at_id x = at_id r \<and> at_status x = ''pending'') f (attempts db) =
        sql_update (\<lambda>x. x = r) f (attempts db)" for f
      using attempt_unique [OF ok mem(1)] mem(2) pend by (intro sql_update_cong) auto
    then have attempts: "attempts db' = sql_update (\<lambda>x. x = r) (completed evidence (collection_json b obs evidence) (int (length (log_of b db)) + 1)) (attempts db)"
      by (simp add: db' p(3,8))
    have coord: "find_coordinator db' b' = (if b' = b then Some (c\<lparr>co_attempt := None\<rparr>) else find_coordinator db b')" for b'
    proof -
      have "find_coordinator db' b' = map_option (\<lambda>c'. if co_beneficiary c' = b \<and> co_attempt c' = Some (at_id r) then c'\<lparr>co_attempt := None\<rparr> else c')
          (find_coordinator db b')"
      proof -
        have "coordinators db' = sql_update (\<lambda>c. co_beneficiary c = b \<and> co_attempt c = Some (at_id r)) (\<lambda>c. c\<lparr>co_attempt := None\<rparr>) (coordinators db)"
          by (simp add: db' p(6))
        then show ?thesis unfolding find_coordinator_def by (simp only:) (rule sql_find_update, simp)
      qed
      then show ?thesis
        using c cur(1) find_coordinator_id by (cases "find_coordinator db b'") (auto split: if_splits)
    qed
    have frame: "log_of b' db' = log_of b' db1" "store_ok db'" "sources db' = sources db" "cs_users db' = cs_users db" for b'
      using p(2,7,9) by (simp_all add: db')
    show ?thesis
    proof (rule commit [OF mem pend c cur(2,3,1) bind p(10) ev acc publish_request_ok(6) [OF p(1)] attempts])
      show "\<forall>b'. find_coordinator db' b' = (if b' = b then Some (c\<lparr>co_attempt := None\<rparr>) else find_coordinator db b')"
        using coord by blast
      show "receipt = \<lparr>rc_attempt = at_id r, rc_revision = int (length (log_of b db)) + 1, rc_outcome = Applied\<rparr>"
        by (simp add: receipt p(3))
    qed (use p(4,5) frame in simp_all)
  qed
qed


lemma finish_ok:
  assumes ok: "coverage_ok db" and run: "finish_collection t evidence obs db = Inr (receipt, db')" and typed: "\<forall>ob \<in> set obs. storable ob"
  shows "coverage_ok db'"
  using ok run refl
proof (cases rule: finish_collection_cases)
  case (replay r)
  with ok show ?thesis by simp
next
  case (commit r c p)
  define b where b: "b = ct_beneficiary t"
  note commit = commit [folded b]
  let ?json = "collection_json b obs evidence" and ?n = "length (log_of b db)"
  let ?r = "completed evidence ?json (int ?n + 1) r"
  note co = coordinator_okD [OF coverage_okD(8) [OF ok commit(5)] find_coordinator_id [OF commit(5)]]
  have mem: "x \<in> set (attempts db') \<longleftrightarrow> x \<in> set (attempts db) \<and> x \<noteq> r \<or> x = ?r" for x
    using commit(1) by (auto simp: commit(14))
  have bind: "bindings_upto b' n db' = bindings_upto b' n db" for b' n by (simp add: bindings_upto_def bindings_of_def commit(18))
  have sources: "sources_of b' db' = sources_of b' db" for b' by (simp add: sources_of_def commit(18))
  have logs: "\<exists>new_entries. log_of b' db' = log_of b' db @ new_entries" for b' using commit(16,17) by (cases "b' = b") auto
  have row: "at_beneficiary ?r = b" "at_id ?r = at_id r" "at_status ?r = ''completed''" "at_generation ?r = at_generation r"
    "at_revision ?r = Some (int ?n + 1)"
    using commit(2) by (simp_all add: completed_def)
  show ?thesis
    unfolding coverage_ok_def
  proof (intro conjI ballI allI impI)
    show "store_ok db'" by (fact commit)
    show "distinct (map (\<lambda>r. sb_source (sr_binding r)) (sources db'))"
      "distinct (map (\<lambda>r. (sb_namespace (sr_binding r), sb_allocation (sr_binding r))) (sources db'))"
      "distinct (map (\<lambda>r. (sb_beneficiary (sr_binding r), sr_operation r)) (sources db'))"
      using coverage_okD(2-4) [OF ok] by (simp_all add: commit(18))
    show "distinct (map (\<lambda>r. (at_beneficiary r, at_id r)) (attempts db'))"
      using coverage_okD(5) [OF ok] by (simp add: commit(14) keys_sql_update completed_def)
  next
    fix x assume "x \<in> set (sources db')"
    then show "source_ok db' x"
      using coverage_okD(6) [OF ok, of x] commit(15) by (auto simp: commit(18) source_ok_def)
  next
    fix x assume "x \<in> set (attempts db')"
    then consider "x = ?r" | "x \<in> set (attempts db)" "x \<noteq> r" "at_beneficiary x = b" | "x \<in> set (attempts db)" "at_beneficiary x \<noteq> b"
      unfolding mem by blast
    then show "attempt_ok db' x"
    proof cases
      case 1
      have "completion_ok db' ?r"
        unfolding completion_ok_def Let_def row bind
        by (rule exI [of _ obs], rule exI [of _ evidence], rule exI [of _ ?n], rule exI [of _ p])
          (use commit typed in \<open>simp add: completed_def\<close>)
      moreover obtain c0 where "find_coordinator db b = Some c0" "1 \<le> at_generation r" "at_generation r \<le> co_generation c0"
        "1 \<le> at_epoch r" "at_epoch r \<le> co_epoch c0" "trim (at_id r) \<noteq> []" "case at_expected r of None \<Rightarrow> True | Some e \<Rightarrow> 0 < e"
        "at_bindings r = VArray (map binding_json (bindings_upto b (at_generation r) db))"
        using coverage_okD(7) [OF ok commit(1)] by (auto simp: attempt_ok_def commit(2))
      ultimately show ?thesis
        using commit(5,15) unfolding 1 attempt_ok_def row bind by (simp add: completed_def)
    next
      case 2
      obtain new_entries where more: "log_of b db' = log_of b db @ new_entries" using logs by blast
      have "completion_ok db x \<Longrightarrow> completion_ok db' x" using completion_ok_mono [of db x db' new_entries] more 2(3) bind by simp
      moreover have "at_status x \<noteq> ''pending''"
      proof
        assume "at_status x = ''pending''"
        with pending_is_current(1) [OF ok 2(1)] commit(5,8) 2(3) have "at_id x = at_id r" by simp
        with attempt_unique [OF ok commit(1) 2(1)] 2(2,3) commit(2) show False by simp
      qed
      ultimately show ?thesis
        using coverage_okD(7) [OF ok 2(1)] commit(5,15) 2(3) unfolding attempt_ok_def bind by auto
    next
      case 3
      then show ?thesis
        using attempt_ok_other [OF coverage_okD(7) [OF ok, of x], of db' "[]"] commit(15,17) bind by simp
    qed
  next
    fix b' c' assume c': "find_coordinator db' b' = Some c'"
    show "coordinator_ok db' c'"
    proof (cases "b' = b")
      case False
      with c' commit(15) have c0: "find_coordinator db b' = Some c'" by simp
      show ?thesis
        using False commit(2,17) mem by (intro coordinator_ok_other [OF coverage_okD(8) [OF ok c0] find_coordinator_id [OF c0]])
          (auto simp: sources completed_def)
    next
      case True
      then have c'_def: "c' = c\<lparr>co_attempt := None\<rparr>" using c' commit(15) by simp
      have "explained db' b q" if "q \<in> set (log_of b db)" for q
      proof (rule explained_mono [OF co(8) [OF that]])
        show "x \<in> set (attempts db')" if "x \<in> set (attempts db)" "at_status x = ''completed''" for x
          unfolding mem using that commit(4) by auto
      qed (simp add: sources)
      moreover have "explained db' b q" if "pb_operation q = collection_op (at_id r)" for q
      proof -
        have "?r \<in> set (attempts db')" unfolding mem by blast
        with row(1-3) that show ?thesis unfolding explained_def by metis
      qed
      ultimately have "\<forall>q \<in> set (log_of b db'). explained db' b q" unfolding commit(16) by (simp add: ball_Un)
      moreover have "\<exists>x \<in> set (attempts db'). at_beneficiary x = b \<and> at_status x = ''completed'' \<and> at_generation x = co_generation c \<and>
          at_revision x = Some (int (length (log_of b db')))"
      proof (rule bexI [of _ ?r])
        show "?r \<in> set (attempts db')" using mem by blast
        show "at_beneficiary ?r = b \<and> at_status ?r = ''completed'' \<and> at_generation ?r = co_generation c \<and>
            at_revision ?r = Some (int (length (log_of b db')))"
          unfolding row commit(6,16) by simp
      qed
      ultimately show ?thesis
        using co(1-4,6) find_coordinator_id [OF commit(5)] unfolding coordinator_ok_def Let_def by (simp add: c'_def sources commit(16))
    qed
  qed
qed


section \<open>Histories\<close>

text \<open>A person without a coordinator may also be published for directly; once sources are coordinated,
  only the coordination publishes.\<close>

inductive coverage_step :: "coverage_db \<Rightarrow> coverage_db \<Rightarrow> bool" where
  register: "register_source op binding db = Inr (registration, db') \<Longrightarrow> coverage_step db db'"
| begin_collection: "begin_collection b a db = Inr (t, db') \<Longrightarrow> coverage_step db db'"
| finish: "finish_collection t evidence obs db = Inr (receipt, db') \<Longrightarrow> \<forall>ob \<in> set obs. storable ob \<Longrightarrow> coverage_step db db'"
| direct: "find_coordinator db b = None \<Longrightarrow> publish b expected op evidence projection db = (r, db') \<Longrightarrow> coverage_step db db'"

definition no_coverage :: "codepoints list \<Rightarrow> coverage_db" where
  "no_coverage users = \<lparr>cs_users = users, heads = [], revisions = [], facts = [], coordinators = [], sources = [], attempts = []\<rparr>"

lemma direct_ok:
  assumes ok: "coverage_ok db" and b: "find_coordinator db b = None" and run: "publish b expected op evidence projection db = (r, db')"
  shows "coverage_ok db'" and "attempts db' = attempts db" and "sources db' = sources db" and "coordinators db' = coordinators db"
proof -
  note same = same_more [of db' db] publish_more [OF run]
  then show frame: "attempts db' = attempts db" "sources db' = sources db" "coordinators db' = coordinators db" by simp_all
  have "store_step db db'" by (rule store_step.publish [OF run])
  with store_step_ok [OF this coverage_okD(1) [OF ok]] have store: "store_ok db'" by blast
  have logs: "log_of b' db' = log_of b' db" if "b' \<noteq> b" for b'
    using publish_spec [OF coverage_okD(1) [OF ok], of b expected op evidence projection] run that
    by (cases "publish_request b expected op evidence projection"; cases "b \<in> set (cs_users db)") fastforce+
  have coord: "find_coordinator db' = find_coordinator db" by (simp add: find_coordinator_def frame fun_eq_iff)
  have bind: "bindings_upto b' n db' = bindings_upto b' n db" for b' n by (simp add: bindings_upto_def bindings_of_def frame)
  have sources: "sources_of b' db' = sources_of b' db" for b' by (simp add: sources_of_def frame)
  show "coverage_ok db'"
    unfolding coverage_ok_def frame coord
  proof (intro conjI ballI allI impI)
    show "store_ok db'" by (fact store)
    fix x assume x: "x \<in> set (attempts db)"
    then have "at_beneficiary x \<noteq> b" using no_coordinator(2) [OF ok b] by blast
    with attempt_ok_other [OF coverage_okD(7) [OF ok x], of db' "[]"] show "attempt_ok db' x" using logs coord bind by simp
  next
    fix b' c assume c: "find_coordinator db b' = Some c"
    then have "b' \<noteq> b" using b by auto
    then show "coordinator_ok db' c"
      by (intro coordinator_ok_other [OF coverage_okD(8) [OF ok c] find_coordinator_id [OF c] sources logs]) (simp_all add: frame)
  next
    fix x assume "x \<in> set (sources db)"
    then show "source_ok db' x" using coverage_okD(6) [OF ok] by (simp add: source_ok_def coord)
  qed (use coverage_okD [OF ok] in simp_all)
qed

lemma coverage_step_ok: "coverage_step db db' \<Longrightarrow> coverage_ok db \<Longrightarrow> coverage_ok db'"
  by (induction rule: coverage_step.induct) (blast intro: register_ok begin_ok finish_ok direct_ok(1))+

lemma coverage_steps_ok: "coverage_step\<^sup>*\<^sup>* db db' \<Longrightarrow> coverage_ok db \<Longrightarrow> coverage_ok db'"
  by (induction rule: rtranclp_induct) (blast intro: coverage_step_ok)+

lemma no_coverage_ok: "coverage_ok (no_coverage users)"
  by (simp add: no_coverage_def coverage_ok_def store_ok_def rows_def sql_select_def find_head_def find_coordinator_def sql_find_def)

text \<open>Attempts that are over stay as they are.\<close>

lemma coverage_step_over:
  assumes "coverage_step db db'" and "coverage_ok db" and "r \<in> set (attempts db)" and "at_status r \<noteq> ''pending''"
  shows "r \<in> set (attempts db')"
  using assms(1)
proof cases
  case (register op binding registration)
  show ?thesis
    using assms(2) register refl
  proof (cases rule: register_source_cases)
    case (new generation)
    with assms(3,4) show ?thesis by (auto simp: superseded_def)
  qed (use assms(3) in simp)
next
  case (begin_collection b a t)
  show ?thesis
    using assms(2) begin_collection
  proof (cases rule: begin_collection_cases)
    case (new c)
    with assms(3,4) show ?thesis by (auto simp: superseded_def)
  qed (use assms(3) in simp)
next
  case (finish t evidence obs receipt)
  show ?thesis
    using assms(2) finish(1) refl
  proof (cases rule: finish_collection_cases)
    case (commit r' c p)
    with assms(3,4) show ?thesis by auto
  qed (use assms(3) in simp)
next
  case (direct b expected op evidence projection r)
  with direct_ok(2) [OF assms(2)] assms(3) show ?thesis by simp
qed

lemma coverage_steps_over:
  "coverage_step\<^sup>*\<^sup>* db db' \<Longrightarrow> coverage_ok db \<Longrightarrow> r \<in> set (attempts db) \<Longrightarrow> at_status r \<noteq> ''pending'' \<Longrightarrow> r \<in> set (attempts db')"
proof (induction rule: rtranclp_induct)
  case (step y z)
  then show ?case using coverage_step_over [OF step.hyps(2)] coverage_steps_ok [OF step.hyps(1)] by blast
qed

text \<open>Sources are never dropped or changed, so what an attempt collected from stays what it was.\<close>

lemma coverage_step_bindings:
  assumes "coverage_step db db'" and "coverage_ok db" and "find_coordinator db b = Some c" and "n \<le> co_generation c"
  shows "bindings_upto b n db' = bindings_upto b n db" and "\<exists>c'. find_coordinator db' b = Some c' \<and> co_generation c \<le> co_generation c'"
proof -
  have same: "bindings_upto b n db' = bindings_upto b n db \<and> (\<exists>c'. find_coordinator db' b = Some c' \<and> co_generation c \<le> co_generation c')"
    if "sources db' = sources db" "find_coordinator db' b = Some c' \<and> co_generation c' = co_generation c" for c'
    using that by (auto simp: bindings_upto_def bindings_of_def)
  have "bindings_upto b n db' = bindings_upto b n db \<and> (\<exists>c'. find_coordinator db' b = Some c' \<and> co_generation c \<le> co_generation c')"
    using assms(1)
  proof cases
    case (register op binding registration)
    show ?thesis
      using assms(2) register refl
    proof (cases rule: register_source_cases)
      case (new generation)
      have "bindings_upto b n db' = bindings_upto b n db"
        using assms(3,4) new(3) by (intro bindings_upto_append [OF new(6)]) auto
      moreover have "\<exists>c'. find_coordinator db' b = Some c' \<and> co_generation c \<le> co_generation c'"
        using new(3,8) assms(3) by auto
      ultimately show ?thesis ..
    qed (use assms(3) in simp)
  next
    case (begin_collection b' a t)
    show ?thesis
      using assms(2) begin_collection
    proof (cases rule: begin_collection_cases)
      case (new c0)
      have "\<exists>c'. find_coordinator db' b = Some c' \<and> co_generation c' = co_generation c" using new(1,6) assms(3) by auto
      with same new(5) show ?thesis by blast
    qed (use assms(3) in simp)
  next
    case (finish t evidence obs receipt)
    show ?thesis
      using assms(2) finish(1) refl
    proof (cases rule: finish_collection_cases)
      case (commit r' c0 p)
      have "\<exists>c'. find_coordinator db' b = Some c' \<and> co_generation c' = co_generation c" using commit(5,15) assms(3) by auto
      with same commit(18) show ?thesis by blast
    qed (use assms(3) in simp)
  next
    case (direct b' expected op evidence projection r)
    note frame = direct_ok [OF assms(2) direct]
    have "find_coordinator db' b = Some c" using assms(3) by (simp add: find_coordinator_def frame)
    with same frame show ?thesis by blast
  qed
  then show "bindings_upto b n db' = bindings_upto b n db" and "\<exists>c'. find_coordinator db' b = Some c' \<and> co_generation c \<le> co_generation c'" by blast+
qed

lemma coverage_steps_bindings:
  assumes "coverage_step\<^sup>*\<^sup>* db db'" and "coverage_ok db" and "find_coordinator db b = Some c" and "n \<le> co_generation c"
  shows "bindings_upto b n db' = bindings_upto b n db \<and> (\<exists>c'. find_coordinator db' b = Some c' \<and> co_generation c \<le> co_generation c')"
  using assms(1)
proof (induction rule: rtranclp_induct)
  case base
  with assms(3) show ?case by blast
next
  case (step y z)
  obtain c' where c': "find_coordinator y b = Some c'" "co_generation c \<le> co_generation c'" using step.IH by blast
  have "coverage_ok y" using coverage_steps_ok [OF step.hyps(1) assms(2)] .
  from coverage_step_bindings [OF step.hyps(2) this c'(1), of n] step.IH c'(2) assms(4) show ?case by force
qed


section \<open>What a loaded projection rests on\<close>

fun given_facts :: "source_observation \<Rightarrow> paid_interval list" where
  "given_facts (ObservedComplete _ _ intervals) = intervals"
| "given_facts (ObservedUnavailable _ _ _) = []"

lemma facts_given:
  assumes "acceptable_observation b e ob"
  shows "set (facts_of b ob) = set (given_facts ob)"
proof (cases ob)
  case (ObservedComplete s ev "is")
  with assms obtain l where "normalise_confirmed_intervals \<lparr>beneficiary_id = b, paid_intervals = is\<rparr> = Inr l"
    by (auto simp: acceptable_observation_def)
  with normalise_Inr(1) [OF this] show ?thesis by (simp add: ObservedComplete facts_of_def)
qed (simp add: facts_of_def)

lemma acceptable_sources:
  assumes "acceptable b bindings obs"
  shows "obs_source ` set obs = sb_source ` set bindings"
proof -
  have "obs_source ` set obs \<subseteq> sb_source ` set bindings"
    using assms by (auto simp: acceptable_def acceptable_observation_def)
  moreover have "card (obs_source ` set obs) = card (sb_source ` set bindings)"
    using assms distinct_card [of "map obs_source obs"] by (simp add: acceptable_def length_remdups_card_conv)
  ultimately show ?thesis by (intro card_subset_eq) simp_all
qed

lemma bindings_sources: "set (bindings_of p db) = sr_binding ` {r \<in> set (sources db). p r}"
  by (auto simp: bindings_of_def)

text \<open>C19: Coverage that can be loaded for a coordinated person covers every source registered for them.
  Whatever registrations, collections and finishes came before, in whatever order, a load that
  succeeds returns exactly the facts of one finished collection in which every source registered
  so far, the latest included, gave a complete observation. A source that was never collected, or
  was unavailable, keeps the projection unavailable.\<close>

theorem loaded_coverage_covers_every_source:
  assumes "coverage_step\<^sup>*\<^sup>* (no_coverage users) db" and "find_coordinator db b = Some c" and "load b db = Inr l"
  shows "\<exists>r obs evidence. r \<in> set (attempts db) \<and> at_beneficiary r = b \<and> at_status r = ''completed'' \<and>
    at_revision r = Some (lc_revision l) \<and> at_result r = Some (collection_json b obs evidence) \<and>
    obs_source ` set obs = {sb_source (sr_binding s) | s. s \<in> set (sources db) \<and> sb_beneficiary (sr_binding s) = b} \<and>
    (\<forall>ob. ob \<in> set obs \<longrightarrow> unavailable ob = None) \<and>
    set (paid_intervals (lc_coverage l)) = (\<Union>ob \<in> set obs. set (given_facts ob))"
proof -
  have ok: "coverage_ok db" by (rule coverage_steps_ok [OF assms(1) no_coverage_ok])
  note co = coverage_okD(8) [OF ok assms(2)]
  note d = coordinator_okD [OF co find_coordinator_id [OF assms(2)]]
  have last: "cp_reason (pb_projection (last (log_of b db))) = None" "lc_revision l = int (length (log_of b db))"
    "paid_intervals (lc_coverage l) = cp_intervals (pb_projection (last (log_of b db)))"
    using assms(3) d(6) unfolding load_log [OF coverage_okD(1) [OF ok] d(1)] by (auto simp: log_load_def split: option.splits)
  then obtain r where r: "r \<in> set (attempts db)" "at_beneficiary r = b" "at_status r = ''completed''"
      "at_generation r = co_generation c" "at_revision r = Some (int (length (log_of b db)))"
    using d(7) by blast
  then have "completion_ok db r" using coverage_okD(7) [OF ok r(1)] by (auto simp: attempt_ok_def)
  then obtain obs evidence k p where k: "acceptable b (bindings_upto b (co_generation c) db) obs"
      "at_result r = Some (collection_json b obs evidence)" "at_revision r = Some (int k + 1)"
      "canonical_projection_of b (collection_projection b obs) = Inr p" "k < length (log_of b db)"
      "log_of b db ! k = \<lparr>pb_operation = collection_op (at_id r), pb_evidence = evidence, pb_projection = p\<rparr>"
    unfolding completion_ok_def Let_def r(2,4) by blast
  have "length (log_of b db) = Suc k" using k(3) r(5) by simp
  then have p: "pb_projection (last (log_of b db)) = p" using k(6) d(6) by (simp add: last_conv_nth)
  have reason: "reason_of obs = None"
    using k(4) last(1) unfolding p collection_projection_def by (cases "reason_of obs") auto
  then have avail: "unavailable ob = None" if "ob \<in> set obs" for ob
  proof (cases "unavailable ob")
    case (Some reason)
    then show ?thesis using reason that by (cases reason) (force simp: reason_of_def split: if_splits)+
  qed
  from reason k(4) have "normalise_confirmed_intervals \<lparr>beneficiary_id = b, paid_intervals = sort_key coverage_id (all_facts b obs)\<rparr> = Inr (cp_intervals p)"
    by (auto simp: collection_projection_def rbind_eq_Inr_iff)
  from normalise_Inr(1) [OF this] have "set (cp_intervals p) = set (all_facts b obs)" by simp
  also have "\<dots> = (\<Union>ob \<in> set obs. set (given_facts ob))"
    using k(1) facts_given by (fastforce simp: all_facts_def acceptable_def)
  finally have facts: "set (paid_intervals (lc_coverage l)) = (\<Union>ob \<in> set obs. set (given_facts ob))" unfolding last(3) p .
  have "obs_source ` set obs = {sb_source (sr_binding s) | s. s \<in> set (sources db) \<and> sb_beneficiary (sr_binding s) = b}"
    using acceptable_sources [OF k(1)] unfolding bindings_upto_current [OF co find_coordinator_id [OF assms(2)]] bindings_sources by auto
  moreover have "at_revision r = Some (lc_revision l)" using r(5) last(2) by simp
  ultimately show ?thesis using r(1-3) k(2) avail facts by blast
qed

section \<open>Replays and stale tickets\<close>

lemma find_attempt_later:
  assumes "coverage_step\<^sup>*\<^sup>* db db'" and "coverage_ok db" and "r \<in> set (attempts db)" and "at_status r \<noteq> ''pending''"
  shows "find_attempt db' (at_beneficiary r) (at_id r) = Some r"
  using coverage_steps_over [OF assms] coverage_okD(5) [OF coverage_steps_ok [OF assms(1,2)]] by (simp add: find_attempt_Some)

lemma finish_ticket:
  assumes ok: "coverage_ok db" and run: "finish_collection t evidence obs db = Inr (receipt, db')"
  obtains r where "r \<in> set (attempts db)" "at_beneficiary r = ct_beneficiary t" "at_id r = ct_attempt t" "same_ticket (ticket_of db r) t"
    "trim (ct_beneficiary t) \<noteq> []" "trim (ct_attempt t) \<noteq> []"
proof -
  obtain r stored where r: "find_attempt db (ct_beneficiary t) (ct_attempt t) = Some r" "collection_ticket_from_row r = Inr stored" "same_ticket stored t"
    and blank: "trim (ct_beneficiary t) \<noteq> []" "trim (ct_attempt t) \<noteq> []"
    using run by (auto simp: finish_collection_def rbind_eq_Inr_iff require_text_def split: if_splits)
  from r(1) have mem: "r \<in> set (attempts db)" "at_beneficiary r = ct_beneficiary t" "at_id r = ct_attempt t"
    unfolding find_attempt_Some [OF coverage_okD(5) [OF ok]] by blast+
  with r attempt_reads(1) [OF ok mem(1)] blank show ?thesis by (intro that [of r]) simp_all
qed

text \<open>The row a successful finish leaves behind, with what a replay of it compares.\<close>

definition finished :: "collection_ticket \<Rightarrow> codepoints \<Rightarrow> source_observation list \<Rightarrow> int \<Rightarrow> coverage_db \<Rightarrow> attempt_row \<Rightarrow> bool" where
  "finished t evidence obs n db r \<longleftrightarrow> r \<in> set (attempts db) \<and> at_beneficiary r = ct_beneficiary t \<and> at_id r = ct_attempt t \<and>
     at_status r = ''completed'' \<and> acceptable (ct_beneficiary t) (ct_bindings t) obs \<and>
     completion_of r = Some \<lparr>sc_evidence = evidence, sc_result = collection_json (ct_beneficiary t) obs evidence, sc_revision = n\<rparr> \<and>
     same_ticket (ticket_of db r) t"

lemma finish_leaves_finished:
  assumes ok: "coverage_ok db" and run: "finish_collection t evidence obs db = Inr (receipt, db')"
  obtains r where "finished t evidence obs (rc_revision receipt) db' r" and "rc_attempt receipt = ct_attempt t"
proof -
  obtain r0 where r0: "r0 \<in> set (attempts db)" "at_beneficiary r0 = ct_beneficiary t" "at_id r0 = ct_attempt t" "same_ticket (ticket_of db r0) t"
    using finish_ticket [OF ok run] by metis
  show ?thesis
    using ok run refl
  proof (cases rule: finish_collection_cases)
    case (replay r)
    with attempt_unique [OF ok r0(1), of r] r0 have r: "r0 = r" by simp
    have "completion_ok db r" using coverage_okD(7) [OF ok replay(2)] replay(5) by (auto simp: attempt_ok_def)
    then obtain n where "at_revision r = Some n" by (auto simp: completion_ok_def Let_def)
    with replay r0 show ?thesis by (intro that [of r]) (simp_all add: finished_def completion_of_def r)
  next
    case (commit r c p)
    with attempt_unique [OF ok r0(1), of r] r0 have r: "r0 = r" by simp
    let ?r = "completed evidence (collection_json (ct_beneficiary t) obs evidence) (int (length (log_of (ct_beneficiary t) db)) + 1) r"
    have "?r \<in> set (attempts db')" using commit(1) by (auto simp: commit(14))
    moreover have "bindings_upto (at_beneficiary r) (at_generation r) db' = bindings_upto (at_beneficiary r) (at_generation r) db"
      by (simp add: bindings_upto_def bindings_of_def commit(18))
    then have "same_ticket (ticket_of db' ?r) t"
      using r0(4) unfolding r same_ticket_def ticket_of_def completed_def by simp metis
    ultimately show ?thesis
      using commit(2,3,12) by (intro that [of ?r]) (simp_all add: finished_def completion_of_def completed_def commit(21))
  qed
qed

lemma finished_later:
  assumes "coverage_step\<^sup>*\<^sup>* db db'" and ok: "coverage_ok db" and fin: "finished t evidence obs n db r"
  shows "finished t evidence obs n db' r" and "find_attempt db' (ct_beneficiary t) (ct_attempt t) = Some r"
    and "\<exists>c. find_coordinator db' (ct_beneficiary t) = Some c"
proof -
  note r = fin [unfolded finished_def]
  obtain c where c: "find_coordinator db (at_beneficiary r) = Some c" "at_generation r \<le> co_generation c"
    using coverage_okD(7) [OF ok, of r] r by (auto elim: attempt_okD)
  note later = coverage_steps_bindings [OF assms(1) ok c]
  have "r \<in> set (attempts db')" using coverage_steps_over [OF assms(1) ok, of r] r by simp
  then show "finished t evidence obs n db' r" using r later [THEN conjunct1] unfolding finished_def same_ticket_def ticket_of_def by simp metis
  show "find_attempt db' (ct_beneficiary t) (ct_attempt t) = Some r" using find_attempt_later [OF assms(1) ok, of r] r by simp
  show "\<exists>c. find_coordinator db' (ct_beneficiary t) = Some c" using later r by auto
qed

lemma finished_replays:
  assumes ok: "coverage_ok db" and fin: "finished t evidence obs n db r" and c: "find_coordinator db (ct_beneficiary t) = Some c"
    and "trim (ct_beneficiary t) \<noteq> []" and "trim (ct_attempt t) \<noteq> []"
  shows "finish_collection t evidence obs db = Inr (\<lparr>rc_attempt = ct_attempt t, rc_revision = n, rc_outcome = AlreadyApplied\<rparr>, db)"
proof -
  note r = fin [unfolded finished_def]
  have find: "find_attempt db (ct_beneficiary t) (ct_attempt t) = Some r" using r coverage_okD(5) [OF ok] by (simp add: find_attempt_Some)
  have completed: "ct_status (ticket_of db r) = Completed" using r by (simp add: ticket_of_def)
  from r attempt_reads [OF ok, of r] assms(4,5) c find completed show ?thesis
    by (simp add: finish_collection_def require_text_def replay_completion_def canonical_collection_iff [THEN iffD2])
qed

text \<open>A collection that was finished stays finished. However many sources were registered and
  collections begun or finished since, sending the same finish again answers the revision that was
  published then and changes nothing.\<close>

theorem finished_collection_replays:
  assumes "coverage_step\<^sup>*\<^sup>* (no_coverage users) db" and "finish_collection t evidence obs db = Inr (receipt, db1)"
    and "\<forall>ob \<in> set obs. storable ob" and "coverage_step\<^sup>*\<^sup>* db1 db2"
  shows "finish_collection t evidence obs db2 = Inr (receipt\<lparr>rc_outcome := AlreadyApplied\<rparr>, db2)"
proof -
  have ok: "coverage_ok db" by (rule coverage_steps_ok [OF assms(1) no_coverage_ok])
  have ok1: "coverage_ok db1" by (rule finish_ok [OF ok assms(2,3)])
  obtain r where r: "finished t evidence obs (rc_revision receipt) db1 r" "rc_attempt receipt = ct_attempt t"
    using finish_leaves_finished [OF ok assms(2)] .
  note later = finished_later [OF assms(4) ok1 r(1)]
  obtain c where c: "find_coordinator db2 (ct_beneficiary t) = Some c" using later(3) by blast
  have "receipt\<lparr>rc_outcome := AlreadyApplied\<rparr> = \<lparr>rc_attempt = ct_attempt t, rc_revision = rc_revision receipt, rc_outcome = AlreadyApplied\<rparr>"
    using r(2) by (cases receipt) simp
  with finished_replays [OF coverage_steps_ok [OF assms(4) ok1] later(1) c] finish_ticket [OF ok assms(2)] show ?thesis by metis
qed

lemma begun_ticket:
  assumes ok: "coverage_ok db" and run: "begin_collection b a db = Inr (t, db')"
  obtains c where "find_coordinator db' b = Some c" "ct_generation t \<le> co_generation c" "ct_beneficiary t = b"
  using ok run
proof (cases rule: begin_collection_cases)
  case (replay r)
  then have "r \<in> set (attempts db)" "at_beneficiary r = b" unfolding find_attempt_Some [OF coverage_okD(5) [OF ok]] by blast+
  with attempt_okD [OF coverage_okD(7) [OF ok, of r]] replay that show ?thesis by (metis ticket_of_def collection_ticket.simps(1,4))
next
  case (new c)
  with that show ?thesis by (simp add: ticket_of_def new_attempt_def)
qed

text \<open>C21: Registering a source retires every ticket issued before it. Whatever is done in between, a
  collection begun before a registration either fails to finish or was finished before it: nothing
  is ever published that leaves the new source out.\<close>

theorem registration_retires_tickets:
  assumes "coverage_step\<^sup>*\<^sup>* (no_coverage users) db" and "begin_collection b a db = Inr (t, db1)" and "coverage_step\<^sup>*\<^sup>* db1 db2"
    and "register_source op binding db2 = Inr (registration, db3)" and "rr_outcome registration = RegApplied" and "sb_beneficiary binding = b"
    and "coverage_step\<^sup>*\<^sup>* db3 db4"
  shows "case finish_collection t evidence obs db4 of Inl e \<Rightarrow> True | Inr (receipt, db5) \<Rightarrow> rc_outcome receipt = AlreadyApplied \<and> db5 = db4"
proof (cases "finish_collection t evidence obs db4")
  case (Inr x)
  obtain receipt db5 where x: "x = (receipt, db5)" by fastforce
  have ok: "coverage_ok db" by (rule coverage_steps_ok [OF assms(1) no_coverage_ok])
  have ok1: "coverage_ok db1" by (rule begin_ok [OF ok assms(2)])
  have ok2: "coverage_ok db2" by (rule coverage_steps_ok [OF assms(3) ok1])
  have ok3: "coverage_ok db3" by (rule register_ok [OF ok2 assms(4)])
  have ok4: "coverage_ok db4" by (rule coverage_steps_ok [OF assms(7) ok3])
  obtain c1 where c1: "find_coordinator db1 b = Some c1" "ct_generation t \<le> co_generation c1" and t: "ct_beneficiary t = b"
    using begun_ticket [OF ok assms(2)] .
  obtain c2 where c2: "find_coordinator db2 b = Some c2" "co_generation c1 \<le> co_generation c2"
    using coverage_steps_bindings [OF assms(3) ok1 c1] by blast
  obtain c3 where c3: "find_coordinator db3 b = Some c3" "co_generation c2 < co_generation c3"
    using ok2 assms(4,6) by (cases rule: register_source_cases) (use c2(1) assms(5) in auto)
  obtain c4 where c4: "find_coordinator db4 b = Some c4" "co_generation c3 \<le> co_generation c4"
    using coverage_steps_bindings [OF assms(7) ok3 c3(1) order.refl] by blast
  obtain r where r: "r \<in> set (attempts db4)" "at_beneficiary r = b" "at_id r = ct_attempt t" "at_generation r = ct_generation t"
    using finish_ticket [OF ok4 Inr [unfolded x]] unfolding t by (auto simp: same_ticket_def ticket_of_def)
  show ?thesis
    using ok4 Inr [unfolded x] t
  proof (cases rule: finish_collection_cases)
    case (replay r')
    then show ?thesis by (simp add: Inr x)
  next
    case (commit r' c p)
    with attempt_unique [OF ok4 r(1), of r'] r have "co_generation c4 = ct_generation t" using c4(1) by auto
    with c1 c2 c3 c4 show ?thesis by simp
  qed
qed simp

section \<open>Nothing stored is found corrupt\<close>

definition sound_error :: "reconciliation_error \<Rightarrow> bool" where
  "sound_error e \<longleftrightarrow> e \<noteq> CorruptRegistration \<and> (\<forall>why. e \<noteq> CorruptAttempt why)"

lemma map_err_eq_Inl_iff: "map_err f x = Inl e \<longleftrightarrow> (\<exists>e'. x = Inl e' \<and> e = f e')"
  by (cases x) auto

lemma claim_errors: "fold_result (claim_interval source) st is = Inl e \<Longrightarrow> sound_error e"
  by (induction "is" arbitrary: st) (auto simp: claim_interval_def rbind_eq_Inl_iff sound_error_def split: option.splits)

lemma observation_errors: "collect_observation b expected st ob = Inl e \<Longrightarrow> sound_error e"
proof (cases ob)
  case (ObservedComplete source evidence intervals)
  assume "collect_observation b expected st ob = Inl e"
  then show ?thesis
    unfolding ObservedComplete collect_observation_def Let_def rbind_eq_Inl_iff source_observation.case map_err_eq_Inl_iff
    by (elim disjE exE conjE claim_errors) (simp_all add: sound_error_def)
qed (auto simp: collect_observation_def rbind_eq_Inl_iff Let_def sound_error_def)

lemma collect_errors: "fold_result (collect_observation b expected) st obs = Inl e \<Longrightarrow> sound_error e"
  by (induction obs arbitrary: st) (auto simp: rbind_eq_Inl_iff dest: observation_errors)

lemma canonical_errors: "canonical_collection b bindings obs evidence = Inl e \<Longrightarrow> sound_error e"
  unfolding canonical_collection_def Let_def rbind_eq_Inl_iff by (auto dest: collect_errors) (auto simp: sound_error_def)

text \<open>C22: What the coordination stored it always accepts again. On tables that only its operations
  have written, beginning and finishing a collection never fail because a stored attempt, its
  bindings, its receipt or its result does not check out.\<close>

theorem nothing_stored_is_corrupt:
  assumes "coverage_step\<^sup>*\<^sup>* (no_coverage users) db"
  shows "begin_collection b a db \<noteq> Inl (CorruptAttempt why) \<and> finish_collection t evidence obs db \<noteq> Inl (CorruptAttempt why)"
proof -
  have ok: "coverage_ok db" by (rule coverage_steps_ok [OF assms no_coverage_ok])
  have found: "r \<in> set (attempts db)" if "find_attempt db b' a' = Some r" for b' a' r
    using that unfolding find_attempt_Some [OF coverage_okD(5) [OF ok]] by blast
  note reads = attempt_reads [OF ok found]
  have "begin_collection b a db \<noteq> Inl (CorruptAttempt why)"
    by (auto simp: begin_collection_def rbind_eq_Inl_iff require_text_def start_attempt_def Let_def insert_attempt_def reads map_err_eq_Inl_iff split: option.splits)
  moreover have "finish_collection t evidence obs db \<noteq> Inl (CorruptAttempt why)"
  proof
    assume "finish_collection t evidence obs db = Inl (CorruptAttempt why)"
    then obtain c r stored completion where r: "find_attempt db (ct_beneficiary t) (ct_attempt t) = Some r"
        "collection_ticket_from_row r = Inr stored" "validate_stored_attempt db stored r = Inr completion"
      and rest: "(case ct_status stored of
         Completed \<Rightarrow> rbind (replay_completion t evidence obs completion) (\<lambda>receipt. Inr (receipt, db))
       | Superseded \<Rightarrow> Inl AttemptSuperseded
       | Pending \<Rightarrow> commit_collection t evidence obs c db) = Inl (CorruptAttempt why)"
      by (auto simp: finish_collection_def rbind_eq_Inl_iff require_text_def reads split: if_splits)
    have st: "stored = ticket_of db r" "completion = completion_of r" using r(2,3) reads [OF r(1)] by simp_all
    have "completion_of r \<noteq> None" if "ct_status (ticket_of db r) = Completed"
      using coverage_okD(7) [OF ok found [OF r(1)]] that
      by (auto simp: ticket_of_def completion_of_def completion_ok_def Let_def elim!: attempt_okD split: if_splits)
    moreover have "commit_collection t evidence obs c db \<noteq> Inl (CorruptAttempt why)"
      by (auto simp: commit_collection_def rbind_eq_Inl_iff require_text_def map_err_eq_Inl_iff publish_in_def complete_attempt_def Let_def
          dest!: canonical_errors split: prod.splits sum.splits) (auto simp: sound_error_def)
    ultimately show False
      using rest by (auto simp: st replay_completion_def rbind_eq_Inl_iff map_err_eq_Inl_iff split: collection_status.splits if_splits)
  qed
  ultimately show ?thesis ..
qed

section \<open>The coordination at work\<close>

definition demo_registered :: coverage_db where
  "demo_registered = \<lparr>cs_users = [[97]], heads = [\<lparr>ch_beneficiary = [97], ch_revision = Some 1\<rparr>],
     revisions = [\<lparr>rv_beneficiary = [97], rv_revision = 1, rv_operation = registration_op [114], rv_expected = None, rv_evidence = [101],
       rv_status = ''unavailable'', rv_reason = Some ''needs_reconciliation'', rv_count = 0\<rparr>], facts = [],
     coordinators = [\<lparr>co_beneficiary = [97], co_generation = 1, co_epoch = 0, co_attempt = None\<rparr>],
     sources = [\<lparr>sr_binding = demo_binding, sr_operation = [114], sr_generation = 1, sr_revision = Some 1\<rparr>], attempts = []\<rparr>"

definition demo_begun :: coverage_db where
  "demo_begun = demo_registered\<lparr>coordinators := [\<lparr>co_beneficiary = [97], co_generation = 1, co_epoch = 1, co_attempt = Some [116]\<rparr>],
     attempts := [\<lparr>at_id = [116], at_beneficiary = [97], at_epoch = 1, at_generation = 1, at_expected = Some 1,
       at_bindings = VArray [binding_json demo_binding], at_status = ''pending'', at_evidence = None, at_result = None, at_revision = None\<rparr>]\<rparr>"

lemma demo_operation: "trim (registration_op [114]) \<noteq> []" "trim (collection_op [116]) \<noteq> []" 
  "trim_by (\<lambda>c. c = 32) (registration_op [114]) \<noteq> []" "trim_by (\<lambda>c. c = 32) (collection_op [116]) \<noteq> []"
  by (simp_all add: registration_op_def collection_op_def trim_def trim_by_def is_whitespace_def ascii_def)

lemma demo_distinct: "registration_op [114] \<noteq> collection_op [116]" "collection_op [116] \<noteq> registration_op [114]" "max_option [1 :: int] = Some 1"
  by (simp_all add: registration_op_def collection_op_def ascii_def max_option_def)

lemmas demo_tables = demo_trim demo_distinct demo_operation sql_select_def sql_find_def sql_exists_iff sql_insert_def sql_update_def sql_count_def find_head_def
  find_coordinator_def update_coordinator_def find_attempt_def insert_coordinator_def insert_source_def insert_attempt_def not_blank_def
  checked_add_def checked_i64_def in_i64_def ok_or_def require_text_def supersede_def bindings_of_def
lemmas demo_store_simps = publish_in_def publish_def validate_identifier_def insert_head_def publish_locked_def write_revision_def insert_revision_def revision_checks_def set_head_def
  load_operation_def current_revision_def insert_fact_def fact_checks_def

lemma demo_register: "register_source [114] demo_binding (no_coverage [[97]]) = Inr (\<lparr>rr_source = [120], rr_generation = 1, rr_revision = Some 1, rr_outcome = RegApplied\<rparr>, demo_registered)"
  unfolding register_source_def demo_binding_def no_coverage_def Let_def
  apply (simp add: demo_tables validate_binding_def current_revision_def validate_identifier_def add_source_def new_source_def)
  apply (simp add: demo_tables demo_store_simps unavailable_projection_def Let_def demo_registered_def demo_binding_def)
  done
lemma demo_begin: "begin_collection [97] [116] demo_registered = Inr (demo_ticket, demo_begun)"
  unfolding begin_collection_def start_attempt_def Let_def demo_registered_def demo_begun_def
  apply (simp add: demo_tables demo_binding_def current_revision_def validate_identifier_def attempt_checks_def demo_ticket_def)
  done


definition demo_finished :: coverage_db where
  "demo_finished = demo_begun\<lparr>heads := [\<lparr>ch_beneficiary = [97], ch_revision = Some 2\<rparr>],
     revisions := revisions demo_begun @ [\<lparr>rv_beneficiary = [97], rv_revision = 2, rv_operation = collection_op [116], rv_expected = Some 1, rv_evidence = [101],
       rv_status = ''complete'', rv_reason = None, rv_count = 2\<rparr>],
     facts := map (\<lambda>i. \<lparr>fr_beneficiary = [97], fr_revision = 2, fr_fact = i\<rparr>) demo_facts,
     coordinators := [\<lparr>co_beneficiary = [97], co_generation = 1, co_epoch = 1, co_attempt = None\<rparr>],
     attempts := [(hd (attempts demo_begun))\<lparr>at_status := ''completed'', at_evidence := Some [101],
       at_result := Some (collection_json [97] demo_observations [101]), at_revision := Some 2\<rparr>]\<rparr>"

lemma demo_stored_bindings: "parse_stored_bindings (VArray [binding_json demo_binding]) [97] = Inr [demo_binding]"
  using parse_stored_bindings_json [of "[demo_binding]" "[97]"] by (simp add: demo_binding_def validate_binding_def demo_trim)

lemma demo_finish: "finish_collection demo_ticket [101] demo_observations demo_begun =
    Inr (\<lparr>rc_attempt = [116], rc_revision = 2, rc_outcome = Applied\<rparr>, demo_finished)"
  unfolding finish_collection_def commit_collection_def Let_def demo_begun_def demo_registered_def
  apply (simp add: demo_tables demo_ticket_def collection_ticket_from_row_def demo_stored_bindings status_from_db_def
    validate_stored_attempt_def validate_stored_bindings_def stored_completion_receipt_def same_ticket_def demo_collected current_revision_def validate_identifier_def)
  apply (simp add: demo_tables demo_binding_def demo_facts_normalised demo_store_simps Let_def complete_attempt_def demo_finished_def demo_begun_def demo_registered_def attempt_checks_def collection_json_def)
  apply (simp add: demo_facts_def demo_tables demo_store_simps)
  done

lemma demo_load: "load [97] demo_finished = Inr \<lparr>lc_revision = 2, lc_coverage = \<lparr>beneficiary_id = [97], paid_intervals = demo_facts\<rparr>\<rparr>"
  unfolding load_def load_revision_def Let_def demo_finished_def demo_begun_def demo_registered_def
  apply (simp add: demo_tables demo_store_simps projection_metadata_def select_facts_def demo_facts_normalised)
  apply (simp add: demo_facts_normalised [unfolded demo_facts_def] demo_facts_def)
  done

lemma demo_typed: "\<forall>ob \<in> set demo_observations. storable ob"
  by (simp add: demo_observations_def storable_def demo_facts_def in_i64_def)

lemma demo_reached_begun: "coverage_step\<^sup>*\<^sup>* (no_coverage [[97]]) demo_begun"
  using coverage_step.register [OF demo_register] coverage_step.begin_collection [OF demo_begin] by (metis r_into_rtranclp rtranclp_trans)

lemma demo_reached: "coverage_step\<^sup>*\<^sup>* (no_coverage [[97]]) demo_finished"
  using demo_reached_begun coverage_step.finish [OF demo_finish demo_typed] by (rule rtranclp.rtrancl_into_rtrancl)

theorem loaded_coverage_covers_every_source_witness:
  "\<exists>r obs evidence. r \<in> set (attempts demo_finished) \<and> at_result r = Some (collection_json [97] obs evidence) \<and>
     obs_source ` set obs = {[120]} \<and> set demo_facts = (\<Union>ob \<in> set obs. set (given_facts ob))"
proof -
  have c: "find_coordinator demo_finished [97] = Some \<lparr>co_beneficiary = [97], co_generation = 1, co_epoch = 1, co_attempt = None\<rparr>"
    by (simp add: find_coordinator_def sql_find_def demo_finished_def)
  have "{sb_source (sr_binding s) | s. s \<in> set (sources demo_finished) \<and> sb_beneficiary (sr_binding s) = [97]} = {[120]}"
    by (auto simp: demo_finished_def demo_begun_def demo_registered_def demo_binding_def)
  with loaded_coverage_covers_every_source [OF demo_reached c demo_load] show ?thesis by auto
qed

theorem finished_collection_replays_witness:
  "finish_collection demo_ticket [101] demo_observations demo_finished =
     Inr (\<lparr>rc_attempt = [116], rc_revision = 2, rc_outcome = AlreadyApplied\<rparr>, demo_finished)"
  using finished_collection_replays [OF demo_reached_begun demo_finish demo_typed rtranclp.rtrancl_refl] by simp

theorem nothing_stored_is_corrupt_witness:
  "begin_collection [97] [116] demo_finished \<noteq> Inl (CorruptAttempt ResultCanonical) \<and>
   finish_collection demo_ticket [101] [] demo_finished \<noteq> Inl (CorruptAttempt ResultCanonical)"
  using nothing_stored_is_corrupt [OF demo_reached] by blast

text \<open>A second source, registered while the collection runs.\<close>

definition demo_second :: source_binding where
  "demo_second = \<lparr>sb_beneficiary = [97], sb_source = [121], sb_namespace = [110], sb_allocation = [109], sb_evidence = [101]\<rparr>"

definition demo_superseded :: coverage_db where
  "demo_superseded = demo_begun\<lparr>heads := [\<lparr>ch_beneficiary = [97], ch_revision = Some 2\<rparr>],
     revisions := revisions demo_begun @ [\<lparr>rv_beneficiary = [97], rv_revision = 2, rv_operation = registration_op [115], rv_expected = Some 1,
       rv_evidence = [101], rv_status = ''unavailable'', rv_reason = Some ''needs_reconciliation'', rv_count = 0\<rparr>],
     coordinators := [\<lparr>co_beneficiary = [97], co_generation = 2, co_epoch = 1, co_attempt = None\<rparr>],
     sources := sources demo_begun @ [\<lparr>sr_binding = demo_second, sr_operation = [115], sr_generation = 2, sr_revision = Some 2\<rparr>],
     attempts := [(hd (attempts demo_begun))\<lparr>at_status := ''superseded''\<rparr>]\<rparr>"

lemma demo_second_text: "trim [121] = [121]" "trim [109] = [109]" "trim [115] = [115]" "trim (registration_op [115]) \<noteq> []"
  "trim_by (\<lambda>c. c = 32) (registration_op [115]) \<noteq> []" "registration_op [115] \<noteq> registration_op [114]" "registration_op [114] \<noteq> registration_op [115]"
  by (simp_all add: registration_op_def trim_def trim_by_def is_whitespace_def ascii_def)

lemma demo_register_second: "register_source [115] demo_second demo_begun =
    Inr (\<lparr>rr_source = [121], rr_generation = 2, rr_revision = Some 2, rr_outcome = RegApplied\<rparr>, demo_superseded)"
  unfolding register_source_def demo_second_def demo_begun_def demo_registered_def demo_binding_def Let_def
  apply (simp add: demo_tables demo_second_text validate_binding_def current_revision_def validate_identifier_def add_source_def new_source_def)
  apply (simp add: demo_tables demo_second_text demo_store_simps unavailable_projection_def Let_def demo_superseded_def demo_begun_def
      demo_registered_def demo_binding_def demo_second_def)
  done

theorem registration_retires_tickets_witness:
  "case finish_collection demo_ticket [101] demo_observations demo_superseded of
     Inl e \<Rightarrow> True | Inr (receipt, db) \<Rightarrow> rc_outcome receipt = AlreadyApplied \<and> db = demo_superseded"
proof -
  have reached: "coverage_step\<^sup>*\<^sup>* (no_coverage [[97]]) demo_registered"
    using coverage_step.register [OF demo_register] by (rule r_into_rtranclp)
  show ?thesis
    by (rule registration_retires_tickets [OF reached demo_begin rtranclp.rtrancl_refl demo_register_second _ _ rtranclp.rtrancl_refl])
      (simp_all add: demo_second_def)
qed

end
