(* ===== verification/Dotenv.thy ===== *)
theory Dotenv
  imports Text
begin

text \<open>
  The plaintext files of the command line client: the \<open>.env\<close> parser of \<open>sotto import\<close>
  (\<open>crates/cli/src/dotenv.rs\<close>) and the renderers of \<open>sotto export\<close> (\<open>crates/cli/src/export.rs\<close>),
  over code points. JSON rendering is the library's: \<open>to_json\<close> is a parameter, applied to the map the
  code builds.
\<close>

subsection \<open>The parser\<close>

datatype dotenv_error =
    ExpectedAssignment nat
  | InvalidName nat codepoints

definition ascii_alphabetic :: "nat \<Rightarrow> bool" where
  "ascii_alphabetic c \<longleftrightarrow> (65 \<le> c \<and> c \<le> 90) \<or> (97 \<le> c \<and> c \<le> 122)"

definition ascii_alphanumeric :: "nat \<Rightarrow> bool" where
  "ascii_alphanumeric c \<longleftrightarrow> ascii_alphabetic c \<or> (48 \<le> c \<and> c \<le> 57)"

definition is_valid_key :: "codepoints \<Rightarrow> bool" where
  "is_valid_key key \<longleftrightarrow>
     (case key of [] \<Rightarrow> False
      | c # cs \<Rightarrow> (ascii_alphabetic c \<or> c = 95) \<and> list_all (\<lambda>c. ascii_alphanumeric c \<or> c = 95) cs)"

definition strip_pair :: "codepoints \<Rightarrow> nat \<Rightarrow> codepoints option" where
  "strip_pair s quote =
     (if 2 \<le> length s \<and> hd s = quote \<and> last s = quote then Some (butlast (tl s)) else None)"

fun unescape_double :: "codepoints \<Rightarrow> codepoints" where
  "unescape_double [] = []"
| "unescape_double [c] = [c]"
| "unescape_double (c # d # cs) =
     (if c \<noteq> 92 then c # unescape_double (d # cs)
      else if d = 110 then 10 # unescape_double cs
      else if d = 114 then 13 # unescape_double cs
      else if d = 116 then 9 # unescape_double cs
      else if d = 92 then 92 # unescape_double cs
      else if d = 34 then 34 # unescape_double cs
      else 92 # d # unescape_double cs)"

definition parse_value :: "codepoints \<Rightarrow> codepoints" where
  "parse_value raw =
     (let trimmed = trim raw in
      case strip_pair trimmed 39 of
        Some inner \<Rightarrow> inner
      | None \<Rightarrow>
          (case strip_pair trimmed 34 of
             Some inner \<Rightarrow> unescape_double inner
           | None \<Rightarrow> trimmed))"

fun parse_lines :: "nat \<Rightarrow> codepoints list \<Rightarrow> dotenv_error + (codepoints \<times> codepoints) list" where
  "parse_lines number [] = Inr []"
| "parse_lines number (raw # rest) =
     (let line = trim_start raw in
      if line = [] \<or> hd line = 35 then parse_lines (number + 1) rest
      else
        let line = (case strip_text_prefix (ascii ''export '') line of Some l \<Rightarrow> l | None \<Rightarrow> line) in
        rbind (ok_or (split_text_once 61 line) (ExpectedAssignment (number + 1))) (\<lambda>(key, value).
        let key = trim key in
        rbind (require (is_valid_key key) (InvalidName (number + 1) key)) (\<lambda>_.
        rbind (parse_lines (number + 1) rest) (\<lambda>out.
        Inr ((key, parse_value value) # out)))))"

definition parse_dotenv :: "codepoints \<Rightarrow> dotenv_error + (codepoints \<times> codepoints) list" where
  "parse_dotenv text =
     (let text = (case strip_text_prefix [0xFEFF] text of Some t \<Rightarrow> t | None \<Rightarrow> text) in
      parse_lines 0 (lines text))"

subsection \<open>The renderers\<close>

datatype export_format = Dotenv | Shell | Json

fun dotenv_escape :: "nat \<Rightarrow> codepoints" where
  "dotenv_escape c =
     (if c = 92 then [92, 92]
      else if c = 34 then [92, 34]
      else if c = 10 then [92, 110]
      else if c = 13 then [92, 114]
      else [c])"

definition dotenv_quote :: "codepoints \<Rightarrow> codepoints" where
  "dotenv_quote value = 34 # concat (map dotenv_escape value) @ [34]"

definition dotenv :: "(codepoints \<times> codepoints) list \<Rightarrow> codepoints" where
  "dotenv entries = concat (map (\<lambda>(key, value). key @ [61] @ dotenv_quote value @ [10]) entries)"

definition shell_quote :: "codepoints \<Rightarrow> codepoints" where
  "shell_quote value = 39 # concat (map (\<lambda>c. if c = 39 then [39, 92, 39, 39] else [c]) value) @ [39]"

definition shell :: "(codepoints \<times> codepoints) list \<Rightarrow> codepoints" where
  "shell entries =
     concat (map (\<lambda>(key, value). ascii ''export '' @ key @ [61] @ shell_quote value @ [10]) entries)"

fun btree_insert :: "codepoints \<Rightarrow> codepoints \<Rightarrow> (codepoints \<times> codepoints) list \<Rightarrow> (codepoints \<times> codepoints) list" where
  "btree_insert k v [] = [(k, v)]"
| "btree_insert k v ((k', v') # m) =
     (if k = k' then (k, v) # m else if k < k' then (k, v) # (k', v') # m else (k', v') # btree_insert k v m)"

definition json :: "((codepoints \<times> codepoints) list \<Rightarrow> codepoints) \<Rightarrow> (codepoints \<times> codepoints) list \<Rightarrow> codepoints" where
  "json to_json entries = to_json (foldl (\<lambda>m (k, v). btree_insert k v m) [] entries)"

definition render ::
    "((codepoints \<times> codepoints) list \<Rightarrow> codepoints) \<Rightarrow> export_format \<Rightarrow> (codepoints \<times> codepoints) list \<Rightarrow> codepoints" where
  "render to_json format entries =
     (case format of Dotenv \<Rightarrow> dotenv entries | Shell \<Rightarrow> shell entries | Json \<Rightarrow> json to_json entries)"

subsection \<open>Importing what was exported\<close>

definition dotenv_line :: "codepoints \<times> codepoints \<Rightarrow> codepoints" where
  "dotenv_line = (\<lambda>(key, value). key @ 61 # dotenv_quote value)"

lemma split_newlines_line:
  "10 \<notin> set l \<Longrightarrow> split_newlines acc (l @ 10 # s) =
     (let r = rev l @ acc in rev (if r \<noteq> [] \<and> hd r = 13 then tl r else r)) # split_newlines [] s"
  by (induction l arbitrary: acc) (auto simp: Let_def)

lemma escape_no_newline: "10 \<notin> set (concat (map dotenv_escape v))"
  by (auto split: if_splits)

lemma unescape_escape: "unescape_double (concat (map dotenv_escape v)) = v"
proof (induction v)
  case (Cons c v)
  have plain: "unescape_double (c # s) = c # unescape_double s" if "c \<noteq> 92" for s
    using that by (cases s) auto
  have esc: "dotenv_escape c = (if c = 92 then [92, 92] else if c = 34 then [92, 34] else if c = 10 then [92, 110]
      else if c = 13 then [92, 114] else [c])" by simp
  show ?case using Cons plain by (simp add: esc del: dotenv_escape.simps)
qed simp

lemma valid_key_no:
  assumes "is_valid_key key" and "\<not> (ascii_alphanumeric c \<or> c = 95)"
  shows "c \<notin> set key"
  using assms by (auto simp: is_valid_key_def ascii_alphanumeric_def list_all_iff split: list.splits)

lemma valid_key_cons: "is_valid_key key \<Longrightarrow> \<exists>c cs. key = c # cs \<and> (ascii_alphabetic c \<or> c = 95)"
  by (cases key) (auto simp: is_valid_key_def)

lemma valid_key_no_whitespace: "is_valid_key key \<Longrightarrow> c \<in> set key \<Longrightarrow> \<not> is_whitespace c"
  using valid_key_no [of key c] by (auto simp: is_whitespace_def ascii_alphanumeric_def ascii_alphabetic_def)

lemma dropWhile_hd: "s \<noteq> [] \<Longrightarrow> \<not> p (hd s) \<Longrightarrow> dropWhile p s = s"
  by (cases s) auto

lemma trim_ends: "s \<noteq> [] \<Longrightarrow> \<not> is_whitespace (hd s) \<Longrightarrow> \<not> is_whitespace (last s) \<Longrightarrow> trim s = s"
  by (simp add: trim_def trim_by_def dropWhile_hd hd_rev)

lemma parse_value_quote: "parse_value (dotenv_quote v) = v"
proof -
  let ?q = "34 # concat (map dotenv_escape v) @ [34]"
  have ws: "\<not> is_whitespace 34" by (simp add: is_whitespace_def)
  then have "trim ?q = ?q" by (intro trim_ends) simp_all
  then have "parse_value ?q = unescape_double (concat (map dotenv_escape v))"
    by (simp add: parse_value_def strip_pair_def del: dotenv_escape.simps)
  then show ?thesis by (simp only: dotenv_quote_def unescape_escape)
qed

lemma split_at_key: "61 \<notin> set k \<Longrightarrow> split_text_once 61 (k @ 61 # v) = Some (k, v)"
  by (induction k) auto

lemma no_export_prefix:
  assumes "strip_text_prefix p (k @ 61 # v) = Some l" and "61 \<notin> set p"
  shows "set p \<subseteq> set k"
  using assms
proof (induction p arbitrary: k)
  case (Cons x p)
  then show ?case by (cases k) (auto split: if_splits)
qed simp

lemma parse_line:
  assumes key: "is_valid_key key"
  shows "parse_lines n (dotenv_line (key, v) # rest) = rbind (parse_lines (n + 1) rest) (\<lambda>out. Inr ((key, v) # out))"
proof -
  obtain c cs where c: "key = c # cs" "ascii_alphabetic c \<or> c = 95" using valid_key_cons [OF key] by blast
  have "\<not> is_whitespace c" "c \<noteq> 35"
    using c(2) by (auto simp: is_whitespace_def ascii_alphabetic_def)
  then have start: "trim_start (key @ 61 # dotenv_quote v) = key @ 61 # dotenv_quote v"
    and hd: "hd (key @ 61 # dotenv_quote v) \<noteq> 35"
    by (simp_all add: trim_start_def c(1))
  have "32 \<notin> set key" "61 \<notin> set key"
    using key by (simp_all add: valid_key_no ascii_alphanumeric_def ascii_alphabetic_def)
  then have "strip_text_prefix (ascii ''export '') (key @ 61 # dotenv_quote v) = None"
    using no_export_prefix [of "ascii ''export ''" key "dotenv_quote v"]
    by (cases "strip_text_prefix (ascii ''export '') (key @ 61 # dotenv_quote v)") (auto simp: ascii_def)
  moreover have "trim key = key"
    using valid_key_no_whitespace [OF key] by (intro trim_ends) (auto simp: c(1))
  ultimately show ?thesis
    using start hd key split_at_key [OF \<open>61 \<notin> set key\<close>]
    by (simp add: dotenv_line_def Let_def parse_value_quote ok_or_def require_def)
qed

lemma lines_dotenv:
  assumes "\<forall>(key, value) \<in> set entries. is_valid_key key"
  shows "lines (dotenv entries) = map dotenv_line entries"
  unfolding lines_def using assms
proof (induction entries)
  case (Cons e entries)
  obtain key val where e: "e = (key, val)" by (cases e)
  have "10 \<notin> set key" using Cons.prems e by (simp add: valid_key_no ascii_alphanumeric_def ascii_alphabetic_def)
  then have "10 \<notin> set (dotenv_line e)"
    using escape_no_newline [of val] by (simp add: dotenv_line_def e dotenv_quote_def del: dotenv_escape.simps)
  moreover have "hd (rev (dotenv_line e)) \<noteq> 13" by (simp add: dotenv_line_def e dotenv_quote_def)
  moreover have "dotenv (e # entries) = dotenv_line e @ 10 # dotenv entries"
    by (simp add: dotenv_def dotenv_line_def e)
  ultimately show ?case using Cons by (simp add: split_newlines_line)
qed (simp add: dotenv_def)

lemma parse_dotenv_lines:
  "\<forall>(key, value) \<in> set entries. is_valid_key key \<Longrightarrow> parse_lines n (map dotenv_line entries) = Inr entries"
proof (induction entries arbitrary: n)
  case (Cons e entries)
  then show ?case by (cases e) (simp add: parse_line del: parse_lines.simps(2))
qed simp

text \<open>Importing a dotenv file this client exported gives back exactly the exported names and values,
  in order: quotes, backslashes, line breaks, spaces, dollar and hash signs in a value all survive,
  and nothing in a value can start a new assignment.\<close>

theorem dotenv_export_import:
  assumes "\<forall>(key, value) \<in> set entries. is_valid_key key"
  shows "parse_dotenv (render to_json Dotenv entries) = Inr entries"
proof -
  have "strip_text_prefix [0xFEFF] (dotenv entries) = None"
  proof (cases entries)
    case (Cons e es)
    obtain key val where e: "e = (key, val)" by (cases e)
    with Cons assms valid_key_cons [of key] show ?thesis
      by (auto simp: dotenv_def ascii_alphabetic_def)
  qed (simp add: dotenv_def)
  then show ?thesis
    using assms by (simp add: parse_dotenv_def render_def lines_dotenv parse_dotenv_lines)
qed

theorem dotenv_export_import_witness:
  "parse_dotenv (render (\<lambda>m. []) Dotenv [(ascii ''A'', ascii ''x y#'' @ [10, 34, 92, 13]), (ascii ''_b1'', [])]) =
     Inr [(ascii ''A'', ascii ''x y#'' @ [10, 34, 92, 13]), (ascii ''_b1'', [])]"
  by (rule dotenv_export_import)
    (simp add: ascii_def is_valid_key_def ascii_alphanumeric_def ascii_alphabetic_def)

subsection \<open>Shell quoting\<close>

text \<open>How a POSIX shell reads one word made of single-quoted parts and backslash escapes: the value of
  the word, or nothing when a quote is left open or an unquoted character would end or expand it.\<close>

fun posix_word :: "bool \<Rightarrow> codepoints \<Rightarrow> codepoints option" where
  "posix_word quoted [] = (if quoted then None else Some [])"
| "posix_word True (c # s) = (if c = 39 then posix_word False s else map_option ((#) c) (posix_word True s))"
| "posix_word False (c # s) =
     (if c = 39 then posix_word True s
      else if c = 92 then (case s of [] \<Rightarrow> None | d # s' \<Rightarrow> if d = 10 then None else map_option ((#) d) (posix_word False s'))
      else None)"

lemma posix_word_escaped:
  "posix_word True (concat (map (\<lambda>c. if c = 39 then [39, 92, 39, 39] else [c]) v) @ [39]) = Some v"
  by (induction v) auto

text \<open>A shell evaluating an exported line assigns exactly the secret's value: the quoted text is one
  word, nothing in it is expanded or executed, and no value can close the quotes early.\<close>

theorem shell_quote_is_literal: "posix_word False (shell_quote v) = Some v"
  by (simp add: shell_quote_def posix_word_escaped)

end
