(* ===== verification/Acl.thy ===== *)
theory Acl
  imports Org
begin

text \<open>
  The access-control machine the server promises: who belongs to which organisation in which role,
  where each project and environment lives, who holds a key to which environment and which machine
  tokens are live; which organisations are open for writes and which are only tombstones. A step is
  one thing a user may do, with the authority it needs, or a step of the deletion lifecycle; nothing
  else changes access. \<open>Server_Steps\<close> and \<open>System\<close> show that everything the server does is such a step.
\<close>

record acl =
  known_orgs :: "string set"
  open_orgs :: "string set"
  gone_orgs :: "string set"
  role_of :: "string \<Rightarrow> string \<Rightarrow> string option"
  project_home :: "string \<Rightarrow> (string \<times> string option) option"
  env_home :: "string \<Rightarrow> (string \<times> string option) option"
  holds :: "(string \<times> string) set"
  machines :: "(string \<times> string \<times> string option) set"

text \<open>A user acts for an organisation open for writes in the role their membership gives them, and
  manages a project or environment as its personal owner or as a manager of its organisation.\<close>

definition acts_as :: "acl \<Rightarrow> string \<Rightarrow> string \<Rightarrow> role \<Rightarrow> bool" where
  "acts_as a org u r \<longleftrightarrow> org \<in> open_orgs a \<and> role_of a org u = Some (as_str r)"

definition manager :: "acl \<Rightarrow> string \<Rightarrow> string \<Rightarrow> bool" where
  "manager a org u \<longleftrightarrow> (\<exists>r. acts_as a org u r \<and> can_manage_members r)"

definition manages :: "acl \<Rightarrow> string \<Rightarrow> string \<times> string option \<Rightarrow> bool" where
  "manages a u home \<longleftrightarrow> (case snd home of None \<Rightarrow> fst home = u | Some org \<Rightarrow> manager a org u)"

definition in_org :: "acl \<Rightarrow> string \<Rightarrow> string \<Rightarrow> bool" where
  "in_org a org e \<longleftrightarrow> (\<exists>ow. env_home a e = Some (ow, Some org))"

definition set_role :: "string \<Rightarrow> string \<Rightarrow> string option \<Rightarrow> acl \<Rightarrow> acl" where
  "set_role org v x a = a\<lparr>role_of := (\<lambda>o' w. if o' = org \<and> w = v then x else role_of a o' w)\<rparr>"

abbreviation owner :: string where "owner \<equiv> ''owner''"

inductive acl_step :: "string option \<Rightarrow> acl \<Rightarrow> acl \<Rightarrow> bool" where
  idle: "acl_step u a a"
| found: "org \<notin> known_orgs a \<Longrightarrow>
    acl_step (Some u) a (set_role org u (Some owner)
      (a\<lparr>known_orgs := insert org (known_orgs a), open_orgs := insert org (open_orgs a)\<rparr>))"
| join: "acts_as a org u r \<Longrightarrow> can_manage_members r \<Longrightarrow> role = Owner \<longrightarrow> r = Owner \<Longrightarrow> role_of a org v = None \<Longrightarrow>
    acl_step (Some u) a (set_role org v (Some (as_str role))
      (a\<lparr>holds := {(e, w) \<in> holds a. \<not> (w = v \<and> in_org a org e)}\<rparr>))"
| change: "acts_as a org u r \<Longrightarrow> can_manage_members r \<Longrightarrow> role_of a org v = Some cur \<Longrightarrow>
    role = Owner \<or> cur = owner \<longrightarrow> r = Owner \<Longrightarrow>
    cur = owner \<longrightarrow> role = Owner \<or> (\<exists>w. w \<noteq> v \<and> role_of a org w = Some owner) \<Longrightarrow>
    acl_step (Some u) a (set_role org v (Some (as_str role)) a)"
| leave: "acts_as a org u r \<Longrightarrow> can_manage_members r \<Longrightarrow> role_of a org v = Some cur \<Longrightarrow>
    cur = owner \<longrightarrow> r = Owner \<and> (\<exists>w. w \<noteq> v \<and> role_of a org w = Some owner) \<Longrightarrow>
    (\<And>e w. in_org a org e \<Longrightarrow> (e, v) \<in> holds a \<Longrightarrow> (e, w) \<in> holds a \<Longrightarrow> w \<noteq> v \<Longrightarrow> role_of a org w \<noteq> None \<Longrightarrow>
      (e, u) \<in> holds a) \<Longrightarrow>
    acl_step (Some u) a (set_role org v None
      (a\<lparr>holds := {(e, w) \<in> holds a. \<not> (w = v \<and> in_org a org e)},
         machines := {(t, e, c) \<in> machines a. \<not> (c = Some v \<and> in_org a org e)}\<rparr>))"
| project: "project_home a p = None \<Longrightarrow> manages a u (u, org) \<Longrightarrow>
    acl_step (Some u) a (a\<lparr>project_home := (project_home a)(p \<mapsto> (u, org))\<rparr>)"
| environment: "env_home a e = None \<Longrightarrow> project_home a p = Some home \<Longrightarrow> manages a u home \<Longrightarrow>
    acl_step (Some u) a (a\<lparr>env_home := (env_home a)(e \<mapsto> home), holds := insert (e, u) (holds a)\<rparr>)"
| share: "in_org a org e \<Longrightarrow> manager a org u \<Longrightarrow> role_of a org v \<noteq> None \<Longrightarrow>
    acl_step (Some u) a (a\<lparr>holds := insert (e, v) (holds a)\<rparr>)"
| rekey: "in_org a org e \<Longrightarrow> manager a org u \<Longrightarrow> (\<And>v. v \<in> vs \<Longrightarrow> role_of a org v \<noteq> None) \<Longrightarrow> u \<in> vs \<Longrightarrow>
    acl_step (Some u) a (a\<lparr>holds := {(e', w) \<in> holds a. e' \<noteq> e} \<union> {e} \<times> vs\<rparr>)"
| enrol: "env_home a e = Some home \<Longrightarrow> manages a u home \<Longrightarrow>
    acl_step (Some u) a (a\<lparr>machines := insert (t, e, Some u) (machines a)\<rparr>)"
| revoke: "env_home a e = Some home \<Longrightarrow> manages a u home \<Longrightarrow>
    acl_step (Some u) a (a\<lparr>machines := {(t', e', c) \<in> machines a. \<not> (t' = t \<and> e' = e)}\<rparr>)"
| reset: "(\<And>org. role_of a org u \<noteq> None \<Longrightarrow> org \<in> open_orgs a) \<Longrightarrow>
    acl_step (Some u) a (a\<lparr>holds := {(e, w) \<in> holds a. w \<noteq> u}\<rparr>)"

inductive_cases acl_stepE: "acl_step u a a'"

subsection \<open>What every reachable state of the machine satisfies\<close>

text \<open>The user who may be on the other end of an access path into an environment: a current member of
  its organisation, or the owner of a personal environment.\<close>

definition entitled :: "acl \<Rightarrow> string \<Rightarrow> string \<Rightarrow> bool" where
  "entitled a e v \<longleftrightarrow> (\<exists>ow org. env_home a e = Some (ow, org) \<and>
     (case org of None \<Rightarrow> v = ow | Some org \<Rightarrow> role_of a org v \<noteq> None))"

definition acl_inv :: "acl \<Rightarrow> bool" where
  "acl_inv a \<longleftrightarrow>
     (\<forall>e v. (e, v) \<in> holds a \<longrightarrow> entitled a e v) \<and>
     (\<forall>t e c. (t, e, c) \<in> machines a \<longrightarrow> (\<exists>v. c = Some v \<and> entitled a e v)) \<and>
     (\<forall>org \<in> known_orgs a - gone_orgs a. \<exists>v. role_of a org v = Some owner) \<and>
     (\<forall>org v. role_of a org v \<noteq> None \<longrightarrow> org \<in> known_orgs a - gone_orgs a) \<and> gone_orgs a \<subseteq> known_orgs a"

lemma acl_invE:
  assumes "acl_inv a"
  shows "(e, v) \<in> holds a \<Longrightarrow> entitled a e v"
    and "(t, e, c) \<in> machines a \<Longrightarrow> \<exists>v. c = Some v \<and> entitled a e v"
    and "org \<in> known_orgs a \<Longrightarrow> org \<notin> gone_orgs a \<Longrightarrow> \<exists>v. role_of a org v = Some owner"
    and "role_of a org v = Some x \<Longrightarrow> org \<in> known_orgs a \<and> org \<notin> gone_orgs a"
    and "gone_orgs a \<subseteq> known_orgs a"
  using assms unfolding acl_inv_def by blast+

lemma set_role_simps [simp]:
  "role_of (set_role org v x a) org' w = (if org' = org \<and> w = v then x else role_of a org' w)"
  "known_orgs (set_role org v x a) = known_orgs a" "gone_orgs (set_role org v x a) = gone_orgs a" "open_orgs (set_role org v x a) = open_orgs a"
  "project_home (set_role org v x a) = project_home a" "env_home (set_role org v x a) = env_home a"
  "holds (set_role org v x a) = holds a" "machines (set_role org v x a) = machines a"
  by (simp_all add: set_role_def)

lemma entitled_mono:
  assumes "entitled a e v" and "env_home a' e = env_home a e"
    and "\<And>ow org. env_home a e = Some (ow, Some org) \<Longrightarrow> role_of a org v \<noteq> None \<Longrightarrow> role_of a' org v \<noteq> None"
  shows "entitled a' e v"
  using assms unfolding entitled_def by (fastforce split: option.splits)

lemma manages_entitled: "env_home a e = Some home \<Longrightarrow> manages a u home \<Longrightarrow> entitled a e u"
  by (cases home) (auto simp: entitled_def manages_def manager_def acts_as_def split: option.splits)

lemma manages_cong:
  "open_orgs a' = open_orgs a \<Longrightarrow> role_of a' = role_of a \<Longrightarrow> manages a' u home \<longleftrightarrow> manages a u home"
  by (simp add: manages_def manager_def acts_as_def cong: option.case_cong)

lemma owner_text: "as_str r = owner \<longleftrightarrow> r = Owner"
  by (cases r) simp_all

lemma acl_invI:
  assumes "\<And>e v. (e, v) \<in> holds a \<Longrightarrow> entitled a e v"
    and "\<And>t e c. (t, e, c) \<in> machines a \<Longrightarrow> \<exists>v. c = Some v \<and> entitled a e v"
    and "\<And>org. org \<in> known_orgs a \<Longrightarrow> org \<notin> gone_orgs a \<Longrightarrow> \<exists>v. role_of a org v = Some owner"
    and "\<And>org v x. role_of a org v = Some x \<Longrightarrow> org \<in> known_orgs a \<and> org \<notin> gone_orgs a"
    and "gone_orgs a \<subseteq> known_orgs a"
  shows "acl_inv a"
  using assms unfolding acl_inv_def by (intro conjI allI impI ballI) auto

text \<open>A step that keeps everyone's entitlement, and adds access only for the entitled.\<close>

lemma acl_inv_entitled:
  assumes inv: "acl_inv a"
    and "\<And>e v. (e, v) \<in> holds a' \<Longrightarrow> (e, v) \<in> holds a \<and> (entitled a e v \<longrightarrow> entitled a' e v) \<or> entitled a' e v"
    and "\<And>t e c. (t, e, c) \<in> machines a' \<Longrightarrow>
      (t, e, c) \<in> machines a \<and> (\<forall>v. c = Some v \<longrightarrow> entitled a e v \<longrightarrow> entitled a' e v) \<or> (\<exists>v. c = Some v \<and> entitled a' e v)"
    and "known_orgs a' = known_orgs a" "gone_orgs a' = gone_orgs a"
    and "\<And>org. org \<in> known_orgs a \<Longrightarrow> org \<notin> gone_orgs a \<Longrightarrow> \<exists>v. role_of a' org v = Some owner"
    and "\<And>org v x. role_of a' org v = Some x \<Longrightarrow> org \<in> known_orgs a \<and> org \<notin> gone_orgs a"
  shows "acl_inv a'"
proof (rule acl_invI)
  fix t e c assume "(t, e, c) \<in> machines a'"
  from assms(3) [OF this] show "\<exists>v. c = Some v \<and> entitled a' e v" using acl_invE(2) [OF inv] by blast
next
  fix e v assume "(e, v) \<in> holds a'"
  from assms(2) [OF this] show "entitled a' e v" using acl_invE(1) [OF inv] by blast
qed (use assms(4-7) acl_invE(5) [OF inv] in auto)

lemma entitled_cong:
  "env_home a' = env_home a \<Longrightarrow> role_of a' = role_of a \<Longrightarrow> entitled a' e v \<longleftrightarrow> entitled a e v"
  by (simp add: entitled_def cong: option.case_cong)

lemma acl_inv_same_roles:
  assumes "acl_inv a" and "env_home a' = env_home a" and "role_of a' = role_of a" and "known_orgs a' = known_orgs a"
    and "gone_orgs a' = gone_orgs a" and "\<And>e v. (e, v) \<in> holds a' \<Longrightarrow> (e, v) \<in> holds a \<or> entitled a e v"
    and "\<And>t e c. (t, e, c) \<in> machines a' \<Longrightarrow> (t, e, c) \<in> machines a \<or> (\<exists>v. c = Some v \<and> entitled a e v)"
  shows "acl_inv a'"
  using assms(6,7) acl_invE(3,4) [OF assms(1)]
  by (intro acl_inv_entitled [OF assms(1)]) (auto simp: entitled_cong [OF assms(2,3)] assms(3-5))

lemma acl_inv_step:
  assumes "acl_step u a a'" and "acl_inv a"
  shows "acl_inv a'"
  using assms
proof (induction rule: acl_step.induct)
  case (found org a u)
  note inv = acl_invE [OF found.prems]
  let ?a = "set_role org u (Some owner)
      (a\<lparr>known_orgs := insert org (known_orgs a), open_orgs := insert org (open_orgs a)\<rparr>)"
  have mono: "entitled ?a e w" if "entitled a e w" for e w
    using that by (rule entitled_mono) auto
  show ?case
  proof (rule acl_invI)
    fix org' assume "org' \<in> known_orgs ?a" "org' \<notin> gone_orgs ?a"
    then show "\<exists>v. role_of ?a org' v = Some owner" using inv(3) [of org'] by auto
  next
    fix t e c assume "(t, e, c) \<in> machines ?a"
    then have "(t, e, c) \<in> machines a" by simp
    then show "\<exists>v. c = Some v \<and> entitled ?a e v" using inv(2) mono by blast
  qed (use inv(1,4,5) mono found.hyps in \<open>auto split: if_splits\<close>)
next
  case (join a org u r role v)
  note inv = acl_invE [OF join.prems]
  let ?a = "set_role org v (Some (as_str role)) (a\<lparr>holds := {(e, w) \<in> holds a. \<not> (w = v \<and> in_org a org e)}\<rparr>)"
  have mono: "entitled ?a e w" if "entitled a e w" for e w
    using that by (rule entitled_mono) auto
  show ?case
  proof (rule acl_inv_entitled [OF join.prems])
    fix org' assume "org' \<in> known_orgs a" "org' \<notin> gone_orgs a"
    then obtain w where "role_of a org' w = Some owner" using inv(3) by blast
    with join(4) show "\<exists>v. role_of ?a org' v = Some owner" by (intro exI [of _ w]) auto
  qed (use mono inv(4) join(1) in \<open>auto simp: acts_as_def split: if_splits\<close>)
next
  case (change a org u r v cur role)
  note inv = acl_invE [OF change.prems]
  let ?a = "set_role org v (Some (as_str role)) a"
  have mono: "entitled ?a e w" if "entitled a e w" for e w
    using that by (rule entitled_mono) auto
  show ?case
  proof (rule acl_inv_entitled [OF change.prems])
    fix org' assume "org' \<in> known_orgs a" "org' \<notin> gone_orgs a"
    then obtain w where "role_of a org' w = Some owner" using inv(3) by blast
    with change(3,5) show "\<exists>v. role_of ?a org' v = Some owner"
      by (cases "cur = owner"; cases "role = Owner") (auto simp: owner_text intro: exI [of _ w])
  qed (use mono inv(4) change(3) in \<open>auto split: if_splits\<close>)
next
  case (leave a org u r v cur)
  note inv = acl_invE [OF leave.prems]
  let ?a = "set_role org v None
      (a\<lparr>holds := {(e, w) \<in> holds a. \<not> (w = v \<and> in_org a org e)},
         machines := {(t, e, c) \<in> machines a. \<not> (c = Some v \<and> in_org a org e)}\<rparr>)"
  have mono: "entitled ?a e w" if "entitled a e w" "\<not> (w = v \<and> in_org a org e)" for e w
    using that by (intro entitled_mono [OF that(1)]) (auto simp: in_org_def)
  show ?case
  proof (rule acl_inv_entitled [OF leave.prems])
    fix org' assume "org' \<in> known_orgs a" "org' \<notin> gone_orgs a"
    then obtain w where "role_of a org' w = Some owner" using inv(3) by blast
    with leave(3,4) show "\<exists>v. role_of ?a org' v = Some owner"
      by (cases "cur = owner") (auto intro: exI [of _ w])
  qed (use mono inv(4) in \<open>auto split: if_splits\<close>)
next
  case (environment a e p home u)
  let ?a = "a\<lparr>env_home := (env_home a)(e \<mapsto> home), holds := insert (e, u) (holds a)\<rparr>"
  have mono: "entitled ?a e' w" if "entitled a e' w" for e' w
    using that environment(1) by (intro entitled_mono [OF that]) (auto simp: entitled_def)
  have "manages ?a u home" using environment(3) by (simp add: manages_cong [of ?a a])
  then have "entitled ?a e u" by (intro manages_entitled [of _ _ home]) auto
  with mono acl_invE(3,4) [OF environment.prems] show ?case
    by (intro acl_inv_entitled [OF environment.prems]) auto
next
  case (share a org e u v)
  then show ?case by (intro acl_inv_same_roles [OF share.prems]) (auto simp: in_org_def entitled_def)
next
  case (rekey a org e u vs)
  then show ?case by (intro acl_inv_same_roles [OF rekey.prems]) (auto simp: in_org_def entitled_def)
next
  case (enrol a e home u t)
  then show ?case by (intro acl_inv_same_roles [OF enrol.prems]) (auto intro: manages_entitled)
next
  case (project a p u org)
  then show ?case by (intro acl_inv_same_roles [OF project.prems]) auto
next
  case (revoke a e home u t)
  then show ?case by (intro acl_inv_same_roles [OF revoke.prems]) auto
next
  case (reset a u)
  then show ?case by (intro acl_inv_same_roles [OF reset.prems]) auto
qed

subsection \<open>The deletion lifecycle\<close>

text \<open>An organisation is frozen, opened again, or purged down to a tombstone with everything in it.\<close>

definition outside :: "string \<Rightarrow> (string \<Rightarrow> (string \<times> string option) option) \<Rightarrow> string \<Rightarrow> (string \<times> string option) option" where
  "outside org homes = (\<lambda>x. case homes x of Some (ow, Some o') \<Rightarrow> if o' = org then None else homes x | h \<Rightarrow> h)"

definition purge_org :: "string \<Rightarrow> acl \<Rightarrow> acl" where
  "purge_org org a = a\<lparr>gone_orgs := insert org (gone_orgs a), role_of := (role_of a)(org := (\<lambda>_. None)),
     project_home := outside org (project_home a), env_home := outside org (env_home a),
     holds := {(e, v) \<in> holds a. \<not> in_org a org e}, machines := {(t, e, c) \<in> machines a. \<not> in_org a org e}\<rparr>"

inductive lifecycle_step :: "acl \<Rightarrow> acl \<Rightarrow> bool" where
  stay: "lifecycle_step a a"
| freeze: "org \<in> open_orgs a \<Longrightarrow> lifecycle_step a (a\<lparr>open_orgs := open_orgs a - {org}\<rparr>)"
| thaw: "org \<in> known_orgs a \<Longrightarrow> org \<notin> open_orgs a \<Longrightarrow> org \<notin> gone_orgs a \<Longrightarrow>
    lifecycle_step a (a\<lparr>open_orgs := insert org (open_orgs a)\<rparr>)"
| purge: "org \<in> known_orgs a \<Longrightarrow> org \<notin> open_orgs a \<Longrightarrow> org \<notin> gone_orgs a \<Longrightarrow>
    lifecycle_step a (purge_org org a)"

lemma outside_Some: "outside org homes x = Some (ow, h) \<longleftrightarrow> homes x = Some (ow, h) \<and> h \<noteq> Some org"
  by (auto simp: outside_def split: option.splits if_splits)

lemma acl_inv_lifecycle:
  assumes "lifecycle_step a a'" and "acl_inv a"
  shows "acl_inv a'"
  using assms
proof (induction rule: lifecycle_step.induct)
  case (purge org a)
  note inv = acl_invE [OF purge.prems]
  let ?a = "purge_org org a"
  have keep: "entitled ?a e v" if "entitled a e v" "\<not> in_org a org e" for e v
  proof -
    from that(1) obtain ow h where h: "env_home a e = Some (ow, h)"
      "case h of None \<Rightarrow> v = ow | Some org \<Rightarrow> role_of a org v \<noteq> None" by (auto simp: entitled_def)
    with that(2) have "h \<noteq> Some org" by (auto simp: in_org_def)
    with h have "env_home ?a e = Some (ow, h)" by (simp add: outside_Some purge_org_def)
    with h(2) \<open>h \<noteq> Some org\<close> show ?thesis by (cases h) (auto simp: entitled_def purge_org_def)
  qed
  show ?case
  proof (rule acl_invI)
    fix t e c assume "(t, e, c) \<in> machines ?a"
    then show "\<exists>v. c = Some v \<and> entitled ?a e v" using inv(2) [of t e c] keep by (auto simp: purge_org_def)
  next
    fix e v assume "(e, v) \<in> holds ?a"
    then show "entitled ?a e v" using inv(1) [of e v] keep by (auto simp: purge_org_def)
  qed (use inv(3-5) purge.hyps in \<open>auto simp: purge_org_def split: if_splits\<close>)
next
  case (freeze org a)
  then show ?case using acl_invE [OF freeze.prems] by (intro acl_invI) (auto simp: entitled_def cong: option.case_cong)
next
  case (thaw org a)
  then show ?case using acl_invE [OF thaw.prems] by (intro acl_invI) (auto simp: entitled_def cong: option.case_cong)
qed simp

subsection \<open>Escalation and frozen organisations\<close>

lemma owner_change_actor:
  assumes "acl_step actor a a'" and "role_of a org v = Some owner \<longleftrightarrow> role_of a' org v \<noteq> Some owner"
  shows "\<exists>u. actor = Some u \<and> (role_of a org u = Some owner \<or> org \<notin> known_orgs a)"
  using assms by (cases rule: acl_step.cases) (auto simp: acts_as_def owner_text split: if_splits)

lemma frozen_step:
  assumes "acl_step actor a a'" and "acl_inv a" and "org \<in> known_orgs a" and "org \<notin> open_orgs a"
  shows "role_of a' org = role_of a org" and "in_org a' org = in_org a org" and "org \<notin> open_orgs a'"
    and "in_org a org e \<Longrightarrow> (e, v) \<in> holds a' \<longleftrightarrow> (e, v) \<in> holds a"
    and "in_org a org e \<Longrightarrow> (t, e, c) \<in> machines a' \<longleftrightarrow> (t, e, c) \<in> machines a"
proof -
  show "role_of a' org = role_of a org"
    using assms(1,3,4) by (cases rule: acl_step.cases) (auto simp: acts_as_def)
  show "in_org a' org = in_org a org"
    using assms(1,3,4)
    by (cases rule: acl_step.cases) (auto simp: in_org_def fun_eq_iff manages_def manager_def acts_as_def)
  show "org \<notin> open_orgs a'"
    using assms(1,3,4) by (cases rule: acl_step.cases) auto
  note inv = acl_invE [OF assms(2)]
  show "(e, v) \<in> holds a' \<longleftrightarrow> (e, v) \<in> holds a" if "in_org a org e"
    using assms(1,3,4) that inv(1) [of e v]
    by (cases rule: acl_step.cases) (auto simp: in_org_def entitled_def manages_def manager_def acts_as_def)
  show "(t, e, c) \<in> machines a' \<longleftrightarrow> (t, e, c) \<in> machines a" if "in_org a org e"
    using assms(1,3,4) that
    by (cases rule: acl_step.cases) (auto simp: in_org_def manages_def manager_def acts_as_def)
qed

end
