(* ===== verification/Billing.thy ===== *)
theory Billing
  imports Org Sessions
begin

text \<open>
  Billing (\<open>billing.rs\<close>): what a subscription's status means for a purge and for the tier, the Stripe
  adapter's classification of responses, the webhook with its signature, ordering and handlers, and
  the hand-over to Stripe's hosted pages.

  JSON values are as \<open>serde_json::Value\<close> has them; the parser of the response text, the HTTP exchange
  itself, header validity and HMAC-SHA256 are third-party and are fields of \<open>stripe_net\<close> or arguments.
  An exchange takes and returns the state \<open>'w\<close> of the outside world, so that two calls of one request
  may be answered differently. The pages of the browser test build (\<open>e2e-mock-billing\<close>) are left out.
\<close>

subsection \<open>Subscriptions\<close>

datatype provider_error_kind = Authentication | ResourceMissing | Retryable | KindUnknown

record provider_error =
  pe_status :: "nat option"
  pe_code :: "string option"
  pe_kind :: provider_error_kind

definition provider_error_http :: "nat \<Rightarrow> string option \<Rightarrow> provider_error" where
  "provider_error_http status code = \<lparr>pe_status = Some status, pe_code = code, pe_kind =
     (if status = 401 \<or> status = 403 then Authentication
      else if code = Some ''resource_missing'' then ResourceMissing
      else if status = 429 \<or> 500 \<le> status \<or> code = Some ''rate_limit_error'' \<or> code = Some ''api_error''
      then Retryable
      else KindUnknown)\<rparr>"

definition transport :: provider_error where
  "transport = \<lparr>pe_status = None, pe_code = Some ''transport_error'', pe_kind = Retryable\<rparr>"

definition malformed_response :: provider_error where
  "malformed_response = \<lparr>pe_status = None, pe_code = Some ''malformed_response'', pe_kind = KindUnknown\<rparr>"

definition into_error :: "provider_error \<Rightarrow> error" where
  "into_error e = Upstream (''stripe provider error: '' @
     (case pe_code e of None \<Rightarrow> ''unknown_error'' | Some c \<Rightarrow> c))"

datatype subscription_status =
    SubActive | SubTrialing | PastDue | Incomplete | Paused | Unpaid | Canceled | IncompleteExpired
  | SubUnknown string

definition status_parse :: "string \<Rightarrow> subscription_status" where
  "status_parse v =
     (if v = ''active'' then SubActive
      else if v = ''trialing'' then SubTrialing
      else if v = ''past_due'' then PastDue
      else if v = ''incomplete'' then Incomplete
      else if v = ''paused'' then Paused
      else if v = ''unpaid'' then Unpaid
      else if v = ''canceled'' then Canceled
      else if v = ''incomplete_expired'' then IncompleteExpired
      else SubUnknown v)"

datatype purge_gate = Blocking | Terminal | Missing | GateUnknown

fun status_gate :: "subscription_status \<Rightarrow> purge_gate" where
  "status_gate Canceled = Terminal"
| "status_gate IncompleteExpired = Terminal"
| "status_gate (SubUnknown _) = GateUnknown"
| "status_gate _ = Blocking"

fun entitlement_tier :: "subscription_status \<Rightarrow> string" where
  "entitlement_tier SubActive = ''team''"
| "entitlement_tier SubTrialing = ''team''"
| "entitlement_tier PastDue = ''team''"
| "entitlement_tier _ = ''free''"

record sub_snapshot =
  sn_id :: string
  sn_status :: subscription_status

datatype observation = Current sub_snapshot | ObsMissing

fun obs_gate :: "observation \<Rightarrow> purge_gate" where
  "obs_gate (Current s) = status_gate (sn_status s)"
| "obs_gate ObsMissing = Missing"

subsection \<open>The Stripe adapter\<close>

datatype json = JNull | JBool bool | JNumber int | JString string | JArray "json list" | JObject "(string \<times> json) list"

fun json_get :: "string \<Rightarrow> json \<Rightarrow> json" where
  "json_get k (JObject kvs) = (case map_of kvs k of None \<Rightarrow> JNull | Some v \<Rightarrow> v)"
| "json_get k _ = JNull"

fun json_str :: "json \<Rightarrow> string option" where
  "json_str (JString s) = Some s"
| "json_str _ = None"

type_synonym form = "(string \<times> string) list"

record 'w stripe_net =
  net_get :: "string \<Rightarrow> 'w \<Rightarrow> (nat \<times> string) option \<times> 'w"
  net_post :: "string \<Rightarrow> form \<Rightarrow> 'w \<Rightarrow> (nat \<times> string) option \<times> 'w"
  net_delete :: "string \<Rightarrow> string \<Rightarrow> form \<Rightarrow> 'w \<Rightarrow> (nat \<times> string) option \<times> 'w"
  net_json :: "string \<Rightarrow> json option"
  net_header_ok :: "string \<Rightarrow> bool"
  net_blank :: "string \<Rightarrow> bool"

text \<open>\<open>None\<close> is an exchange that failed before its body was read.\<close>

definition stripe_response :: "'w stripe_net \<Rightarrow> (nat \<times> string) option \<Rightarrow> provider_error + json" where
  "stripe_response S r = (case r of
       None \<Rightarrow> Inl transport
     | Some (status, body) \<Rightarrow>
         if 400 \<le> status
         then Inl (provider_error_http status
                (Option.bind (net_json S body) (\<lambda>v. json_str (json_get ''code'' (json_get ''error'' v)))))
         else if net_blank S body then Inr JNull
         else ok_or (net_json S body) malformed_response)"

definition stripe_get :: "'w stripe_net \<Rightarrow> string \<Rightarrow> 'w \<Rightarrow> (provider_error + json) \<times> 'w" where
  "stripe_get S path w = (let (r, w) = net_get S path w in (stripe_response S r, w))"

definition stripe_post :: "'w stripe_net \<Rightarrow> string \<Rightarrow> form \<Rightarrow> 'w \<Rightarrow> (provider_error + json) \<times> 'w" where
  "stripe_post S path frm w = (let (r, w) = net_post S path frm w in (stripe_response S r, w))"

definition stripe_delete :: "'w stripe_net \<Rightarrow> string \<Rightarrow> string \<Rightarrow> form \<Rightarrow> 'w \<Rightarrow> (provider_error + json) \<times> 'w" where
  "stripe_delete S path key frm w =
     (if net_header_ok S key
      then let (r, w) = net_delete S path key frm w in (stripe_response S r, w)
      else (Inl malformed_response, w))"

definition subscription_snapshot :: "json \<Rightarrow> string \<Rightarrow> provider_error + sub_snapshot" where
  "subscription_snapshot obj requested =
     rbind (ok_or (json_str (json_get ''id'' obj)) malformed_response) (\<lambda>i.
     rbind (require (i = requested) malformed_response) (\<lambda>_.
     rbind (ok_or (json_str (json_get ''status'' obj)) malformed_response) (\<lambda>status.
     Inr \<lparr>sn_id = i, sn_status = status_parse status\<rparr>)))"

definition stripe_get_subscription :: "'w stripe_net \<Rightarrow> string \<Rightarrow> 'w \<Rightarrow> (provider_error + observation) \<times> 'w" where
  "stripe_get_subscription S sub w =
     (let (r, w) = stripe_get S (''subscriptions/'' @ sub) w in
      (case r of
         Inr obj \<Rightarrow> rbind (subscription_snapshot obj sub) (\<lambda>s. Inr (Current s))
       | Inl e \<Rightarrow> if pe_kind e = ResourceMissing then Inr ObsMissing else Inl e, w))"

definition cancellation_form :: "string \<Rightarrow> form" where
  "cancellation_form org = [(''invoice_now'', ''false''), (''prorate'', ''false''),
     (''cancellation_details[comment]'', ''Sotto organisation '' @ org @ '' deleted'')]"

definition cancellation_outcome :: "provider_error + unit \<Rightarrow> provider_error + observation \<Rightarrow> provider_error + observation" where
  "cancellation_outcome cancellation fresh = (case fresh of
       Inr obs \<Rightarrow> if obs_gate obs = Terminal \<or> obs_gate obs = Missing then Inr obs
                  else rbind cancellation (\<lambda>_. Inr obs)
     | Inl e \<Rightarrow> Inl (case cancellation of Inl c \<Rightarrow> c | Inr _ \<Rightarrow> e))"

definition stripe_cancel_subscription ::
    "'w stripe_net \<Rightarrow> string \<Rightarrow> string \<Rightarrow> string \<Rightarrow> 'w \<Rightarrow> (provider_error + observation) \<times> 'w" where
  "stripe_cancel_subscription S sub key org w =
     (case stripe_get_subscription S sub w of
        (Inl e, w) \<Rightarrow> (Inl e, w)
      | (Inr ObsMissing, w) \<Rightarrow> (Inr ObsMissing, w)
      | (Inr (Current snap), w) \<Rightarrow>
          if status_gate (sn_status snap) \<noteq> Blocking then (Inr (Current snap), w)
          else let (c, w) = stripe_delete S (''subscriptions/'' @ sub) key (cancellation_form org) w;
                   (fresh, w) = stripe_get_subscription S sub w
               in (cancellation_outcome (rbind c (\<lambda>_. Inr ())) fresh, w))"

definition checkout_form :: "string \<Rightarrow> string \<Rightarrow> string option \<Rightarrow> string \<Rightarrow> string \<Rightarrow> form" where
  "checkout_form price org customer success_url cancel_url =
     [(''mode'', ''subscription''), (''line_items[0][price]'', price), (''line_items[0][quantity]'', ''1''),
      (''client_reference_id'', org), (''subscription_data[metadata][org_id]'', org),
      (''success_url'', success_url), (''cancel_url'', cancel_url)] @
     (case customer of None \<Rightarrow> [] | Some c \<Rightarrow> [(''customer'', c)])"

definition session_url :: "provider_error + json \<Rightarrow> provider_error + string" where
  "session_url r = rbind r (\<lambda>session. ok_or (json_str (json_get ''url'' session)) malformed_response)"

definition stripe_create_checkout ::
    "'w stripe_net \<Rightarrow> string \<Rightarrow> string \<Rightarrow> string option \<Rightarrow> string \<Rightarrow> string \<Rightarrow> 'w \<Rightarrow> (provider_error + string) \<times> 'w" where
  "stripe_create_checkout S price org customer success_url cancel_url w =
     (let (r, w) = stripe_post S ''checkout/sessions'' (checkout_form price org customer success_url cancel_url) w
      in (session_url r, w))"

definition stripe_create_portal :: "'w stripe_net \<Rightarrow> string \<Rightarrow> string \<Rightarrow> 'w \<Rightarrow> (provider_error + string) \<times> 'w" where
  "stripe_create_portal S customer return_url w =
     (let (r, w) = stripe_post S ''billing_portal/sessions'' [(''customer'', customer), (''return_url'', return_url)] w
      in (session_url r, w))"

text \<open>The trait the handlers and the deletion worker use: what each call answers when it is made.\<close>

record provider =
  pv_checkout :: "string \<Rightarrow> string option \<Rightarrow> string \<Rightarrow> string \<Rightarrow> provider_error + string"
  pv_portal :: "string \<Rightarrow> string \<Rightarrow> provider_error + string"
  pv_get :: "string \<Rightarrow> provider_error + observation"
  pv_cancel :: "string \<Rightarrow> string \<Rightarrow> string \<Rightarrow> provider_error + observation"

definition stripe_provider :: "'w stripe_net \<Rightarrow> string \<Rightarrow> 'w \<Rightarrow> provider" where
  "stripe_provider S price w = \<lparr>
     pv_checkout = (\<lambda>org customer ok ko. fst (stripe_create_checkout S price org customer ok ko w)),
     pv_portal = (\<lambda>customer url. fst (stripe_create_portal S customer url w)),
     pv_get = (\<lambda>sub. fst (stripe_get_subscription S sub w)),
     pv_cancel = (\<lambda>sub key org. fst (stripe_cancel_subscription S sub key org w))\<rparr>"

subsection \<open>Who may manage billing\<close>

record billing_state =
  bs_provider :: provider
  bs_secret :: string
  bs_return_url :: string

definition billing_config :: "billing_state option \<Rightarrow> error + billing_state" where
  "billing_config b = ok_or b (NotConfigured ''billing is not configured'')"

definition require_billing_admin :: "db \<Rightarrow> string \<Rightarrow> string \<Rightarrow> error + unit" where
  "require_billing_admin db org user =
     rbind (access_for_update db org user) (\<lambda>access.
     rbind (oa_require_write access) (\<lambda>_.
     require (can_manage_members (oa_role access))
       (Forbidden ''managing billing requires the admin or owner role'')))"

definition stripe_customer :: "db \<Rightarrow> string \<Rightarrow> string option" where
  "stripe_customer db org = Option.bind (find_org db org) o_stripe_customer"

definition app_url :: "string \<Rightarrow> string" where
  "app_url base = rev (dropWhile (\<lambda>c. c = CHR ''/'') (rev base)) @ ''/app''"

definition checkout_return_urls :: "string \<Rightarrow> string \<times> string" where
  "checkout_return_urls base =
     (app_url base @ ''?billing=success'', app_url base @ ''?billing=cancelled'')"

definition create_checkout :: "billing_state option \<Rightarrow> db \<Rightarrow> string \<Rightarrow> string \<Rightarrow> error + string" where
  "create_checkout b db user org =
     rbind (billing_config b) (\<lambda>b.
     rbind (require_billing_admin db org user) (\<lambda>_.
     let (success_url, cancel_url) = checkout_return_urls (bs_return_url b)
     in map_err into_error (pv_checkout (bs_provider b) org (stripe_customer db org) success_url cancel_url)))"

definition create_portal :: "billing_state option \<Rightarrow> db \<Rightarrow> string \<Rightarrow> string \<Rightarrow> error + string" where
  "create_portal b db user org =
     rbind (billing_config b) (\<lambda>b.
     rbind (require_billing_admin db org user) (\<lambda>_.
     rbind (ok_or (stripe_customer db org)
       (BadRequest ''this organisation has no billing account yet - subscribe first'')) (\<lambda>customer.
     map_err into_error (pv_portal (bs_provider b) customer (app_url (bs_return_url b))))))"

subsection \<open>Signatures\<close>

text \<open>Machine arithmetic on \<open>i64\<close> wraps around in the release build.\<close>

definition wrap64 :: "int \<Rightarrow> int" where
  "wrap64 x = (x + 2 ^ 63) mod 2 ^ 64 - 2 ^ 63"

definition SIGNATURE_TOLERANCE_SECS :: int where "SIGNATURE_TOLERANCE_SECS = 300"

definition hex_value :: "char \<Rightarrow> nat option" where
  "hex_value c = (let n = of_char c :: nat in
     if 48 \<le> n \<and> n \<le> 57 then Some (n - 48)
     else if 97 \<le> n \<and> n \<le> 102 then Some (n - 87)
     else if 65 \<le> n \<and> n \<le> 70 then Some (n - 55)
     else None)"

text \<open>\<open>u8::from_str_radix\<close> on two characters accepts a leading plus sign.\<close>

definition hex_pair :: "char \<Rightarrow> char \<Rightarrow> u8 option" where
  "hex_pair a b =
     (if a = CHR ''+'' then map_option of_nat (hex_value b)
      else Option.bind (hex_value a) (\<lambda>x. map_option (\<lambda>y. of_nat (16 * x + y)) (hex_value b)))"

fun decode_hex :: "string \<Rightarrow> bytes option" where
  "decode_hex [] = Some []"
| "decode_hex [_] = None"
| "decode_hex (a # b # s) = Option.bind (hex_pair a b) (\<lambda>x. map_option (\<lambda>xs. x # xs) (decode_hex s))"

definition signature_part :: "int option \<times> bytes list \<Rightarrow> string \<Rightarrow> int option \<times> bytes list" where
  "signature_part acc part = (case split_once CHR ''='' (trim_by is_ascii_space part) of
       None \<Rightarrow> acc
     | Some (k, v) \<Rightarrow>
         if k = ''t'' then (parse_i64 v, snd acc)
         else if k = ''v1'' then (fst acc, case decode_hex v of None \<Rightarrow> snd acc | Some mac \<Rightarrow> snd acc @ [mac])
         else acc)"

definition signature_parts :: "string \<Rightarrow> int option \<times> bytes list" where
  "signature_parts header = foldl signature_part (None, []) (split_on CHR '','' header)"

definition verify_signature ::
    "(string \<Rightarrow> string \<Rightarrow> bytes) \<Rightarrow> string \<Rightarrow> string \<Rightarrow> string \<Rightarrow> int \<Rightarrow> bool" where
  "verify_signature hmac secret header payload now =
     (let (timestamp, candidates) = signature_parts header in
      case timestamp of
        None \<Rightarrow> False
      | Some t \<Rightarrow>
          if wrap64 \<bar>wrap64 (now - t)\<bar> > SIGNATURE_TOLERANCE_SECS \<or> candidates = [] then False
          else list_ex (\<lambda>candidate. candidate = hmac secret (dec_int t @ ''.'' @ payload)) candidates)"

subsection \<open>Events\<close>

record event =
  ev_id :: string
  ev_created :: int
  ev_version :: "string option"
  ev_kind :: string
  ev_object :: json

definition ACCEPTED_WEBHOOK_API_VERSIONS :: "string list" where
  "ACCEPTED_WEBHOOK_API_VERSIONS = [''2026-06-24.dahlia'', ''2026-07-29.dahlia'', ''2026-08-26.dahlia'']"

definition webhook_version_accepted :: "string option \<Rightarrow> bool" where
  "webhook_version_accepted version = (case version of
     None \<Rightarrow> False | Some v \<Rightarrow> v \<in> set ACCEPTED_WEBHOOK_API_VERSIONS)"

datatype disposition = Apply | Reconcile | Ignore

definition event_subscription_id :: "event \<Rightarrow> string option" where
  "event_subscription_id e =
     (if ev_kind e = ''checkout.session.completed'' then json_str (json_get ''subscription'' (ev_object e))
      else if ev_kind e = ''customer.subscription.updated'' \<or> ev_kind e = ''customer.subscription.deleted''
      then json_str (json_get ''id'' (ev_object e))
      else None)"

definition event_org_hint :: "event \<Rightarrow> string option" where
  "event_org_hint e =
     (if ev_kind e = ''checkout.session.completed'' then json_str (json_get ''client_reference_id'' (ev_object e))
      else if ev_kind e = ''customer.subscription.updated'' \<or> ev_kind e = ''customer.subscription.deleted''
      then json_str (json_get ''org_id'' (json_get ''metadata'' (ev_object e)))
      else None)"

definition record_webhook_receipt :: "int \<Rightarrow> event \<Rightarrow> string option \<Rightarrow> db \<Rightarrow> error + bool \<times> db" where
  "record_webhook_receipt now e sub db =
     rbind (require (0 \<le> ev_created e) (Db ''check violation'')) (\<lambda>_.
     if sql_exists (\<lambda>w. we_id w = ev_id e) (webhook_events db) then Inr (False, db)
     else Inr (True, db\<lparr>webhook_events := sql_insert
       \<lparr>we_id = ev_id e, we_type = ev_kind e,
        we_version = (case ev_version e of None \<Rightarrow> ''missing'' | Some v \<Rightarrow> v),
        we_created = ev_created e, we_subscription = sub, we_received_at = now, we_processed_at = None\<rparr>
       (webhook_events db)\<rparr>))"

definition DAY :: int where "DAY = 86400 * 1000000"

definition prunable :: "int \<Rightarrow> db \<Rightarrow> webhook_row \<Rightarrow> bool" where
  "prunable now db w \<longleftrightarrow>
     (case we_processed_at w of Some p \<Rightarrow> p < now - 30 * DAY | None \<Rightarrow> we_received_at w < now - DAY) \<and>
     \<not> sql_exists (\<lambda>m. wm_event m = we_id w) (watermarks db)"

definition prune_webhook_events :: "int \<Rightarrow> db \<Rightarrow> db" where
  "prune_webhook_events now db =
     (let candidates = map we_id (take 500 (sort_key we_received_at (sql_select (prunable now db) (webhook_events db))))
      in db\<lparr>webhook_events := sql_delete (\<lambda>w. we_id w \<in> set candidates) (webhook_events db)\<rparr>)"

definition mark_webhook_event_processed :: "int \<Rightarrow> string \<Rightarrow> db \<Rightarrow> db" where
  "mark_webhook_event_processed now i db =
     db\<lparr>webhook_events := sql_update (\<lambda>w. we_id w = i) (\<lambda>w. w\<lparr>we_processed_at := Some now\<rparr>) (webhook_events db)\<rparr>"

definition record_webhook_event :: "int \<Rightarrow> event \<Rightarrow> db \<Rightarrow> error + disposition \<times> db" where
  "record_webhook_event now e db =
     (let sub = event_subscription_id e in
      rbind (record_webhook_receipt now e sub db) (\<lambda>(inserted, db).
      if \<not> inserted \<and> sql_exists (\<lambda>w. we_id w = ev_id e \<and> we_processed_at w \<noteq> None) (webhook_events db)
      then Inr (Ignore, db)
      else case sub of
        None \<Rightarrow> Inr (Apply, db)
      | Some sub \<Rightarrow>
          (case sql_find (\<lambda>m. wm_subscription m = sub) (watermarks db) of
             None \<Rightarrow> Inr (Apply, db)
           | Some m \<Rightarrow>
               if ev_created e < wm_created m \<or> ev_created e = wm_created m \<and> ev_id e \<le> wm_event m
               then Inr (Ignore, mark_webhook_event_processed now (ev_id e) db)
               else if ev_created e = wm_created m then Inr (Reconcile, db)
               else Inr (Apply, db))))"

definition update_subscription_watermark :: "event \<Rightarrow> string \<Rightarrow> db \<Rightarrow> db" where
  "update_subscription_watermark e sub db =
     (if sql_exists (\<lambda>m. wm_subscription m = sub) (watermarks db)
      then db\<lparr>watermarks := sql_update
             (\<lambda>m. wm_subscription m = sub \<and>
                (wm_created m < ev_created e \<or> wm_created m = ev_created e \<and> wm_event m < ev_id e))
             (\<lambda>m. m\<lparr>wm_created := ev_created e, wm_event := ev_id e\<rparr>) (watermarks db)\<rparr>
      else db\<lparr>watermarks := sql_insert \<lparr>wm_subscription = sub, wm_created = ev_created e, wm_event = ev_id e\<rparr>
             (watermarks db)\<rparr>)"

subsection \<open>What an event does to an organisation\<close>

text \<open>An update of organisations under the two unique indexes on the Stripe ids, with the number of
  rows it changed.\<close>

definition stripe_ids_unique :: "org_row list \<Rightarrow> bool" where
  "stripe_ids_unique t \<longleftrightarrow> distinct (List.map_filter o_stripe_customer t) \<and>
     distinct (List.map_filter o_stripe_subscription t)"

definition update_org :: "(org_row \<Rightarrow> bool) \<Rightarrow> (org_row \<Rightarrow> org_row) \<Rightarrow> db \<Rightarrow> error + nat \<times> db" where
  "update_org p f db =
     (let t = sql_update p f (orgs db) in
      rbind (require (sql_exists p (orgs db) \<longrightarrow> stripe_ids_unique t) (Db ''unique violation'')) (\<lambda>_.
      Inr (sql_count p (orgs db), db\<lparr>orgs := t\<rparr>)))"

definition update_org_audited ::
    "int \<Rightarrow> string \<Rightarrow> string \<Rightarrow> string \<Rightarrow> (org_row \<Rightarrow> bool) \<Rightarrow> (org_row \<Rightarrow> org_row) \<Rightarrow> db \<Rightarrow> error + db" where
  "update_org_audited now org action detail p f db =
     rbind (update_org p f db) (\<lambda>(changed, db).
     Inr (if 0 < changed then record_tx now org ''stripe'' action (no_context\<lparr>cx_detail := Some detail\<rparr>) db else db))"

definition checkout_completed :: "int \<Rightarrow> json \<Rightarrow> db \<Rightarrow> error + db" where
  "checkout_completed now obj db = (case json_str (json_get ''client_reference_id'' obj) of
       None \<Rightarrow> Inr db
     | Some org \<Rightarrow>
         let customer = json_str (json_get ''customer'' obj); subscription = json_str (json_get ''subscription'' obj)
         in update_org_audited now org ''billing.subscribed'' ''tier set to team''
              (\<lambda>og. o_id og = org \<and> o_lifecycle og = ''active'' \<and>
                 (o_tier og \<noteq> ''team'' \<or> o_stripe_customer og \<noteq> customer \<or> o_stripe_subscription og \<noteq> subscription))
              (\<lambda>og. og\<lparr>o_tier := ''team'', o_stripe_customer := customer, o_stripe_subscription := subscription\<rparr>) db)"

definition org_of_subscription :: "db \<Rightarrow> string \<Rightarrow> string option" where
  "org_of_subscription db sub = map_option o_id (sql_find (\<lambda>og. o_stripe_subscription og = Some sub) (orgs db))"

definition org_for_subscription :: "db \<Rightarrow> json \<Rightarrow> string option" where
  "org_for_subscription db obj = (case json_str (json_get ''org_id'' (json_get ''metadata'' obj)) of
       Some org \<Rightarrow> Some org
     | None \<Rightarrow> Option.bind (json_str (json_get ''id'' obj)) (org_of_subscription db))"

definition subscription_updated :: "int \<Rightarrow> json \<Rightarrow> db \<Rightarrow> error + db" where
  "subscription_updated now obj db =
     (case (org_for_subscription db obj, json_str (json_get ''status'' obj)) of
        (Some org, Some status) \<Rightarrow>
          (case status_parse status of
             SubUnknown _ \<Rightarrow> Inr db
           | parsed \<Rightarrow> let tier = entitlement_tier parsed in
               update_org_audited now org ''billing.updated'' (''subscription '' @ status @ ''; tier set to '' @ tier)
                 (\<lambda>og. o_id og = org \<and> o_lifecycle og = ''active'' \<and> o_tier og \<noteq> tier)
                 (\<lambda>og. og\<lparr>o_tier := tier\<rparr>) db)
      | _ \<Rightarrow> Inr db)"

definition subscription_deleted :: "int \<Rightarrow> json \<Rightarrow> db \<Rightarrow> error + db" where
  "subscription_deleted now obj db = (case org_for_subscription db obj of
       None \<Rightarrow> Inr db
     | Some org \<Rightarrow>
         update_org_audited now org ''billing.cancelled'' ''tier set to free''
           (\<lambda>og. o_id og = org \<and> o_lifecycle og = ''active'' \<and>
              (o_tier og \<noteq> ''free'' \<or> o_stripe_subscription og \<noteq> None))
           (\<lambda>og. og\<lparr>o_tier := ''free'', o_stripe_subscription := None\<rparr>) db)"

definition reconcile_subscription :: "int \<Rightarrow> observation \<Rightarrow> string \<Rightarrow> string option \<Rightarrow> db \<Rightarrow> error + db" where
  "reconcile_subscription now obs sub org_hint db =
     (case (case org_hint of Some org \<Rightarrow> Some org | None \<Rightarrow> org_of_subscription db sub) of
        None \<Rightarrow> Inr db
      | Some org \<Rightarrow>
          let (tier, linked) = (case obs of
                Current s \<Rightarrow> (entitlement_tier (sn_status s), Some (sn_id s)) | ObsMissing \<Rightarrow> (''free'', None))
          in update_org_audited now org ''billing.reconciled'' ''equal-timestamp webhook reconciled with provider''
               (\<lambda>og. o_id og = org \<and> o_lifecycle og = ''active'' \<and> (o_tier og \<noteq> tier \<or> o_stripe_subscription og \<noteq> linked))
               (\<lambda>og. og\<lparr>o_tier := tier, o_stripe_subscription := linked\<rparr>) db)"

definition apply_event :: "int \<Rightarrow> event \<Rightarrow> db \<Rightarrow> error + db" where
  "apply_event now e db =
     (if ev_kind e = ''checkout.session.completed'' then checkout_completed now (ev_object e) db
      else if ev_kind e = ''customer.subscription.updated'' then subscription_updated now (ev_object e) db
      else if ev_kind e = ''customer.subscription.deleted'' then subscription_deleted now (ev_object e) db
      else Inr db)"

subsection \<open>The webhook\<close>

definition refuse_version :: "int \<Rightarrow> event \<Rightarrow> db \<Rightarrow> (error + unit) \<times> db" where
  "refuse_version now e db =
     (case run_txn (\<lambda>db. record_webhook_receipt now e None (prune_webhook_events now db)) db of
        (Inl err, db) \<Rightarrow> (Inl err, db)
      | (Inr _, db) \<Rightarrow> (Inl (Internal (''unsupported Stripe API version '' @
          (case ev_version e of None \<Rightarrow> ''missing'' | Some v \<Rightarrow> v))), db))"

definition webhook_tx :: "provider \<Rightarrow> int \<Rightarrow> event \<Rightarrow> db \<Rightarrow> error + unit \<times> db" where
  "webhook_tx P now e db =
     (let db = prune_webhook_events now db; sub = event_subscription_id e in
      rbind (record_webhook_event now e db) (\<lambda>(disp, db).
      case disp of
        Ignore \<Rightarrow> Inr ((), db)
      | Reconcile \<Rightarrow>
          rbind (ok_or sub (Config ''stripe reconciliation event has no subscription id'')) (\<lambda>sub.
          rbind (map_err into_error (pv_get P sub)) (\<lambda>obs.
          rbind (reconcile_subscription now obs sub (event_org_hint e) db) (\<lambda>db.
          Inr ((), mark_webhook_event_processed now (ev_id e) (update_subscription_watermark e sub db)))))
      | Apply \<Rightarrow>
          rbind (apply_event now e db) (\<lambda>db.
          let db = (case sub of None \<Rightarrow> db | Some sub \<Rightarrow> update_subscription_watermark e sub db)
          in Inr ((), mark_webhook_event_processed now (ev_id e) db))))"

definition webhook ::
    "(string \<Rightarrow> string \<Rightarrow> bytes) \<Rightarrow> (string \<Rightarrow> event option) \<Rightarrow> billing_state option \<Rightarrow> int \<Rightarrow> int \<Rightarrow>
      string option \<Rightarrow> string \<Rightarrow> db \<Rightarrow> (error + unit) \<times> db" where
  "webhook hmac parse_event b now_secs now signature body db =
     (case rbind (billing_config b) (\<lambda>b.
           rbind (ok_or signature Unauthorized) (\<lambda>signature.
           rbind (require (verify_signature hmac (bs_secret b) signature body now_secs) Unauthorized) (\<lambda>_.
           rbind (ok_or (parse_event body) (BadRequest ''malformed event'')) (\<lambda>e. Inr (b, e))))) of
        Inl err \<Rightarrow> (Inl err, db)
      | Inr (b, e) \<Rightarrow>
          if webhook_version_accepted (ev_version e) then run_txn (webhook_tx (bs_provider b) now e) db
          else refuse_version now e db)"

subsection \<open>What the webhook may touch\<close>

text \<open>A delivery writes the billing columns of active organisations, the audit log and the webhook's own
  tables.\<close>

definition billing_only :: "db \<Rightarrow> db \<Rightarrow> bool" where
  "billing_only db db' \<longleftrightarrow>
     (\<exists>f. orgs db' = map f (orgs db) \<and> (\<forall>og. o_id (f og) = o_id og \<and> o_lifecycle (f og) = o_lifecycle og \<and>
        (o_lifecycle og \<noteq> ''active'' \<longrightarrow> f og = og))) \<and>
     db' = db\<lparr>orgs := orgs db', audit := audit db', audit_next := audit_next db',
              webhook_events := webhook_events db', watermarks := watermarks db'\<rparr>"

lemma billing_onlyI:
  assumes "orgs db' = map f (orgs db)"
    and "\<And>og. o_id (f og) = o_id og \<and> o_lifecycle (f og) = o_lifecycle og \<and> (o_lifecycle og \<noteq> ''active'' \<longrightarrow> f og = og)"
    and "db' = db\<lparr>orgs := orgs db', audit := audit db', audit_next := audit_next db',
              webhook_events := webhook_events db', watermarks := watermarks db'\<rparr>"
  shows "billing_only db db'"
  using assms unfolding billing_only_def by blast

lemma billing_only_same_orgs:
  assumes "orgs db' = orgs db"
    and "db' = db\<lparr>audit := audit db', audit_next := audit_next db',
              webhook_events := webhook_events db', watermarks := watermarks db'\<rparr>"
  shows "billing_only db db'"
  using assms by (intro billing_onlyI [of _ id]) auto

lemma billing_only_refl: "billing_only db db"
  by (rule billing_only_same_orgs) simp_all

lemma billing_only_trans:
  assumes "billing_only db db1" and "billing_only db1 db2"
  shows "billing_only db db2"
proof -
  obtain f where f: "orgs db1 = map f (orgs db)"
      "\<And>og. o_id (f og) = o_id og \<and> o_lifecycle (f og) = o_lifecycle og \<and> (o_lifecycle og \<noteq> ''active'' \<longrightarrow> f og = og)"
    and r1: "db1 = db\<lparr>orgs := orgs db1, audit := audit db1, audit_next := audit_next db1,
              webhook_events := webhook_events db1, watermarks := watermarks db1\<rparr>"
    using assms(1) unfolding billing_only_def by blast
  obtain g where g: "orgs db2 = map g (orgs db1)"
      "\<And>og. o_id (g og) = o_id og \<and> o_lifecycle (g og) = o_lifecycle og \<and> (o_lifecycle og \<noteq> ''active'' \<longrightarrow> g og = og)"
    and r2: "db2 = db1\<lparr>orgs := orgs db2, audit := audit db2, audit_next := audit_next db2,
              webhook_events := webhook_events db2, watermarks := watermarks db2\<rparr>"
    using assms(2) unfolding billing_only_def by blast
  have "db2 = db\<lparr>orgs := orgs db2, audit := audit db2, audit_next := audit_next db2,
              webhook_events := webhook_events db2, watermarks := watermarks db2\<rparr>"
    by (subst r2, subst r1) simp
  moreover have "orgs db2 = map (g \<circ> f) (orgs db)" by (simp add: g(1) f(1))
  ultimately show ?thesis using f(2) g(2) by (intro billing_onlyI [of _ "g \<circ> f"]) auto
qed

lemma billing_only_receipt:
  "record_webhook_receipt now e sub db = Inr (ins, db') \<Longrightarrow> billing_only db db'"
  by (rule billing_only_same_orgs) (auto simp: record_webhook_receipt_def rbind_eq_Inr_iff split: if_splits)

lemma billing_only_tables [simp]:
  "billing_only db (prune_webhook_events now db)"
  "billing_only db (mark_webhook_event_processed now i db)"
  "billing_only db (update_subscription_watermark e sub db)"
  by (auto intro!: billing_only_same_orgs
      simp: prune_webhook_events_def mark_webhook_event_processed_def update_subscription_watermark_def Let_def)

lemma billing_only_record:
  assumes "record_webhook_event now e db = Inr (disp, db')"
  shows "billing_only db db'"
proof -
  obtain ins db1 where "record_webhook_receipt now e (event_subscription_id e) db = Inr (ins, db1)"
    and "db' = db1 \<or> db' = mark_webhook_event_processed now (ev_id e) db1"
    using assms unfolding record_webhook_event_def
    by (auto simp: Let_def rbind_eq_Inr_iff split: if_splits option.splits)
  then show ?thesis by (metis billing_only_receipt billing_only_tables(2) billing_only_trans)
qed

lemma billing_only_update:
  assumes "update_org_audited now org act detail p f db = Inr db'"
    and "\<And>og. p og \<Longrightarrow> o_lifecycle og = ''active''"
    and "\<And>og. o_id (f og) = o_id og \<and> o_lifecycle (f og) = o_lifecycle og"
  shows "billing_only db db'"
proof (rule billing_onlyI)
  show "orgs db' = map (\<lambda>og. if p og then f og else og) (orgs db)"
    using assms(1) by (auto simp: update_org_audited_def update_org_def rbind_eq_Inr_iff Let_def sql_update_def)
  show "db' = db\<lparr>orgs := orgs db', audit := audit db', audit_next := audit_next db',
              webhook_events := webhook_events db', watermarks := watermarks db'\<rparr>"
    using assms(1) by (auto simp: update_org_audited_def update_org_def rbind_eq_Inr_iff Let_def record_tx_def)
qed (use assms(2,3) in auto)

lemma billing_only_apply:
  "checkout_completed now obj db = Inr db' \<Longrightarrow> billing_only db db'"
  "subscription_updated now obj db = Inr db' \<Longrightarrow> billing_only db db'"
  "subscription_deleted now obj db = Inr db' \<Longrightarrow> billing_only db db'"
  "reconcile_subscription now obs sub hint db = Inr db' \<Longrightarrow> billing_only db db'"
  by (auto simp: checkout_completed_def subscription_updated_def subscription_deleted_def reconcile_subscription_def
      Let_def split: option.splits subscription_status.splits observation.splits prod.splits
      intro: billing_only_refl elim!: billing_only_update)

lemma billing_only_apply_event: "apply_event now e db = Inr db' \<Longrightarrow> billing_only db db'"
  by (auto simp: apply_event_def split: if_splits intro: billing_only_apply billing_only_refl)

lemma billing_only_webhook_tx:
  assumes "webhook_tx P now e db = Inr (u, db')"
  shows "billing_only db db'"
proof -
  obtain disp db1 where rec: "record_webhook_event now e (prune_webhook_events now db) = Inr (disp, db1)"
    and rest: "(case disp of
        Ignore \<Rightarrow> Inr ((), db1)
      | Reconcile \<Rightarrow>
          rbind (ok_or (event_subscription_id e) (Config ''stripe reconciliation event has no subscription id'')) (\<lambda>sub.
          rbind (map_err into_error (pv_get P sub)) (\<lambda>obs.
          rbind (reconcile_subscription now obs sub (event_org_hint e) db1) (\<lambda>db.
          Inr ((), mark_webhook_event_processed now (ev_id e) (update_subscription_watermark e sub db)))))
      | Apply \<Rightarrow>
          rbind (apply_event now e db1) (\<lambda>db.
          let db = (case event_subscription_id e of None \<Rightarrow> db | Some sub \<Rightarrow> update_subscription_watermark e sub db)
          in Inr ((), mark_webhook_event_processed now (ev_id e) db))) = Inr (u, db')"
    using assms unfolding webhook_tx_def Let_def rbind_eq_Inr_iff by auto
  have start: "billing_only db db1"
    using billing_only_record [OF rec] billing_only_tables(1) by (rule billing_only_trans [rotated])
  show ?thesis
  proof (cases disp)
    case Ignore
    with rest start show ?thesis by simp
  next
    case Reconcile
    with rest obtain obs sub db2 where "reconcile_subscription now obs sub (event_org_hint e) db1 = Inr db2"
      "db' = mark_webhook_event_processed now (ev_id e) (update_subscription_watermark e sub db2)"
      by (auto simp: rbind_eq_Inr_iff)
    with start show ?thesis by (metis billing_only_apply(4) billing_only_tables(2,3) billing_only_trans)
  next
    case Apply
    with rest obtain db2 where "apply_event now e db1 = Inr db2"
      "db' = mark_webhook_event_processed now (ev_id e)
         (case event_subscription_id e of None \<Rightarrow> db2 | Some sub \<Rightarrow> update_subscription_watermark e sub db2)"
      by (auto simp: rbind_eq_Inr_iff Let_def)
    then have "billing_only db1 db'"
      by (cases "event_subscription_id e")
         (simp_all, (metis billing_only_apply_event billing_only_tables(2,3) billing_only_trans)+)
    with start show ?thesis by (rule billing_only_trans)
  qed
qed

lemma billing_only_webhook:
  assumes "webhook hmac parse_event b now_secs now sig body db = (r, db')"
  shows "billing_only db db'"
proof -
  have "billing_only db db'" if "refuse_version now e db = (r, db')" for e
    using that unfolding refuse_version_def
    by (auto simp: run_txn_def split: sum.splits prod.splits
        intro: billing_only_refl billing_only_trans [OF billing_only_tables(1)] dest!: billing_only_receipt)
  then show ?thesis
    using assms unfolding webhook_def
    by (auto simp: run_txn_def split: sum.splits prod.splits if_splits intro: billing_only_refl billing_only_webhook_tx)
qed

subsection \<open>Ordering\<close>

text \<open>Events of a subscription are ordered by Stripe's creation time, ties by id; the watermark is the
  last one applied.\<close>

definition before :: "int \<times> string \<Rightarrow> int \<times> string \<Rightarrow> bool" where
  "before p q \<longleftrightarrow> fst p < fst q \<or> fst p = fst q \<and> snd p < snd q"

definition position :: "event \<Rightarrow> int \<times> string" where
  "position e = (ev_created e, ev_id e)"

definition watermark_of :: "db \<Rightarrow> string \<Rightarrow> (int \<times> string) option" where
  "watermark_of db sub = map_option (\<lambda>m. (wm_created m, wm_event m)) (sql_find (\<lambda>m. wm_subscription m = sub) (watermarks db))"

definition advances :: "db \<Rightarrow> db \<Rightarrow> bool" where
  "advances db db' \<longleftrightarrow> (\<forall>sub p. watermark_of db sub = Some p \<longrightarrow> (\<exists>q. watermark_of db' sub = Some q \<and> (p = q \<or> before p q)))"

lemma before_trans: "before p q \<Longrightarrow> before q r \<Longrightarrow> before p r"
  by (auto simp: before_def)

lemma before_irrefl [simp]: "\<not> before p p"
  by (simp add: before_def)

lemma not_before: "\<not> before p q \<longleftrightarrow> p = q \<or> before q p"
  by (cases p; cases q) (auto simp: before_def)

lemma advances_refl: "watermarks db' = watermarks db \<Longrightarrow> advances db db'"
  by (auto simp: advances_def watermark_of_def)

lemma advances_trans: "advances a b \<Longrightarrow> advances b c \<Longrightarrow> advances a c"
  unfolding advances_def by (blast intro: before_trans)

lemma watermark_update:
  "watermark_of (update_subscription_watermark e sub db) sub' =
     (if sub' = sub then (case watermark_of db sub of
          Some p \<Rightarrow> Some (if before p (position e) then position e else p)
        | None \<Rightarrow> Some (position e))
      else watermark_of db sub')"
proof (cases "sql_find (\<lambda>m. wm_subscription m = sub) (watermarks db)")
  case None
  then have "\<not> sql_exists (\<lambda>m. wm_subscription m = sub) (watermarks db)"
    by (simp add: sql_find_None_iff sql_exists_iff)
  with None show ?thesis
    by (auto simp: update_subscription_watermark_def watermark_of_def sql_find_insert position_def split: option.splits)
next
  case (Some m)
  then have ex: "sql_exists (\<lambda>m. wm_subscription m = sub) (watermarks db)"
    by (auto simp: sql_exists_iff dest: sql_find_SomeD)
  let ?p = "\<lambda>m. wm_subscription m = sub \<and> (wm_created m < ev_created e \<or> wm_created m = ev_created e \<and> wm_event m < ev_id e)"
  have find: "sql_find (\<lambda>m. wm_subscription m = s) (sql_update ?p (\<lambda>m. m\<lparr>wm_created := ev_created e, wm_event := ev_id e\<rparr>) (watermarks db)) =
      map_option (\<lambda>m. if ?p m then m\<lparr>wm_created := ev_created e, wm_event := ev_id e\<rparr> else m)
        (sql_find (\<lambda>m. wm_subscription m = s) (watermarks db))" for s
    by (rule sql_find_update) simp
  have new: "watermark_of (update_subscription_watermark e sub db) s =
      map_option (\<lambda>m. if ?p m then position e else (wm_created m, wm_event m))
        (sql_find (\<lambda>m. wm_subscription m = s) (watermarks db))" for s
    by (cases "sql_find (\<lambda>m. wm_subscription m = s) (watermarks db)")
       (auto simp: update_subscription_watermark_def watermark_of_def ex find position_def)
  show ?thesis
  proof (cases "sub' = sub")
    case True
    with Some sql_find_SomeD [OF Some] show ?thesis
      unfolding new by (simp add: watermark_of_def before_def position_def)
  next
    case False
    then show ?thesis
      unfolding new
      by (cases "sql_find (\<lambda>m. wm_subscription m = sub') (watermarks db)")
         (auto simp: watermark_of_def dest: sql_find_SomeD)
  qed
qed

lemma watermarks_kept [simp]:
  "watermarks (prune_webhook_events now db) = watermarks db"
  "watermarks (mark_webhook_event_processed now i db) = watermarks db"
  by (simp_all add: prune_webhook_events_def mark_webhook_event_processed_def Let_def)

lemma watermark_of_kept [simp]:
  "watermark_of (prune_webhook_events now db) sub = watermark_of db sub"
  "watermark_of (mark_webhook_event_processed now i db) sub = watermark_of db sub"
  by (simp_all add: watermark_of_def)

lemma watermark_advances: "advances db (update_subscription_watermark e sub db)"
  by (simp add: advances_def watermark_update del: split_paired_Ex split_paired_All)

lemma receipt_keeps:
  "record_webhook_receipt now e sub db = Inr (ins, db') \<Longrightarrow> watermarks db' = watermarks db \<and> orgs db' = orgs db"
  by (auto simp: record_webhook_receipt_def rbind_eq_Inr_iff split: if_splits)

lemma update_keeps:
  "update_org_audited now org act detail p f db = Inr db' \<Longrightarrow> watermarks db' = watermarks db"
  by (auto simp: update_org_audited_def update_org_def rbind_eq_Inr_iff Let_def)

lemma reconcile_keeps: "reconcile_subscription now obs sub hint db = Inr db' \<Longrightarrow> watermarks db' = watermarks db"
  by (auto simp: reconcile_subscription_def Let_def split: option.splits observation.splits prod.splits dest: update_keeps)

lemma apply_keeps: "apply_event now e db = Inr db' \<Longrightarrow> watermarks db' = watermarks db"
  by (auto simp: apply_event_def checkout_completed_def subscription_updated_def subscription_deleted_def Let_def
      split: if_splits option.splits subscription_status.splits dest: update_keeps)

lemma record_event_cases:
  assumes "record_webhook_event now e db = Inr (disp, db')"
  shows "watermarks db' = watermarks db" and "orgs db' = orgs db"
    and "disp \<noteq> Ignore \<Longrightarrow> event_subscription_id e = Some sub \<Longrightarrow> watermark_of db sub = Some p \<Longrightarrow> before p (position e)"
proof -
  obtain ins db1 where r: "record_webhook_receipt now e (event_subscription_id e) db = Inr (ins, db1)"
    and rest: "(if \<not> ins \<and> sql_exists (\<lambda>w. we_id w = ev_id e \<and> we_processed_at w \<noteq> None) (webhook_events db1)
      then Inr (Ignore, db1)
      else case event_subscription_id e of
        None \<Rightarrow> Inr (Apply, db1)
      | Some sub \<Rightarrow>
          (case sql_find (\<lambda>m. wm_subscription m = sub) (watermarks db1) of
             None \<Rightarrow> Inr (Apply, db1)
           | Some m \<Rightarrow>
               if ev_created e < wm_created m \<or> ev_created e = wm_created m \<and> ev_id e \<le> wm_event m
               then Inr (Ignore, mark_webhook_event_processed now (ev_id e) db1)
               else if ev_created e = wm_created m then Inr (Reconcile, db1)
               else Inr (Apply, db1))) = (Inr (disp, db') :: error + disposition \<times> db)"
    using assms unfolding record_webhook_event_def Let_def rbind_eq_Inr_iff split_paired_Ex prod.case by blast
  note k = receipt_keeps [OF r]
  show "watermarks db' = watermarks db" "orgs db' = orgs db"
    using k rest by (auto simp: mark_webhook_event_processed_def split: if_splits option.splits)
  show "before p (position e)" if "disp \<noteq> Ignore" "event_subscription_id e = Some sub" "watermark_of db sub = Some p"
    using that k rest
    by (auto simp: watermark_of_def before_def position_def split: if_splits option.splits)
qed

lemma webhook_tx_ordering:
  assumes "webhook_tx P now e db = Inr (u, db')"
  shows "advances db db'"
    and "orgs db' \<noteq> orgs db \<Longrightarrow> event_subscription_id e = Some sub \<Longrightarrow>
      watermark_of db' sub = Some (position e) \<and> (\<forall>p. watermark_of db sub = Some p \<longrightarrow> before p (position e))"
proof -
  let ?db = "prune_webhook_events now db"
  obtain disp db1 where rec: "record_webhook_event now e ?db = Inr (disp, db1)"
    and rest: "(case disp of
        Ignore \<Rightarrow> Inr ((), db1)
      | Reconcile \<Rightarrow>
          rbind (ok_or (event_subscription_id e) (Config ''stripe reconciliation event has no subscription id'')) (\<lambda>sub.
          rbind (map_err into_error (pv_get P sub)) (\<lambda>obs.
          rbind (reconcile_subscription now obs sub (event_org_hint e) db1) (\<lambda>db.
          Inr ((), mark_webhook_event_processed now (ev_id e) (update_subscription_watermark e sub db)))))
      | Apply \<Rightarrow>
          rbind (apply_event now e db1) (\<lambda>db.
          let db = (case event_subscription_id e of None \<Rightarrow> db | Some sub \<Rightarrow> update_subscription_watermark e sub db)
          in Inr ((), mark_webhook_event_processed now (ev_id e) db))) = Inr (u, db')"
    using assms unfolding webhook_tx_def Let_def rbind_eq_Inr_iff by auto
  note same = record_event_cases(1,2) [OF rec] and newer = record_event_cases(3) [OF rec]
  have shape: "disp = Ignore \<and> db' = db1 \<or> disp \<noteq> Ignore \<and>
      (\<exists>db2. watermarks db2 = watermarks db1 \<and> db' = mark_webhook_event_processed now (ev_id e)
         (case event_subscription_id e of None \<Rightarrow> db2 | Some sub \<Rightarrow> update_subscription_watermark e sub db2))"
    using rest by (cases disp) (auto simp: rbind_eq_Inr_iff Let_def dest: reconcile_keeps apply_keeps)
  have wm1: "watermark_of db1 s = watermark_of db s" for s
    using same(1) by (simp add: watermark_of_def)
  show "advances db db'"
  proof (cases "disp = Ignore")
    case True
    with shape same(1) show ?thesis by (intro advances_refl) auto
  next
    case False
    with shape obtain db2 where db2: "watermarks db2 = watermarks db1" "db' = mark_webhook_event_processed now (ev_id e)
         (case event_subscription_id e of None \<Rightarrow> db2 | Some sub \<Rightarrow> update_subscription_watermark e sub db2)" by blast
    have "advances db db2" using db2(1) same(1) by (intro advances_refl) simp
    moreover have "advances db2 db'"
      by (cases "event_subscription_id e")
         (simp_all add: db2(2) advances_def watermark_update del: split_paired_Ex split_paired_All)
    ultimately show ?thesis by (rule advances_trans)
  qed
  show "watermark_of db' sub = Some (position e) \<and> (\<forall>p. watermark_of db sub = Some p \<longrightarrow> before p (position e))"
    if "orgs db' \<noteq> orgs db" and sub: "event_subscription_id e = Some sub"
  proof -
    have "orgs db1 = orgs db" using same(2) by (simp add: prune_webhook_events_def Let_def)
    with that(1) shape have "disp \<noteq> Ignore" by auto
    with shape sub obtain db2 where db2: "watermarks db2 = watermarks db1"
      "db' = mark_webhook_event_processed now (ev_id e) (update_subscription_watermark e sub db2)" by auto
    have old: "before p (position e)" if "watermark_of db sub = Some p" for p
      using newer [OF \<open>disp \<noteq> Ignore\<close> sub, of p] that by simp
    have "watermark_of db2 sub = watermark_of db sub"
      using db2(1) wm1 [of sub] by (simp add: watermark_of_def)
    with old show ?thesis by (auto simp: db2(2) watermark_update split: option.splits)
  qed
qed

text \<open>A run of deliveries, with the events that changed an organisation in the order they did. Between
  two deliveries anything else may happen that leaves the watermarks alone.\<close>

inductive deliveries ::
    "(string \<Rightarrow> string \<Rightarrow> bytes) \<Rightarrow> (string \<Rightarrow> event option) \<Rightarrow> db \<Rightarrow> event list \<Rightarrow> db \<Rightarrow> bool"
  for hmac parse_event db where
  none: "deliveries hmac parse_event db [] db"
| other: "deliveries hmac parse_event db es db1 \<Longrightarrow> watermarks db2 = watermarks db1 \<Longrightarrow>
    deliveries hmac parse_event db es db2"
| delivery: "deliveries hmac parse_event db es db1 \<Longrightarrow>
    webhook hmac parse_event b now_secs now sig body db1 = (r, db2) \<Longrightarrow>
    deliveries hmac parse_event db (if orgs db2 = orgs db1 then es else es @ [the (parse_event body)]) db2"

lemma refuse_keeps:
  assumes "refuse_version now e db = (r, db')"
  shows "watermarks db' = watermarks db" and "orgs db' = orgs db"
proof -
  have orgs: "orgs (prune_webhook_events now db) = orgs db" by (simp add: prune_webhook_events_def Let_def)
  have "watermarks db' = watermarks db \<and> orgs db' = orgs db"
    using assms orgs unfolding refuse_version_def
    by (auto simp: run_txn_def split: sum.splits prod.splits dest!: receipt_keeps)
  then show "watermarks db' = watermarks db" "orgs db' = orgs db" by simp_all
qed

lemma webhook_ordering:
  assumes "webhook hmac parse_event b now_secs now sig body db = (r, db')"
  shows "advances db db'"
    and "orgs db' \<noteq> orgs db \<Longrightarrow> event_subscription_id (the (parse_event body)) = Some sub \<Longrightarrow>
      watermark_of db' sub = Some (position (the (parse_event body))) \<and>
      (\<forall>p. watermark_of db sub = Some p \<longrightarrow> before p (position (the (parse_event body))))"
proof -
  consider (idle) "watermarks db' = watermarks db" "orgs db' = orgs db"
    | (applied) P e where "parse_event body = Some e" "webhook_tx P now e db = Inr ((), db')"
    using assms unfolding webhook_def
    by (auto simp: run_txn_def rbind_eq_Inr_iff split: sum.splits prod.splits if_splits dest: refuse_keeps)
  note cases = this
  then show "advances db db'"
    by cases (auto intro: advances_refl webhook_tx_ordering(1))
  show "watermark_of db' sub = Some (position (the (parse_event body))) \<and>
      (\<forall>p. watermark_of db sub = Some p \<longrightarrow> before p (position (the (parse_event body))))"
    if "orgs db' \<noteq> orgs db" "event_subscription_id (the (parse_event body)) = Some sub"
    using cases
  proof cases
    case idle
    with that(1) show ?thesis by simp
  next
    case applied
    with that webhook_tx_ordering(2) [OF applied(2) that(1), of sub] show ?thesis by simp
  qed
qed

lemma deliveries_ordered:
  assumes "deliveries hmac parse_event db es db'"
  shows "(\<forall>e sub. e \<in> set es \<and> event_subscription_id e = Some sub \<longrightarrow>
        (\<exists>p. watermark_of db' sub = Some p \<and> (position e = p \<or> before (position e) p))) \<and>
     sorted_wrt (\<lambda>e f. event_subscription_id e = event_subscription_id f \<and> event_subscription_id e \<noteq> None \<longrightarrow>
        before (position e) (position f)) es"
  using assms
proof induction
  case none
  then show ?case by simp
next
  case (other es db1 db2)
  then show ?case by (simp add: watermark_of_def)
next
  case (delivery es db1 b now_secs now sig body r db2)
  let ?e = "the (parse_event body)"
  note ord = webhook_ordering [OF delivery.hyps(2)]
  have old: "\<exists>p. watermark_of db2 sub = Some p \<and> (position e = p \<or> before (position e) p)"
    if e: "e \<in> set es" "event_subscription_id e = Some sub" for e sub
  proof -
    obtain p where p: "watermark_of db1 sub = Some p" "position e = p \<or> before (position e) p"
      using delivery.IH e by blast
    obtain q where "watermark_of db2 sub = Some q" "p = q \<or> before p q"
      using ord(1) p(1) unfolding advances_def by blast
    with p(2) show ?thesis by (blast intro: before_trans)
  qed
  show ?case
  proof (cases "orgs db2 = orgs db1")
    case True
    with old delivery.IH show ?thesis by simp
  next
    case False
    have "before (position e) (position ?e)"
      if e: "e \<in> set es" "event_subscription_id e = Some sub" "event_subscription_id ?e = Some sub" for e sub
    proof -
      obtain p where "watermark_of db1 sub = Some p" "position e = p \<or> before (position e) p"
        using delivery.IH e by blast
      with ord(2) [OF False e(3)] show ?thesis by (blast intro: before_trans)
    qed
    then have "sorted_wrt (\<lambda>e f. event_subscription_id e = event_subscription_id f \<and> event_subscription_id e \<noteq> None \<longrightarrow>
        before (position e) (position f)) (es @ [?e])"
      using delivery.IH by (auto simp: sorted_wrt_append simp del: split_paired_Ex) metis
    moreover have "\<exists>p. watermark_of db2 sub = Some p \<and> (position e = p \<or> before (position e) p)"
      if "e \<in> set (es @ [?e])" "event_subscription_id e = Some sub" for e sub
      using that old ord(2) [OF False] by (auto simp del: split_paired_Ex)
    ultimately show ?thesis using False by (simp del: split_paired_Ex)
  qed
qed


text \<open>No delivery, whatever it carries, touches an organisation that is being deleted or is a
  tombstone, or any project, key, membership or deletion record: a late event cannot thaw a
  deleting organisation or give a tombstone its billing identity back.\<close>

theorem webhook_spares_inactive_organisations:
  assumes "webhook hmac parse_event b now_secs now sig body db = (r, db')"
    and "og \<in> set (orgs db)" and "o_lifecycle og \<noteq> ''active''"
  shows "(og \<in> set (orgs db')) \<and>
    (map o_id (orgs db') = map o_id (orgs db)) \<and>
    (map o_lifecycle (orgs db') = map o_lifecycle (orgs db)) \<and>
    (members db' = members db \<and> projects db' = projects db \<and> grants db' = grants db \<and>
      tokens db' = tokens db \<and> deletions db' = deletions db)"
proof -
  from billing_only_webhook [OF assms(1)] obtain f where f: "orgs db' = map f (orgs db)"
      "\<And>og. o_id (f og) = o_id og \<and> o_lifecycle (f og) = o_lifecycle og \<and> (o_lifecycle og \<noteq> ''active'' \<longrightarrow> f og = og)"
    and r: "db' = db\<lparr>orgs := orgs db', audit := audit db', audit_next := audit_next db',
              webhook_events := webhook_events db', watermarks := watermarks db'\<rparr>"
    unfolding billing_only_def by blast
  have p1: "og \<in> set (orgs db')" using f assms(2,3) by (force simp: image_iff)
  have p2: "map o_id (orgs db') = map o_id (orgs db)" "map o_lifecycle (orgs db') = map o_lifecycle (orgs db)"
    using f by (simp_all add: comp_def)
  have p3: "members db' = members db \<and> projects db' = projects db \<and> grants db' = grants db \<and>
      tokens db' = tokens db \<and> deletions db' = deletions db"
    by (subst (1 2 3 4 5) r) simp
  show ?thesis by ((rule p1 p2 p3 conjI impI | assumption)+)
qed

subsection \<open>The signature\<close>

lemma split_on_append: "d \<notin> set a \<Longrightarrow> split_on d (a @ d # s) = a # split_on d s"
  by (induction a) auto

lemma hex_value_digit: "n < 16 \<Longrightarrow> hex_value (hex_digit n) = Some n"
  by (auto simp: hex_value_def hex_digit_def Let_def)

lemma hex_digit_not_plus: "n < 16 \<Longrightarrow> hex_digit n \<noteq> CHR ''+''"
  using hex_value_digit [of n] by (auto simp: hex_value_def)

lemma decode_hex_to_hex: "decode_hex (to_hex bs) = Some bs"
proof (induction bs)
  case Nil
  then show ?case by (simp add: to_hex_def)
next
  case (Cons b bs)
  have b: "unat b < 256" using unsigned_less [of b] by simp
  have "hex_pair (hex_digit (unat b div 16)) (hex_digit (unat b mod 16)) = Some b"
  proof -
    have "(of_nat (16 * (unat b div 16) + unat b mod 16) :: u8) = b" by (simp only: mult_div_mod_eq) simp
    then have "16 * of_nat (unat b div 16) + of_nat (unat b mod 16) = b"
      by (metis of_nat_add of_nat_mult of_nat_numeral)
    with b show ?thesis by (simp add: hex_pair_def hex_value_digit hex_digit_not_plus)
  qed
  with Cons show ?case by (simp add: to_hex_def hex_byte_def)
qed

lemma to_hex_plain: "c \<in> set (to_hex bs) \<Longrightarrow> \<not> is_ascii_space c \<and> c \<noteq> CHR '',''"
  using to_hex_chars [of c bs] by (auto simp: hex_char_def is_ascii_space_def Let_def)

lemma dec_int_plain: "c \<in> set (dec_int i) \<Longrightarrow> \<not> is_ascii_space c \<and> c \<noteq> CHR '',''"
proof -
  have digit: "is_digit c \<Longrightarrow> \<not> is_ascii_space c \<and> c \<noteq> CHR '',''" for c
    by (auto simp: is_digit_def is_ascii_space_def Let_def)
  assume "c \<in> set (dec_int i)"
  then have "is_digit c \<or> c = CHR ''-''"
    using dec_nat_digits by (auto simp: dec_int_def list_all_iff split: if_splits)
  with digit show ?thesis by (auto simp: is_ascii_space_def Let_def)
qed

lemma signature_parts_stripe:
  assumes "in_i64 t"
  shows "signature_parts (''t='' @ dec_int t @ '',v1='' @ to_hex mac) = (Some t, [mac])"
proof -
  let ?a = "''t='' @ dec_int t" and ?b = "''v1='' @ to_hex mac"
  have split: "split_on CHR '','' (?a @ CHR '','' # ?b) = [?a, ?b]"
    using split_on_append [of "CHR '',''" ?a ?b] split_on_none [of "CHR '',''" ?b] dec_int_plain to_hex_plain
    by fastforce
  have plain: "trim_by is_ascii_space ?a = ?a" "trim_by is_ascii_space ?b = ?b"
    by (rule trim_by_none, use dec_int_plain to_hex_plain in \<open>fastforce simp: is_ascii_space_def\<close>)+
  have once: "split_once CHR ''='' ?a = Some (''t'', dec_int t)" "split_once CHR ''='' ?b = Some (''v1'', to_hex mac)"
    by simp_all
  have header: "''t='' @ dec_int t @ '',v1='' @ to_hex mac = ?a @ CHR '','' # ?b" by simp
  show ?thesis
    unfolding signature_parts_def header split
    using assms by (simp add: signature_part_def plain [simplified] parse_i64_dec_int decode_hex_to_hex)
qed

lemma tolerance_iff:
  assumes "in_i64 t" and "0 \<le> now" and "now < 2 ^ 62"
  shows "wrap64 \<bar>wrap64 (now - t)\<bar> \<le> SIGNATURE_TOLERANCE_SECS \<longleftrightarrow> \<bar>now - t\<bar> \<le> 300 \<or> t = now - 2 ^ 63"
proof -
  have d: "- (2 ^ 63) < now - t" "now - t < 2 ^ 64" using assms by (auto simp: in_i64_def)
  show ?thesis
  proof (cases "now - t < 2 ^ 63")
    case True
    then have "wrap64 (now - t) = now - t" using d by (simp add: wrap64_def)
    moreover have "wrap64 \<bar>now - t\<bar> = \<bar>now - t\<bar>" using d True by (simp add: wrap64_def)
    ultimately show ?thesis using True by (auto simp: SIGNATURE_TOLERANCE_SECS_def)
  next
    case False
    have "(now - t + 2 ^ 63) mod 2 ^ 64 = now - t + 2 ^ 63 - 2 ^ 64"
      using d False by (subst mod_pos_geq) (simp_all add: mod_pos_pos_trivial)
    then have w: "wrap64 (now - t) = now - t - 2 ^ 64" by (simp add: wrap64_def)
    show ?thesis
    proof (cases "now - t = 2 ^ 63")
      case True
      then have "t = now - 2 ^ 63" by simp
      with w show ?thesis by (simp add: wrap64_def SIGNATURE_TOLERANCE_SECS_def)
    next
      case gt: False
      have "\<bar>wrap64 (now - t)\<bar> = 2 ^ 64 - (now - t)" using d by (simp add: w)
      moreover have "wrap64 (2 ^ 64 - (now - t)) = 2 ^ 64 - (now - t)"
        using gt d False by (simp add: wrap64_def)
      ultimately have "wrap64 \<bar>wrap64 (now - t)\<bar> = 2 ^ 64 - (now - t)" by simp
      moreover have "300 < 2 ^ 64 - (now - t)"
        using assms by (simp add: in_i64_def)
      ultimately show ?thesis using False gt by (auto simp: SIGNATURE_TOLERANCE_SECS_def)
    qed
  qed
qed

text \<open>C35: The webhook accepts a header in Stripe's form exactly when its signature is the MAC of the
  timestamp and the payload under the endpoint's secret and the timestamp is within five minutes of
  the clock (or exactly \<open>2\<^sup>6\<^sup>3\<close> seconds before it, where the difference wraps around).\<close>

theorem stripe_signature_exact:
  assumes "in_i64 t" and "0 \<le> now" and "now < 2 ^ 62"
  shows "verify_signature hmac secret (''t='' @ dec_int t @ '',v1='' @ to_hex mac) payload now \<longleftrightarrow>
    mac = hmac secret (dec_int t @ ''.'' @ payload) \<and> (\<bar>now - t\<bar> \<le> 300 \<or> t = now - 2 ^ 63)"
  unfolding verify_signature_def signature_parts_stripe [OF assms(1)]
  using tolerance_iff [OF assms] by auto

theorem stripe_signature_exact_witness:
  "verify_signature (\<lambda>secret message. [of_nat (length message)]) ''whsec'' (''t='' @ dec_int 100 @ '',v1='' @ to_hex [6]) ''{}'' 130"
  using stripe_signature_exact [of 100 130 "\<lambda>secret message. [of_nat (length message)]" "''whsec''" "[6]" "''{}''"]
  by (simp add: in_i64_def dec_int_def dec_nat.simps)

subsection \<open>Cancellation\<close>

lemma get_subscription_id:
  assumes "stripe_get_subscription S sub w = (Inr (Current s), w')"
  shows "sn_id s = sub"
  using assms
  by (auto simp: stripe_get_subscription_def subscription_snapshot_def rbind_eq_Inr_iff Let_def
      split: prod.splits sum.splits if_splits)

lemma cancellation_outcome_Inr:
  "cancellation_outcome c fresh = Inr obs \<Longrightarrow> fresh = Inr obs \<and> (obs_gate obs = Blocking \<longrightarrow> (\<exists>u. c = Inr u))"
  by (auto simp: cancellation_outcome_def rbind_eq_Inr_iff split: sum.splits if_splits)

text \<open>Cancelling a subscription never reports a state it has not just looked up: the observation it
  returns is the answer of its last lookup of that very subscription, and one that still blocks a
  purge is returned only when the cancellation request itself was accepted.\<close>

theorem cancellation_reports_fresh_lookup:
  assumes "stripe_cancel_subscription S sub key org w = (Inr obs, w')"
  shows "(\<exists>w1. stripe_get_subscription S sub w1 = (Inr obs, w')) \<and>
    (obs_gate obs = Blocking \<longrightarrow>
      (\<exists>w1 w2 reply. stripe_delete S (''subscriptions/'' @ sub) key (cancellation_form org) w1 = (Inr reply, w2))) \<and>
    (obs = Current s \<longrightarrow> sn_id s = sub)"
proof -
  obtain first w1 where first: "stripe_get_subscription S sub w = (Inr first, w1)"
    using assms unfolding stripe_cancel_subscription_def by (auto split: prod.splits sum.splits)
  have all: "(\<exists>w1. stripe_get_subscription S sub w1 = (Inr obs, w')) \<and> (obs_gate obs = Blocking \<longrightarrow>
      (\<exists>w1 w2 reply. stripe_delete S (''subscriptions/'' @ sub) key (cancellation_form org) w1 = (Inr reply, w2)))"
  proof (cases "first = ObsMissing \<or> obs_gate first \<noteq> Blocking")
    case True
    then have "obs = first \<and> w' = w1"
      using assms first by (cases first) (auto simp: stripe_cancel_subscription_def)
    with first True show ?thesis by auto
  next
    case False
    then obtain snap where snap: "first = Current snap" "status_gate (sn_status snap) = Blocking" by (cases first) auto
    obtain c w2 where c: "stripe_delete S (''subscriptions/'' @ sub) key (cancellation_form org) w1 = (c, w2)" by fastforce
    obtain fresh w3 where fresh: "stripe_get_subscription S sub w2 = (fresh, w3)" by fastforce
    have "cancellation_outcome (rbind c (\<lambda>_. Inr ())) fresh = Inr obs" and w: "w' = w3"
      using assms first snap c fresh by (simp_all add: stripe_cancel_subscription_def Let_def)
    from cancellation_outcome_Inr [OF this(1)]
    have "fresh = Inr obs" "obs_gate obs = Blocking \<longrightarrow> (\<exists>reply. c = Inr reply)"
      by (auto simp: rbind_eq_Inr_iff)
    with c fresh w show ?thesis by blast
  qed
  then have p1: "\<exists>w1. stripe_get_subscription S sub w1 = (Inr obs, w')"
    and p3: "obs_gate obs = Blocking \<Longrightarrow>
      \<exists>w1 w2 reply. stripe_delete S (''subscriptions/'' @ sub) key (cancellation_form org) w1 = (Inr reply, w2)" by blast+
  from all obtain w1 where "stripe_get_subscription S sub w1 = (Inr obs, w')" by (elim conjE exE)
  then have p2: "obs = Current s \<Longrightarrow> sn_id s = sub" using get_subscription_id [of S sub w1 s w'] by simp
  show ?thesis by ((rule p1 p2 p3 conjI impI | assumption)+)
qed

subsection \<open>A subscription that was replaced\<close>

lemma distinct_map_filter_update:
  assumes "distinct (List.map_filter k t)" and "\<And>r. p r \<Longrightarrow> k (f r) = None \<or> k (f r) = k r"
  shows "distinct (List.map_filter k (sql_update p f t)) \<and> set (List.map_filter k (sql_update p f t)) \<subseteq> set (List.map_filter k t)"
  using assms(1)
proof (induction t)
  case Nil
  then show ?case by (simp add: sql_update_def)
next
  case (Cons r t)
  have "k (if p r then f r else r) = None \<or> k (if p r then f r else r) = k r" using assms(2) by simp
  with Cons show ?case
    by (auto simp: List.map_filter_simps sql_update_def split: option.splits if_splits)
qed

text \<open>C38: An event that ends a subscription takes the team tier and the link to the current subscription
  from the organisation its metadata names, also when it is about another subscription than the one
  the organisation has by then.\<close>

theorem ended_subscription_unlinks_current:
  assumes "json_str (json_get ''org_id'' (json_get ''metadata'' obj)) = Some org"
    and "find_org db org = Some og" and "o_lifecycle og = ''active''" and "o_stripe_subscription og = Some current"
    and "stripe_ids_unique (orgs db)"
  shows "\<exists>db'. subscription_deleted now obj db = Inr db' \<and>
    find_org db' org = Some (og\<lparr>o_tier := ''free'', o_stripe_subscription := None\<rparr>)"
proof -
  let ?p = "\<lambda>og. o_id og = org \<and> o_lifecycle og = ''active'' \<and> (o_tier og \<noteq> ''free'' \<or> o_stripe_subscription og \<noteq> None)"
  let ?f = "\<lambda>og. og\<lparr>o_tier := ''free'', o_stripe_subscription := None\<rparr>"
  have "stripe_ids_unique (sql_update ?p ?f (orgs db))"
    using assms(5) distinct_map_filter_update [of o_stripe_customer "orgs db" ?p ?f]
      distinct_map_filter_update [of o_stripe_subscription "orgs db" ?p ?f] by (simp add: stripe_ids_unique_def)
  then obtain db' where db': "subscription_deleted now obj db = Inr db'" and orgs: "orgs db' = sql_update ?p ?f (orgs db)"
    using assms(1) by (simp add: subscription_deleted_def org_for_subscription_def update_org_audited_def update_org_def)
  have "find_org db' org = map_option (\<lambda>og. if ?p og then ?f og else og) (find_org db org)"
    unfolding find_org_def orgs by (rule sql_find_update) simp
  then have "find_org db' org = Some (?f og)"
    using assms(2-4) by (auto simp: find_org_def dest: sql_find_SomeD)
  with db' show ?thesis by blast
qed

subsection \<open>A small instance\<close>

definition demo_billing :: billing_state where
  "demo_billing = \<lparr>bs_provider = \<lparr>pv_checkout = (\<lambda>_ _ _ _. Inl transport), pv_portal = (\<lambda>_ _. Inl transport),
     pv_get = (\<lambda>_. Inr ObsMissing), pv_cancel = (\<lambda>_ _ _. Inr ObsMissing)\<rparr>,
     bs_secret = ''whsec'', bs_return_url = ''https://sotto.test''\<rparr>"

definition demo_checkout :: event where
  "demo_checkout = \<lparr>ev_id = ''evt_1'', ev_created = 10, ev_version = Some ''2026-07-29.dahlia'',
     ev_kind = ''checkout.session.completed'',
     ev_object = JObject [(''client_reference_id'', JString ''acme''), (''subscription'', JString ''sub_1'')]\<rparr>"

definition demo_unpaid :: event where
  "demo_unpaid = \<lparr>ev_id = ''evt_2'', ev_created = 20, ev_version = Some ''2026-07-29.dahlia'',
     ev_kind = ''customer.subscription.updated'',
     ev_object = JObject [(''id'', JString ''sub_1''), (''status'', JString ''unpaid'')]\<rparr>"

definition demo_parse :: "string \<Rightarrow> event option" where
  "demo_parse body = (if body = ''1'' then Some demo_checkout else Some demo_unpaid)"

definition demo_header :: string where
  "demo_header = ''t='' @ dec_int 5 @ '',v1='' @ to_hex [6]"

definition demo_deliver :: "string \<Rightarrow> db \<Rightarrow> db" where
  "demo_deliver body db = snd (webhook (\<lambda>_ _. [6]) demo_parse (Some demo_billing) 5 5000000
     (Some demo_header) body db)"

lemma demo_verified: "verify_signature (\<lambda>_ _. [6]) secret demo_header body 5"
  unfolding demo_header_def by (subst stripe_signature_exact) (simp_all add: in_i64_def)

lemma demo_deliver_tx:
  "webhook_version_accepted (ev_version (the (demo_parse body))) \<Longrightarrow>
   webhook_tx (bs_provider demo_billing) 5000000 (the (demo_parse body)) db = Inr (u, db') \<Longrightarrow> demo_deliver body db = db'"
  by (cases "demo_parse body")
     (auto simp: demo_deliver_def webhook_def billing_config_def demo_verified demo_parse_def run_txn_def split: if_splits)

lemma demo_checkout_delivered:
  "demo_deliver ''1'' demo_db = demo_db\<lparr>
     orgs := [\<lparr>o_id = ''acme'', o_enc_name = Some [7], o_created_by = Some ''alice'', o_tier = ''team'',
               o_trial_ends_at = None, o_lifecycle = ''active'', o_stripe_customer = None,
               o_stripe_subscription = Some ''sub_1'', o_deleted_at = None\<rparr>],
     audit := [\<lparr>a_id = 1, a_org = ''acme'', a_actor = ''stripe'', a_action = ''billing.subscribed'', a_target = None,
                a_env = None, a_detail = Some ''tier set to team'', a_created_at = 5000000\<rparr>],
     audit_next := 2,
     webhook_events := [\<lparr>we_id = ''evt_1'', we_type = ''checkout.session.completed'', we_version = ''2026-07-29.dahlia'',
       we_created = 10, we_subscription = Some ''sub_1'', we_received_at = 5000000, we_processed_at = Some 5000000\<rparr>],
     watermarks := [\<lparr>wm_subscription = ''sub_1'', wm_created = 10, wm_event = ''evt_1''\<rparr>]\<rparr>"
  by (rule demo_deliver_tx)
     (simp_all add: demo_parse_def demo_checkout_def webhook_version_accepted_def ACCEPTED_WEBHOOK_API_VERSIONS_def
       webhook_tx_def prune_webhook_events_def record_webhook_event_def record_webhook_receipt_def event_subscription_id_def
       apply_event_def checkout_completed_def update_org_audited_def update_org_def stripe_ids_unique_def
       update_subscription_watermark_def mark_webhook_event_processed_def record_tx_def no_context_def
       List.map_filter_simps Let_def demo_eval)

lemma demo_unpaid_delivered:
  "\<exists>db'. demo_deliver ''2'' (demo_deliver ''1'' demo_db) = db' \<and> orgs db' \<noteq> orgs (demo_deliver ''1'' demo_db)"
proof -
  let ?db = "demo_deliver ''1'' demo_db"
  have "\<exists>db'. webhook_tx (bs_provider demo_billing) 5000000 (the (demo_parse ''2'')) ?db = Inr ((), db') \<and> orgs db' \<noteq> orgs ?db"
    unfolding demo_checkout_delivered
    by (simp add: demo_parse_def demo_unpaid_def webhook_tx_def prune_webhook_events_def
       prunable_def record_webhook_event_def record_webhook_receipt_def event_subscription_id_def
       apply_event_def subscription_updated_def org_for_subscription_def org_of_subscription_def status_parse_def
       update_org_audited_def update_org_def stripe_ids_unique_def update_subscription_watermark_def
       mark_webhook_event_processed_def record_tx_def List.map_filter_simps Let_def prunable_def DAY_def
       sql_find_def sql_exists_def sql_count_def sql_select_def sql_update_def sql_delete_def sql_insert_def)
  then obtain db' where db': "webhook_tx (bs_provider demo_billing) 5000000 (the (demo_parse ''2'')) ?db = Inr ((), db')"
    "orgs db' \<noteq> orgs ?db" by blast
  have "demo_deliver ''2'' ?db = db'"
    by (rule demo_deliver_tx [OF _ db'(1)])
       (simp add: demo_parse_def demo_unpaid_def webhook_version_accepted_def ACCEPTED_WEBHOOK_API_VERSIONS_def)
  with db'(2) show ?thesis by blast
qed

lemma demo_deliveries:
  "deliveries (\<lambda>_ _. [6]) demo_parse demo_db [demo_checkout, demo_unpaid] (demo_deliver ''2'' (demo_deliver ''1'' demo_db))"
proof -
  have run: "webhook (\<lambda>_ _. [6]) demo_parse (Some demo_billing) 5 5000000 (Some demo_header) body db =
      (fst (webhook (\<lambda>_ _. [6]) demo_parse (Some demo_billing) 5 5000000 (Some demo_header) body db), demo_deliver body db)" for body db
    by (simp add: demo_deliver_def)
  have "orgs (demo_deliver ''1'' demo_db) \<noteq> orgs demo_db"
    unfolding demo_checkout_delivered by (simp add: demo_db_def)
  then have one: "deliveries (\<lambda>_ _. [6]) demo_parse demo_db [demo_checkout] (demo_deliver ''1'' demo_db)"
    using deliveries.delivery [OF deliveries.none run [of "''1''" demo_db]] by (simp add: demo_parse_def)
  show ?thesis
    using deliveries.delivery [OF one run [of "''2''" "demo_deliver ''1'' demo_db"]] demo_unpaid_delivered
    by (simp add: demo_parse_def)
qed


definition demo_frozen :: db where
  "demo_frozen = demo_db\<lparr>orgs := map (\<lambda>og. og\<lparr>o_lifecycle := ''deleting''\<rparr>) (orgs demo_db)\<rparr>"

theorem webhook_spares_inactive_organisations_witness:
  "\<lparr>o_id = ''acme'', o_enc_name = Some [7], o_created_by = Some ''alice'', o_tier = ''team'',
    o_trial_ends_at = None, o_lifecycle = ''deleting'', o_stripe_customer = None,
    o_stripe_subscription = None, o_deleted_at = None\<rparr> \<in> set (orgs (demo_deliver ''1'' demo_frozen))"
  unfolding demo_deliver_def
  by (rule webhook_spares_inactive_organisations [THEN conjunct1, OF prod.collapse [symmetric]])
     (simp_all add: demo_frozen_def demo_db_def)

definition demo_stripe :: "nat stripe_net" where
  "demo_stripe = \<lparr>net_get = (\<lambda>path w. (Some (200, if w = 0 then ''live'' else ''ended''), w)),
     net_post = (\<lambda>path frm w. (None, w)), net_delete = (\<lambda>path key frm w. (None, Suc w)),
     net_json = (\<lambda>body. Some (JObject [(''id'', JString ''sub_1''),
        (''status'', JString (if body = ''live'' then ''active'' else ''canceled''))])),
     net_header_ok = (\<lambda>_. True), net_blank = (\<lambda>_. False)\<rparr>"

text \<open>The cancellation request times out and the lookup after it finds the subscription ended.\<close>

lemma demo_cancelled:
  "stripe_cancel_subscription demo_stripe ''sub_1'' ''org-deletion-1'' ''acme'' 0 =
     (Inr (Current \<lparr>sn_id = ''sub_1'', sn_status = Canceled\<rparr>), 1)"
  by (simp add: stripe_cancel_subscription_def stripe_get_subscription_def stripe_get_def stripe_delete_def
      stripe_response_def subscription_snapshot_def status_parse_def cancellation_outcome_def demo_stripe_def)

theorem cancellation_reports_fresh_lookup_witness:
  "\<exists>w1. stripe_get_subscription demo_stripe ''sub_1'' w1 = (Inr (Current \<lparr>sn_id = ''sub_1'', sn_status = Canceled\<rparr>), 1)"
  by (rule cancellation_reports_fresh_lookup [OF demo_cancelled, THEN conjunct1])

theorem ended_subscription_unlinks_current_witness:
  "\<exists>db'. subscription_deleted 0 (JObject [(''id'', JString ''sub_0''), (''metadata'', JObject [(''org_id'', JString ''acme'')])])
     (demo_deliver ''1'' demo_db) = Inr db' \<and> find_org db' ''acme'' =
       Some \<lparr>o_id = ''acme'', o_enc_name = Some [7], o_created_by = Some ''alice'', o_tier = ''free'',
               o_trial_ends_at = None, o_lifecycle = ''active'', o_stripe_customer = None,
               o_stripe_subscription = None, o_deleted_at = None\<rparr>"
proof -
  have "find_org (demo_deliver ''1'' demo_db) ''acme'' =
       Some \<lparr>o_id = ''acme'', o_enc_name = Some [7], o_created_by = Some ''alice'', o_tier = ''team'',
               o_trial_ends_at = None, o_lifecycle = ''active'', o_stripe_customer = None,
               o_stripe_subscription = Some ''sub_1'', o_deleted_at = None\<rparr>"
    unfolding find_org_def demo_checkout_delivered by (simp add: sql_find_def)
  moreover have "stripe_ids_unique (orgs (demo_deliver ''1'' demo_db))"
    unfolding stripe_ids_unique_def demo_checkout_delivered by (simp add: List.map_filter_simps)
  ultimately show ?thesis
    using ended_subscription_unlinks_current [of "JObject [(''id'', JString ''sub_0''), (''metadata'', JObject [(''org_id'', JString ''acme'')])]"
      "''acme''" "demo_deliver ''1'' demo_db" _ "''sub_1''" 0] by simp
qed

end
