(* ===== verification/Server_Steps.thy ===== *)
theory Server_Steps
  imports Acl Machine Account Projects Share Sessions Grants Billing
begin

text \<open>
  The requests of the server: one step per request that can change the database, run by any handler of
  the other theories with any arguments. Steps are serialised, as the row locks serialise the
  transactions; the checks a handler makes before its transaction read a snapshot, which may be any
  state of the past. Every step is a step of the access-control machine of \<open>Acl\<close>.
  The steps of the deletion lifecycle and the histories of the whole server are in \<open>System\<close>.
\<close>

inductive server_step :: "lib \<Rightarrow> net \<Rightarrow> oauth_config option \<Rightarrow> string option \<Rightarrow> db \<Rightarrow> db \<Rightarrow> db \<Rightarrow> bool"
  for L N config where
  create_org: "create_org L now u i name key db = (r, db') \<Longrightarrow> server_step L N config (Some u) snap db db'"
| grant_org_key: "grant_org_key L now u org target key db = (r, db') \<Longrightarrow> server_step L N config (Some u) snap db db'"
| add_member: "add_member now u org target role snap db = (r, db') \<Longrightarrow> server_step L N config (Some u) snap db db'"
| invite_member: "invite_member L now u org email snap db = (r', db') \<Longrightarrow> server_step L N config (Some u) snap db db'"
| update_member: "update_member now u org target role snap db = (r, db') \<Longrightarrow> server_step L N config (Some u) snap db db'"
| remove_member: "remove_member now u org target snap db = (r'', db') \<Longrightarrow> server_step L N config (Some u) snap db db'"
| create_project: "create_project L now u i name home snap db = (r, db') \<Longrightarrow> server_step L N config (Some u) snap db db'"
| create_environment: "create_environment L u project i name key snap db = (r, db') \<Longrightarrow>
    server_step L N config (Some u) snap db db'"
| write_secrets: "write_secrets L now u env base changes snap db = (w, db') \<Longrightarrow> server_step L N config (Some u) snap db db'"
| create_grant: "create_grant L now u env target key snap db = (r, db') \<Longrightarrow> server_step L N config (Some u) snap db db'"
| rotate: "rotate_env L now u env req snap db = (rv, db') \<Longrightarrow> server_step L N config (Some u) snap db db'"
| create_token: "create_token L now token_id raw u env name pk key snap db = (t, db') \<Longrightarrow>
    server_step L N config (Some u) snap db db'"
| revoke_token: "revoke_token now u env token_id snap db = (r, db') \<Longrightarrow> server_step L N config (Some u) snap db db'"
| put_account: "put_account L u bundle db = (r, db') \<Longrightarrow> server_step L N config (Some u) snap db db'"
| reset_account: "reset_account L now u bundle db = (r, db') \<Longrightarrow> server_step L N config (Some u) snap db db'"
| create_share: "create_share L now raw u blob views ttl salt db = (sh, db') \<Longrightarrow> server_step L N config (Some u) snap db db'"
| revoke_share: "revoke_share now u token db = (r, db') \<Longrightarrow> server_step L N config (Some u) snap db db'"
| fetch_share: "fetch_share L now token db = (f, db') \<Longrightarrow> server_step L N config None snap db db'"
| login: "login N config now raw redirect_uri cli_state mode db = (lr, db') \<Longrightarrow> server_step L N config None snap db db'"
| callback: "callback L N config now raw new_id code state db = (cr, db') \<Longrightarrow> server_step L N config None snap db db'"
| exchange: "exchange L config now raw code state db = (er, db') \<Longrightarrow> server_step L N config None snap db db'"
| logout: "logout L config h db = (cookie, db') \<Longrightarrow> server_step L N config None snap db db'"
| webhook: "webhook hmac parse_event b now_secs now signature body db = (wr, db') \<Longrightarrow>
    server_step L N config None snap db db'"

subsection \<open>The access-control view of the tables\<close>

definition home_of :: "db \<Rightarrow> string \<Rightarrow> (string \<times> string option) option" where
  "home_of db p = map_option (\<lambda>p. (p_owner p, p_org p)) (find_project db p)"

definition acl_of :: "db \<Rightarrow> acl" where
  "acl_of db = \<lparr>
     known_orgs = {org. find_org db org \<noteq> None},
     open_orgs = {org. \<exists>og. find_org db org = Some og \<and> o_lifecycle og = ''active''},
     gone_orgs = {org. \<exists>og. find_org db org = Some og \<and> o_lifecycle og = ''deleted''},
     role_of = (\<lambda>org u. map_option m_role (find_member db org u)),
     project_home = home_of db,
     env_home = (\<lambda>e. Option.bind (find_env db e) (\<lambda>e. home_of db (e_project e))),
     holds = (\<lambda>g. (g_env g, g_user g)) ` set (grants db),
     machines = (\<lambda>t. (t_id t, t_env t, t_created_by t)) ` {t \<in> set (tokens db). t_revoked_at t = None}\<rparr>"

text \<open>What the schema's keys guarantee of the tables the view reads.\<close>

definition tables_ok :: "db \<Rightarrow> bool" where
  "tables_ok db \<longleftrightarrow> distinct (map member_key (members db)) \<and> distinct (map p_id (projects db)) \<and>
     distinct (map e_id (envs db)) \<and>
     (\<forall>e \<in> set (envs db). find_project db (e_project e) \<noteq> None) \<and>
     (\<forall>m \<in> set (members db). find_org db (m_org m) \<noteq> None) \<and>
     (\<forall>og \<in> set (orgs db). o_lifecycle og \<in> {''active'', ''deleting'', ''deleted''})"

lemma acl_of_simps [simp]:
  "org \<in> known_orgs (acl_of db) \<longleftrightarrow> find_org db org \<noteq> None"
  "org \<in> open_orgs (acl_of db) \<longleftrightarrow> (\<exists>og. find_org db org = Some og \<and> o_lifecycle og = ''active'')"
  "org \<in> gone_orgs (acl_of db) \<longleftrightarrow> (\<exists>og. find_org db org = Some og \<and> o_lifecycle og = ''deleted'')"
  "role_of (acl_of db) org u = map_option m_role (find_member db org u)"
  "project_home (acl_of db) = home_of db"
  "env_home (acl_of db) e = Option.bind (find_env db e) (\<lambda>e. home_of db (e_project e))"
  "(e, u) \<in> holds (acl_of db) \<longleftrightarrow> (\<exists>g \<in> set (grants db). g_env g = e \<and> g_user g = u)"
  "(t, e, c) \<in> machines (acl_of db) \<longleftrightarrow>
     (\<exists>r \<in> set (tokens db). t_id r = t \<and> t_env r = e \<and> t_created_by r = c \<and> t_revoked_at r = None)"
  by (auto simp: acl_of_def image_iff)

lemma acl_eqI:
  assumes "known_orgs a = known_orgs b" "open_orgs a = open_orgs b" "gone_orgs a = gone_orgs b" "role_of a = role_of b"
    "project_home a = project_home b" "env_home a = env_home b" "holds a = holds b" "machines a = machines b"
  shows "(a :: acl) = b"
  using assms by (cases a; cases b) simp

text \<open>The step of the whole server, and of the tables' keys, that each handler is shown to make.\<close>

definition step_ok :: "string option \<Rightarrow> db \<Rightarrow> db \<Rightarrow> bool" where
  "step_ok u db db' \<longleftrightarrow> tables_ok db' \<and> acl_step u (acl_of db) (acl_of db') \<and> deletions db' = deletions db"

lemma unchanged_ok:
  assumes "tables_ok db" and "orgs db' = orgs db" "members db' = members db" "projects db' = projects db"
    "envs db' = envs db" "grants db' = grants db" "tokens db' = tokens db"
    "deletions db' = deletions db"
  shows "step_ok u db db'"
proof -
  have "acl_of db' = acl_of db"
    using assms by (simp add: acl_of_def find_org_def find_member_def home_of_def find_project_def find_env_def fun_eq_iff)
  moreover have "tables_ok db'"
    using assms by (simp add: tables_ok_def find_org_def find_project_def)
  ultimately show ?thesis by (simp add: step_ok_def idle assms)
qed

lemma same_ok: "tables_ok db \<Longrightarrow> step_ok u db db"
  by (rule unchanged_ok) simp_all

lemma tables_okD:
  assumes "tables_ok db"
  shows "distinct (map member_key (members db))" "distinct (map p_id (projects db))" "distinct (map e_id (envs db))"
    "e \<in> set (envs db) \<Longrightarrow> find_project db (e_project e) \<noteq> None"
    "m \<in> set (members db) \<Longrightarrow> find_org db (m_org m) \<noteq> None"
    "og \<in> set (orgs db) \<Longrightarrow> o_lifecycle og \<in> {''active'', ''deleting'', ''deleted''}"
  using assms by (auto simp: tables_ok_def)

lemma in_org_acl:
  assumes "tables_ok db"
  shows "in_org (acl_of db) org e \<longleftrightarrow> in_org_env db org e"
proof -
  have env: "find_env db e = Some r \<longleftrightarrow> r \<in> set (envs db) \<and> e_id r = e" for r
    unfolding find_env_def by (rule sql_find_Some_iff_distinct [OF tables_okD(3) [OF assms], of _ e]) simp
  have proj: "find_project db i = Some p \<longleftrightarrow> p \<in> set (projects db) \<and> p_id p = i" for i p
    unfolding find_project_def by (rule sql_find_Some_iff_distinct [OF tables_okD(2) [OF assms], of _ i]) simp
  show ?thesis
    unfolding in_org_def by (simp add: bind_eq_Some_conv home_of_def env proj in_org_env_def sql_exists_iff) blast
qed

lemma acts_as_acl: "acts_as (acl_of db) org u r \<longleftrightarrow> write_authority db org u r"
  by (auto simp: acts_as_def write_authority_iff)

lemma manager_acl: "manager (acl_of db) org u \<longleftrightarrow> (\<exists>r. write_authority db org u r \<and> can_manage_members r)"
  by (simp add: manager_def acts_as_acl)

lemma manages_acl:
  "manages (acl_of db) u (ow, org) \<longleftrightarrow> (case org of None \<Rightarrow> ow = u | Some _ \<Rightarrow> project_authority db u org)"
  by (simp add: manages_def manager_acl project_authority_def split: option.splits)

text \<open>A new or changed membership row, and its removal, in the view.\<close>

lemma find_member_insert:
  "find_member db (m_org m) (m_user m) = None \<Longrightarrow> members db' = sql_insert m (members db) \<Longrightarrow>
     find_member db' org u = (if org = m_org m \<and> u = m_user m then Some m else find_member db org u)"
  by (auto simp: find_member_def sql_find_insert is_membership_def split: option.splits)

lemma find_member_update:
  assumes "members db' = sql_update (is_membership org v) f (members db)"
    and "\<And>m. m_org (f m) = m_org m \<and> m_user (f m) = m_user m"
  shows "find_member db' org' u = map_option (\<lambda>m. if org' = org \<and> u = v then f m else m) (find_member db org' u)"
proof -
  have "find_member db' org' u = map_option (\<lambda>m. if is_membership org v m then f m else m) (find_member db org' u)"
    unfolding find_member_def assms(1) by (rule sql_find_update) (simp add: is_membership_def assms(2))
  then show ?thesis
    by (cases "find_member db org' u") (auto simp: is_membership_def dest: find_member_SomeD)
qed

lemma find_member_delete:
  assumes "members db' = sql_delete (is_membership org v) (members db)"
  shows "find_member db' org' u = (if org' = org \<and> u = v then None else find_member db org' u)"
proof (cases "org' = org \<and> u = v")
  case True
  then show ?thesis by (simp add: find_member_None_iff assms)
next
  case False
  then show ?thesis
    unfolding find_member_def assms by (auto simp: is_membership_def intro!: sql_find_delete)
qed

lemma another_owner:
  assumes "tables_ok db" and "lock_owner_count db org \<noteq> 1" and "member_role db org v = Inr Owner"
  shows "\<exists>w. w \<noteq> v \<and> role_of (acl_of db) org w = Some owner"
proof -
  note keys = tables_okD(1) [OF assms(1)]
  have "v \<in> set (owner_users db org)" using assms(3) keys by (simp add: member_role_owner_iff)
  from other_owner [OF keys assms(2) this] obtain w where "w \<noteq> v" "member_role db org w = Inr Owner"
    using keys by (auto simp: member_role_owner_iff)
  then show ?thesis by (auto simp: member_role_Inr_iff)
qed

subsection \<open>Organisations and members\<close>

lemma tables_ok_members:
  assumes "tables_ok db" and "orgs db' = orgs db" "projects db' = projects db" "envs db' = envs db"
    and "distinct (map member_key (members db'))" and "\<And>m. m \<in> set (members db') \<Longrightarrow> find_org db (m_org m) \<noteq> None"
  shows "tables_ok db'"
  using assms find_org_cong [OF assms(2)] by (simp add: tables_ok_def find_project_def)

lemma homes_cong:
  "projects db' = projects db \<Longrightarrow> home_of db' = home_of db"
  "envs db' = envs db \<Longrightarrow> find_env db' = find_env db"
  by (simp_all add: home_of_def find_project_def find_env_def fun_eq_iff)

text \<open>The view after a change of memberships, grants and tokens only.\<close>

lemma view_eqI:
  assumes "orgs db' = orgs db" "projects db' = projects db" "envs db' = envs db"
    and "known_orgs a = known_orgs (acl_of db)" "open_orgs a = open_orgs (acl_of db)"
    "gone_orgs a = gone_orgs (acl_of db)" "project_home a = project_home (acl_of db)" "env_home a = env_home (acl_of db)"
    and "\<And>org u. map_option m_role (find_member db' org u) = role_of a org u"
    and "\<And>e u. (\<exists>g \<in> set (grants db'). g_env g = e \<and> g_user g = u) \<longleftrightarrow> (e, u) \<in> holds a"
    and "\<And>t e c. (\<exists>r \<in> set (tokens db'). t_id r = t \<and> t_env r = e \<and> t_created_by r = c \<and> t_revoked_at r = None)
      \<longleftrightarrow> (t, e, c) \<in> machines a"
  shows "acl_of db' = a"
proof (rule acl_eqI)
  show "known_orgs (acl_of db') = known_orgs a" "open_orgs (acl_of db') = open_orgs a" "gone_orgs (acl_of db') = gone_orgs a"
    unfolding assms(4-6) by (simp_all add: acl_of_def find_org_cong [OF assms(1)])
  show "project_home (acl_of db') = project_home a" "env_home (acl_of db') = env_home a"
    unfolding assms(7,8) by (simp_all add: acl_of_def homes_cong(1) [OF assms(2)] homes_cong(2) [OF assms(3)])
  show "role_of (acl_of db') = role_of a" by (simp add: fun_eq_iff assms(9))
  show "holds (acl_of db') = holds a" by (auto simp: assms(10))
  show "machines (acl_of db') = machines a" by (auto simp: assms(11))
qed

lemma create_org_ok:
  assumes ok: "tables_ok db" and run: "create_org L now u i name key db = (r, db')"
  shows "step_ok (Some u) db db'"
proof (cases r)
  case (Inl e)
  with run same_ok [OF ok] show ?thesis by (auto dest: create_org_failed)
next
  case (Inr c)
  show ?thesis
  proof (cases "db' = db")
    case False
    with create_org_committed [OF run [unfolded Inr]]
    obtain n k where new: "find_org db i = None"
      and db': "db' = record_tx now i u ''org.created'' no_context
            (db\<lparr>orgs := sql_insert \<lparr>o_id = i, o_enc_name = Some n, o_created_by = Some u,
                  o_tier = ''free'', o_trial_ends_at = Some (now + 14 * 86400 * 1000000),
                  o_lifecycle = ''active'', o_stripe_customer = None, o_stripe_subscription = None,
                  o_deleted_at = None\<rparr> (orgs db),
                members := sql_insert \<lparr>m_org = i, m_user = u, m_role = ''owner'', m_enc_org_key = Some k\<rparr> (members db)\<rparr>)"
      by blast
    have org: "find_org db' org = (if org = i then Some \<lparr>o_id = i, o_enc_name = Some n, o_created_by = Some u,
        o_tier = ''free'', o_trial_ends_at = Some (now + 14 * 86400 * 1000000), o_lifecycle = ''active'',
        o_stripe_customer = None, o_stripe_subscription = None, o_deleted_at = None\<rparr>
        else find_org db org)" for org
      using new by (auto simp: db' find_org_def sql_find_insert split: option.splits)
    have none: "find_member db i w = None" for w
    proof (cases "find_member db i w")
      case (Some m)
      then have "m \<in> set (members db)" "m_org m = i" using find_member_SomeD [OF Some] by (simp_all add: is_membership_def)
      with tables_okD(5) [OF ok] new show ?thesis by blast
    qed
    have mem: "find_member db' org w = (if org = i \<and> w = u
        then Some \<lparr>m_org = i, m_user = u, m_role = ''owner'', m_enc_org_key = Some k\<rparr> else find_member db org w)" for org w
      using find_member_insert [of db "\<lparr>m_org = i, m_user = u, m_role = ''owner'', m_enc_org_key = Some k\<rparr>" db'] none
      by (simp add: db')
    have homes: "home_of db' = home_of db" "find_env db' = find_env db" by (rule homes_cong; simp add: db')+
    have same: "grants db' = grants db" "tokens db' = tokens db" "deletions db' = deletions db"
      "members db' = sql_insert \<lparr>m_org = i, m_user = u, m_role = ''owner'', m_enc_org_key = Some k\<rparr> (members db)"
      by (simp_all add: db')
    have "acl_of db' = set_role i u (Some owner) (acl_of db
        \<lparr>known_orgs := insert i (known_orgs (acl_of db)), open_orgs := insert i (open_orgs (acl_of db))\<rparr>)"
      by (rule acl_eqI) (auto simp: org mem homes same new acl_of_def set_role_def fun_eq_iff)
    then have "acl_step (Some u) (acl_of db) (acl_of db')"
      using found [of i "acl_of db" u] new by simp
    moreover have "tables_ok db'"
    proof -
      have "distinct (map member_key (members db'))"
        using tables_okD(1) [OF ok] none by (auto simp: db' distinct_sql_insert member_key_def find_member_None_iff is_membership_def)
      moreover have "find_org db' (m_org m) \<noteq> None" if "m \<in> set (members db')" for m
        using that tables_okD(5) [OF ok] by (auto simp: org same)
      moreover have "o_lifecycle og \<in> {''active'', ''deleting'', ''deleted''}" if "og \<in> set (orgs db')" for og
        using that tables_okD(6) [OF ok] by (auto simp: db')
      ultimately show ?thesis
        using ok by (simp add: tables_ok_def find_project_def db')
    qed
    ultimately show ?thesis by (simp add: step_ok_def same)
  qed (use same_ok [OF ok] in simp)
qed

lemma grant_org_key_ok:
  assumes ok: "tables_ok db" and run: "grant_org_key L now u org target key db = (r, db')"
  shows "step_ok (Some u) db db'"
proof (cases r)
  case (Inl e)
  with run same_ok [OF ok] show ?thesis by (auto dest: grant_org_key_failed)
next
  case (Inr c)
  with run obtain k where db': "db' = record_tx now org u ''member.org_key_granted'' (no_context\<lparr>cx_target := Some target\<rparr>)
       (db\<lparr>members := sql_update (is_membership org target) (\<lambda>m. m\<lparr>m_enc_org_key := Some k\<rparr>) (members db)\<rparr>)"
    by (auto elim: grant_org_key_committed)
  have mem: "find_member db' o' w = map_option (\<lambda>m. if o' = org \<and> w = target then m\<lparr>m_enc_org_key := Some k\<rparr> else m)
      (find_member db o' w)" for o' w
    by (rule find_member_update) (simp_all add: db')
  have "acl_of db' = acl_of db"
    by (rule view_eqI) (simp_all add: db' mem [unfolded db'] option.map_comp comp_def if_distrib cong: if_cong)
  moreover have "tables_ok db'"
    by (rule tables_ok_members [OF ok]) (use tables_okD(1,5) [OF ok] in \<open>auto simp: db' keys_sql_update member_key_def\<close>)
  ultimately show ?thesis by (simp add: step_ok_def idle db')
qed

text \<open>A new member, by either way in.\<close>

lemma joins_ok:
  assumes ok: "tables_ok db" and auth: "write_authority db org u r" "can_manage_members r" "role = Owner \<longrightarrow> r = Owner"
    and new: "find_member db org v = None"
    and db': "members db' = sql_insert \<lparr>m_org = org, m_user = v, m_role = as_str role, m_enc_org_key = None\<rparr> (members db)"
      "grants db' = sql_delete (org_grant db org v) (grants db)"
      "orgs db' = orgs db" "projects db' = projects db" "envs db' = envs db" "tokens db' = tokens db" "deletions db' = deletions db"
  shows "step_ok (Some u) db db'"
proof -
  let ?m = "\<lparr>m_org = org, m_user = v, m_role = as_str role, m_enc_org_key = None\<rparr>"
  have mem: "find_member db' o' w = (if o' = org \<and> w = v then Some ?m else find_member db o' w)" for o' w
    using find_member_insert [of db ?m db'] new db'(1) by simp
  have "acl_of db' = set_role org v (Some (as_str role))
      (acl_of db\<lparr>holds := {(e, w) \<in> holds (acl_of db). \<not> (w = v \<and> in_org (acl_of db) org e)}\<rparr>)"
    by (rule view_eqI) (auto simp: db' mem set_role_def in_org_acl [OF ok] org_grant_def)
  then have "acl_step (Some u) (acl_of db) (acl_of db')"
    using join [of "acl_of db" org u r role v] auth new by (simp add: acts_as_acl)
  moreover have "tables_ok db'"
  proof (rule tables_ok_members [OF ok])
    show "distinct (map member_key (members db'))"
      using tables_okD(1) [OF ok] new
      by (auto simp: db' distinct_sql_insert member_key_def find_member_None_iff is_membership_def)
    show "find_org db (m_org m) \<noteq> None" if "m \<in> set (members db')" for m
      using that tables_okD(5) [OF ok] auth(1) by (auto simp: db' write_authority_iff)
  qed (use db' in simp_all)
  ultimately show ?thesis by (simp add: step_ok_def db')
qed

lemma add_member_ok:
  assumes ok: "tables_ok db" and run: "add_member now u org target role snap db = (r, db')"
  shows "step_ok (Some u) db db'"
proof (cases r)
  case (Inl e)
  with run same_ok [OF ok] show ?thesis by (auto dest: add_member_failed)
next
  case (Inr c)
  with run have "add_member now u org target role snap db = (Inr c, db')" by simp
  then show ?thesis
    by (rule add_member_committed) (rule joins_ok [OF ok], assumption+, simp_all)
qed

lemma invite_member_ok:
  assumes ok: "tables_ok db" and run: "invite_member L now u org email snap db = (r, db')"
  shows "step_ok (Some u) db db'"
proof (cases r)
  case (Inl e)
  with run same_ok [OF ok] show ?thesis by (auto dest: invite_member_failed)
next
  case (Inr c)
  with run have "invite_member L now u org email snap db = (Inr c, db')" by simp
  then show ?thesis
    by (rule invite_member_committed) (rule joins_ok [OF ok, where role = Member], simp_all)
qed

lemma update_member_ok:
  assumes ok: "tables_ok db" and run: "update_member now u org target role snap db = (r, db')"
  shows "step_ok (Some u) db db'"
proof (cases r)
  case (Inl e)
  with run same_ok [OF ok] show ?thesis by (auto dest: update_member_failed)
next
  case (Inr c)
  with run have "update_member now u org target role snap db = (Inr c, db')" by simp
  then obtain rr current where auth: "write_authority db org u rr" "can_manage_members rr"
    and cur: "member_role db org target = Inr current" "role = Owner \<or> current = Owner \<longrightarrow> rr = Owner"
      "current = Owner \<longrightarrow> role = Owner \<or> lock_owner_count db org \<noteq> 1"
    and db': "db' = record_tx now org u ''member.role_changed''
       (no_context\<lparr>cx_target := Some target, cx_detail := Some (as_str role)\<rparr>)
       (db\<lparr>members := sql_update (is_membership org target) (\<lambda>m. m\<lparr>m_role := as_str role\<rparr>) (members db)\<rparr>)"
    by (rule update_member_committed)
  have same: "members db' = sql_update (is_membership org target) (\<lambda>m. m\<lparr>m_role := as_str role\<rparr>) (members db)"
    "grants db' = grants db" "tokens db' = tokens db" "orgs db' = orgs db" "projects db' = projects db" "envs db' = envs db"
    by (simp_all add: db')
  have mem: "find_member db' o' w = map_option (\<lambda>m. if o' = org \<and> w = target then m\<lparr>m_role := as_str role\<rparr> else m)
      (find_member db o' w)" for o' w
    by (rule find_member_update) (simp_all add: db')
  obtain m where m: "find_member db org target = Some m" "m_role m = as_str current"
    using cur(1) by (auto simp: member_role_Inr_iff)
  have "acl_of db' = set_role org target (Some (as_str role)) (acl_of db)"
    by (rule view_eqI) (use m in \<open>auto simp: same mem set_role_def option.map_comp comp_def\<close>)
  moreover have "\<exists>w. w \<noteq> target \<and> role_of (acl_of db) org w = Some owner"
    if "current = Owner" "role \<noteq> Owner"
    by (rule another_owner [OF ok]) (use cur that in auto)
  ultimately have "acl_step (Some u) (acl_of db) (acl_of db')"
    using change [of "acl_of db" org u rr target "as_str current" role] auth cur(2) m
    by (auto simp: acts_as_acl owner_text)
  moreover have "tables_ok db'"
    by (rule tables_ok_members [OF ok]) (use tables_okD(1,5) [OF ok] in \<open>auto simp: same keys_sql_update member_key_def\<close>)
  ultimately show ?thesis by (simp add: step_ok_def db')
qed

lemma remove_member_ok:
  assumes ok: "tables_ok db" and run: "remove_member now u org target snap db = (r, db')"
  shows "step_ok (Some u) db db'"
proof (cases r)
  case (Inl e)
  with run same_ok [OF ok] show ?thesis by (auto dest: remove_member_failed)
next
  case (Inr c)
  with run have inr: "remove_member now u org target snap db = (Inr c, db')" by simp
  then obtain rr current where auth: "write_authority db org u rr" "can_manage_members rr"
    and cur: "member_role db org target = Inr current" "current = Owner \<longrightarrow> rr = Owner \<and> lock_owner_count db org \<noteq> 1"
    and com: "missing_envs db org u target = []" "commit_removal now org u target db = (c, db')"
    by (rule remove_member_committed)
  note st = commit_removal_state [OF com(2)]
  note mem = find_member_delete [OF st(2)]
  obtain m where m: "find_member db org target = Some m" "m_role m = as_str current"
    using cur(1) by (auto simp: member_role_Inr_iff)
  have "acl_of db' = set_role org target None
      (acl_of db\<lparr>holds := {(e, w) \<in> holds (acl_of db). \<not> (w = target \<and> in_org (acl_of db) org e)},
         machines := {(t, e, c) \<in> machines (acl_of db). \<not> (c = Some target \<and> in_org (acl_of db) org e)}\<rparr>)"
    by (rule view_eqI) (auto simp: st mem set_role_def in_org_acl [OF ok] org_grant_def created_in_org_def)
  moreover have "\<exists>w. w \<noteq> target \<and> role_of (acl_of db) org w = Some owner" if "current = Owner"
    by (rule another_owner [OF ok]) (use cur that in auto)
  moreover have "(e, u) \<in> holds (acl_of db)" if e: "in_org (acl_of db) org e" "(e, target) \<in> holds (acl_of db)"
    "(e, w) \<in> holds (acl_of db)" "w \<noteq> target" "role_of (acl_of db) org w \<noteq> None" for e w
  proof -
    from e obtain g h where g: "g \<in> set (grants db)" "org_grant db org target g" "g_env g = e"
      and h: "h \<in> set (grants db)" "g_env h = e" "g_user h = w" "find_member db org w \<noteq> None"
      by (auto simp: in_org_acl [OF ok] org_grant_def)
    then have "peer_holds db org target e"
      using e(4) by (auto simp: peer_holds_def sql_exists_iff dest!: find_member_SomeD)
    with g have "e \<in> set (target_envs db org target)" by (auto simp: target_envs_def)
    with com(1) have "e \<in> set (caller_envs db org u)" by (auto simp: missing_envs_def filter_empty_conv)
    then show ?thesis by (auto simp: caller_envs_def org_grant_def)
  qed
  ultimately have "acl_step (Some u) (acl_of db) (acl_of db')"
    using leave [of "acl_of db" org u rr target "as_str current"] auth cur(2) m
    by (auto simp: acts_as_acl owner_text)
  moreover have "tables_ok db'"
    by (rule tables_ok_members [OF ok]) (use tables_okD(1,5) [OF ok] in \<open>auto simp: st distinct_sql_delete\<close>)
  ultimately show ?thesis by (simp add: step_ok_def st)
qed

subsection \<open>Projects, environments and their keys\<close>

text \<open>Projects and environments never move while their organisation exists: what a snapshot says of where
  one lives still holds, unless the organisation has been purged since.\<close>

definition purged_home :: "db \<Rightarrow> string \<times> string option \<Rightarrow> bool" where
  "purged_home db home \<longleftrightarrow> (\<exists>org \<in> gone_orgs (acl_of db). snd home = Some org)"

definition earlier :: "db \<Rightarrow> db \<Rightarrow> bool" where
  "earlier snap db \<longleftrightarrow> (\<forall>home. \<not> purged_home db home \<longrightarrow>
     (\<forall>p. home_of snap p = Some home \<longrightarrow> home_of db p = Some home) \<and>
     (\<forall>e. env_home (acl_of snap) e = Some home \<longrightarrow> env_home (acl_of db) e = Some home))"

lemma earlier_env:
  assumes "earlier snap db" and "find_env snap e = Some r" and "find_project snap (e_project r) = Some p"
    and "\<not> purged_home db (p_owner p, p_org p)"
  shows "env_home (acl_of db) e = Some (p_owner p, p_org p)"
proof -
  have "env_home (acl_of snap) e = Some (p_owner p, p_org p)" using assms(2,3) by (simp add: home_of_def)
  with assms(1,4) show ?thesis unfolding earlier_def by blast
qed

lemma earlier_project:
  assumes "earlier snap db" and "find_project snap i = Some p" and "\<not> purged_home db (p_owner p, p_org p)"
  shows "home_of db i = Some (p_owner p, p_org p)"
proof -
  have "home_of snap i = Some (p_owner p, p_org p)" using assms(2) by (simp add: home_of_def)
  with assms(1,3) show ?thesis unfolding earlier_def by blast
qed

lemma manages_not_purged: "manages (acl_of db) u home \<Longrightarrow> \<not> purged_home db home"
  by (auto simp: manages_def manager_def acts_as_def purged_home_def)

lemma authority_not_purged: "write_authority db org u r \<Longrightarrow> \<not> purged_home db (ow, Some org)"
  by (auto simp: write_authority_iff purged_home_def)

lemma env_access_manages:
  assumes "earlier snap db" and "env_access snap env u = Inr (project, acc)"
    and "require_manage_structure_tx acc db msg = Inr ()"
  shows "\<exists>home. env_home (acl_of db) env = Some home \<and> manages (acl_of db) u home"
proof -
  obtain e p where e: "find_env snap env = Some e" "find_project snap (e_project e) = Some p" "reaches snap u p"
    "pa_user_id acc = u" "pa_org_id acc = p_org p"
    using env_access_Inr [OF assms(2)] by blast
  have "manages (acl_of db) u (p_owner p, p_org p)"
    using assms(3) e(3-5)
    by (auto simp: manages_acl project_authority_def require_manage_structure_tx_Inr_iff split: option.splits)
  with earlier_env [OF assms(1) e(1,2) manages_not_purged] show ?thesis by blast
qed

lemma create_project_ok:
  assumes ok: "tables_ok db" and run: "create_project L now u i name org snap db = (r, db')"
  shows "step_ok (Some u) db db'"
proof (cases "db' = db")
  case False
  with run obtain n where auth: "project_authority db u org" and new: "find_project db i = None"
    and db': "db' = db\<lparr>projects := sql_insert \<lparr>p_id = i, p_owner = u, p_org = org, p_enc_name = n\<rparr> (projects db)\<rparr>"
    by (rule create_project_effect)
  have proj: "find_project db' p = (if p = i then Some \<lparr>p_id = i, p_owner = u, p_org = org, p_enc_name = n\<rparr> else find_project db p)" for p
    using new by (auto simp: db' find_project_def sql_find_insert split: option.splits)
  then have home: "home_of db' = (home_of db)(i \<mapsto> (u, org))"
    by (simp add: fun_eq_iff home_of_def)
  have frame: "find_env db' = find_env db" "find_org db' = find_org db" "find_member db' = find_member db"
    "grants db' = grants db" "tokens db' = tokens db" "envs db' = envs db" "members db' = members db" "orgs db' = orgs db"
    by (simp_all add: db' find_env_def find_org_def find_member_def fun_eq_iff)
  have "home_of db' (e_project e) = home_of db (e_project e)" if "find_env db x = Some e" for x e
  proof -
    have "e \<in> set (envs db)" using that by (auto simp: find_env_def dest: sql_find_SomeD)
    with tables_okD(4) [OF ok, of e] new have "e_project e \<noteq> i" by auto
    then show ?thesis by (simp add: home)
  qed
  then have "acl_of db' = acl_of db\<lparr>project_home := (project_home (acl_of db))(i \<mapsto> (u, org))\<rparr>"
    by (intro acl_eqI) (auto simp: acl_of_def frame home fun_eq_iff bind_eq_Some_conv split: bind_splits)
  moreover have "manages (acl_of db) u (u, org)"
    using auth by (cases org) (simp_all add: manages_acl)
  ultimately have "acl_step (Some u) (acl_of db) (acl_of db')"
    using project [of "acl_of db" i u org] new by (simp add: home_of_def)
  moreover have "tables_ok db'"
  proof -
    have "\<forall>p \<in> set (projects db). p_id p \<noteq> i" using new by (simp add: find_project_def sql_find_None_iff)
    moreover have "projects db' = sql_insert \<lparr>p_id = i, p_owner = u, p_org = org, p_enc_name = n\<rparr> (projects db)"
      by (simp add: db')
    ultimately show ?thesis
      using ok by (auto simp: tables_ok_def distinct_sql_insert proj frame)
  qed
  ultimately show ?thesis by (simp add: step_ok_def db')
qed (use same_ok [OF ok] in simp)

lemma create_environment_ok:
  assumes ok: "tables_ok db" and snap: "earlier snap db"
    and run: "create_environment L u pr i name key snap db = (r, db')"
  shows "step_ok (Some u) db db'"
proof (cases "db' = db")
  case False
  with run obtain p acc n k where p: "find_project snap pr = Some p" "reaches snap u p" "project_authority db u (p_org p)"
    and new: "find_env db i = None" "find_project db pr \<noteq> None"
    and db': "envs db' = sql_insert \<lparr>e_id = i, e_project = pr, e_enc_name = n, e_revision = 0\<rparr> (envs db)"
      "grants db' = (if grant_exists db i u then grants db else sql_insert
        \<lparr>g_env = i, g_user = u, g_enc_vault_key = k, g_granted_by = Some u\<rparr> (grants db))"
      "db' = db\<lparr>envs := envs db', grants := grants db'\<rparr>"
    by (rule create_environment_effect)
  have frame: "orgs db' = orgs db" "members db' = members db" "projects db' = projects db" "tokens db' = tokens db"
    "deletions db' = deletions db"
    by (subst db'(3), simp)+
  have env: "find_env db' e = (if e = i then Some \<lparr>e_id = i, e_project = pr, e_enc_name = n, e_revision = 0\<rparr> else find_env db e)" for e
    using new(1) by (auto simp: db'(1) find_env_def sql_find_insert split: option.splits)
  have own: "manages (acl_of db) u (p_owner p, p_org p)"
    using p(2,3) by (auto simp: manages_acl split: option.splits)
  then have home: "home_of db pr = Some (p_owner p, p_org p)"
    by (intro earlier_project [OF snap p(1)] manages_not_purged)
  have "acl_of db' = acl_of db\<lparr>env_home := (env_home (acl_of db))(i \<mapsto> (p_owner p, p_org p)),
      holds := insert (i, u) (holds (acl_of db))\<rparr>"
  proof (rule acl_eqI)
    show "holds (acl_of db') = holds (acl_of db\<lparr>env_home := (env_home (acl_of db))(i \<mapsto> (p_owner p, p_org p)),
      holds := insert (i, u) (holds (acl_of db))\<rparr>)"
      by (auto simp: acl_of_def db'(2) grant_exists_def sql_exists_iff image_iff)
  qed (use home in \<open>simp_all add: acl_of_def frame find_org_cong [OF frame(1)] find_member_cong [OF frame(2)] homes_cong(1) [OF frame(3)] env fun_eq_iff\<close>)
  then have "acl_step (Some u) (acl_of db) (acl_of db')"
    using environment [of "acl_of db" i pr "(p_owner p, p_org p)" u] new home own by simp
  moreover have "tables_ok db'"
  proof -
    have "\<forall>e \<in> set (envs db). e_id e \<noteq> i" using new by (simp add: find_env_def sql_find_None_iff)
    then show ?thesis
      using ok new(2) by (auto simp: tables_ok_def distinct_sql_insert db'(1) frame find_org_cong [OF frame(1)] find_project_def)
  qed
  ultimately show ?thesis by (simp add: step_ok_def frame)
qed (use same_ok [OF ok] in simp)

lemma tables_ok_cong:
  assumes "tables_ok db" and "members db' = members db" "orgs db' = orgs db" "projects db' = projects db"
    and "map e_id (envs db') = map e_id (envs db)" "map e_project (envs db') = map e_project (envs db)"
  shows "tables_ok db'"
proof -
  have "(\<forall>e \<in> set (envs db'). find_project db (e_project e) \<noteq> None) \<longleftrightarrow>
      (\<forall>i \<in> set (map e_project (envs db')). find_project db i \<noteq> None)" by simp
  moreover have "find_project db' = find_project db" using assms(4) by (simp add: find_project_def fun_eq_iff)
  ultimately show ?thesis
    using assms(1,2,5) find_org_cong [OF assms(3)] unfolding tables_ok_def assms(6) by (simp add: assms(3,4))
qed

lemma upsert_grant_keys:
  "(\<exists>g \<in> set (grants (record_tx now org a act ctx (upsert_grant \<lparr>g_env = env, g_user = v, g_enc_vault_key = k, g_granted_by = by\<rparr> db))).
      g_env g = e \<and> g_user g = w) \<longleftrightarrow>
   (\<exists>g \<in> set (grants db). g_env g = e \<and> g_user g = w) \<or> e = env \<and> w = v"
  by (auto simp: upsert_grant_def is_grant_def sql_exists_iff bex_Un image_iff)

lemma create_grant_ok:
  assumes ok: "tables_ok db" and snap: "earlier snap db" and run: "create_grant L now u env target key snap db = (r, db')"
  shows "step_ok (Some u) db db'"
proof (cases r)
  case (Inl e)
  with run same_ok [OF ok] show ?thesis by (auto dest: create_grant_failed)
next
  case (Inr c)
  with run have "create_grant L now u env target key snap db = (Inr c, db')" by simp
  then obtain org k where env: "env_org snap env = Inr (Some org)"
    and auth: "\<exists>r. write_authority db org u r \<and> can_manage_members r" "find_member db org target \<noteq> None"
    and db': "db' = record_tx now org u ''env.shared'' (no_context\<lparr>cx_target := Some target, cx_env := Some env\<rparr>)
       (upsert_grant \<lparr>g_env = env, g_user = target, g_enc_vault_key = k, g_granted_by = Some u\<rparr> db)"
    by (rule create_grant_committed)
  from env obtain e p where "find_env snap env = Some e" "find_project snap (e_project e) = Some p" "p_org p = Some org"
    by (auto simp: env_org_def rbind_eq_Inr_iff)
  with auth(1) have "in_org (acl_of db) org env"
    using earlier_env [OF snap] by (auto simp: in_org_def authority_not_purged simp del: acl_of_simps)
  moreover have frame: "orgs db' = orgs db" "members db' = members db" "projects db' = projects db" "envs db' = envs db"
    "tokens db' = tokens db" "deletions db' = deletions db"
    by (simp_all add: db' upsert_grant_def)
  moreover have "acl_of db' = acl_of db\<lparr>holds := insert (env, target) (holds (acl_of db))\<rparr>"
  proof (rule view_eqI)
    fix e w
    have "(\<exists>g \<in> set (grants db'). g_env g = e \<and> g_user g = w) \<longleftrightarrow>
        (\<exists>g \<in> set (grants db). g_env g = e \<and> g_user g = w) \<or> e = env \<and> w = target"
      unfolding db' by (rule upsert_grant_keys)
    then show "(\<exists>g \<in> set (grants db'). g_env g = e \<and> g_user g = w) \<longleftrightarrow>
        (e, w) \<in> holds (acl_of db\<lparr>holds := insert (env, target) (holds (acl_of db))\<rparr>)" by auto
  qed (simp_all add: frame find_member_cong [OF frame(2)])
  ultimately have "acl_step (Some u) (acl_of db) (acl_of db')"
    using share [of "acl_of db" org env u target] auth by (auto simp: manager_acl)
  with tables_ok_cong [OF ok] frame show ?thesis by (simp add: step_ok_def)
qed

text \<open>Re-sealing tokens keeps what the view reads of them.\<close>

lemma rekey_keeps:
  "map (\<lambda>t. (t_id t, t_env t, t_created_by t, t_revoked_at t))
     (sql_rekey p t_id (\<lambda>k t. t\<lparr>t_enc_vault_key := k\<rparr>) kvs ts) = map (\<lambda>t. (t_id t, t_env t, t_created_by t, t_revoked_at t)) ts"
  unfolding sql_rekey_def by (induction kvs arbitrary: ts) (auto simp: keys_sql_update)

lemma live_keys:
  assumes "map (\<lambda>t. (t_id t, t_env t, t_created_by t, t_revoked_at t)) ts =
    map (\<lambda>t. (t_id t, t_env t, t_created_by t, t_revoked_at t)) ts'"
  shows "(\<lambda>t. (t_id t, t_env t, t_created_by t)) ` {t \<in> set ts. t_revoked_at t = None} =
    (\<lambda>t. (t_id t, t_env t, t_created_by t)) ` {t \<in> set ts'. t_revoked_at t = None}"
proof -
  have live: "(\<lambda>t. (t_id t, t_env t, t_created_by t)) ` {t \<in> set ts. t_revoked_at t = None} =
      {(i, e, c). (i, e, c, None) \<in> set (map (\<lambda>t. (t_id t, t_env t, t_created_by t, t_revoked_at t)) ts)}" for ts
    by (force simp: image_iff)
  show ?thesis unfolding live assms ..
qed

lemma rotate_ok:
  assumes ok: "tables_ok db" and snap: "earlier snap db" and run: "rotate_env L now u env req snap db = (r, db')"
  shows "step_ok (Some u) db db'"
proof (cases r)
  case (Inl e)
  with run same_ok [OF ok] show ?thesis by (auto dest: rotate_failed)
next
  case (Inr rv)
  with run have "rotate_env L now u env req snap db = (Inr rv, db')" by simp
  then obtain org ro where env: "env_org snap env = Inr (Some org)" and ro: "decode_rotation L u req = Inr ro"
    and auth: "\<exists>r. write_authority db org u r \<and> can_manage_members r"
      "\<forall>g \<in> set (ro_grants ro). find_member db org (fst g) \<noteq> None"
    and db': "db' = record_tx now org u ''env.rotated''
          (no_context\<lparr>cx_env := Some env, cx_detail := Some (rotation_detail ro)\<rparr>)
       (set_revision env rv
       (db\<lparr>grants := sql_delete (\<lambda>g. g_env g = env) (grants db) @ rotated_grants env u (ro_grants ro),
           versions := versions (rewrap_history (ro_history_keys ro) db),
           tokens := tokens (regrant_machines env (ro_machine_grants ro) db),
           secrets := secrets (rewrap_secrets env (ro_data_keys ro) db)\<rparr>))"
    by (rule rotate_committed)
  from env obtain e p where "find_env snap env = Some e" "find_project snap (e_project e) = Some p" "p_org p = Some org"
    by (auto simp: env_org_def rbind_eq_Inr_iff)
  with auth(1) have org: "in_org (acl_of db) org env"
    using earlier_env [OF snap] by (auto simp: in_org_def authority_not_purged simp del: acl_of_simps)
  have self: "u \<in> fst ` set (ro_grants ro)"
    using ro by (auto simp: decode_rotation_def rbind_eq_Inr_iff)
  have frame: "orgs db' = orgs db" "members db' = members db" "projects db' = projects db"
    "envs db' = sql_update (\<lambda>e. e_id e = env) (\<lambda>e. e\<lparr>e_revision := rv\<rparr>) (envs db)"
    "grants db' = sql_delete (\<lambda>g. g_env g = env) (grants db) @ rotated_grants env u (ro_grants ro)"
    "tokens db' = tokens (regrant_machines env (ro_machine_grants ro) db)" "deletions db' = deletions db"
    by (simp_all add: db' set_revision_def)
  have keys: "map e_id (envs db') = map e_id (envs db)" "map e_project (envs db') = map e_project (envs db)"
    by (simp_all add: frame(4) keys_sql_update)
  have toks: "map (\<lambda>t. (t_id t, t_env t, t_created_by t, t_revoked_at t)) (tokens db') =
      map (\<lambda>t. (t_id t, t_env t, t_created_by t, t_revoked_at t)) (tokens db)"
    by (simp add: frame(6) regrant_machines_def rekey_keeps)
  have home: "env_home (acl_of db') = env_home (acl_of db)"
    by (simp add: fun_eq_iff homes_cong(1) [OF frame(3)] find_env_def frame(4) sql_find_update bind_map_option comp_def
        if_distrib cong: if_cong)
  have "acl_of db' = acl_of db\<lparr>holds := {(e', w) \<in> holds (acl_of db). e' \<noteq> env} \<union> {env} \<times> (fst ` set (ro_grants ro))\<rparr>"
  proof (rule acl_eqI)
    show "machines (acl_of db') = machines (acl_of db\<lparr>holds := {(e', w) \<in> holds (acl_of db). e' \<noteq> env} \<union> {env} \<times> (fst ` set (ro_grants ro))\<rparr>)"
      using live_keys [OF toks] by (simp add: acl_of_def)
    have "(\<lambda>g. (g_env g, g_user g)) ` set (rotated_grants env u (ro_grants ro)) = {env} \<times> (fst ` set (ro_grants ro))"
      by (force simp: rotated_grants_def image_iff)
    then show "holds (acl_of db') = holds (acl_of db\<lparr>holds := {(e', w) \<in> holds (acl_of db). e' \<noteq> env} \<union> {env} \<times> (fst ` set (ro_grants ro))\<rparr>)"
      by (auto simp: acl_of_def frame(5) image_Un)
  qed (use home homes_cong(1) [OF frame(3)] in
      \<open>simp_all add: acl_of_def find_org_cong [OF frame(1)] find_member_cong [OF frame(2)]\<close>)
  then have "acl_step (Some u) (acl_of db) (acl_of db')"
    using rekey [of "acl_of db" org env u "fst ` set (ro_grants ro)"] auth org self by (auto simp: manager_acl)
  with tables_ok_cong [OF ok frame(2,1,3) keys] show ?thesis by (simp add: step_ok_def frame)
qed

lemma write_secrets_ok:
  assumes ok: "tables_ok db" and run: "write_secrets L now u env base cs snap db = (r, db')"
  shows "step_ok (Some u) db db'"
proof (cases r)
  case (Inl e)
  with run same_ok [OF ok] show ?thesis by (auto dest: write_secrets_failed)
next
  case (Inr tr)
  with run obtain project acc where
    "write_secrets_tx L now acc u env base cs db = Inr (snd tr, db')"
    by (cases tr) (auto elim: write_secrets_committed)
  then obtain envs': "envs db' = envs (set_revision env (snd tr) db)"
    and fr: "db' = db\<lparr>secrets := secrets db', versions := versions db', envs := envs db', audit := audit db',
              audit_next := audit_next db'\<rparr>"
    by (rule write_secrets_tx_committed)
  have frame: "orgs db' = orgs db" "members db' = members db" "projects db' = projects db" "grants db' = grants db"
      "tokens db' = tokens db" "deletions db' = deletions db"
    by (subst fr, simp)+
  have keys: "map e_id (envs db') = map e_id (envs db)" "map e_project (envs db') = map e_project (envs db)"
    by (simp_all add: envs' set_revision_def keys_sql_update)
  have "env_home (acl_of db') = env_home (acl_of db)"
    by (simp add: fun_eq_iff homes_cong(1) [OF frame(3)] find_env_def envs' set_revision_def sql_find_update bind_map_option
        comp_def if_distrib cong: if_cong)
  then have "acl_of db' = acl_of db"
    by (intro acl_eqI) (simp_all add: acl_of_def frame find_org_cong [OF frame(1)] find_member_cong [OF frame(2)] homes_cong(1) [OF frame(3)])
  with tables_ok_cong [OF ok frame(2,1,3) keys] show ?thesis by (simp add: step_ok_def idle frame)
qed

lemma create_token_ok:
  assumes ok: "tables_ok db" and snap: "earlier snap db"
    and run: "create_token L now token_id raw u env name pk key snap db = (r, db')"
  shows "step_ok (Some u) db db'"
proof (cases r)
  case (Inl e)
  with run same_ok [OF ok] show ?thesis by (auto dest: create_token_failed)
next
  case (Inr c)
  with run have "create_token L now token_id raw u env name pk key snap db = (Inr c, db')" by simp
  then obtain project acc pk' k where acc: "env_access snap env u = Inr (project, acc)"
    "require_manage_structure_tx acc db create_token_message = Inr ()"
    and db': "tokens db' = sql_insert \<lparr>t_id = token_id, t_env = env, t_name = name,
            t_hash = hash_token L (generate_token raw), t_public_key = pk', t_enc_vault_key = k,
            t_created_by = Some u, t_revoked_at = None\<rparr> (tokens db)"
    and fr: "db' = db\<lparr>tokens := tokens db', audit := audit db', audit_next := audit_next db'\<rparr>"
    by (rule create_token_committed)
  have frame: "orgs db' = orgs db" "members db' = members db" "projects db' = projects db" "envs db' = envs db"
      "grants db' = grants db" "deletions db' = deletions db"
    by (subst fr, simp)+
  obtain home where home: "env_home (acl_of db) env = Some home" "manages (acl_of db) u home"
    using env_access_manages [OF snap acc] by blast
  have "acl_of db' = acl_of db\<lparr>machines := insert (token_id, env, Some u) (machines (acl_of db))\<rparr>"
    by (rule view_eqI) (auto simp: frame find_member_cong [OF frame(2)] db')
  with enrol [OF home, of token_id] have "acl_step (Some u) (acl_of db) (acl_of db')" by simp
  with tables_ok_cong [OF ok] frame show ?thesis by (simp add: step_ok_def)
qed

lemma revoke_token_ok:
  assumes ok: "tables_ok db" and snap: "earlier snap db" and run: "revoke_token now u env token_id snap db = (r, db')"
  shows "step_ok (Some u) db db'"
proof (cases r)
  case (Inl e)
  with run same_ok [OF ok] show ?thesis by (auto dest: revoke_token_failed)
next
  case (Inr c)
  with run have "revoke_token now u env token_id snap db = (Inr c, db')" by simp
  then obtain project acc where acc: "env_access snap env u = Inr (project, acc)"
    "require_manage_structure_tx acc db revoke_message = Inr ()"
    and db': "tokens db' = sql_update (is_live_token env token_id) (\<lambda>t. t\<lparr>t_revoked_at := Some now\<rparr>) (tokens db)"
    and fr: "db' = db\<lparr>tokens := tokens db', audit := audit db', audit_next := audit_next db'\<rparr>"
    by (rule revoke_token_committed)
  have frame: "orgs db' = orgs db" "members db' = members db" "projects db' = projects db" "envs db' = envs db"
      "grants db' = grants db" "deletions db' = deletions db"
    by (subst fr, simp)+
  obtain home where home: "env_home (acl_of db) env = Some home" "manages (acl_of db) u home"
    using env_access_manages [OF snap acc] by blast
  have "acl_of db' = acl_of db\<lparr>machines := {(t', e', c) \<in> machines (acl_of db). \<not> (t' = token_id \<and> e' = env)}\<rparr>"
    by (rule view_eqI) (auto simp: frame find_member_cong [OF frame(2)] db' is_live_token_def)
  with acl_step.revoke [OF home, of token_id] have "acl_step (Some u) (acl_of db) (acl_of db')" by simp
  with tables_ok_cong [OF ok] frame show ?thesis by (simp add: step_ok_def)
qed

subsection \<open>Accounts, share links and logins\<close>

lemma put_account_ok:
  assumes ok: "tables_ok db" and run: "put_account L u bundle db = (r, db')"
  shows "step_ok (Some u) db db'"
proof (cases r)
  case (Inl e)
  with run same_ok [OF ok] show ?thesis by (auto dest: put_account_failed)
next
  case (Inr c)
  with run have "put_account L u bundle db = (Inr c, db')" by simp
  then obtain k where "db' = db\<lparr>users := sql_update (\<lambda>x. u_id x = u \<and> u_public_key x = None) (store_keys k) (users db)\<rparr>"
    by (rule put_account_Inr)
  then show ?thesis by (intro unchanged_ok [OF ok]) simp_all
qed

lemma reset_account_ok:
  assumes ok: "tables_ok db" and run: "reset_account L now u bundle db = (r, db')"
  shows "step_ok (Some u) db db'"
proof (cases r)
  case (Inl e)
  with run same_ok [OF ok] show ?thesis by (auto dest: reset_account_failed)
next
  case (Inr c)
  with run have "reset_account L now u bundle db = (Inr c, db')" by simp
  then obtain k where lc: "\<exists>vs. map_result require_writable (org_rows db u) = Inr vs"
    and st: "grants db' = sql_delete (\<lambda>g. g_user g = u) (grants db)"
      "members db' = sql_update (\<lambda>m. m_user m = u) (\<lambda>m. m\<lparr>m_enc_org_key := None\<rparr>) (members db)"
      "orgs db' = orgs db" "projects db' = projects db" "envs db' = envs db" "tokens db' = tokens db"
      "deletions db' = deletions db"
    by (rule reset_account_committed)
  have mem: "find_member db' org w = map_option (\<lambda>m. if m_user m = u then m\<lparr>m_enc_org_key := None\<rparr> else m) (find_member db org w)" for org w
    unfolding find_member_def st(2) by (rule sql_find_update) (simp add: is_membership_def)
  have role: "map_option m_role (find_member db' org w) = map_option m_role (find_member db org w)" for org w
    by (simp add: mem option.map_comp comp_def if_distrib cong: if_cong)
  have "acl_of db' = acl_of db\<lparr>holds := {(e, w) \<in> holds (acl_of db). w \<noteq> u}\<rparr>"
    by (rule view_eqI) (use role in \<open>auto simp: st\<close>)
  moreover have "org \<in> open_orgs (acl_of db)" if "role_of (acl_of db) org u \<noteq> None" for org
  proof -
    from that obtain m where m: "find_member db org u = Some m" by auto
    with tables_okD(5) [OF ok, of m] obtain og where og: "find_org db org = Some og"
      by (auto dest: find_member_SomeD)
    have "og \<in> set (org_rows db u)"
      using find_org_SomeD [OF og] m
      by (auto simp: org_rows_def member_exists_def sql_count_pos_iff find_member_def dest: sql_find_SomeD)
    with lc obtain v where "require_writable og = Inr v" by (auto dest: map_result_Inr_all)
    with og show ?thesis by (auto dest: require_writable_Inr)
  qed
  ultimately have "acl_step (Some u) (acl_of db) (acl_of db')"
    using acl_step.reset [of "acl_of db" u] by simp
  moreover have "tables_ok db'"
    by (rule tables_ok_members [OF ok]) (use tables_okD(1,5) [OF ok] in \<open>auto simp: st keys_sql_update member_key_def\<close>)
  ultimately show ?thesis by (simp add: step_ok_def st)
qed

text \<open>Requests that leave every table of the access view alone.\<close>

definition untouched :: "db \<Rightarrow> db \<Rightarrow> bool" where
  "untouched db db' \<longleftrightarrow> orgs db' = orgs db \<and> members db' = members db \<and> projects db' = projects db \<and>
     envs db' = envs db \<and> grants db' = grants db \<and> tokens db' = tokens db \<and> deletions db' = deletions db"

lemma untouched_ok: "tables_ok db \<Longrightarrow> untouched db db' \<Longrightarrow> step_ok u db db'"
  unfolding untouched_def by (blast intro: unchanged_ok)

lemma finish_login_untouched:
  "finish_login L N c now raw url cs wants u db = (r, db') \<Longrightarrow> untouched db db'"
  by (auto simp: finish_login_def issue_def issue_legacy_cli_def issue_inner_def Let_def untouched_def
      split: prod.splits sum.splits if_splits)

lemma upsert_user_untouched: "upsert_user i ident db = (r, db') \<Longrightarrow> untouched db db'"
  by (auto simp: upsert_user_def Let_def untouched_def split: option.splits if_splits)

lemma callback_untouched:
  assumes "callback L N config now raw new_id code state db = (r, db')"
  shows "untouched db db'"
  using assms unfolding callback_def
  by (fastforce simp: Let_def untouched_def split: sum.splits option.splits if_splits prod.splits
      dest!: upsert_user_untouched [unfolded untouched_def] finish_login_untouched [unfolded untouched_def])

lemma other_requests_untouched:
  "login N config now raw redirect_uri cli_state mode db = (lr, db') \<Longrightarrow> untouched db db'"
  "exchange L config now raw code state db = (er, db') \<Longrightarrow> untouched db db'"
  "logout L config h db = (cookie, db') \<Longrightarrow> untouched db db'"
  "create_share L now raw u blob views ttl salt db = (sh, db') \<Longrightarrow> untouched db db'"
  "fetch_share L now token db = (f, db') \<Longrightarrow> untouched db db'"
  "revoke_share now u token db = (rs, db') \<Longrightarrow> untouched db db'"
  by (auto simp: login_def exchange_def issue_def issue_inner_def logout_def Sessions.revoke_def create_share_def
      fetch_share_def revoke_share_def untouched_def Let_def split: sum.splits option.splits if_splits)

text \<open>A billing notification changes what an organisation pays for, not who belongs to it.\<close>

lemma webhook_ok:
  assumes ok: "tables_ok db" and run: "webhook hmac parse_event b now_secs now signature body db = (r, db')"
  shows "step_ok u db db'"
proof -
  from billing_only_webhook [OF run] obtain f where f: "orgs db' = map f (orgs db)"
      "\<And>og. o_id (f og) = o_id og \<and> o_lifecycle (f og) = o_lifecycle og"
    and fr: "db' = db\<lparr>orgs := orgs db', audit := audit db', audit_next := audit_next db',
              webhook_events := webhook_events db', watermarks := watermarks db'\<rparr>"
    unfolding billing_only_def by blast
  have same: "members db' = members db" "projects db' = projects db" "envs db' = envs db" "grants db' = grants db"
      "tokens db' = tokens db" "deletions db' = deletions db"
    by (subst fr, simp)+
  have org: "find_org db' i = map_option f (find_org db i)" for i
    using sql_find_update [of "\<lambda>_. True" "\<lambda>og. o_id og = i" f "orgs db"] f by (simp add: find_org_def sql_update_def)
  have "acl_of db' = acl_of db"
    by (auto simp: acl_of_def org f(2) same find_member_cong [OF same(1)] homes_cong(1) [OF same(2)] homes_cong(2) [OF same(3)])
  moreover have "tables_ok db'"
    using ok f by (simp add: tables_ok_def same org find_project_def)
  ultimately show ?thesis by (simp add: step_ok_def idle same)
qed

subsection \<open>Every step refines the machine\<close>

lemma server_step_ok:
  assumes "server_step L N config actor snap db db'" and "tables_ok db" and "earlier snap db"
  shows "step_ok actor db db'"
  using assms
  by (cases rule: server_step.cases)
    (auto intro: create_org_ok grant_org_key_ok add_member_ok invite_member_ok update_member_ok remove_member_ok
      create_project_ok create_environment_ok write_secrets_ok create_grant_ok rotate_ok create_token_ok
      revoke_token_ok put_account_ok reset_account_ok webhook_ok
      untouched_ok [OF _ callback_untouched] untouched_ok [OF _ other_requests_untouched(1)]
      untouched_ok [OF _ other_requests_untouched(2)] untouched_ok [OF _ other_requests_untouched(3)]
      untouched_ok [OF _ other_requests_untouched(4)] untouched_ok [OF _ other_requests_untouched(5)]
      untouched_ok [OF _ other_requests_untouched(6)])

text \<open>A request moves nothing, so every good snapshot stays good.\<close>

lemma acl_step_homes:
  assumes "acl_step u a a'"
  shows "project_home a \<subseteq>\<^sub>m project_home a'" and "env_home a \<subseteq>\<^sub>m env_home a'" and "gone_orgs a' = gone_orgs a"
  using assms by (cases rule: acl_step.cases; auto simp: map_le_def dom_def)+

lemma step_earlier:
  assumes "step_ok u db db'" and "earlier snap db"
  shows "earlier snap db'"
proof -
  have step: "acl_step u (acl_of db) (acl_of db')" using assms(1) by (simp add: step_ok_def)
  have stay: "m' x = Some y" if "m \<subseteq>\<^sub>m m'" "m x = Some y" for m m' :: "string \<Rightarrow> (string \<times> string option) option" and x y
    using that unfolding map_le_def by (metis domI)
  have same: "purged_home db' = purged_home db"
    unfolding purged_home_def acl_step_homes(3) [OF step] ..
  have "project_home (acl_of db) \<subseteq>\<^sub>m project_home (acl_of db')" by (rule acl_step_homes(1) [OF step])
  then have homes: "home_of db \<subseteq>\<^sub>m home_of db'" by simp
  show ?thesis
    using assms(2) stay [OF homes] stay [OF acl_step_homes(2) [OF step]] unfolding earlier_def same by blast
qed

lemma earlier_refl: "earlier db db"
  by (simp add: earlier_def)

end
