(* ===== verification/Org_Deletion.thy ===== *)
theory Org_Deletion
  imports Billing
begin

text \<open>
  Deleting an organisation (\<open>org_deletion.rs\<close>, its worker, its operator and user routes and its
  counters): the durable state machine, its leases and compare-and-set transitions, the billing gate
  and the final purge. The checks of the table's schema (\<open>migrations/0015\<close>, \<open>0019\<close>) are part of
  every write: a row that breaks one is refused and the transaction rolls back.

  A worker claims a row (\<open>claim_due\<close>) and later advances it (\<open>advance\<close>); in between anything may
  happen, which the lease's \<open>state_version\<close> and owner detect. The provider answers before the
  transaction opens. Reading a timestamp text is PostgreSQL's, the parameter \<open>pg\<close>; timestamps stay
  instants where the code formats them for the wire. The trigger that stamps \<open>state_entered_at\<close> for
  the metrics and the random id of a new operation (an argument) are not modelled.
\<close>

subsection \<open>States\<close>

datatype deletion_state =
  Requested | CancellingBilling | Retention | Purging | Recovering | Failed | Cancelled | Completed

fun state_str :: "deletion_state \<Rightarrow> string" where
  "state_str Requested = ''requested''"
| "state_str CancellingBilling = ''cancelling_billing''"
| "state_str Retention = ''retention''"
| "state_str Purging = ''purging''"
| "state_str Recovering = ''recovering''"
| "state_str Failed = ''failed''"
| "state_str Cancelled = ''cancelled''"
| "state_str Completed = ''completed''"

definition state_from_db :: "string \<Rightarrow> error + deletion_state" where
  "state_from_db s =
     (if s = ''requested'' then Inr Requested
      else if s = ''cancelling_billing'' then Inr CancellingBilling
      else if s = ''retention'' then Inr Retention
      else if s = ''purging'' then Inr Purging
      else if s = ''recovering'' then Inr Recovering
      else if s = ''failed'' then Inr Failed
      else if s = ''cancelled'' then Inr Cancelled
      else if s = ''completed'' then Inr Completed
      else Inl (Internal (''unknown organisation deletion state in db: '' @ s)))"

definition can_cancel :: "deletion_state \<Rightarrow> bool" where
  "can_cancel s \<longleftrightarrow> s \<in> {Requested, CancellingBilling, Retention, Failed}"

record deletion_view =
  dv_id :: string
  dv_org :: string
  dv_state :: deletion_state

record deletion_status =
  ds_id :: string
  ds_org :: string
  ds_state :: deletion_state
  ds_requested_at :: int
  ds_recoverable_until :: int
  ds_backup_expiry_by :: "int option"
  ds_next_retry_at :: "int option"
  ds_last_error :: "string option"

definition public_error :: "deletion_status \<Rightarrow> string option" where
  "public_error s = Option.bind (ds_last_error s) (\<lambda>code.
     if ds_state s \<noteq> Failed \<and> ds_next_retry_at s = None then None
     else if code = ''purge_precondition_failed'' then Some ''purge_failed''
     else if code = ''billing_status_unknown'' then Some ''billing_unknown''
     else Some ''billing_unavailable'')"

record lease =
  ls_id :: string
  ls_org :: string
  ls_state :: deletion_state
  ls_subscription :: "string option"
  ls_worker :: string
  ls_version :: int
  ls_attempts :: int

subsection \<open>Retries\<close>

definition SECOND :: int where "SECOND = 1000000"

definition RETRY_DELAYS :: "int list" where
  "RETRY_DELAYS = [60, 5 * 60, 30 * 60, 2 * 60 * 60, 6 * 60 * 60, 24 * 60 * 60]"

definition BILLING_OBSERVATION_MAX_AGE :: int where "BILLING_OBSERVATION_MAX_AGE = 15 * 60"

definition retry_delay :: "int \<Rightarrow> int option" where
  "retry_delay attempts =
     (if attempts \<le> 0 then Some (RETRY_DELAYS ! 0)
      else if nat attempts - 1 < length RETRY_DELAYS then Some (RETRY_DELAYS ! (nat attempts - 1))
      else None)"

definition jitter_hash :: "string \<Rightarrow> 64 word" where
  "jitter_hash operation = foldl (\<lambda>h b. h * 1099511628211 + of_nat (of_char b)) 0 operation"

definition retry_delay_with_jitter :: "string \<Rightarrow> int \<Rightarrow> int option" where
  "retry_delay_with_jitter operation attempts =
     map_option (\<lambda>base. base + uint (jitter_hash operation mod 30)) (retry_delay attempts)"

datatype retry_decision = Retry int | Fail

definition provider_retry_decision :: "provider_error_kind \<Rightarrow> int \<Rightarrow> retry_decision" where
  "provider_retry_decision kind attempts =
     (if kind = Authentication then Fail
      else case retry_delay attempts of None \<Rightarrow> Fail | Some d \<Rightarrow> Retry d)"

fun billing_transition :: "purge_gate \<Rightarrow> deletion_state option" where
  "billing_transition Terminal = Some Retention"
| "billing_transition Missing = Some Retention"
| "billing_transition Blocking = None"
| "billing_transition GateUnknown = None"

fun billing_state_name :: "purge_gate \<Rightarrow> string" where
  "billing_state_name Blocking = ''blocking''"
| "billing_state_name Terminal = ''terminal''"
| "billing_state_name Missing = ''missing''"
| "billing_state_name GateUnknown = ''unknown''"

subsection \<open>Counters\<close>

definition PROVIDER_CANCELLATION_ATTEMPTS :: string where
  "PROVIDER_CANCELLATION_ATTEMPTS = ''provider_cancellation_attempts''"
definition PROVIDER_RECONCILIATION_ATTEMPTS :: string where
  "PROVIDER_RECONCILIATION_ATTEMPTS = ''provider_reconciliation_attempts''"
definition LEASE_EXPIRIES :: string where "LEASE_EXPIRIES = ''lease_expiries''"
definition STALE_COMPARE_AND_SET :: string where "STALE_COMPARE_AND_SET = ''stale_compare_and_set''"
definition PURGE_ATTEMPTS :: string where "PURGE_ATTEMPTS = ''purge_attempts''"

definition increment_tx :: "string \<Rightarrow> string \<Rightarrow> db \<Rightarrow> db" where
  "increment_tx metric outcome db =
     (if sql_exists (\<lambda>c. mc_metric c = metric \<and> mc_outcome c = outcome) (counters db)
      then db\<lparr>counters := sql_update (\<lambda>c. mc_metric c = metric \<and> mc_outcome c = outcome)
             (\<lambda>c. c\<lparr>mc_value := mc_value c + 1\<rparr>) (counters db)\<rparr>
      else db\<lparr>counters := sql_insert \<lparr>mc_metric = metric, mc_outcome = outcome, mc_value = 1\<rparr> (counters db)\<rparr>)"

fun provider_metric_for_state :: "deletion_state \<Rightarrow> string option" where
  "provider_metric_for_state CancellingBilling = Some PROVIDER_CANCELLATION_ATTEMPTS"
| "provider_metric_for_state Retention = Some PROVIDER_RECONCILIATION_ATTEMPTS"
| "provider_metric_for_state Recovering = Some PROVIDER_RECONCILIATION_ATTEMPTS"
| "provider_metric_for_state _ = None"

fun provider_error_outcome :: "provider_error_kind \<Rightarrow> string" where
  "provider_error_outcome Authentication = ''authentication''"
| "provider_error_outcome ResourceMissing = ''resource_missing''"
| "provider_error_outcome Retryable = ''retryable''"
| "provider_error_outcome KindUnknown = ''unknown''"

subsection \<open>The table\<close>

definition live_states :: "string list" where
  "live_states = [''requested'', ''cancelling_billing'', ''retention'', ''purging'', ''recovering'']"

definition open_op :: "deletion_row \<Rightarrow> bool" where
  "open_op d \<longleftrightarrow> d_state d \<noteq> ''cancelled'' \<and> d_state d \<noteq> ''completed''"

text \<open>The column and table checks of \<open>organization_deletions\<close>.\<close>

definition not_earlier :: "int option \<Rightarrow> int \<Rightarrow> bool" where
  "not_earlier t bound \<longleftrightarrow> (case t of None \<Rightarrow> True | Some t \<Rightarrow> bound \<le> t)"

definition observation_checks :: "deletion_row \<Rightarrow> bool" where
  "observation_checks d \<longleftrightarrow>
     (case d_billing_state d of None \<Rightarrow> True | Some s \<Rightarrow> s \<in> {''blocking'', ''terminal'', ''missing'', ''unknown''}) \<and>
     (case d_billing_source d of None \<Rightarrow> True | Some s \<Rightarrow> s \<in> {''provider'', ''operator''}) \<and>
     ((d_billing_state d = None) = (d_billing_checked_at d = None)) \<and>
     ((d_billing_source d = None) = (d_billing_state d = None)) \<and>
     (if d_billing_source d = Some ''operator''
      then d_observed_by d \<noteq> None \<and> d_reason d \<noteq> None \<and> d_evidence d \<noteq> None
      else d_observed_by d = None \<and> d_reason d = None \<and> d_evidence d = None)"

definition deletion_checks :: "deletion_row \<Rightarrow> bool" where
  "deletion_checks d \<longleftrightarrow>
     d_state d \<in> set live_states \<union> {''failed'', ''cancelled'', ''completed''} \<and>
     (case d_resume_state d of None \<Rightarrow> True | Some s \<Rightarrow> s \<in> set live_states) \<and>
     0 \<le> d_attempt_count d \<and> 0 \<le> d_state_version d \<and> d_requested_at d \<le> d_purge_after d \<and>
     (d_state d = ''failed'') = (d_resume_state d \<noteq> None) \<and>
     (d_lease_owner d = None) = (d_lease_expires_at d = None) \<and>
     (d_state d = ''cancelled'') = (d_cancelled_at d \<noteq> None) \<and>
     (d_state d = ''completed'') = (d_completed_at d \<noteq> None) \<and>
     list_all (\<lambda>t. not_earlier t (d_requested_at d)) [d_billing_checked_at d, d_lease_expires_at d,
       d_next_attempt_at d, d_cancelled_at d, d_completed_at d, d_purge_started_at d] \<and>
     not_earlier (d_backup_expiry_by d) (d_purge_after d) \<and>
     observation_checks d"

text \<open>\<open>UPDATE ... WHERE ... RETURNING\<close> of at most one row.\<close>

definition update_deletion ::
    "(deletion_row \<Rightarrow> bool) \<Rightarrow> (deletion_row \<Rightarrow> deletion_row) \<Rightarrow> db \<Rightarrow> error + deletion_row option \<times> db" where
  "update_deletion p f db = (case sql_find p (deletions db) of
       None \<Rightarrow> Inr (None, db)
     | Some d \<Rightarrow> rbind (require (deletion_checks (f d)) (Db ''check violation'')) (\<lambda>_.
         Inr (Some (f d), db\<lparr>deletions := sql_update p f (deletions db)\<rparr>)))"

definition holds_lease :: "lease \<Rightarrow> deletion_row \<Rightarrow> bool" where
  "holds_lease l d \<longleftrightarrow> d_id d = ls_id l \<and> d_state_version d = ls_version l \<and> d_lease_owner d = Some (ls_worker l)"

text \<open>Every transition gives up the lease and moves the version on.\<close>

definition release :: "deletion_row \<Rightarrow> deletion_row" where
  "release d = d\<lparr>d_lease_owner := None, d_lease_expires_at := None, d_state_version := d_state_version d + 1\<rparr>"

definition stale_counter :: "deletion_row option \<Rightarrow> db \<Rightarrow> db" where
  "stale_counter row db = (case row of None \<Rightarrow> increment_tx STALE_COMPARE_AND_SET ''rejected'' db | Some _ \<Rightarrow> db)"

definition view_from_row :: "string \<Rightarrow> deletion_row \<Rightarrow> error + deletion_view" where
  "view_from_row i d = rbind (state_from_db (d_state d)) (\<lambda>s. Inr \<lparr>dv_id = i, dv_org = d_org d, dv_state = s\<rparr>)"

text \<open>The view a committed transition answers with.\<close>

definition answer :: "string \<Rightarrow> (error + deletion_row option) \<times> db \<Rightarrow> (error + deletion_view option) \<times> db" where
  "answer i r = (case r of
       (Inl e, db) \<Rightarrow> (Inl e, db)
     | (Inr None, db) \<Rightarrow> (Inr None, db)
     | (Inr (Some d), db) \<Rightarrow> (rbind (view_from_row i d) (\<lambda>v. Inr (Some v)), db))"

subsection \<open>Requests of an owner\<close>

definition require_owner :: "db \<Rightarrow> string \<Rightarrow> string \<Rightarrow> error + unit" where
  "require_owner db org actor = (case find_member db org actor of
       None \<Rightarrow> Inl (NotFound ''organisation not found'')
     | Some m \<Rightarrow> rbind (role_from_db (m_role m)) (\<lambda>r.
         require (r = Owner) (Forbidden ''only an organisation owner may manage deletion'')))"

definition completed_for :: "string \<Rightarrow> string \<Rightarrow> deletion_row \<Rightarrow> bool" where
  "completed_for org actor d \<longleftrightarrow> d_org d = org \<and> d_requested_by d = actor \<and> d_state d = ''completed''"

text \<open>\<open>ORDER BY requested_at DESC LIMIT 1\<close>.\<close>

definition latest_deletion :: "(deletion_row \<Rightarrow> bool) \<Rightarrow> db \<Rightarrow> deletion_row option" where
  "latest_deletion p db = (case sort_key (\<lambda>d. - d_requested_at d) (sql_select p (deletions db)) of
     [] \<Rightarrow> None | d # _ \<Rightarrow> Some d)"

definition open_deletion :: "string \<Rightarrow> db \<Rightarrow> deletion_row option" where
  "open_deletion org = latest_deletion (\<lambda>d. d_org d = org \<and> open_op d)"

definition new_deletion :: "int \<Rightarrow> string \<Rightarrow> string \<Rightarrow> string \<Rightarrow> int \<Rightarrow> string option \<Rightarrow> deletion_row" where
  "new_deletion now new_id org actor days sub = \<lparr>d_id = new_id, d_org = org, d_state = ''requested'', d_resume_state = None,
     d_requested_by = actor, d_requested_at = now, d_purge_after = now + days * DAY, d_subscription = sub,
     d_billing_state = None, d_billing_checked_at = None, d_billing_source = None, d_observed_by = None,
     d_reason = None, d_evidence = None, d_attempt_count = 0, d_next_attempt_at = None, d_last_error = None,
     d_state_version = 0, d_lease_owner = None, d_lease_expires_at = None, d_cancelled_at = None,
     d_completed_at = None, d_backup_expiry_by = None, d_purge_started_at = None\<rparr>"

definition insert_deletion :: "deletion_row \<Rightarrow> db \<Rightarrow> error + db" where
  "insert_deletion d db =
     rbind (require (\<not> sql_exists (\<lambda>d'. d_id d' = d_id d) (deletions db)) (Db ''unique violation'')) (\<lambda>_.
     rbind (require (\<not> sql_exists (\<lambda>d'. d_org d' = d_org d \<and> open_op d') (deletions db)) (Db ''unique violation'')) (\<lambda>_.
     Inr (db\<lparr>deletions := sql_insert d (deletions db)\<rparr>)))"

definition set_lifecycle :: "string \<Rightarrow> string \<Rightarrow> db \<Rightarrow> db" where
  "set_lifecycle org s db = db\<lparr>orgs := sql_update (\<lambda>og. o_id og = org) (\<lambda>og. og\<lparr>o_lifecycle := s\<rparr>) (orgs db)\<rparr>"

definition target_context :: "string \<Rightarrow> audit_context" where
  "target_context i = no_context\<lparr>cx_target := Some i\<rparr>"

definition resume_deletion :: "int \<Rightarrow> string \<Rightarrow> string \<Rightarrow> deletion_row \<Rightarrow> db \<Rightarrow> error + deletion_view \<times> db" where
  "resume_deletion now org actor d db =
     rbind (ok_or (d_resume_state d) (Internal ''failed deletion has no recorded resume state'')) (\<lambda>resume.
     rbind (state_from_db resume) (\<lambda>state.
     rbind (update_deletion (\<lambda>d'. d_id d' = d_id d)
       (\<lambda>d. release (d\<lparr>d_state := resume, d_resume_state := None, d_next_attempt_at := Some now,
          d_attempt_count := 0, d_last_error := None\<rparr>)) db) (\<lambda>(_, db).
     Inr (\<lparr>dv_id = d_id d, dv_org = org, dv_state = state\<rparr>,
          record_tx now org actor ''org.deletion.retry_requested'' (target_context (d_id d)) db))))"

definition request_tx ::
    "int \<Rightarrow> string \<Rightarrow> string \<Rightarrow> string \<Rightarrow> int \<Rightarrow> db \<Rightarrow> error + deletion_view \<times> db" where
  "request_tx now new_id org actor days db =
     (case find_org db org of
        None \<Rightarrow> Inl (NotFound ''organisation not found'')
      | Some og \<Rightarrow>
          rbind (lifecycle_from_db (o_lifecycle og)) (\<lambda>lifecycle.
          if lifecycle = Deleted then
            (if sql_exists (completed_for org actor) (deletions db)
             then Inl (Conflict ''organisation has already been deleted'')
             else Inl (NotFound ''organisation not found''))
          else rbind (require_owner db org actor) (\<lambda>_.
          if lifecycle = Deleting then
            rbind (ok_or (open_deletion org db) (Internal ''deleting organisation has no active deletion operation'')) (\<lambda>d.
            rbind (state_from_db (d_state d)) (\<lambda>state.
            if state = Failed then resume_deletion now org actor d db
            else Inr (\<lparr>dv_id = d_id d, dv_org = org, dv_state = state\<rparr>, db)))
          else
            rbind (insert_deletion (new_deletion now new_id org actor days (o_stripe_subscription og)) db) (\<lambda>db.
            Inr (\<lparr>dv_id = new_id, dv_org = org, dv_state = Requested\<rparr>,
                 record_tx now org actor ''org.deletion.requested'' (target_context new_id)
                   (set_lifecycle org ''deleting'' db))))))"

definition request_with_retention ::
    "int \<Rightarrow> string \<Rightarrow> string \<Rightarrow> string \<Rightarrow> string \<Rightarrow> int \<Rightarrow> db \<Rightarrow> (error + deletion_view) \<times> db" where
  "request_with_retention now new_id org actor confirmation days db =
     (if days \<le> 0 then (Inl (Internal ''organisation deletion retention must be positive''), db)
      else if confirmation \<noteq> org
      then (Inl (BadRequest ''deletion confirmation does not match the organisation''), db)
      else run_txn (request_tx now new_id org actor days) db)"

definition status_for_operation :: "db \<Rightarrow> string \<Rightarrow> string \<Rightarrow> error + deletion_status" where
  "status_for_operation db org operation =
     rbind (ok_or (sql_find (\<lambda>d. d_id d = operation \<and> d_org d = org) (deletions db)) (NotFound ''deletion not found'')) (\<lambda>d.
     rbind (state_from_db (d_state d)) (\<lambda>state.
     Inr \<lparr>ds_id = d_id d, ds_org = org, ds_state = state, ds_requested_at = d_requested_at d,
       ds_recoverable_until = d_purge_after d, ds_backup_expiry_by = d_backup_expiry_by d,
       ds_next_retry_at = d_next_attempt_at d, ds_last_error = d_last_error d\<rparr>))"

definition status_after_mutation :: "db \<Rightarrow> deletion_view \<Rightarrow> error + deletion_status" where
  "status_after_mutation db v = status_for_operation db (dv_org v) (dv_id v)"

definition deletion_status :: "db \<Rightarrow> string \<Rightarrow> string \<Rightarrow> error + deletion_status" where
  "deletion_status db org actor =
     rbind (case org_access db org actor of
         Inr access \<Rightarrow> if oa_role access = Owner then Inr True
                       else Inl (Forbidden ''only an organisation owner may inspect deletion'')
       | Inl (NotFound _) \<Rightarrow> Inr False
       | Inl e \<Rightarrow> Inl e) (\<lambda>can_read_active.
     rbind (ok_or (if can_read_active then latest_deletion (\<lambda>d. d_org d = org \<and> d_state d \<noteq> ''completed'') db
                   else latest_deletion (completed_for org actor) db) (NotFound ''deletion not found'')) (\<lambda>d.
     status_for_operation db org (d_id d)))"

definition cancel_tx :: "int \<Rightarrow> string \<Rightarrow> string \<Rightarrow> db \<Rightarrow> error + deletion_view \<times> db" where
  "cancel_tx now org actor db =
     (case find_org db org of
        None \<Rightarrow> Inl (NotFound ''organisation not found'')
      | Some og \<Rightarrow>
          rbind (lifecycle_from_db (o_lifecycle og)) (\<lambda>lifecycle.
          if lifecycle = Deleted then
            (if sql_exists (completed_for org actor) (deletions db)
             then Inl (Conflict ''organisation deletion cannot be cancelled after purge has started'')
             else Inl (NotFound ''organisation not found''))
          else rbind (require_owner db org actor) (\<lambda>_.
          rbind (ok_or (case open_deletion org db of
              Some d \<Rightarrow> Some d
            | None \<Rightarrow> latest_deletion (\<lambda>d. d_org d = org \<and> d_state d = ''cancelled'') db)
            (NotFound ''deletion not found'')) (\<lambda>d.
          rbind (state_from_db (d_state d)) (\<lambda>state.
          if \<not> can_cancel state then
            (if state = Purging
             then Inl (Conflict ''organisation deletion cannot be cancelled after purge has started'')
             else Inr (\<lparr>dv_id = d_id d, dv_org = org, dv_state = state\<rparr>, db))
          else
            rbind (update_deletion (\<lambda>d'. d_id d' = d_id d)
              (\<lambda>d. release (d\<lparr>d_state := ''recovering'', d_resume_state := None, d_attempt_count := 0,
                 d_next_attempt_at := Some now, d_last_error := None\<rparr>)) db) (\<lambda>(_, db).
            Inr (\<lparr>dv_id = d_id d, dv_org = org, dv_state = Recovering\<rparr>,
                 record_tx now org actor ''org.deletion.cancel_requested'' (target_context (d_id d)) db)))))))"

definition cancel :: "int \<Rightarrow> string \<Rightarrow> string \<Rightarrow> db \<Rightarrow> (error + deletion_view) \<times> db" where
  "cancel now org actor db = run_txn (cancel_tx now org actor) db"

subsection \<open>The worker\<close>

definition LEASE :: int where "LEASE = 5 * 60 * SECOND"

definition past :: "int \<Rightarrow> int option \<Rightarrow> bool" where
  "past now t \<longleftrightarrow> (case t of None \<Rightarrow> True | Some t \<Rightarrow> t \<le> now)"

definition claimable_op :: "int \<Rightarrow> deletion_row \<Rightarrow> bool" where
  "claimable_op now d \<longleftrightarrow> past now (d_lease_expires_at d) \<and>
     (d_state d = ''purging'' \<and> d_purge_after d \<le> now \<or>
      d_state d = ''retention'' \<and> d_purge_after d \<le> now \<and> past now (d_next_attempt_at d) \<or>
      d_state d \<in> {''requested'', ''cancelling_billing'', ''recovering''} \<and> past now (d_next_attempt_at d))"

definition due_time :: "deletion_row \<Rightarrow> int" where
  "due_time d = (if d_state d = ''retention'' then d_purge_after d
     else case d_next_attempt_at d of None \<Rightarrow> d_requested_at d | Some t \<Rightarrow> t)"

definition next_due :: "int \<Rightarrow> db \<Rightarrow> deletion_row option" where
  "next_due now db = (case sort_key due_time (sort_key d_id (sql_select (claimable_op now) (deletions db))) of
     [] \<Rightarrow> None | d # _ \<Rightarrow> Some d)"

definition take_lease :: "int \<Rightarrow> string \<Rightarrow> deletion_row \<Rightarrow> deletion_row" where
  "take_lease now worker d = d\<lparr>d_lease_owner := Some worker, d_lease_expires_at := Some (now + LEASE),
     d_state_version := d_state_version d + 1,
     d_attempt_count := d_attempt_count d +
       (if d_state d = ''cancelling_billing'' \<or> d_state d = ''recovering'' \<or>
           d_state d = ''retention'' \<and> d_subscription d \<noteq> None then 1 else 0)\<rparr>"

definition claim_tx :: "int \<Rightarrow> string \<Rightarrow> db \<Rightarrow> error + deletion_row option \<times> db" where
  "claim_tx now worker db = (case next_due now db of
       None \<Rightarrow> Inr (None, db)
     | Some d \<Rightarrow>
         rbind (update_deletion (\<lambda>d'. d_id d' = d_id d) (take_lease now worker) db) (\<lambda>(row, db).
         Inr (row, if d_lease_expires_at d = None then db else increment_tx LEASE_EXPIRIES ''reclaimed'' db)))"

definition claim_due :: "int \<Rightarrow> string \<Rightarrow> db \<Rightarrow> (error + lease option) \<times> db" where
  "claim_due now worker db =
     (if worker = [] then (Inl (Internal ''deletion worker id is empty''), db)
      else case run_txn (claim_tx now worker) db of
          (Inl e, db) \<Rightarrow> (Inl e, db)
        | (Inr None, db) \<Rightarrow> (Inr None, db)
        | (Inr (Some d), db) \<Rightarrow> (rbind (state_from_db (d_state d)) (\<lambda>state.
             Inr (Some \<lparr>ls_id = d_id d, ls_org = d_org d, ls_state = state, ls_subscription = d_subscription d,
               ls_worker = worker, ls_version = d_state_version d, ls_attempts = d_attempt_count d\<rparr>)), db))"

definition audit_worker :: "int \<Rightarrow> lease \<Rightarrow> string \<Rightarrow> string option \<Rightarrow> deletion_row option \<Rightarrow> db \<Rightarrow> db" where
  "audit_worker now l action detail row db = (case row of
       None \<Rightarrow> db
     | Some _ \<Rightarrow> record_tx now (ls_org l) (ls_worker l) action
         (no_context\<lparr>cx_target := Some (ls_id l), cx_detail := detail\<rparr>) db)"

definition transition_state :: "int \<Rightarrow> lease \<Rightarrow> deletion_state \<Rightarrow> db \<Rightarrow> (error + deletion_view option) \<times> db" where
  "transition_state now l nxt db = answer (ls_id l) (run_txn (\<lambda>db.
     rbind (update_deletion (holds_lease l)
       (\<lambda>d. release (d\<lparr>d_state := state_str nxt, d_next_attempt_at := Some now\<rparr>)) db) (\<lambda>(row, db).
     Inr (row, stale_counter row db))) db)"

definition count_attempt :: "string option \<Rightarrow> string option \<Rightarrow> db \<Rightarrow> db" where
  "count_attempt metric outcome db = (case (metric, outcome) of
     (Some m, Some out) \<Rightarrow> increment_tx m out db | _ \<Rightarrow> db)"

definition schedule_retry ::
    "int \<Rightarrow> lease \<Rightarrow> string option \<Rightarrow> int \<Rightarrow> string option \<Rightarrow> string option \<Rightarrow> db \<Rightarrow> (error + deletion_view option) \<times> db" where
  "schedule_retry now l code delay metric outcome db = answer (ls_id l) (run_txn (\<lambda>db.
     rbind (update_deletion (holds_lease l)
       (\<lambda>d. release (d\<lparr>d_next_attempt_at := Some (now + delay * SECOND), d_last_error := code\<rparr>)) db) (\<lambda>(row, db).
     Inr (row, stale_counter row (count_attempt metric outcome db)))) db)"

definition fail_attempt ::
    "int \<Rightarrow> lease \<Rightarrow> string \<Rightarrow> string option \<Rightarrow> string option \<Rightarrow> db \<Rightarrow> (error + deletion_view option) \<times> db" where
  "fail_attempt now l code metric outcome db = answer (ls_id l) (run_txn (\<lambda>db.
     rbind (update_deletion (holds_lease l)
       (\<lambda>d. release (d\<lparr>d_state := ''failed'', d_resume_state := Some (state_str (ls_state l)),
          d_next_attempt_at := None, d_last_error := Some code\<rparr>)) db) (\<lambda>(row, db).
     Inr (row, stale_counter row (audit_worker now l ''org.deletion.failed'' (Some code) row
       (count_attempt metric outcome db))))) db)"

definition handle_provider_error ::
    "int \<Rightarrow> lease \<Rightarrow> provider_error_kind \<Rightarrow> string option \<Rightarrow> db \<Rightarrow> (error + deletion_view option) \<times> db" where
  "handle_provider_error now l kind code db =
     (let metric = provider_metric_for_state (ls_state l); outcome = Some (provider_error_outcome kind) in
      case provider_retry_decision kind (ls_attempts l) of
        Retry _ \<Rightarrow>
          (case retry_delay_with_jitter (ls_id l) (ls_attempts l) of
             None \<Rightarrow> (Inl (Internal ''retry delay unexpectedly exhausted''), db)
           | Some delay \<Rightarrow> schedule_retry now l code delay metric outcome db)
      | Fail \<Rightarrow>
          fail_attempt now l (if kind = Authentication then ''billing_unavailable''
            else case code of None \<Rightarrow> ''provider_error'' | Some c \<Rightarrow> c) metric outcome db)"

text \<open>What an observation of the provider writes.\<close>

definition observed :: "int \<Rightarrow> purge_gate \<Rightarrow> deletion_row \<Rightarrow> deletion_row" where
  "observed now gate d = d\<lparr>d_billing_state := Some (billing_state_name gate), d_attempt_count := 0,
     d_billing_checked_at := Some now, d_billing_source := Some ''provider''\<rparr>"

definition finish_billing :: "int \<Rightarrow> lease \<Rightarrow> observation \<Rightarrow> db \<Rightarrow> (error + deletion_view option) \<times> db" where
  "finish_billing now l obs db =
     (let gate = obs_gate obs in
      case billing_transition gate of
        Some nxt \<Rightarrow> answer (ls_id l) (run_txn (\<lambda>db.
          rbind (update_deletion (holds_lease l)
            (\<lambda>d. release ((observed now gate d)\<lparr>d_state := state_str nxt, d_next_attempt_at := None\<rparr>)) db) (\<lambda>(row, db).
          Inr (row, stale_counter row (audit_worker now l ''org.deletion.billing_cancelled'' (Some (billing_state_name gate)) row
            (if ls_subscription l = None then db
             else increment_tx PROVIDER_CANCELLATION_ATTEMPTS (billing_state_name gate) db))))) db)
      | None \<Rightarrow> handle_provider_error now l KindUnknown
          (Some (if gate = Blocking then ''billing_still_blocking'' else ''billing_status_unknown'')) db)"

definition recovery_tier :: "observation \<Rightarrow> string option" where
  "recovery_tier obs = (case obs of
       ObsMissing \<Rightarrow> Some ''free''
     | Current s \<Rightarrow> if status_gate (sn_status s) = GateUnknown then None else Some (entitlement_tier (sn_status s)))"

definition thaw :: "string \<Rightarrow> string \<Rightarrow> db \<Rightarrow> db" where
  "thaw org tier db = db\<lparr>orgs := sql_update (\<lambda>og. o_id og = org \<and> o_lifecycle og = ''deleting'')
     (\<lambda>og. og\<lparr>o_lifecycle := ''active'', o_tier := tier\<rparr>) (orgs db)\<rparr>"

definition finish_recovery :: "int \<Rightarrow> lease \<Rightarrow> observation \<Rightarrow> db \<Rightarrow> (error + deletion_view option) \<times> db" where
  "finish_recovery now l obs db =
     (let gate = obs_gate obs in
      case recovery_tier obs of
        None \<Rightarrow> handle_provider_error now l KindUnknown (Some ''billing_status_unknown'') db
      | Some tier \<Rightarrow> answer (ls_id l) (run_txn (\<lambda>db.
          rbind (update_deletion (holds_lease l)
            (\<lambda>d. release ((observed now gate d)\<lparr>d_state := ''cancelled'', d_cancelled_at := Some now,
               d_next_attempt_at := None\<rparr>)) db) (\<lambda>(row, db).
          let db = (if ls_subscription l = None then db
                    else increment_tx PROVIDER_RECONCILIATION_ATTEMPTS (billing_state_name gate) db)
          in Inr (row, case row of
               None \<Rightarrow> stale_counter row db
             | Some _ \<Rightarrow> audit_worker now l ''org.deletion.recovery_completed'' (Some tier) row (thaw (ls_org l) tier db)))) db))"

definition advance_billing ::
    "int \<Rightarrow> provider option \<Rightarrow> lease \<Rightarrow> bool \<Rightarrow> db \<Rightarrow> (error + deletion_view option) \<times> db" where
  "advance_billing now P l recovering db = (case ls_subscription l of
       None \<Rightarrow> if recovering then finish_recovery now l ObsMissing db else finish_billing now l ObsMissing db
     | Some sub \<Rightarrow>
         (case P of
            None \<Rightarrow> fail_attempt now l ''billing_unavailable'' None None db
          | Some p \<Rightarrow>
              (case (if recovering then pv_get p sub else pv_cancel p sub (''org-deletion-'' @ ls_id l) (ls_org l)) of
                 Inr obs \<Rightarrow> if recovering then finish_recovery now l obs db else finish_billing now l obs db
               | Inl e \<Rightarrow> handle_provider_error now l (pe_kind e) (pe_code e) db)))"

subsection \<open>The end of the retention window\<close>

text \<open>SQL's three-valued conjunction; a \<open>NULL\<close> where the code expects a boolean is a database error.\<close>

fun sql_and :: "bool option \<Rightarrow> bool option \<Rightarrow> bool option" where
  "sql_and (Some True) b = b"
| "sql_and (Some False) b = Some False"
| "sql_and None b = (if b = Some False then Some False else None)"

definition decode_bool :: "bool option \<Rightarrow> error + bool" where
  "decode_bool b = ok_or b (Db ''unexpected null'')"

definition checked_recently :: "int \<Rightarrow> deletion_row \<Rightarrow> bool option" where
  "checked_recently now d = map_option (\<lambda>t. now - BILLING_OBSERVATION_MAX_AGE * SECOND \<le> t) (d_billing_checked_at d)"

definition operator_observation_is_fresh :: "int \<Rightarrow> lease \<Rightarrow> db \<Rightarrow> error + bool" where
  "operator_observation_is_fresh now l db = (case sql_find (holds_lease l) (deletions db) of
       None \<Rightarrow> Inr False
     | Some d \<Rightarrow> decode_bool (sql_and (sql_and (map_option (\<lambda>s. s = ''operator'') (d_billing_source d))
         (map_option (\<lambda>s. s \<in> {''terminal'', ''missing''}) (d_billing_state d))) (checked_recently now d)))"

definition purge_due :: "int \<Rightarrow> deletion_row \<Rightarrow> bool" where
  "purge_due now d \<longleftrightarrow> d_purge_after d \<le> now"

definition start_purge :: "int \<Rightarrow> deletion_row \<Rightarrow> deletion_row" where
  "start_purge now d = d\<lparr>d_state := ''purging'', d_attempt_count := 0, d_next_attempt_at := None,
     d_purge_started_at := Some (case d_purge_started_at d of None \<Rightarrow> now | Some t \<Rightarrow> t)\<rparr>"

definition enter_purging :: "int \<Rightarrow> lease \<Rightarrow> db \<Rightarrow> (error + deletion_view option) \<times> db" where
  "enter_purging now l db = answer (ls_id l) (run_txn (\<lambda>db.
     rbind (update_deletion (\<lambda>d. holds_lease l d \<and> d_state d = ''retention'' \<and> purge_due now d)
       (\<lambda>d. release ((start_purge now d)\<lparr>d_billing_checked_at :=
          (if d_subscription d = None then Some now else d_billing_checked_at d)\<rparr>)) db) (\<lambda>(row, db).
     Inr (row, stale_counter row (audit_worker now l ''org.deletion.purge_started'' None row db)))) db)"

definition finish_retention_reconciliation ::
    "int \<Rightarrow> lease \<Rightarrow> observation \<Rightarrow> db \<Rightarrow> (error + deletion_view option) \<times> db" where
  "finish_retention_reconciliation now l obs db =
     (let gate = obs_gate obs; count = increment_tx PROVIDER_RECONCILIATION_ATTEMPTS (billing_state_name gate) in
      case gate of
        GateUnknown \<Rightarrow> handle_provider_error now l KindUnknown (Some ''billing_status_unknown'') db
      | Blocking \<Rightarrow> answer (ls_id l) (run_txn (\<lambda>db.
          rbind (update_deletion (holds_lease l)
            (\<lambda>d. release ((observed now gate d)\<lparr>d_state := ''cancelling_billing'', d_next_attempt_at := Some now\<rparr>)) db)
            (\<lambda>(row, db). Inr (row, stale_counter row (count db)))) db)
      | _ \<Rightarrow> answer (ls_id l) (run_txn (\<lambda>db.
          rbind (update_deletion (\<lambda>d. holds_lease l d \<and> purge_due now d)
            (\<lambda>d. release (start_purge now (observed now gate d))) db) (\<lambda>(row, db).
          Inr (row, audit_worker now l ''org.deletion.purge_started'' None row (stale_counter row (count db))))) db))"

text \<open>The operator's reading runs before the transaction, on an earlier state \<open>db0\<close> at \<open>now0\<close>.\<close>

definition advance_retention ::
    "int \<Rightarrow> db \<Rightarrow> int \<Rightarrow> provider option \<Rightarrow> lease \<Rightarrow> db \<Rightarrow> (error + deletion_view option) \<times> db" where
  "advance_retention now0 db0 now P l db = (case ls_subscription l of
       None \<Rightarrow> enter_purging now l db
     | Some sub \<Rightarrow>
         (case P of
            None \<Rightarrow>
              (case operator_observation_is_fresh now0 l db0 of
                 Inl e \<Rightarrow> (Inl e, db)
               | Inr fresh \<Rightarrow> if fresh then enter_purging now l db
                              else fail_attempt now l ''billing_unavailable'' None None db)
          | Some p \<Rightarrow>
              (case pv_get p sub of
                 Inr obs \<Rightarrow> finish_retention_reconciliation now l obs db
               | Inl e \<Rightarrow> handle_provider_error now l (pe_kind e) (pe_code e) db)))"

subsection \<open>The purge\<close>

definition purge_gate_ok :: "deletion_row \<Rightarrow> org_row \<Rightarrow> bool" where
  "purge_gate_ok d og \<longleftrightarrow> d_state d = ''purging'' \<and> o_lifecycle og = ''deleting'' \<and> d_billing_checked_at d \<noteq> None \<and>
     d_billing_state d \<in> {Some ''terminal'', Some ''missing''} \<and>
     \<not> (d_subscription d = None \<and> o_stripe_subscription og \<noteq> None) \<and>
     \<not> (d_subscription d \<noteq> None \<and> o_stripe_subscription og \<noteq> None \<and> o_stripe_subscription og \<noteq> d_subscription d)"

definition fresh_observation :: "int \<Rightarrow> deletion_row \<Rightarrow> bool option" where
  "fresh_observation now d = sql_and (checked_recently now d)
     (map_option (\<lambda>s. s \<in> {''provider'', ''operator''}) (d_billing_source d))"

text \<open>\<open>DELETE FROM projects WHERE org_id = ...\<close> with the cascades of the foreign keys below it.\<close>

definition org_project :: "string \<Rightarrow> project_row \<Rightarrow> bool" where
  "org_project org p \<longleftrightarrow> p_org p = Some org"

definition doomed_envs :: "string \<Rightarrow> db \<Rightarrow> string set" where
  "doomed_envs org db = e_id ` {e \<in> set (envs db). e_project e \<in> p_id ` {p \<in> set (projects db). org_project org p}}"

definition delete_projects :: "string \<Rightarrow> db \<Rightarrow> db" where
  "delete_projects org db =
     (let gone = doomed_envs org db; gone_secrets = s_id ` {s \<in> set (secrets db). s_env s \<in> gone} in db\<lparr>
        projects := sql_delete (org_project org) (projects db),
        envs := sql_delete (\<lambda>e. e_id e \<in> gone) (envs db),
        grants := sql_delete (\<lambda>g. g_env g \<in> gone) (grants db),
        secrets := sql_delete (\<lambda>s. s_env s \<in> gone) (secrets db),
        versions := sql_delete (\<lambda>v. v_secret v \<in> gone_secrets) (versions db),
        tokens := sql_delete (\<lambda>t. t_env t \<in> gone) (tokens db)\<rparr>)"

definition delete_members :: "string \<Rightarrow> db \<Rightarrow> db" where
  "delete_members org db = db\<lparr>members := sql_delete (\<lambda>m. m_org m = org) (members db)\<rparr>"

definition tombstone :: "int \<Rightarrow> org_row \<Rightarrow> org_row" where
  "tombstone now og = og\<lparr>o_lifecycle := ''deleted'', o_deleted_at := Some now, o_enc_name := None,
     o_created_by := None, o_tier := ''free'', o_trial_ends_at := None,
     o_stripe_customer := None, o_stripe_subscription := None\<rparr>"

definition entomb :: "int \<Rightarrow> string \<Rightarrow> db \<Rightarrow> db" where
  "entomb now org db = db\<lparr>orgs := sql_update (\<lambda>og. o_id og = org \<and> o_lifecycle og = ''deleting'') (tombstone now) (orgs db)\<rparr>"

text \<open>The clock moves on during the deletes: \<open>done_at\<close> is \<open>clock_timestamp()\<close>.\<close>

definition purge_refused :: "int \<Rightarrow> lease \<Rightarrow> db \<Rightarrow> error + deletion_row option \<times> db" where
  "purge_refused now l db =
     rbind (update_deletion (holds_lease l)
       (\<lambda>d. release (d\<lparr>d_state := ''failed'', d_resume_state := Some ''purging'',
          d_last_error := Some ''purge_precondition_failed'', d_next_attempt_at := None\<rparr>)) db) (\<lambda>(row, db).
     Inr (row, case row of
         None \<Rightarrow> db
       | Some d \<Rightarrow> record_tx now (d_org d) (ls_worker l) ''org.deletion.failed''
           (no_context\<lparr>cx_target := Some (ls_id l), cx_detail := Some ''purge_precondition_failed''\<rparr>)
           (increment_tx PURGE_ATTEMPTS ''failed'' db)))"

definition purge_committed :: "int \<Rightarrow> int \<Rightarrow> lease \<Rightarrow> string \<Rightarrow> db \<Rightarrow> error + deletion_row option \<times> db" where
  "purge_committed now done_at l org db =
     (let db = entomb now org (delete_members org (delete_projects org db));
          db = record_tx now org (ls_worker l) ''org.deletion.completed'' (target_context (ls_id l)) db in
      rbind (update_deletion (holds_lease l)
        (\<lambda>d. release (d\<lparr>d_state := ''completed'', d_completed_at := Some done_at\<rparr>)) db) (\<lambda>(row, db).
      Inr (row, case row of None \<Rightarrow> db | Some _ \<Rightarrow> increment_tx PURGE_ATTEMPTS ''completed'' db)))"

definition purge_tx :: "int \<Rightarrow> int \<Rightarrow> lease \<Rightarrow> db \<Rightarrow> error + deletion_row option \<times> db" where
  "purge_tx now done_at l db =
     (case sql_find (holds_lease l) (deletions db) of
        None \<Rightarrow> Inr (None, increment_tx STALE_COMPARE_AND_SET ''rejected'' db)
      | Some d \<Rightarrow>
          (case find_org db (d_org d) of
             None \<Rightarrow> Inr (None, increment_tx STALE_COMPARE_AND_SET ''rejected'' db)
           | Some og \<Rightarrow>
               rbind (decode_bool (fresh_observation now d)) (\<lambda>fresh.
               if purge_gate_ok d og \<and> purge_due now d \<and> fresh
               then purge_committed now done_at l (d_org d) db
               else purge_refused now l db)))"

definition purge :: "int \<Rightarrow> int \<Rightarrow> lease \<Rightarrow> db \<Rightarrow> (error + deletion_view option) \<times> db" where
  "purge now done_at l db = answer (ls_id l) (run_txn (purge_tx now done_at l) db)"

definition advance ::
    "int \<Rightarrow> db \<Rightarrow> int \<Rightarrow> int \<Rightarrow> provider option \<Rightarrow> lease \<Rightarrow> db \<Rightarrow> (error + deletion_view option) \<times> db" where
  "advance now0 db0 now done_at P l db = (case ls_state l of
       Requested \<Rightarrow> transition_state now l CancellingBilling db
     | CancellingBilling \<Rightarrow> advance_billing now P l False db
     | Recovering \<Rightarrow> advance_billing now P l True db
     | Retention \<Rightarrow> advance_retention now0 db0 now P l db
     | Purging \<Rightarrow> purge now done_at l db
     | _ \<Rightarrow> (Inr None, db))"

text \<open>One turn of the worker, when nothing comes between the claim and the transition.\<close>

definition run_once :: "int \<Rightarrow> int \<Rightarrow> string \<Rightarrow> provider option \<Rightarrow> db \<Rightarrow> (error + bool) \<times> db" where
  "run_once now done_at worker P db = (case claim_due now worker db of
       (Inl e, db) \<Rightarrow> (Inl e, db)
     | (Inr None, db) \<Rightarrow> (Inr False, db)
     | (Inr (Some l), db) \<Rightarrow>
         (case advance now db now done_at P l db of
            (Inl e, db) \<Rightarrow> (Inl e, db) | (Inr _, db) \<Rightarrow> (Inr True, db)))"

subsection \<open>The operator's observation\<close>

definition is_ascii_digit :: "char \<Rightarrow> bool" where "is_ascii_digit = is_digit"

definition sub_text :: "nat \<Rightarrow> nat \<Rightarrow> string \<Rightarrow> string" where
  "sub_text i j s = take (j - i) (drop i s)"

definition digits_at :: "nat \<Rightarrow> nat \<Rightarrow> string \<Rightarrow> bool" where
  "digits_at i j s \<longleftrightarrow> list_all is_ascii_digit (sub_text i j s)"

definition looks_like_rfc3339 :: "string \<Rightarrow> bool" where
  "looks_like_rfc3339 s =
     (if length s < 20 \<or> s ! 4 \<noteq> CHR ''-'' \<or> s ! 7 \<noteq> CHR ''-'' \<or> s ! 10 \<noteq> CHR ''T'' \<or> s ! 13 \<noteq> CHR '':'' \<or> s ! 16 \<noteq> CHR '':''
      then False
      else let zulu = (last s = CHR ''Z'') in
        if \<not> zulu \<and> length s < 25 then False
        else let tz = (if zulu then length s - 1 else length s - 6) in
          if \<not> (digits_at 0 4 s \<and> digits_at 5 7 s \<and> digits_at 8 10 s \<and> digits_at 11 13 s \<and> digits_at 14 16 s \<and> digits_at 17 19 s)
          then False
          else if 19 < tz \<and> (s ! 19 \<noteq> CHR ''.'' \<or> tz = 20) then False
          else if 19 < tz \<and> \<not> digits_at 20 tz s then False
          else if zulu then True
          else tz + 6 \<le> length s \<and> (s ! tz = CHR ''+'' \<or> s ! tz = CHR ''-'') \<and> s ! (tz + 3) = CHR '':'' \<and>
            digits_at (tz + 1) (tz + 3) s \<and> digits_at (tz + 4) (tz + 6) s)"

definition normalise_rfc3339_timestamp :: "(string \<Rightarrow> int option) \<Rightarrow> string \<Rightarrow> string \<Rightarrow> error + int" where
  "normalise_rfc3339_timestamp pg v message =
     (if looks_like_rfc3339 v then ok_or (pg v) (BadRequest message) else Inl (BadRequest message))"

record operator_observation =
  oo_subscription :: string
  oo_status :: string
  oo_observed_at :: string
  oo_reason :: string
  oo_evidence :: string
  oo_backup_expiry_by :: "string option"

definition observed_gate :: "string \<Rightarrow> purge_gate" where
  "observed_gate status = (if status = ''resource_missing'' then Missing else status_gate (status_parse status))"

definition operator_target :: "string \<Rightarrow> db \<Rightarrow> deletion_row option" where
  "operator_target org db =
     (if sql_exists (\<lambda>og. o_id og = org \<and> o_lifecycle og = ''deleting'') (orgs db)
      then sql_find (\<lambda>d. d_org d = org \<and> open_op d) (deletions db) else None)"

definition operator_observed :: "int \<Rightarrow> purge_gate \<Rightarrow> string \<Rightarrow> operator_observation \<Rightarrow> int option \<Rightarrow> deletion_row \<Rightarrow> deletion_row" where
  "operator_observed observed_at gate operator ob expiry d = release (d\<lparr>d_state := ''retention'', d_resume_state := None,
     d_attempt_count := 0, d_billing_state := Some (billing_state_name gate), d_billing_checked_at := Some observed_at,
     d_billing_source := Some ''operator'', d_observed_by := Some operator, d_reason := Some (oo_reason ob),
     d_evidence := Some (oo_evidence ob),
     d_backup_expiry_by := (case expiry of None \<Rightarrow> d_backup_expiry_by d | Some t \<Rightarrow> Some t),
     d_next_attempt_at := None\<rparr>)"

definition backup_expiry :: "(string \<Rightarrow> int option) \<Rightarrow> string option \<Rightarrow> deletion_row \<Rightarrow> error + int option" where
  "backup_expiry pg expiry d = (case expiry of
       None \<Rightarrow> Inr None
     | Some expiry \<Rightarrow>
         rbind (normalise_rfc3339_timestamp pg expiry
           ''managed_backup_expiry_by must be an RFC3339 timestamp with an explicit timezone'') (\<lambda>expiry.
         rbind (require (d_purge_after d < expiry)
           (BadRequest ''managed_backup_expiry_by must be after the purge deadline'')) (\<lambda>_. Inr (Some expiry))))"

definition observation_tx ::
    "(string \<Rightarrow> int option) \<Rightarrow> int \<Rightarrow> string \<Rightarrow> string \<Rightarrow> operator_observation \<Rightarrow> purge_gate \<Rightarrow> db \<Rightarrow>
      error + (string \<times> deletion_row) \<times> db" where
  "observation_tx pg now org operator ob gate db =
     rbind (ok_or (operator_target org db) (NotFound ''deletion not found'')) (\<lambda>d.
     rbind (normalise_rfc3339_timestamp pg (oo_observed_at ob)
       ''observed_at must be an RFC3339 timestamp with an explicit timezone'') (\<lambda>observed_at.
     rbind (backup_expiry pg (oo_backup_expiry_by ob) d) (\<lambda>expiry.
     rbind (require (d_state d \<noteq> ''purging'')
       (Conflict ''organisation deletion cannot be observed after purge has started'')) (\<lambda>_.
     rbind (require (\<not> (d_state d = ''recovering'' \<or> d_resume_state d \<in> {Some ''recovering'', Some ''purging''}))
       (Conflict ''organisation recovery is in progress'')) (\<lambda>_.
     rbind (require (d_subscription d = Some (oo_subscription ob))
       (Conflict ''manual observation does not match the deletion subscription'')) (\<lambda>_.
     rbind (update_deletion (\<lambda>d'. d_id d' = d_id d \<and> d_requested_at d' \<le> observed_at \<and> observed_at \<le> now)
       (operator_observed observed_at gate operator ob expiry) db) (\<lambda>(row, db).
     rbind (ok_or row (BadRequest ''manual observation time must be between the deletion request and now'')) (\<lambda>row.
     Inr ((d_id d, row), record_tx now org operator ''org.deletion.billing_observed''
       (no_context\<lparr>cx_target := Some (oo_subscription ob), cx_detail := Some ''source=operator''\<rparr>) db)))))))))"

definition record_operator_observation ::
    "(string \<Rightarrow> int option) \<Rightarrow> int \<Rightarrow> string \<Rightarrow> string \<Rightarrow> operator_observation \<Rightarrow> db \<Rightarrow> (error + deletion_view) \<times> db" where
  "record_operator_observation pg now org operator ob db =
     (if operator = [] \<or> oo_subscription ob = [] \<or> oo_status ob = [] \<or> oo_observed_at ob = [] \<or> oo_reason ob = [] \<or>
         oo_evidence ob = []
      then (Inl (BadRequest ''operator, subscription, status, observed_at, reason, and evidence are required''), db)
      else let gate = observed_gate (oo_status ob) in
        if \<not> (gate = Terminal \<or> gate = Missing)
        then (Inl (BadRequest ''manual observation must be terminal or missing''), db)
        else case run_txn (observation_tx pg now org operator ob gate) db of
            (Inl e, db) \<Rightarrow> (Inl e, db)
          | (Inr (i, row), db) \<Rightarrow> (view_from_row i row, db))"

subsection \<open>The routes\<close>

text \<open>Bodies are \<open>None\<close> when the JSON extractor refused them. The second state of a handler is the one
  its last read sees, after its transaction.\<close>

record deletion_request =
  dr_confirm_org_id :: "string option"
  dr_acknowledge :: "bool option"

definition request_deletion ::
    "int \<Rightarrow> string \<Rightarrow> int \<Rightarrow> string \<Rightarrow> string \<Rightarrow> deletion_request option \<Rightarrow> db \<Rightarrow> (error + deletion_status) \<times> db" where
  "request_deletion now new_id days user org body db =
     (case rbind (ok_or body (BadRequest ''invalid deletion request'')) (\<lambda>body.
           rbind (ok_or (dr_confirm_org_id body) (BadRequest ''deletion confirmation is required'')) (\<lambda>confirmation.
           rbind (require (dr_acknowledge body = Some True)
             (BadRequest ''subscription cancellation acknowledgement is required'')) (\<lambda>_. Inr confirmation))) of
        Inl e \<Rightarrow> (Inl e, db)
      | Inr confirmation \<Rightarrow>
          (case request_with_retention now new_id org user confirmation days db of
             (Inl e, db) \<Rightarrow> (Inl e, db)
           | (Inr v, db) \<Rightarrow> (status_after_mutation db v, db)))"

definition cancel_deletion :: "int \<Rightarrow> string \<Rightarrow> string \<Rightarrow> db \<Rightarrow> (error + deletion_status) \<times> db" where
  "cancel_deletion now user org db =
     (case cancel now org user db of
        (Inl e, db) \<Rightarrow> (Inl e, db)
      | (Inr v, db) \<Rightarrow> (status_after_mutation db v, db))"

text \<open>The operator's token: \<open>sha\<close> is SHA-256, the digests are compared.\<close>

definition token_matches :: "(string \<Rightarrow> bytes) \<Rightarrow> string \<Rightarrow> string \<Rightarrow> bool" where
  "token_matches sha expected provided \<longleftrightarrow> sha expected = sha provided"

definition record_observation ::
    "(string \<Rightarrow> bytes) \<Rightarrow> (string \<Rightarrow> int option) \<Rightarrow> string option \<Rightarrow> int \<Rightarrow> headers \<Rightarrow> string \<Rightarrow>
      (string \<times> operator_observation) option \<Rightarrow> db \<Rightarrow> (error + deletion_status) \<times> db" where
  "record_observation sha pg token now h org body db =
     (case rbind (ok_or token (NotConfigured ''organisation-deletion operator controls are not enabled'')) (\<lambda>expected.
           rbind (ok_or (bearer_token h) Unauthorized) (\<lambda>provided.
           rbind (require (token_matches sha expected provided) Unauthorized) (\<lambda>_.
           ok_or body (BadRequest ''invalid operator observation'')))) of
        Inl e \<Rightarrow> (Inl e, db)
      | Inr (operator, ob) \<Rightarrow>
          (case record_operator_observation pg now org operator ob db of
             (Inl e, db) \<Rightarrow> (Inl e, db)
           | (Inr v, db) \<Rightarrow> (status_after_mutation db \<lparr>dv_id = dv_id v, dv_org = org, dv_state = dv_state v\<rparr>, db)))"

subsection \<open>States and retries\<close>

interpretation deletion_codec: codec state_str state_from_db
proof unfold_locales
  show "state_from_db (state_str s) = Inr s" for s by (cases s) (simp_all add: state_from_db_def)
qed

lemma state_from_db_Inr [simp]: "state_from_db s = Inr st \<longleftrightarrow> s = state_str st"
proof
  assume "state_from_db s = Inr st"
  then show "s = state_str st" by (auto simp: state_from_db_def split: if_splits)
qed (simp add: deletion_codec.dec_enc)

lemma state_str_eq [simp]: "state_str s = state_str t \<longleftrightarrow> s = t"
  by (rule deletion_codec.enc_inject)

lemma retry_ladder: "retry_delay n = (if n \<le> 1 then Some 60 else if n = 2 then Some 300 else if n = 3 then Some 1800
    else if n = 4 then Some 7200 else if n = 5 then Some 21600 else if n = 6 then Some 86400 else None)"
proof (cases "n \<le> 0")
  case True
  then show ?thesis by (simp add: retry_delay_def RETRY_DELAYS_def)
next
  case False
  define k where "k = nat n - 1"
  with False have k: "n = int (Suc k)" by simp
  consider "k = 0" | "k = 1" | "k = 2" | "k = 3" | "k = 4" | "k = 5" | "6 \<le> k" by linarith
  then show ?thesis
    by cases (simp_all add: k retry_delay_def RETRY_DELAYS_def)
qed

lemma with_jitter:
  assumes "retry_delay_with_jitter operation n = Some d"
  obtains base j where "retry_delay n = Some base" "d = base + j" "0 \<le> j" "j < 30"
proof -
  have "uint (jitter_hash operation mod 30) < 30" by (simp add: uint_mod)
  with assms that show ?thesis by (auto simp: retry_delay_with_jitter_def)
qed

text \<open>The retries of one phase are bounded and spread: the first six attempts wait between a minute
  and a day and a half minute, each longer than the one before whatever the jitter, and the seventh
  failure is final.\<close>

theorem retries_bounded:
  "(retry_delay_with_jitter operation n = None \<longleftrightarrow> 6 < n) \<and>
    (1 \<le> n \<and> n < m \<and> retry_delay_with_jitter operation n = Some d \<and> retry_delay_with_jitter operation' m = Some d' \<longrightarrow> d < d') \<and>
    (retry_delay_with_jitter operation n = Some d \<longrightarrow> 60 \<le> d \<and> d < 86400 + 30) \<and>
    (kind \<noteq> Authentication \<longrightarrow> (provider_retry_decision kind n = Fail \<longleftrightarrow> 6 < n))"
proof -
  have p1: "retry_delay_with_jitter operation n = None \<longleftrightarrow> 6 < n"
    by (auto simp: retry_delay_with_jitter_def retry_ladder)
  have p2: "d < d'" if a: "1 \<le> n" "n < m" "retry_delay_with_jitter operation n = Some d"
    "retry_delay_with_jitter operation' m = Some d'"
  proof -
    obtain base j where b: "retry_delay n = Some base" "d = base + j" "0 \<le> j" "j < 30" using with_jitter [OF a(3)] .
    obtain base' j' where "retry_delay m = Some base'" "d' = base' + j'" "0 \<le> j'" "j' < 30" using with_jitter [OF a(4)] .
    with b a(1,2) show ?thesis by (simp add: retry_ladder split: if_splits)
  qed
  have p3: "60 \<le> d \<and> d < 86400 + 30" if a: "retry_delay_with_jitter operation n = Some d"
  proof -
    obtain base j where "retry_delay n = Some base" "d = base + j" "0 \<le> j" "j < 30" using with_jitter [OF a] .
    then show ?thesis by (simp add: retry_ladder split: if_splits)
  qed
  have p4: "provider_retry_decision kind n = Fail \<longleftrightarrow> 6 < n" if "kind \<noteq> Authentication"
    using that by (auto simp: provider_retry_decision_def retry_ladder)
  show ?thesis by ((rule p1 p2 p3 p4 conjI impI | assumption | erule conjE)+)
qed

theorem retries_bounded_witness: "(60 :: int) \<le> 60 + uint (jitter_hash ''op'' mod 30)"
  using retries_bounded [of "''op''" 1 2 "60 + uint (jitter_hash ''op'' mod 30)", THEN conjunct2, THEN conjunct2, THEN conjunct1]
  by (simp add: retry_delay_with_jitter_def retry_ladder)

subsection \<open>Writes to the table\<close>

lemma update_deletion_Inr:
  "update_deletion p f db = Inr (row, db') \<longleftrightarrow>
     (case sql_find p (deletions db) of
        None \<Rightarrow> row = None \<and> db' = db
      | Some d \<Rightarrow> deletion_checks (f d) \<and> row = Some (f d) \<and> db' = db\<lparr>deletions := sql_update p f (deletions db)\<rparr>)"
  by (auto simp: update_deletion_def rbind_eq_Inr_iff split: option.splits)

lemma increment_tx_frame [simp]:
  "users (increment_tx m out db) = users db" "orgs (increment_tx m out db) = orgs db"
  "members (increment_tx m out db) = members db" "projects (increment_tx m out db) = projects db"
  "envs (increment_tx m out db) = envs db" "grants (increment_tx m out db) = grants db"
  "secrets (increment_tx m out db) = secrets db" "versions (increment_tx m out db) = versions db"
  "tokens (increment_tx m out db) = tokens db" "audit (increment_tx m out db) = audit db"
  "audit_next (increment_tx m out db) = audit_next db" "shares (increment_tx m out db) = shares db"
  "sessions (increment_tx m out db) = sessions db" "login_codes (increment_tx m out db) = login_codes db"
  "oauth_logins (increment_tx m out db) = oauth_logins db" "deletions (increment_tx m out db) = deletions db"
  "webhook_events (increment_tx m out db) = webhook_events db" "watermarks (increment_tx m out db) = watermarks db"
  by (simp_all add: increment_tx_def)

text \<open>Everything but the counters is as before.\<close>

definition counted :: "db \<Rightarrow> db \<Rightarrow> bool" where
  "counted db db' \<longleftrightarrow> db' = db\<lparr>counters := counters db'\<rparr>"

lemma counted_refl [simp]: "counted db db"
  by (simp add: counted_def)

lemma counted_increment [simp]: "counted db (increment_tx m out db)"
  by (simp add: counted_def increment_tx_def)

lemma counted_trans: "counted a b \<Longrightarrow> counted b c \<Longrightarrow> counted a c"
  by (cases a; cases b; cases c) (simp add: counted_def)

lemma counted_helpers [simp]:
  "counted db (stale_counter row db)" "counted db (count_attempt metric outcome db)"
  by (auto simp: stale_counter_def count_attempt_def split: option.splits)

end
