(* ===== verification/Deletion_Machine.thy ===== *)
theory Deletion_Machine
  imports Org_Deletion
begin

text \<open>
  What the operations of \<open>Org_Deletion\<close> do, seen as one machine: the phases of one operation, the
  effect every operation has on the tables (none, one move of one operation, a request, a recovery
  or a purge), the invariant of the deletion table with the organisations' lifecycles, the leases of
  the workers, and the step relation of owners, operators and workers together. Each operation is
  shown to have one of the effects; everything else is proved of the effects.
\<close>

subsection \<open>The machine the operations implement\<close>

text \<open>
  The state of one operation with the state it resumes in after a failure, and the moves between
  them: the worker's, the owner's and the operator's.
\<close>

inductive phase :: "string \<times> string option \<Rightarrow> string \<times> string option \<Rightarrow> bool" where
  stay: "phase s s"
| begin_billing: "phase (''requested'', None) (''cancelling_billing'', None)"
| confirmed: "phase (''cancelling_billing'', None) (''retention'', None)"
| reopened: "phase (''retention'', None) (''cancelling_billing'', None)"
| due: "phase (''retention'', None) (''purging'', None)"
| failing: "s \<in> {''cancelling_billing'', ''retention'', ''purging'', ''recovering''} \<Longrightarrow> phase (s, None) (''failed'', Some s)"
| resumed: "phase (''failed'', Some s) (s, None)"
| cancelled: "s \<in> {''requested'', ''cancelling_billing'', ''retention'', ''failed''} \<Longrightarrow> phase (s, r) (''recovering'', None)"
| operator: "s \<in> {''requested'', ''cancelling_billing'', ''retention'', ''failed''} \<Longrightarrow>
    r \<notin> {Some ''recovering'', Some ''purging''} \<Longrightarrow> phase (s, r) (''retention'', None)"

definition phase_of :: "deletion_row \<Rightarrow> string \<times> string option" where
  "phase_of d = (d_state d, d_resume_state d)"

definition same_operation :: "deletion_row \<Rightarrow> deletion_row \<Rightarrow> bool" where
  "same_operation d d' \<longleftrightarrow> d_id d' = d_id d \<and> d_org d' = d_org d \<and> d_requested_by d' = d_requested_by d \<and>
     d_requested_at d' = d_requested_at d \<and> d_purge_after d' = d_purge_after d \<and> d_subscription d' = d_subscription d \<and>
     d_state_version d' = d_state_version d + 1"

text \<open>Once the purge has started, nothing refreshes the billing observation.\<close>

definition observation_kept :: "deletion_row \<Rightarrow> deletion_row \<Rightarrow> bool" where
  "observation_kept d d' \<longleftrightarrow>
     (d_state d = ''purging'' \<or> d_resume_state d = Some ''purging'' \<longrightarrow> d_billing_checked_at d' = d_billing_checked_at d)"

definition replace_row :: "deletion_row \<Rightarrow> deletion_row \<Rightarrow> deletion_row list \<Rightarrow> deletion_row list" where
  "replace_row d d' t = sql_update (\<lambda>x. d_id x = d_id d) (\<lambda>_. d') t"

text \<open>Apart from organisations and deletions, only the audit log and the counters change.\<close>

definition bookkeeping :: "db \<Rightarrow> db \<Rightarrow> bool" where
  "bookkeeping db db' \<longleftrightarrow> db' = db\<lparr>orgs := orgs db', deletions := deletions db', audit := audit db',
     audit_next := audit_next db', counters := counters db'\<rparr>"

definition no_progress :: "db \<Rightarrow> db \<Rightarrow> bool" where
  "no_progress db db' \<longleftrightarrow> bookkeeping db db' \<and> orgs db' = orgs db \<and> deletions db' = deletions db"

definition purged_tables :: "int \<Rightarrow> string \<Rightarrow> db \<Rightarrow> db" where
  "purged_tables now org db = entomb now org (delete_members org (delete_projects org db))"

inductive deletion_effect :: "int \<Rightarrow> db \<Rightarrow> db \<Rightarrow> bool" for now where
  idle: "no_progress db db' \<Longrightarrow> deletion_effect now db db'"
| moved: "d \<in> set (deletions db) \<Longrightarrow> open_op d \<Longrightarrow> open_op d' \<Longrightarrow> same_operation d d' \<Longrightarrow> deletion_checks d' \<Longrightarrow>
    phase (phase_of d) (phase_of d') \<Longrightarrow> observation_kept d d' \<Longrightarrow> bookkeeping db db' \<Longrightarrow> orgs db' = orgs db \<Longrightarrow>
    deletions db' = replace_row d d' (deletions db) \<Longrightarrow> deletion_effect now db db'"
| requested: "find_org db org = Some og \<Longrightarrow> o_lifecycle og = ''active'' \<Longrightarrow> member_role db org actor = Inr Owner \<Longrightarrow>
    0 < days \<Longrightarrow> d = new_deletion now i org actor days (o_stripe_subscription og) \<Longrightarrow>
    (\<And>x. x \<in> set (deletions db) \<Longrightarrow> d_id x \<noteq> i \<and> \<not> (d_org x = org \<and> open_op x)) \<Longrightarrow>
    bookkeeping db db' \<Longrightarrow> orgs db' = orgs (set_lifecycle org ''deleting'' db) \<Longrightarrow>
    deletions db' = sql_insert d (deletions db) \<Longrightarrow> deletion_effect now db db'"
| recovered: "d \<in> set (deletions db) \<Longrightarrow> d_state d = ''recovering'' \<Longrightarrow> d_state d' = ''cancelled'' \<Longrightarrow>
    same_operation d d' \<Longrightarrow> deletion_checks d' \<Longrightarrow> bookkeeping db db' \<Longrightarrow>
    orgs db' = orgs (thaw (d_org d) tier db) \<Longrightarrow> tier \<in> {''team'', ''free''} \<Longrightarrow>
    deletions db' = replace_row d d' (deletions db) \<Longrightarrow> deletion_effect now db db'"
| purged: "d \<in> set (deletions db) \<Longrightarrow> find_org db (d_org d) = Some og \<Longrightarrow> purge_gate_ok d og \<Longrightarrow> purge_due now d \<Longrightarrow>
    fresh_observation now d = Some True \<Longrightarrow> d_state d' = ''completed'' \<Longrightarrow> same_operation d d' \<Longrightarrow> deletion_checks d' \<Longrightarrow>
    bookkeeping (purged_tables now (d_org d) db) db' \<Longrightarrow> orgs db' = orgs (purged_tables now (d_org d) db) \<Longrightarrow>
    deletions db' = replace_row d d' (deletions db) \<Longrightarrow> deletion_effect now db db'"

subsection \<open>One transition of a leased operation\<close>

lemma bookkeeping_refl [simp]: "bookkeeping db db"
  by (simp add: bookkeeping_def)

lemma bookkeeping_trans: "bookkeeping a b \<Longrightarrow> bookkeeping b c \<Longrightarrow> bookkeeping a c"
  by (cases a; cases b; cases c) (simp add: bookkeeping_def)

lemma bookkeepingD:
  assumes "bookkeeping db db'"
  shows "members db' = members db" "projects db' = projects db" "envs db' = envs db" "grants db' = grants db"
    "tokens db' = tokens db"
  using assms by (cases db; cases db'; simp add: bookkeeping_def)+

lemma bookkeeping_counted: "counted db db' \<Longrightarrow> bookkeeping db db'"
  by (cases db; cases db') (simp add: bookkeeping_def counted_def)

lemma bookkeeping_record [simp]: "bookkeeping db (record_tx now org actor action ctx db)"
  by (simp add: bookkeeping_def record_tx_def)

lemma bookkeeping_tables [simp]:
  "bookkeeping db (db\<lparr>deletions := ds\<rparr>)" "bookkeeping db (set_lifecycle org s db)" "bookkeeping db (thaw org tier db)"
  by (simp_all add: bookkeeping_def set_lifecycle_def thaw_def)

lemma no_progress_refl [simp]: "no_progress db db"
  by (simp add: no_progress_def)

lemma no_progress_trans: "no_progress a b \<Longrightarrow> no_progress b c \<Longrightarrow> no_progress a c"
  by (auto simp: no_progress_def intro: bookkeeping_trans)

lemma no_progress_counted: "counted db db' \<Longrightarrow> no_progress db db'"
  by (cases db; cases db') (simp add: no_progress_def bookkeeping_def counted_def)

lemma counted_same:
  assumes "counted db db'"
  shows "orgs db' = orgs db \<and> deletions db' = deletions db"
  using no_progress_counted [OF assms] by (simp add: no_progress_def)

lemma no_progress_helpers [simp]:
  "no_progress db (increment_tx m out db)" "no_progress db (stale_counter row db)"
  "no_progress db (count_attempt metric outcome db)" "no_progress db (audit_worker now l action detail row db)"
  "no_progress db (record_tx now org actor action ctx db)"
  by (simp_all add: no_progress_counted)
     (auto simp: no_progress_def audit_worker_def split: option.splits)

lemma answer_cases:
  assumes "answer i (run_txn body db) = (r, db')"
  obtains (error) e where "body db = Inl e" "r = Inl e" "db' = db"
    | (missed) "body db = Inr (None, db')" "r = Inr None"
    | (hit) d where "body db = Inr (Some d, db')" "r = rbind (view_from_row i d) (\<lambda>v. Inr (Some v))"
  using assms unfolding answer_def run_txn_def by (auto split: sum.splits option.splits prod.splits)

lemma update_deletion_cases:
  assumes "update_deletion p f db = Inr (row, db')" and "distinct (map d_id (deletions db))"
    and "\<forall>d. p d \<longrightarrow> d_id d = i"
  obtains (missed) "row = None" "db' = db" "\<forall>d \<in> set (deletions db). \<not> p d"
    | (hit) d where "d \<in> set (deletions db)" "p d" "row = Some (f d)" "deletion_checks (f d)"
        "db' = db\<lparr>deletions := replace_row d (f d) (deletions db)\<rparr>"
proof (cases "sql_find p (deletions db)")
  case None
  with assms(1) show ?thesis by (intro missed) (simp_all add: update_deletion_Inr sql_find_None_iff)
next
  case (Some d)
  then have d: "d \<in> set (deletions db)" "p d" by (auto dest: sql_find_SomeD)
  have "(if p x then f x else x) = (if d_id x = d_id d then f d else x)" if x: "x \<in> set (deletions db)" for x
  proof (cases "d_id x = d_id d")
    case True
    then have "x = d" using assms(2) d(1) x by (metis distinct_map inj_onD)
    with d show ?thesis by simp
  next
    case False
    then have "\<not> p x" using assms(3) d(2) by auto
    with False show ?thesis by simp
  qed
  then have "sql_update p f (deletions db) = replace_row d (f d) (deletions db)"
    unfolding sql_update_def replace_row_def by (intro map_cong) simp_all
  with Some assms(1) d show ?thesis by (intro hit [of d]) (simp_all add: update_deletion_Inr)
qed

text \<open>A transition that either finds no row and leaves everything, or replaces the row it found.\<close>

lemma leased_transition:
  assumes "answer i (run_txn (\<lambda>db. rbind (update_deletion p f db) (\<lambda>(row, db). Inr (row, k row db))) db) = (r, db')"
    and "distinct (map d_id (deletions db))" and "\<forall>d. p d \<longrightarrow> d_id d = i"
    and "\<And>db'. no_progress db db' \<Longrightarrow> Q db'" and "no_progress db (k None db)"
    and "\<And>d. d \<in> set (deletions db) \<Longrightarrow> p d \<Longrightarrow> deletion_checks (f d) \<Longrightarrow>
      Q (k (Some (f d)) (db\<lparr>deletions := replace_row d (f d) (deletions db)\<rparr>))"
  shows "Q db'"
  using assms(1)
proof (cases rule: answer_cases)
  case (error e)
  then show ?thesis by (simp add: assms(4))
next
  case missed
  then obtain db1 where "update_deletion p f db = Inr (None, db1)" "db' = k None db1"
    by (auto simp: rbind_eq_Inr_iff)
  from update_deletion_cases [OF this(1) assms(2,3)] this(2) show ?thesis
    by cases (auto intro: assms(4) assms(5))
next
  case (hit d')
  then obtain db1 where u: "update_deletion p f db = Inr (Some d', db1)" and db': "db' = k (Some d') db1"
    by (auto simp: rbind_eq_Inr_iff)
  from update_deletion_cases [OF u assms(2,3)] db' show ?thesis
    by cases (auto intro: assms(6))
qed

subsection \<open>Every operation is a step of the machine\<close>

definition deletions_ok :: "db \<Rightarrow> bool" where
  "deletions_ok db \<longleftrightarrow> distinct (map d_id (deletions db)) \<and> (\<forall>d \<in> set (deletions db). deletion_checks d)"

text \<open>A lease tells the truth as long as it is held.\<close>

definition lease_fits :: "lease \<Rightarrow> db \<Rightarrow> bool" where
  "lease_fits l db \<longleftrightarrow> (\<forall>d \<in> set (deletions db). holds_lease l d \<longrightarrow>
     d_org d = ls_org l \<and> d_state d = state_str (ls_state l) \<and> d_subscription d = ls_subscription l)"

lemma phase_of_live: "deletion_checks d \<Longrightarrow> d_state d \<noteq> ''failed'' \<Longrightarrow> phase_of d = (d_state d, None)"
  by (auto simp: deletion_checks_def phase_of_def)

lemma moved_row:
  assumes "deletions_ok db" and "d \<in> set (deletions db)" and "deletion_checks d'" and "open_op d" and "open_op d'"
    and "same_operation d d'" and "phase (phase_of d) (phase_of d')" and "observation_kept d d'"
    and "no_progress (db\<lparr>deletions := replace_row d d' (deletions db)\<rparr>) db'"
  shows "deletion_effect now db db'"
  using assms bookkeeping_trans [of db "db\<lparr>deletions := replace_row d d' (deletions db)\<rparr>" db']
  by (intro moved [of d db d']) (auto simp: no_progress_def)

lemma no_progress_after [simp]:
  "no_progress a b \<Longrightarrow> no_progress a (increment_tx m out b)"
  "no_progress a b \<Longrightarrow> no_progress a (stale_counter row b)"
  "no_progress a b \<Longrightarrow> no_progress a (count_attempt metric outcome b)"
  "no_progress a b \<Longrightarrow> no_progress a (audit_worker now l action detail row b)"
  "no_progress a b \<Longrightarrow> no_progress a (record_tx now org actor action ctx b)"
  using no_progress_trans by (blast intro: no_progress_helpers)+

lemma transition_state_effect:
  assumes "transition_state now l CancellingBilling db = (r, db')" and "ls_state l = Requested"
    and ok: "deletions_ok db" and fits: "lease_fits l db"
  shows "deletion_effect now db db'"
  using assms(1) unfolding transition_state_def
proof (rule leased_transition)
  fix d let ?d = "release (d\<lparr>d_state := state_str CancellingBilling, d_next_attempt_at := Some now\<rparr>)"
  let ?db = "db\<lparr>deletions := replace_row d ?d (deletions db)\<rparr>"
  assume d: "d \<in> set (deletions db)" "holds_lease l d" "deletion_checks ?d"
  have s: "d_state d = ''requested''" using fits d(1,2) assms(2) by (simp add: lease_fits_def)
  have "phase_of d = (''requested'', None)" "phase_of ?d = (''cancelling_billing'', None)"
    using phase_of_live [of d] phase_of_live [OF d(3)] ok d(1) s by (simp_all add: deletions_ok_def release_def)
  then show "deletion_effect now db (stale_counter (Some ?d) ?db)"
    using d s by (intro moved_row [OF ok, of d ?d]) (auto simp: open_op_def release_def same_operation_def observation_kept_def phase_of_def intro: begin_billing)
qed (use ok in \<open>auto simp: deletions_ok_def holds_lease_def intro: idle\<close>)

lemma schedule_retry_effect:
  assumes "schedule_retry now l code delay metric outcome db = (r, db')"
    and ok: "deletions_ok db" and fits: "lease_fits l db" and "ls_state l \<in> {CancellingBilling, Retention, Recovering}"
  shows "deletion_effect now db db'"
  using assms(1) unfolding schedule_retry_def
proof (rule leased_transition)
  fix d let ?d = "release (d\<lparr>d_next_attempt_at := Some (now + delay * SECOND), d_last_error := code\<rparr>)"
  let ?db = "db\<lparr>deletions := replace_row d ?d (deletions db)\<rparr>"
  assume d: "d \<in> set (deletions db)" "holds_lease l d" "deletion_checks ?d"
  have "open_op d" using fits d(1,2) assms(4) by (auto simp: lease_fits_def open_op_def)
  then show "deletion_effect now db (stale_counter (Some ?d) (count_attempt metric outcome ?db))"
    using d by (intro moved_row [OF ok, of d ?d])
      (auto simp: open_op_def release_def same_operation_def observation_kept_def phase_of_def stay)
qed (use ok in \<open>auto simp: deletions_ok_def holds_lease_def intro: idle\<close>)

lemma fail_attempt_effect:
  assumes "fail_attempt now l code metric outcome db = (r, db')"
    and ok: "deletions_ok db" and fits: "lease_fits l db" and "ls_state l \<in> {CancellingBilling, Retention, Recovering}"
  shows "deletion_effect now db db'"
  using assms(1) unfolding fail_attempt_def
proof (rule leased_transition)
  fix d let ?d = "release (d\<lparr>d_state := ''failed'', d_resume_state := Some (state_str (ls_state l)),
          d_next_attempt_at := None, d_last_error := Some code\<rparr>)"
  let ?db = "db\<lparr>deletions := replace_row d ?d (deletions db)\<rparr>"
  let ?audit = "audit_worker now l ''org.deletion.failed'' (Some code) (Some ?d) (count_attempt metric outcome ?db)"
  assume d: "d \<in> set (deletions db)" "holds_lease l d" "deletion_checks ?d"
  have s: "d_state d = state_str (ls_state l)" using fits d(1,2) by (simp add: lease_fits_def)
  have "phase_of d = (state_str (ls_state l), None)"
    using phase_of_live [of d] ok d(1) s assms(4) by (auto simp: deletions_ok_def)
  moreover have "phase_of ?d = (''failed'', Some (state_str (ls_state l)))" by (simp add: phase_of_def release_def)
  ultimately have ph: "phase (phase_of d) (phase_of ?d)" using assms(4) by (auto intro: failing)
  have "no_progress ?db (stale_counter (Some ?d) ?audit)"
    by simp
  with ph show "deletion_effect now db (stale_counter (Some ?d) ?audit)"
    using d s assms(4) by (intro moved_row [OF ok, of d ?d]) (auto simp: open_op_def release_def same_operation_def observation_kept_def phase_of_def)
qed (use ok in \<open>auto simp: deletions_ok_def holds_lease_def intro: idle\<close>)

lemma handle_provider_error_effect:
  assumes "handle_provider_error now l kind code db = (r, db')"
    and ok: "deletions_ok db" and fits: "lease_fits l db" and live: "ls_state l \<in> {CancellingBilling, Retention, Recovering}"
  shows "deletion_effect now db db'"
  using assms(1) unfolding handle_provider_error_def Let_def
  by (auto split: retry_decision.splits option.splits intro: idle
      schedule_retry_effect [OF _ ok fits live] fail_attempt_effect [OF _ ok fits live])

lemma bookkeeping_after [simp]:
  "bookkeeping a b \<Longrightarrow> bookkeeping a (increment_tx m out b)"
  "bookkeeping a b \<Longrightarrow> bookkeeping a (record_tx now org actor action ctx b)"
  "bookkeeping a b \<Longrightarrow> bookkeeping a (b\<lparr>deletions := ds\<rparr>)"
  "bookkeeping a b \<Longrightarrow> bookkeeping a (set_lifecycle org s b)"
  "bookkeeping a b \<Longrightarrow> bookkeeping a (thaw org tier b)"
  using bookkeeping_trans bookkeeping_counted [OF counted_increment] bookkeeping_record bookkeeping_tables by blast+

lemma finish_billing_effect:
  assumes "finish_billing now l obs db = (r, db')" and "ls_state l = CancellingBilling"
    and ok: "deletions_ok db" and fits: "lease_fits l db"
  shows "deletion_effect now db db'"
proof (cases "billing_transition (obs_gate obs)")
  case None
  then show ?thesis
    using assms(1) handle_provider_error_effect [OF _ ok fits] assms(2)
    by (auto simp: finish_billing_def Let_def)
next
  case (Some nxt)
  then have nxt: "nxt = Retention" by (cases "obs_gate obs") auto
  let ?row = "\<lambda>d. release ((observed now (obs_gate obs) d)\<lparr>d_state := state_str Retention, d_next_attempt_at := None\<rparr>)"
  show ?thesis
    using assms(1) unfolding finish_billing_def Let_def Some option.case nxt
  proof (rule leased_transition)
    fix d assume d: "d \<in> set (deletions db)" "holds_lease l d" "deletion_checks (?row d)"
    have s: "d_state d = ''cancelling_billing''" using fits d(1,2) assms(2) by (simp add: lease_fits_def)
    have "phase_of d = (''cancelling_billing'', None)" "phase_of (?row d) = (''retention'', None)"
      using phase_of_live [of d] phase_of_live [OF d(3)] ok d(1) s by (simp_all add: deletions_ok_def release_def)
    then show "deletion_effect now db (stale_counter (Some (?row d))
        (audit_worker now l ''org.deletion.billing_cancelled'' (Some (billing_state_name (obs_gate obs))) (Some (?row d))
          (if ls_subscription l = None then db\<lparr>deletions := replace_row d (?row d) (deletions db)\<rparr>
           else increment_tx PROVIDER_CANCELLATION_ATTEMPTS (billing_state_name (obs_gate obs))
             (db\<lparr>deletions := replace_row d (?row d) (deletions db)\<rparr>))))"
      using d s by (intro moved_row [OF ok, of d "?row d"])
        (auto simp: open_op_def release_def observed_def same_operation_def observation_kept_def phase_of_def intro: confirmed)
  qed (use ok nxt in \<open>auto simp: deletions_ok_def holds_lease_def intro: idle\<close>)
qed

lemma recovery_tier_values: "recovery_tier obs = Some tier \<Longrightarrow> tier \<in> {''team'', ''free''}"
proof -
  have "entitlement_tier st \<in> {''team'', ''free''}" for st by (cases st) simp_all
  then show "recovery_tier obs = Some tier \<Longrightarrow> tier \<in> {''team'', ''free''}"
    by (auto simp: recovery_tier_def split: observation.splits if_splits)
qed

lemma finish_recovery_effect:
  assumes "finish_recovery now l obs db = (r, db')" and "ls_state l = Recovering"
    and ok: "deletions_ok db" and fits: "lease_fits l db"
  shows "deletion_effect now db db'"
proof (cases "recovery_tier obs")
  case None
  then show ?thesis
    using assms(1) handle_provider_error_effect [OF _ ok fits] assms(2)
    by (auto simp: finish_recovery_def Let_def)
next
  case (Some tier)
  let ?row = "\<lambda>d. release ((observed now (obs_gate obs) d)\<lparr>d_state := ''cancelled'', d_cancelled_at := Some now,
               d_next_attempt_at := None\<rparr>)"
  show ?thesis
    using assms(1) unfolding finish_recovery_def Let_def Some option.case
  proof (rule leased_transition)
    fix d assume d: "d \<in> set (deletions db)" "holds_lease l d" "deletion_checks (?row d)"
    have s: "d_state d = ''recovering''" "d_org d = ls_org l"
      using fits d(1,2) assms(2) by (simp_all add: lease_fits_def)
    let ?db = "db\<lparr>deletions := replace_row d (?row d) (deletions db)\<rparr>"
    let ?db1 = "if ls_subscription l = None then ?db
      else increment_tx PROVIDER_RECONCILIATION_ATTEMPTS (billing_state_name (obs_gate obs)) ?db"
    have "bookkeeping db (audit_worker now l ''org.deletion.recovery_completed'' (Some tier) (Some (?row d)) (thaw (ls_org l) tier ?db1))"
      by (simp add: audit_worker_def)
    then show "deletion_effect now db (case Some (?row d) of None \<Rightarrow> stale_counter (Some (?row d)) ?db1
        | Some _ \<Rightarrow> audit_worker now l ''org.deletion.recovery_completed'' (Some tier) (Some (?row d)) (thaw (ls_org l) tier ?db1))"
      using d s recovery_tier_values [OF Some]
      by (intro recovered [of d db "?row d" _ tier])
        (auto simp: release_def observed_def same_operation_def observation_kept_def phase_of_def audit_worker_def thaw_def)
  qed (use ok in \<open>auto simp: deletions_ok_def holds_lease_def intro: idle\<close>)
qed

lemma advance_billing_effect:
  assumes "advance_billing now P l recovering db = (r, db')"
    and "ls_state l = (if recovering then Recovering else CancellingBilling)"
    and ok: "deletions_ok db" and fits: "lease_fits l db"
  shows "deletion_effect now db db'"
  using assms(1,2) unfolding advance_billing_def
  by (auto split: option.splits sum.splits if_splits intro: finish_recovery_effect [OF _ _ ok fits]
      finish_billing_effect [OF _ _ ok fits] fail_attempt_effect [OF _ ok fits] handle_provider_error_effect [OF _ ok fits])

lemma enter_purging_effect:
  assumes "enter_purging now l db = (r, db')" and ok: "deletions_ok db"
  shows "deletion_effect now db db'"
  using assms(1) unfolding enter_purging_def
proof (rule leased_transition)
  let ?row = "\<lambda>d. release ((start_purge now d)\<lparr>d_billing_checked_at :=
          (if d_subscription d = None then Some now else d_billing_checked_at d)\<rparr>)"
  fix d assume d: "d \<in> set (deletions db)" "holds_lease l d \<and> d_state d = ''retention'' \<and> purge_due now d" "deletion_checks (?row d)"
  have "phase_of d = (''retention'', None)" "phase_of (?row d) = (''purging'', None)"
    using phase_of_live [of d] phase_of_live [OF d(3)] ok d(1,2) by (simp_all add: deletions_ok_def release_def start_purge_def)
  then show "deletion_effect now db (stale_counter (Some (?row d)) (audit_worker now l ''org.deletion.purge_started'' None (Some (?row d))
      (db\<lparr>deletions := replace_row d (?row d) (deletions db)\<rparr>)))"
    using d by (intro moved_row [OF ok, of d "?row d"])
      (auto simp: open_op_def release_def start_purge_def same_operation_def observation_kept_def phase_of_def intro: due)
qed (use ok in \<open>auto simp: deletions_ok_def holds_lease_def intro: idle\<close>)

lemma finish_retention_effect:
  assumes "finish_retention_reconciliation now l obs db = (r, db')" and "ls_state l = Retention"
    and ok: "deletions_ok db" and fits: "lease_fits l db"
  shows "deletion_effect now db db'"
proof -
  have s: "phase_of d = (''retention'', None)" "d_state d = ''retention''" if "d \<in> set (deletions db)" "holds_lease l d" for d
  proof -
    show "d_state d = ''retention''" using that fits assms(2) by (simp add: lease_fits_def)
    then show "phase_of d = (''retention'', None)" using phase_of_live [of d] ok that(1) by (simp add: deletions_ok_def)
  qed
  let ?purge = "\<lambda>d. release (start_purge now (observed now (obs_gate obs) d))"
  have purge: "deletion_effect now db db'"
    if "answer (ls_id l) (run_txn (\<lambda>db.
          rbind (update_deletion (\<lambda>d. holds_lease l d \<and> purge_due now d) ?purge db) (\<lambda>(row, db).
          Inr (row, audit_worker now l ''org.deletion.purge_started'' None row (stale_counter row
            (increment_tx PROVIDER_RECONCILIATION_ATTEMPTS (billing_state_name (obs_gate obs)) db))))) db) = (r, db')"
    using that
  proof (rule leased_transition)
    fix d assume d: "d \<in> set (deletions db)" "holds_lease l d \<and> purge_due now d" "deletion_checks (?purge d)"
    have "phase_of (?purge d) = (''purging'', None)"
      using phase_of_live [OF d(3)] by (simp add: release_def start_purge_def)
    with d s [OF d(1)] show "deletion_effect now db (audit_worker now l ''org.deletion.purge_started'' None (Some (?purge d)) (stale_counter (Some (?purge d))
        (increment_tx PROVIDER_RECONCILIATION_ATTEMPTS (billing_state_name (obs_gate obs)) (db\<lparr>deletions := replace_row d (?purge d) (deletions db)\<rparr>))))"
      by (intro moved_row [OF ok, of d "?purge d"])
        (auto simp: open_op_def release_def start_purge_def observed_def same_operation_def observation_kept_def phase_of_def intro: due)
  qed (use ok in \<open>auto simp: deletions_ok_def holds_lease_def intro: idle\<close>)
  let ?reopen = "\<lambda>d. release ((observed now Blocking d)\<lparr>d_state := ''cancelling_billing'', d_next_attempt_at := Some now\<rparr>)"
  have reopen: "deletion_effect now db db'"
    if "answer (ls_id l) (run_txn (\<lambda>db.
          rbind (update_deletion (holds_lease l) ?reopen db) (\<lambda>(row, db).
          Inr (row, stale_counter row (increment_tx PROVIDER_RECONCILIATION_ATTEMPTS (billing_state_name Blocking) db)))) db) = (r, db')"
    using that
  proof (rule leased_transition)
    fix d assume d: "d \<in> set (deletions db)" "holds_lease l d" "deletion_checks (?reopen d)"
    have "phase_of (?reopen d) = (''cancelling_billing'', None)"
      using phase_of_live [OF d(3)] by (simp add: release_def)
    with d s [OF d(1)] show "deletion_effect now db (stale_counter (Some (?reopen d))
        (increment_tx PROVIDER_RECONCILIATION_ATTEMPTS (billing_state_name Blocking) (db\<lparr>deletions := replace_row d (?reopen d) (deletions db)\<rparr>)))"
      by (intro moved_row [OF ok, of d "?reopen d"])
        (auto simp: open_op_def release_def observed_def same_operation_def observation_kept_def phase_of_def intro: reopened)
  qed (use ok in \<open>auto simp: deletions_ok_def holds_lease_def intro: idle\<close>)
  show ?thesis
  proof (cases "obs_gate obs")
    case GateUnknown
    then show ?thesis using assms(1,2) handle_provider_error_effect [OF _ ok fits]
      by (simp add: finish_retention_reconciliation_def)
  next
    case Blocking
    then show ?thesis using assms(1) reopen by (simp add: finish_retention_reconciliation_def)
  next
    case Terminal
    then show ?thesis using assms(1) purge by (simp add: finish_retention_reconciliation_def)
  next
    case Missing
    then show ?thesis using assms(1) purge by (simp add: finish_retention_reconciliation_def)
  qed
qed

lemma advance_retention_effect:
  assumes "advance_retention now0 db0 now P l db = (r, db')" and "ls_state l = Retention"
    and ok: "deletions_ok db" and fits: "lease_fits l db"
  shows "deletion_effect now db db'"
  using assms(1,2) unfolding advance_retention_def
  by (auto split: option.splits sum.splits if_splits intro: idle enter_purging_effect [OF _ ok]
      finish_retention_effect [OF _ _ ok fits] fail_attempt_effect [OF _ ok fits] handle_provider_error_effect [OF _ ok fits])

lemma purge_refused_effect:
  assumes "purge_refused now l db = Inr (row, db')" and "ls_state l = Purging"
    and ok: "deletions_ok db" and fits: "lease_fits l db"
  shows "deletion_effect now db db'"
proof -
  let ?row = "\<lambda>d. release (d\<lparr>d_state := ''failed'', d_resume_state := Some ''purging'',
          d_last_error := Some ''purge_precondition_failed'', d_next_attempt_at := None\<rparr>)"
  obtain db1 where u: "update_deletion (holds_lease l) ?row db = Inr (row, db1)"
    and db': "db' = (case row of None \<Rightarrow> db1 | Some d \<Rightarrow> record_tx now (d_org d) (ls_worker l) ''org.deletion.failed''
           (no_context\<lparr>cx_target := Some (ls_id l), cx_detail := Some ''purge_precondition_failed''\<rparr>)
           (increment_tx PURGE_ATTEMPTS ''failed'' db1))"
    using assms(1) by (auto simp: purge_refused_def rbind_eq_Inr_iff)
  have ids: "distinct (map d_id (deletions db))" "\<forall>d. holds_lease l d \<longrightarrow> d_id d = ls_id l"
    using ok by (simp_all add: deletions_ok_def holds_lease_def)
  show ?thesis
  using u ids
  proof (cases rule: update_deletion_cases)
    case missed
    with db' show ?thesis by (auto intro: idle)
  next
    case (hit d)
    have s: "d_state d = ''purging''" using fits hit(1,2) assms(2) by (simp add: lease_fits_def)
    then have "phase_of d = (''purging'', None)" using phase_of_live [of d] ok hit(1) by (simp add: deletions_ok_def)
    moreover have "phase_of (?row d) = (''failed'', Some ''purging'')" by (simp add: phase_of_def release_def)
    ultimately show ?thesis
      using hit s by (intro moved_row [OF ok, of d "?row d"])
        (auto simp: db' open_op_def release_def same_operation_def observation_kept_def phase_of_def intro: failing)
  qed
qed

lemma purge_committed_effect:
  assumes "purge_committed now done_at l (d_org d) db = Inr (row, db')"
    and ok: "deletions_ok db" and d: "d \<in> set (deletions db)" "holds_lease l d"
    and og: "find_org db (d_org d) = Some og" and gate: "purge_gate_ok d og" "purge_due now d" "fresh_observation now d = Some True"
  shows "deletion_effect now db db'" and "row \<noteq> None"
proof -
  let ?db = "record_tx now (d_org d) (ls_worker l) ''org.deletion.completed'' (target_context (ls_id l)) (purged_tables now (d_org d) db)"
  let ?row = "\<lambda>d. release (d\<lparr>d_state := ''completed'', d_completed_at := Some done_at\<rparr>)"
  have dels: "deletions ?db = deletions db"
    by (simp add: purged_tables_def entomb_def delete_members_def delete_projects_def Let_def)
  obtain db1 where u: "update_deletion (holds_lease l) ?row ?db = Inr (row, db1)"
    and db': "db' = (case row of None \<Rightarrow> db1 | Some _ \<Rightarrow> increment_tx PURGE_ATTEMPTS ''completed'' db1)"
    using assms(1) by (auto simp: purge_committed_def purged_tables_def rbind_eq_Inr_iff Let_def)
  have ids: "distinct (map d_id (deletions ?db))" "\<forall>d. holds_lease l d \<longrightarrow> d_id d = ls_id l"
    using ok unfolding dels by (simp_all add: deletions_ok_def holds_lease_def)
  have "deletion_effect now db db' \<and> row \<noteq> None"
  using u ids
  proof (cases rule: update_deletion_cases)
    case missed
    with d dels show ?thesis by simp
  next
    case (hit d1)
    have "d1 = d"
      using hit(1,2) d ids(1) unfolding dels by (metis holds_lease_def distinct_map inj_onD)
    with hit db' have row: "deletion_checks (?row d)" "deletions db' = replace_row d (?row d) (deletions db)"
        "bookkeeping (purged_tables now (d_org d) db) db'" "orgs db' = orgs (purged_tables now (d_org d) db)"
      using dels by simp_all
    have "same_operation d (?row d)" "d_state (?row d) = ''completed''" by (simp_all add: same_operation_def observation_kept_def phase_of_def release_def)
    with row gate og d hit show ?thesis by (auto intro: purged [of d db og _ "?row d"])
  qed
  then show "deletion_effect now db db'" "row \<noteq> None" by simp_all
qed

lemma purge_effect:
  assumes "purge now done_at l db = (r, db')" and "ls_state l = Purging"
    and ok: "deletions_ok db" and fits: "lease_fits l db"
  shows "deletion_effect now db db'"
proof -
  consider (failed) "db' = db" | (run) row where "purge_tx now done_at l db = Inr (row, db')"
    using assms(1) unfolding purge_def by (cases rule: answer_cases) auto
  then show ?thesis
  proof cases
    case failed
    then show ?thesis by (simp add: idle)
  next
    case run
    show ?thesis
    proof (cases "sql_find (holds_lease l) (deletions db)")
      case None
      with run show ?thesis by (auto simp: purge_tx_def intro: idle)
    next
      case (Some d)
      then have d: "d \<in> set (deletions db)" "holds_lease l d" by (auto dest: sql_find_SomeD)
      show ?thesis
      proof (cases "find_org db (d_org d)")
        case None
        with Some run show ?thesis by (auto simp: purge_tx_def intro: idle)
      next
        case og: (Some og)
        from run Some og obtain fresh where fresh: "fresh_observation now d = Some fresh"
          and rest: "(if purge_gate_ok d og \<and> purge_due now d \<and> fresh then purge_committed now done_at l (d_org d) db
            else purge_refused now l db) = Inr (row, db')"
          by (auto simp: purge_tx_def decode_bool_def rbind_eq_Inr_iff)
        show ?thesis
        proof (cases "purge_gate_ok d og \<and> purge_due now d \<and> fresh")
          case True
          with rest fresh show ?thesis by (auto intro: purge_committed_effect(1) [OF _ ok d og])
        next
          case False
          with rest have "purge_refused now l db = Inr (row, db')" by (simp split: if_splits)
          then show ?thesis by (rule purge_refused_effect [OF _ assms(2) ok fits])
        qed
      qed
    qed
  qed
qed

lemma advance_effect:
  assumes "advance now0 db0 now done_at P l db = (r, db')" and ok: "deletions_ok db" and fits: "lease_fits l db"
  shows "deletion_effect now db db'"
  using assms(1)
  by (cases "ls_state l")
     (auto simp: advance_def intro: idle transition_state_effect [OF _ _ ok fits] advance_billing_effect [OF _ _ ok fits]
       advance_retention_effect [OF _ _ ok fits] purge_effect [OF _ _ ok fits])

lemma sort_key_head: "sort_key f xs = x # ys \<Longrightarrow> x \<in> set xs"
  by (metis list.set_intros(1) set_sort)

lemma next_due_SomeD: "next_due now db = Some d \<Longrightarrow> d \<in> set (deletions db) \<and> claimable_op now d"
  unfolding next_due_def by (auto split: list.splits dest!: sort_key_head)

lemma latest_deletion_SomeD: "latest_deletion p db = Some d \<Longrightarrow> d \<in> set (deletions db) \<and> p d"
  unfolding latest_deletion_def by (auto split: list.splits dest!: sort_key_head)

lemma claimable_open: "claimable_op now d \<Longrightarrow> open_op d"
  by (auto simp: claimable_op_def open_op_def)

lemma claim_tx_cases:
  assumes "claim_tx now worker db = Inr (row, db')" and ok: "deletions_ok db"
  obtains (none) "row = None" "db' = db" "next_due now db = None"
    | (took) d where "next_due now db = Some d" "d \<in> set (deletions db)" "claimable_op now d" "row = Some (take_lease now worker d)"
        "deletion_checks (take_lease now worker d)"
        "no_progress (db\<lparr>deletions := replace_row d (take_lease now worker d) (deletions db)\<rparr>) db'"
proof (cases "next_due now db")
  case None
  with assms(1) show ?thesis by (intro none) (simp_all add: claim_tx_def)
next
  case (Some d)
  then have d: "d \<in> set (deletions db)" "claimable_op now d" by (auto dest: next_due_SomeD)
  obtain db1 where u: "update_deletion (\<lambda>d'. d_id d' = d_id d) (take_lease now worker) db = Inr (row, db1)"
    and db': "db' = (if d_lease_expires_at d = None then db1 else increment_tx LEASE_EXPIRIES ''reclaimed'' db1)"
    using assms(1) Some by (auto simp: claim_tx_def rbind_eq_Inr_iff)
  have ids: "distinct (map d_id (deletions db))" "\<forall>d'. d_id d' = d_id d \<longrightarrow> d_id d' = d_id d"
    using ok by (simp_all add: deletions_ok_def)
  show ?thesis
  using u ids
  proof (cases rule: update_deletion_cases)
    case missed
    with d(1) show ?thesis by auto
  next
    case (hit d1)
    then have "d1 = d" using d(1) ids(1) by (metis distinct_map inj_onD)
    with hit db' Some d show ?thesis by (intro took [of d]) auto
  qed
qed

lemma claim_due_effect:
  assumes "claim_due now worker db = (r, db')" and ok: "deletions_ok db"
  shows "deletion_effect now db db'"
proof -
  consider "db' = db" | row where "claim_tx now worker db = Inr (row, db')"
    using assms(1) unfolding claim_due_def run_txn_def by (auto split: if_splits sum.splits option.splits prod.splits)
  then show ?thesis
  proof cases
    case 1
    then show ?thesis by (simp add: idle)
  next
    case 2
    from this ok show ?thesis
    proof (cases rule: claim_tx_cases)
      case none
      then show ?thesis by (simp add: idle)
    next
      case (took d)
      with claimable_open [OF took(3)] show ?thesis
        by (intro moved_row [OF ok, of d "take_lease now worker d"])
           (auto simp: take_lease_def open_op_def same_operation_def observation_kept_def phase_of_def stay)
    qed
  qed
qed

text \<open>An update of one known row by id.\<close>

lemma update_known:
  assumes "update_deletion (\<lambda>d'. d_id d' = d_id d) f db = Inr (row, db')" and "deletions_ok db" and "d \<in> set (deletions db)"
  shows "row = Some (f d)" "deletion_checks (f d)" "db' = db\<lparr>deletions := replace_row d (f d) (deletions db)\<rparr>"
proof -
  have ids: "distinct (map d_id (deletions db))" "\<forall>d'. d_id d' = d_id d \<longrightarrow> d_id d' = d_id d"
    using assms(2) by (simp_all add: deletions_ok_def)
  have "row = Some (f d) \<and> deletion_checks (f d) \<and> db' = db\<lparr>deletions := replace_row d (f d) (deletions db)\<rparr>"
    using assms(1) ids
  proof (cases rule: update_deletion_cases)
    case missed
    with assms(3) show ?thesis by auto
  next
    case (hit d1)
    then have "d1 = d" using assms(3) ids(1) by (metis distinct_map inj_onD)
    with hit show ?thesis by simp
  qed
  then show "row = Some (f d)" "deletion_checks (f d)" "db' = db\<lparr>deletions := replace_row d (f d) (deletions db)\<rparr>"
    by simp_all
qed

lemma require_owner_Inr: "require_owner db org actor = Inr u \<longleftrightarrow> member_role db org actor = Inr Owner"
  by (auto simp: require_owner_def member_role_def rbind_eq_Inr_iff split: option.splits)

text \<open>What a committed request did: resumed a failed operation, found one running, or opened one.\<close>

lemma request_tx_cases:
  assumes "request_tx now new_id org actor days db = Inr (v, db')"
  obtains (resumed) d where "member_role db org actor = Inr Owner" "open_deletion org db = Some d" "d_state d = ''failed''"
      "resume_deletion now org actor d db = Inr (v, db')"
    | (running) d where "member_role db org actor = Inr Owner" "open_deletion org db = Some d" "db' = db"
    | (opened) og db1 where "member_role db org actor = Inr Owner" "find_org db org = Some og" "o_lifecycle og = ''active''"
      "insert_deletion (new_deletion now new_id org actor days (o_stripe_subscription og)) db = Inr db1"
      "db' = record_tx now org actor ''org.deletion.requested'' (target_context new_id) (set_lifecycle org ''deleting'' db1)"
proof (cases "find_org db org")
  case None
  with assms show ?thesis by (simp add: request_tx_def)
next
  case (Some og)
  from assms Some obtain lc where lc: "lifecycle_from_db (o_lifecycle og) = Inr lc" "lc \<noteq> Deleted"
    and rest: "rbind (require_owner db org actor) (\<lambda>_.
          if lc = Deleting then
            rbind (ok_or (open_deletion org db) (Internal ''deleting organisation has no active deletion operation'')) (\<lambda>d.
            rbind (state_from_db (d_state d)) (\<lambda>state.
            if state = Failed then resume_deletion now org actor d db
            else Inr (\<lparr>dv_id = d_id d, dv_org = org, dv_state = state\<rparr>, db)))
          else
            rbind (insert_deletion (new_deletion now new_id org actor days (o_stripe_subscription og)) db) (\<lambda>db.
            Inr (\<lparr>dv_id = new_id, dv_org = org, dv_state = Requested\<rparr>,
                 record_tx now org actor ''org.deletion.requested'' (target_context new_id)
                   (set_lifecycle org ''deleting'' db)))) = Inr (v, db')"
    by (auto simp: request_tx_def rbind_eq_Inr_iff split: if_splits)
  then have owner: "member_role db org actor = Inr Owner" by (auto simp: rbind_eq_Inr_iff require_owner_Inr)
  show ?thesis
  proof (cases "lc = Deleting")
    case True
    obtain d st where d: "open_deletion org db = Some d" "d_state d = state_str st"
      and run: "(if st = Failed then resume_deletion now org actor d db
            else Inr (\<lparr>dv_id = d_id d, dv_org = org, dv_state = st\<rparr>, db)) = Inr (v, db')"
      using rest by (simp only: True if_True simp_thms rbind_eq_Inr_iff ok_or_eq_Inr_iff state_from_db_Inr) blast
    show ?thesis
    proof (cases "st = Failed")
      case True
      with run d owner show ?thesis by (intro resumed [of d]) simp_all
    next
      case False
      with run d owner show ?thesis by (intro running [of d]) simp_all
    qed
  next
    case False
    with lc have "o_lifecycle og = ''active''" by (auto simp: lifecycle_from_db_def split: if_splits)
    with False rest owner Some opened show ?thesis by (auto simp: rbind_eq_Inr_iff)
  qed
qed

lemma resume_effect:
  assumes "resume_deletion now org actor d db = Inr (v, db')" and ok: "deletions_ok db"
    and d: "d \<in> set (deletions db)" "d_state d = ''failed''"
  shows "deletion_effect now db db'"
proof -
  let ?row = "\<lambda>resume d. release (d\<lparr>d_state := resume, d_resume_state := None, d_next_attempt_at := Some now,
          d_attempt_count := 0, d_last_error := None\<rparr>)"
  obtain resume row db1 where r: "d_resume_state d = Some resume"
    and u: "update_deletion (\<lambda>d'. d_id d' = d_id d) (?row resume) db = Inr (row, db1)"
    and db': "db' = record_tx now org actor ''org.deletion.retry_requested'' (target_context (d_id d)) db1"
    using assms(1) unfolding resume_deletion_def by (auto simp: rbind_eq_Inr_iff)
  note new = update_known [OF u ok d(1)]
  have "resume \<in> set live_states" using ok d(1) r by (auto simp: deletions_ok_def deletion_checks_def)
  then have open': "open_op (?row resume d)" by (auto simp: open_op_def release_def live_states_def)
  have "phase_of d = (''failed'', Some resume)" "phase_of (?row resume d) = (resume, None)"
    using d(2) r by (simp_all add: phase_of_def release_def)
  then have "phase (phase_of d) (phase_of (?row resume d))" using phase.resumed [of resume] by simp
  with d new(2) open' show ?thesis
    by (intro moved_row [OF ok d(1), of "?row resume d"])
       (simp_all add: db' new(3) open_op_def same_operation_def observation_kept_def release_def)
qed

lemma request_effect:
  assumes "request_with_retention now new_id org actor confirmation days db = (r, db')" and ok: "deletions_ok db"
  shows "deletion_effect now db db'"
proof -
  consider "db' = db" | v where "0 < days" "request_tx now new_id org actor days db = Inr (v, db')"
    using assms(1) unfolding request_with_retention_def run_txn_def by (auto split: if_splits sum.splits prod.splits)
  then show ?thesis
  proof cases
    case 1
    then show ?thesis by (simp add: idle)
  next
    case 2
    from 2(2) show ?thesis
    proof (cases rule: request_tx_cases)
      case (resumed d)
      then show ?thesis
        by (intro resume_effect [OF resumed(4) ok]) (auto simp: open_deletion_def dest: latest_deletion_SomeD)
    next
      case (running d)
      then show ?thesis by (simp add: idle)
    next
      case (opened og db1)
      let ?d = "new_deletion now new_id org actor days (o_stripe_subscription og)"
      have new: "\<And>x. x \<in> set (deletions db) \<Longrightarrow> d_id x \<noteq> new_id \<and> \<not> (d_org x = org \<and> open_op x)"
        and db1: "db1 = db\<lparr>deletions := sql_insert ?d (deletions db)\<rparr>"
        using opened(4) by (auto simp: insert_deletion_def rbind_eq_Inr_iff sql_exists_iff new_deletion_def)
      have "bookkeeping db db'" by (simp add: opened(5) db1)
      moreover have "orgs db' = orgs (set_lifecycle org ''deleting'' db)" "deletions db' = sql_insert ?d (deletions db)"
        by (simp_all add: opened(5) db1 set_lifecycle_def)
      ultimately show ?thesis
        using opened(1-3) 2(1) new by (intro requested [of db org og actor days ?d now new_id]) auto
    qed
  qed
qed

lemma cancel_tx_cases:
  assumes "cancel_tx now org actor db = Inr (v, db')"
  obtains (settled) d where "member_role db org actor = Inr Owner" "d \<in> set (deletions db)" "d_org d = org" "db' = db"
      "d_state d \<in> {''recovering'', ''cancelled''}"
    | (recovering) d st row db1 where "member_role db org actor = Inr Owner" "open_deletion org db = Some d" "d_state d = state_str st"
      "can_cancel st" "dv_id v = d_id d" "dv_state v = Recovering" "update_deletion (\<lambda>d'. d_id d' = d_id d)
        (\<lambda>d. release (d\<lparr>d_state := ''recovering'', d_resume_state := None, d_attempt_count := 0,
                 d_next_attempt_at := Some now, d_last_error := None\<rparr>)) db = Inr (row, db1)"
      "db' = record_tx now org actor ''org.deletion.cancel_requested'' (target_context (d_id d)) db1"
proof (cases "find_org db org")
  case None
  with assms show ?thesis by (simp add: cancel_tx_def)
next
  case (Some og)
  from assms Some obtain lc where rest0: "(if lc = Deleted then
            (if sql_exists (completed_for org actor) (deletions db)
             then Inl (Conflict ''organisation deletion cannot be cancelled after purge has started'')
             else Inl (NotFound ''organisation not found''))
          else rbind (require_owner db org actor) (\<lambda>_.
          rbind (ok_or (case open_deletion org db of
              Some d \<Rightarrow> Some d
            | None \<Rightarrow> latest_deletion (\<lambda>d. d_org d = org \<and> d_state d = ''cancelled'') db)
            (NotFound ''deletion not found'')) (\<lambda>d.
          rbind (state_from_db (d_state d)) (\<lambda>state.
          if \<not> can_cancel state then
            (if state = Purging
             then Inl (Conflict ''organisation deletion cannot be cancelled after purge has started'')
             else Inr (\<lparr>dv_id = d_id d, dv_org = org, dv_state = state\<rparr>, db))
          else
            rbind (update_deletion (\<lambda>d'. d_id d' = d_id d)
              (\<lambda>d. release (d\<lparr>d_state := ''recovering'', d_resume_state := None, d_attempt_count := 0,
                 d_next_attempt_at := Some now, d_last_error := None\<rparr>)) db) (\<lambda>(_, db).
            Inr (\<lparr>dv_id = d_id d, dv_org = org, dv_state = Recovering\<rparr>,
                 record_tx now org actor ''org.deletion.cancel_requested'' (target_context (d_id d)) db)))))) = Inr (v, db')"
    unfolding cancel_tx_def by (auto simp: rbind_eq_Inr_iff)
  have "lc \<noteq> Deleted" using rest0 by (auto split: if_splits)
  with rest0 obtain d st where owner: "member_role db org actor = Inr Owner"
    and d: "(case open_deletion org db of Some d \<Rightarrow> Some d
        | None \<Rightarrow> latest_deletion (\<lambda>d. d_org d = org \<and> d_state d = ''cancelled'') db) = Some d"
    and st: "d_state d = state_str st"
    and rest: "(if \<not> can_cancel st then
            (if st = Purging
             then Inl (Conflict ''organisation deletion cannot be cancelled after purge has started'')
             else Inr (\<lparr>dv_id = d_id d, dv_org = org, dv_state = st\<rparr>, db))
          else
            rbind (update_deletion (\<lambda>d'. d_id d' = d_id d)
              (\<lambda>d. release (d\<lparr>d_state := ''recovering'', d_resume_state := None, d_attempt_count := 0,
                 d_next_attempt_at := Some now, d_last_error := None\<rparr>)) db) (\<lambda>(_, db).
            Inr (\<lparr>dv_id = d_id d, dv_org = org, dv_state = Recovering\<rparr>,
                 record_tx now org actor ''org.deletion.cancel_requested'' (target_context (d_id d)) db))) = Inr (v, db')"
    by (simp only: if_False rbind_eq_Inr_iff require_owner_Inr ok_or_eq_Inr_iff state_from_db_Inr) blast
  have which: "open_deletion org db = Some d \<or> d_state d = ''cancelled''" and mem: "d \<in> set (deletions db)" "d_org d = org"
    using d by (auto simp: open_deletion_def split: option.splits dest: latest_deletion_SomeD)
  show ?thesis
  proof (cases "can_cancel st")
    case True
    then have "open_deletion org db = Some d" using which st by (cases st) (auto simp: can_cancel_def)
    with True rest owner st recovering show ?thesis by (auto simp: rbind_eq_Inr_iff)
  next
    case False
    have "open_op d \<or> d_state d = ''cancelled''"
      using which by (auto simp: open_deletion_def dest: latest_deletion_SomeD)
    with False rest st have "d_state d \<in> {''recovering'', ''cancelled''} \<and> db' = db"
      by (cases st) (auto simp: can_cancel_def open_op_def)
    with owner mem settled show ?thesis by blast
  qed
qed

lemma cancel_effect:
  assumes "cancel now org actor db = (r, db')" and ok: "deletions_ok db"
  shows "deletion_effect now db db'"
proof -
  consider "db' = db" | v where "cancel_tx now org actor db = Inr (v, db')"
    using assms(1) unfolding cancel_def run_txn_def by (auto split: sum.splits prod.splits)
  then show ?thesis
  proof cases
    case 1
    then show ?thesis by (simp add: idle)
  next
    case 2
    then show ?thesis
    proof (cases rule: cancel_tx_cases)
      case (settled d)
      then show ?thesis by (simp add: idle)
    next
      case (recovering d st row db1)
      let ?row = "\<lambda>d. release (d\<lparr>d_state := ''recovering'', d_resume_state := None, d_attempt_count := 0,
                 d_next_attempt_at := Some now, d_last_error := None\<rparr>)"
      have mem: "d \<in> set (deletions db)" "open_op d"
        using recovering(2) by (auto simp: open_deletion_def dest: latest_deletion_SomeD)
      note new = update_known [OF recovering(7) ok mem(1)]
      have "phase_of (?row d) = (''recovering'', None)" by (simp add: phase_of_def release_def)
      moreover have "phase_of d = (state_str st, d_resume_state d)" using recovering(3) by (simp add: phase_of_def)
      ultimately have "phase (phase_of d) (phase_of (?row d))"
        using recovering(4) by (auto simp: can_cancel_def intro: cancelled)
      with mem new show ?thesis
        by (intro moved_row [OF ok mem(1), of "?row d"])
           (simp_all add: recovering(8), simp_all add: same_operation_def observation_kept_def phase_of_def release_def open_op_def)
    qed
  qed
qed

lemma observation_tx_cases:
  assumes "observation_tx pg now org operator ob gate db = Inr ((i, row), db')" and ok: "deletions_ok db"
  obtains d observed_at expiry where "d \<in> set (deletions db)" "d_org d = org" "open_op d"
    "d_state d \<noteq> ''purging''" "d_state d \<noteq> ''recovering''" "d_resume_state d \<notin> {Some ''recovering'', Some ''purging''}"
    "d_subscription d = Some (oo_subscription ob)" "d_requested_at d \<le> observed_at" "observed_at \<le> now"
    "deletion_checks (operator_observed observed_at gate operator ob expiry d)"
    "no_progress (db\<lparr>deletions := replace_row d (operator_observed observed_at gate operator ob expiry d) (deletions db)\<rparr>) db'"
proof -
  obtain d observed_at expiry db1 where target: "operator_target org db = Some d"
    and s: "d_state d \<noteq> ''purging''" "\<not> (d_state d = ''recovering'' \<or> d_resume_state d \<in> {Some ''recovering'', Some ''purging''})"
      "d_subscription d = Some (oo_subscription ob)"
    and u: "update_deletion (\<lambda>d'. d_id d' = d_id d \<and> d_requested_at d' \<le> observed_at \<and> observed_at \<le> now)
       (operator_observed observed_at gate operator ob expiry) db = Inr (Some row, db1)"
    and db': "db' = record_tx now org operator ''org.deletion.billing_observed''
       (no_context\<lparr>cx_target := Some (oo_subscription ob), cx_detail := Some ''source=operator''\<rparr>) db1"
    using assms(1) unfolding observation_tx_def
    by (simp only: rbind_eq_Inr_iff require_eq_Inr_iff ok_or_eq_Inr_iff split_paired_Ex prod.case sum.inject prod.inject) blast
  have d: "d \<in> set (deletions db)" "d_org d = org" "open_op d"
    using target by (auto simp: operator_target_def split: if_splits dest: sql_find_SomeD)
  have ids: "distinct (map d_id (deletions db))"
      "\<forall>d'. d_id d' = d_id d \<and> d_requested_at d' \<le> observed_at \<and> observed_at \<le> now \<longrightarrow> d_id d' = d_id d"
    using ok by (simp_all add: deletions_ok_def)
  from u ids show ?thesis
  proof (cases rule: update_deletion_cases)
    case (hit d1)
    then have "d1 = d" using d(1) ids(1) by (metis distinct_map inj_onD)
    with hit d s show ?thesis by (intro that [of d observed_at expiry]) (auto simp: db')
  qed simp
qed

lemma observation_effect:
  assumes "record_operator_observation pg now org operator ob db = (r, db')" and ok: "deletions_ok db"
  shows "deletion_effect now db db'"
proof -
  consider "db' = db" | gate i row where "observation_tx pg now org operator ob gate db = Inr ((i, row), db')"
    using assms(1) unfolding record_operator_observation_def run_txn_def Let_def
    by (auto split: if_splits sum.splits prod.splits)
  then show ?thesis
  proof cases
    case 1
    then show ?thesis by (simp add: idle)
  next
    case 2
    from this ok show ?thesis
    proof (cases rule: observation_tx_cases)
      case (1 d observed_at expiry)
      let ?d = "operator_observed observed_at gate operator ob expiry d"
      have "d_state d \<in> {''requested'', ''cancelling_billing'', ''retention'', ''failed''}"
        using ok 1(1,3-5) by (auto simp: deletions_ok_def deletion_checks_def live_states_def open_op_def)
      moreover have "phase_of ?d = (''retention'', None)" by (simp add: phase_of_def operator_observed_def release_def)
      moreover have "phase_of d = (d_state d, d_resume_state d)" by (simp add: phase_of_def)
      ultimately have "phase (phase_of d) (phase_of ?d)" using 1(6) by (auto intro: operator)
      then show ?thesis
        using 1 by (intro moved_row [OF ok 1(1) 1(10)])
          (auto simp: open_op_def operator_observed_def release_def same_operation_def observation_kept_def phase_of_def)
    qed
  qed
qed

subsection \<open>What every reachable table satisfies\<close>

text \<open>
  An organisation is frozen exactly while one operation on it is open, a tombstone exactly when one
  is completed, and no two are open at once.
\<close>

definition deletion_inv :: "db \<Rightarrow> bool" where
  "deletion_inv db \<longleftrightarrow> deletions_ok db \<and>
     (\<forall>d \<in> set (deletions db). \<forall>d' \<in> set (deletions db). open_op d \<and> open_op d' \<and> d_org d = d_org d' \<longrightarrow> d = d') \<and>
     (\<forall>d \<in> set (deletions db). \<exists>og. find_org db (d_org d) = Some og \<and>
        (open_op d \<longrightarrow> o_lifecycle og = ''deleting'') \<and> (d_state d = ''completed'' \<longrightarrow> o_lifecycle og = ''deleted'')) \<and>
     (\<forall>org og. find_org db org = Some og \<longrightarrow>
        (o_lifecycle og = ''deleting'' \<longrightarrow> (\<exists>d \<in> set (deletions db). d_org d = org \<and> open_op d)) \<and>
        (o_lifecycle og = ''deleted'' \<longrightarrow> (\<exists>d \<in> set (deletions db). d_org d = org \<and> d_state d = ''completed'')))"

lemma deletion_invD:
  assumes "deletion_inv db"
  shows "deletions_ok db"
    and "d \<in> set (deletions db) \<Longrightarrow> d' \<in> set (deletions db) \<Longrightarrow> open_op d \<Longrightarrow> open_op d' \<Longrightarrow> d_org d = d_org d' \<Longrightarrow> d = d'"
    and "d \<in> set (deletions db) \<Longrightarrow> \<exists>og. find_org db (d_org d) = Some og \<and>
        (open_op d \<longrightarrow> o_lifecycle og = ''deleting'') \<and> (d_state d = ''completed'' \<longrightarrow> o_lifecycle og = ''deleted'')"
    and "find_org db org = Some og \<Longrightarrow> o_lifecycle og = ''deleting'' \<Longrightarrow> \<exists>d \<in> set (deletions db). d_org d = org \<and> open_op d"
    and "find_org db org = Some og \<Longrightarrow> o_lifecycle og = ''deleted'' \<Longrightarrow> \<exists>d \<in> set (deletions db). d_org d = org \<and> d_state d = ''completed''"
  using assms unfolding deletion_inv_def by blast+

lemma replace_row_set:
  assumes "distinct (map d_id t)" and "d \<in> set t"
  shows "set (replace_row d d' t) = insert d' (set t - {d})"
proof -
  have "x = d" if "x \<in> set t" "d_id x = d_id d" for x using assms that by (metis distinct_map inj_onD)
  with assms(2) show ?thesis by (auto simp: replace_row_def)
qed

lemma replace_row_ids: "d_id d' = d_id d \<Longrightarrow> map d_id (replace_row d d' t) = map d_id t"
  by (auto simp: replace_row_def sql_update_def)

lemma find_org_update:
  assumes "orgs db' = sql_update p f (orgs db)" and "\<And>og. o_id (f og) = o_id og"
  shows "find_org db' org = map_option (\<lambda>og. if p og then f og else og) (find_org db org)"
  unfolding find_org_def assms(1) by (rule sql_find_update) (simp add: assms(2))

lemma find_org_id: "find_org db org = Some og \<Longrightarrow> o_id og = org"
  by (auto simp: find_org_def dest: sql_find_SomeD)

lemma find_org_lifecycle:
  "orgs db' = orgs (set_lifecycle org s db) \<Longrightarrow> find_org db' i = map_option (\<lambda>og. if o_id og = org then og\<lparr>o_lifecycle := s\<rparr> else og) (find_org db i)"
  by (rule find_org_update) (simp_all add: set_lifecycle_def)

lemma find_org_thaw:
  "orgs db' = orgs (thaw org tier db) \<Longrightarrow> find_org db' i = map_option (\<lambda>og. if o_id og = org \<and> o_lifecycle og = ''deleting''
     then og\<lparr>o_lifecycle := ''active'', o_tier := tier\<rparr> else og) (find_org db i)"
  by (rule find_org_update) (simp_all add: thaw_def)

lemma find_org_purged:
  "orgs db' = orgs (purged_tables now org db) \<Longrightarrow> find_org db' i =
     map_option (\<lambda>og. if o_id og = org \<and> o_lifecycle og = ''deleting'' then tombstone now og else og) (find_org db i)"
  by (rule find_org_update)
     (simp add: purged_tables_def entomb_def delete_members_def delete_projects_def Let_def, simp add: tombstone_def)

lemma deletion_invI:
  assumes "deletions_ok db"
    and "\<And>d d'. d \<in> set (deletions db) \<Longrightarrow> d' \<in> set (deletions db) \<Longrightarrow> open_op d \<Longrightarrow> open_op d' \<Longrightarrow> d_org d = d_org d' \<Longrightarrow> d = d'"
    and "\<And>d. d \<in> set (deletions db) \<Longrightarrow> \<exists>og. find_org db (d_org d) = Some og \<and>
        (open_op d \<longrightarrow> o_lifecycle og = ''deleting'') \<and> (d_state d = ''completed'' \<longrightarrow> o_lifecycle og = ''deleted'')"
    and "\<And>org og. find_org db org = Some og \<Longrightarrow> o_lifecycle og = ''deleting'' \<Longrightarrow> \<exists>d \<in> set (deletions db). d_org d = org \<and> open_op d"
    and "\<And>org og. find_org db org = Some og \<Longrightarrow> o_lifecycle og = ''deleted'' \<Longrightarrow> \<exists>d \<in> set (deletions db). d_org d = org \<and> d_state d = ''completed''"
  shows "deletion_inv db"
  using assms unfolding deletion_inv_def by blast

lemma new_deletion_checks: "0 < days \<Longrightarrow> deletion_checks (new_deletion now i org actor days sub)"
  by (simp add: deletion_checks_def observation_checks_def new_deletion_def live_states_def not_earlier_def DAY_def)

lemma inv_replace:
  assumes inv: "deletion_inv db" and d: "d \<in> set (deletions db)" "open_op d"
    and d': "d_id d' = d_id d" "d_org d' = d_org d" "deletion_checks d'"
    and dels: "deletions db' = replace_row d d' (deletions db)"
    and orgs: "\<And>org. org \<noteq> d_org d \<Longrightarrow> find_org db' org = find_org db org"
    and own: "find_org db' (d_org d) = Some og"
      "open_op d' \<and> o_lifecycle og = ''deleting'' \<or> d_state d' = ''completed'' \<and> o_lifecycle og = ''deleted'' \<or>
       d_state d' = ''cancelled'' \<and> o_lifecycle og = ''active''"
  shows "deletion_inv db'"
proof -
  note I = deletion_invD [OF inv]
  have keys: "distinct (map d_id (deletions db))" using I(1) by (simp add: deletions_ok_def)
  have set: "set (deletions db') = insert d' (set (deletions db) - {d})"
    using replace_row_set [OF keys d(1)] by (simp add: dels)
  have frozen: "\<exists>og. find_org db (d_org d) = Some og \<and> o_lifecycle og = ''deleting''"
    using I(3) [OF d(1)] d(2) by auto
  have closed: "\<not> open_op x \<and> d_state x \<noteq> ''completed''" if "x \<in> set (deletions db) - {d}" "d_org x = d_org d" for x
    using I(2) [of x d] I(3) [of x] d that frozen by auto
  show ?thesis
  proof (rule deletion_invI)
    show "deletions_ok db'"
      using I(1) d' by (auto simp: deletions_ok_def set) (simp add: dels replace_row_ids)
  next
    fix x y assume "x \<in> set (deletions db')" "y \<in> set (deletions db')" "open_op x" "open_op y" "d_org x = d_org y"
    then show "x = y" using closed [of x] closed [of y] I(2) [of x y] d'(2) by (auto simp: set)
  next
    fix x assume "x \<in> set (deletions db')"
    then consider "x = d'" | "x \<in> set (deletions db) - {d}" by (auto simp: set)
    then show "\<exists>og. find_org db' (d_org x) = Some og \<and>
        (open_op x \<longrightarrow> o_lifecycle og = ''deleting'') \<and> (d_state x = ''completed'' \<longrightarrow> o_lifecycle og = ''deleted'')"
    proof cases
      case 1
      then show ?thesis using own d'(2) by (auto simp: open_op_def)
    next
      case 2
      then show ?thesis
        using own closed [of x] orgs [of "d_org x"] I(3) [of x] by (cases "d_org x = d_org d") auto
    qed
  next
    fix org og' assume a: "find_org db' org = Some og'" "o_lifecycle og' = ''deleting''"
    show "\<exists>d \<in> set (deletions db'). d_org d = org \<and> open_op d"
    proof (cases "org = d_org d")
      case True
      with a own d'(2) show ?thesis by (auto simp: set)
    next
      case False
      with a orgs I(4) [of org og'] show ?thesis by (auto simp: set)
    qed
  next
    fix org og' assume a: "find_org db' org = Some og'" "o_lifecycle og' = ''deleted''"
    show "\<exists>d \<in> set (deletions db'). d_org d = org \<and> d_state d = ''completed''"
    proof (cases "org = d_org d")
      case True
      with a own d'(2) show ?thesis by (auto simp: set)
    next
      case False
      with a orgs I(5) [of org og'] show ?thesis by (auto simp: set)
    qed
  qed
qed

lemma deletion_inv_same:
  assumes "deletion_inv db" and "deletions db' = deletions db" and "\<And>org. find_org db' org = find_org db org"
  shows "deletion_inv db'"
  using assms by (simp add: deletion_inv_def deletions_ok_def)

lemma deletion_inv_step:
  assumes "deletion_effect now db db'" and inv: "deletion_inv db"
  shows "deletion_inv db'"
  using assms(1)
proof cases
  case idle
  then show ?thesis
    by (intro deletion_inv_same [OF inv]) (simp_all add: no_progress_def find_org_def)
next
  case (moved d d')
  obtain og where "find_org db (d_org d) = Some og" "o_lifecycle og = ''deleting''"
    using deletion_invD(3) [OF inv moved(1)] moved(2) by blast
  with moved show ?thesis
    by (intro inv_replace [OF inv moved(1,2), of d' db' og]) (simp_all add: same_operation_def find_org_def)
next
  case (requested org og actor days d i)
  note I = deletion_invD [OF inv]
  have find: "find_org db' j = map_option (\<lambda>og. if o_id og = org then og\<lparr>o_lifecycle := ''deleting''\<rparr> else og) (find_org db j)" for j
    by (rule find_org_lifecycle [OF requested(8)])
  have other: "find_org db' j = find_org db j" if "j \<noteq> org" for j
    using find [of j] that by (cases "find_org db j") (auto dest: find_org_id)
  have own: "find_org db' org = Some (og\<lparr>o_lifecycle := ''deleting''\<rparr>)"
    using find [of org] requested(1) by (auto dest: find_org_id)
  have new: "d_org d = org" "d_id d = i" "open_op d" "d_state d = ''requested''"
    by (simp_all add: requested(5) new_deletion_def open_op_def)
  have idle_org: "\<not> open_op x \<and> d_state x \<noteq> ''completed''" if "x \<in> set (deletions db)" "d_org x = org" for x
    using that requested(6) [of x] I(3) [of x] requested(1,2) by auto
  have set: "set (deletions db') = insert d (set (deletions db))" by (simp add: requested(9))
  show ?thesis
  proof (rule deletion_invI)
    have "distinct (map d_id (deletions db'))"
      using I(1) requested(6) unfolding requested(9) distinct_sql_insert new(2) by (simp add: deletions_ok_def)
    moreover have "deletion_checks d" unfolding requested(5) by (rule new_deletion_checks [OF requested(4)])
    ultimately show "deletions_ok db'" using I(1) by (simp add: deletions_ok_def set)
  next
    fix x y assume xy: "x \<in> set (deletions db')" "y \<in> set (deletions db')" "open_op x" "open_op y" "d_org x = d_org y"
    then have "x = d \<or> x \<in> set (deletions db)" "y = d \<or> y \<in> set (deletions db)" by (simp_all add: set)
    with xy(3-5) show "x = y" using I(2) idle_org new(1) by metis
  next
    fix x assume "x \<in> set (deletions db')"
    then show "\<exists>og. find_org db' (d_org x) = Some og \<and>
        (open_op x \<longrightarrow> o_lifecycle og = ''deleting'') \<and> (d_state x = ''completed'' \<longrightarrow> o_lifecycle og = ''deleted'')"
      using own new other [of "d_org x"] I(3) [of x] idle_org [of x] by (cases "d_org x = org") (auto simp: set)
  next
    fix j og' assume "find_org db' j = Some og'" "o_lifecycle og' = ''deleting''"
    then show "\<exists>d \<in> set (deletions db'). d_org d = j \<and> open_op d"
      using new other [of j] I(4) [of j og'] by (cases "j = org") (auto simp: set)
  next
    fix j og' assume "find_org db' j = Some og'" "o_lifecycle og' = ''deleted''"
    then show "\<exists>d \<in> set (deletions db'). d_org d = j \<and> d_state d = ''completed''"
      using own other [of j] I(5) [of j og'] by (cases "j = org") (auto simp: set)
  qed
next
  case (recovered d d' tier)
  have open_d: "open_op d" using recovered(2) by (simp add: open_op_def)
  obtain og where og: "find_org db (d_org d) = Some og" "o_lifecycle og = ''deleting''"
    using deletion_invD(3) [OF inv recovered(1)] open_d by blast
  have find: "find_org db' j = map_option (\<lambda>og. if o_id og = d_org d \<and> o_lifecycle og = ''deleting''
     then og\<lparr>o_lifecycle := ''active'', o_tier := tier\<rparr> else og) (find_org db j)" for j
    by (rule find_org_thaw [OF recovered(7)])
  have other: "find_org db' j = find_org db j" if "j \<noteq> d_org d" for j
    using find [of j] that by (cases "find_org db j") (auto dest: find_org_id)
  have own: "find_org db' (d_org d) = Some (og\<lparr>o_lifecycle := ''active'', o_tier := tier\<rparr>)"
    using find [of "d_org d"] og find_org_id [OF og(1)] by simp
  from recovered show ?thesis
    by (intro inv_replace [OF inv recovered(1) open_d _ _ _ _ other own]) (simp_all add: same_operation_def)
next
  case (purged d og d')
  have open_d: "open_op d" and del: "o_lifecycle og = ''deleting''" using purged(3) by (simp_all add: purge_gate_ok_def open_op_def)
  have find: "find_org db' j = map_option (\<lambda>og. if o_id og = d_org d \<and> o_lifecycle og = ''deleting'' then tombstone now og else og) (find_org db j)" for j
    by (rule find_org_purged [OF purged(10)])
  have other: "find_org db' j = find_org db j" if "j \<noteq> d_org d" for j
    using find [of j] that by (cases "find_org db j") (auto dest: find_org_id)
  have own: "find_org db' (d_org d) = Some (tombstone now og)"
    using find [of "d_org d"] purged(2) del find_org_id [OF purged(2)] by simp
  from purged show ?thesis
    by (intro inv_replace [OF inv purged(1) open_d _ _ _ _ other own]) (simp_all add: same_operation_def tombstone_def)
qed

subsection \<open>Leases\<close>

definition describes :: "lease \<Rightarrow> deletion_row \<Rightarrow> bool" where
  "describes l d \<longleftrightarrow> d_id d = ls_id l \<and> d_org d = ls_org l \<and> d_state d = state_str (ls_state l) \<and>
     d_subscription d = ls_subscription l \<and> d_state_version d = ls_version l \<and> d_lease_owner d = Some (ls_worker l) \<and>
     d_attempt_count d = ls_attempts l"

text \<open>A row as it is later: untouched, or the same operation at a higher version.\<close>

definition follows :: "deletion_row \<Rightarrow> deletion_row \<Rightarrow> bool" where
  "follows d d' \<longleftrightarrow> d' = d \<or>
     (d_id d' = d_id d \<and> d_org d' = d_org d \<and> d_requested_by d' = d_requested_by d \<and> d_requested_at d' = d_requested_at d \<and>
      d_purge_after d' = d_purge_after d \<and> d_subscription d' = d_subscription d \<and> d_state_version d < d_state_version d')"

definition lease_valid :: "lease \<Rightarrow> db \<Rightarrow> bool" where
  "lease_valid l db \<longleftrightarrow> (\<exists>d0 d. describes l d0 \<and> d \<in> set (deletions db) \<and> follows d0 d)"

lemma follows_refl [simp]: "follows d d"
  by (simp add: follows_def)

lemma follows_trans: "follows a b \<Longrightarrow> follows b c \<Longrightarrow> follows a c"
  by (auto simp: follows_def)

lemma follows_same_operation: "same_operation d d' \<Longrightarrow> follows d d'"
  by (auto simp: follows_def same_operation_def)

lemma effect_follows:
  assumes "deletion_effect now db db'" and "deletions_ok db" and "d \<in> set (deletions db)"
  shows "\<exists>d' \<in> set (deletions db'). follows d d'"
proof -
  have keys: "distinct (map d_id (deletions db))" using assms(2) by (simp add: deletions_ok_def)
  from assms(1) show ?thesis
  proof cases
    case idle
    with assms(3) show ?thesis by (auto simp: no_progress_def intro: bexI [of _ d])
  next
    case (moved x x')
    with assms(3) replace_row_set [OF keys moved(1), of x'] show ?thesis
      by (cases "d = x") (auto intro: bexI [of _ x'] bexI [of _ d] follows_same_operation)
  next
    case (requested org og actor days x i)
    with assms(3) show ?thesis by (auto intro: bexI [of _ d])
  next
    case (recovered x x' tier)
    with assms(3) replace_row_set [OF keys recovered(1), of x'] show ?thesis
      by (cases "d = x") (auto intro: bexI [of _ x'] bexI [of _ d] follows_same_operation)
  next
    case (purged x og x')
    with assms(3) replace_row_set [OF keys purged(1), of x'] show ?thesis
      by (cases "d = x") (auto intro: bexI [of _ x'] bexI [of _ d] follows_same_operation)
  qed
qed

lemma lease_valid_step:
  assumes "deletion_effect now db db'" and "deletions_ok db" and "lease_valid l db"
  shows "lease_valid l db'"
  using assms(3) effect_follows [OF assms(1,2)] unfolding lease_valid_def by (meson follows_trans)

lemma lease_valid_fits:
  assumes "lease_valid l db" and "deletions_ok db"
  shows "lease_fits l db"
  unfolding lease_fits_def
proof (intro ballI impI)
  fix d assume d: "d \<in> set (deletions db)" "holds_lease l d"
  obtain d0 d1 where v: "describes l d0" "d1 \<in> set (deletions db)" "follows d0 d1"
    using assms(1) by (auto simp: lease_valid_def)
  have "d_id d1 = d_id d" using v d(2) by (auto simp: describes_def follows_def holds_lease_def)
  then have "d1 = d" using assms(2) v(2) d(1) by (metis deletions_ok_def distinct_map inj_onD)
  with v d(2) have "d = d0" by (auto simp: follows_def describes_def holds_lease_def)
  with v(1) show "d_org d = ls_org l \<and> d_state d = state_str (ls_state l) \<and> d_subscription d = ls_subscription l"
    by (simp add: describes_def)
qed

lemma claimed_lease:
  assumes "claim_due now worker db = (Inr (Some l), db')" and ok: "deletions_ok db"
  shows "\<exists>d \<in> set (deletions db'). describes l d" and "lease_valid l db'"
proof -
  obtain row st where row: "claim_tx now worker db = Inr (Some row, db')"
    and l: "state_from_db (d_state row) = Inr st" "l = \<lparr>ls_id = d_id row, ls_org = d_org row, ls_state = st,
      ls_subscription = d_subscription row, ls_worker = worker, ls_version = d_state_version row, ls_attempts = d_attempt_count row\<rparr>"
    using assms(1) unfolding claim_due_def run_txn_def
    by (auto simp: rbind_eq_Inr_iff split: if_splits sum.splits option.splits prod.splits)
  have keys: "distinct (map d_id (deletions db))" using ok by (simp add: deletions_ok_def)
  from row ok have "row \<in> set (deletions db') \<and> d_lease_owner row = Some worker"
  proof (cases rule: claim_tx_cases)
    case none
    then show ?thesis by simp
  next
    case (took d)
    with replace_row_set [OF keys took(2), of row] show ?thesis
      by (simp add: no_progress_def take_lease_def)
  qed
  moreover have "describes l row"
    using l(1) calculation unfolding l(2) by (simp add: describes_def)
  ultimately show "\<exists>d \<in> set (deletions db'). describes l d" by blast
  then show "lease_valid l db'" unfolding lease_valid_def by (blast intro: follows_refl)
qed

text \<open>A worker whose lease is no longer the row's, because the lease ran out and was reclaimed, the
  owner cancelled or retried, or an operator stepped in, changes nothing but a counter, whatever its
  provider call returned in the meantime.\<close>

theorem stale_worker_changes_nothing:
  assumes "advance now0 db0 now done_at P l db = (r, db')" and "\<forall>d. d \<in> set (deletions db) \<longrightarrow> \<not> holds_lease l d"
  shows "db' = db\<lparr>counters := counters db'\<rparr> \<and> (\<forall>v. r \<noteq> Inr (Some v))"
proof -
  have none: "sql_find (\<lambda>d. holds_lease l d \<and> q d) (deletions db) = None" "sql_find (holds_lease l) (deletions db) = None" for q
    using assms(2) by (simp_all add: sql_find_None_iff)
  have missed: "update_deletion (\<lambda>d. holds_lease l d \<and> q d) f db = Inr (None, db)" "update_deletion (holds_lease l) f db = Inr (None, db)" for q f
    using none by (simp_all add: update_deletion_def)
  have counted: "counted db (increment_tx m out db) \<and> counted db (stale_counter row (increment_tx m out db)) \<and>
      counted db (stale_counter row (count_attempt a b db))" for m out row a b
    using counted_trans counted_increment counted_helpers by blast
  have err: "handle_provider_error now l kind code db = (r, db') \<Longrightarrow> counted db db' \<and> (\<forall>v. r \<noteq> Inr (Some v))" for kind code
    using counted by (auto simp: handle_provider_error_def schedule_retry_def fail_attempt_def answer_def run_txn_def missed
        audit_worker_def Let_def split: retry_decision.splits option.splits)
  have bill: "finish_billing now l obs db = (r, db') \<Longrightarrow> counted db db' \<and> (\<forall>v. r \<noteq> Inr (Some v))" for obs
    using counted err by (auto simp: finish_billing_def answer_def run_txn_def missed audit_worker_def Let_def split: option.splits)
  have rec: "finish_recovery now l obs db = (r, db') \<Longrightarrow> counted db db' \<and> (\<forall>v. r \<noteq> Inr (Some v))" for obs
    using counted err by (auto simp: finish_recovery_def answer_def run_txn_def missed audit_worker_def Let_def split: option.splits)
  have ret: "finish_retention_reconciliation now l obs db = (r, db') \<Longrightarrow> counted db db' \<and> (\<forall>v. r \<noteq> Inr (Some v))" for obs
    using counted err by (auto simp: finish_retention_reconciliation_def answer_def run_txn_def missed audit_worker_def Let_def
        split: purge_gate.splits)
  have fail: "fail_attempt now l code None None db = (r, db') \<Longrightarrow> counted db db' \<and> (\<forall>v. r \<noteq> Inr (Some v))" for code
    using counted by (auto simp: fail_attempt_def answer_def run_txn_def missed audit_worker_def)
  have enter: "enter_purging now l db = (r, db') \<Longrightarrow> counted db db' \<and> (\<forall>v. r \<noteq> Inr (Some v))"
    by (auto simp: enter_purging_def answer_def run_txn_def missed audit_worker_def)
  have trans: "transition_state now l nxt db = (r, db') \<Longrightarrow> counted db db' \<and> (\<forall>v. r \<noteq> Inr (Some v))" for nxt
    by (auto simp: transition_state_def answer_def run_txn_def missed)
  have purge: "purge now done_at l db = (r, db') \<Longrightarrow> counted db db' \<and> (\<forall>v. r \<noteq> Inr (Some v))"
    by (auto simp: purge_def purge_tx_def answer_def run_txn_def none(2))
  have "counted db db' \<and> (\<forall>v. r \<noteq> Inr (Some v))"
  proof (cases "ls_state l")
    case Retention
    then show ?thesis
      using assms(1) err ret fail enter by (auto simp: advance_def advance_retention_def split: option.splits sum.splits if_splits)
  qed (use assms(1) err bill rec fail trans purge in
        \<open>auto simp: advance_def advance_billing_def split: option.splits sum.splits\<close>)
  then have p1: "db' = db\<lparr>counters := counters db'\<rparr>" "\<forall>v. r \<noteq> Inr (Some v)" by (simp_all add: counted_def)
  show ?thesis by ((rule p1 conjI impI | assumption)+)
qed

subsection \<open>The purge\<close>

lemma fresh_observation_True:
  "fresh_observation now d = Some True \<longleftrightarrow> (\<exists>t s. d_billing_checked_at d = Some t \<and> now - BILLING_OBSERVATION_MAX_AGE * SECOND \<le> t \<and>
     d_billing_source d = Some s \<and> s \<in> {''provider'', ''operator''})"
  by (cases "d_billing_checked_at d"; cases "d_billing_source d")
     (auto simp: fresh_observation_def checked_recently_def elim: sql_and.elims)

text \<open>Only a purge behind its gate touches anything but the operation's row, the organisation's lifecycle
  and tier, the audit log and the counters.\<close>

lemma effect_purges:
  assumes "deletion_effect now db db'"
  shows "(\<exists>d og. d \<in> set (deletions db) \<and> find_org db (d_org d) = Some og \<and> purge_gate_ok d og \<and> purge_due now d \<and>
      fresh_observation now d = Some True \<and> bookkeeping (purged_tables now (d_org d) db) db' \<and>
      orgs db' = orgs (purged_tables now (d_org d) db)) \<or> bookkeeping db db'"
  using assms by cases (auto simp: no_progress_def)


lemma delete_projects_tables:
  "projects (delete_projects org db) = sql_delete (org_project org) (projects db)"
  "envs (delete_projects org db) = sql_delete (\<lambda>e. e_id e \<in> doomed_envs org db) (envs db)"
  "grants (delete_projects org db) = sql_delete (\<lambda>g. g_env g \<in> doomed_envs org db) (grants db)"
  "secrets (delete_projects org db) = sql_delete (\<lambda>s. s_env s \<in> doomed_envs org db) (secrets db)"
  "versions (delete_projects org db) =
     sql_delete (\<lambda>v. v_secret v \<in> s_id ` {s \<in> set (secrets db). s_env s \<in> doomed_envs org db}) (versions db)"
  "tokens (delete_projects org db) = sql_delete (\<lambda>t. t_env t \<in> doomed_envs org db) (tokens db)"
  "members (delete_projects org db) = members db" "orgs (delete_projects org db) = orgs db"
  "deletions (delete_projects org db) = deletions db" "users (delete_projects org db) = users db"
  by (simp_all add: delete_projects_def Let_def)

lemma purged_tables_simps [simp]:
  "projects (purged_tables now org db) = sql_delete (org_project org) (projects db)"
  "envs (purged_tables now org db) = sql_delete (\<lambda>e. e_id e \<in> doomed_envs org db) (envs db)"
  "grants (purged_tables now org db) = sql_delete (\<lambda>g. g_env g \<in> doomed_envs org db) (grants db)"
  "secrets (purged_tables now org db) = sql_delete (\<lambda>s. s_env s \<in> doomed_envs org db) (secrets db)"
  "tokens (purged_tables now org db) = sql_delete (\<lambda>t. t_env t \<in> doomed_envs org db) (tokens db)"
  "members (purged_tables now org db) = sql_delete (\<lambda>m. m_org m = org) (members db)"
  "versions (purged_tables now org db) =
     sql_delete (\<lambda>v. v_secret v \<in> s_id ` {s \<in> set (secrets db). s_env s \<in> doomed_envs org db}) (versions db)"
  by (simp_all add: purged_tables_def entomb_def delete_members_def delete_projects_tables)

lemma doomed_envs_iff:
  assumes "e \<in> set (envs db)" and "distinct (map e_id (envs db))"
  shows "e_id e \<in> doomed_envs org db \<longleftrightarrow> (\<exists>p \<in> set (projects db). p_id p = e_project e \<and> p_org p = Some org)"
proof -
  have "e' = e" if "e' \<in> set (envs db)" "e_id e' = e_id e" for e'
    using assms that by (metis distinct_map inj_onD)
  moreover define Ps where "Ps = p_id ` {p \<in> set (projects db). org_project org p}"
  ultimately have "e_id e \<in> doomed_envs org db \<longleftrightarrow> e_project e \<in> Ps"
    unfolding doomed_envs_def Ps_def [symmetric] using assms(1) by auto
  then show ?thesis unfolding Ps_def org_project_def by force
qed

lemma purge_completed:
  assumes "purge now done_at l db = (Inr (Some v), db')" and "dv_state v = Completed" and ok: "deletions_ok db" and fits: "lease_fits l db"
  shows "\<exists>d. d \<in> set (deletions db) \<and> d_org d = dv_org v \<and> bookkeeping (purged_tables now (dv_org v) db) db' \<and>
    orgs db' = orgs (purged_tables now (dv_org v) db) \<and> (\<exists>og. find_org db (dv_org v) = Some og \<and> o_lifecycle og = ''deleting'')"
proof -
  obtain row where row: "purge_tx now done_at l db = Inr (Some row, db')" and v: "view_from_row (ls_id l) row = Inr v"
    using assms(1) unfolding purge_def
    by (cases rule: answer_cases) (auto simp: rbind_eq_Inr_iff dest!: sym [of "Inr (Some v)"])
  have st: "d_state row = ''completed''" "d_org row = dv_org v"
    using v assms(2) by (auto simp: view_from_row_def rbind_eq_Inr_iff)
  obtain d og fresh where d: "sql_find (holds_lease l) (deletions db) = Some d" "find_org db (d_org d) = Some og"
      and fresh: "fresh_observation now d = Some fresh"
      and rest: "(if purge_gate_ok d og \<and> purge_due now d \<and> fresh then purge_committed now done_at l (d_org d) db
            else purge_refused now l db) = Inr (Some row, db')"
    using row unfolding purge_tx_def
    by (auto simp: decode_bool_def rbind_eq_Inr_iff split: option.splits)
  have mem: "d \<in> set (deletions db)" "holds_lease l d" using d(1) by (auto dest: sql_find_SomeD)
  have "\<not> purge_refused now l db = Inr (Some row, db')"
    using st(1) by (auto simp: purge_refused_def rbind_eq_Inr_iff update_deletion_Inr release_def split: option.splits)
  with rest have gate: "purge_gate_ok d og" "purge_due now d" "fresh_observation now d = Some True"
    and run: "purge_committed now done_at l (d_org d) db = Inr (Some row, db')" using fresh by (auto split: if_splits)
  let ?db = "record_tx now (d_org d) (ls_worker l) ''org.deletion.completed'' (target_context (ls_id l)) (purged_tables now (d_org d) db)"
  obtain db1 where u: "update_deletion (holds_lease l) (\<lambda>d. release (d\<lparr>d_state := ''completed'', d_completed_at := Some done_at\<rparr>)) ?db = Inr (Some row, db1)"
    and db': "db' = increment_tx PURGE_ATTEMPTS ''completed'' db1"
    using run by (auto simp: purge_committed_def purged_tables_def rbind_eq_Inr_iff Let_def)
  have "deletions ?db = deletions db" by (simp add: purged_tables_def entomb_def delete_members_def delete_projects_tables)
  with u d(1) have r: "row = release (d\<lparr>d_state := ''completed'', d_completed_at := Some done_at\<rparr>)"
    and "\<exists>ds. db1 = ?db\<lparr>deletions := ds\<rparr>" by (auto simp: update_deletion_Inr)
  then have bk: "bookkeeping (purged_tables now (d_org d) db) db'" "orgs db' = orgs (purged_tables now (d_org d) db)"
    by (auto simp: db')
  have "d_org d = dv_org v" using st(2) by (simp add: r release_def)
  with bk mem d(2) gate(1) show ?thesis by (intro exI [of _ d]) (auto simp: purge_gate_ok_def)
qed


subsection \<open>Cancelling\<close>


subsection \<open>Where the lifecycle gets stuck\<close>

text \<open>C37: Once an operator has recorded an observation, no successful billing lookup can end a recovery:
  the write keeps the operator's name beside the provider's source, which the table refuses, so the
  worker fails and the organisation stays frozen with nothing changed.\<close>

theorem operator_observation_blocks_recovery:
  assumes "deletions_ok db" and "d \<in> set (deletions db)" and "holds_lease l d" and "d_billing_source d = Some ''operator''"
    and "recovery_tier obs = Some tier"
  shows "finish_recovery now l obs db = (Inl (Db ''check violation''), db)"
proof -
  have keys: "distinct (map d_id (deletions db))" and checks: "deletion_checks d"
    using assms(1,2) by (simp_all add: deletions_ok_def)
  have "x = d" if "x \<in> set (deletions db)" "holds_lease l x" for x
    using keys assms(2,3) that by (metis distinct_map holds_lease_def inj_onD)
  moreover have "sql_find (holds_lease l) (deletions db) \<noteq> None" using assms(2,3) by (auto simp: sql_find_None_iff)
  ultimately have find: "sql_find (holds_lease l) (deletions db) = Some d" by (metis not_None_eq sql_find_SomeD)
  have "d_observed_by d \<noteq> None"
    using checks assms(4) by (simp add: deletion_checks_def observation_checks_def)
  then have "\<not> deletion_checks (release ((observed now (obs_gate obs) d)\<lparr>d_state := ''cancelled'', d_cancelled_at := Some now,
               d_next_attempt_at := None\<rparr>))"
    by (simp add: deletion_checks_def observation_checks_def release_def observed_def)
  with find assms(5) show ?thesis
    by (simp add: finish_recovery_def update_deletion_def answer_def run_txn_def Let_def)
qed

subsection \<open>Steps of the owner, the operator and the workers\<close>

text \<open>
  The state is the database with the leases granted so far. A worker may act on any of them, however
  late, with whatever the provider returned and whatever it had read before its transaction.
\<close>

inductive deletion_step :: "int \<Rightarrow> db \<times> lease set \<Rightarrow> db \<times> lease set \<Rightarrow> bool" for now where
  request: "request_deletion now new_id days user org body db = (st, db') \<Longrightarrow> deletion_step now (db, ls) (db', ls)"
| cancel: "cancel_deletion now user org db = (st, db') \<Longrightarrow> deletion_step now (db, ls) (db', ls)"
| observe: "record_observation sha pg token now h org ob db = (st, db') \<Longrightarrow> deletion_step now (db, ls) (db', ls)"
| claim: "claim_due now worker db = (r, db') \<Longrightarrow>
    deletion_step now (db, ls) (db', case r of Inr (Some l) \<Rightarrow> insert l ls | _ \<Rightarrow> ls)"
| work: "l \<in> ls \<Longrightarrow> advance now0 db0 now done_at P l db = (r', db') \<Longrightarrow> deletion_step now (db, ls) (db', ls)"

lemma request_deletion_effect:
  assumes "request_deletion now new_id days user org body db = (st, db')" and "deletions_ok db"
  shows "deletion_effect now db db'"
  using assms request_effect [OF _ assms(2)] unfolding request_deletion_def
  by (auto split: sum.splits prod.splits intro: idle)

lemma cancel_deletion_effect:
  assumes "cancel_deletion now user org db = (st, db')" and "deletions_ok db"
  shows "deletion_effect now db db'"
  using assms cancel_effect [OF _ assms(2)] unfolding cancel_deletion_def
  by (auto split: sum.splits prod.splits)

lemma record_observation_effect:
  assumes "record_observation sha pg token now h org ob db = (st, db')" and "deletions_ok db"
  shows "deletion_effect now db db'"
  using assms observation_effect [OF _ assms(2)] unfolding record_observation_def
  by (auto split: sum.splits prod.splits intro: idle)

lemma deletion_step_effect:
  assumes "deletion_step now (db, ls) (db', ls')" and "deletions_ok db" and "\<forall>l \<in> ls. lease_valid l db"
  shows "deletion_effect now db db'"
  using assms(1)
proof (cases rule: deletion_step.cases)
  case (work l)
  with assms(3) show ?thesis by (blast intro: advance_effect lease_valid_fits assms(2))
qed (use assms(2) in \<open>auto intro: request_deletion_effect cancel_deletion_effect record_observation_effect claim_due_effect\<close>)

lemma deletion_step_inv:
  assumes "deletion_step now (db, ls) (db', ls')" and "deletion_inv db" and "\<forall>l \<in> ls. lease_valid l db"
  shows "deletion_inv db'" and "\<forall>l \<in> ls'. lease_valid l db'"
proof -
  note ok = deletion_invD(1) [OF assms(2)]
  note eff = deletion_step_effect [OF assms(1) ok assms(3)]
  show "deletion_inv db'" by (rule deletion_inv_step [OF eff assms(2)])
  have old: "lease_valid l db'" if "l \<in> ls" for l
    using lease_valid_step [OF eff ok] assms(3) that by blast
  from assms(1) show "\<forall>l \<in> ls'. lease_valid l db'"
  proof (cases rule: deletion_step.cases)
    case (claim worker)
    then show ?thesis using old claimed_lease(2) [OF _ ok] by (auto split: sum.splits option.splits)
  qed (use old in auto)
qed

text \<open>An operation that will never complete: its purge has started, or failed and would resume, with a
  billing observation already too old at \<open>t0\<close>, or it is on the way back to the owner.\<close>

definition past_purging :: "int \<Rightarrow> deletion_row \<Rightarrow> bool" where
  "past_purging t0 d \<longleftrightarrow>
     phase_of d \<in> {(''purging'', None), (''failed'', Some ''purging'')} \<and>
       (\<forall>t. d_billing_checked_at d = Some t \<longrightarrow> t < t0 - BILLING_OBSERVATION_MAX_AGE * SECOND) \<or>
     phase_of d \<in> {(''recovering'', None), (''failed'', Some ''recovering''), (''cancelled'', None)}"

lemma past_purging_step:
  assumes "deletion_effect now db db'" and "t0 \<le> now" and "deletions_ok db" and "d \<in> set (deletions db)" "past_purging t0 d"
  shows "\<exists>d' \<in> set (deletions db'). d_id d' = d_id d \<and> past_purging t0 d'"
proof -
  have keys: "distinct (map d_id (deletions db))" using assms(3) by (simp add: deletions_ok_def)
  from assms(1) show ?thesis
  proof cases
    case idle
    with assms(4,5) show ?thesis by (auto simp: no_progress_def)
  next
    case (moved x x')
    have "past_purging t0 x'" if "x = d"
      using moved(6,7) assms(5) unfolding that
      by (cases rule: phase.cases) (auto simp: past_purging_def observation_kept_def phase_of_def)
    with moved(4) assms(4,5) replace_row_set [OF keys moved(1), of x'] show ?thesis
      by (cases "d = x") (auto simp: moved(10) same_operation_def)
  next
    case (requested org og actor days x i)
    with assms(4,5) show ?thesis by auto
  next
    case (recovered x x' tier)
    have "past_purging t0 x'"
      using recovered(3,5) phase_of_live [OF recovered(5)] by (simp add: past_purging_def)
    with recovered(4) assms(4,5) replace_row_set [OF keys recovered(1), of x'] show ?thesis
      by (cases "d = x") (auto simp: recovered(9) same_operation_def)
  next
    case (purged x og x')
    have "x \<noteq> d"
      using purged(3,5) assms(2,5)
      by (auto simp: past_purging_def phase_of_def purge_gate_ok_def fresh_observation_True)
    with assms(4,5) replace_row_set [OF keys purged(1), of x'] show ?thesis
      by (auto simp: purged(11))
  qed
qed

subsection \<open>A deletion in miniature\<close>

definition demo_going :: "deletion_row \<Rightarrow> db" where
  "demo_going d = (set_lifecycle ''acme'' ''deleting'' demo_db)\<lparr>deletions := [d]\<rparr>"

definition demo_op :: deletion_row where
  "demo_op = new_deletion 100 ''op'' ''acme'' ''alice'' 1 None"

definition demo_purging :: "string \<Rightarrow> deletion_row" where
  "demo_purging source = demo_op\<lparr>d_state := ''purging'', d_billing_state := Some ''missing'',
     d_billing_checked_at := Some (100 + DAY), d_billing_source := Some source, d_state_version := 7,
     d_lease_owner := Some ''w1'', d_lease_expires_at := Some (200 + DAY)\<rparr>"

definition demo_lease :: "deletion_state \<Rightarrow> lease" where
  "demo_lease st = \<lparr>ls_id = ''op'', ls_org = ''acme'', ls_state = st, ls_subscription = None, ls_worker = ''w1'',
     ls_version = 7, ls_attempts = 0\<rparr>"

definition demo_recovering :: deletion_row where
  "demo_recovering = (demo_purging ''operator'')\<lparr>d_state := ''recovering'', d_observed_by := Some ''ops'',
     d_reason := Some ''outage'', d_evidence := Some ''ticket 7''\<rparr>"

lemmas demo_row = demo_op_def new_deletion_def demo_purging_def demo_recovering_def DAY_def deletion_checks_def observation_checks_def
  live_states_def not_earlier_def open_op_def

lemma demo_going_inv:
  assumes "deletion_checks d" and "open_op d" and "d_org d = ''acme''"
  shows "deletion_inv (demo_going d)"
proof -
  have org: "find_org (demo_going d) org = (if org = ''acme'' then Some \<lparr>o_id = ''acme'', o_enc_name = Some [7],
     o_created_by = Some ''alice'', o_tier = ''team'', o_trial_ends_at = None, o_lifecycle = ''deleting'',
     o_stripe_customer = None, o_stripe_subscription = None, o_deleted_at = None\<rparr> else None)" for org
    by (simp add: demo_going_def find_org_def set_lifecycle_def demo_eval)
  have dels: "deletions (demo_going d) = [d]" by (simp add: demo_going_def)
  show ?thesis
    using assms by (intro deletion_invI) (auto simp: org dels deletions_ok_def open_op_def split: if_splits)
qed

lemma demo_purging_inv: "deletion_inv (demo_going (demo_purging ''provider''))" "deletion_inv (demo_going demo_op)"
  by (rule demo_going_inv; simp add: demo_row)+

lemma demo_lease_valid: "lease_valid (demo_lease Purging) (demo_going (demo_purging ''provider''))"
proof -
  have "describes (demo_lease Purging) (demo_purging ''provider'')" by (simp add: describes_def demo_lease_def demo_row)
  then show ?thesis unfolding lease_valid_def by (auto simp: demo_going_def)
qed

definition demo_purged :: db where
  "demo_purged = snd (purge (100 + DAY) (101 + DAY) (demo_lease Purging) (demo_going (demo_purging ''provider'')))"

lemma demo_purge: "purge (100 + DAY) (101 + DAY) (demo_lease Purging) (demo_going (demo_purging ''provider'')) =
  (Inr (Some \<lparr>dv_id = ''op'', dv_org = ''acme'', dv_state = Completed\<rparr>), demo_purged)"
proof -
  let ?d = "demo_purging ''provider''" and ?db = "demo_going (demo_purging ''provider'')" and ?now = "100 + DAY"
  have find: "sql_find (holds_lease (demo_lease Purging)) (deletions ?db) = Some ?d"
    by (simp add: demo_going_def sql_find_def holds_lease_def demo_lease_def demo_row)
  have org: "find_org ?db (d_org ?d) = Some \<lparr>o_id = ''acme'', o_enc_name = Some [7],
     o_created_by = Some ''alice'', o_tier = ''team'', o_trial_ends_at = None, o_lifecycle = ''deleting'',
     o_stripe_customer = None, o_stripe_subscription = None, o_deleted_at = None\<rparr>"
    by (simp add: demo_going_def find_org_def set_lifecycle_def demo_eval demo_row)
  have fresh: "fresh_observation ?now ?d = Some True"
    by (simp add: fresh_observation_True BILLING_OBSERVATION_MAX_AGE_def SECOND_def demo_row)
  have row: "d_org ?d = ''acme''" "purge_gate_ok ?d og" if "o_lifecycle og = ''deleting''" "o_stripe_subscription og = None" for og
    using that by (simp_all add: purge_gate_ok_def demo_row)
  have due: "purge_due ?now ?d" by (simp add: purge_due_def demo_row)
  have checks: "deletion_checks (release (?d\<lparr>d_state := ''completed'', d_completed_at := Some (101 + DAY)\<rparr>))"
    by (simp add: release_def demo_row)
  let ?tx = "record_tx ?now (d_org ?d) (ls_worker (demo_lease Purging)) ''org.deletion.completed''
      (target_context (ls_id (demo_lease Purging))) (purged_tables ?now (d_org ?d) ?db)"
  let ?f = "\<lambda>d. release (d\<lparr>d_state := ''completed'', d_completed_at := Some (101 + DAY)\<rparr>)"
  have dels: "deletions ?tx = deletions ?db"
    by (simp add: purged_tables_def entomb_def delete_members_def delete_projects_tables)
  have u: "\<exists>db'. update_deletion (holds_lease (demo_lease Purging)) ?f ?tx = Inr (Some (?f ?d), db')"
    unfolding update_deletion_def dels find using checks by (simp add: require_def)
  have gate: "purge_tx ?now (101 + DAY) (demo_lease Purging) ?db = purge_committed ?now (101 + DAY) (demo_lease Purging) (d_org ?d) ?db"
    unfolding purge_tx_def find option.case org fresh decode_bool_def using row due by (simp add: ok_or_def)
  obtain db' where "purge_committed ?now (101 + DAY) (demo_lease Purging) (d_org ?d) ?db = Inr (Some (?f ?d), db')"
    using u unfolding purge_committed_def purged_tables_def [symmetric] Let_def by (elim exE) (simp add: rbind_def)
  moreover have "view_from_row (ls_id (demo_lease Purging)) (?f ?d) = Inr \<lparr>dv_id = ''op'', dv_org = ''acme'', dv_state = Completed\<rparr>"
    by (simp add: view_from_row_def state_from_db_def release_def demo_lease_def demo_row)
  ultimately have "fst (purge ?now (101 + DAY) (demo_lease Purging) ?db) = Inr (Some \<lparr>dv_id = ''op'', dv_org = ''acme'', dv_state = Completed\<rparr>)"
    unfolding purge_def run_txn_def gate by (simp add: answer_def)
  then show ?thesis unfolding demo_purged_def by (rule fst_eqD)
qed



theorem stale_worker_changes_nothing_witness:
  "deletions (snd (advance 0 empty_db 300 300 None (demo_lease CancellingBilling) (demo_going demo_op))) = [demo_op]"
proof -
  have "\<forall>d. d \<in> set (deletions (demo_going demo_op)) \<longrightarrow> \<not> holds_lease (demo_lease CancellingBilling) d"
    by (simp add: demo_going_def holds_lease_def demo_row)
  note same = stale_worker_changes_nothing [OF prod.collapse [symmetric] this, of 0 empty_db 300 300 None, THEN conjunct1]
  show ?thesis by (subst same) (simp add: demo_going_def)
qed

definition demo_claimed :: deletion_row where
  "demo_claimed = demo_op\<lparr>d_lease_owner := Some ''w1'', d_lease_expires_at := Some 200, d_state_version := 7\<rparr>"

lemma demo_cancel:
  "\<exists>db'. cancel 200 ''acme'' ''alice'' (demo_going demo_claimed) = (Inr \<lparr>dv_id = ''op'', dv_org = ''acme'', dv_state = Recovering\<rparr>, db') \<and>
    db' \<noteq> demo_going demo_claimed"
proof -
  let ?row = "release (demo_claimed\<lparr>d_state := ''recovering'', d_resume_state := None, d_attempt_count := 0,
     d_next_attempt_at := Some 200, d_last_error := None\<rparr>)"
  let ?db = "record_tx 200 ''acme'' ''alice'' ''org.deletion.cancel_requested'' (target_context ''op'')
       (demo_going demo_claimed\<lparr>deletions := [?row]\<rparr>)"
  have org: "find_org (demo_going demo_claimed) ''acme'' = Some \<lparr>o_id = ''acme'', o_enc_name = Some [7],
     o_created_by = Some ''alice'', o_tier = ''team'', o_trial_ends_at = None, o_lifecycle = ''deleting'',
     o_stripe_customer = None, o_stripe_subscription = None, o_deleted_at = None\<rparr>"
    by (simp add: demo_going_def find_org_def set_lifecycle_def demo_eval)
  have mem: "require_owner (demo_going demo_claimed) ''acme'' ''alice'' = Inr ()"
    by (simp add: require_owner_def find_member_def is_membership_def demo_going_def set_lifecycle_def demo_db_def sql_find_def
        role_from_db_def)
  have dels: "deletions (demo_going demo_claimed) = [demo_claimed]" by (simp add: demo_going_def)
  have row: "d_id demo_claimed = ''op''" "d_org demo_claimed = ''acme''" "d_state demo_claimed = ''requested''"
    by (simp_all add: demo_claimed_def demo_row)
  have op: "open_deletion ''acme'' (demo_going demo_claimed) = Some demo_claimed"
    unfolding open_deletion_def latest_deletion_def dels by (simp add: sql_select_def open_op_def row)
  have checks: "deletion_checks ?row" by (simp add: release_def demo_claimed_def demo_row)
  have "cancel_tx 200 ''acme'' ''alice'' (demo_going demo_claimed) = Inr (\<lparr>dv_id = ''op'', dv_org = ''acme'', dv_state = Recovering\<rparr>, ?db)"
    using checks
    by (simp add: cancel_tx_def org mem op lifecycle_from_db_def ok_or_def update_deletion_def dels sql_find_def sql_update_def
        state_from_db_def can_cancel_def row)
  moreover have "?db \<noteq> demo_going demo_claimed"
  proof
    assume "?db = demo_going demo_claimed"
    from arg_cong [OF this, of deletions] have "?row = demo_claimed" by (simp add: dels)
    from arg_cong [OF this, of d_state] show False by (simp add: release_def row)
  qed
  ultimately show ?thesis by (intro exI [of _ ?db]) (simp add: cancel_def run_txn_def)
qed


theorem operator_observation_blocks_recovery_witness:
  "finish_recovery 300 (demo_lease Recovering) ObsMissing (demo_going demo_recovering) =
    (Inl (Db ''check violation''), demo_going demo_recovering)"
proof (rule operator_observation_blocks_recovery)
  show "deletions_ok (demo_going demo_recovering)"
    by (rule deletion_invD(1) [OF demo_going_inv]) (simp_all add: demo_row)
  show "demo_recovering \<in> set (deletions (demo_going demo_recovering))" by (simp add: demo_going_def)
  show "holds_lease (demo_lease Recovering) demo_recovering" by (simp add: holds_lease_def demo_lease_def demo_row)
  show "d_billing_source demo_recovering = Some ''operator''" by (simp add: demo_row)
  show "recovery_tier ObsMissing = Some ''free''" by (simp add: recovery_tier_def)
qed

end
