(* ===== verification/Deletion_Progress.thy ===== *)
theory Deletion_Progress
  imports Deletion_Machine
begin

text \<open>
  The deletion lifecycle moves: when nothing stands in the way, each turn of a worker (\<open>run_once\<close>)
  takes the operation one phase on, and four turns, the first two at any time after the request and
  the last two after the retention window, end with the tombstone.
\<close>

subsection \<open>Claiming the only open operation\<close>

definition sole :: "deletion_row \<Rightarrow> db \<Rightarrow> bool" where
  "sole d db \<longleftrightarrow> d \<in> set (deletions db) \<and> (\<forall>x \<in> set (deletions db). open_op x \<longrightarrow> x = d)"

lemma next_due_sole:
  assumes "sole d db" and "claimable_op now d"
  shows "next_due now db = Some d"
proof (cases "next_due now db")
  case None
  then have "sort_key due_time (sort_key d_id (sql_select (claimable_op now) (deletions db))) = []"
    by (simp add: next_due_def split: list.splits)
  then have "set (sql_select (claimable_op now) (deletions db)) = {}" by (metis set_sort set_empty)
  with assms show ?thesis by (auto simp: sole_def)
next
  case (Some x)
  with assms(1) show ?thesis using next_due_SomeD [OF Some] claimable_open by (auto simp: sole_def)
qed

lemma update_hit:
  assumes "deletions_ok db" and "d \<in> set (deletions db)" and "p d" and "\<And>x. p x \<Longrightarrow> d_id x = d_id d" and "deletion_checks (f d)"
  shows "update_deletion p f db = Inr (Some (f d), db\<lparr>deletions := replace_row d (f d) (deletions db)\<rparr>)"
proof -
  have only: "x = d" if "x \<in> set (deletions db)" "p x" for x
    using assms(1,2) assms(4) [OF that(2)] that(1) by (metis deletions_ok_def distinct_map inj_onD)
  have "sql_find p (deletions db) \<noteq> None" using assms(2,3) by (auto simp: sql_find_None_iff)
  then have find: "sql_find p (deletions db) = Some d" using only by (metis not_None_eq sql_find_SomeD)
  have "(if p x then f x else x) = (if d_id x = d_id d then f d else x)" if x: "x \<in> set (deletions db)" for x
  proof (cases "d_id x = d_id d")
    case True
    then have "x = d" using assms(1,2) x by (metis deletions_ok_def distinct_map inj_onD)
    with assms(3) show ?thesis by simp
  next
    case False
    with assms(4) show ?thesis by auto
  qed
  then have "sql_update p f (deletions db) = replace_row d (f d) (deletions db)"
    by (simp add: replace_row_def sql_update_def)
  with find assms(5) show ?thesis by (simp add: update_deletion_def)
qed

lemma replaced_ok:
  assumes "deletions_ok db" and "d \<in> set (deletions db)" and "d_id d' = d_id d" and "deletion_checks d'"
    and "deletions db' = replace_row d d' (deletions db)"
  shows "deletions_ok db'" and "d' \<in> set (deletions db')"
proof -
  have set: "set (deletions db') = insert d' (set (deletions db) - {d})"
    using replace_row_set [of "deletions db" d d'] assms by (simp add: deletions_ok_def)
  then show "d' \<in> set (deletions db')" by simp
  show "deletions_ok db'"
    using assms(1,4) set by (auto simp: deletions_ok_def) (simp add: assms(5) replace_row_ids [OF assms(3)])
qed

lemma replaced_sole:
  assumes "deletions_ok db" and "sole d db" and "d_id d' = d_id d" and "deletions db' = replace_row d d' (deletions db)"
  shows "sole d' db'"
proof -
  have "set (deletions db') = insert d' (set (deletions db) - {d})"
    using replace_row_set [of "deletions db" d d'] assms by (simp add: deletions_ok_def sole_def)
  with assms(2) show ?thesis by (auto simp: sole_def)
qed

lemma replace_twice:
  "d_id d' = d_id d \<Longrightarrow> replace_row d' d'' (replace_row d d' t) = replace_row d d'' t"
  by (auto simp: replace_row_def sql_update_def)

text \<open>One step of the chain: the row replaced, the organisations as they were.\<close>

definition turned :: "deletion_row \<Rightarrow> deletion_row \<Rightarrow> db \<Rightarrow> db \<Rightarrow> bool" where
  "turned d d' db db' \<longleftrightarrow> deletions db' = replace_row d d' (deletions db) \<and> orgs db' = orgs db \<and> bookkeeping db db' \<and>
     deletion_checks d' \<and> d_id d' = d_id d \<and> d_org d' = d_org d \<and> d_subscription d' = d_subscription d \<and>
     d_requested_at d' = d_requested_at d \<and> d_purge_after d' = d_purge_after d"

lemma turned_trans: "turned d d1 db db1 \<Longrightarrow> turned d1 d2 db1 db2 \<Longrightarrow> turned d d2 db db2"
  by (auto simp: turned_def replace_twice intro: bookkeeping_trans)

lemma claim_sole:
  assumes ok: "deletions_ok db" and "sole d db" and "claimable_op now d" and "worker \<noteq> []" and "d_state d = state_str st"
    and "d_requested_at d \<le> now"
  obtains l db1 where "claim_due now worker db = (Inr (Some l), db1)" "turned d (take_lease now worker d) db db1"
    "holds_lease l (take_lease now worker d)" "ls_id l = d_id d" "ls_org l = d_org d" "ls_state l = st"
    "ls_subscription l = d_subscription d"
proof -
  let ?d = "take_lease now worker d"
  let ?db = "db\<lparr>deletions := replace_row d ?d (deletions db)\<rparr>"
  define db1 where "db1 = (if d_lease_expires_at d = None then ?db else increment_tx LEASE_EXPIRIES ''reclaimed'' ?db)"
  have d: "d \<in> set (deletions db)" "deletion_checks d" using assms(2) ok by (auto simp: sole_def deletions_ok_def)
  then have checks: "deletion_checks ?d"
    using assms(6) by (auto simp: deletion_checks_def take_lease_def not_earlier_def observation_checks_def LEASE_def SECOND_def)
  have "claim_tx now worker db = Inr (Some ?d, db1)"
    by (simp add: claim_tx_def next_due_sole [OF assms(2,3)] update_hit [OF ok d(1), where f = "take_lease now worker"] checks db1_def)
  moreover have "d_state ?d = state_str st" "d_id ?d = d_id d" "d_org ?d = d_org d" "d_subscription ?d = d_subscription d"
    using assms(5) by (simp_all add: take_lease_def)
  ultimately have "claim_due now worker db = (Inr (Some \<lparr>ls_id = d_id d, ls_org = d_org d, ls_state = st,
      ls_subscription = d_subscription d, ls_worker = worker, ls_version = d_state_version ?d,
      ls_attempts = d_attempt_count ?d\<rparr>), db1)"
    using assms(4) by (simp add: claim_due_def run_txn_def deletion_codec.dec_enc)
  moreover have "turned d ?d db db1"
    using checks by (simp add: turned_def db1_def take_lease_def)
  ultimately show ?thesis by (rule that) (simp_all add: holds_lease_def take_lease_def)
qed

subsection \<open>Turns\<close>

lemma turned_ok:
  assumes "turned d d' db db'" and "deletions_ok db" and "sole d db"
  shows "deletions_ok db'" and "d' \<in> set (deletions db')" and "sole d' db'"
  using assms replaced_ok [of db d d' db'] replaced_sole [of db d d' db'] by (auto simp: turned_def sole_def)

lemma turned_update:
  assumes ok: "deletions_ok db" and "d \<in> set (deletions db)" and "holds_lease l d" and "p d" and "\<And>x. p x \<Longrightarrow> holds_lease l x"
    and "deletion_checks (f d)"
    and "d_id (f d) = d_id d \<and> d_org (f d) = d_org d \<and> d_subscription (f d) = d_subscription d \<and>
      d_requested_at (f d) = d_requested_at d \<and> d_purge_after (f d) = d_purge_after d"
  obtains db1 where "update_deletion p f db = Inr (Some (f d), db1)" "turned d (f d) db db1"
proof -
  have "d_id x = d_id d" if "p x" for x using assms(3,5) that by (auto simp: holds_lease_def)
  with update_hit [of db d p f] ok assms(2,4,6)
  have u: "update_deletion p f db = Inr (Some (f d), db\<lparr>deletions := replace_row d (f d) (deletions db)\<rparr>)" by blast
  then show ?thesis using assms(6,7) by (intro that [OF u]) (simp_all add: turned_def)
qed

lemma turned_books:
  assumes "turned d d' db db1" and "no_progress db1 db2"
  shows "turned d d' db db2"
  using assms bookkeeping_trans unfolding turned_def no_progress_def by fastforce

lemma requested_turn:
  assumes ok: "deletions_ok db" and "sole d db" and "claimable_op now d" and "worker \<noteq> []" and "d_state d = ''requested''"
    and "d_requested_at d \<le> now"
  shows "\<exists>db' d'. run_once now done_at worker P db = (Inr True, db') \<and> turned d d' db db' \<and>
    d_state d' = ''cancelling_billing'' \<and> d_lease_expires_at d' = None \<and> d_next_attempt_at d' = Some now \<and>
    d_billing_source d' = d_billing_source d"
proof -
  have "d_state d = state_str Requested" using assms(5) by simp
  from claim_sole [OF assms(1-4) this assms(6)] obtain l db1 where c: "claim_due now worker db = (Inr (Some l), db1)"
    "turned d (take_lease now worker d) db db1" "holds_lease l (take_lease now worker d)" "ls_id l = d_id d" "ls_org l = d_org d"
    "ls_state l = Requested" "ls_subscription l = d_subscription d" .
  let ?d = "take_lease now worker d"
  let ?f = "\<lambda>d. release (d\<lparr>d_state := state_str CancellingBilling, d_next_attempt_at := Some now\<rparr>)"
  have d1: "deletions_ok db1" "?d \<in> set (deletions db1)" using turned_ok [OF c(2) ok assms(2)] by simp_all
  have "deletion_checks ?d" using c(2) by (simp add: turned_def)
  then have checks: "deletion_checks (?f ?d)"
    using assms(5,6) by (auto simp: deletion_checks_def take_lease_def release_def not_earlier_def observation_checks_def live_states_def)
  obtain db2 where u: "update_deletion (holds_lease l) ?f db1 = Inr (Some (?f ?d), db2)" "turned ?d (?f ?d) db1 db2"
    by (rule turned_update [where p = "holds_lease l" and f = ?f, OF d1 c(3) c(3) _ checks]) (simp_all add: release_def take_lease_def)
  have "run_once now done_at worker P db = (Inr True, db2)"
    using u(1)
    by (simp add: run_once_def c(1) advance_def c(6) transition_state_def run_txn_def answer_def view_from_row_def
        stale_counter_def release_def state_from_db_def)
  with turned_trans [OF c(2) u(2)] show ?thesis
    by (intro exI [of _ db2] exI [of _ "?f ?d"]) (simp add: release_def take_lease_def)
qed

text \<open>The provider says the subscription has ended, or there is none.\<close>

definition over :: "observation \<Rightarrow> bool" where
  "over obs \<longleftrightarrow> obs_gate obs = Terminal \<or> obs_gate obs = Missing"

definition billing_ended :: "provider option \<Rightarrow> deletion_row \<Rightarrow> bool" where
  "billing_ended P d \<longleftrightarrow> (case d_subscription d of
       None \<Rightarrow> True
     | Some sub \<Rightarrow> \<exists>p c g. P = Some p \<and> pv_cancel p sub (''org-deletion-'' @ d_id d) (d_org d) = Inr c \<and> over c \<and>
         pv_get p sub = Inr g \<and> over g)"

text \<open>Once its billing is over, the row carries a fresh observation of the provider.\<close>

definition seen :: "int \<Rightarrow> deletion_row \<Rightarrow> bool" where
  "seen t d \<longleftrightarrow> d_billing_checked_at d = Some t \<and> d_billing_state d \<in> {Some ''terminal'', Some ''missing''} \<and>
     d_billing_source d = Some ''provider''"

lemma over_seen: "over obs \<Longrightarrow> seen now (observed now (obs_gate obs) d)"
  by (auto simp: over_def seen_def observed_def)

lemma finish_billing_turn:
  assumes ok: "deletions_ok db1" and d: "d \<in> set (deletions db1)" "holds_lease l d" and "over obs"
    and "d_billing_source d \<noteq> Some ''operator''" and "d_requested_at d \<le> now" and "d_state d = ''cancelling_billing''"
  shows "\<exists>v db2 d'. finish_billing now l obs db1 = (Inr v, db2) \<and> turned d d' db1 db2 \<and> d_state d' = ''retention'' \<and>
    d_lease_expires_at d' = None \<and> d_next_attempt_at d' = None \<and> seen now d'"
proof -
  let ?f = "\<lambda>d. release ((observed now (obs_gate obs) d)\<lparr>d_state := state_str Retention, d_next_attempt_at := None\<rparr>)"
  have "deletion_checks d" using ok d(1) by (simp add: deletions_ok_def)
  then have checks: "deletion_checks (?f d)"
    using assms(4-7) by (auto simp: over_def deletion_checks_def release_def observed_def not_earlier_def observation_checks_def live_states_def)
  obtain db2 where u: "update_deletion (holds_lease l) ?f db1 = Inr (Some (?f d), db2)" "turned d (?f d) db1 db2"
    by (rule turned_update [where p = "holds_lease l" and f = ?f, OF ok d d(2) _ checks]) (simp_all add: release_def observed_def)
  have gate: "billing_transition (obs_gate obs) = Some Retention" using assms(4) by (auto simp: over_def)
  let ?db = "stale_counter (Some (?f d)) (audit_worker now l ''org.deletion.billing_cancelled''
      (Some (billing_state_name (obs_gate obs))) (Some (?f d))
      (if ls_subscription l = None then db2 else increment_tx PROVIDER_CANCELLATION_ATTEMPTS (billing_state_name (obs_gate obs)) db2))"
  have "\<exists>v. finish_billing now l obs db1 = (Inr v, ?db)"
    using u(1) by (simp add: finish_billing_def gate run_txn_def answer_def view_from_row_def release_def state_from_db_def Let_def)
  moreover have "turned d (?f d) db1 ?db" by (rule turned_books [OF u(2)]) simp
  moreover have "seen now (?f d)" using over_seen [OF assms(4)] by (simp add: seen_def release_def)
  ultimately show ?thesis by (auto simp: release_def intro!: exI [of _ ?db] exI [of _ "?f d"])
qed

lemma purging_turn:
  assumes ok: "deletions_ok db1" and d: "d \<in> set (deletions db1)" "holds_lease l d" and "d_state d = ''retention''"
    and "d_purge_after d \<le> now" and "seen t0 d" and obs: "d_subscription d \<noteq> None \<longrightarrow> over obs"
    and run: "r = (if d_subscription d = None then enter_purging now l db1 else finish_retention_reconciliation now l obs db1)"
  shows "\<exists>v db2 d'. r = (Inr v, db2) \<and> turned d d' db1 db2 \<and> d_state d' = ''purging'' \<and>
    d_lease_expires_at d' = None \<and> seen now d'"
proof -
  have c: "deletion_checks d" using ok d(1) by (simp add: deletions_ok_def)
  then have due: "d_requested_at d \<le> now" using assms(5) by (simp add: deletion_checks_def)
  show ?thesis
  proof (cases "d_subscription d = None")
    case True
    let ?p = "\<lambda>d. holds_lease l d \<and> d_state d = ''retention'' \<and> purge_due now d"
    let ?f = "\<lambda>d. release ((start_purge now d)\<lparr>d_billing_checked_at :=
          (if d_subscription d = None then Some now else d_billing_checked_at d)\<rparr>)"
    have checks: "deletion_checks (?f d)"
      using c due assms(4,6) True
      by (auto simp: seen_def deletion_checks_def release_def start_purge_def not_earlier_def observation_checks_def live_states_def
          split: option.splits)
    have p: "?p d" using d(2) assms(4,5) by (simp add: purge_due_def)
    obtain db2 where u: "update_deletion ?p ?f db1 = Inr (Some (?f d), db2)" "turned d (?f d) db1 db2"
      by (rule turned_update [where p = ?p and f = ?f, OF ok d p _ checks]) (simp_all add: release_def start_purge_def)
    let ?db = "stale_counter (Some (?f d)) (audit_worker now l ''org.deletion.purge_started'' None (Some (?f d)) db2)"
    have "\<exists>v. enter_purging now l db1 = (Inr v, ?db)"
      using u(1) by (simp add: enter_purging_def run_txn_def answer_def view_from_row_def release_def start_purge_def state_from_db_def)
    moreover have "turned d (?f d) db1 ?db" by (rule turned_books [OF u(2)]) simp
    moreover have "seen now (?f d)" using assms(6) True by (simp add: seen_def release_def start_purge_def)
    ultimately show ?thesis using run True by (auto simp: release_def start_purge_def intro!: exI [of _ ?db] exI [of _ "?f d"])
  next
    case False
    then have over: "over obs" using obs by simp
    let ?p = "\<lambda>d. holds_lease l d \<and> purge_due now d"
    let ?f = "\<lambda>d. release (start_purge now (observed now (obs_gate obs) d))"
    have checks: "deletion_checks (?f d)"
      using c due assms(4,6) over
      by (auto simp: over_def seen_def observed_def deletion_checks_def release_def start_purge_def not_earlier_def observation_checks_def
          live_states_def split: option.splits)
    have p: "?p d" using d(2) assms(5) by (simp add: purge_due_def)
    obtain db2 where u: "update_deletion ?p ?f db1 = Inr (Some (?f d), db2)" "turned d (?f d) db1 db2"
      by (rule turned_update [where p = ?p and f = ?f, OF ok d p _ checks]) (simp_all add: release_def start_purge_def observed_def)
    let ?db = "audit_worker now l ''org.deletion.purge_started'' None (Some (?f d)) (stale_counter (Some (?f d))
      (increment_tx PROVIDER_RECONCILIATION_ATTEMPTS (billing_state_name (obs_gate obs)) db2))"
    have "\<exists>v. finish_retention_reconciliation now l obs db1 = (Inr v, ?db)"
      using u(1) over by (auto simp: over_def finish_retention_reconciliation_def run_txn_def answer_def view_from_row_def release_def
          start_purge_def observed_def state_from_db_def Let_def)
    moreover have "turned d (?f d) db1 ?db" by (rule turned_books [OF u(2)]) simp
    moreover have "seen now (?f d)" using over_seen [OF over] by (simp add: seen_def release_def start_purge_def)
    ultimately show ?thesis using run False by (auto simp: release_def start_purge_def intro!: exI [of _ ?db] exI [of _ "?f d"])
  qed
qed

lemma take_lease_keeps:
  "d_state (take_lease now worker d) = d_state d" "d_billing_source (take_lease now worker d) = d_billing_source d"
  "d_id (take_lease now worker d) = d_id d" "d_org (take_lease now worker d) = d_org d"
  "d_subscription (take_lease now worker d) = d_subscription d" "d_requested_at (take_lease now worker d) = d_requested_at d"
  "d_purge_after (take_lease now worker d) = d_purge_after d" "seen t (take_lease now worker d) = seen t d"
  by (simp_all add: take_lease_def seen_def)

lemma billing_turn:
  assumes ok: "deletions_ok db" and "sole d db" and "claimable_op now d" and "worker \<noteq> []" and st: "d_state d = ''cancelling_billing''"
    and "d_requested_at d \<le> now" and "billing_ended P d" and "d_billing_source d \<noteq> Some ''operator''"
  shows "\<exists>db' d'. run_once now done_at worker P db = (Inr True, db') \<and> turned d d' db db' \<and> d_state d' = ''retention'' \<and>
    d_lease_expires_at d' = None \<and> d_next_attempt_at d' = None \<and> seen now d'"
proof -
  let ?d = "take_lease now worker d"
  have "d_state d = state_str CancellingBilling" using st by simp
  from claim_sole [OF assms(1-4) this assms(6)] obtain l db1 where c: "claim_due now worker db = (Inr (Some l), db1)"
    "turned d ?d db db1" "holds_lease l ?d" "ls_id l = d_id d" "ls_org l = d_org d"
    "ls_state l = CancellingBilling" "ls_subscription l = d_subscription d" .
  note d1 = turned_ok [OF c(2) ok assms(2)]
  obtain obs where obs: "over obs" "advance_billing now P l False db1 = finish_billing now l obs db1"
  proof (cases "d_subscription d")
    case None
    then show ?thesis by (intro that [of ObsMissing]) (simp_all add: over_def advance_billing_def c)
  next
    case (Some sub)
    with assms(7) obtain p x where "P = Some p" "pv_cancel p sub (''org-deletion-'' @ d_id d) (d_org d) = Inr x" "over x"
      by (auto simp: billing_ended_def)
    with Some show ?thesis by (intro that [of x]) (simp_all add: advance_billing_def c)
  qed
  from finish_billing_turn [OF d1(1,2) c(3) obs(1), of now] obtain v db2 d' where
    f: "finish_billing now l obs db1 = (Inr v, db2)" "turned ?d d' db1 db2" "d_state d' = ''retention''"
      "d_lease_expires_at d' = None" "d_next_attempt_at d' = None" "seen now d'"
    using assms(6,8) st by (auto simp: take_lease_keeps)
  have "run_once now done_at worker P db = (Inr True, db2)"
    by (simp add: run_once_def c advance_def obs(2) f(1))
  with turned_trans [OF c(2) f(2)] f(3-6) show ?thesis by blast
qed

lemma retention_turn:
  assumes ok: "deletions_ok db" and "sole d db" and "claimable_op now d" and "worker \<noteq> []" and st: "d_state d = ''retention''"
    and "d_purge_after d \<le> now" and "billing_ended P d" and "seen t d"
  shows "\<exists>db' d'. run_once now done_at worker P db = (Inr True, db') \<and> turned d d' db db' \<and> d_state d' = ''purging'' \<and>
    d_lease_expires_at d' = None \<and> seen now d'"
proof -
  let ?d = "take_lease now worker d"
  have d: "d \<in> set (deletions db)" "deletion_checks d" using assms(2) ok by (auto simp: sole_def deletions_ok_def)
  have "d_state d = state_str Retention" "d_requested_at d \<le> now"
    using st d(2) assms(6) by (simp_all add: deletion_checks_def)
  from claim_sole [OF assms(1-4) this] obtain l db1 where c: "claim_due now worker db = (Inr (Some l), db1)"
    "turned d ?d db db1" "holds_lease l ?d" "ls_id l = d_id d" "ls_org l = d_org d"
    "ls_state l = Retention" "ls_subscription l = d_subscription d" .
  note d1 = turned_ok [OF c(2) ok assms(2)]
  obtain obs where obs: "d_subscription d \<noteq> None \<longrightarrow> over obs" "advance_retention now db1 now P l db1 =
      (if d_subscription d = None then enter_purging now l db1 else finish_retention_reconciliation now l obs db1)"
  proof (cases "d_subscription d")
    case None
    then show ?thesis by (intro that [of ObsMissing]) (simp_all add: advance_retention_def c)
  next
    case (Some sub)
    with assms(7) obtain p x where "P = Some p" "pv_get p sub = Inr x" "over x" by (auto simp: billing_ended_def)
    with Some show ?thesis by (intro that [of x]) (simp_all add: advance_retention_def c)
  qed
  from purging_turn [OF d1(1,2) c(3), of now t obs] obtain v db2 d' where
    f: "(if d_subscription d = None then enter_purging now l db1 else finish_retention_reconciliation now l obs db1) = (Inr v, db2)"
      "turned ?d d' db1 db2" "d_state d' = ''purging''" "d_lease_expires_at d' = None" "seen now d'"
    using st assms(6,8) obs(1) unfolding take_lease_keeps by blast
  have "run_once now done_at worker P db = (Inr True, db2)"
    by (simp add: run_once_def c advance_def obs(2) f(1))
  with turned_trans [OF c(2) f(2)] f(3-5) show ?thesis by blast
qed

lemma purge_turn:
  assumes ok: "deletions_ok db" and "sole d db" and "claimable_op now d" and "worker \<noteq> []" and st: "d_state d = ''purging''"
    and "d_purge_after d \<le> now" and "seen t d" and "now - BILLING_OBSERVATION_MAX_AGE * SECOND \<le> t" and "now \<le> done_at"
    and og: "find_org db (d_org d) = Some og" "o_lifecycle og = ''deleting''"
    and "o_stripe_subscription og = None \<or> o_stripe_subscription og = d_subscription d"
  shows "\<exists>db'. run_once now done_at worker P db = (Inr True, db') \<and> find_org db' (d_org d) = Some (tombstone now og) \<and>
    (\<exists>d' \<in> set (deletions db'). d_id d' = d_id d \<and> d_state d' = ''completed'') \<and>
    bookkeeping (purged_tables now (d_org d) db) db'"
proof -
  let ?d = "take_lease now worker d"
  have d: "d \<in> set (deletions db)" "deletion_checks d" using assms(2) ok by (auto simp: sole_def deletions_ok_def)
  have req: "d_requested_at d \<le> now" using d(2) assms(6) by (simp add: deletion_checks_def)
  have "d_state d = state_str Purging" using st by simp
  from claim_sole [OF assms(1-4) this req] obtain l db1 where c: "claim_due now worker db = (Inr (Some l), db1)"
    "turned d ?d db db1" "holds_lease l ?d" "ls_id l = d_id d" "ls_org l = d_org d"
    "ls_state l = Purging" "ls_subscription l = d_subscription d" .
  note d1 = turned_ok [OF c(2) ok assms(2)]
  let ?tx = "record_tx now (d_org d) (ls_worker l) ''org.deletion.completed'' (target_context (ls_id l)) (purged_tables now (d_org d) db1)"
  let ?f = "\<lambda>d. release (d\<lparr>d_state := ''completed'', d_completed_at := Some done_at\<rparr>)"
  have dels: "deletions ?tx = deletions db1"
    by (simp add: purged_tables_def entomb_def delete_members_def delete_projects_tables)
  then have tx: "deletions_ok ?tx" "?d \<in> set (deletions ?tx)" using d1(1,2) unfolding deletions_ok_def dels by simp_all
  have c': "deletion_checks ?d" using d1(1,2) by (simp add: deletions_ok_def)
  have checks: "deletion_checks (?f ?d)"
    using c' st req assms(9) by (auto simp: deletion_checks_def release_def not_earlier_def observation_checks_def live_states_def take_lease_keeps)
  obtain db2 where u: "update_deletion (holds_lease l) ?f ?tx = Inr (Some (?f ?d), db2)" "turned ?d (?f ?d) ?tx db2"
    by (rule turned_update [where p = "holds_lease l" and f = ?f, OF tx c(3) c(3) _ checks]) (simp_all add: release_def)
  let ?db = "increment_tx PURGE_ATTEMPTS ''completed'' db2"
  have only: "x = ?d" if "x \<in> set (deletions db1)" "holds_lease l x" for x
    using d1(1,2) c(3) that by (metis deletions_ok_def distinct_map holds_lease_def inj_onD)
  have "sql_find (holds_lease l) (deletions db1) \<noteq> None" using d1(2) c(3) by (auto simp: sql_find_None_iff)
  then have find: "sql_find (holds_lease l) (deletions db1) = Some ?d" using only by (metis not_None_eq sql_find_SomeD)
  have orgs1: "orgs db1 = orgs db" using c(2) by (simp add: turned_def)
  then have og1: "find_org db1 (d_org d) = Some og" using og(1) by (simp add: find_org_def)
  have seen: "seen t ?d" using assms(7) by (simp add: take_lease_keeps)
  then have fresh: "fresh_observation now ?d = Some True"
    using assms(8) by (auto simp: fresh_observation_True seen_def)
  have gate: "purge_gate_ok ?d og \<and> purge_due now ?d"
    using seen assms(6,12) og(2) st by (auto simp: purge_gate_ok_def purge_due_def take_lease_keeps seen_def)
  have "purge_tx now done_at l db1 = purge_committed now done_at l (d_org d) db1"
    by (simp add: purge_tx_def find take_lease_keeps og1 fresh gate decode_bool_def)
  also have "\<dots> = Inr (Some (?f ?d), ?db)"
    using u(1) by (simp add: purge_committed_def purged_tables_def Let_def)
  finally have "run_once now done_at worker P db = (Inr True, ?db)"
    by (simp add: run_once_def c advance_def purge_def run_txn_def answer_def view_from_row_def release_def state_from_db_def)
  moreover have "orgs ?db = orgs (purged_tables now (d_org d) db)"
    using u(2) by (simp add: turned_def purged_tables_def entomb_def delete_members_def delete_projects_tables orgs1)
  then have "find_org ?db (d_org d) = Some (tombstone now og)"
    using find_org_purged [of ?db now "d_org d" db "d_org d"] og find_org_id [OF og(1)] by simp
  moreover have "?f ?d \<in> set (deletions ?db)"
    using replaced_ok(2) [OF tx, of "?f ?d" db2] u(2) by (simp add: turned_def)
  then have "\<exists>d' \<in> set (deletions ?db). d_id d' = d_id d \<and> d_state d' = ''completed''"
    by (intro bexI [of _ "?f ?d"]) (simp_all add: release_def take_lease_keeps)
  moreover have "bookkeeping (purged_tables now (d_org d) db) ?db"
  proof -
    have b1: "bookkeeping db db1" using c(2) by (simp add: turned_def)
    have "bookkeeping (purged_tables now (d_org d) db) (purged_tables now (d_org d) db1)"
      using b1 by (cases db; cases db1)
        (simp add: bookkeeping_def purged_tables_def entomb_def delete_members_def delete_projects_def doomed_envs_def Let_def)
    moreover have "bookkeeping ?tx db2" using u(2) by (simp add: turned_def)
    ultimately show ?thesis using bookkeeping_trans by (meson bookkeeping_after(1) bookkeeping_record)
  qed
  ultimately show ?thesis by blast
qed

subsection \<open>Four turns\<close>

definition turns :: "(int \<times> int) list \<Rightarrow> string \<Rightarrow> provider option \<Rightarrow> db \<Rightarrow> db" where
  "turns ts worker P db = fold (\<lambda>(now, done_at) db. snd (run_once now done_at worker P db)) ts db"

text \<open>C13: A requested deletion that nothing stands in the way of completes: once the subscription, if there
  is one, is reported ended, four turns of a worker take it through its phases, the third when the
  retention window is over and the fourth within fifteen minutes of it, and leave the tombstone
  with no project and no member.\<close>

theorem undisturbed_deletion_completes:
  assumes "deletion_inv db" and "sole d db" and "worker \<noteq> []" and "d_state d = ''requested''" and "claimable_op t1 d"
    and "find_org db (d_org d) = Some og" and "o_stripe_subscription og = None \<or> o_stripe_subscription og = d_subscription d"
    and "billing_ended P d" and "d_billing_source d \<noteq> Some ''operator''"
    and "d_requested_at d \<le> t1" and "t1 \<le> t2" and "t2 \<le> t3" and "d_purge_after d \<le> t3"
    and "t3 \<le> t4" and "t4 \<le> t3 + 15 * 60 * 1000000" and "t4 \<le> done_at"
  shows "(\<exists>d'. d' \<in> set (deletions (turns [(t1, t1), (t2, t2), (t3, t3), (t4, done_at)] worker P db)) \<and>
      d_id d' = d_id d \<and> d_state d' = ''completed'') \<and>
    (find_org (turns [(t1, t1), (t2, t2), (t3, t3), (t4, done_at)] worker P db) (d_org d) = Some (tombstone t4 og)) \<and>
    (\<forall>m. m \<in> set (members (turns [(t1, t1), (t2, t2), (t3, t3), (t4, done_at)] worker P db)) \<longrightarrow> m_org m \<noteq> d_org d) \<and>
    (\<forall>p. p \<in> set (projects (turns [(t1, t1), (t2, t2), (t3, t3), (t4, done_at)] worker P db)) \<longrightarrow> p_org p \<noteq> Some (d_org d))"
proof -
  note ok = deletion_invD(1) [OF assms(1)]
  have ended: "billing_ended P x" if "turned d x db db'" for x db'
    using assms(8) that by (cases "d_subscription d") (simp_all add: billing_ended_def turned_def)
  obtain db1 d1 where s1: "run_once t1 t1 worker P db = (Inr True, db1)" "turned d d1 db db1" "d_state d1 = ''cancelling_billing''"
      "d_lease_expires_at d1 = None" "d_next_attempt_at d1 = Some t1" "d_billing_source d1 = d_billing_source d"
    using requested_turn [OF ok assms(2,5,3,4,10)] by blast
  note i1 = turned_ok [OF s1(2) ok assms(2)]
  have "claimable_op t2 d1" using s1(3-5) assms(11) by (simp add: claimable_op_def past_def)
  moreover have "d_requested_at d1 \<le> t2" using s1(2) assms(10,11) by (simp add: turned_def)
  ultimately obtain db2 d2 where s2: "run_once t2 t2 worker P db1 = (Inr True, db2)" "turned d1 d2 db1 db2" "d_state d2 = ''retention''"
      "d_lease_expires_at d2 = None" "d_next_attempt_at d2 = None" "seen t2 d2"
    using billing_turn [OF i1(1,3) _ assms(3) s1(3) _ ended [OF s1(2)]] s1(6) assms(9) by fastforce
  note i2 = turned_ok [OF s2(2) i1(1,3)] and t2 = turned_trans [OF s1(2) s2(2)]
  have due: "d_purge_after d2 \<le> t3" using t2 assms(13) by (simp add: turned_def)
  have "claimable_op t3 d2" using s2(3-5) due by (simp add: claimable_op_def past_def)
  then obtain db3 d3 where s3: "run_once t3 t3 worker P db2 = (Inr True, db3)" "turned d2 d3 db2 db3" "d_state d3 = ''purging''"
      "d_lease_expires_at d3 = None" "seen t3 d3"
    using retention_turn [OF i2(1,3) _ assms(3) s2(3) due ended [OF t2] s2(6)] by blast
  note i3 = turned_ok [OF s3(2) i2(1,3)] and t3 = turned_trans [OF t2 s3(2)]
  have org3: "d_org d3 = d_org d" "d_id d3 = d_id d" "d_subscription d3 = d_subscription d" "find_org db3 = find_org db"
    using t3 by (simp_all add: turned_def find_org_def fun_eq_iff)
  have due: "d_purge_after d3 \<le> t4" using t3 assms(13,14) by (simp add: turned_def)
  have claim: "claimable_op t4 d3" using s3(3,4) due by (simp add: claimable_op_def past_def)
  have "o_lifecycle og = ''deleting''"
    using deletion_invD(3) [OF assms(1), of d] assms(2,4,6) by (auto simp: sole_def open_op_def)
  moreover have "t4 - BILLING_OBSERVATION_MAX_AGE * SECOND \<le> t3"
    using assms(15) by (simp add: BILLING_OBSERVATION_MAX_AGE_def SECOND_def)
  ultimately obtain db4 where s4: "run_once t4 done_at worker P db3 = (Inr True, db4)"
      "find_org db4 (d_org d) = Some (tombstone t4 og)" "\<exists>d' \<in> set (deletions db4). d_id d' = d_id d \<and> d_state d' = ''completed''"
      "bookkeeping (purged_tables t4 (d_org d) db3) db4"
    using purge_turn [OF i3(1,3) claim assms(3) s3(3) due s3(5), of done_at og P] assms(6,7,16) org3 by auto
  have run: "turns [(t1, t1), (t2, t2), (t3, t3), (t4, done_at)] worker P db = db4"
    by (simp add: turns_def s1(1) s2(1) s3(1) s4(1))
  have p1: "\<exists>d'. d' \<in> set (deletions (turns [(t1, t1), (t2, t2), (t3, t3), (t4, done_at)] worker P db)) \<and>
      d_id d' = d_id d \<and> d_state d' = ''completed''"
    unfolding run using s4(3) by blast
  have p2: "find_org (turns [(t1, t1), (t2, t2), (t3, t3), (t4, done_at)] worker P db) (d_org d) = Some (tombstone t4 og)"
    unfolding run by (rule s4(2))
  have tabs: "members db4 = members (purged_tables t4 (d_org d) db3)" "projects db4 = projects (purged_tables t4 (d_org d) db3)"
    using s4(4) by (cases "purged_tables t4 (d_org d) db3"; cases db4; simp add: bookkeeping_def)+
  have p3: "\<forall>m. m \<in> set (members (turns [(t1, t1), (t2, t2), (t3, t3), (t4, done_at)] worker P db)) \<longrightarrow> m_org m \<noteq> d_org d"
    unfolding run by (simp add: tabs(1))
  have p4: "\<forall>p. p \<in> set (projects (turns [(t1, t1), (t2, t2), (t3, t3), (t4, done_at)] worker P db)) \<longrightarrow> p_org p \<noteq> Some (d_org d)"
    unfolding run by (simp add: tabs(2) org_project_def)
  show ?thesis by ((rule p1 p2 p3 p4 conjI impI | assumption)+)
qed

theorem undisturbed_deletion_completes_witness:
  "\<exists>og. find_org (turns [(200, 200), (300, 300), (200 + DAY, 200 + DAY), (300 + DAY, 301 + DAY)] ''w1'' None (demo_going demo_op)) ''acme'' =
    Some (tombstone (300 + DAY) og)"
proof -
  have org: "d_org demo_op = ''acme''" by (simp add: demo_row)
  have og: "find_org (demo_going demo_op) (d_org demo_op) = Some \<lparr>o_id = ''acme'', o_enc_name = Some [7],
     o_created_by = Some ''alice'', o_tier = ''team'', o_trial_ends_at = None, o_lifecycle = ''deleting'',
     o_stripe_customer = None, o_stripe_subscription = None, o_deleted_at = None\<rparr>"
    unfolding org by (simp add: demo_going_def find_org_def set_lifecycle_def demo_eval)
  have "sole demo_op (demo_going demo_op)" by (simp add: sole_def demo_going_def)
  from undisturbed_deletion_completes [THEN conjunct2, THEN conjunct1, OF demo_purging_inv(2) this, of "''w1''" 200, OF _ _ _ og,
      of None 300 "200 + DAY" "300 + DAY" "301 + DAY"]
  have "find_org (turns [(200, 200), (300, 300), (200 + DAY, 200 + DAY), (300 + DAY, 301 + DAY)] ''w1'' None (demo_going demo_op)) (d_org demo_op) =
      Some (tombstone (300 + DAY) \<lparr>o_id = ''acme'', o_enc_name = Some [7],
     o_created_by = Some ''alice'', o_tier = ''team'', o_trial_ends_at = None, o_lifecycle = ''deleting'',
     o_stripe_customer = None, o_stripe_subscription = None, o_deleted_at = None\<rparr>)"
    by (simp add: billing_ended_def claimable_op_def past_def demo_row)
  then show ?thesis unfolding org by blast
qed

end
