(* ===== verification/System.thy ===== *)
theory System
  imports Server_Steps Deletion_Progress
begin

text \<open>
  The whole server: the requests of \<open>Server_Steps\<close> interleaved with the deletion lifecycle of
  \<open>Org_Deletion\<close>, whose workers act on leases granted at any earlier time. The histories of these
  steps carry the invariants of the access-control machine, of the schema's keys, of the deletion
  table and of the leases together.
\<close>

subsection \<open>The lifecycle in the access-control view\<close>

lemma view_of_orgs:
  assumes "members db' = members db" "projects db' = projects db" "envs db' = envs db" "grants db' = grants db"
    "tokens db' = tokens db"
  shows "acl_of db' = acl_of db\<lparr>known_orgs := known_orgs (acl_of db'), open_orgs := open_orgs (acl_of db'),
    gone_orgs := gone_orgs (acl_of db')\<rparr>"
  by (simp add: acl_of_def find_member_cong [OF assms(1)] homes_cong(1) [OF assms(2)] homes_cong(2) [OF assms(3)] assms(4,5))

text \<open>The rows a purge keeps are found where they were.\<close>

lemma find_surviving:
  assumes "distinct (map key t)" and "t' = sql_delete p t"
  shows "sql_find (\<lambda>r. key r = k) t' = (case sql_find (\<lambda>r. key r = k) t of Some r \<Rightarrow> if p r then None else Some r | None \<Rightarrow> None)"
proof -
  have keys: "distinct (map key t')" using assms by (simp add: distinct_sql_delete)
  show ?thesis
  proof (cases "sql_find (\<lambda>r. key r = k) t")
    case None
    then have "sql_find (\<lambda>r. key r = k) t' = None" using assms(2) by (auto simp: sql_find_None_iff)
    with None show ?thesis by simp
  next
    case (Some r)
    then have r: "r \<in> set t" "key r = k" by (auto dest: sql_find_SomeD)
    have uniq: "x = r" if "x \<in> set t" "key x = k" for x using assms(1) r that by (metis distinct_map inj_onD)
    have "sql_find (\<lambda>r. key r = k) t' = (if p r then None else Some r)"
    proof (cases "p r")
      case True
      have "key x \<noteq> k" if "x \<in> set t'" for x
      proof
        assume "key x = k"
        with that assms(2) have "x = r" "\<not> p x" by (simp_all add: uniq)
        with True show False by simp
      qed
      then have "sql_find (\<lambda>r. key r = k) t' = None" by (simp add: sql_find_None_iff)
      with True show ?thesis by simp
    next
      case False
      with r assms(2) have "r \<in> set t'" by simp
      with r(2) sql_find_Some_iff_distinct [OF keys, of "\<lambda>x. key x = k" k r] False show ?thesis by simp
    qed
    with Some show ?thesis by simp
  qed
qed

text \<open>Each kind of effect is a step of the machine, and keeps the keys.\<close>

definition lifecycle_ok :: "db \<Rightarrow> db \<Rightarrow> bool" where
  "lifecycle_ok db db' \<longleftrightarrow> tables_ok db' \<and> lifecycle_step (acl_of db) (acl_of db')"

lemma lifecycle_same:
  assumes "tables_ok db" and "bookkeeping db db'" and "orgs db' = orgs db"
  shows "lifecycle_ok db db'"
proof -
  note same = bookkeepingD [OF assms(2)]
  have "acl_of db' = acl_of db"
    by (simp add: acl_of_def find_org_cong [OF assms(3)] find_member_cong [OF same(1)] homes_cong(1) [OF same(2)]
        homes_cong(2) [OF same(3)] same)
  moreover have "tables_ok db'" using tables_ok_cong [OF assms(1) same(1) assms(3) same(2)] same(3) by simp
  ultimately show ?thesis by (simp add: lifecycle_ok_def lifecycle_step.stay)
qed

lemma lifecycle_orgs:
  assumes ok: "tables_ok db" and bk: "bookkeeping db db'" and orgs: "orgs db' = sql_update p f (orgs db)"
    and f: "\<And>og. o_id (f og) = o_id og" "\<And>og. o_lifecycle (f og) \<in> {''active'', ''deleting'', ''deleted''}"
    and step: "lifecycle_step (acl_of db) (acl_of db\<lparr>open_orgs := open_orgs (acl_of db')\<rparr>)"
    and gone: "gone_orgs (acl_of db') = gone_orgs (acl_of db)"
  shows "lifecycle_ok db db'"
proof -
  note same = bookkeepingD [OF bk]
  note find = find_org_update [OF orgs f(1)]
  have known: "known_orgs (acl_of db') = known_orgs (acl_of db)"
    unfolding set_eq_iff by (simp add: find)
  have "acl_of db' = acl_of db\<lparr>open_orgs := open_orgs (acl_of db')\<rparr>"
    by (subst view_of_orgs [OF same]) (simp add: known gone)
  with step have "lifecycle_step (acl_of db) (acl_of db')" by simp
  moreover have "tables_ok db'"
    using ok f(2) by (auto simp: tables_ok_def same find find_project_def orgs)
  ultimately show ?thesis by (simp add: lifecycle_ok_def)
qed

text \<open>Sets of organisations compared row by row.\<close>

lemma orgs_eqI:
  assumes "\<And>x. find_org db x = None \<Longrightarrow> x \<in> A \<longleftrightarrow> x \<in> B"
    and "\<And>x og. find_org db x = Some og \<Longrightarrow> o_id og = x \<Longrightarrow> x \<in> A \<longleftrightarrow> x \<in> B"
  shows "A = B"
proof (rule set_eqI)
  show "x \<in> A \<longleftrightarrow> x \<in> B" for x
    using assms by (cases "find_org db x") (auto dest: find_org_id)
qed

lemma doomed_in_org:
  assumes "tables_ok db"
  shows "e \<in> doomed_envs org db \<longleftrightarrow> in_org (acl_of db) org e"
proof -
  have "in_org_env db org e \<longleftrightarrow> (\<exists>r \<in> set (envs db). e_id r = e \<and>
      (\<exists>p \<in> set (projects db). p_id p = e_project r \<and> p_org p = Some org))"
    by (simp add: in_org_env_def sql_exists_iff)
  then show ?thesis
    unfolding in_org_acl [OF assms] doomed_envs_def org_project_def by (force simp: image_iff)
qed

lemma lifecycle_purged:
  assumes ok: "tables_ok db" and og: "find_org db org = Some og" "o_lifecycle og = ''deleting''"
    and bk: "bookkeeping (purged_tables now org db) db'" and orgs: "orgs db' = orgs (purged_tables now org db)"
  shows "lifecycle_ok db db'"
proof -
  note same = bookkeepingD [OF bk, unfolded purged_tables_simps]
  note find = find_org_purged [OF orgs]
  note doomed = doomed_in_org [OF ok]
  note keys = tables_okD [OF ok]
  have mem: "find_member db' i w = (if i = org then None else find_member db i w)" for i w
  proof -
    have "find_member db' org w = None" by (auto simp: find_member_None_iff same(1) is_membership_def)
    moreover have "find_member db' i w = find_member db i w" if "i \<noteq> org"
      unfolding find_member_def same(1) using that by (auto simp: is_membership_def intro!: sql_find_delete)
    ultimately show ?thesis by simp
  qed
  have proj: "find_project db' i = (case find_project db i of Some p \<Rightarrow> if p_org p = Some org then None else Some p | None \<Rightarrow> None)" for i
    unfolding find_project_def using find_surviving [OF keys(2) same(2), of i] unfolding org_project_def .
  have env: "find_env db' e = (if in_org (acl_of db) org e then None else find_env db e)" for e
    unfolding find_env_def using find_surviving [OF keys(3) same(3)]
    by (auto simp: doomed split: option.splits dest!: sql_find_SomeD)
  have homes: "home_of db' = outside org (home_of db)"
    by (auto simp: fun_eq_iff home_of_def proj outside_def split: option.splits)
  have ehomes: "env_home (acl_of db') e = outside org (env_home (acl_of db)) e" for e
    by (cases "in_org (acl_of db) org e"; cases "find_env db e") (auto simp: env homes in_org_def outside_def split: option.splits)
  have "acl_of db' = purge_org org (acl_of db)"
  proof (rule acl_eqI)
    have org: "o_id (tombstone now x) = o_id x" "o_lifecycle (tombstone now x) = ''deleted''" for x
      by (simp_all add: tombstone_def)
    have "known_orgs (acl_of db') = known_orgs (acl_of db)" unfolding set_eq_iff by (simp add: find)
    then show "known_orgs (acl_of db') = known_orgs (purge_org org (acl_of db))" by (simp add: purge_org_def)
    have "open_orgs (acl_of db') = open_orgs (acl_of db)"
      by (intro orgs_eqI [of db]) (auto simp: find org)
    then show "open_orgs (acl_of db') = open_orgs (purge_org org (acl_of db))" by (simp add: purge_org_def)
    have "gone_orgs (acl_of db') = insert org (gone_orgs (acl_of db))"
      using og by (intro orgs_eqI [of db]) (auto simp: find org)
    then show "gone_orgs (acl_of db') = gone_orgs (purge_org org (acl_of db))" by (simp add: purge_org_def)
    show "role_of (acl_of db') = role_of (purge_org org (acl_of db))" by (simp add: purge_org_def fun_eq_iff mem)
    show "project_home (acl_of db') = project_home (purge_org org (acl_of db))" by (simp add: purge_org_def homes)
    show "env_home (acl_of db') = env_home (purge_org org (acl_of db))"
      by (rule ext) (simp only: ehomes, simp add: purge_org_def)
    show "holds (acl_of db') = holds (purge_org org (acl_of db))" by (auto simp: purge_org_def same(4) doomed)
    show "machines (acl_of db') = machines (purge_org org (acl_of db))" by (auto simp: purge_org_def same(5) doomed)
  qed
  moreover have "lifecycle_step (acl_of db) (purge_org org (acl_of db))"
    using og by (intro lifecycle_step.purge) simp_all
  moreover have "tables_ok db'"
  proof -
    have "find_project db' (e_project e) \<noteq> None" if e: "e \<in> set (envs db')" for e
    proof -
      have e: "e \<in> set (envs db)" "e_id e \<notin> doomed_envs org db" using e by (simp_all add: same(3))
      obtain p where p: "find_project db (e_project e) = Some p" using keys(4) [OF e(1)] by blast
      then have "p \<in> set (projects db)" "p_id p = e_project e" by (auto simp: find_project_def dest: sql_find_SomeD)
      with e have "p_org p \<noteq> Some org" by (auto simp: doomed_envs_iff [OF e(1) keys(3)])
      with p show ?thesis by (simp add: proj)
    qed
    moreover have "find_org db' (m_org m) \<noteq> None" if "m \<in> set (members db')" for m
      using that keys(5) by (auto simp: same(1) find)
    moreover have "o_lifecycle x \<in> {''active'', ''deleting'', ''deleted''}" if "x \<in> set (orgs db')" for x
      using that keys(6) by (auto simp: orgs purged_tables_def entomb_def delete_members_def delete_projects_tables tombstone_def)
    ultimately show ?thesis
      using keys(1-3) by (simp add: tables_ok_def same distinct_sql_delete)
  qed
  ultimately show ?thesis by (simp add: lifecycle_ok_def)
qed

lemma same_lifecycle [simp]: "og = og\<lparr>o_lifecycle := s\<rparr> \<longleftrightarrow> o_lifecycle og = s"
  by (cases og) auto

lemma effect_lifecycle:
  assumes "deletion_effect now db db'" and ok: "tables_ok db" and inv: "deletion_inv db"
  shows "lifecycle_ok db db'"
  using assms(1)
proof cases
  case idle
  then show ?thesis by (intro lifecycle_same [OF ok]) (simp_all add: no_progress_def)
next
  case (moved d d')
  then show ?thesis by (intro lifecycle_same [OF ok])
next
  case (requested org og actor days d i)
  note find = find_org_lifecycle [OF requested(8)]
  have "open_orgs (acl_of db') = open_orgs (acl_of db) - {org}"
    by (intro orgs_eqI [of db]) (auto simp: find)
  moreover have "gone_orgs (acl_of db') = gone_orgs (acl_of db)"
    using requested(1,2) by (intro orgs_eqI [of db]) (auto simp: find)
  moreover have "lifecycle_step (acl_of db) (acl_of db\<lparr>open_orgs := open_orgs (acl_of db) - {org}\<rparr>)"
    using requested(1,2) by (intro lifecycle_step.freeze) simp
  ultimately show ?thesis
    by (intro lifecycle_orgs [OF ok requested(7), of "\<lambda>og. o_id og = org" "\<lambda>og. og\<lparr>o_lifecycle := ''deleting''\<rparr>"])
       (simp_all add: requested(8) set_lifecycle_def)
next
  case (recovered d d' tier)
  have "open_op d" using recovered(2) by (simp add: open_op_def)
  then obtain og where og: "find_org db (d_org d) = Some og" "o_lifecycle og = ''deleting''"
    using deletion_invD(3) [OF inv recovered(1)] by blast
  note find = find_org_thaw [OF recovered(7)]
  have "open_orgs (acl_of db') = insert (d_org d) (open_orgs (acl_of db))"
    using og by (intro orgs_eqI [of db]) (auto simp: find)
  moreover have "gone_orgs (acl_of db') = gone_orgs (acl_of db)"
    using og by (intro orgs_eqI [of db]) (auto simp: find)
  moreover have "lifecycle_step (acl_of db) (acl_of db\<lparr>open_orgs := insert (d_org d) (open_orgs (acl_of db))\<rparr>)"
    using og by (intro lifecycle_step.thaw) simp_all
  ultimately show ?thesis
    by (intro lifecycle_orgs [OF ok recovered(6), of "\<lambda>og. o_id og = d_org d \<and> o_lifecycle og = ''deleting''"
          "\<lambda>og. og\<lparr>o_lifecycle := ''active'', o_tier := tier\<rparr>"])
       (simp_all add: recovered(7) thaw_def)
next
  case (purged d og d')
  then show ?thesis by (intro lifecycle_purged [OF ok purged(2)]) (simp_all add: purge_gate_ok_def)
qed

subsection \<open>Requests and the deletion table\<close>

text \<open>A request changes no operation, and of the organisations only adds a new one, open for writes.\<close>

lemma acl_step_orgs:
  assumes "acl_step u a a'"
  shows "gone_orgs a' = gone_orgs a" and "known_orgs a \<subseteq> known_orgs a'"
    and "known_orgs a' - open_orgs a' \<subseteq> known_orgs a - open_orgs a"
    and "org \<in> known_orgs a - open_orgs a \<Longrightarrow> org \<notin> open_orgs a'"
  using assms by (cases rule: acl_step.cases; auto)+

lemma deletion_inv_request:
  assumes step: "step_ok u db db'" and ok: "tables_ok db" and inv: "deletion_inv db"
  shows "deletion_inv db'"
proof -
  note A = acl_step_orgs [of u "acl_of db" "acl_of db'"]
  note I = deletion_invD [OF inv]
  from step have acl: "acl_step u (acl_of db) (acl_of db')" and dels: "deletions db' = deletions db" and ok': "tables_ok db'"
    by (simp_all add: step_ok_def)
  have life: "o_lifecycle og \<in> {''active'', ''deleting'', ''deleted''}" if "tables_ok d" "find_org d org = Some og" for d org og
    using tables_okD(6) [OF that(1)] that(2) by (auto simp: find_org_def dest: sql_find_SomeD)
  have deleting: "(\<exists>og. find_org d org = Some og \<and> o_lifecycle og = ''deleting'') \<longleftrightarrow>
      org \<in> known_orgs (acl_of d) - open_orgs (acl_of d) - gone_orgs (acl_of d)" if "tables_ok d" for d org
    using life [OF that, of org] by (cases "find_org d org") auto
  have kept: "(\<exists>og. find_org db' org = Some og \<and> o_lifecycle og = ''deleting'') \<longleftrightarrow>
      (\<exists>og. find_org db org = Some og \<and> o_lifecycle og = ''deleting'')" for org
    unfolding deleting [OF ok] deleting [OF ok'] using A(1-4) acl by blast
  have gone: "(\<exists>og. find_org db' org = Some og \<and> o_lifecycle og = ''deleted'') \<longleftrightarrow>
      (\<exists>og. find_org db org = Some og \<and> o_lifecycle og = ''deleted'')" for org
    using A(1) [OF acl] by (simp add: set_eq_iff)
  have known: "find_org db org \<noteq> None \<Longrightarrow> find_org db' org \<noteq> None" for org
    using A(2) [OF acl] by (auto simp: subset_iff)
  show ?thesis
  proof (rule deletion_invI)
    show "deletions_ok db'" using I(1) by (simp add: deletions_ok_def dels)
    fix d assume "d \<in> set (deletions db')"
    then have d: "d \<in> set (deletions db)" by (simp add: dels)
    from I(3) [OF d] obtain og where og: "find_org db (d_org d) = Some og" "open_op d \<longrightarrow> o_lifecycle og = ''deleting''"
      "d_state d = ''completed'' \<longrightarrow> o_lifecycle og = ''deleted''" by blast
    obtain og' where og': "find_org db' (d_org d) = Some og'" using known [of "d_org d"] og(1) by auto
    show "\<exists>og. find_org db' (d_org d) = Some og \<and>
        (open_op d \<longrightarrow> o_lifecycle og = ''deleting'') \<and> (d_state d = ''completed'' \<longrightarrow> o_lifecycle og = ''deleted'')"
      using og og' kept [of "d_org d"] gone [of "d_org d"] by auto
  next
    fix d d' assume "d \<in> set (deletions db')" "d' \<in> set (deletions db')" "open_op d" "open_op d'" "d_org d = d_org d'"
    then show "d = d'" using I(2) by (simp add: dels)
  next
    fix org og assume "find_org db' org = Some og" "o_lifecycle og = ''deleting''"
    then show "\<exists>d \<in> set (deletions db'). d_org d = org \<and> open_op d" using kept [of org] I(4) [of org] by (auto simp: dels)
  next
    fix org og assume "find_org db' org = Some og" "o_lifecycle og = ''deleted''"
    then show "\<exists>d \<in> set (deletions db'). d_org d = org \<and> d_state d = ''completed''" using gone [of org] I(5) [of org] by (auto simp: dels)
  qed
qed

lemma lifecycle_earlier:
  assumes "lifecycle_step (acl_of db) (acl_of db')" and "earlier snap db"
  shows "earlier snap db'"
proof -
  have "gone_orgs (acl_of db) \<subseteq> gone_orgs (acl_of db')"
    using assms(1) by (cases rule: lifecycle_step.cases) (auto simp: purge_org_def)
  then have mono: "purged_home db home \<Longrightarrow> purged_home db' home" for home by (auto simp: purged_home_def)
  have keep: "project_home (acl_of db') p = Some home" if "\<not> purged_home db' home" "project_home (acl_of db) p = Some home" for p home
    using assms(1) that
    by (cases home; cases rule: lifecycle_step.cases)
       (auto simp: purge_org_def outside_Some purged_home_def simp del: acl_of_simps)
  have ekeep: "env_home (acl_of db') e = Some home" if "\<not> purged_home db' home" "env_home (acl_of db) e = Some home" for e home
    using assms(1) that
    by (cases home; cases rule: lifecycle_step.cases)
       (auto simp: purge_org_def outside_Some purged_home_def simp del: acl_of_simps)
  show ?thesis
    using assms(2) mono keep [simplified] ekeep unfolding earlier_def by blast
qed

subsection \<open>Histories\<close>

text \<open>Latest state first, with the leases granted so far.\<close>

inductive server_history :: "lib \<Rightarrow> net \<Rightarrow> oauth_config option \<Rightarrow> db list \<Rightarrow> lease set \<Rightarrow> bool" for L N config where
  start: "server_history L N config [empty_db] {}"
| request: "server_history L N config hs ls \<Longrightarrow> snap \<in> set hs \<Longrightarrow> server_step L N config actor snap (hd hs) db' \<Longrightarrow>
    server_history L N config (db' # hs) ls"
| lifecycle: "server_history L N config hs ls \<Longrightarrow> deletion_step now (hd hs, ls) (db', ls') \<Longrightarrow>
    server_history L N config (db' # hs) ls'"

text \<open>What follows a history, with every step of the lifecycle at \<open>t0\<close> or later.\<close>

inductive continues :: "lib \<Rightarrow> net \<Rightarrow> oauth_config option \<Rightarrow> int \<Rightarrow> db list \<Rightarrow> lease set \<Rightarrow> db list \<Rightarrow> lease set \<Rightarrow> bool"
  for L N config t0 hs ls where
  now: "continues L N config t0 hs ls hs ls"
| request: "continues L N config t0 hs ls hs' ls' \<Longrightarrow> snap \<in> set hs' \<Longrightarrow> server_step L N config actor snap (hd hs') db' \<Longrightarrow>
    continues L N config t0 hs ls (db' # hs') ls'"
| lifecycle: "continues L N config t0 hs ls hs' ls' \<Longrightarrow> t0 \<le> now \<Longrightarrow> deletion_step now (hd hs', ls') (db', ls'') \<Longrightarrow>
    continues L N config t0 hs ls (db' # hs') ls''"

definition server_inv :: "db list \<Rightarrow> lease set \<Rightarrow> bool" where
  "server_inv hs ls \<longleftrightarrow> hs \<noteq> [] \<and> tables_ok (hd hs) \<and> acl_inv (acl_of (hd hs)) \<and> deletion_inv (hd hs) \<and>
     (\<forall>l \<in> ls. lease_valid l (hd hs)) \<and> (\<forall>snap \<in> set hs. earlier snap (hd hs))"

lemma server_invD:
  assumes "server_inv hs ls"
  shows "tables_ok (hd hs)" "acl_inv (acl_of (hd hs))" "deletion_inv (hd hs)" "\<forall>l \<in> ls. lease_valid l (hd hs)"
    "snap \<in> set hs \<Longrightarrow> earlier snap (hd hs)"
  using assms by (auto simp: server_inv_def)

lemma server_inv_request:
  assumes inv: "server_inv hs ls" and "snap \<in> set hs" and "server_step L N config actor snap (hd hs) db'"
  shows "step_ok actor (hd hs) db'" and "server_inv (db' # hs) ls"
proof -
  note I = server_invD [OF inv]
  show ok: "step_ok actor (hd hs) db'" by (rule server_step_ok [OF assms(3) I(1) I(5) [OF assms(2)]])
  have "deletions db' = deletions (hd hs)" using ok by (simp add: step_ok_def)
  then have "\<forall>l \<in> ls. lease_valid l db'" using I(4) by (simp add: lease_valid_def)
  moreover have "tables_ok db'" "acl_inv (acl_of db')" using ok I(2) by (auto simp: step_ok_def intro: acl_inv_step)
  ultimately show "server_inv (db' # hs) ls"
    using I(5) deletion_inv_request [OF ok I(1,3)] step_earlier [OF ok] earlier_refl [of db'] by (simp add: server_inv_def)
qed

lemma server_inv_lifecycle:
  assumes inv: "server_inv hs ls" and step: "deletion_step now (hd hs, ls) (db', ls')"
  shows "deletion_effect now (hd hs) db'" and "lifecycle_ok (hd hs) db'" and "server_inv (db' # hs) ls'"
proof -
  note I = server_invD [OF inv]
  show eff: "deletion_effect now (hd hs) db'" by (rule deletion_step_effect [OF step deletion_invD(1) [OF I(3)] I(4)])
  show life: "lifecycle_ok (hd hs) db'" by (rule effect_lifecycle [OF eff I(1,3)])
  then show "server_inv (db' # hs) ls'"
    using I(5) lifecycle_earlier earlier_refl [of db'] deletion_step_inv [OF step I(3,4)] acl_inv_lifecycle [OF _ I(2)]
    by (auto simp: server_inv_def lifecycle_ok_def)
qed

lemma empty_view:
  shows "tables_ok empty_db" and "acl_inv (acl_of empty_db)" and "deletion_inv empty_db"
proof -
  show "tables_ok empty_db" by (simp add: tables_ok_def empty_db_def)
  show "acl_inv (acl_of empty_db)"
    by (rule acl_invI) (auto simp: empty_db_def find_org_def find_member_def sql_find_def)
  show "deletion_inv empty_db"
    by (rule deletion_invI) (simp_all add: empty_db_def find_org_def sql_find_def deletions_ok_def)
qed

lemma history_inv:
  assumes "server_history L N config hs ls"
  shows "server_inv hs ls"
  using assms
proof induction
  case start
  then show ?case using empty_view earlier_refl [of empty_db] by (simp add: server_inv_def)
qed (blast intro: server_inv_request server_inv_lifecycle)+

subsection \<open>Properties\<close>

text \<open>C2: Every request the server answers, whatever it answers and however stale the snapshot its first
  checks used, changes access only as one step of the access-control machine, taken with the
  authority the tables give the caller at that moment.\<close>

theorem server_refines_access_machine:
  assumes "server_history L N config hs ls" and "snap \<in> set hs" and "server_step L N config actor snap (hd hs) db'"
  shows "acl_step actor (acl_of (hd hs)) (acl_of db')"
  using server_inv_request(1) [OF history_inv [OF assms(1)] assms(2,3)] by (simp add: step_ok_def)

text \<open>C5: Everything the deletion lifecycle does, by the owner, an operator or any worker on any lease
  however old, changes access only by freezing one open organisation, opening one frozen
  organisation again, or purging one frozen organisation with all it contains.\<close>

theorem lifecycle_refines_access_machine:
  assumes "server_history L N config hs ls" and "deletion_step now (hd hs, ls) (db', ls')"
  shows "lifecycle_step (acl_of (hd hs)) (acl_of db')"
  using server_inv_lifecycle(2) [OF history_inv [OF assms(1)] assms(2)] by (simp add: lifecycle_ok_def)

text \<open>C1: In every state the server can reach, whoever holds a key to an organisation's environment is a
  member of that organisation now, and so is whoever created a live machine token for it: no access
  path outlives its owner's membership, in any interleaving of requests, recoveries and purges.\<close>

theorem access_paths_belong_to_members:
  assumes "server_history L N config hs ls" and "in_org_env (hd hs) org env"
  shows "(\<forall>g. g \<in> set (grants (hd hs)) \<and> g_env g = env \<longrightarrow> find_member (hd hs) org (g_user g) \<noteq> None) \<and>
    (\<forall>t. t \<in> set (tokens (hd hs)) \<and> t_env t = env \<and> t_revoked_at t = None \<longrightarrow>
       (\<exists>v. t_created_by t = Some v \<and> find_member (hd hs) org v \<noteq> None))"
proof -
  let ?a = "acl_of (hd hs)"
  note inv = server_invD [OF history_inv [OF assms(1)]]
  have home: "in_org ?a org env" using assms(2) in_org_acl [OF inv(1)] by simp
  have member: "find_member (hd hs) org v \<noteq> None" if "entitled ?a env v" for v
    using that home by (auto simp: entitled_def in_org_def)
  have "find_member (hd hs) org (g_user g) \<noteq> None" if "g \<in> set (grants (hd hs))" "g_env g = env" for g
    using that by (intro member acl_invE(1) [OF inv(2)]) auto
  moreover have "\<exists>v. t_created_by t = Some v \<and> find_member (hd hs) org v \<noteq> None"
    if "t \<in> set (tokens (hd hs))" "t_env t = env" "t_revoked_at t = None" for t
  proof -
    have "(t_id t, env, t_created_by t) \<in> machines ?a" using that by auto
    from acl_invE(2) [OF inv(2) this] member show ?thesis by blast
  qed
  ultimately show ?thesis by blast
qed

text \<open>C3: No organisation is ever left without an owner: in every reachable state each organisation has
  at least one member with the owner role, however removals, demotions and departures interleave,
  until it is purged, and then it has no members at all.\<close>

theorem every_organisation_has_an_owner:
  assumes "server_history L N config hs ls" and "find_org (hd hs) org = Some og"
  shows "(o_lifecycle og \<noteq> ''deleted'' \<longrightarrow>
      (\<exists>m. m \<in> set (members (hd hs)) \<and> m_org m = org \<and> m_role m = ''owner'')) \<and>
    (o_lifecycle og = ''deleted'' \<longrightarrow> find_member (hd hs) org v = None)"
proof -
  let ?a = "acl_of (hd hs)"
  note inv = server_invD(2) [OF history_inv [OF assms(1)]]
  have known: "org \<in> known_orgs ?a" "org \<in> gone_orgs ?a \<longleftrightarrow> o_lifecycle og = ''deleted''" using assms(2) by simp_all
  have p1: "\<exists>m. m \<in> set (members (hd hs)) \<and> m_org m = org \<and> m_role m = ''owner''" if "o_lifecycle og \<noteq> ''deleted''"
    using acl_invE(3) [OF inv known(1)] known(2) that by (auto dest: find_member_SomeD)
  have p2: "find_member (hd hs) org v = None" if "o_lifecycle og = ''deleted''"
  proof (rule ccontr)
    assume "find_member (hd hs) org v \<noteq> None"
    then obtain x where "role_of ?a org v = Some x" by auto
    with acl_invE(4) [OF inv this] known(2) that show False by blast
  qed
  show ?thesis by ((rule p1 p2 conjI impI | assumption)+)
qed

text \<open>C4: Ownership cannot be seized: if a request changes who owns an organisation, it was made by a
  user who is an owner of it at that moment, or it created the organisation.\<close>

theorem ownership_changed_by_owners:
  assumes "server_history L N config hs ls" and "snap \<in> set hs" and "server_step L N config actor snap (hd hs) db'"
    and "(member_role db' org v = Inr Owner) \<noteq> (member_role (hd hs) org v = Inr Owner)"
  shows "\<exists>u. actor = Some u \<and> (member_role (hd hs) org u = Inr Owner \<or> find_org (hd hs) org = None)"
proof -
  have "acl_step actor (acl_of (hd hs)) (acl_of db')"
    using server_inv_request(1) [OF history_inv [OF assms(1)] assms(2,3)] by (simp add: step_ok_def)
  moreover have role: "role_of (acl_of db) org w = Some owner \<longleftrightarrow> member_role db org w = Inr Owner" for db w
    by (auto simp: member_role_Inr_iff)
  ultimately show ?thesis
    using owner_change_actor [of actor "acl_of (hd hs)" "acl_of db'" org v] assms(4) by (auto simp: role simp del: acl_of_simps(3))
qed

text \<open>C6: While an organisation is frozen or gone, no request changes it: the same users belong to it in the
  same roles, the same environments are in it and the same keys and live tokens open them.\<close>

theorem frozen_organisation_is_still:
  assumes "server_history L N config hs ls" and "snap \<in> set hs" and "server_step L N config actor snap (hd hs) db'"
    and "find_org (hd hs) org = Some og" and "o_lifecycle og \<noteq> ''active''"
  shows "(map_option m_role (find_member db' org v) = map_option m_role (find_member (hd hs) org v)) \<and>
    (in_org_env db' org e \<longleftrightarrow> in_org_env (hd hs) org e) \<and>
    (in_org_env (hd hs) org e \<longrightarrow>
      ((\<exists>g. g \<in> set (grants db') \<and> g_env g = e \<and> g_user g = v) \<longleftrightarrow>
       (\<exists>g. g \<in> set (grants (hd hs)) \<and> g_env g = e \<and> g_user g = v))) \<and>
    (in_org_env (hd hs) org e \<longrightarrow>
      (\<exists>t. t \<in> set (tokens db') \<and> t_id t = i \<and> t_env t = e \<and> t_revoked_at t = None) \<longleftrightarrow>
      (\<exists>t. t \<in> set (tokens (hd hs)) \<and> t_id t = i \<and> t_env t = e \<and> t_revoked_at t = None)) \<and>
    (\<exists>og'. find_org db' org = Some og' \<and> o_lifecycle og' \<noteq> ''active'')"
proof -
  note inv = history_inv [OF assms(1)]
  note run = server_inv_request [OF inv assms(2,3)]
  have step: "acl_step actor (acl_of (hd hs)) (acl_of db')" and ok': "tables_ok db'"
    using run(1) by (simp_all add: step_ok_def)
  note ok = server_invD(1) [OF inv]
  have org: "org \<in> known_orgs (acl_of (hd hs))" "org \<notin> open_orgs (acl_of (hd hs))" using assms(4,5) by simp_all
  note still = frozen_step [OF step server_invD(2) [OF inv] org]
  have p1: "map_option m_role (find_member db' org v) = map_option m_role (find_member (hd hs) org v)"
    using still(1) by (simp add: fun_eq_iff)
  have p2: "in_org_env db' org e \<longleftrightarrow> in_org_env (hd hs) org e"
    using still(2) by (simp add: fun_eq_iff in_org_acl [OF ok] in_org_acl [OF ok'])
  have p3: "(\<exists>g. g \<in> set (grants db') \<and> g_env g = e \<and> g_user g = v) \<longleftrightarrow> (\<exists>g. g \<in> set (grants (hd hs)) \<and> g_env g = e \<and> g_user g = v)"
    if "in_org_env (hd hs) org e"
    using still(4) [of e v] that by (simp add: in_org_acl [OF ok] Bex_def)
  have p4: "(\<exists>t. t \<in> set (tokens db') \<and> t_id t = i \<and> t_env t = e \<and> t_revoked_at t = None) \<longleftrightarrow>
      (\<exists>t. t \<in> set (tokens (hd hs)) \<and> t_id t = i \<and> t_env t = e \<and> t_revoked_at t = None)"
    if "in_org_env (hd hs) org e"
  proof -
    have "\<forall>c. (\<exists>t \<in> set (tokens db'). t_id t = i \<and> t_env t = e \<and> t_created_by t = c \<and> t_revoked_at t = None) \<longleftrightarrow>
        (\<exists>t \<in> set (tokens (hd hs)). t_id t = i \<and> t_env t = e \<and> t_created_by t = c \<and> t_revoked_at t = None)"
      using still(5) [of e i] that by (simp add: in_org_acl [OF ok])
    then show ?thesis by blast
  qed
  have p5: "\<exists>og'. find_org db' org = Some og' \<and> o_lifecycle og' \<noteq> ''active''"
    using still(3) acl_step_orgs(2) [OF step] org(1) by (auto simp: subset_iff)
  show ?thesis by ((rule p1 p2 p3 p4 p5 conjI impI | assumption)+)
qed

text \<open>C24: In every reachable state an organisation is frozen exactly while one deletion of it is under way,
  never two, and is a tombstone exactly when a deletion of it has completed.\<close>

theorem deletion_table_matches_lifecycle:
  assumes "server_history L N config hs ls" and "find_org (hd hs) org = Some og"
  shows "(o_lifecycle og = ''deleting'' \<longleftrightarrow> (\<exists>d. d \<in> set (deletions (hd hs)) \<and> d_org d = org \<and> open_op d)) \<and>
    (o_lifecycle og = ''deleted'' \<longleftrightarrow> (\<exists>d. d \<in> set (deletions (hd hs)) \<and> d_org d = org \<and> d_state d = ''completed'')) \<and>
    (d \<in> set (deletions (hd hs)) \<and> d' \<in> set (deletions (hd hs)) \<and> open_op d \<and> open_op d' \<and> d_org d = d_org d' \<longrightarrow> d = d')"
proof -
  note I = deletion_invD [OF server_invD(3) [OF history_inv [OF assms(1)]]]
  have same: "find_org (hd hs) (d_org d) = Some og" if "d_org d = org" for d using that assms(2) by simp
  have p1: "o_lifecycle og = ''deleting'' \<longleftrightarrow> (\<exists>d. d \<in> set (deletions (hd hs)) \<and> d_org d = org \<and> open_op d)"
    using I(3) I(4) [OF assms(2)] assms(2) by fastforce
  have p2: "o_lifecycle og = ''deleted'' \<longleftrightarrow> (\<exists>d. d \<in> set (deletions (hd hs)) \<and> d_org d = org \<and> d_state d = ''completed'')"
    using I(3) I(5) [OF assms(2)] assms(2) by fastforce
  have p3: "\<lbrakk>d \<in> set (deletions (hd hs)); d' \<in> set (deletions (hd hs)); open_op d; open_op d'; d_org d = d_org d'\<rbrakk> \<Longrightarrow> d = d'"
    by (rule I(2))
  show ?thesis by ((rule p1 p2 p3 conjI impI | assumption | erule conjE)+)
qed

lemma continues_past_purging:
  assumes "continues L N config t0 hs ls hs' ls'" and "server_inv hs ls" and "d \<in> set (deletions (hd hs))" and "past_purging t0 d"
  shows "server_inv hs' ls' \<and> (\<exists>d' \<in> set (deletions (hd hs')). d_id d' = d_id d \<and> past_purging t0 d')"
  using assms(1)
proof induction
  case now
  with assms(2-4) show ?case by blast
next
  case (request hs' ls' snap actor db')
  with server_inv_request [of hs' ls' snap] show ?case by (auto simp: step_ok_def)
next
  case (lifecycle hs' ls' now db' ls'')
  then obtain x where x: "x \<in> set (deletions (hd hs'))" "d_id x = d_id d" "past_purging t0 x" and inv: "server_inv hs' ls'" by blast
  note step = server_inv_lifecycle [OF inv lifecycle.hyps(3)]
  show ?case
    using past_purging_step [OF step(1) lifecycle.hyps(2) deletion_invD(1) [OF server_invD(3) [OF inv]] x(1,3)] x(2) step(3) by auto
qed

text \<open>C36: A purge that has started and whose billing observation has grown older than fifteen minutes can
  never complete: nothing refreshes the observation any more, not a retry, not an operator, not the
  worker, so in every continuation the operation is still there and is not completed; the owner can
  only cancel it.\<close>

theorem stale_purge_never_completes:
  assumes "server_history L N config hs ls" and "d \<in> set (deletions (hd hs))" and "d_state d = ''purging''"
    and "d_billing_checked_at d = Some t" and "t < t0 - 15 * 60 * 1000000"
    and "continues L N config t0 hs ls hs' ls'"
  shows "\<exists>d'. d' \<in> set (deletions (hd hs')) \<and> d_id d' = d_id d \<and> d_state d' \<noteq> ''completed''"
proof -
  note inv = history_inv [OF assms(1)]
  have "deletion_checks d" using deletion_invD(1) [OF server_invD(3) [OF inv]] assms(2) by (simp add: deletions_ok_def)
  then have "past_purging t0 d"
    using assms(3-5) phase_of_live [of d] by (simp add: past_purging_def BILLING_OBSERVATION_MAX_AGE_def SECOND_def)
  from continues_past_purging [OF assms(6) inv assms(2) this] obtain d' where
    "d' \<in> set (deletions (hd hs'))" "d_id d' = d_id d" "past_purging t0 d'" by blast
  then show ?thesis by (intro exI [of _ d']) (auto simp: past_purging_def phase_of_def)
qed

subsection \<open>A short history\<close>

definition demo_login :: db where
  "demo_login = snd (login demo_net (Some demo_config) 10 [7] ''http://127.0.0.1:9000/cb'' ''xyz'' (Some ''code'') empty_db)"

definition demo_callback :: db where
  "demo_callback = snd (callback demo_lib demo_net (Some demo_config) 20 [9] ''bob'' ''gh'' (to_hex [7]) demo_login)"

definition demo_founded :: db where
  "demo_founded = snd (create_org demo_lib 30 ''bob'' ''acme'' ''AAAA'' ''AAAA'' demo_callback)"

definition demo_history :: "db list" where
  "demo_history = [demo_founded, demo_callback, demo_login, empty_db]"

definition demo_acme :: org_row where
  "demo_acme = \<lparr>o_id = ''acme'', o_enc_name = Some (replicate 3 0), o_created_by = Some ''bob'', o_tier = ''free'',
     o_trial_ends_at = Some (30 + 14 * 86400 * 1000000), o_lifecycle = ''active'', o_stripe_customer = None,
     o_stripe_subscription = None, o_deleted_at = None\<rparr>"

lemma demo_login_history: "server_history demo_lib demo_net (Some demo_config) [demo_login, empty_db] {}"
  by (rule server_history.request [OF start, where snap = empty_db and actor = None])
    (simp, rule server_step.login, simp add: demo_login_def prod_eq_iff)

lemma demo_callback_history: "server_history demo_lib demo_net (Some demo_config) [demo_callback, demo_login, empty_db] {}"
proof -
  let ?H = "server_history demo_lib demo_net (Some demo_config)"
  have "?H [demo_login, empty_db] {}" by (rule demo_login_history)
  then show "?H [demo_callback, demo_login, empty_db] {}"
    by (rule server_history.request [where snap = empty_db and actor = None])
      (simp, rule server_step.callback, simp add: demo_callback_def prod_eq_iff)
qed

lemma demo_history: "server_history demo_lib demo_net (Some demo_config) demo_history {}"
  unfolding demo_history_def
  by (rule server_history.request [OF demo_callback_history, where snap = empty_db and actor = "Some ''bob''"])
    (simp, rule server_step.create_org, simp add: demo_founded_def prod_eq_iff)

lemma demo_login_state: "demo_login = empty_db\<lparr>oauth_logins := [\<lparr>lg_state = to_hex [7], lg_redirect = ''http://127.0.0.1:9000/cb'',
     lg_cli_state = ''xyz'', lg_wants_code = True, lg_created_at = 10\<rparr>]\<rparr>"
  by (simp add: demo_login_def login_def demo_config_def validate_redirect_def demo_net_def is_loopback_def login_mode_def
      empty_db_def require_def Let_def sql_delete_def sql_exists_def sql_insert_def ok_or_def)

lemma demo_callback_users: "users demo_callback = [\<lparr>u_id = ''bob'', u_provider = ''github'', u_subject = ''bob'',
     u_email = None, u_public_key = None, u_enc_private_keys = None, u_kdf_params = None, u_recovery_blob = None\<rparr>]"
  "orgs demo_callback = []" "members demo_callback = []" "projects demo_callback = []" "envs demo_callback = []"
  "grants demo_callback = []"
  by (simp_all add: demo_callback_def demo_login_state callback_def demo_net_def demo_config_def LOGIN_FRESHNESS_def upsert_user_def
        finish_login_def is_web_redirect_def user_known_def demo_eval Let_def empty_db_def)

lemma demo_founded_state:
  "orgs demo_founded = [demo_acme]"
  "members demo_founded = [\<lparr>m_org = ''acme'', m_user = ''bob'', m_role = ''owner'',
     m_enc_org_key = Some (replicate 3 0)\<rparr>]"
  "users demo_founded = users demo_callback"
  "projects demo_founded = []" "envs demo_founded = []" "grants demo_founded = []"
  by (simp_all add: demo_acme_def demo_founded_def create_org_def find_org_def user_exists_def demo_callback_users demo_eval record_tx_def)

definition demo_project :: db where
  "demo_project = snd (create_project demo_lib 40 ''bob'' ''api'' ''AAAA'' (Some ''acme'') demo_founded demo_founded)"

definition demo_environment :: db where
  "demo_environment = snd (create_environment demo_lib ''bob'' ''api'' ''prod'' ''AAAA'' ''AAAA'' demo_project demo_project)"

lemma demo_project_state:
  "projects demo_project = [\<lparr>p_id = ''api'', p_owner = ''bob'', p_org = Some ''acme'', p_enc_name = replicate 3 0\<rparr>]"
  "orgs demo_project = orgs demo_founded" "members demo_project = members demo_founded" "users demo_project = users demo_founded"
  "envs demo_project = []" "grants demo_project = []"
  by (simp_all add: demo_acme_def demo_project_def project_eval demo_founded_state demo_callback_users
      effective_tier_locked_def user_exists_def)

lemma demo_environment_state:
  "projects demo_environment = projects demo_project" "orgs demo_environment = orgs demo_founded"
  "members demo_environment = members demo_founded"
  "envs demo_environment = [\<lparr>e_id = ''prod'', e_project = ''api'', e_enc_name = replicate 3 0, e_revision = 0\<rparr>]"
  "grants demo_environment = [\<lparr>g_env = ''prod'', g_user = ''bob'', g_enc_vault_key = replicate 3 0,
     g_granted_by = Some ''bob''\<rparr>]"
  by (simp_all add: demo_acme_def demo_environment_def create_environment_def create_environment_tx_def grant_eval grant_exists_def
      demo_project_state demo_founded_state demo_callback_users user_exists_def env_admin_message_def)

lemma demo_environment_history:
  "server_history demo_lib demo_net (Some demo_config) (demo_environment # demo_project # demo_history) {}"
proof -
  have "server_history demo_lib demo_net (Some demo_config) (demo_project # demo_history) {}"
    by (rule server_history.request [OF demo_history, where snap = demo_founded and actor = "Some ''bob''"])
      (simp add: demo_history_def, rule server_step.create_project, simp add: demo_history_def demo_project_def prod_eq_iff)
  then show ?thesis
    by (rule server_history.request [where snap = demo_project and actor = "Some ''bob''"])
      (simp, rule server_step.create_environment, simp add: demo_environment_def prod_eq_iff)
qed

theorem server_refines_access_machine_witness: "acl_step (Some ''bob'') (acl_of demo_founded) (acl_of demo_project)"
proof -
  have "server_step demo_lib demo_net (Some demo_config) (Some ''bob'') demo_founded (hd demo_history) demo_project"
    by (rule server_step.create_project) (simp add: demo_history_def demo_project_def prod_eq_iff)
  from server_refines_access_machine [OF demo_history _ this] show ?thesis by (simp add: demo_history_def)
qed

theorem access_paths_belong_to_members_witness: "find_member demo_environment ''acme'' ''bob'' \<noteq> None"
proof -
  let ?g = "\<lparr>g_env = ''prod'', g_user = ''bob'', g_enc_vault_key = replicate 3 0, g_granted_by = Some ''bob''\<rparr>"
  have "in_org_env (hd (demo_environment # demo_project # demo_history)) ''acme'' ''prod''"
    by (simp add: in_org_env_def demo_environment_state demo_project_state sql_exists_def)
  from access_paths_belong_to_members [OF demo_environment_history this, THEN conjunct1, rule_format, of ?g]
  show ?thesis by (simp add: demo_environment_state)
qed

theorem every_organisation_has_an_owner_witness:
  "\<exists>m. m \<in> set (members demo_founded) \<and> m_org m = ''acme'' \<and> m_role m = ''owner''"
proof -
  have "find_org (hd demo_history) ''acme'' = Some demo_acme"
    by (simp add: demo_history_def find_org_def demo_founded_state sql_find_def demo_acme_def)
  from every_organisation_has_an_owner [OF demo_history this, THEN conjunct1] show ?thesis by (simp add: demo_history_def demo_acme_def)
qed

theorem ownership_changed_by_owners_witness: "find_org demo_callback ''acme'' = None"
proof -
  let ?hs = "[demo_callback, demo_login, empty_db]"
  have hist: "server_history demo_lib demo_net (Some demo_config) ?hs {}" by (rule demo_callback_history)
  have step: "server_step demo_lib demo_net (Some demo_config) (Some ''bob'') demo_callback (hd ?hs) demo_founded"
    by (rule server_step.create_org) (simp add: demo_founded_def prod_eq_iff)
  have "member_role demo_founded ''acme'' ''bob'' = Inr Owner" by (simp add: member_role_def find_member_def
      is_membership_def demo_founded_state sql_find_def role_from_db_def)
  moreover have "member_role demo_callback ''acme'' u \<noteq> Inr Owner" for u
    by (simp_all add: member_role_def find_member_def is_membership_def demo_founded_state demo_callback_users sql_find_def role_from_db_def)
  ultimately show ?thesis using ownership_changed_by_owners [OF hist _ step, of "''acme''" "''bob''"] by auto
qed


text \<open>A turn of a worker is two steps of a history: the claim, then the work on the new lease.\<close>

lemma history_turn:
  assumes "server_history L N config hs ls" and "run_once now done_at worker P (hd hs) = (r, db')"
  shows "\<exists>hs' ls'. server_history L N config hs' ls' \<and> hd hs' = db'"
proof -
  obtain c db1 where c: "claim_due now worker (hd hs) = (c, db1)" by fastforce
  define ls1 where "ls1 = (case c of Inr (Some l) \<Rightarrow> insert l ls | _ \<Rightarrow> ls)"
  have h: "server_history L N config (db1 # hs) ls1"
    unfolding ls1_def by (rule server_history.lifecycle [OF assms(1)]) (rule claim [OF c])
  show ?thesis
  proof (cases "\<exists>l. c = Inr (Some l)")
    case True
    then obtain l where l: "c = Inr (Some l)" by blast
    obtain w where "advance now db1 now done_at P l db1 = (w, db')"
      using assms(2) by (auto simp: run_once_def c l split: prod.splits sum.splits)
    then have "server_history L N config (db' # db1 # hs) ls1"
      by (intro server_history.lifecycle [OF h] work) (auto simp: l ls1_def)
    then show ?thesis by (intro exI [of _ "db' # db1 # hs"] exI [of _ ls1]) simp
  next
    case False
    then have "db' = db1" using assms(2) by (auto simp: run_once_def c split: sum.splits option.splits)
    with h show ?thesis by (intro exI [of _ "db1 # hs"] exI [of _ ls1]) simp
  qed
qed

definition demo_stopped :: db where
  "demo_stopped = snd (request_deletion 100 ''op'' 1 ''bob'' ''acme''
     (Some \<lparr>dr_confirm_org_id = Some ''acme'', dr_acknowledge = Some True\<rparr>) demo_founded)"

lemma demo_stop_step: "deletion_step 100 (hd demo_history, {}) (demo_stopped, {})"
  by (rule deletion_step.request [of _ "''op''" 1 "''bob''" "''acme''"
        "Some \<lparr>dr_confirm_org_id = Some ''acme'', dr_acknowledge = Some True\<rparr>"]) (simp add: demo_history_def demo_stopped_def prod_eq_iff)

lemma demo_stopped_history: "server_history demo_lib demo_net (Some demo_config) (demo_stopped # demo_history) {}"
  by (rule server_history.lifecycle [OF demo_history demo_stop_step])

lemma demo_stopped_state:
  "deletions demo_stopped = [new_deletion 100 ''op'' ''acme'' ''bob'' 1 None]"
  "find_org demo_stopped ''acme'' = Some (demo_acme\<lparr>o_lifecycle := ''deleting''\<rparr>)"
proof -
  have empty: "deletions demo_login = []" by (simp add: demo_login_state empty_db_def)
  have h1: "server_history demo_lib demo_net (Some demo_config) [demo_login, empty_db] {}"
    using demo_login_history .
  have "step_ok None demo_login demo_callback"
    using server_inv_request(1) [OF history_inv [OF h1], of empty_db demo_lib demo_net "Some demo_config" None demo_callback]
      server_step.callback [of demo_lib demo_net "Some demo_config" 20 "[9]" "''bob''" "''gh''" "to_hex [7]" demo_login _ demo_callback]
    by (simp add: demo_callback_def prod_eq_iff)
  then have "deletions demo_callback = []" by (simp add: step_ok_def empty)
  moreover have "step_ok (Some ''bob'') demo_callback demo_founded"
    using server_inv_request(1) [OF history_inv [OF demo_callback_history], of empty_db demo_lib demo_net "Some demo_config" "Some ''bob''" demo_founded]
      server_step.create_org [of demo_lib 30 "''bob''" "''acme''" "''AAAA''" "''AAAA''" demo_callback _ demo_founded]
    by (simp add: demo_founded_def prod_eq_iff)
  ultimately have dels: "deletions demo_founded = []" by (simp add: step_ok_def)
  have org: "find_org demo_founded ''acme'' = Some demo_acme" by (simp add: find_org_def demo_founded_state sql_find_def demo_acme_def)
  have mem: "require_owner demo_founded ''acme'' ''bob'' = Inr ()"
    by (simp add: require_owner_def find_member_def is_membership_def demo_founded_state sql_find_def role_from_db_def)
  have "request_tx 100 ''op'' ''acme'' ''bob'' 1 demo_founded = Inr (\<lparr>dv_id = ''op'', dv_org = ''acme'', dv_state = Requested\<rparr>,
      record_tx 100 ''acme'' ''bob'' ''org.deletion.requested'' (target_context ''op'') (set_lifecycle ''acme'' ''deleting''
        (demo_founded\<lparr>deletions := [new_deletion 100 ''op'' ''acme'' ''bob'' 1 None]\<rparr>)))"
    by (simp add: request_tx_def org mem lifecycle_from_db_def demo_acme_def insert_deletion_def dels sql_exists_def sql_insert_def)
  then have stop: "demo_stopped = record_tx 100 ''acme'' ''bob'' ''org.deletion.requested'' (target_context ''op'') (set_lifecycle ''acme'' ''deleting''
        (demo_founded\<lparr>deletions := [new_deletion 100 ''op'' ''acme'' ''bob'' 1 None]\<rparr>))"
    by (simp add: demo_stopped_def request_deletion_def request_with_retention_def run_txn_def ok_or_def)
  show "deletions demo_stopped = [new_deletion 100 ''op'' ''acme'' ''bob'' 1 None]" by (simp add: stop set_lifecycle_def)
  show "find_org demo_stopped ''acme'' = Some (demo_acme\<lparr>o_lifecycle := ''deleting''\<rparr>)"
    using find_org_lifecycle [of demo_stopped "''acme''" "''deleting''" demo_founded "''acme''"] org
    by (simp add: stop set_lifecycle_def demo_acme_def)
qed

theorem lifecycle_refines_access_machine_witness: "lifecycle_step (acl_of demo_founded) (acl_of demo_stopped)"
  using lifecycle_refines_access_machine [OF demo_history demo_stop_step] by (simp add: demo_history_def)

theorem deletion_table_matches_lifecycle_witness:
  "\<exists>d. d \<in> set (deletions demo_stopped) \<and> d_org d = ''acme'' \<and> open_op d"
  using deletion_table_matches_lifecycle [OF demo_stopped_history, of "''acme''" "demo_acme\<lparr>o_lifecycle := ''deleting''\<rparr>", THEN conjunct1]
  by (simp add: demo_stopped_state)

theorem frozen_organisation_is_still_witness:
  "\<exists>og. find_org (snd (create_project demo_lib 200 ''bob'' ''new'' ''AAAA'' (Some ''acme'') demo_founded demo_stopped)) ''acme'' = Some og \<and>
    o_lifecycle og \<noteq> ''active''"
proof -
  let ?db = "snd (create_project demo_lib 200 ''bob'' ''new'' ''AAAA'' (Some ''acme'') demo_founded demo_stopped)"
  have "server_step demo_lib demo_net (Some demo_config) (Some ''bob'') demo_founded (hd (demo_stopped # demo_history)) ?db"
    by (rule server_step.create_project) (simp add: prod_eq_iff)
  from frozen_organisation_is_still [OF demo_stopped_history _ this, of "''acme''" "demo_acme\<lparr>o_lifecycle := ''deleting''\<rparr>",
    THEN conjunct2, THEN conjunct2, THEN conjunct2, THEN conjunct2]
  show ?thesis by (simp add: demo_stopped_state demo_history_def)
qed

text \<open>The purge of the stopped organisation starts a day later; its worker comes back too late.\<close>

lemma demo_purging_history:
  "\<exists>hs ls d. server_history demo_lib demo_net (Some demo_config) hs ls \<and> d \<in> set (deletions (hd hs)) \<and> d_state d = ''purging'' \<and>
    d_billing_checked_at d = Some (200 + DAY)"
proof -
  let ?d = "new_deletion 100 ''op'' ''acme'' ''bob'' 1 None"
  note inv = server_invD(3) [OF history_inv [OF demo_stopped_history]]
  have ok: "deletions_ok demo_stopped" and sole: "sole ?d demo_stopped"
    using deletion_invD(1) [OF inv] by (simp_all add: demo_stopped_state sole_def)
  have ended: "billing_ended None x" if "d_subscription x = None" for x using that by (simp add: billing_ended_def)
  have "claimable_op 200 ?d" by (simp add: claimable_op_def past_def new_deletion_def)
  then obtain db1 d1 where s1: "run_once 200 200 ''w1'' None demo_stopped = (Inr True, db1)" "turned ?d d1 demo_stopped db1"
      "d_state d1 = ''cancelling_billing''" "d_lease_expires_at d1 = None" "d_next_attempt_at d1 = Some 200" "d_billing_source d1 = None"
    using requested_turn [OF ok sole, of 200 "''w1''" 200 None] by (auto simp: new_deletion_def)
  note i1 = turned_ok [OF s1(2) ok sole]
  have "claimable_op 300 d1" using s1(3-5) by (simp add: claimable_op_def past_def)
  then obtain db2 d2 where s2: "run_once 300 300 ''w1'' None db1 = (Inr True, db2)" "turned d1 d2 db1 db2"
      "d_state d2 = ''retention''" "d_lease_expires_at d2 = None" "d_next_attempt_at d2 = None" "seen 300 d2"
    using billing_turn [OF i1(1,3), of 300 "''w1''" None 300] s1 ended [of d1] by (auto simp: turned_def new_deletion_def)
  note i2 = turned_ok [OF s2(2) i1(1,3)] and t2 = turned_trans [OF s1(2) s2(2)]
  have "claimable_op (200 + DAY) d2" using s2(3-5) t2 by (simp add: claimable_op_def past_def turned_def new_deletion_def)
  then obtain db3 d3 where s3: "run_once (200 + DAY) (200 + DAY) ''w1'' None db2 = (Inr True, db3)" "turned d2 d3 db2 db3"
      "d_state d3 = ''purging''" "seen (200 + DAY) d3"
    using retention_turn [OF i2(1,3), of "200 + DAY" "''w1''" None 300 "200 + DAY"] s2 t2 ended [of d2]
    by (auto simp: turned_def new_deletion_def)
  note i3 = turned_ok [OF s3(2) i2(1,3)]
  obtain hs1 ls1 where h1: "server_history demo_lib demo_net (Some demo_config) hs1 ls1" "hd hs1 = db1"
    using history_turn [OF demo_stopped_history, of 200 200 "''w1''" None] s1(1) by auto
  obtain hs2 ls2 where h2: "server_history demo_lib demo_net (Some demo_config) hs2 ls2" "hd hs2 = db2"
    using history_turn [OF h1(1), of 300 300 "''w1''" None] s2(1) h1(2) by auto
  obtain hs3 ls3 where "server_history demo_lib demo_net (Some demo_config) hs3 ls3" "hd hs3 = db3"
    using history_turn [OF h2(1), of "200 + DAY" "200 + DAY" "''w1''" None] s3(1) h2(2) by auto
  with i3(2) s3(3,4) show ?thesis unfolding seen_def by blast
qed

theorem stale_purge_never_completes_witness:
  "\<exists>hs ls hs' ls' d'. server_history demo_lib demo_net (Some demo_config) hs ls \<and>
    continues demo_lib demo_net (Some demo_config) (300 + DAY + 15 * 60 * 1000000) hs ls hs' ls' \<and>
    d' \<in> set (deletions (hd hs')) \<and> d_state d' \<noteq> ''completed''"
proof -
  obtain hs ls d where h: "server_history demo_lib demo_net (Some demo_config) hs ls" "d \<in> set (deletions (hd hs))"
      "d_state d = ''purging''" "d_billing_checked_at d = Some (200 + DAY)"
    using demo_purging_history by blast
  let ?t = "300 + DAY + 15 * 60 * 1000000"
  obtain r db' where c: "claim_due ?t ''w2'' (hd hs) = (r, db')" by fastforce
  have run: "continues demo_lib demo_net (Some demo_config) ?t hs ls (db' # hs) (case r of Inr (Some l) \<Rightarrow> insert l ls | _ \<Rightarrow> ls)"
    by (rule continues.lifecycle [OF continues.now order_refl]) (rule claim [OF c])
  have "200 + DAY < ?t - 15 * 60 * 1000000" by simp
  from stale_purge_never_completes [OF h this run] obtain d' where "d' \<in> set (deletions db')" "d_state d' \<noteq> ''completed''" by auto
  with h(1) run show ?thesis by (metis list.sel(1))
qed

end
