(* ===== verification/Local_Store.thy ===== *)
theory Local_Store
  imports Vault
begin

text \<open>
  The command line client's local store: \<open>error.rs\<close> and \<open>store.rs\<close> of \<open>crates/cli/src\<close>. The SQLite
  tables are lists of rows as on the server; every operation is one statement or one transaction, so
  it either gives the new store or an error and no change. The columns no statement reads
  (\<open>created_at\<close>, \<open>updated_at\<close>, the random id of a history row) are left out, and of \<open>deleted_at\<close> only
  whether it is set. Failures of SQLite itself (a full disk, a locked file) are not modelled;
  constraint violations are.

  Results: every operation keeps the store's constraints and its version history, which only grows
  and always holds the current version of every secret.
\<close>

section \<open>Errors\<close>

datatype cli_error =
    NoConfig string
  | ConfigError string
  | CliNotFound string
  | Locked
  | StoreError string
  | IoError string
  | CryptoFailed
  | CliConflict string
  | AlreadyInitialized
  | NoIdentity
  | KeychainError string
  | NetworkError string
  | ServerError string
  | LegacyServer
  | CliForbidden string
  | InputError string

fun exit_code :: "cli_error \<Rightarrow> int" where
  "exit_code (CliNotFound _) = 3"
| "exit_code (NoConfig _) = 3"
| "exit_code Locked = 4"
| "exit_code CryptoFailed = 4"
| "exit_code NoIdentity = 4"
| "exit_code (StoreError _) = 5"
| "exit_code (IoError _) = 5"
| "exit_code (KeychainError _) = 5"
| "exit_code (NetworkError _) = 5"
| "exit_code (ServerError _) = 5"
| "exit_code (CliForbidden _) = 5"
| "exit_code LegacyServer = 5"
| "exit_code (CliConflict _) = 6"
| "exit_code (ConfigError _) = 1"
| "exit_code AlreadyInitialized = 1"
| "exit_code (InputError _) = 1"

text \<open>\<open>From<sotto_core::Error>\<close>: every error of the core crate becomes the same opaque one.\<close>

definition from_core :: "core_error + 'a \<Rightarrow> cli_error + 'a" where
  "from_core = map_err (\<lambda>_. CryptoFailed)"

section \<open>Tables\<close>

record local_identity =
  id_salt :: bytes
  id_verifier :: bytes

record key_material =
  ak_public :: bytes
  ak_private :: bytes
  ak_recovery :: bytes

record local_project =
  lp_id :: string
  lp_name :: string

record local_env =
  le_id :: string
  le_project :: string
  le_name :: string
  le_key :: bytes

record local_secret =
  lx_id :: string
  lx_env :: string
  lx_name :: bytes
  lx_value :: bytes
  lx_key :: bytes
  lx_version :: int
  lx_deleted :: bool

record local_version =
  lv_secret :: string
  lv_version :: int
  lv_name :: bytes
  lv_value :: bytes
  lv_key :: bytes

record sync_row =
  sy_env :: string
  sy_revision :: int

record local_store =
  st_identity :: "local_identity option"
  st_keys :: "key_material option"
  st_projects :: "local_project list"
  st_envs :: "local_env list"
  st_secrets :: "local_secret list"
  st_versions :: "local_version list"
  st_synced :: "sync_row list"

definition empty_store :: local_store where
  "empty_store = \<lparr>st_identity = None, st_keys = None, st_projects = [], st_envs = [], st_secrets = [], st_versions = [], st_synced = []\<rparr>"

text \<open>The sync engine's view of a secret.\<close>

record sync_secret =
  ss_id :: string
  ss_name :: bytes
  ss_value :: bytes
  ss_key :: bytes
  ss_version :: int
  ss_deleted :: bool

section \<open>Identity, projects and environments\<close>

definition put_identity :: "local_identity \<Rightarrow> local_store \<Rightarrow> local_store" where
  "put_identity i st = st\<lparr>st_identity := Some i\<rparr>"

definition get_identity :: "local_store \<Rightarrow> local_identity option" where
  "get_identity st = st_identity st"

definition put_identity_with_keys :: "local_identity \<Rightarrow> key_material \<Rightarrow> local_store \<Rightarrow> local_store" where
  "put_identity_with_keys i k st = st\<lparr>st_identity := Some i, st_keys := Some k\<rparr>"

definition get_account_keys :: "local_store \<Rightarrow> key_material option" where
  "get_account_keys st = st_keys st"

definition get_project :: "string \<Rightarrow> local_store \<Rightarrow> local_project option" where
  "get_project i st = sql_find (\<lambda>p. lp_id p = i) (st_projects st)"

definition create_project_with_id :: "string \<Rightarrow> string \<Rightarrow> local_store \<Rightarrow> cli_error + local_project \<times> local_store" where
  "create_project_with_id i name st =
     (let p = \<lparr>lp_id = i, lp_name = name\<rparr> in
      rbind (require (get_project i st = None) (StoreError ''UNIQUE constraint failed: projects.id'')) (\<lambda>_.
      Inr (p, st\<lparr>st_projects := sql_insert p (st_projects st)\<rparr>)))"

definition get_environment :: "string \<Rightarrow> string \<Rightarrow> local_store \<Rightarrow> local_env option" where
  "get_environment project name st = sql_find (\<lambda>e. le_project e = project \<and> le_name e = name) (st_envs st)"

definition find_environment :: "string \<Rightarrow> local_store \<Rightarrow> local_env option" where
  "find_environment i st = sql_find (\<lambda>e. le_id e = i) (st_envs st)"

definition create_local_env :: "string \<Rightarrow> string \<Rightarrow> string \<Rightarrow> bytes \<Rightarrow> local_store \<Rightarrow> cli_error + local_env \<times> local_store" where
  "create_local_env i project name key st =
     (let e = \<lparr>le_id = i, le_project = project, le_name = name, le_key = key\<rparr> in
      rbind (require (find_environment i st = None) (StoreError ''UNIQUE constraint failed: environments.id'')) (\<lambda>_.
      rbind (require (get_environment project name st = None) (StoreError ''UNIQUE constraint failed: environments.project_id, environments.name'')) (\<lambda>_.
      rbind (require (get_project project st \<noteq> None) (StoreError ''FOREIGN KEY constraint failed'')) (\<lambda>_.
      Inr (e, st\<lparr>st_envs := sql_insert e (st_envs st)\<rparr>)))))"

definition update_env_vault_key :: "string \<Rightarrow> bytes \<Rightarrow> local_store \<Rightarrow> cli_error + local_store" where
  "update_env_vault_key i key st =
     rbind (require (sql_count (\<lambda>e. le_id e = i) (st_envs st) \<noteq> 0) (CliNotFound i)) (\<lambda>_.
     Inr (st\<lparr>st_envs := sql_update (\<lambda>e. le_id e = i) (\<lambda>e. e\<lparr>le_key := key\<rparr>) (st_envs st)\<rparr>))"

definition list_local_envs :: "string \<Rightarrow> local_store \<Rightarrow> string list" where
  "list_local_envs project st = sort (map le_name (sql_select (\<lambda>e. le_project e = project) (st_envs st)))"

section \<open>Secrets\<close>

definition secret_rows :: "string \<Rightarrow> bool \<Rightarrow> local_store \<Rightarrow> local_secret list" where
  "secret_rows env deleted st = sql_select (\<lambda>s. lx_env s = env \<and> lx_deleted s = deleted) (st_secrets st)"

definition list_secrets :: "string \<Rightarrow> local_store \<Rightarrow> local_secret list" where
  "list_secrets env st = secret_rows env False st"

definition list_deleted_secrets :: "string \<Rightarrow> local_store \<Rightarrow> local_secret list" where
  "list_deleted_secrets env st = secret_rows env True st"

definition has_version :: "string \<Rightarrow> int \<Rightarrow> local_store \<Rightarrow> bool" where
  "has_version i version st = sql_exists (\<lambda>v. lv_secret v = i \<and> lv_version v = version) (st_versions st)"

definition snapshot_version :: "string \<Rightarrow> int \<Rightarrow> bytes \<Rightarrow> bytes \<Rightarrow> bytes \<Rightarrow> local_store \<Rightarrow> cli_error + local_store" where
  "snapshot_version i version name val key st =
     rbind (require (\<not> has_version i version st) (StoreError ''UNIQUE constraint failed: secret_versions.secret_id, secret_versions.version'')) (\<lambda>_.
     Inr (st\<lparr>st_versions := sql_insert \<lparr>lv_secret = i, lv_version = version, lv_name = name, lv_value = val, lv_key = key\<rparr> (st_versions st)\<rparr>))"

definition insert_secret :: "string \<Rightarrow> string \<Rightarrow> bytes \<Rightarrow> bytes \<Rightarrow> bytes \<Rightarrow> local_store \<Rightarrow> cli_error + local_store" where
  "insert_secret i env name val key st =
     rbind (require (\<not> sql_exists (\<lambda>s. lx_id s = i) (st_secrets st)) (StoreError ''UNIQUE constraint failed: secrets.id'')) (\<lambda>_.
     rbind (require (find_environment env st \<noteq> None) (StoreError ''FOREIGN KEY constraint failed'')) (\<lambda>_.
     snapshot_version i 1 name val key (st\<lparr>st_secrets := sql_insert
       \<lparr>lx_id = i, lx_env = env, lx_name = name, lx_value = val, lx_key = key, lx_version = 1, lx_deleted = False\<rparr> (st_secrets st)\<rparr>)))"

text \<open>\<open>current + 1\<close> on \<open>i64\<close> as the release build computes it.\<close>

definition next_version :: "int \<Rightarrow> int" where
  "next_version v = (if v = 2 ^ 63 - 1 then - (2 ^ 63) else v + 1)"

definition update_secret :: "string \<Rightarrow> int \<Rightarrow> bytes \<Rightarrow> bytes \<Rightarrow> bytes \<Rightarrow> local_store \<Rightarrow> cli_error + local_store" where
  "update_secret i new_version name val key st =
     rbind (ok_or (map_option lx_version (sql_find (\<lambda>s. lx_id s = i) (st_secrets st))) (CliNotFound i)) (\<lambda>current.
     rbind (require (new_version = next_version current) (CliConflict (''secret '' @ i @ '': expected version '' @
       dec_int (next_version current) @ '', got '' @ dec_int new_version))) (\<lambda>_.
     let p = (\<lambda>s. lx_id s = i \<and> lx_version s = current) in
     rbind (require (sql_count p (st_secrets st) \<noteq> 0) (CliConflict (''secret '' @ i @
       '': version changed concurrently (expected '' @ dec_int current @ '')''))) (\<lambda>_.
     snapshot_version i new_version name val key (st\<lparr>st_secrets := sql_update p
       (\<lambda>s. s\<lparr>lx_name := name, lx_value := val, lx_key := key, lx_version := new_version, lx_deleted := False\<rparr>) (st_secrets st)\<rparr>))))"

definition delete_secret :: "string \<Rightarrow> local_store \<Rightarrow> cli_error + local_store" where
  "delete_secret i st =
     (let p = (\<lambda>s. lx_id s = i \<and> \<not> lx_deleted s) in
      rbind (require (sql_count p (st_secrets st) \<noteq> 0) (CliNotFound i)) (\<lambda>_.
      Inr (st\<lparr>st_secrets := sql_update p (\<lambda>s. s\<lparr>lx_deleted := True\<rparr>) (st_secrets st)\<rparr>)))"

definition secret_versions :: "string \<Rightarrow> local_store \<Rightarrow> local_version list" where
  "secret_versions i st = sort_key lv_version (sql_select (\<lambda>v. lv_secret v = i) (st_versions st))"

section \<open>Synchronisation\<close>

definition sync_of :: "local_secret \<Rightarrow> sync_secret" where
  "sync_of s = \<lparr>ss_id = lx_id s, ss_name = lx_name s, ss_value = lx_value s, ss_key = lx_key s,
     ss_version = lx_version s, ss_deleted = lx_deleted s\<rparr>"

definition all_secrets :: "string \<Rightarrow> local_store \<Rightarrow> sync_secret list" where
  "all_secrets env st = map sync_of (sql_select (\<lambda>s. lx_env s = env) (st_secrets st))"

definition find_local :: "string \<Rightarrow> string \<Rightarrow> local_store \<Rightarrow> sync_secret option" where
  "find_local env i st = map_option sync_of (sql_find (\<lambda>s. lx_env s = env \<and> lx_id s = i) (st_secrets st))"

text \<open>\<open>INSERT OR REPLACE\<close> deletes a row with the same primary key, of whatever environment, and
  appends the new one; \<open>INSERT OR IGNORE\<close> leaves a version that is already recorded as it is.\<close>

definition put_remote_secret :: "string \<Rightarrow> sync_secret \<Rightarrow> local_store \<Rightarrow> cli_error + local_store" where
  "put_remote_secret env s st =
     rbind (require (find_environment env st \<noteq> None) (StoreError ''FOREIGN KEY constraint failed'')) (\<lambda>_.
     Inr (st\<lparr>st_secrets := sql_insert \<lparr>lx_id = ss_id s, lx_env = env, lx_name = ss_name s, lx_value = ss_value s, lx_key = ss_key s,
             lx_version = ss_version s, lx_deleted = ss_deleted s\<rparr> (sql_delete (\<lambda>r. lx_id r = ss_id s) (st_secrets st)),
           st_versions := (if has_version (ss_id s) (ss_version s) st then st_versions st
             else sql_insert \<lparr>lv_secret = ss_id s, lv_version = ss_version s, lv_name = ss_name s, lv_value = ss_value s, lv_key = ss_key s\<rparr>
               (st_versions st))\<rparr>))"

definition synced_revision :: "string \<Rightarrow> local_store \<Rightarrow> int" where
  "synced_revision env st = (case sql_find (\<lambda>y. sy_env y = env) (st_synced st) of None \<Rightarrow> 0 | Some y \<Rightarrow> sy_revision y)"

definition set_synced_revision :: "string \<Rightarrow> int \<Rightarrow> local_store \<Rightarrow> cli_error + local_store" where
  "set_synced_revision env revision st =
     rbind (require (find_environment env st \<noteq> None) (StoreError ''FOREIGN KEY constraint failed'')) (\<lambda>_.
     Inr (st\<lparr>st_synced := sql_insert \<lparr>sy_env = env, sy_revision = revision\<rparr> (sql_delete (\<lambda>y. sy_env y = env) (st_synced st))\<rparr>))"

section \<open>The store's invariant\<close>

text \<open>What the schema's constraints guarantee, and the history: the current version of every secret is
  recorded.\<close>

definition local_ok :: "local_store \<Rightarrow> bool" where
  "local_ok st \<longleftrightarrow> distinct (map lp_id (st_projects st)) \<and> distinct (map le_id (st_envs st)) \<and>
     distinct (map (\<lambda>e. (le_project e, le_name e)) (st_envs st)) \<and>
     distinct (map lx_id (st_secrets st)) \<and> distinct (map (\<lambda>v. (lv_secret v, lv_version v)) (st_versions st)) \<and>
     distinct (map sy_env (st_synced st)) \<and>
     (\<forall>e \<in> set (st_envs st). get_project (le_project e) st \<noteq> None) \<and>
     (\<forall>s \<in> set (st_secrets st). find_environment (lx_env s) st \<noteq> None \<and> has_version (lx_id s) (lx_version s) st) \<and>
     (\<forall>v \<in> set (st_versions st). lv_secret v \<in> lx_id ` set (st_secrets st)) \<and>
     (\<forall>y \<in> set (st_synced st). find_environment (sy_env y) st \<noteq> None)"

inductive store_write :: "local_store \<Rightarrow> local_store \<Rightarrow> bool" where
  identity: "store_write st (put_identity i st)"
| identity_keys: "store_write st (put_identity_with_keys i k st)"
| project: "create_project_with_id i name st = Inr (p, st') \<Longrightarrow> store_write st st'"
| environment: "create_local_env i project name key st = Inr (e, st') \<Longrightarrow> store_write st st'"
| vault_key: "update_env_vault_key i key st = Inr st' \<Longrightarrow> store_write st st'"
| inserted: "insert_secret i env name val key st = Inr st' \<Longrightarrow> store_write st st'"
| updated: "update_secret i version name val key st = Inr st' \<Longrightarrow> store_write st st'"
| deleted: "delete_secret i st = Inr st' \<Longrightarrow> store_write st st'"
| remote: "put_remote_secret env s st = Inr st' \<Longrightarrow> store_write st st'"
| synced: "set_synced_revision env revision st = Inr st' \<Longrightarrow> store_write st st'"

lemmas store_defs = put_identity_def put_identity_with_keys_def create_project_with_id_def create_local_env_def update_env_vault_key_def
  insert_secret_def update_secret_def delete_secret_def put_remote_secret_def set_synced_revision_def snapshot_version_def

lemma find_environment_None [simp]: "find_environment i st = None \<longleftrightarrow> i \<notin> le_id ` set (st_envs st)"
  by (auto simp: find_environment_def sql_find_None_iff)

lemma get_project_None [simp]: "get_project i st = None \<longleftrightarrow> i \<notin> lp_id ` set (st_projects st)"
  by (auto simp: get_project_def sql_find_None_iff)

lemma get_environment_None [simp]:
  "get_environment project name st = None \<longleftrightarrow> (\<forall>e \<in> set (st_envs st). \<not> (le_project e = project \<and> le_name e = name))"
  by (simp add: get_environment_def sql_find_None_iff)

lemma has_version_iff: "has_version i n st \<longleftrightarrow> (\<exists>v \<in> set (st_versions st). lv_secret v = i \<and> lv_version v = n)"
  by (simp add: has_version_def sql_exists_iff)

lemma image_sql_update: "(\<And>r. p r \<Longrightarrow> k (f r) = k r) \<Longrightarrow> k ` set (sql_update p f t) = k ` set t"
  using keys_sql_update [of p k f t] by (metis list.set_map)

lemma store_write_ok:
  assumes "store_write st st'" and ok: "local_ok st"
  shows "local_ok st'"
  using assms(1)
proof cases
  case (environment i project name key e)
  then show ?thesis
    using ok unfolding local_ok_def by (auto simp: store_defs rbind_eq_Inr_iff Let_def distinct_sql_insert has_version_iff)
next
  case (vault_key i key)
  then have st': "st' = st\<lparr>st_envs := sql_update (\<lambda>e. le_id e = i) (\<lambda>e. e\<lparr>le_key := key\<rparr>) (st_envs st)\<rparr>"
    by (auto simp: store_defs rbind_eq_Inr_iff)
  have "le_id ` set (st_envs st') = le_id ` set (st_envs st)" by (simp add: st' image_sql_update del: set_sql_update)
  moreover have "\<forall>e \<in> set (st_envs st'). le_project e \<in> lp_id ` set (st_projects st)" using ok by (auto simp: st' local_ok_def)
  ultimately show ?thesis
    using ok unfolding local_ok_def find_environment_None get_project_None
    by (simp add: st' keys_sql_update has_version_iff del: set_sql_update)
next
  case (inserted i env name val key)
  then show ?thesis
    using ok unfolding local_ok_def by (auto simp: store_defs rbind_eq_Inr_iff Let_def distinct_sql_insert has_version_iff sql_exists_iff)
next
  case (deleted i)
  then have st': "st' = st\<lparr>st_secrets := sql_update (\<lambda>s. lx_id s = i \<and> \<not> lx_deleted s) (\<lambda>s. s\<lparr>lx_deleted := True\<rparr>) (st_secrets st)\<rparr>"
    by (auto simp: store_defs rbind_eq_Inr_iff Let_def)
  have "lx_id ` set (st_secrets st') = lx_id ` set (st_secrets st)" by (simp add: st' image_sql_update del: set_sql_update)
  moreover have "\<forall>s \<in> set (st_secrets st'). lx_env s \<in> le_id ` set (st_envs st) \<and> has_version (lx_id s) (lx_version s) st"
    using ok by (auto simp: st' local_ok_def)
  ultimately show ?thesis
    using ok unfolding local_ok_def find_environment_None get_project_None
    by (simp add: st' keys_sql_update has_version_iff del: set_sql_update)
next
  case (updated i version name val key)
  then obtain current where current: "version = next_version current" "\<not> has_version i version st" "0 < sql_count (\<lambda>s. lx_id s = i \<and> lx_version s = current) (st_secrets st)"
    and st': "st' = st\<lparr>st_secrets := sql_update (\<lambda>s. lx_id s = i \<and> lx_version s = current)
        (\<lambda>s. s\<lparr>lx_name := name, lx_value := val, lx_key := key, lx_version := version, lx_deleted := False\<rparr>) (st_secrets st),
      st_versions := sql_insert \<lparr>lv_secret = i, lv_version = version, lv_name = name, lv_value = val, lv_key = key\<rparr> (st_versions st)\<rparr>"
    by (auto simp: store_defs rbind_eq_Inr_iff Let_def has_version_iff)
  have ids: "map lx_id (st_secrets st') = map lx_id (st_secrets st)" by (simp add: st' keys_sql_update)
  then have "lx_id ` set (st_secrets st') = lx_id ` set (st_secrets st)" by (metis list.set_map)
  moreover have "i \<in> lx_id ` set (st_secrets st)" using current(3) by (auto simp: sql_count_pos_iff)
  moreover have "\<forall>v \<in> set (st_versions st'). lv_secret v = i \<or> v \<in> set (st_versions st)" by (auto simp: st')
  ultimately have "\<forall>v \<in> set (st_versions st'). lv_secret v \<in> lx_id ` set (st_secrets st')"
    using ok by (auto simp: local_ok_def)
  moreover have "\<forall>s \<in> set (st_secrets st'). find_environment (lx_env s) st' \<noteq> None \<and> has_version (lx_id s) (lx_version s) st'"
    using ok by (auto simp: local_ok_def st' has_version_iff)
  ultimately show ?thesis
    using ok current(2) ids unfolding local_ok_def by (simp add: st' distinct_sql_insert has_version_iff)
next
  case (remote env s)
  let ?row = "\<lparr>lx_id = ss_id s, lx_env = env, lx_name = ss_name s, lx_value = ss_value s, lx_key = ss_key s,
    lx_version = ss_version s, lx_deleted = ss_deleted s\<rparr>"
  from remote obtain e where e: "e \<in> set (st_envs st)" "le_id e = env"
    and secrets: "st_secrets st' = sql_insert ?row (sql_delete (\<lambda>r. lx_id r = ss_id s) (st_secrets st))"
    and versions: "st_versions st' = (if has_version (ss_id s) (ss_version s) st then st_versions st
      else sql_insert \<lparr>lv_secret = ss_id s, lv_version = ss_version s, lv_name = ss_name s, lv_value = ss_value s, lv_key = ss_key s\<rparr> (st_versions st))"
    and frame: "st_projects st' = st_projects st" "st_envs st' = st_envs st" "st_synced st' = st_synced st"
    by (auto simp: put_remote_secret_def rbind_eq_Inr_iff)
  have mono: "has_version i n st \<Longrightarrow> has_version i n st'" and new: "has_version (ss_id s) (ss_version s) st'" for i n
    by (auto simp: has_version_iff versions)
  have "lx_id ` set (st_secrets st') = insert (ss_id s) (lx_id ` set (st_secrets st))" by (auto simp: secrets)
  moreover have "\<forall>v \<in> set (st_versions st'). lv_secret v = ss_id s \<or> v \<in> set (st_versions st)" by (auto simp: versions)
  ultimately have "\<forall>v \<in> set (st_versions st'). lv_secret v \<in> lx_id ` set (st_secrets st')" using ok by (auto simp: local_ok_def)
  moreover have "\<forall>x \<in> set (st_secrets st'). find_environment (lx_env x) st' \<noteq> None \<and> has_version (lx_id x) (lx_version x) st'"
    using ok mono new e by (auto simp: local_ok_def secrets frame)
  moreover have "distinct (map (\<lambda>v. (lv_secret v, lv_version v)) (st_versions st'))"
    using ok by (auto simp: local_ok_def versions distinct_sql_insert has_version_iff)
  ultimately show ?thesis
    using ok unfolding local_ok_def by (simp add: frame secrets distinct_sql_insert distinct_sql_delete)
qed (use ok in \<open>auto simp: local_ok_def store_defs rbind_eq_Inr_iff Let_def distinct_sql_insert distinct_sql_delete keys_sql_update has_version_iff\<close>)

lemma store_write_history:
  assumes "store_write st st'"
  shows "\<exists>new_rows. st_versions st' = st_versions st @ new_rows"
  using assms by cases (auto simp: store_defs rbind_eq_Inr_iff Let_def sql_insert_def)

lemma store_writes_ok:
  assumes "store_write\<^sup>*\<^sup>* st st'" and "local_ok st"
  shows "local_ok st' \<and> (\<exists>new_rows. st_versions st' = st_versions st @ new_rows)"
  using assms(1)
proof (induction rule: rtranclp_induct)
  case base
  with assms(2) show ?case by simp
next
  case (step y z)
  with store_write_ok [OF step.hyps(2)] store_write_history [OF step.hyps(2)] show ?case by fastforce
qed

lemma empty_store_ok: "local_ok empty_store"
  by (simp add: local_ok_def empty_store_def)

text \<open>C26: The local version history is complete and permanent. Whatever the client does to a new store,
  in whatever order, every secret's current version is recorded in its history exactly once, every
  recorded version belongs to a stored secret, and what is recorded is never changed or dropped.\<close>

theorem local_history_permanent:
  assumes "store_write\<^sup>*\<^sup>* empty_store st" and "store_write\<^sup>*\<^sup>* st st'"
  shows "(\<exists>new_rows. st_versions st' = st_versions st @ new_rows) \<and>
    (\<forall>s. s \<in> set (st_secrets st') \<longrightarrow> (\<exists>!v. v \<in> set (st_versions st') \<and> lv_secret v = lx_id s \<and> lv_version v = lx_version s)) \<and>
    lv_secret ` set (st_versions st') \<subseteq> lx_id ` set (st_secrets st') \<and> distinct (map lx_id (st_secrets st'))"
proof -
  have "local_ok st" using store_writes_ok [OF assms(1) empty_store_ok] by simp
  note later = store_writes_ok [OF assms(2) this]
  then have ok: "local_ok st'" by simp
  have "\<exists>!v. v \<in> set (st_versions st') \<and> lv_secret v = lx_id s \<and> lv_version v = lx_version s" if "s \<in> set (st_secrets st')" for s
    using ok that by (fastforce simp: local_ok_def has_version_iff distinct_map inj_on_def)
  moreover have "lv_secret ` set (st_versions st') \<subseteq> lx_id ` set (st_secrets st')"
    using ok by (auto simp: local_ok_def)
  ultimately show ?thesis using later ok by (simp add: local_ok_def)
qed

definition demo_local :: local_store where
  "demo_local = empty_store\<lparr>st_projects := [\<lparr>lp_id = ''p'', lp_name = ''app''\<rparr>],
     st_envs := [\<lparr>le_id = ''e'', le_project = ''p'', le_name = ''dev'', le_key = [1]\<rparr>]\<rparr>"

definition demo_secret_store :: local_store where
  "demo_secret_store = demo_local\<lparr>st_secrets := [\<lparr>lx_id = ''s'', lx_env = ''e'', lx_name = [2], lx_value = [3], lx_key = [4], lx_version = 1, lx_deleted = False\<rparr>],
     st_versions := [\<lparr>lv_secret = ''s'', lv_version = 1, lv_name = [2], lv_value = [3], lv_key = [4]\<rparr>]\<rparr>"

lemma demo_local_written: "store_write\<^sup>*\<^sup>* empty_store demo_local"
proof -
  have "create_project_with_id ''p'' ''app'' empty_store =
      Inr (\<lparr>lp_id = ''p'', lp_name = ''app''\<rparr>, empty_store\<lparr>st_projects := [\<lparr>lp_id = ''p'', lp_name = ''app''\<rparr>]\<rparr>)"
    by (simp add: create_project_with_id_def empty_store_def sql_insert_def Let_def)
  moreover have "create_local_env ''e'' ''p'' ''dev'' [1] (empty_store\<lparr>st_projects := [\<lparr>lp_id = ''p'', lp_name = ''app''\<rparr>]\<rparr>) =
      Inr (\<lparr>le_id = ''e'', le_project = ''p'', le_name = ''dev'', le_key = [1]\<rparr>, demo_local)"
    by (simp add: create_local_env_def demo_local_def empty_store_def sql_insert_def Let_def)
  ultimately show ?thesis by (meson rtranclp.rtrancl_into_rtrancl rtranclp.rtrancl_refl store_write.project store_write.environment)
qed

lemma demo_insert: "insert_secret ''s'' ''e'' [2] [3] [4] demo_local = Inr demo_secret_store"
  by (simp add: insert_secret_def snapshot_version_def demo_local_def demo_secret_store_def empty_store_def sql_insert_def sql_exists_iff has_version_iff)

theorem local_history_permanent_witness:
  "\<exists>!v. v \<in> set (st_versions demo_secret_store) \<and> lv_secret v = ''s'' \<and> lv_version v = 1"
proof -
  have "store_write\<^sup>*\<^sup>* demo_local demo_secret_store" using demo_insert by (meson r_into_rtranclp store_write.inserted)
  from local_history_permanent [OF demo_local_written this] show ?thesis by (simp add: demo_secret_store_def)
qed

end
