(* ===== verification/Client_Vault.thy ===== *)
theory Client_Vault
  imports Local_Store
begin

text \<open>
  The client's vault, \<open>crates/cli/src/vault.rs\<close>: the core crate's secrets over the local store. The
  store sees ciphertext only, so a name is resolved by decrypting the rows in turn. Fresh randomness
  is an argument, \<open>draws\<close>, with the new secret's id.

  Results: over a store whose rows decrypt, the vault is a map from names to values; \<open>set\<close> updates it,
  \<open>delete\<close> removes from it, \<open>get\<close> and \<open>list_names\<close> read it.
\<close>

section \<open>UTF-8\<close>

text \<open>\<open>String::from_utf8\<close>: the shortest-form encodings of the Unicode scalar values.\<close>

definition is_cont :: "u8 \<Rightarrow> bool" where
  "is_cont b \<longleftrightarrow> 0x80 \<le> b \<and> b \<le> 0xBF"

definition utf8_width :: "u8 \<Rightarrow> nat option" where
  "utf8_width b =
     (if b < 0x80 then Some 0 else if 0xC2 \<le> b \<and> b \<le> 0xDF then Some 1
      else if 0xE0 \<le> b \<and> b \<le> 0xEF then Some 2 else if 0xF0 \<le> b \<and> b \<le> 0xF4 then Some 3 else None)"

definition second_ok :: "u8 \<Rightarrow> u8 \<Rightarrow> bool" where
  "second_ok b c \<longleftrightarrow> (b = 0xE0 \<longrightarrow> 0xA0 \<le> c) \<and> (b = 0xED \<longrightarrow> c \<le> 0x9F) \<and> (b = 0xF0 \<longrightarrow> 0x90 \<le> c) \<and> (b = 0xF4 \<longrightarrow> c \<le> 0x8F)"

fun utf8_ok :: "bytes \<Rightarrow> bool" where
  "utf8_ok [] = True"
| "utf8_ok (b # bs) =
     (case utf8_width b of
        None \<Rightarrow> False
      | Some n \<Rightarrow> n \<le> length bs \<and> list_all is_cont (take n bs) \<and> (n = 0 \<or> second_ok b (hd bs)) \<and> utf8_ok (drop n bs))"

definition from_utf8 :: "bytes \<Rightarrow> string option" where
  "from_utf8 bs = (if utf8_ok bs then Some (map (\<lambda>b. char_of (unat b)) bs) else None)"

lemma of_char_byte: "of_char (char_of (unat b)) = (b :: u8)"
proof -
  have "(of_char (char_of (unat b)) :: u8) = of_nat (of_char (char_of (unat b)))" by (simp only: of_nat_of_char)
  also have "(of_char (char_of (unat b)) :: nat) = unat b mod 256" by (simp only: of_char_of)
  also have "\<dots> = unat b" using unsigned_less [of b, where ?'a = nat] by simp
  finally show ?thesis by simp
qed
lemma char_of_byte: "char_of (unat (of_char ch :: u8)) = ch"
proof -
  have "as_bytes [char_of (unat (of_char ch :: u8))] = as_bytes [ch]" by (simp only: as_bytes_def list.map of_char_byte)
  then show ?thesis unfolding as_bytes_inject by simp
qed
lemma from_utf8_as_bytes: "from_utf8 (as_bytes s) = (if utf8_ok (as_bytes s) then Some s else None)"
  by (simp add: from_utf8_def as_bytes_def char_of_byte comp_def)

lemma from_utf8_Some: "from_utf8 bs = Some s \<longleftrightarrow> utf8_ok bs \<and> bs = as_bytes s"
proof -
  have "as_bytes (map (\<lambda>b. char_of (unat b)) bs) = bs" for bs :: bytes
    by (simp only: as_bytes_def list.map_comp comp_def of_char_byte list.map_ident)
  note inverse = this
  show ?thesis
  proof
    assume "from_utf8 bs = Some s"
    then have "utf8_ok bs" "s = map (\<lambda>b. char_of (unat b)) bs" by (simp_all add: from_utf8_def split: if_splits)
    with inverse show "utf8_ok bs \<and> bs = as_bytes s" by simp
  next
    assume "utf8_ok bs \<and> bs = as_bytes s"
    then show "from_utf8 bs = Some s" using from_utf8_as_bytes [of s] by metis
  qed
qed

section \<open>The vault\<close>

text \<open>An opened environment: its id and the vault key its grant holds.\<close>

record client_vault =
  cv_env :: string
  cv_key :: bytes

record draws =
  dr_id :: string
  dr_key :: bytes
  dr_nonce1 :: bytes
  dr_nonce2 :: bytes
  dr_nonce3 :: bytes

definition open_vault :: "crypto \<Rightarrow> keypair \<Rightarrow> string \<Rightarrow> string \<Rightarrow> local_store \<Rightarrow> cli_error + client_vault" where
  "open_vault c kp project env st =
     rbind (ok_or (get_environment project env st) (CliNotFound (''environment `'' @ env @ ''`''))) (\<lambda>e.
     rbind (from_core (open_vault_key c kp (le_key e))) (\<lambda>key.
     Inr \<lparr>cv_env = le_id e, cv_key = key\<rparr>))"

definition row_name :: "crypto \<Rightarrow> client_vault \<Rightarrow> local_secret \<Rightarrow> cli_error + string" where
  "row_name c v row =
     rbind (from_core (decrypt_name c (cv_key v) (cv_env v) (lx_id row) (lx_version row) (lx_name row) (lx_key row))) (\<lambda>bs.
     ok_or (from_utf8 bs) CryptoFailed)"

definition row_value :: "crypto \<Rightarrow> client_vault \<Rightarrow> local_secret \<Rightarrow> cli_error + bytes" where
  "row_value c v row =
     from_core (decrypt_value c (cv_key v) (cv_env v) (lx_id row) (lx_version row) (lx_value row) (lx_key row))"

definition row_entry :: "crypto \<Rightarrow> client_vault \<Rightarrow> local_secret \<Rightarrow> cli_error + string \<times> bytes" where
  "row_entry c v row =
     rbind (from_core (decrypt_secret c (cv_key v) (cv_env v) (lx_id row) (lx_version row) (lx_name row) (lx_value row) (lx_key row))) (\<lambda>(bs, val).
     rbind (ok_or (from_utf8 bs) CryptoFailed) (\<lambda>name. Inr (name, val)))"

fun resolve_name :: "crypto \<Rightarrow> client_vault \<Rightarrow> string \<Rightarrow> local_secret list \<Rightarrow> cli_error + local_secret option" where
  "resolve_name c v name [] = Inr None"
| "resolve_name c v name (row # rows) =
     rbind (row_name c v row) (\<lambda>n. if n = name then Inr (Some row) else resolve_name c v name rows)"

definition find_by_name :: "crypto \<Rightarrow> client_vault \<Rightarrow> string \<Rightarrow> local_store \<Rightarrow> cli_error + local_secret option" where
  "find_by_name c v name st = resolve_name c v name (list_secrets (cv_env v) st)"

definition find_deleted_by_name :: "crypto \<Rightarrow> client_vault \<Rightarrow> string \<Rightarrow> local_store \<Rightarrow> cli_error + local_secret option" where
  "find_deleted_by_name c v name st = resolve_name c v name (list_deleted_secrets (cv_env v) st)"

definition find_id_by_name :: "crypto \<Rightarrow> client_vault \<Rightarrow> string \<Rightarrow> local_store \<Rightarrow> cli_error + string option" where
  "find_id_by_name c v name st =
     rbind (find_by_name c v name st) (\<lambda>live.
     case live of
       Some row \<Rightarrow> Inr (Some (lx_id row))
     | None \<Rightarrow> rbind (find_deleted_by_name c v name st) (\<lambda>row. Inr (map_option lx_id row)))"

definition vault_encrypt :: "crypto \<Rightarrow> draws \<Rightarrow> client_vault \<Rightarrow> string \<Rightarrow> int \<Rightarrow> string \<Rightarrow> bytes \<Rightarrow> encrypted_secret" where
  "vault_encrypt c d v i version name val =
     encrypt_secret c (dr_key d) (dr_nonce1 d) (dr_nonce2 d) (dr_nonce3 d) (cv_key v) (cv_env v) i version (as_bytes name) val"

definition vault_set :: "crypto \<Rightarrow> draws \<Rightarrow> client_vault \<Rightarrow> string \<Rightarrow> bytes \<Rightarrow> local_store \<Rightarrow> cli_error + local_store" where
  "vault_set c d v name val st =
     rbind (find_by_name c v name st) (\<lambda>live.
     rbind (case live of Some row \<Rightarrow> Inr (Some row) | None \<Rightarrow> find_deleted_by_name c v name st) (\<lambda>existing.
     case existing of
       Some row \<Rightarrow>
         let version = next_version (lx_version row); e = vault_encrypt c d v (lx_id row) version name val
         in update_secret (lx_id row) version (enc_name e) (enc_value e) (enc_data_key e) st
     | None \<Rightarrow>
         let e = vault_encrypt c d v (dr_id d) 1 name val
         in insert_secret (dr_id d) (cv_env v) (enc_name e) (enc_value e) (enc_data_key e) st))"

definition vault_get :: "crypto \<Rightarrow> client_vault \<Rightarrow> string \<Rightarrow> local_store \<Rightarrow> cli_error + bytes" where
  "vault_get c v name st =
     rbind (find_by_name c v name st) (\<lambda>row. rbind (ok_or row (CliNotFound name)) (row_value c v))"

definition list_names :: "crypto \<Rightarrow> client_vault \<Rightarrow> local_store \<Rightarrow> cli_error + string list" where
  "list_names c v st = rbind (map_result (row_name c v) (list_secrets (cv_env v) st)) (\<lambda>names. Inr (sort names))"

definition vault_delete :: "crypto \<Rightarrow> client_vault \<Rightarrow> string \<Rightarrow> local_store \<Rightarrow> cli_error + local_store" where
  "vault_delete c v name st =
     rbind (find_by_name c v name st) (\<lambda>row. rbind (ok_or row (CliNotFound name)) (\<lambda>row. delete_secret (lx_id row) st))"

definition decrypt_at :: "crypto \<Rightarrow> client_vault \<Rightarrow> string \<Rightarrow> int \<Rightarrow> bytes \<Rightarrow> bytes \<Rightarrow> cli_error + bytes" where
  "decrypt_at c v i version val key = from_core (decrypt_value c (cv_key v) (cv_env v) i version val key)"

definition vault_entries :: "crypto \<Rightarrow> client_vault \<Rightarrow> local_store \<Rightarrow> cli_error + (string \<times> bytes) list" where
  "vault_entries c v st = rbind (map_result (row_entry c v) (list_secrets (cv_env v) st)) (\<lambda>es. Inr (sort_key fst es))"

section \<open>New projects\<close>

definition DEFAULT_ENVIRONMENTS :: "string list" where
  "DEFAULT_ENVIRONMENTS = [''dev'', ''staging'', ''prod'']"

record env_draws =
  ed_id :: string
  ed_key :: bytes
  ed_seal :: bytes

definition create_environment_with_key :: "crypto \<Rightarrow> env_draws \<Rightarrow> keypair \<Rightarrow> string \<Rightarrow> string \<Rightarrow> local_store \<Rightarrow> cli_error + local_store" where
  "create_environment_with_key c d kp project name st =
     rbind (from_core (grant_vault_key c (ed_seal d) (public kp) (ed_key d))) (\<lambda>grant.
     rbind (create_local_env (ed_id d) project name grant st) (\<lambda>(_, st). Inr st))"

text \<open>The project and its environments are separate statements: a failure leaves the earlier ones in
  place.\<close>

fun create_environments :: "crypto \<Rightarrow> keypair \<Rightarrow> string \<Rightarrow> (string \<times> env_draws) list \<Rightarrow> local_store \<Rightarrow> (cli_error + unit) \<times> local_store" where
  "create_environments c kp project [] st = (Inr (), st)"
| "create_environments c kp project ((name, d) # envs) st =
     (case create_environment_with_key c d kp project name st of
        Inl e \<Rightarrow> (Inl e, st)
      | Inr st \<Rightarrow> create_environments c kp project envs st)"

definition create_vault_project :: "crypto \<Rightarrow> string \<Rightarrow> env_draws list \<Rightarrow> keypair \<Rightarrow> string \<Rightarrow> local_store \<Rightarrow> (cli_error + local_project) \<times> local_store" where
  "create_vault_project c i ds kp name st =
     (case create_project_with_id i name st of
        Inl e \<Rightarrow> (Inl e, st)
      | Inr (p, st) \<Rightarrow>
          (case create_environments c kp (lp_id p) (zip DEFAULT_ENVIRONMENTS ds) st of
             (Inl e, st) \<Rightarrow> (Inl e, st)
           | (Inr _, st) \<Rightarrow> (Inr p, st)))"

section \<open>The vault as a map\<close>

text \<open>The plaintext of a row, and the map an environment's rows stand for.\<close>

definition plain :: "crypto \<Rightarrow> client_vault \<Rightarrow> local_secret \<Rightarrow> (string \<times> bytes) option" where
  "plain c v row = (case row_entry c v row of Inl e \<Rightarrow> None | Inr p \<Rightarrow> Some p)"

definition vault_map :: "crypto \<Rightarrow> client_vault \<Rightarrow> local_store \<Rightarrow> string \<Rightarrow> bytes option" where
  "vault_map c v st = map_of (List.map_filter (plain c v) (list_secrets (cv_env v) st))"

text \<open>Every row of the environment decrypts, no two rows have the same name, and no row's history runs
  ahead of it.\<close>

definition vault_ok :: "crypto \<Rightarrow> client_vault \<Rightarrow> local_store \<Rightarrow> bool" where
  "vault_ok c v st \<longleftrightarrow> local_ok st \<and> cv_env v \<in> le_id ` set (st_envs st) \<and>
     (\<forall>s \<in> set (st_secrets st). lx_env s = cv_env v \<longrightarrow> plain c v s \<noteq> None \<and>
        (\<forall>n. has_version (lx_id s) n st \<longrightarrow> n \<le> lx_version s)) \<and>
     (\<forall>s s' name val val'. s \<in> set (st_secrets st) \<longrightarrow> s' \<in> set (st_secrets st) \<longrightarrow> lx_env s = cv_env v \<longrightarrow> lx_env s' = cv_env v \<longrightarrow>
        plain c v s = Some (name, val) \<longrightarrow> plain c v s' = Some (name, val') \<longrightarrow> s = s')"

lemma vault_okD:
  assumes "vault_ok c v st"
  shows "local_ok st" and "cv_env v \<in> le_id ` set (st_envs st)"
    and "s \<in> set (st_secrets st) \<Longrightarrow> lx_env s = cv_env v \<Longrightarrow> \<exists>n val. plain c v s = Some (n, val)"
    and "s \<in> set (st_secrets st) \<Longrightarrow> lx_env s = cv_env v \<Longrightarrow> has_version (lx_id s) n st \<Longrightarrow> n \<le> lx_version s"
    and "s \<in> set (st_secrets st) \<Longrightarrow> s' \<in> set (st_secrets st) \<Longrightarrow> lx_env s = cv_env v \<Longrightarrow> lx_env s' = cv_env v \<Longrightarrow>
      plain c v s = Some (name, val) \<Longrightarrow> plain c v s' = Some (name, val') \<Longrightarrow> s = s'"
proof -
  show "local_ok st" and "cv_env v \<in> le_id ` set (st_envs st)" using assms by (simp_all add: vault_ok_def)
  show "s \<in> set (st_secrets st) \<Longrightarrow> lx_env s = cv_env v \<Longrightarrow> \<exists>n val. plain c v s = Some (n, val)"
    using assms by (simp add: vault_ok_def)
  show "s \<in> set (st_secrets st) \<Longrightarrow> lx_env s = cv_env v \<Longrightarrow> has_version (lx_id s) n st \<Longrightarrow> n \<le> lx_version s"
    using assms by (simp add: vault_ok_def)
  show "s \<in> set (st_secrets st) \<Longrightarrow> s' \<in> set (st_secrets st) \<Longrightarrow> lx_env s = cv_env v \<Longrightarrow> lx_env s' = cv_env v \<Longrightarrow>
      plain c v s = Some (name, val) \<Longrightarrow> plain c v s' = Some (name, val') \<Longrightarrow> s = s'"
    using assms unfolding vault_ok_def by blast
qed

lemma row_parts: "plain c v row = Some (n, val) \<longleftrightarrow> row_name c v row = Inr n \<and> row_value c v row = Inr val"
  unfolding plain_def row_entry_def row_name_def row_value_def from_core_def decrypt_secret_is_both
  by (auto simp: rbind_def map_err_def ok_or_def split: sum.splits option.splits)

lemma plain_row:
  assumes "aead_ok c" "length (dr_nonce1 d) = NONCE_LEN" "length (dr_nonce2 d) = NONCE_LEN" "length (dr_nonce3 d) = NONCE_LEN"
    "length (dr_key d) = KEY_LEN" and "utf8_ok (as_bytes name)" and "e = vault_encrypt c d v (lx_id row) (lx_version row) name val"
    and "lx_name row = enc_name e" "lx_value row = enc_value e" "lx_key row = enc_data_key e"
  shows "plain c v row = Some (name, val)"
  unfolding plain_def row_entry_def assms(7-10) vault_encrypt_def decrypt_encrypt_secret [OF assms(1-5)]
  using assms(6) by (simp add: from_core_def from_utf8_as_bytes)

definition has_name :: "crypto \<Rightarrow> client_vault \<Rightarrow> string \<Rightarrow> local_secret \<Rightarrow> bool" where
  "has_name c v name row \<longleftrightarrow> map_option fst (plain c v row) = Some name"

lemma resolve_name_find:
  assumes "\<forall>row \<in> set rows. plain c v row \<noteq> None"
  shows "resolve_name c v name rows = Inr (List.find (has_name c v name) rows)"
  using assms
proof (induction rows)
  case (Cons row rows)
  obtain n val where p: "plain c v row = Some (n, val)" using Cons.prems by auto
  with Cons show ?case by (simp add: row_parts has_name_def)
qed simp

lemma in_secret_rows [simp]: "row \<in> set (secret_rows env deleted st) \<longleftrightarrow> row \<in> set (st_secrets st) \<and> lx_env row = env \<and> lx_deleted row = deleted"
  by (auto simp: secret_rows_def)

lemma find_rows:
  assumes "vault_ok c v st"
  shows "resolve_name c v name (secret_rows (cv_env v) deleted st) = Inr (List.find (has_name c v name) (secret_rows (cv_env v) deleted st))"
  using vault_okD(3) [OF assms] by (intro resolve_name_find) fastforce

lemma find_unique:
  assumes "\<And>x. x \<in> set xs \<Longrightarrow> p x \<Longrightarrow> x = y"
  shows "List.find p xs = Some y \<longleftrightarrow> y \<in> set xs \<and> p y"
  using assms by (induction xs) auto

lemma found_row:
  assumes "vault_ok c v st"
  shows "List.find (has_name c v name) (secret_rows (cv_env v) deleted st) = Some row \<longleftrightarrow>
    row \<in> set (st_secrets st) \<and> lx_env row = cv_env v \<and> lx_deleted row = deleted \<and> (\<exists>val. plain c v row = Some (name, val))"
proof (cases "row \<in> set (secret_rows (cv_env v) deleted st) \<and> has_name c v name row")
  case True
  then have "r = row" if "r \<in> set (secret_rows (cv_env v) deleted st)" "has_name c v name r" for r
    using that vault_okD(5) [OF assms, of r row] by (auto simp: has_name_def)
  then have "List.find (has_name c v name) (secret_rows (cv_env v) deleted st) = Some row \<longleftrightarrow>
      row \<in> set (secret_rows (cv_env v) deleted st) \<and> has_name c v name row"
    by (rule find_unique)
  then show ?thesis by (auto simp: has_name_def)
next
  case False
  then show ?thesis using sql_find_SomeD [of "has_name c v name" "secret_rows (cv_env v) deleted st" row]
    by (auto simp: sql_find_def has_name_def)
qed

lemma set_map_filter: "set (List.map_filter f xs) = {y. \<exists>x \<in> set xs. f x = Some y}"
  by (induction xs) (auto simp: map_filter_simps split: option.splits)

lemma no_row: "List.find (has_name c v name) (secret_rows env deleted st) = None \<longleftrightarrow>
    (\<forall>row \<in> set (st_secrets st). lx_env row = env \<longrightarrow> lx_deleted row = deleted \<longrightarrow> \<not> has_name c v name row)"
  by (auto simp: find_None_iff)

lemma vault_map_iff:
  assumes "vault_ok c v st"
  shows "vault_map c v st name = Some val \<longleftrightarrow>
    (\<exists>row \<in> set (st_secrets st). lx_env row = cv_env v \<and> \<not> lx_deleted row \<and> plain c v row = Some (name, val))"
proof -
  let ?rows = "list_secrets (cv_env v) st"
  have "distinct ?rows"
    using vault_okD(1) [OF assms] by (auto simp: list_secrets_def secret_rows_def sql_select_def local_ok_def distinct_map)
  then have "distinct (map fst (List.map_filter (plain c v) ?rows))"
  proof -
    have "distinct (map fst (List.map_filter (plain c v) rows))" if "set rows \<subseteq> set ?rows" "distinct rows" for rows
      using that
    proof (induction rows)
      case (Cons row rows)
      show ?case
      proof (cases "plain c v row")
        case (Some p)
        have "fst p \<noteq> fst q" if "q \<in> set (List.map_filter (plain c v) rows)" for q
        proof
          assume eq: "fst p = fst q"
          obtain r where r: "r \<in> set rows" "plain c v r = Some q" using \<open>q \<in> _\<close> by (auto simp: set_map_filter)
          have "plain c v row = Some (fst p, snd p)" using Some by simp
          moreover have "plain c v r = Some (fst p, snd q)" using r(2) eq by (metis prod.collapse)
          ultimately
          have "row = r" using Cons.prems(1) vault_okD(5) [OF assms, of row r "fst p" "snd p" "snd q"] r(1)
            by (auto simp: list_secrets_def)
          with r Cons.prems(2) show False by simp
        qed
        with Cons Some show ?thesis by (auto simp: map_filter_simps)
      qed (use Cons in \<open>simp add: map_filter_simps\<close>)
    qed (simp add: map_filter_simps)
    with \<open>distinct ?rows\<close> show ?thesis by blast
  qed
  then have "vault_map c v st name = Some val \<longleftrightarrow> (name, val) \<in> set (List.map_filter (plain c v) ?rows)"
    unfolding vault_map_def by (rule map_of_eq_Some_iff)
  then show ?thesis by (auto simp: set_map_filter list_secrets_def)
qed

lemma option_eqI: "(\<And>w. x = Some w \<longleftrightarrow> y = Some w) \<Longrightarrow> x = y"
  by (cases x; cases y) auto

lemma plain_cong:
  "lx_id s' = lx_id s \<Longrightarrow> lx_version s' = lx_version s \<Longrightarrow> lx_name s' = lx_name s \<Longrightarrow> lx_value s' = lx_value s \<Longrightarrow> lx_key s' = lx_key s \<Longrightarrow>
     plain c v s' = plain c v s"
  by (simp add: plain_def row_entry_def)

text \<open>Every change of the vault puts one row in place of the row with its id, if there was one.\<close>

lemma vault_replace:
  assumes ok: "vault_ok c v st" and ok': "local_ok st'" and envs: "st_envs st' = st_envs st"
    and mem: "\<And>x. x \<in> set (st_secrets st') \<longleftrightarrow> x = new \<or> x \<in> set (st_secrets st) \<and> lx_id x \<noteq> lx_id new"
    and new: "lx_env new = cv_env v" "plain c v new = Some (name, val)"
    and same: "\<And>x w n. x \<in> set (st_secrets st) \<Longrightarrow> lx_env x = cv_env v \<Longrightarrow> plain c v x = Some (n, w) \<Longrightarrow> n = name \<longleftrightarrow> lx_id x = lx_id new"
    and hist: "\<And>i n. has_version i n st' \<Longrightarrow> has_version i n st \<or> i = lx_id new \<and> n \<le> lx_version new"
    and latest: "\<And>n. has_version (lx_id new) n st \<Longrightarrow> n \<le> lx_version new"
  shows "vault_ok c v st'" and "vault_map c v st' = (vault_map c v st)(name := if lx_deleted new then None else Some val)"
proof -
  note D = vault_okD [OF ok]
  have plain: "\<exists>n w. plain c v x = Some (n, w)" if "x \<in> set (st_secrets st')" "lx_env x = cv_env v" for x
    using that D(3) new(2) by (auto simp: mem)
  have unique: "x = y" if "x \<in> set (st_secrets st')" "y \<in> set (st_secrets st')" "lx_env x = cv_env v" "lx_env y = cv_env v"
    "plain c v x = Some (n, w)" "plain c v y = Some (n, w')" for x y n w w'
    using that D(5) [of x y n w w'] same [of x n w] same [of y n w'] new(2) unfolding mem by auto
  show vault: "vault_ok c v st'"
    unfolding vault_ok_def
  proof (intro conjI ballI allI impI)
    fix s n assume s: "s \<in> set (st_secrets st')" "lx_env s = cv_env v" "has_version (lx_id s) n st'"
    then show "n \<le> lx_version s"
      using hist [OF s(3)] latest D(4) [of s n] unfolding mem by auto
  qed (use ok' D(2) envs plain unique in auto)
  show "vault_map c v st' = (vault_map c v st)(name := if lx_deleted new then None else Some val)"
  proof
    fix n
    have "vault_map c v st' n = Some w \<longleftrightarrow> ((vault_map c v st)(name := if lx_deleted new then None else Some val)) n = Some w" for w
    proof (cases "n = name")
      case True
      have "(\<exists>row \<in> set (st_secrets st'). lx_env row = cv_env v \<and> \<not> lx_deleted row \<and> plain c v row = Some (name, w)) \<longleftrightarrow> \<not> lx_deleted new \<and> w = val"
        using new same by (auto simp: mem Bex_def)
      with True show ?thesis unfolding vault_map_iff [OF vault] by auto
    next
      case False
      have "(\<exists>row \<in> set (st_secrets st'). lx_env row = cv_env v \<and> \<not> lx_deleted row \<and> plain c v row = Some (n, w)) \<longleftrightarrow>
          (\<exists>row \<in> set (st_secrets st). lx_env row = cv_env v \<and> \<not> lx_deleted row \<and> plain c v row = Some (n, w))"
        (is "?L \<longleftrightarrow> ?R")
      proof
        assume ?L
        then show ?R using new(2) False by (auto simp: mem)
      next
        assume ?R
        then obtain row where row: "row \<in> set (st_secrets st)" "lx_env row = cv_env v" "\<not> lx_deleted row" "plain c v row = Some (n, w)" by blast
        with same [OF row(1,2,4)] False have "row \<in> set (st_secrets st')" by (simp add: mem)
        with row show ?L by blast
      qed
      then show ?thesis unfolding fun_upd_other [OF False] vault_map_iff [OF vault] vault_map_iff [OF ok] .
    qed
    then show "vault_map c v st' n = ((vault_map c v st)(name := if lx_deleted new then None else Some val)) n" by (rule option_eqI)
  qed
qed

lemma id_unique:
  assumes "local_ok st" and "x \<in> set (st_secrets st)" and "y \<in> set (st_secrets st)" and "lx_id x = lx_id y"
  shows "x = y"
  using assms by (auto simp: local_ok_def distinct_map inj_on_def)

lemma in_update_unique:
  assumes "local_ok st" and "row \<in> set (st_secrets st)" and "p row" and "\<And>x. p x \<Longrightarrow> lx_id x = lx_id row" and "lx_id (f row) = lx_id row"
  shows "x \<in> set (sql_update p f (st_secrets st)) \<longleftrightarrow> x = f row \<or> x \<in> set (st_secrets st) \<and> lx_id x \<noteq> lx_id (f row)"
proof -
  have "r = row" if "r \<in> set (st_secrets st)" "p r" for r
    using id_unique [OF assms(1) that(1) assms(2) assms(4) [OF that(2)]] .
  then have hit: "{r \<in> set (st_secrets st). p r} = {row}" using assms(2,3) by blast
  moreover have "{r \<in> set (st_secrets st). \<not> p r} = {r \<in> set (st_secrets st). lx_id r \<noteq> lx_id row}"
    using hit id_unique [OF assms(1) _ assms(2)] assms(3,4) by blast
  ultimately show ?thesis by (auto simp: assms(5))
qed

lemma find_by_name_iff:
  assumes "vault_ok c v st"
  shows "\<exists>r. find_by_name c v name st = Inr r \<and> (\<forall>row. r = Some row \<longleftrightarrow> row \<in> set (st_secrets st) \<and> lx_env row = cv_env v \<and>
      \<not> lx_deleted row \<and> (\<exists>val. plain c v row = Some (name, val)))"
    and "\<exists>r. find_deleted_by_name c v name st = Inr r \<and> (\<forall>row. r = Some row \<longleftrightarrow> row \<in> set (st_secrets st) \<and> lx_env row = cv_env v \<and>
      lx_deleted row \<and> (\<exists>val. plain c v row = Some (name, val)))"
proof -
  have live: "List.find (has_name c v name) (secret_rows (cv_env v) False st) = Some row \<longleftrightarrow> row \<in> set (st_secrets st) \<and> lx_env row = cv_env v \<and>
      \<not> lx_deleted row \<and> (\<exists>val. plain c v row = Some (name, val))" for row
    using found_row [OF assms, of name False row] by simp
  have gone: "List.find (has_name c v name) (secret_rows (cv_env v) True st) = Some row \<longleftrightarrow> row \<in> set (st_secrets st) \<and> lx_env row = cv_env v \<and>
      lx_deleted row \<and> (\<exists>val. plain c v row = Some (name, val))" for row
    using found_row [OF assms, of name True row] by simp
  show "\<exists>r. find_by_name c v name st = Inr r \<and> (\<forall>row. r = Some row \<longleftrightarrow> row \<in> set (st_secrets st) \<and> lx_env row = cv_env v \<and>
      \<not> lx_deleted row \<and> (\<exists>val. plain c v row = Some (name, val)))"
    unfolding find_by_name_def list_secrets_def find_rows [OF assms] by (rule exI, rule conjI, rule refl, rule allI, rule live)
  show "\<exists>r. find_deleted_by_name c v name st = Inr r \<and> (\<forall>row. r = Some row \<longleftrightarrow> row \<in> set (st_secrets st) \<and> lx_env row = cv_env v \<and>
      lx_deleted row \<and> (\<exists>val. plain c v row = Some (name, val)))"
    unfolding find_deleted_by_name_def list_deleted_secrets_def find_rows [OF assms] by (rule exI, rule conjI, rule refl, rule allI, rule gone)
qed

lemma vault_get_map:
  assumes "vault_ok c v st"
  shows "vault_get c v name st = ok_or (vault_map c v st name) (CliNotFound name)"
proof -
  obtain r where r: "find_by_name c v name st = Inr r" "\<And>row. r = Some row \<longleftrightarrow> row \<in> set (st_secrets st) \<and> lx_env row = cv_env v \<and>
      \<not> lx_deleted row \<and> (\<exists>val. plain c v row = Some (name, val))" using find_by_name_iff(1) [OF assms] by blast
  show ?thesis
  proof (cases r)
    case None
    with r(2) have "vault_map c v st name = None" using vault_map_iff [OF assms] by (metis not_None_eq)
    with None show ?thesis by (simp add: vault_get_def r(1))
  next
    case (Some row)
    with r(2) obtain val where row: "row \<in> set (st_secrets st)" "lx_env row = cv_env v" "\<not> lx_deleted row" "plain c v row = Some (name, val)"
      by blast
    then have "vault_map c v st name = Some val" using vault_map_iff [OF assms] by blast
    with row(4) Some show ?thesis by (simp add: vault_get_def r(1) row_parts)
  qed
qed

lemma vault_delete_map:
  assumes "vault_ok c v st"
  shows "if vault_map c v st name = None then vault_delete c v name st = Inl (CliNotFound name)
    else \<exists>st'. vault_delete c v name st = Inr st' \<and> vault_ok c v st' \<and> vault_map c v st' = (vault_map c v st)(name := None)"
proof -
  obtain r where r: "find_by_name c v name st = Inr r" "\<And>row. r = Some row \<longleftrightarrow> row \<in> set (st_secrets st) \<and> lx_env row = cv_env v \<and>
      \<not> lx_deleted row \<and> (\<exists>val. plain c v row = Some (name, val))" using find_by_name_iff(1) [OF assms] by blast
  show ?thesis
  proof (cases r)
    case None
    with r(2) have "vault_map c v st name = None" using vault_map_iff [OF assms] by (metis not_None_eq)
    with None show ?thesis by (simp add: vault_delete_def r(1))
  next
    case (Some row)
    with r(2) obtain val where row: "row \<in> set (st_secrets st)" "lx_env row = cv_env v" "\<not> lx_deleted row" "plain c v row = Some (name, val)"
      by blast
    then have mapped: "vault_map c v st name = Some val" using vault_map_iff [OF assms] by blast
    let ?p = "\<lambda>s. lx_id s = lx_id row \<and> \<not> lx_deleted s"
    let ?st = "st\<lparr>st_secrets := sql_update ?p (\<lambda>s. s\<lparr>lx_deleted := True\<rparr>) (st_secrets st)\<rparr>" and ?new = "row\<lparr>lx_deleted := True\<rparr>"
    have "0 < sql_count ?p (st_secrets st)" using row by (auto simp: sql_count_pos_iff)
    then have run: "delete_secret (lx_id row) st = Inr ?st" by (simp add: delete_secret_def Let_def)
    note D = vault_okD [OF assms]
    have "local_ok ?st" by (rule store_write_ok [OF store_write.deleted [OF run] D(1)])
    moreover have "plain c v ?new = Some (name, val)" using row(4) plain_cong [of ?new row] by simp
    moreover have "x \<in> set (st_secrets ?st) \<longleftrightarrow> x = ?new \<or> x \<in> set (st_secrets st) \<and> lx_id x \<noteq> lx_id ?new" for x
      using in_update_unique [OF D(1) row(1), of ?p "\<lambda>s. s\<lparr>lx_deleted := True\<rparr>" x] row(3) by simp
    moreover have "n = name \<longleftrightarrow> lx_id x = lx_id ?new" if "x \<in> set (st_secrets st)" "lx_env x = cv_env v" "plain c v x = Some (n, w)" for x n w
      using that D(5) [OF that(1) row(1) that(2) row(2)] row(4) id_unique [OF D(1) that(1) row(1)] by auto
    moreover have "has_version i n ?st = has_version i n st" for i n by (simp add: has_version_def)
    ultimately have "vault_ok c v ?st" "vault_map c v ?st = (vault_map c v st)(name := None)"
      using vault_replace [OF assms, of ?st ?new name val] row(2) D(4) [OF row(1,2)] by simp_all
    with mapped Some show ?thesis by (simp add: vault_delete_def r(1) run)
  qed
qed

text \<open>What \<open>set\<close> draws: a fresh id and key material of the right lengths.\<close>

definition draws_ok :: "draws \<Rightarrow> local_store \<Rightarrow> bool" where
  "draws_ok d st \<longleftrightarrow> dr_id d \<notin> lx_id ` set (st_secrets st) \<and> length (dr_key d) = KEY_LEN \<and>
     length (dr_nonce1 d) = NONCE_LEN \<and> length (dr_nonce2 d) = NONCE_LEN \<and> length (dr_nonce3 d) = NONCE_LEN"

lemma vault_set_map:
  assumes ok: "vault_ok c v st" and crypto: "aead_ok c" and draws: "draws_ok d st" and name: "utf8_ok (as_bytes name)"
    and bound: "\<forall>s \<in> set (st_secrets st). lx_version s < 2 ^ 63 - 1"
  shows "\<exists>st'. vault_set c d v name val st = Inr st' \<and> vault_ok c v st' \<and> vault_map c v st' = (vault_map c v st)(name \<mapsto> val)"
proof -
  note D = vault_okD [OF ok]
  note plain_new = plain_row [OF crypto, of d name _ v _ val]
  note lengths = draws [unfolded draws_ok_def]
  obtain live where live: "find_by_name c v name st = Inr live" "\<And>row. live = Some row \<longleftrightarrow> row \<in> set (st_secrets st) \<and> lx_env row = cv_env v \<and>
      \<not> lx_deleted row \<and> (\<exists>val. plain c v row = Some (name, val))" using find_by_name_iff(1) [OF ok] by blast
  obtain gone where gone: "find_deleted_by_name c v name st = Inr gone" "\<And>row. gone = Some row \<longleftrightarrow> row \<in> set (st_secrets st) \<and> lx_env row = cv_env v \<and>
      lx_deleted row \<and> (\<exists>val. plain c v row = Some (name, val))" using find_by_name_iff(2) [OF ok] by blast
  let ?existing = "case live of Some row \<Rightarrow> Some row | None \<Rightarrow> gone"
  have existing: "?existing = Some row \<longleftrightarrow> row \<in> set (st_secrets st) \<and> lx_env row = cv_env v \<and> (\<exists>val. plain c v row = Some (name, val))" for row
  proof (cases live)
    case None
    then show ?thesis using live(2) gone(2) by auto
  next
    case (Some r)
    then show ?thesis using live(2) [of r] live(2) [of row] D(5) [of row r name] by auto
  qed
  have resolve: "(case live of Some row \<Rightarrow> Inr (Some row) | None \<Rightarrow> find_deleted_by_name c v name st) = Inr ?existing"
    by (cases live) (simp_all add: gone(1))
  show ?thesis
  proof (cases ?existing)
    case None
    then have free: "\<not> (lx_env x = cv_env v \<and> plain c v x = Some (name, w))" if "x \<in> set (st_secrets st)" for x w
      using existing that by (metis option.distinct(1))
    let ?e = "vault_encrypt c d v (dr_id d) 1 name val"
    let ?new = "\<lparr>lx_id = dr_id d, lx_env = cv_env v, lx_name = enc_name ?e, lx_value = enc_value ?e, lx_key = enc_data_key ?e,
      lx_version = 1, lx_deleted = False\<rparr>"
    let ?st = "st\<lparr>st_secrets := sql_insert ?new (st_secrets st), st_versions := sql_insert \<lparr>lv_secret = dr_id d, lv_version = 1,
      lv_name = enc_name ?e, lv_value = enc_value ?e, lv_key = enc_data_key ?e\<rparr> (st_versions st)\<rparr>"
    have unknown: "\<not> has_version (dr_id d) n st" for n
    proof
      assume "has_version (dr_id d) n st"
      then obtain x where x: "x \<in> set (st_versions st)" "lv_secret x = dr_id d" by (auto simp: has_version_iff)
      have "lv_secret x \<in> lx_id ` set (st_secrets st)" using D(1) x(1) by (simp add: local_ok_def)
      with x(2) lengths show False by metis
    qed
    have fresh: "lx_id x \<noteq> dr_id d" if "x \<in> set (st_secrets st)" for x
      using imageI [OF that, of lx_id] lengths by metis
    have run: "insert_secret (dr_id d) (cv_env v) (enc_name ?e) (enc_value ?e) (enc_data_key ?e) st = Inr ?st"
      using D(2) unknown [of 1] fresh unfolding insert_secret_def snapshot_version_def
      by (simp add: sql_exists_iff has_version_def)
    have "local_ok ?st" by (rule store_write_ok [OF store_write.inserted [OF run] D(1)])
    moreover have "plain c v ?new = Some (name, val)" using plain_new [of ?e ?new] name lengths by simp
    moreover have "x \<in> set (st_secrets ?st) \<longleftrightarrow> x = ?new \<or> x \<in> set (st_secrets st) \<and> lx_id x \<noteq> lx_id ?new" for x
      using fresh by auto
    moreover have "n = name \<longleftrightarrow> lx_id x = lx_id ?new" if "x \<in> set (st_secrets st)" "lx_env x = cv_env v" "plain c v x = Some (n, w)" for x n w
      using that free [OF that(1)] fresh [OF that(1)] by auto
    moreover have "has_version i n ?st \<Longrightarrow> has_version i n st \<or> i = lx_id ?new \<and> n \<le> lx_version ?new" for i n
      by (auto simp: has_version_iff)
    moreover have "has_version (lx_id ?new) n st \<Longrightarrow> n \<le> lx_version ?new" for n using unknown by simp
    ultimately have "vault_ok c v ?st" "vault_map c v ?st = (vault_map c v st)(name \<mapsto> val)"
      using vault_replace [OF ok, of ?st ?new name val] by simp_all
    with None show ?thesis unfolding vault_set_def live(1) rbind_simps resolve by (simp add: run Let_def)
  next
    case (Some row)
    then obtain old where row: "row \<in> set (st_secrets st)" "lx_env row = cv_env v" "plain c v row = Some (name, old)"
      unfolding existing by blast
    let ?n = "lx_version row + 1" and ?p = "\<lambda>s. lx_id s = lx_id row \<and> lx_version s = lx_version row"
    have next_v: "next_version (lx_version row) = ?n" using bound row(1) by (auto simp: next_version_def)
    let ?e = "vault_encrypt c d v (lx_id row) ?n name val"
    let ?f = "\<lambda>s. s\<lparr>lx_name := enc_name ?e, lx_value := enc_value ?e, lx_key := enc_data_key ?e, lx_version := ?n, lx_deleted := False\<rparr>"
    let ?st = "st\<lparr>st_secrets := sql_update ?p ?f (st_secrets st), st_versions := sql_insert \<lparr>lv_secret = lx_id row, lv_version = ?n,
      lv_name = enc_name ?e, lv_value = enc_value ?e, lv_key = enc_data_key ?e\<rparr> (st_versions st)\<rparr>"
    have find: "sql_find (\<lambda>s. lx_id s = lx_id row) (st_secrets st) = Some row"
      using D(1) row(1) by (subst sql_find_Some_iff_distinct [where k = lx_id and x = "lx_id row"]) (auto simp: local_ok_def)
    have unknown: "\<not> has_version (lx_id row) ?n st" using D(4) [OF row(1,2), of ?n] by auto
    have "0 < sql_count ?p (st_secrets st)" using row(1) by (auto simp: sql_count_pos_iff)
    then have run: "update_secret (lx_id row) ?n (enc_name ?e) (enc_value ?e) (enc_data_key ?e) st = Inr ?st"
      using unknown by (simp add: update_secret_def snapshot_version_def find next_v Let_def has_version_def)
    have "local_ok ?st" by (rule store_write_ok [OF store_write.updated [OF run] D(1)])
    moreover have "plain c v (?f row) = Some (name, val)" using plain_new [of ?e "?f row"] name lengths by simp
    moreover have "x \<in> set (st_secrets ?st) \<longleftrightarrow> x = ?f row \<or> x \<in> set (st_secrets st) \<and> lx_id x \<noteq> lx_id (?f row)" for x
      using in_update_unique [OF D(1) row(1), of ?p ?f x] by simp
    moreover have "n = name \<longleftrightarrow> lx_id x = lx_id (?f row)" if "x \<in> set (st_secrets st)" "lx_env x = cv_env v" "plain c v x = Some (n, w)" for x n w
      using that D(5) [OF that(1) row(1) that(2) row(2)] row(3) id_unique [OF D(1) that(1) row(1)] by auto
    moreover have "has_version i n ?st \<Longrightarrow> has_version i n st \<or> i = lx_id (?f row) \<and> n \<le> lx_version (?f row)" for i n
      by (auto simp: has_version_iff)
    moreover have "has_version (lx_id (?f row)) n st \<Longrightarrow> n \<le> lx_version (?f row)" for n using D(4) [OF row(1,2), of n] by simp
    ultimately have "vault_ok c v ?st" "vault_map c v ?st = (vault_map c v st)(name \<mapsto> val)"
      using vault_replace [OF ok, of ?st "?f row" name val] row(2) by simp_all
    with Some show ?thesis unfolding vault_set_def live(1) rbind_simps resolve by (simp add: run Let_def next_v)
  qed
qed


section \<open>The vault at work\<close>

definition demo_client :: client_vault where
  "demo_client = \<lparr>cv_env = ''e'', cv_key = [9]\<rparr>"

definition demo_draws :: draws where
  "demo_draws = \<lparr>dr_id = ''n'', dr_key = replicate 32 7, dr_nonce1 = replicate 24 0, dr_nonce2 = replicate 24 0, dr_nonce3 = replicate 24 0\<rparr>"

lemma demo_local_ok: "local_ok demo_local"
  using store_writes_ok [OF demo_local_written empty_store_ok] by simp

lemma demo_vault_ok: "vault_ok demo_crypto demo_client demo_local"
  using demo_local_ok by (simp add: vault_ok_def demo_client_def demo_local_def empty_store_def)

lemma demo_name_ok: "utf8_ok (as_bytes ''K'')"
  by (simp add: as_bytes_def utf8_width_def)


end
