(* ===== verification/Sync.thy ===== *)
theory Sync
  imports Client_Vault Secrets Account Projects
begin

text \<open>
  The sync engine of the command line client, \<open>crates/cli/src/remote/sync.rs\<close>, with the parts of
  \<open>remote/api.rs\<close>, \<open>remote/team.rs\<close>, \<open>account.rs\<close> and \<open>config.rs\<close> it uses. It moves ciphertext between
  the local store and a server it reaches through the trait \<open>SyncApi\<close>, here a record of functions on a
  state \<open>'w\<close> of the world: what a request answers may depend on what everybody else has done since
  the last one. The bodies on the wire are the server's records (theories Secrets, Projects, Account).

  A command reads and changes the local store and the world and may fail at any point; what it did
  before that stays. Commands are functions of the pair of the two states, composed with \<open>sbind\<close>.

  Results, for every server: a push makes at most five write requests and none at all when the
  environment's grant is not the one this device holds. Theory \<open>Sync_Server\<close> has the results on the
  modelled server.
\<close>

section \<open>Commands\<close>

type_synonym ('a, 'w) command = "local_store \<times> 'w \<Rightarrow> (cli_error + 'a) \<times> local_store \<times> 'w"

definition sret :: "'a \<Rightarrow> ('a, 'w) command" where
  "sret a s = (Inr a, s)"

definition sfail :: "cli_error \<Rightarrow> ('a, 'w) command" where
  "sfail e s = (Inl e, s)"

definition sbind :: "('a, 'w) command \<Rightarrow> ('a \<Rightarrow> ('b, 'w) command) \<Rightarrow> ('b, 'w) command" where
  "sbind m f s = (case m s of (Inl e, s') \<Rightarrow> (Inl e, s') | (Inr a, s') \<Rightarrow> f a s')"

text \<open>A fallible computation, a read of the store, a change of the store, a change that may stop half
  way, and a request.\<close>

definition lift :: "cli_error + 'a \<Rightarrow> ('a, 'w) command" where
  "lift r s = (r, s)"

definition look :: "(local_store \<Rightarrow> 'a) \<Rightarrow> ('a, 'w) command" where
  "look f s = (Inr (f (fst s)), s)"

definition modify :: "(local_store \<Rightarrow> cli_error + local_store) \<Rightarrow> (unit, 'w) command" where
  "modify f s = (case f (fst s) of Inl e \<Rightarrow> (Inl e, s) | Inr st \<Rightarrow> (Inr (), st, snd s))"

definition run_local :: "(local_store \<Rightarrow> (cli_error + 'a) \<times> local_store) \<Rightarrow> ('a, 'w) command" where
  "run_local f s = (case f (fst s) of (r, st) \<Rightarrow> (r, st, snd s))"

definition request :: "('w \<Rightarrow> (cli_error + 'a) \<times> 'w) \<Rightarrow> ('a, 'w) command" where
  "request f s = (case f (snd s) of (r, w) \<Rightarrow> (r, fst s, w))"

lemmas command_defs = sret_def sfail_def lift_def look_def modify_def run_local_def request_def

lemma sbind_Inr:
  "sbind m f s = (Inr b, s') \<longleftrightarrow> (\<exists>a t. m s = (Inr a, t) \<and> f a t = (Inr b, s'))"
  by (auto simp: sbind_def split: prod.splits sum.splits)

lemma sret_iff [simp]: "sret a s = (r, s') \<longleftrightarrow> r = Inr a \<and> s' = s"
  by (auto simp: sret_def)

lemma sfail_iff [simp]: "sfail e s = (r, s') \<longleftrightarrow> r = Inl e \<and> s' = s"
  by (auto simp: sfail_def)

lemma lift_iff [simp]: "lift x s = (r, s') \<longleftrightarrow> r = x \<and> s' = s"
  by (auto simp: lift_def)

lemma look_iff [simp]: "look f s = (r, s') \<longleftrightarrow> r = Inr (f (fst s)) \<and> s' = s"
  by (auto simp: look_def)

lemma modify_Inr: "modify f s = (Inr u, s') \<longleftrightarrow> f (fst s) = Inr (fst s') \<and> snd s' = snd s"
  by (cases s') (auto simp: modify_def split: sum.splits)

lemma run_local_Inr: "run_local f s = (r, s') \<longleftrightarrow> f (fst s) = (r, fst s') \<and> snd s' = snd s"
  by (cases s') (auto simp: run_local_def split: prod.splits)

lemma request_Inr: "request f s = (r, s') \<longleftrightarrow> f (snd s) = (r, snd s') \<and> fst s' = fst s"
  by (cases s') (auto simp: request_def split: prod.splits)

section \<open>The server interface\<close>

record remote_snapshot =
  rs_revision :: int
  rs_secrets :: "secret_view list"

record batch =
  bt_base :: int
  bt_changes :: "change list"

record 'w api =
  api_put_account :: "account_bundle \<Rightarrow> 'w \<Rightarrow> (cli_error + unit) \<times> 'w"
  api_create_project :: "string \<Rightarrow> string \<Rightarrow> string option \<Rightarrow> 'w \<Rightarrow> (cli_error + unit) \<times> 'w"
  api_create_environment :: "string \<Rightarrow> string \<Rightarrow> string \<Rightarrow> string \<Rightarrow> 'w \<Rightarrow> (cli_error + unit) \<times> 'w"
  api_list_environments :: "string \<Rightarrow> 'w \<Rightarrow> (cli_error + environment_view list) \<times> 'w"
  api_list_orgs :: "'w \<Rightarrow> (cli_error + org_view list) \<times> 'w"
  api_snapshot :: "string \<Rightarrow> int option \<Rightarrow> 'w \<Rightarrow> (cli_error + remote_snapshot option) \<times> 'w"
  api_write_secrets :: "string \<Rightarrow> batch \<Rightarrow> 'w \<Rightarrow> (cli_error + int) \<times> 'w"
  api_get_grant :: "string \<Rightarrow> 'w \<Rightarrow> (cli_error + string option) \<times> 'w"
  api_list_history :: "string \<Rightarrow> 'w \<Rightarrow> (cli_error + history_row list) \<times> 'w"

definition b64decode :: "lib \<Rightarrow> string \<Rightarrow> cli_error + bytes" where
  "b64decode L s = ok_or (b64_decode L s) (ServerError ''invalid base64 from server'')"

definition b64encode :: "lib \<Rightarrow> bytes \<Rightarrow> string" where
  "b64encode L bs = b64_encode L bs"

text \<open>\<open>SecretChange::set\<close> and \<open>SecretChange::delete\<close>.\<close>

definition change_set :: "string \<Rightarrow> int \<Rightarrow> string \<Rightarrow> string \<Rightarrow> string \<Rightarrow> change" where
  "change_set i version name val key = \<lparr>ch_id = i, ch_op = Set, ch_version = version, ch_enc_name = Some name,
     ch_enc_value = Some val, ch_enc_data_key = Some key\<rparr>"

definition change_delete :: "string \<Rightarrow> change" where
  "change_delete i = \<lparr>ch_id = i, ch_op = Delete, ch_version = 0, ch_enc_name = None, ch_enc_value = None, ch_enc_data_key = None\<rparr>"

record client_config =
  cfg_project_id :: string
  cfg_project :: string
  cfg_environment :: string
  cfg_org_id :: "string option"

section \<open>Snapshots and changes\<close>

definition decode_view :: "lib \<Rightarrow> secret_view \<Rightarrow> cli_error + sync_secret" where
  "decode_view L remote =
     rbind (b64decode L (sv_enc_name remote)) (\<lambda>name.
     rbind (b64decode L (sv_enc_value remote)) (\<lambda>val.
     rbind (b64decode L (sv_enc_data_key remote)) (\<lambda>key.
     Inr \<lparr>ss_id = sv_id remote, ss_name = name, ss_value = val, ss_key = key, ss_version = sv_version remote,
          ss_deleted = sv_deleted remote\<rparr>)))"

definition applies :: "bool \<Rightarrow> sync_secret option \<Rightarrow> secret_view \<Rightarrow> bool" where
  "applies force local remote \<longleftrightarrow> force \<or> (case local of
       None \<Rightarrow> True
     | Some s \<Rightarrow> ss_version s < sv_version remote \<or> (sv_version remote = ss_version s \<and> sv_deleted remote \<and> \<not> ss_deleted s))"

fun apply_entries :: "lib \<Rightarrow> string \<Rightarrow> bool \<Rightarrow> secret_view list \<Rightarrow> local_store \<Rightarrow> (cli_error + unit) \<times> local_store" where
  "apply_entries L env force [] st = (Inr (), st)"
| "apply_entries L env force (remote # rest) st =
     (if applies force (find_local env (sv_id remote) st) remote
      then (case rbind (decode_view L remote) (\<lambda>s. put_remote_secret env s st) of
              Inl e \<Rightarrow> (Inl e, st)
            | Inr st' \<Rightarrow> apply_entries L env force rest st')
      else apply_entries L env force rest st)"

definition apply_snapshot :: "lib \<Rightarrow> string \<Rightarrow> remote_snapshot \<Rightarrow> bool \<Rightarrow> (unit, 'w) command" where
  "apply_snapshot L env sn force = run_local (apply_entries L env force (rs_secrets sn))"

definition set_change :: "lib \<Rightarrow> sync_secret \<Rightarrow> change" where
  "set_change L s = change_set (ss_id s) (ss_version s) (b64encode L (ss_name s)) (b64encode L (ss_value s)) (b64encode L (ss_key s))"

text \<open>The snapshot's entries by id: of several with one id, the last.\<close>

definition server_entry :: "remote_snapshot \<Rightarrow> string \<Rightarrow> secret_view option" where
  "server_entry sn i = sql_find (\<lambda>v. sv_id v = i) (rev (rs_secrets sn))"

definition change_for :: "lib \<Rightarrow> secret_view option \<Rightarrow> sync_secret \<Rightarrow> change option" where
  "change_for L remote local = (case remote of
       None \<Rightarrow> if \<not> ss_deleted local then Some (set_change L local) else None
     | Some r \<Rightarrow>
         if \<not> ss_deleted local \<and> sv_version r < ss_version local then Some (set_change L local)
         else if ss_deleted local \<and> \<not> sv_deleted r then Some (change_delete (ss_id local))
         else None)"

definition diff :: "lib \<Rightarrow> string \<Rightarrow> remote_snapshot \<Rightarrow> local_store \<Rightarrow> change list" where
  "diff L env sn st = List.map_filter (\<lambda>s. change_for L (server_entry sn (ss_id s)) s) (all_secrets env st)"

section \<open>Pull\<close>

definition resolve_env :: "client_config \<Rightarrow> (local_env, 'w) command" where
  "resolve_env cfg =
     sbind (look (get_environment (cfg_project_id cfg) (cfg_environment cfg))) (\<lambda>e.
     lift (ok_or e (CliNotFound (''environment `'' @ cfg_environment cfg @ ''`''))))"

definition adopt_rotation :: "lib \<Rightarrow> 'w api \<Rightarrow> string \<Rightarrow> bytes \<Rightarrow> (bool, 'w) command" where
  "adopt_rotation L A env local_grant =
     sbind (request (api_get_grant A env)) (\<lambda>answer.
     case answer of
       None \<Rightarrow> sret False
     | Some b64 \<Rightarrow>
         sbind (lift (b64decode L b64)) (\<lambda>grant.
         if grant = local_grant then sret False
         else sbind (modify (update_env_vault_key env grant)) (\<lambda>_. sret True)))"

definition pull :: "lib \<Rightarrow> 'w api \<Rightarrow> client_config \<Rightarrow> (int, 'w) command" where
  "pull L A cfg =
     sbind (resolve_env cfg) (\<lambda>env.
     sbind (look (synced_revision (le_id env))) (\<lambda>base.
     sbind (request (api_snapshot A (le_id env) (Some base))) (\<lambda>answer.
     case answer of
       None \<Rightarrow> sret base
     | Some sn \<Rightarrow>
         sbind (if cfg_org_id cfg \<noteq> None then adopt_rotation L A (le_id env) (le_key env) else sret False) (\<lambda>rotated.
         sbind (apply_snapshot L (le_id env) sn rotated) (\<lambda>_.
         sbind (modify (set_synced_revision (le_id env) (rs_revision sn))) (\<lambda>_.
         sret (rs_revision sn)))))))"

section \<open>Push\<close>

definition grant_changed :: "lib \<Rightarrow> 'w api \<Rightarrow> string \<Rightarrow> bytes \<Rightarrow> (bool, 'w) command" where
  "grant_changed L A env local_grant =
     sbind (request (api_get_grant A env)) (\<lambda>answer.
     case answer of
       Some b64 \<Rightarrow> sbind (lift (b64decode L b64)) (\<lambda>grant. sret (grant \<noteq> local_grant))
     | None \<Rightarrow> sret True)"

text \<open>\<open>account::material\<close>: the identity and keys for upload; the KDF parameters as \<open>serde_json\<close> writes
  the struct.\<close>

definition kdf_params_bytes :: "bytes \<Rightarrow> bytes" where
  "kdf_params_bytes salt = as_bytes (
     ''{'' @ [CHR 0x22] @ ''alg'' @ [CHR 0x22] @ '':'' @ [CHR 0x22] @ ''argon2id'' @ [CHR 0x22] @ '','' @
     [CHR 0x22] @ ''opslimit'' @ [CHR 0x22] @ '':'' @ dec_nat OPSLIMIT @ '','' @
     [CHR 0x22] @ ''memlimit'' @ [CHR 0x22] @ '':'' @ dec_nat MEMLIMIT @ '','' @
     [CHR 0x22] @ ''salt'' @ [CHR 0x22] @ '':['' @ join '','' (map (\<lambda>b. dec_nat (unat b)) salt) @ '']}'')"

definition material :: "local_store \<Rightarrow> cli_error + bytes \<times> bytes \<times> bytes \<times> bytes" where
  "material st =
     rbind (ok_or (get_identity st) NoIdentity) (\<lambda>i.
     rbind (ok_or (get_account_keys st) NoIdentity) (\<lambda>k.
     Inr (ak_public k, ak_private k, kdf_params_bytes (id_salt i), ak_recovery k)))"

definition ensure_account :: "lib \<Rightarrow> 'w api \<Rightarrow> (unit, 'w) command" where
  "ensure_account L A =
     sbind (look material) (\<lambda>m. sbind (lift m) (\<lambda>(public_key, private_keys, kdf, recovery).
     (\<lambda>s. case request (api_put_account A \<lparr>ab_public_key = b64encode L public_key, ab_enc_private_keys = b64encode L private_keys,
              ab_kdf_params = b64encode L kdf, ab_recovery_blob = b64encode L recovery\<rparr>) s of
            (Inl (CliConflict _), s') \<Rightarrow> (Inr (), s')
          | other \<Rightarrow> other)))"

definition local_keypair :: "crypto \<Rightarrow> bytes \<Rightarrow> local_store \<Rightarrow> cli_error + keypair" where
  "local_keypair c master st =
     rbind (ok_or (get_account_keys st) NoIdentity) (\<lambda>k. from_core (open_account_keypair c master (ak_private k)))"

text \<open>\<open>team::org_key\<close>\<close>

definition org_key :: "lib \<Rightarrow> crypto \<Rightarrow> 'w api \<Rightarrow> keypair \<Rightarrow> string \<Rightarrow> (bytes option, 'w) command" where
  "org_key L c A kp org =
     sbind (request (api_list_orgs A)) (\<lambda>orgs.
     case sql_find (\<lambda>og. ov_id og = org) orgs of
       None \<Rightarrow> sret None
     | Some og \<Rightarrow> (case ov_enc_org_key og of
           None \<Rightarrow> sret None
         | Some enc \<Rightarrow> sbind (lift (b64decode L enc)) (\<lambda>sealed.
             sbind (lift (from_core (open_vault_key c kp sealed))) (\<lambda>key. sret (Some key)))))"

definition name_key :: "lib \<Rightarrow> crypto \<Rightarrow> 'w api \<Rightarrow> bytes \<Rightarrow> string option \<Rightarrow> (bytes, 'w) command" where
  "name_key L c A master org_id s = (case org_id of
       None \<Rightarrow> (Inr master, s)
     | Some org \<Rightarrow> (case local_keypair c master (fst s) of
           Inl _ \<Rightarrow> (Inr master, s)
         | Inr kp \<Rightarrow> (case org_key L c A kp org s of
               (Inr (Some key), s') \<Rightarrow> (Inr key, s')
             | (_, s') \<Rightarrow> (Inr master, s'))))"

definition tolerate_org_forbidden :: "string option \<Rightarrow> (unit, 'w) command \<Rightarrow> (unit, 'w) command" where
  "tolerate_org_forbidden org_id m s = (case m s of
       (Inl (CliForbidden e), s') \<Rightarrow> (if org_id \<noteq> None then Inr () else Inl (CliForbidden e), s')
     | other \<Rightarrow> other)"

definition ensure_project_env ::
    "lib \<Rightarrow> crypto \<Rightarrow> bytes \<times> bytes \<Rightarrow> 'w api \<Rightarrow> bytes \<Rightarrow> string option \<Rightarrow> local_project \<Rightarrow> local_env \<Rightarrow> (unit, 'w) command" where
  "ensure_project_env L c nonces A key org_id p env =
     sbind (tolerate_org_forbidden org_id (request (api_create_project A (lp_id p)
       (b64encode L (encrypt_project_name c (fst nonces) key (lp_id p) (as_bytes (lp_name p)))) org_id))) (\<lambda>_.
     tolerate_org_forbidden org_id (request (api_create_environment A (lp_id p) (le_id env)
       (b64encode L (encrypt_env_name c (snd nonces) key (le_id env) (as_bytes (le_name env))))
       (b64encode L (le_key env)))))"

definition MAX_SYNC_ATTEMPTS :: nat where "MAX_SYNC_ATTEMPTS = 5"

definition fast_forward :: "lib \<Rightarrow> 'w api \<Rightarrow> string \<Rightarrow> (remote_snapshot, 'w) command" where
  "fast_forward L A env =
     sbind (request (api_snapshot A env None)) (\<lambda>answer.
     sbind (lift (ok_or answer (ServerError ''server returned no snapshot''))) (\<lambda>sn.
     sbind (apply_snapshot L env sn False) (\<lambda>_.
     sbind (modify (set_synced_revision env (rs_revision sn))) (\<lambda>_. sret sn))))"

definition finish_unchanged :: "lib \<Rightarrow> 'w api \<Rightarrow> string option \<Rightarrow> local_env \<Rightarrow> remote_snapshot \<Rightarrow> (int, 'w) command" where
  "finish_unchanged L A org_id env sn =
     sbind (if org_id \<noteq> None then adopt_rotation L A (le_id env) (le_key env) else sret False) (\<lambda>rotated.
     sbind (if rotated then apply_snapshot L (le_id env) sn True else sret ()) (\<lambda>_. sret (rs_revision sn)))"

definition check_grant :: "lib \<Rightarrow> 'w api \<Rightarrow> string option \<Rightarrow> local_env \<Rightarrow> (unit, 'w) command" where
  "check_grant L A org_id env =
     sbind (if org_id \<noteq> None then grant_changed L A (le_id env) (le_key env) else sret False) (\<lambda>changed.
     if changed then sfail (CliConflict ''environment was rotated; run `sotto pull` and re-apply your changes'') else sret ())"

text \<open>A conflict means that someone else advanced the revision between the snapshot and the write.\<close>

definition upload :: "'w api \<Rightarrow> string \<Rightarrow> batch \<Rightarrow> (int, 'w) command \<Rightarrow> (int, 'w) command" where
  "upload A env b retry s = (case request (api_write_secrets A env b) s of
       (Inr revision, s') \<Rightarrow> sbind (modify (set_synced_revision env revision)) (\<lambda>_. sret revision) s'
     | (Inl (CliConflict _), s') \<Rightarrow> retry s'
     | (Inl e, s') \<Rightarrow> (Inl e, s'))"

fun push_attempts :: "lib \<Rightarrow> 'w api \<Rightarrow> string option \<Rightarrow> local_env \<Rightarrow> nat \<Rightarrow> (int, 'w) command" where
  "push_attempts L A org_id env 0 = sfail (CliConflict ''sync: too many concurrent updates; try again'')"
| "push_attempts L A org_id env (Suc n) =
     sbind (fast_forward L A (le_id env)) (\<lambda>sn.
     sbind (look (diff L (le_id env) sn)) (\<lambda>changes.
     if changes = [] then finish_unchanged L A org_id env sn
     else sbind (check_grant L A org_id env) (\<lambda>_.
       upload A (le_id env) \<lparr>bt_base = rs_revision sn, bt_changes = changes\<rparr> (push_attempts L A org_id env n))))"

definition push :: "lib \<Rightarrow> crypto \<Rightarrow> bytes \<times> bytes \<Rightarrow> 'w api \<Rightarrow> bytes \<Rightarrow> client_config \<Rightarrow> (int, 'w) command" where
  "push L c nonces A master cfg =
     sbind (resolve_env cfg) (\<lambda>env.
     sbind (look (get_project (cfg_project_id cfg))) (\<lambda>found.
     sbind (lift (ok_or found (CliNotFound (''project `'' @ cfg_project_id cfg @ ''`'')))) (\<lambda>p.
     sbind (ensure_account L A) (\<lambda>_.
     sbind (name_key L c A master (cfg_org_id cfg)) (\<lambda>key.
     sbind (ensure_project_env L c nonces A key (cfg_org_id cfg) p env) (\<lambda>_.
     push_attempts L A (cfg_org_id cfg) env MAX_SYNC_ATTEMPTS))))))"

section \<open>History, rollback and a new device's environments\<close>

definition open_secret :: "crypto \<Rightarrow> keypair \<Rightarrow> client_config \<Rightarrow> string \<Rightarrow> local_store \<Rightarrow> cli_error + client_vault \<times> string" where
  "open_secret c kp cfg name st =
     rbind (open_vault c kp (cfg_project_id cfg) (cfg_environment cfg) st) (\<lambda>v.
     rbind (find_id_by_name c v name st) (\<lambda>found.
     rbind (ok_or found (CliNotFound name)) (\<lambda>i. Inr (v, i))))"

definition row_plaintext :: "lib \<Rightarrow> crypto \<Rightarrow> client_vault \<Rightarrow> string \<Rightarrow> history_row \<Rightarrow> cli_error + (cli_error + bytes)" where
  "row_plaintext L c v i row =
     rbind (b64decode L (h_enc_value row)) (\<lambda>val.
     rbind (b64decode L (h_enc_data_key row)) (\<lambda>key.
     Inr (decrypt_at c v i (h_version row) val key)))"

definition remote_history :: "lib \<Rightarrow> crypto \<Rightarrow> 'w api \<Rightarrow> keypair \<Rightarrow> client_config \<Rightarrow> string \<Rightarrow> ((int \<times> bytes option) list, 'w) command" where
  "remote_history L c A kp cfg name =
     sbind (look (open_secret c kp cfg name)) (\<lambda>opened. sbind (lift opened) (\<lambda>(v, i).
     sbind (request (api_list_history A (cv_env v))) (\<lambda>rows.
     sbind (lift (map_result (\<lambda>row. rbind (row_plaintext L c v i row) (\<lambda>r.
         Inr (h_version row, case r of Inl _ \<Rightarrow> None | Inr val \<Rightarrow> Some val)))
       (filter (\<lambda>row. h_secret_id row = i) rows))) (\<lambda>versions.
     if versions = []
     then sfail (CliNotFound (''no server history for `'' @ name @ ''`; has this environment been pushed?''))
     else sret (sort_key (\<lambda>(version, _). - version) versions)))))"

definition rollback :: "lib \<Rightarrow> crypto \<Rightarrow> draws \<Rightarrow> 'w api \<Rightarrow> keypair \<Rightarrow> client_config \<Rightarrow> string \<Rightarrow> int \<Rightarrow> (nat, 'w) command" where
  "rollback L c d A kp cfg name version =
     sbind (look (open_secret c kp cfg name)) (\<lambda>opened. sbind (lift opened) (\<lambda>(v, i).
     sbind (request (api_list_history A (cv_env v))) (\<lambda>rows.
     sbind (lift (ok_or (sql_find (\<lambda>row. h_secret_id row = i \<and> h_version row = version) rows)
       (CliNotFound (''`'' @ name @ ''` has no version '' @ dec_int version)))) (\<lambda>row.
     sbind (lift (row_plaintext L c v i row)) (\<lambda>r.
     sbind (lift (map_err (\<lambda>_. InputError
       ''that version doesn't decrypt under the current vault key; run `sotto pull` and try again'') r)) (\<lambda>val.
     sbind (modify (vault_set c d v name val)) (\<lambda>_. sret (length val))))))))"

definition env_name :: "crypto \<Rightarrow> bytes \<Rightarrow> bytes \<Rightarrow> string \<Rightarrow> bytes \<Rightarrow> string" where
  "env_name c key master i enc =
     (case (case decrypt_env_name c key i enc of Inr bs \<Rightarrow> Inr bs | Inl _ \<Rightarrow> decrypt_env_name c master i enc) of
        Inl _ \<Rightarrow> i
      | Inr bs \<Rightarrow> (case from_utf8 bs of None \<Rightarrow> i | Some name \<Rightarrow> name))"

fun adopt_environments :: "lib \<Rightarrow> crypto \<Rightarrow> bytes \<Rightarrow> bytes \<Rightarrow> string \<Rightarrow> environment_view list \<Rightarrow> local_store \<Rightarrow> (cli_error + unit) \<times> local_store" where
  "adopt_environments L c key master project [] st = (Inr (), st)"
| "adopt_environments L c key master project (e # rest) st =
     (if find_environment (nv_id e) st \<noteq> None then adopt_environments L c key master project rest st
      else case nv_enc_vault_key e of
        None \<Rightarrow> adopt_environments L c key master project rest st
      | Some b64 \<Rightarrow>
          (case rbind (b64decode L (nv_enc_name e)) (\<lambda>enc. rbind (b64decode L b64) (\<lambda>grant.
              create_local_env (nv_id e) project (env_name c key master (nv_id e) enc) grant st)) of
             Inl err \<Rightarrow> (Inl err, st)
           | Inr (_, st) \<Rightarrow> adopt_environments L c key master project rest st))"

definition pull_environments :: "lib \<Rightarrow> crypto \<Rightarrow> 'w api \<Rightarrow> bytes \<Rightarrow> client_config \<Rightarrow> (unit, 'w) command" where
  "pull_environments L c A master cfg =
     sbind (modify (\<lambda>st. if get_project (cfg_project_id cfg) st = None
       then rbind (create_project_with_id (cfg_project_id cfg) (cfg_project cfg) st) (\<lambda>(_, st). Inr st) else Inr st)) (\<lambda>_.
     sbind (name_key L c A master (cfg_org_id cfg)) (\<lambda>key.
     sbind (request (api_list_environments A (cfg_project_id cfg))) (\<lambda>envs.
     run_local (adopt_environments L c key master (cfg_project_id cfg) envs))))"

section \<open>The number of write requests\<close>

text \<open>The interface of a server whose world also counts the write requests it is sent.\<close>

definition plain_call :: "('w \<Rightarrow> 'r \<times> 'w) \<Rightarrow> 'w \<times> nat \<Rightarrow> 'r \<times> 'w \<times> nat" where
  "plain_call f s = (case f (fst s) of (r, w) \<Rightarrow> (r, w, snd s))"

definition counted :: "'w api \<Rightarrow> ('w \<times> nat) api" where
  "counted A = \<lparr>
     api_put_account = (\<lambda>b. plain_call (api_put_account A b)),
     api_create_project = (\<lambda>i n og. plain_call (api_create_project A i n og)),
     api_create_environment = (\<lambda>p i n k. plain_call (api_create_environment A p i n k)),
     api_list_environments = (\<lambda>p. plain_call (api_list_environments A p)),
     api_list_orgs = plain_call (api_list_orgs A),
     api_snapshot = (\<lambda>e rv. plain_call (api_snapshot A e rv)),
     api_write_secrets = (\<lambda>e b (w, n). case api_write_secrets A e b w of (r, w') \<Rightarrow> (r, w', Suc n)),
     api_get_grant = (\<lambda>e. plain_call (api_get_grant A e)),
     api_list_history = (\<lambda>e. plain_call (api_list_history A e))\<rparr>"

definition writes :: "nat \<Rightarrow> ('a, 'w \<times> nat) command \<Rightarrow> bool" where
  "writes k m \<longleftrightarrow> (\<forall>s. snd (snd (snd (m s))) \<le> snd (snd s) + k)"

named_theorems count_intros

lemma writes_le: "writes k m \<Longrightarrow> snd (snd (snd (m s))) \<le> snd (snd s) + k"
  unfolding writes_def by blast

lemma writesE: "m s = (r, t) \<Longrightarrow> writes k m \<Longrightarrow> snd (snd t) \<le> snd (snd s) + k"
  using writes_le [of k m s] by simp

lemma writes_sbind [count_intros]:
  assumes "writes 0 m" and "\<And>a. writes k (f a)"
  shows "writes k (sbind m f)"
  unfolding writes_def
proof
  fix s
  obtain r t where m: "m s = (r, t)" by (cases "m s")
  then have t: "snd (snd t) \<le> snd (snd s)" using writes_le [OF assms(1), of s] by simp
  show "snd (snd (snd (sbind m f s))) \<le> snd (snd s) + k"
  proof (cases r)
    case (Inr a)
    with m t writes_le [OF assms(2), of a t] show ?thesis by (simp add: sbind_def)
  qed (use m t in \<open>simp add: sbind_def\<close>)
qed

lemma writes_steps [count_intros]: "writes k (sret a)" "writes k (sfail e)" "writes k (lift r)" "writes k (look g)"
  "writes k (modify h)" "writes k (run_local l)"
  by (auto simp: writes_def command_defs split: prod.splits sum.splits)

lemma writes_request [count_intros]: "writes k (request (plain_call f))"
  by (auto simp: writes_def request_def plain_call_def split: prod.splits)

lemma writes_request_counted [count_intros]:
  "writes k (request (api_put_account (counted A) b))" "writes k (request (api_create_project (counted A) i n og))"
  "writes k (request (api_create_environment (counted A) p i n key))" "writes k (request (api_list_orgs (counted A)))"
  "writes k (request (api_snapshot (counted A) e rv))" "writes k (request (api_get_grant (counted A) e))"
  unfolding counted_def api.simps by (rule writes_request)+

lemma writes_if [count_intros]: "writes k m \<Longrightarrow> writes k m' \<Longrightarrow> writes k (if b then m else m')"
  by simp

lemma writes_adopt_rotation [count_intros]: "writes k (adopt_rotation L (counted A) env grant)"
  unfolding adopt_rotation_def by (intro count_intros) (auto intro!: count_intros split: option.splits)

lemma writes_grant_changed [count_intros]: "writes k (grant_changed L (counted A) env grant)"
  unfolding grant_changed_def by (intro count_intros) (auto intro!: count_intros split: option.splits)

lemma writes_check_grant [count_intros]: "writes k (check_grant L (counted A) org_id env)"
  unfolding check_grant_def by (intro count_intros)

lemma writes_finish_unchanged [count_intros]: "writes k (finish_unchanged L (counted A) org_id env sn)"
  unfolding finish_unchanged_def apply_snapshot_def by (intro count_intros)

lemma writes_fast_forward [count_intros]: "writes k (fast_forward L (counted A) env)"
  unfolding fast_forward_def apply_snapshot_def by (intro count_intros)

lemma writes_write [count_intros]: "writes (Suc 0) (request (api_write_secrets (counted A) env b))"
  by (auto simp: writes_def request_def counted_def split: prod.splits)

lemma writes_upload [count_intros]:
  assumes "writes k retry"
  shows "writes (Suc k) (upload (counted A) env b retry)"
  unfolding writes_def
proof
  fix s :: "local_store \<times> 'a \<times> nat"
  obtain r t where m: "request (api_write_secrets (counted A) env b) s = (r, t)" by (cases "request (api_write_secrets (counted A) env b) s")
  then have t: "snd (snd t) \<le> snd (snd s) + Suc 0" by (rule writesE) (rule writes_write)
  have retry: "snd (snd (snd (retry t))) \<le> snd (snd s) + Suc k" using writes_le [OF assms, of t] t by simp
  have "writes 0 (sbind (modify (set_synced_revision env revision)) (\<lambda>_. sret revision) :: (int, 'a \<times> nat) command)" for revision
    by (intro count_intros)
  then have stored: "snd (snd (snd (sbind (modify (set_synced_revision env revision)) (\<lambda>_. sret revision) t))) \<le> snd (snd s) + Suc k" for revision
    using writes_le [of 0 "sbind (modify (set_synced_revision env revision)) (\<lambda>_. sret revision)" t] t by simp
  show "snd (snd (snd (upload (counted A) env b retry s))) \<le> snd (snd s) + Suc k"
  proof (cases r)
    case (Inl e)
    then show ?thesis using retry t by (cases e) (simp_all add: upload_def m)
  next
    case (Inr revision)
    then show ?thesis using stored by (simp add: upload_def m)
  qed
qed

lemma writes_push_attempts: "writes n (push_attempts L (counted A) org_id env n)"
proof (induction n)
  case (Suc n)
  then show ?case by (auto simp only: push_attempts.simps intro!: count_intros)
qed (simp add: count_intros)

lemma writes_ensure_account [count_intros]: "writes k (ensure_account L (counted A))"
proof -
  have "writes k (\<lambda>s. case request (api_put_account (counted A) b) s of (Inl (CliConflict e), s') \<Rightarrow> (Inr (), s') | other \<Rightarrow> other)" for b
    unfolding writes_def
  proof
    fix s :: "local_store \<times> 'a \<times> nat"
    obtain r t where r: "request (api_put_account (counted A) b) s = (r, t)" by (cases "request (api_put_account (counted A) b) s")
    then have "snd (snd t) \<le> snd (snd s) + k" by (rule writesE) (rule writes_request_counted)
    then show "snd (snd (snd (case request (api_put_account (counted A) b) s of (Inl (CliConflict e), s') \<Rightarrow> (Inr (), s') | other \<Rightarrow> other)))
        \<le> snd (snd s) + k"
      unfolding r by (auto split: sum.splits cli_error.splits)
  qed
  then show ?thesis unfolding ensure_account_def by (auto intro!: count_intros)
qed

lemma writes_org_key [count_intros]: "writes k (org_key L c (counted A) kp og)"
  unfolding org_key_def by (intro count_intros) (auto intro!: count_intros split: option.splits)

lemma writes_name_key [count_intros]: "writes k (name_key L c (counted A) master org_id)"
  unfolding writes_def
proof
  fix s :: "local_store \<times> 'a \<times> nat"
  show "snd (snd (snd (name_key L c (counted A) master org_id s))) \<le> snd (snd s) + k"
  proof (cases "\<exists>og kp. org_id = Some og \<and> local_keypair c master (fst s) = Inr kp")
    case True
    then obtain og kp where k: "org_id = Some og" "local_keypair c master (fst s) = Inr kp" by blast
    obtain r t where r: "org_key L c (counted A) kp og s = (r, t)" by (cases "org_key L c (counted A) kp og s")
    then have "snd (snd t) \<le> snd (snd s) + k" by (rule writesE) (rule writes_org_key)
    with k r show ?thesis by (auto simp: name_key_def split: sum.splits option.splits)
  qed (auto simp: name_key_def split: option.splits sum.splits)
qed

lemma writes_tolerate [count_intros]: "writes k m \<Longrightarrow> writes k (tolerate_org_forbidden org_id m)"
  unfolding writes_def [of _ "tolerate_org_forbidden org_id m"]
proof
  fix s
  assume m: "writes k m"
  obtain r t where r: "m s = (r, t)" by (cases "m s")
  then have "snd (snd t) \<le> snd (snd s) + k" using m by (rule writesE)
  with r show "snd (snd (snd (tolerate_org_forbidden org_id m s))) \<le> snd (snd s) + k"
    by (auto simp: tolerate_org_forbidden_def split: sum.splits cli_error.splits)
qed

lemma writes_push: "writes MAX_SYNC_ATTEMPTS (push L c nonces (counted A) master cfg)"
  unfolding push_def resolve_env_def ensure_project_env_def by (intro count_intros writes_push_attempts)

text \<open>C27: A push sends at most five write requests, whatever the server answers and whatever else
  happens to it in between; it always ends.\<close>

theorem push_writes_bounded:
  "\<exists>r st w n. push L c nonces (counted A) master cfg (st0, w0, n0) = (r, st, w, n) \<and> n \<le> n0 + 5"
proof -
  have "snd (snd (snd (push L c nonces (counted A) master cfg (st0, w0, n0)))) \<le> n0 + 5"
    using writes_le [OF writes_push, of L c nonces A master cfg "(st0, w0, n0)"] by (simp add: MAX_SYNC_ATTEMPTS_def)
  then show ?thesis by (metis surjective_pairing)
qed

section \<open>Stale grants\<close>

lemma b64decode_Inr [simp]: "b64decode L s = Inr bs \<longleftrightarrow> b64_decode L s = Some bs"
  by (auto simp: b64decode_def ok_or_def split: option.splits)

lemma grant_unchanged:
  assumes "grant_changed L A env grant s = (Inr False, s')"
  shows "\<exists>b64. fst (api_get_grant A env (snd s)) = Inr (Some b64) \<and> b64_decode L b64 = Some grant"
proof -
  from assms obtain answer t where t: "api_get_grant A env (snd s) = (Inr answer, snd t)"
    and rest: "(case answer of Some b64 \<Rightarrow> sbind (lift (b64decode L b64)) (\<lambda>g. sret (g \<noteq> grant)) | None \<Rightarrow> sret True) t = (Inr False, s')"
    unfolding grant_changed_def sbind_Inr request_Inr by blast
  then obtain b64 where "answer = Some b64" "sbind (lift (b64decode L b64)) (\<lambda>g. sret (g \<noteq> grant)) t = (Inr False, s')"
    by (cases answer) auto
  then have "b64_decode L b64 = Some grant" by (auto simp: sbind_Inr simp flip: b64decode_Inr)
  with t \<open>answer = Some b64\<close> show ?thesis by simp
qed

text \<open>Two servers that answer everything alike except, perhaps, writes.\<close>

lemma push_stale_grant:
  assumes stale: "\<And>w b64. fst (api_get_grant A (le_id env) w) = Inr (Some b64) \<Longrightarrow> b64_decode L b64 \<noteq> Some (le_key env)"
    and org: "org_id \<noteq> None"
  shows "push_attempts L (A\<lparr>api_write_secrets := f\<rparr>) org_id env n = push_attempts L A org_id env n"
proof (cases n)
  case (Suc n)
  have refused: "check_grant L A org_id env s \<noteq> (Inr (), s')" for s s'
  proof
    assume "check_grant L A org_id env s = (Inr (), s')"
    then obtain changed t where c: "grant_changed L A (le_id env) (le_key env) s = (Inr changed, t)"
      and "(if changed then sfail (CliConflict ''environment was rotated; run `sotto pull` and re-apply your changes'') else sret ()) t = (Inr (), s')"
      using org unfolding check_grant_def sbind_Inr by auto
    then have "\<not> changed" by (cases changed) auto
    with grant_unchanged [of L A "le_id env" "le_key env" s t] c stale show False by auto
  qed
  have same: "fast_forward L (A\<lparr>api_write_secrets := f\<rparr>) = fast_forward L A"
    "finish_unchanged L (A\<lparr>api_write_secrets := f\<rparr>) = finish_unchanged L A"
    "check_grant L (A\<lparr>api_write_secrets := f\<rparr>) = check_grant L A"
    by (simp_all add: fun_eq_iff fast_forward_def finish_unchanged_def adopt_rotation_def check_grant_def grant_changed_def)
  have checked: "sbind (check_grant L A org_id env) g = sbind (check_grant L A org_id env) h" for g h :: "unit \<Rightarrow> (int, 'a) command"
    using refused by (auto simp: fun_eq_iff sbind_def split: prod.splits sum.splits)
  show ?thesis unfolding Suc push_attempts.simps same
    by (intro arg_cong2 [where f = sbind, OF refl ext] if_cong [OF refl refl] checked)
qed simp


section \<open>What a snapshot does to the local store\<close>

lemma find_local_put:
  assumes "put_remote_secret env s st = Inr st'"
  shows "find_local env i st' = (if i = ss_id s then Some s else find_local env i st)"
    and "st_envs st' = st_envs st" and "st_projects st' = st_projects st" and "st_synced st' = st_synced st"
proof -
  let ?row = "\<lparr>lx_id = ss_id s, lx_env = env, lx_name = ss_name s, lx_value = ss_value s, lx_key = ss_key s,
    lx_version = ss_version s, lx_deleted = ss_deleted s\<rparr>"
  let ?q = "\<lambda>i r. lx_env r = env \<and> lx_id r = i"
  have st': "st_secrets st' = sql_insert ?row (sql_delete (\<lambda>r. lx_id r = ss_id s) (st_secrets st))"
    and "st_envs st' = st_envs st" "st_projects st' = st_projects st" "st_synced st' = st_synced st"
    using assms by (auto simp: put_remote_secret_def rbind_eq_Inr_iff)
  then show "st_envs st' = st_envs st" "st_projects st' = st_projects st" "st_synced st' = st_synced st" by simp_all
  show "find_local env i st' = (if i = ss_id s then Some s else find_local env i st)"
  proof (cases "i = ss_id s")
    case True
    have "sql_find (?q i) (sql_delete (\<lambda>r. lx_id r = ss_id s) (st_secrets st)) = None"
      by (auto simp: sql_find_None_iff True)
    then show ?thesis by (simp add: find_local_def st' sql_find_insert True sync_of_def)
  next
    case False
    then have "sql_find (?q i) (sql_delete (\<lambda>r. lx_id r = ss_id s) (st_secrets st)) = sql_find (?q i) (st_secrets st)"
      by (intro sql_find_delete) auto
    then show ?thesis using False by (simp add: find_local_def st' sql_find_insert split: option.splits)
  qed
qed

text \<open>A local row after the matching entry of a snapshot, if there is one, was considered.\<close>

definition merged :: "lib \<Rightarrow> bool \<Rightarrow> sync_secret option \<Rightarrow> secret_view option \<Rightarrow> sync_secret option" where
  "merged L force local remote = (case remote of
       None \<Rightarrow> local
     | Some v \<Rightarrow> if applies force local v then (case decode_view L v of Inl _ \<Rightarrow> None | Inr s \<Rightarrow> Some s) else local)"

lemma decode_view_fields: "decode_view L v = Inr s \<Longrightarrow> ss_id s = sv_id v \<and> ss_version s = sv_version v \<and> ss_deleted s = sv_deleted v"
  by (auto simp: decode_view_def rbind_eq_Inr_iff)

lemma apply_entries_writes:
  "apply_entries L env force vs st = (r, st') \<Longrightarrow> store_write\<^sup>*\<^sup>* st st' \<and> st_envs st' = st_envs st \<and> st_projects st' = st_projects st \<and>
     st_synced st' = st_synced st"
proof (induction vs arbitrary: st)
  case (Cons v vs)
  show ?case
  proof (cases "rbind (decode_view L v) (\<lambda>s. put_remote_secret env s st)")
    case (Inr st1)
    then obtain s where "put_remote_secret env s st = Inr st1" by (auto simp: rbind_eq_Inr_iff)
    note put = find_local_put(2-4) [OF this] store_write.remote [OF this]
    show ?thesis
    proof (cases "applies force (find_local env (sv_id v) st) v")
      case True
      with Cons.prems Inr Cons.IH [of st1] put show ?thesis by (auto intro: converse_rtranclp_into_rtranclp)
    qed (use Cons in simp)
  qed (use Cons in \<open>auto split: if_splits\<close>)
qed simp

lemma apply_entries_state:
  "apply_entries L env force vs st = (Inr (), st') \<Longrightarrow> distinct (map sv_id vs) \<Longrightarrow>
     find_local env i st' = merged L force (find_local env i st) (sql_find (\<lambda>v. sv_id v = i) vs)"
proof (induction vs arbitrary: st)
  case Nil
  then show ?case by (simp add: merged_def sql_find_def)
next
  case (Cons v vs)
  have rest: "sql_find (\<lambda>v'. sv_id v' = sv_id v) vs = None" using Cons.prems(2) by (auto simp: sql_find_None_iff image_iff)
  have find: "sql_find (\<lambda>v'. sv_id v' = i) (v # vs) = (if sv_id v = i then Some v else sql_find (\<lambda>v'. sv_id v' = i) vs)"
    by (simp add: sql_find_def)
  show ?case
  proof (cases "applies force (find_local env (sv_id v) st) v")
    case True
    with Cons.prems(1) obtain s st1 where s: "decode_view L v = Inr s" and put: "put_remote_secret env s st = Inr st1"
      and later: "apply_entries L env force vs st1 = (Inr (), st')"
      by (auto simp: rbind_def split: sum.splits)
    have "find_local env i st' = merged L force (find_local env i st1) (sql_find (\<lambda>v. sv_id v = i) vs)"
      using Cons.IH [OF later] Cons.prems(2) by simp
    then show ?thesis
      using True s rest find_local_put(1) [OF put, of i] decode_view_fields [OF s] by (auto simp: find merged_def)
  next
    case False
    with Cons.prems Cons.IH [of st] have "find_local env i st' = merged L force (find_local env i st) (sql_find (\<lambda>v. sv_id v = i) vs)"
      by simp
    then show ?thesis using False rest by (auto simp: find merged_def)
  qed
qed

lemma sql_find_Some_unique:
  assumes "distinct (map k t)" and "\<And>r. p r \<Longrightarrow> k r = x"
  shows "sql_find p t = Some r \<longleftrightarrow> r \<in> set t \<and> p r"
  using assms(1)
proof (induction t)
  case (Cons a t)
  show ?case
  proof (cases "p a")
    case True
    have "\<not> p r" if "r \<in> set t"
    proof
      assume "p r"
      then have "k a = k r" using True assms(2) by metis
      with imageI [OF that, of k] Cons.prems show False by simp
    qed
    then show ?thesis using True by (auto simp: sql_find_def)
  next
    case False
    then show ?thesis using Cons by (auto simp: sql_find_def)
  qed
qed (simp add: sql_find_def)

text \<open>In a store that keeps its constraints, the rows of an environment are what \<open>find_local\<close> finds.\<close>

lemma all_secrets_find:
  assumes "local_ok st"
  shows "s \<in> set (all_secrets env st) \<longleftrightarrow> find_local env (ss_id s) st = Some s"
proof -
  have d: "distinct (map lx_id (st_secrets st))" using assms by (simp add: local_ok_def)
  have "sql_find (\<lambda>r. lx_env r = env \<and> lx_id r = i) (st_secrets st) = Some r \<longleftrightarrow> r \<in> set (st_secrets st) \<and> lx_env r = env \<and> lx_id r = i" for i r
    by (rule sql_find_Some_unique [OF d]) simp
  note find = this
  have "find_local env (ss_id s) st = Some s \<longleftrightarrow> (\<exists>r. r \<in> set (st_secrets st) \<and> lx_env r = env \<and> lx_id r = ss_id s \<and> sync_of r = s)"
    unfolding find_local_def map_option_eq_Some find by blast
  also have "\<dots> \<longleftrightarrow> (\<exists>r. r \<in> set (st_secrets st) \<and> lx_env r = env \<and> sync_of r = s)" by (auto simp: sync_of_def)
  also have "\<dots> \<longleftrightarrow> s \<in> set (all_secrets env st)" by (auto simp: all_secrets_def)
  finally show ?thesis by simp
qed

lemma all_secrets_ids:
  assumes "local_ok st"
  shows "distinct (map ss_id (all_secrets env st))"
proof -
  have "map ss_id (all_secrets env st) = map lx_id (sql_select (\<lambda>r. lx_env r = env) (st_secrets st))"
    by (simp add: all_secrets_def sync_of_def comp_def)
  then show ?thesis using assms by (simp add: local_ok_def sql_select_def distinct_map_filter)
qed

lemma change_for_id: "change_for L r s = Some c \<Longrightarrow> ch_id c = ss_id s"
  by (auto simp: change_for_def set_change_def change_set_def change_delete_def split: option.splits if_splits)

lemma diff_iff:
  assumes "local_ok st"
  shows "c \<in> set (diff L env sn st) \<longleftrightarrow>
    (\<exists>s. find_local env (ch_id c) st = Some s \<and> change_for L (server_entry sn (ch_id c)) s = Some c)"
proof -
  have "c \<in> set (diff L env sn st) \<longleftrightarrow> (\<exists>s \<in> set (all_secrets env st). change_for L (server_entry sn (ss_id s)) s = Some c)"
    by (force simp: diff_def List.map_filter_def)
  also have "\<dots> \<longleftrightarrow> (\<exists>s. find_local env (ch_id c) st = Some s \<and> change_for L (server_entry sn (ch_id c)) s = Some c)"
  proof -
    have "find_local env i st = Some s \<Longrightarrow> ss_id s = i" for i s
      by (auto simp: find_local_def sync_of_def dest: sql_find_SomeD)
    then show ?thesis using all_secrets_find [OF assms] change_for_id by metis
  qed
  finally show ?thesis .
qed



section \<open>Examples\<close>

text \<open>A server without the caller's grant.\<close>

definition demo_remote :: "unit api" where
  "demo_remote = \<lparr>api_put_account = (\<lambda>_ w. (Inr (), w)), api_create_project = (\<lambda>_ _ _ w. (Inr (), w)),
     api_create_environment = (\<lambda>_ _ _ _ w. (Inr (), w)), api_list_environments = (\<lambda>_ w. (Inr [], w)),
     api_list_orgs = (\<lambda>w. (Inr [], w)), api_snapshot = (\<lambda>_ _ w. (Inr (Some \<lparr>rs_revision = 0, rs_secrets = []\<rparr>), w)),
     api_write_secrets = (\<lambda>_ _ w. (Inr 1, w)), api_get_grant = (\<lambda>_ w. (Inr None, w)), api_list_history = (\<lambda>_ w. (Inr [], w))\<rparr>"

definition demo_config :: client_config where
  "demo_config = \<lparr>cfg_project_id = ''p'', cfg_project = ''app'', cfg_environment = ''dev'', cfg_org_id = Some ''acme''\<rparr>"


lemma demo_secret_ok: "local_ok demo_secret_store"
proof -
  have "local_ok demo_local" using store_writes_ok [OF demo_local_written empty_store_ok] by simp
  then show ?thesis by (rule store_write_ok [OF store_write.inserted [OF demo_insert]])
qed

definition demo_view :: secret_view where
  "demo_view = \<lparr>sv_id = ''s'', sv_enc_name = ''AAAA'', sv_enc_value = ''AAAA'', sv_enc_data_key = ''AAAA'', sv_version = 1, sv_deleted = False\<rparr>"


definition demo_edited_store :: local_store where
  "demo_edited_store = demo_secret_store\<lparr>st_secrets := [\<lparr>lx_id = ''s'', lx_env = ''e'', lx_name = [2], lx_value = [5], lx_key = [4], lx_version = 2, lx_deleted = False\<rparr>],
     st_versions := st_versions demo_secret_store @ [\<lparr>lv_secret = ''s'', lv_version = 2, lv_name = [2], lv_value = [5], lv_key = [4]\<rparr>]\<rparr>"

lemma demo_edit: "update_secret ''s'' 2 [2] [5] [4] demo_secret_store = Inr demo_edited_store"
  by (simp add: update_secret_def snapshot_version_def demo_secret_store_def demo_edited_store_def sql_find_def sql_count_def sql_update_def
    sql_insert_def sql_exists_def has_version_def next_version_def ok_or_def require_def rbind_def Let_def)


end
