(* ===== verification/Team.thy ===== *)
theory Team
  imports Sync Machine Share
begin

text \<open>
  The team, machine and share commands of the command line client: \<open>remote/team.rs\<close>,
  \<open>remote/machine.rs\<close> and \<open>remote/share.rs\<close> of \<open>crates/cli/src\<close>, over the rest of the trait \<open>SyncApi\<close>.
  The keys a command draws at random are arguments; of a rotation's nonces and seals there is one for
  each secret, version, holder and machine token.

  Result: a machine token string reads back. Theory \<open>Team_Server\<close> has the rotation against the server.
\<close>

record new_share =
  ns_blob :: string
  ns_max_views :: int
  ns_ttl :: "int option"
  ns_salt :: "string option"

record 'w team_api =
  tm_sync :: "'w api"
  tm_create_org :: "string \<Rightarrow> string \<Rightarrow> string \<Rightarrow> 'w \<Rightarrow> (cli_error + unit) \<times> 'w"
  tm_invite_member :: "string \<Rightarrow> string \<Rightarrow> 'w \<Rightarrow> (cli_error + string \<times> string option) \<times> 'w"
  tm_list_members :: "string \<Rightarrow> 'w \<Rightarrow> (cli_error + member_view list) \<times> 'w"
  tm_create_grant :: "string \<Rightarrow> string \<Rightarrow> string \<Rightarrow> 'w \<Rightarrow> (cli_error + unit) \<times> 'w"
  tm_list_grant_holders :: "string \<Rightarrow> 'w \<Rightarrow> (cli_error + string list) \<times> 'w"
  tm_member_env_grants :: "string \<Rightarrow> string \<Rightarrow> 'w \<Rightarrow> (cli_error + string list) \<times> 'w"
  tm_rotate :: "string \<Rightarrow> rotate_request \<Rightarrow> 'w \<Rightarrow> (cli_error + int) \<times> 'w"
  tm_remove_member :: "string \<Rightarrow> string \<Rightarrow> 'w \<Rightarrow> (cli_error + removal_receipt) \<times> 'w"
  tm_grant_org_key :: "string \<Rightarrow> string \<Rightarrow> string \<Rightarrow> 'w \<Rightarrow> (cli_error + unit) \<times> 'w"
  tm_create_machine_token :: "string \<Rightarrow> string \<Rightarrow> string \<Rightarrow> string \<Rightarrow> 'w \<Rightarrow> (cli_error + string \<times> string) \<times> 'w"
  tm_list_machine_tokens :: "string \<Rightarrow> 'w \<Rightarrow> (cli_error + token_view list) \<times> 'w"
  tm_create_share :: "new_share \<Rightarrow> 'w \<Rightarrow> (cli_error + string) \<times> 'w"

section \<open>Organisations\<close>

definition decode_public_key :: "lib \<Rightarrow> string \<Rightarrow> cli_error + bytes" where
  "decode_public_key L b64 =
     rbind (b64decode L b64) (\<lambda>bs. rbind (require (length bs = PUBLIC_KEY_LEN) CryptoFailed) (\<lambda>_. Inr bs))"

record org_draws =
  od_id :: string
  od_key :: bytes
  od_nonce :: bytes
  od_seal :: bytes

definition team_create_org :: "lib \<Rightarrow> crypto \<Rightarrow> org_draws \<Rightarrow> 'w team_api \<Rightarrow> keypair \<Rightarrow> string \<Rightarrow> (string, 'w) command" where
  "team_create_org L c d T kp name =
     sbind (lift (from_core (grant_vault_key c (od_seal d) (public kp) (od_key d)))) (\<lambda>enc_org_key.
     sbind (request (tm_create_org T (od_id d) (b64encode L (encrypt_org_name c (od_nonce d) (od_key d) (od_id d) (as_bytes name)))
       (b64encode L enc_org_key))) (\<lambda>_. sret (od_id d)))"

definition decrypt_org_listing_name :: "lib \<Rightarrow> crypto \<Rightarrow> keypair \<Rightarrow> org_view \<Rightarrow> string option" where
  "decrypt_org_listing_name L c kp og =
     (case rbind (ok_or (ov_enc_org_key og) CryptoFailed) (\<lambda>b64.
           rbind (b64decode L b64) (\<lambda>enc.
           rbind (from_core (open_vault_key c kp enc)) (\<lambda>key.
           rbind (b64decode L (ov_enc_name og)) (\<lambda>enc_name.
           from_core (decrypt_org_name c key (ov_id og) enc_name))))) of
        Inl _ \<Rightarrow> None
      | Inr bs \<Rightarrow> from_utf8 bs)"

definition team_list_orgs :: "lib \<Rightarrow> crypto \<Rightarrow> 'w team_api \<Rightarrow> keypair \<Rightarrow> ((string \<times> string \<times> role) list, 'w) command" where
  "team_list_orgs L c T kp =
     sbind (request (api_list_orgs (tm_sync T))) (\<lambda>orgs.
     sret (map (\<lambda>og. (ov_id og, case decrypt_org_listing_name L c kp og of None \<Rightarrow> ov_id og | Some name \<Rightarrow> name, ov_role og)) orgs))"

text \<open>Best effort: without an own copy of the organisation's key there is nothing to grant.\<close>

definition pass_org_key :: "lib \<Rightarrow> crypto \<Rightarrow> bytes \<Rightarrow> 'w team_api \<Rightarrow> keypair \<Rightarrow> string \<Rightarrow> string \<Rightarrow> (cli_error + bytes) \<Rightarrow> (unit, 'w) command" where
  "pass_org_key L c rnd T kp org user public_key =
     sbind (org_key L c (tm_sync T) kp org) (\<lambda>found.
     case found of
       None \<Rightarrow> sret ()
     | Some key \<Rightarrow>
         sbind (lift public_key) (\<lambda>pk.
         sbind (lift (from_core (grant_vault_key c rnd pk key))) (\<lambda>sealed.
         request (tm_grant_org_key T org user (b64encode L sealed)))))"

definition invite :: "lib \<Rightarrow> crypto \<Rightarrow> bytes \<Rightarrow> 'w team_api \<Rightarrow> keypair \<Rightarrow> string \<Rightarrow> string \<Rightarrow> (string \<times> string option, 'w) command" where
  "invite L c rnd T kp org email =
     sbind (request (tm_invite_member T org email)) (\<lambda>(user, public_key).
     sbind (case public_key of
         None \<Rightarrow> sret ()
       | Some b64 \<Rightarrow> pass_org_key L c rnd T kp org user (decode_public_key L b64)) (\<lambda>_.
     sret (user, public_key)))"

section \<open>Sharing an environment\<close>

definition member_key :: "lib \<Rightarrow> string \<Rightarrow> member_view list \<Rightarrow> cli_error + bytes" where
  "member_key L user ms =
     rbind (ok_or (sql_find (\<lambda>m. mv_user m = user) ms) (InputError (''`'' @ user @ ''` is not a member of this organisation''))) (\<lambda>m.
     rbind (ok_or (mv_public_key m) (InputError
       ''that member hasn't set up their account keys yet - they must log in and run `sotto setup` first'')) (\<lambda>b64.
     decode_public_key L b64))"

definition share_env :: "lib \<Rightarrow> crypto \<Rightarrow> bytes \<times> bytes \<Rightarrow> 'w team_api \<Rightarrow> keypair \<Rightarrow> string \<Rightarrow> string \<Rightarrow> client_config \<Rightarrow> (string, 'w) command" where
  "share_env L c rnds T kp org user cfg =
     sbind (resolve_env cfg) (\<lambda>env.
     sbind (request (tm_list_members T org)) (\<lambda>ms.
     sbind (lift (member_key L user ms)) (\<lambda>public_key.
     sbind (lift (from_core (open_vault_key c kp (le_key env)))) (\<lambda>vault_key.
     sbind (lift (from_core (grant_vault_key c (fst rnds) public_key vault_key))) (\<lambda>grant.
     sbind (request (tm_create_grant T (le_id env) user (b64encode L grant))) (\<lambda>_.
     sbind (pass_org_key L c (snd rnds) T kp org user (Inr public_key)) (\<lambda>_.
     sret (le_id env))))))))"

text \<open>A failure of either request, or of any decryption, is no name.\<close>

definition decrypted_env_name :: "lib \<Rightarrow> crypto \<Rightarrow> 'w team_api \<Rightarrow> keypair \<Rightarrow> string \<Rightarrow> string \<Rightarrow> string option \<Rightarrow> (string option, 'w) command" where
  "decrypted_env_name L c T kp project env org_id s = (case org_id of
       None \<Rightarrow> (Inr None, s)
     | Some org \<Rightarrow> (case org_key L c (tm_sync T) kp org s of
           (Inr (Some key), s') \<Rightarrow>
             (case request (api_list_environments (tm_sync T) project) s' of
                (Inl _, s'') \<Rightarrow> (Inr None, s'')
              | (Inr listed, s'') \<Rightarrow>
                  (Inr (case sql_find (\<lambda>e. nv_id e = env) listed of
                     None \<Rightarrow> None
                   | Some e \<Rightarrow> (case rbind (b64decode L (nv_enc_name e)) (\<lambda>ct. from_core (decrypt_env_name c key env ct)) of
                       Inl _ \<Rightarrow> None
                     | Inr bs \<Rightarrow> from_utf8 bs)), s''))
         | (_, s') \<Rightarrow> (Inr None, s')))"

definition adopt_clone :: "string \<Rightarrow> string \<Rightarrow> string \<Rightarrow> string \<Rightarrow> bytes \<Rightarrow> (unit, 'w) command" where
  "adopt_clone project project_name env name grant =
     sbind (modify (\<lambda>st. if get_project project st = None
       then rbind (create_project_with_id project project_name st) (\<lambda>(_, st). Inr st) else Inr st)) (\<lambda>_.
     modify (\<lambda>st. if find_environment env st = None
       then rbind (create_local_env env project name grant st) (\<lambda>(_, st). Inr st) else Inr st))"

definition clone_env ::
    "lib \<Rightarrow> crypto \<Rightarrow> 'w team_api \<Rightarrow> keypair \<Rightarrow> string \<Rightarrow> string \<Rightarrow> string option \<Rightarrow> string option \<Rightarrow> string option \<Rightarrow> (client_config, 'w) command" where
  "clone_env L c T kp project env project_label env_label org_id =
     sbind (request (api_get_grant (tm_sync T) env)) (\<lambda>answer.
     sbind (lift (ok_or answer (InputError ''you have not been granted this environment (ask an admin to share it)''))) (\<lambda>b64.
     sbind (lift (b64decode L b64)) (\<lambda>grant.
     sbind (lift (from_core (open_vault_key c kp grant))) (\<lambda>_.
     sbind (case env_label of
         Some label \<Rightarrow> sret (Some label)
       | None \<Rightarrow> decrypted_env_name L c T kp project env org_id) (\<lambda>found.
     let name = (case found of Some n \<Rightarrow> n | None \<Rightarrow> ''shared'');
         project_name = (case project_label of Some n \<Rightarrow> n | None \<Rightarrow> ''shared'');
         cfg = \<lparr>cfg_project_id = project, cfg_project = project_name, cfg_environment = name, cfg_org_id = org_id\<rparr>
     in sbind (adopt_clone project project_name env name grant) (\<lambda>_.
        sbind (pull L (tm_sync T) cfg) (\<lambda>_. sret cfg)))))))"

section \<open>Rotation\<close>

definition ROTATE_ATTEMPTS :: nat where "ROTATE_ATTEMPTS = 5"

record rotation_draws =
  rt_key :: bytes
  rt_data :: "string \<Rightarrow> bytes"
  rt_history :: "string \<times> int \<Rightarrow> bytes"
  rt_seal :: "string \<Rightarrow> bytes"
  rt_machine :: "string \<Rightarrow> bytes"

definition new_data_keys :: "lib \<Rightarrow> crypto \<Rightarrow> rotation_draws \<Rightarrow> bytes \<Rightarrow> string \<Rightarrow> secret_view list \<Rightarrow> cli_error + (string \<times> string) list" where
  "new_data_keys L c d old env = map_result (\<lambda>s.
     rbind (b64decode L (sv_enc_data_key s)) (\<lambda>edk.
     rbind (from_core (rewrap_data_key c (rt_data d (sv_id s)) old (rt_key d) env (sv_id s) (sv_version s) edk)) (\<lambda>key.
     Inr (sv_id s, b64encode L key))))"

definition new_history_keys ::
    "lib \<Rightarrow> crypto \<Rightarrow> rotation_draws \<Rightarrow> bytes \<Rightarrow> string \<Rightarrow> history_row list \<Rightarrow> cli_error + ((string \<times> int) \<times> string) list" where
  "new_history_keys L c d old env = map_result (\<lambda>row.
     rbind (b64decode L (h_enc_data_key row)) (\<lambda>edk.
     rbind (from_core (rewrap_data_key c (rt_history d (h_secret_id row, h_version row)) old (rt_key d) env (h_secret_id row) (h_version row) edk)) (\<lambda>key.
     Inr ((h_secret_id row, h_version row), b64encode L key))))"

text \<open>A holder that is no member any more is dropped; it had no access.\<close>

fun new_grants :: "lib \<Rightarrow> crypto \<Rightarrow> rotation_draws \<Rightarrow> member_view list \<Rightarrow> string option \<Rightarrow> string list \<Rightarrow> cli_error + (string \<times> string) list" where
  "new_grants L c d ms dropped [] = Inr []"
| "new_grants L c d ms dropped (holder # rest) =
     (if Some holder = dropped then new_grants L c d ms dropped rest
      else case sql_find (\<lambda>m. mv_user m = holder) ms of
        None \<Rightarrow> new_grants L c d ms dropped rest
      | Some m \<Rightarrow>
          rbind (ok_or (mv_public_key m) (InputError (''cannot re-grant `'' @ holder @ ''`: no public key on file''))) (\<lambda>b64.
          rbind (decode_public_key L b64) (\<lambda>pk.
          rbind (from_core (grant_vault_key c (rt_seal d holder) pk (rt_key d))) (\<lambda>grant.
          rbind (new_grants L c d ms dropped rest) (\<lambda>gs.
          Inr ((holder, b64encode L grant) # gs))))))"

definition new_machine_grants :: "lib \<Rightarrow> crypto \<Rightarrow> rotation_draws \<Rightarrow> token_view list \<Rightarrow> cli_error + (string \<times> string) list" where
  "new_machine_grants L c d = map_result (\<lambda>t.
     rbind (decode_public_key L (tv_public_key t)) (\<lambda>pk.
     rbind (from_core (grant_vault_key c (rt_machine d (tv_token_id t)) pk (rt_key d))) (\<lambda>grant.
     Inr (tv_token_id t, b64encode L grant))))"

definition build_rotation ::
    "lib \<Rightarrow> crypto \<Rightarrow> rotation_draws \<Rightarrow> 'w team_api \<Rightarrow> member_view list \<Rightarrow> string \<Rightarrow> string option \<Rightarrow> bytes \<Rightarrow> (rotate_request, 'w) command" where
  "build_rotation L c d T ms env dropped old =
     sbind (request (api_snapshot (tm_sync T) env None)) (\<lambda>answer.
     sbind (lift (ok_or answer (ServerError ''server returned no snapshot''))) (\<lambda>sn.
     sbind (lift (new_data_keys L c d old env (rs_secrets sn))) (\<lambda>data_keys.
     sbind (request (api_list_history (tm_sync T) env)) (\<lambda>rows.
     sbind (lift (new_history_keys L c d old env rows)) (\<lambda>history_keys.
     sbind (request (tm_list_grant_holders T env)) (\<lambda>holders.
     sbind (lift (new_grants L c d ms dropped holders)) (\<lambda>gs.
     sbind (request (tm_list_machine_tokens T env)) (\<lambda>tokens.
     sbind (lift (new_machine_grants L c d tokens)) (\<lambda>machine_grants.
     sret \<lparr>rq_base_revision = rs_revision sn, rq_grants = gs, rq_data_keys = data_keys,
           rq_machine_grants = machine_grants, rq_history_keys = history_keys\<rparr>)))))))))"

definition send_rotation :: "'w team_api \<Rightarrow> string \<Rightarrow> rotate_request \<Rightarrow> (int option, 'w) command \<Rightarrow> (int option, 'w) command" where
  "send_rotation T env req retry s = (case request (tm_rotate T env req) s of
       (Inr revision, s') \<Rightarrow> (Inr (Some revision), s')
     | (Inl (CliConflict _), s') \<Rightarrow> retry s'
     | (Inl e, s') \<Rightarrow> (Inl e, s'))"

text \<open>Each attempt draws anew: the draws are numbered by the attempts left.\<close>

fun rotate_attempts ::
    "lib \<Rightarrow> crypto \<Rightarrow> (nat \<Rightarrow> rotation_draws) \<Rightarrow> 'w team_api \<Rightarrow> keypair \<Rightarrow> member_view list \<Rightarrow> string \<Rightarrow> string option \<Rightarrow> nat \<Rightarrow> (int option, 'w) command" where
  "rotate_attempts L c ds T kp ms env dropped 0 = sfail (CliConflict ''rotation kept racing concurrent writes; try again'')"
| "rotate_attempts L c ds T kp ms env dropped (Suc n) =
     sbind (request (api_get_grant (tm_sync T) env)) (\<lambda>answer.
     case answer of
       None \<Rightarrow> sret None
     | Some b64 \<Rightarrow>
         sbind (lift (rbind (b64decode L b64) (\<lambda>grant. from_core (open_vault_key c kp grant)))) (\<lambda>old.
         sbind (build_rotation L c (ds n) T ms env dropped old) (\<lambda>req.
         send_rotation T env req (rotate_attempts L c ds T kp ms env dropped n))))"

definition team_rotate_env ::
    "lib \<Rightarrow> crypto \<Rightarrow> (nat \<Rightarrow> rotation_draws) \<Rightarrow> 'w team_api \<Rightarrow> keypair \<Rightarrow> string \<Rightarrow> string \<Rightarrow> string option \<Rightarrow> (int option, 'w) command" where
  "team_rotate_env L c ds T kp org env dropped =
     sbind (request (tm_list_members T org)) (\<lambda>ms. rotate_attempts L c ds T kp ms env dropped ROTATE_ATTEMPTS)"

section \<open>Removing a member\<close>

record removal_report =
  rp_rotated :: "string list"
  rp_orphaned :: "string list"
  rp_revoked_tokens :: "revoked_token list"
  rp_grants_deleted :: nat

text \<open>Which of the member's environments can be re-keyed here, which the member alone holds, and which
  block the removal.\<close>

fun examine_envs ::
    "lib \<Rightarrow> crypto \<Rightarrow> 'w team_api \<Rightarrow> keypair \<Rightarrow> string set \<Rightarrow> string \<Rightarrow> string list \<Rightarrow> (string list \<times> string list \<times> string list, 'w) command" where
  "examine_envs L c T kp ms user [] = sret ([], [], [])"
| "examine_envs L c T kp ms user (env # listed) =
     sbind (request (api_get_grant (tm_sync T) env)) (\<lambda>answer.
     case answer of
       Some b64 \<Rightarrow>
         sbind (lift (rbind (b64decode L b64) (\<lambda>grant. from_core (open_vault_key c kp grant)))) (\<lambda>_.
         sbind (examine_envs L c T kp ms user listed) (\<lambda>(to_rotate, orphaned, blocked). sret (env # to_rotate, orphaned, blocked)))
     | None \<Rightarrow>
         sbind (request (tm_list_grant_holders T env)) (\<lambda>holders.
         sbind (examine_envs L c T kp ms user listed) (\<lambda>(to_rotate, orphaned, blocked).
         if filter (\<lambda>h. h \<in> ms) holders = [user] then sret (to_rotate, env # orphaned, blocked)
         else sret (to_rotate, orphaned, env # blocked))))"

fun rotate_all ::
    "lib \<Rightarrow> crypto \<Rightarrow> (string \<Rightarrow> nat \<Rightarrow> rotation_draws) \<Rightarrow> 'w team_api \<Rightarrow> keypair \<Rightarrow> string \<Rightarrow> string \<Rightarrow> string list \<Rightarrow> (unit, 'w) command" where
  "rotate_all L c ds T kp org user [] = sret ()"
| "rotate_all L c ds T kp org user (env # listed) =
     sbind (team_rotate_env L c (ds env) T kp org env (Some user)) (\<lambda>revision.
     if revision = None
     then sfail (CliConflict (''your grant to environment '' @ env @ '' was dropped during the removal; retry''))
     else rotate_all L c ds T kp org user listed)"

definition blocked_message :: "string list \<Rightarrow> string" where
  "blocked_message blocked = ''cannot complete removal: you hold no grant to environment(s) '' @ join '', '' blocked @
     ''; ask a member who holds them to run `sotto grant <your-user-id>` in each and retry, or to run this removal themselves''"

definition team_remove_member ::
    "lib \<Rightarrow> crypto \<Rightarrow> (string \<Rightarrow> nat \<Rightarrow> rotation_draws) \<Rightarrow> 'w team_api \<Rightarrow> keypair \<Rightarrow> string \<Rightarrow> string \<Rightarrow> (removal_report, 'w) command" where
  "team_remove_member L c ds T kp org user =
     sbind (request (tm_list_members T org)) (\<lambda>ms.
     sbind (request (tm_member_env_grants T org user)) (\<lambda>listed.
     sbind (examine_envs L c T kp (set (map mv_user ms)) user listed) (\<lambda>(to_rotate, orphaned, blocked).
     if blocked \<noteq> [] then sfail (InputError (blocked_message blocked))
     else sbind (rotate_all L c ds T kp org user to_rotate) (\<lambda>_.
       sbind (request (tm_remove_member T org user)) (\<lambda>receipt.
       sret \<lparr>rp_rotated = to_rotate, rp_orphaned = orphaned, rp_revoked_tokens = rr_revoked_tokens receipt,
             rp_grants_deleted = rr_grants_deleted receipt\<rparr>)))))"

section \<open>Machine tokens\<close>

definition KEY_PREFIX :: string where "KEY_PREFIX = ''MT''"
definition KEY_VERSION :: u8 where "KEY_VERSION = 1"

record machine_token =
  mt_api_token :: string
  mt_keypair :: keypair

definition assemble_token :: "string \<Rightarrow> bytes \<Rightarrow> string" where
  "assemble_token api_token machine_secret = api_token @ ''.'' @ encode_key KEY_PREFIX KEY_VERSION machine_secret"

definition invalid_machine_key :: cli_error where
  "invalid_machine_key = InputError ''invalid machine key in SOTTO_TOKEN''"

text \<open>The string is ASCII.\<close>

definition parse_token :: "crypto \<Rightarrow> string \<Rightarrow> cli_error + machine_token" where
  "parse_token c token =
     rbind (ok_or (split_once CHR ''.'' (trim_by is_ascii_space token))
       (InputError (''malformed SOTTO_TOKEN (expected <token>.<MT1-'' @ [CHR 0xE2, CHR 0x80, CHR 0xA6] @ ''>)''))) (\<lambda>(api_token, key_part).
     rbind (map_err (\<lambda>_. invalid_machine_key) (decode_key KEY_PREFIX KEY_VERSION key_part)) (\<lambda>secret_bytes.
     rbind (require (length secret_bytes = KEY_LEN) invalid_machine_key) (\<lambda>_.
     Inr \<lparr>mt_api_token = api_token, mt_keypair = keypair_from_secret c secret_bytes\<rparr>)))"

text \<open>The machine's secret key and the seal of its grant are drawn.\<close>

definition team_create_machine_token ::
    "lib \<Rightarrow> crypto \<Rightarrow> bytes \<times> bytes \<Rightarrow> 'w team_api \<Rightarrow> keypair \<Rightarrow> client_config \<Rightarrow> string \<Rightarrow> (string, 'w) command" where
  "team_create_machine_token L c draws T kp cfg name =
     sbind (resolve_env cfg) (\<lambda>env.
     let machine = keypair_from_secret c (fst draws) in
     sbind (lift (from_core (open_vault_key c kp (le_key env)))) (\<lambda>vault_key.
     sbind (lift (from_core (grant_vault_key c (snd draws) (public machine) vault_key))) (\<lambda>machine_grant.
     sbind (request (tm_create_machine_token T (le_id env) name (b64encode L (public machine)) (b64encode L machine_grant))) (\<lambda>(token_id, token).
     sret (assemble_token token (secret machine))))))"

text \<open>What a machine decrypts of its grant and snapshot, sorted by name.\<close>

definition machine_entry :: "lib \<Rightarrow> crypto \<Rightarrow> bytes \<Rightarrow> string \<Rightarrow> secret_view \<Rightarrow> cli_error + string \<times> bytes" where
  "machine_entry L c vault_key env s =
     rbind (b64decode L (sv_enc_name s)) (\<lambda>en.
     rbind (b64decode L (sv_enc_value s)) (\<lambda>ev.
     rbind (b64decode L (sv_enc_data_key s)) (\<lambda>edk.
     rbind (from_core (decrypt_secret c vault_key env (sv_id s) (sv_version s) en ev edk)) (\<lambda>(bs, val).
     rbind (ok_or (from_utf8 bs) CryptoFailed) (\<lambda>name. Inr (name, val))))))"

definition machine_entries :: "lib \<Rightarrow> crypto \<Rightarrow> keypair \<Rightarrow> string \<times> string \<Rightarrow> secret_view list \<Rightarrow> cli_error + (string \<times> bytes) list" where
  "machine_entries L c kp grant views =
     rbind (b64decode L (snd grant)) (\<lambda>sealed.
     rbind (from_core (open_vault_key c kp sealed)) (\<lambda>vault_key.
     rbind (map_result (machine_entry L c vault_key (fst grant)) (filter (\<lambda>s. \<not> sv_deleted s) views)) (\<lambda>es.
     Inr (sort_key fst es))))"

section \<open>Share links\<close>

record share_options =
  so_max_views :: int
  so_ttl_seconds :: "int option"
  so_passphrase :: "bytes option"

definition check_share_options :: "share_options \<Rightarrow> cli_error + unit" where
  "check_share_options opts =
     rbind (require (1 \<le> so_max_views opts \<and> so_max_views opts \<le> MAX_VIEWS)
       (InputError (''views must be between 1 and '' @ dec_int MAX_VIEWS))) (\<lambda>_.
     case so_ttl_seconds opts of
       None \<Rightarrow> Inr ()
     | Some ttl \<Rightarrow> require (1 \<le> ttl \<and> ttl \<le> MAX_TTL_SECONDS)
         (InputError (''expire must be between 1 and '' @ dec_int MAX_TTL_SECONDS @ '' seconds'')))"

text \<open>The fragment of a link is base64 for URLs, without padding: the argument \<open>url64\<close>.\<close>

definition build_link :: "(bytes \<Rightarrow> string) \<Rightarrow> string \<Rightarrow> string \<Rightarrow> bytes \<Rightarrow> string" where
  "build_link url64 web_base token fragment_key =
     rev (dropWhile (\<lambda>ch. ch = CHR ''/'') (rev web_base)) @ ''/s/'' @ token @ ''#'' @ url64 fragment_key"

record share_draws =
  sd_fragment :: bytes
  sd_salt :: bytes
  sd_nonce :: bytes

definition share_aead_key :: "crypto \<Rightarrow> share_draws \<Rightarrow> bytes option \<Rightarrow> cli_error + bytes \<times> bytes option" where
  "share_aead_key c d passphrase = (case passphrase of
       Some pass \<Rightarrow> rbind (from_core (passphrase_key c (sd_fragment d) pass (sd_salt d))) (\<lambda>key. Inr (key, Some (sd_salt d)))
     | None \<Rightarrow> Inr (sd_fragment d, None))"

definition share_create ::
    "lib \<Rightarrow> crypto \<Rightarrow> (bytes \<Rightarrow> string) \<Rightarrow> share_draws \<Rightarrow> 'w team_api \<Rightarrow> string \<Rightarrow> bytes \<Rightarrow> share_options \<Rightarrow> (string, 'w) command" where
  "share_create L c url64 d T web_base val opts =
     sbind (lift (check_share_options opts)) (\<lambda>_.
     sbind (lift (share_aead_key c d (so_passphrase opts))) (\<lambda>(aead_key, salt).
     sbind (request (tm_create_share T \<lparr>ns_blob = b64encode L (share_seal c (sd_nonce d) aead_key val),
         ns_max_views = so_max_views opts, ns_ttl = so_ttl_seconds opts, ns_salt = map_option (b64encode L) salt\<rparr>)) (\<lambda>token.
     sret (build_link url64 web_base token (sd_fragment d)))))"

section \<open>The machine token string\<close>

lemma symbol_plain: "is_symbol x \<Longrightarrow> \<not> is_ascii_space x"
  by (auto simp: is_symbol_def decode_symbol_def to_ascii_uppercase_def is_ascii_space_def Let_def split: if_splits)

lemma key_text:
  assumes "x \<in> set (encode_key KEY_PREFIX KEY_VERSION key_bytes)"
  shows "\<not> is_ascii_space x"
proof -
  let ?e = "Key_Format.encode (key_bytes @ fletcher16 (tagged KEY_PREFIX KEY_VERSION key_bytes))"
  have "x \<in> set (key_head KEY_PREFIX KEY_VERSION) \<or> x \<in> set (group ?e 5)"
    using assms by (simp add: encode_key_def Let_def)
  moreover have "x = CHR ''-'' \<or> x \<in> set (dehyphen (group ?e 5))" if "x \<in> set (group ?e 5)"
    using that by (simp add: dehyphen_def)
  moreover have "dehyphen (group ?e 5) = ?e" by (simp add: dehyphen_group dehyphen_encode)
  ultimately have "x \<in> set (key_head KEY_PREFIX KEY_VERSION) \<or> x = CHR ''-'' \<or> is_symbol x"
    using encode_symbols_only [of "key_bytes @ fletcher16 (tagged KEY_PREFIX KEY_VERSION key_bytes)"] by (auto simp: list_all_iff)
  then show ?thesis
    using symbol_plain by (auto simp: key_head_def KEY_PREFIX_def KEY_VERSION_def dec_nat.simps digit_char_def is_ascii_space_def Let_def)
qed

text \<open>The string handed to a machine reads back as the server's token and the machine's own key pair.\<close>

lemma machine_token_roundtrip:
  assumes "length machine_secret = KEY_LEN"
  shows "parse_token c (assemble_token (generate_token raw) machine_secret) =
    Inr \<lparr>mt_api_token = generate_token raw, mt_keypair = keypair_from_secret c machine_secret\<rparr>"
proof -
  let ?t = "generate_token raw" and ?k = "encode_key KEY_PREFIX KEY_VERSION machine_secret"
  have plain: "\<not> is_ascii_space x \<and> x \<noteq> CHR ''.''" if "x \<in> set ?t" for x
    using that by (auto simp: generate_token_def MACHINE_PREFIX_def is_ascii_space_def hex_char_def Let_def dest!: to_hex_chars)
  then have "trim_by is_ascii_space (?t @ CHR ''.'' # ?k) = ?t @ CHR ''.'' # ?k"
    by (intro trim_by_none) (auto simp: is_ascii_space_def dest: key_text)
  moreover have "split_once CHR ''.'' (?t @ CHR ''.'' # ?k) = Some (?t, ?k)" using plain by (intro split_once_at) blast
  ultimately show ?thesis using assms by (simp add: parse_token_def assemble_token_def key_roundtrip_lemma map_err_def)
qed

end
