(* ===== verification/Sync_Server.thy ===== *)
theory Sync_Server
  imports Sync Grants
begin

text \<open>
  The sync engine against the modelled server: the HTTP client \<open>crates/cli/src/remote/http.rs\<close> (how a
  response becomes a result) over a network that may lose a request or its response and a server that
  other clients write to between this client's requests.

  Results: the laws of a sync service, a locale, which the server fulfils; and from them that a push,
  whatever happens between its requests, leaves the device and the server with the same live secrets.
\<close>

section \<open>Responses\<close>

definition reason_phrase :: "nat \<Rightarrow> string" where
  "reason_phrase status =
     (if status = 400 then ''Bad Request'' else if status = 401 then ''Unauthorized'' else if status = 402 then ''Payment Required''
      else if status = 403 then ''Forbidden'' else if status = 404 then ''Not Found'' else if status = 409 then ''Conflict''
      else if status = 412 then ''Precondition Failed'' else if status = 500 then ''Internal Server Error''
      else if status = 502 then ''Bad Gateway'' else ''Service Unavailable'')"

definition status_message :: "nat \<times> string \<Rightarrow> string" where
  "status_message resp = dec_nat (fst resp) @ '' '' @ reason_phrase (fst resp) @ '': '' @ snd resp"

definition server_error :: "nat \<times> string \<Rightarrow> cli_error" where
  "server_error resp =
     (if fst resp = 409 \<or> fst resp = 412 then CliConflict (status_message resp)
      else if fst resp = 401 then ServerError ''unauthorised - run `sotto login`''
      else if fst resp = 403 then CliForbidden (status_message resp)
      else if fst resp = 402 then InputError (snd resp)
      else ServerError (status_message resp))"

definition parse_response :: "error + 'a \<Rightarrow> cli_error + 'a" where
  "parse_response = map_err (\<lambda>e. server_error (into_response e))"

definition ok_response :: "error + 'a \<Rightarrow> cli_error + unit" where
  "ok_response r = rbind (parse_response r) (\<lambda>_. Inr ())"

definition snapshot_answer :: "error + snapshot_response \<Rightarrow> cli_error + remote_snapshot option" where
  "snapshot_answer r = rbind (parse_response r) (\<lambda>resp. Inr (case resp of
       NotModified _ \<Rightarrow> None
     | Snapshot _ revision views \<Rightarrow> Some \<lparr>rs_revision = revision, rs_secrets = views\<rparr>))"

definition grant_answer :: "error + string \<Rightarrow> cli_error + string option" where
  "grant_answer r = (case r of
       Inl e \<Rightarrow> if fst (into_response e) = 404 then Inr None else Inl (server_error (into_response e))
     | Inr key \<Rightarrow> Inr (Some key))"

definition write_answer :: "error + string \<times> int \<Rightarrow> cli_error + int" where
  "write_answer r = rbind (parse_response r) (\<lambda>(_, revision). Inr revision)"

section \<open>The network and the other clients\<close>

text \<open>Before each request other clients may write; then the request or its response may be lost. The
  schedule of both is part of the world; when it is used up, requests are just served.\<close>

datatype delivery = Delivered | RequestLost | ResponseLost

record other_write =
  ow_now :: int
  ow_user :: string
  ow_env :: string
  ow_base :: int
  ow_changes :: "change list"

record turn =
  tn_others :: "other_write list"
  tn_delivery :: delivery

record world =
  wd_db :: db
  wd_turns :: "turn list"

definition other_step :: "lib \<Rightarrow> db \<Rightarrow> other_write \<Rightarrow> db" where
  "other_step L db ow = snd (write_secrets L (ow_now ow) (ow_user ow) (ow_env ow) (ow_base ow) (ow_changes ow) db db)"

definition next_turn :: "world \<Rightarrow> turn" where
  "next_turn w = (case wd_turns w of [] \<Rightarrow> \<lparr>tn_others = [], tn_delivery = Delivered\<rparr> | t # _ \<Rightarrow> t)"

definition others_first :: "lib \<Rightarrow> world \<Rightarrow> world" where
  "others_first L w = \<lparr>wd_db = foldl (other_step L) (wd_db w) (tn_others (next_turn w)), wd_turns = tl (wd_turns w)\<rparr>"

definition lost :: cli_error where
  "lost = NetworkError ''error sending request''"

text \<open>A handler gets the state its reads outside its transaction see, which is from before the others'
  writes, and the state of its transaction.\<close>

definition exchange :: "lib \<Rightarrow> ('r \<Rightarrow> cli_error + 'a) \<Rightarrow> (db \<Rightarrow> db \<Rightarrow> 'r \<times> db) \<Rightarrow> world \<Rightarrow> (cli_error + 'a) \<times> world" where
  "exchange L answer f w =
     (let w1 = others_first L w in
      case tn_delivery (next_turn w) of
        RequestLost \<Rightarrow> (Inl lost, w1)
      | Delivered \<Rightarrow> (case f (wd_db w) (wd_db w1) of (r, db) \<Rightarrow> (answer r, w1\<lparr>wd_db := db\<rparr>))
      | ResponseLost \<Rightarrow> (case f (wd_db w) (wd_db w1) of (r, db) \<Rightarrow> (Inl lost, w1\<lparr>wd_db := db\<rparr>)))"

definition http_put_account :: "lib \<Rightarrow> string \<Rightarrow> account_bundle \<Rightarrow> world \<Rightarrow> (cli_error + unit) \<times> world" where
  "http_put_account L user b = exchange L ok_response (\<lambda>db0 db. put_account L user b db)"

definition http_create_project ::
    "lib \<Rightarrow> int \<Rightarrow> string \<Rightarrow> string \<Rightarrow> string \<Rightarrow> string option \<Rightarrow> world \<Rightarrow> (cli_error + unit) \<times> world" where
  "http_create_project L now user i name org = exchange L ok_response (create_project L now user i name org)"

definition http_create_environment ::
    "lib \<Rightarrow> string \<Rightarrow> string \<Rightarrow> string \<Rightarrow> string \<Rightarrow> string \<Rightarrow> world \<Rightarrow> (cli_error + unit) \<times> world" where
  "http_create_environment L user project i name key = exchange L ok_response (create_environment L user project i name key)"

definition http_list_environments :: "lib \<Rightarrow> string \<Rightarrow> string \<Rightarrow> world \<Rightarrow> (cli_error + environment_view list) \<times> world" where
  "http_list_environments L user project = exchange L parse_response (\<lambda>db0 db. (list_environments L db user project, db))"

definition http_list_orgs :: "lib \<Rightarrow> string \<Rightarrow> world \<Rightarrow> (cli_error + org_view list) \<times> world" where
  "http_list_orgs L user = exchange L parse_response (\<lambda>db0 db. (list_orgs L db user, db))"

text \<open>The revision is sent as an entity tag.\<close>

definition http_snapshot :: "lib \<Rightarrow> string \<Rightarrow> string \<Rightarrow> int option \<Rightarrow> world \<Rightarrow> (cli_error + remote_snapshot option) \<times> world" where
  "http_snapshot L user env known = exchange L snapshot_answer (\<lambda>db0 db. (snapshot L db user env (map_option etag_of known), db))"

definition http_write_secrets :: "lib \<Rightarrow> int \<Rightarrow> string \<Rightarrow> string \<Rightarrow> batch \<Rightarrow> world \<Rightarrow> (cli_error + int) \<times> world" where
  "http_write_secrets L now user env b = exchange L write_answer (write_secrets L now user env (bt_base b) (bt_changes b))"

definition http_get_grant :: "lib \<Rightarrow> string \<Rightarrow> string \<Rightarrow> world \<Rightarrow> (cli_error + string option) \<times> world" where
  "http_get_grant L user env = exchange L grant_answer (\<lambda>db0 db. (get_grant L db user env, db))"

definition http_list_history :: "lib \<Rightarrow> string \<Rightarrow> string \<Rightarrow> world \<Rightarrow> (cli_error + history_row list) \<times> world" where
  "http_list_history L user env = exchange L parse_response (\<lambda>db0 db. (history L db user env, db))"

definition http_client :: "lib \<Rightarrow> int \<Rightarrow> string \<Rightarrow> world api" where
  "http_client L now user = \<lparr>api_put_account = http_put_account L user, api_create_project = http_create_project L now user,
     api_create_environment = http_create_environment L user, api_list_environments = http_list_environments L user,
     api_list_orgs = http_list_orgs L user, api_snapshot = http_snapshot L user, api_write_secrets = http_write_secrets L now user,
     api_get_grant = http_get_grant L user, api_list_history = http_list_history L user\<rparr>"

lemmas http_defs = http_client_def http_put_account_def http_create_project_def http_create_environment_def
  http_list_environments_def http_list_orgs_def http_snapshot_def http_write_secrets_def http_get_grant_def http_list_history_def

section \<open>Live secrets\<close>

text \<open>What an environment holds, on a device and on the server: version and ciphertexts by id.\<close>

type_synonym live = "string \<Rightarrow> (int \<times> bytes \<times> bytes \<times> bytes) option"

definition sync_live :: "sync_secret option \<Rightarrow> (int \<times> bytes \<times> bytes \<times> bytes) option" where
  "sync_live l = (case l of
       None \<Rightarrow> None
     | Some s \<Rightarrow> if ss_deleted s then None else Some (ss_version s, ss_name s, ss_value s, ss_key s))"

definition entry_live :: "secret_entry option \<Rightarrow> (int \<times> bytes \<times> bytes \<times> bytes) option" where
  "entry_live r = (case r of
       None \<Rightarrow> None
     | Some e \<Rightarrow> if en_deleted e then None else Some (en_version e, en_name e, en_value e, en_data_key e))"

definition local_live :: "string \<Rightarrow> local_store \<Rightarrow> live" where
  "local_live env st i = sync_live (find_local env i st)"

definition server_live :: "(string \<Rightarrow> secret_entry option) \<Rightarrow> live" where
  "server_live m i = entry_live (m i)"

lemma live_simps [simp]:
  "sync_live None = None"
  "sync_live (Some s) = (if ss_deleted s then None else Some (ss_version s, ss_name s, ss_value s, ss_key s))"
  "entry_live None = None"
  "entry_live (Some e) = (if en_deleted e then None else Some (en_version e, en_name e, en_value e, en_data_key e))"
  by (simp_all add: sync_live_def entry_live_def)

text \<open>Every version of a secret has one content, whoever holds it.\<close>

type_synonym authors = "string \<Rightarrow> int \<Rightarrow> bytes \<times> bytes \<times> bytes"

definition local_authored :: "authors \<Rightarrow> string \<Rightarrow> local_store \<Rightarrow> bool" where
  "local_authored au env st \<longleftrightarrow> (\<forall>i s. find_local env i st = Some s \<longrightarrow> (ss_name s, ss_value s, ss_key s) = au i (ss_version s))"

definition server_authored :: "authors \<Rightarrow> (string \<Rightarrow> secret_entry option) \<Rightarrow> bool" where
  "server_authored au m \<longleftrightarrow> (\<forall>i e. m i = Some e \<longrightarrow> (en_name e, en_value e, en_data_key e) = au i (en_version e))"

text \<open>A snapshot that shows an environment's entries.\<close>

definition entry_view :: "lib \<Rightarrow> string \<Rightarrow> secret_entry \<Rightarrow> secret_view" where
  "entry_view L i e = \<lparr>sv_id = i, sv_enc_name = b64_encode L (en_name e), sv_enc_value = b64_encode L (en_value e),
     sv_enc_data_key = b64_encode L (en_data_key e), sv_version = en_version e, sv_deleted = en_deleted e\<rparr>"

definition shows_entries :: "lib \<Rightarrow> secret_view list \<Rightarrow> (string \<Rightarrow> secret_entry option) \<Rightarrow> bool" where
  "shows_entries L vs m \<longleftrightarrow> distinct (map sv_id vs) \<and> (\<forall>i. sql_find (\<lambda>v. sv_id v = i) vs = map_option (entry_view L i) (m i))"

definition entry_sync :: "string \<Rightarrow> secret_entry \<Rightarrow> sync_secret" where
  "entry_sync i e = \<lparr>ss_id = i, ss_name = en_name e, ss_value = en_value e, ss_key = en_data_key e, ss_version = en_version e,
     ss_deleted = en_deleted e\<rparr>"

lemma decode_entry_view: "b64_ok L \<Longrightarrow> decode_view L (entry_view L i e) = Inr (entry_sync i e)"
  by (simp add: decode_view_def entry_view_def entry_sync_def b64decode_def b64_ok_def ok_or_def rbind_def)

lemma server_entry_shows:
  assumes "shows_entries L (rs_secrets sn) m"
  shows "server_entry sn i = map_option (entry_view L i) (m i)"
proof -
  have d: "distinct (map sv_id (rs_secrets sn))" and f: "sql_find (\<lambda>v. sv_id v = i) (rs_secrets sn) = map_option (entry_view L i) (m i)"
    using assms by (simp_all add: shows_entries_def)
  have d': "distinct (map sv_id (rev (rs_secrets sn)))" using d by (simp add: rev_map [symmetric])
  have "server_entry sn i = Some v \<longleftrightarrow> sql_find (\<lambda>v. sv_id v = i) (rs_secrets sn) = Some v" for v
    unfolding server_entry_def
    using sql_find_Some_unique [OF d, of "\<lambda>v. sv_id v = i" i v] sql_find_Some_unique [OF d', of "\<lambda>v. sv_id v = i" i v] by simp
  then show ?thesis unfolding f by (metis option.exhaust)
qed

lemma merged_shows:
  assumes "b64_ok L"
  shows "merged L force l (map_option (entry_view L i) r) = (case r of
       None \<Rightarrow> l
     | Some e \<Rightarrow> if applies force l (entry_view L i e) then Some (entry_sync i e) else l)"
  using decode_entry_view [OF assms] by (auto simp: merged_def split: option.splits)

section \<open>What the uploaded changes make of the server's entries\<close>

lemma spec_change_other: "i \<noteq> ch_id c \<Longrightarrow> spec_change L m c i = m i"
  by (auto simp: spec_change_def split: change_op.splits option.splits)

lemma spec_change_local: "m i = m' i \<Longrightarrow> spec_change L m c i = spec_change L m' c i"
  by (cases "i = ch_id c") (auto simp: spec_change_def split: change_op.splits option.splits)

lemma foldl_spec_other: "i \<notin> ch_id ` set cs \<Longrightarrow> foldl (spec_change L) m cs i = m i"
  by (induction cs arbitrary: m) (simp_all add: spec_change_other)

lemma foldl_spec_change:
  assumes "distinct (map ch_id cs)" and "c \<in> set cs"
  shows "foldl (spec_change L) m cs (ch_id c) = spec_change L m c (ch_id c)"
  using assms
proof (induction cs arbitrary: m)
  case (Cons d cs)
  show ?case
  proof (cases "c = d")
    case True
    then show ?thesis using Cons.prems by (simp add: foldl_spec_other)
  next
    case False
    then have c: "c \<in> set cs" using Cons.prems by simp
    have "ch_id d \<notin> ch_id ` set cs" using Cons.prems(1) by simp
    with imageI [OF c, of ch_id] have "ch_id c \<noteq> ch_id d" by metis
    with c show ?thesis using Cons.IH [of "spec_change L m d"] Cons.prems(1)
      by (simp add: spec_change_local [of "spec_change L m d" "ch_id c" m] spec_change_other)
  qed
qed simp

lemma distinct_diff: "local_ok st \<Longrightarrow> distinct (map ch_id (diff L env sn st))"
proof -
  assume "local_ok st"
  then have "distinct (map ss_id (all_secrets env st))" by (rule all_secrets_ids)
  moreover have "distinct (map ss_id ss) \<Longrightarrow> distinct (map ch_id (List.map_filter (\<lambda>s. change_for L (f s) s) ss))" for ss and f :: "sync_secret \<Rightarrow> secret_view option"
  proof (induction ss)
    case (Cons a ss)
    let ?cs = "List.map_filter (\<lambda>s. change_for L (f s) s) ss"
    have fresh: "ss_id a \<notin> ch_id ` set ?cs"
    proof
      assume "ss_id a \<in> ch_id ` set ?cs"
      then obtain c where c: "ss_id a = ch_id c" "c \<in> set ?cs" by (rule imageE)
      then obtain s where s: "s \<in> set ss" "change_for L (f s) s = Some c" by (auto simp: List.map_filter_def)
      have "ss_id a = ss_id s" using c(1) change_for_id [OF s(2)] by simp
      with imageI [OF s(1), of ss_id] Cons.prems show False by simp
    qed
    then show ?case using Cons by (cases "change_for L (f a) a") (simp_all add: map_filter_simps change_for_id)
  qed (simp add: map_filter_simps)
  ultimately show ?thesis by (simp add: diff_def)
qed

lemma diff_result:
  assumes "local_ok st"
  shows "foldl (spec_change L) m (diff L env sn st) i = (case find_local env i st of
       None \<Rightarrow> m i
     | Some s \<Rightarrow> (case change_for L (server_entry sn i) s of None \<Rightarrow> m i | Some c \<Rightarrow> spec_change L m c i))"
proof (cases "\<exists>c. c \<in> set (diff L env sn st) \<and> ch_id c = i")
  case True
  then obtain c where c: "c \<in> set (diff L env sn st)" "ch_id c = i" by blast
  then show ?thesis using foldl_spec_change [OF distinct_diff [OF assms] c(1)] diff_iff [OF assms, of c] by auto
next
  case False
  then have "i \<notin> ch_id ` set (diff L env sn st)" by auto
  moreover have "change_for L (server_entry sn i) s = None" if "find_local env i st = Some s" for s
  proof (rule ccontr)
    assume "change_for L (server_entry sn i) s \<noteq> None"
    then obtain c where c: "change_for L (server_entry sn i) s = Some c" by blast
    have "ss_id s = i" using that by (auto simp: find_local_def sync_of_def dest: sql_find_SomeD)
    with change_for_id [OF c] c that False diff_iff [OF assms, of c] show False by auto
  qed
  ultimately show ?thesis by (auto simp: foldl_spec_other split: option.splits)
qed

section \<open>One secret through a push\<close>

lemma payload_encode: "b64_ok L \<Longrightarrow> payload L (Some (b64encode L bs)) = bs"
  by (simp add: payload_def b64encode_def b64_ok_def)

lemma set_change_result:
  assumes "b64_ok L" and "ss_id s = i"
  shows "entry_live (spec_change L m (set_change L s) i) = Some (ss_version s, ss_name s, ss_value s, ss_key s)"
  using assms(2) by (simp add: set_change_def change_set_def spec_change_def payload_encode [OF assms(1)])

lemma delete_change_result: "m i = Some e \<Longrightarrow> entry_live (spec_change L m (change_delete i) i) = None"
  by (simp add: change_delete_def spec_change_def)

definition sync_authored :: "authors \<Rightarrow> string \<Rightarrow> sync_secret option \<Rightarrow> bool" where
  "sync_authored au i l \<longleftrightarrow> (\<forall>s. l = Some s \<longrightarrow> (ss_name s, ss_value s, ss_key s) = au i (ss_version s))"

lemma merged_authored:
  assumes "b64_ok L" and "sync_authored au i l" and "server_authored au m"
  shows "sync_authored au i (merged L force l (map_option (entry_view L i) (m i)))"
  using assms(2,3) unfolding merged_shows [OF assms(1)]
  by (auto simp: sync_authored_def server_authored_def entry_sync_def split: option.splits)

lemma push_one_secret:
  assumes b64: "b64_ok L" and l: "sync_authored au i l" and m: "server_authored au m"
    and l': "l' = merged L False l (map_option (entry_view L i) (m i))" and ids: "\<And>s. l' = Some s \<Longrightarrow> ss_id s = i"
  shows "sync_live l' = entry_live (case l' of None \<Rightarrow> m i
      | Some s \<Rightarrow> (case change_for L (map_option (entry_view L i) (m i)) s of None \<Rightarrow> m i | Some c \<Rightarrow> spec_change L m c i))"
proof (cases "m i")
  case None
  then have l'l: "l' = l" by (simp add: l' merged_def)
  show ?thesis
  proof (cases l')
    case (Some s)
    then show ?thesis using ids set_change_result [OF b64] None by (auto simp: change_for_def)
  qed (simp add: None)
next
  case (Some e)
  have e: "(en_name e, en_value e, en_data_key e) = au i (en_version e)" using m Some by (simp add: server_authored_def)
  show ?thesis
  proof (cases "applies False l (entry_view L i e)")
    case True
    then have "l' = Some (entry_sync i e)" using merged_shows [OF b64, of False l i "Some e"] by (simp add: l' Some)
    then show ?thesis
      by (simp add: Some change_for_def entry_view_def entry_sync_def)
  next
    case False
    then have "l' = l" using merged_shows [OF b64, of False l i "Some e"] by (simp add: l' Some)
    moreover from False obtain s where s: "l = Some s" by (cases l) (auto simp: applies_def)
    ultimately have l's: "l' = Some s" and id: "ss_id s = i" using ids by auto
    have version: "en_version e < ss_version s \<or> (en_version e = ss_version s \<and> (en_deleted e \<longrightarrow> ss_deleted s))"
      using False by (auto simp: s applies_def entry_view_def)
    have same: "(ss_name s, ss_value s, ss_key s) = (en_name e, en_value e, en_data_key e)" if "en_version e = ss_version s"
      using l e that by (simp add: sync_authored_def s)
    show ?thesis
      using version same set_change_result [OF b64 id, of m] delete_change_result [of m i e L, OF Some]
      by (auto simp: l's Some change_for_def entry_view_def id)
  qed
qed

lemma set_synced_state:
  assumes "set_synced_revision env rv st = Inr st'"
  shows "synced_revision env st' = rv" and "find_local env' i st' = find_local env' i st"
proof -
  have st': "st' = st\<lparr>st_synced := sql_insert \<lparr>sy_env = env, sy_revision = rv\<rparr> (sql_delete (\<lambda>y. sy_env y = env) (st_synced st))\<rparr>"
    using assms by (auto simp: set_synced_revision_def rbind_eq_Inr_iff)
  have "sql_find (\<lambda>y. sy_env y = env) (sql_delete (\<lambda>y. sy_env y = env) (st_synced st)) = None"
    by (simp add: sql_find_None_iff)
  then show "synced_revision env st' = rv" by (simp add: synced_revision_def st' sql_find_insert)
  show "find_local env' i st' = find_local env' i st" by (simp add: find_local_def st')
qed

lemma adopt_rotation_state:
  assumes "adopt_rotation L A env grant (st, w) = (Inr rotated, st', w')"
  obtains r where "api_get_grant A env w = (Inr r, w')"
    "\<not> rotated \<and> st' = st \<or> rotated \<and> (\<exists>key. update_env_vault_key env key st = Inr st')"
proof -
  from assms obtain answer t where req: "api_get_grant A env w = (Inr answer, snd t)" "fst t = st"
    and rest: "(case answer of None \<Rightarrow> sret False | Some b64 \<Rightarrow> sbind (lift (b64decode L b64)) (\<lambda>key.
         if key = grant then sret False else sbind (modify (update_env_vault_key env key)) (\<lambda>_. sret True))) t = (Inr rotated, st', w')"
    unfolding adopt_rotation_def sbind_Inr request_Inr by auto
  show thesis
  proof (cases answer)
    case None
    with req rest show thesis by (intro that [of answer]) auto
  next
    case (Some b64)
    with rest have "sbind (lift (b64decode L b64)) (\<lambda>key. if key = grant then sret False
        else sbind (modify (update_env_vault_key env key)) (\<lambda>_. sret True)) t = (Inr rotated, st', w')" by simp
    then obtain key where "(if key = grant then sret False else sbind (modify (update_env_vault_key env key)) (\<lambda>_. sret True)) t = (Inr rotated, st', w')"
      unfolding sbind_Inr [of "lift _"] by auto
    with req show thesis by (intro that [of answer]) (auto simp: sbind_Inr modify_Inr split: if_splits)
  qed
qed

lemma update_env_vault_key_state:
  assumes "update_env_vault_key e key st = Inr st'"
  shows "find_local env i st' = find_local env i st" and "synced_revision env st' = synced_revision env st"
  using assms by (auto simp: update_env_vault_key_def rbind_eq_Inr_iff find_local_def synced_revision_def)

lemma check_grant_state:
  assumes "check_grant L A org_id e (st, w) = (Inr (), st', w')"
  shows "st' = st \<and> (org_id = None \<and> w' = w \<or> (\<exists>r. api_get_grant A (le_id e) w = (r, w')))"
proof (cases org_id)
  case None
  with assms show ?thesis by (auto simp: check_grant_def sbind_Inr split: if_splits)
next
  case (Some og)
  with assms obtain changed t where "grant_changed L A (le_id e) (le_key e) (st, w) = (Inr changed, t)" and t: "t = (st', w')"
    unfolding check_grant_def sbind_Inr by (auto split: if_splits)
  then obtain answer u where "api_get_grant A (le_id e) w = (Inr answer, snd u)" "fst u = st"
    "(case answer of Some b64 \<Rightarrow> sbind (lift (b64decode L b64)) (\<lambda>g. sret (g \<noteq> le_key e)) | None \<Rightarrow> sret True) u = (Inr changed, t)"
    unfolding grant_changed_def sbind_Inr request_Inr by auto
  then show ?thesis using t by (cases answer) (auto simp: sbind_Inr)
qed

section \<open>The laws of a sync service\<close>

text \<open>
  What a push relies on: for one environment the service keeps entries and a revision; a snapshot
  shows both, a write is applied to the revision it was made for and to no other, and between
  requests the entries change only with the revision.
\<close>

locale sync_service =
  fixes A :: "'w api" and L :: lib and au :: authors and env :: string
    and view :: "'w \<Rightarrow> string \<Rightarrow> secret_entry option" and revision :: "'w \<Rightarrow> int" and good :: "'w \<Rightarrow> bool"
  assumes codec: "good w \<Longrightarrow> b64_ok L"
    and authored: "good w \<Longrightarrow> server_authored au (view w)"
    and snapshots: "good w \<Longrightarrow> api_snapshot A env None w = (r, w') \<Longrightarrow> good w' \<and>
      (\<forall>sn. r = Inr (Some sn) \<longrightarrow> rs_revision sn = revision w' \<and> shows_entries L (rs_secrets sn) (view w'))"
    and grants: "good w \<Longrightarrow> api_get_grant A env w = (g, w') \<Longrightarrow>
      good w' \<and> revision w \<le> revision w' \<and> (revision w' = revision w \<longrightarrow> view w' = view w)"
    and writes_applied: "good w \<Longrightarrow> api_write_secrets A env b w = (Inr rv, w') \<Longrightarrow>
      \<exists>w1. revision w \<le> revision w1 \<and> (revision w1 = revision w \<longrightarrow> view w1 = view w) \<and> revision w1 = bt_base b \<and>
        view w' = foldl (spec_change L) (view w1) (bt_changes b) \<and> revision w' = rv"
    and writes_refused: "good w \<Longrightarrow> api_write_secrets A env b w = (Inl (CliConflict m), w') \<Longrightarrow> good w'"
begin

text \<open>The state of a device that is in step with the service at a revision.\<close>

definition in_step :: "local_store \<Rightarrow> int \<Rightarrow> 'w \<Rightarrow> bool" where
  "in_step st rv w \<longleftrightarrow> local_ok st \<and> synced_revision env st = rv \<and> rv \<le> revision w \<and>
     (revision w = rv \<longrightarrow> local_live env st = server_live (view w))"

lemma fast_forward_state:
  assumes run: "fast_forward L A env (st, w) = (Inr sn, st', w')" and good: "good w" and ok: "local_ok st" and au: "local_authored au env st"
  shows "good w'" and "rs_revision sn = revision w'" and "shows_entries L (rs_secrets sn) (view w')" and "local_ok st'"
    and "find_local env i st' = merged L False (find_local env i st) (map_option (entry_view L i) (view w' i))"
    and "synced_revision env st' = rs_revision sn" and "local_authored au env st'"
proof -
  from run obtain answer st1 where snap: "api_snapshot A env None w = (Inr (Some sn), w')"
    and entries: "apply_entries L env False (rs_secrets sn) st = (Inr (), st1)"
    and sync: "set_synced_revision env (rs_revision sn) st1 = Inr st'"
    unfolding fast_forward_def apply_snapshot_def
    by (auto simp: sbind_Inr request_Inr run_local_Inr modify_Inr ok_or_def split: option.splits)
  from snapshots [OF good snap] show g: "good w'" "rs_revision sn = revision w'" and sh: "shows_entries L (rs_secrets sn) (view w')" by auto
  have ok1: "local_ok st1" using apply_entries_writes [OF entries] store_writes_ok ok by blast
  show ok': "local_ok st'" by (rule store_write_ok [OF store_write.synced [OF sync] ok1])
  have same: "find_local env i st' = find_local env i st1" for i
    by (rule set_synced_state(2) [OF sync])
  show state: "find_local env i st' = merged L False (find_local env i st) (map_option (entry_view L i) (view w' i))" for i
    using apply_entries_state [OF entries, of i] sh by (simp add: same shows_entries_def)
  show "synced_revision env st' = rs_revision sn"
    by (rule set_synced_state(1) [OF sync])
  show "local_authored au env st'"
    unfolding local_authored_def
  proof (intro allI impI)
    fix i s
    assume s: "find_local env i st' = Some s"
    have "sync_authored au i (find_local env i st)" using au by (simp add: local_authored_def sync_authored_def)
    from merged_authored [OF codec [OF g(1)] this authored [OF g(1)], of False] s
    show "(ss_name s, ss_value s, ss_key s) = au i (ss_version s)" by (simp add: state sync_authored_def)
  qed
qed

lemma diff_shows:
  assumes "fast_forward L A env (st, w) = (Inr sn, st', w')" and "good w" and "local_ok st" and "local_authored au env st"
  shows "local_live env st' = server_live (foldl (spec_change L) (view w') (diff L env sn st'))"
proof
  fix i
  note ff = fast_forward_state [OF assms]
  have "ss_id s = i" if "find_local env i st' = Some s" for s
    using that by (auto simp: find_local_def sync_of_def dest: sql_find_SomeD)
  moreover have "sync_authored au i (find_local env i st)" using assms(4) by (simp add: local_authored_def sync_authored_def)
  ultimately show "local_live env st' i = server_live (foldl (spec_change L) (view w') (diff L env sn st')) i"
    unfolding local_live_def server_live_def diff_result [OF ff(4)] server_entry_shows [OF ff(3)]
    using push_one_secret [OF codec [OF ff(1)] _ authored [OF ff(1)] ff(5)] by blast
qed

lemma forced_state:
  assumes b64: "b64_ok L" and "apply_entries L env True (rs_secrets sn) st = (Inr (), st')" and "shows_entries L (rs_secrets sn) m"
    and "local_live env st = server_live m"
  shows "local_live env st' = server_live m"
proof
  fix i
  note assms = assms(2-4)
  have "find_local env i st' = merged L True (find_local env i st) (map_option (entry_view L i) (m i))"
    using apply_entries_state [OF assms(1), of i] assms(2) by (simp add: shows_entries_def)
  then have "find_local env i st' = (case m i of None \<Rightarrow> find_local env i st | Some e \<Rightarrow> Some (entry_sync i e))"
    by (simp add: merged_shows [OF b64] applies_def split: option.split)
  then show "local_live env st' i = server_live m i"
    using fun_cong [OF assms(3), of i] by (cases "m i") (simp_all add: local_live_def server_live_def entry_sync_def)
qed

lemma finish_unchanged_in_step:
  assumes run: "finish_unchanged L A org_id e sn (st, w) = (Inr rv, st', w')" and e: "le_id e = env" and good: "good w"
    and ok: "local_ok st" and sh: "shows_entries L (rs_secrets sn) (view w)" and rev: "rs_revision sn = revision w"
    and synced: "synced_revision env st = rs_revision sn" and live: "local_live env st = server_live (view w)"
  shows "in_step st' rv w'"
proof (cases org_id)
  case None
  with run assms(3-) show ?thesis by (auto simp: finish_unchanged_def sbind_Inr in_step_def)
next
  case (Some og)
  with run e obtain rotated st1 w1 t where adopt: "adopt_rotation L A env (le_key e) (st, w) = (Inr rotated, st1, w1)"
    and last: "(if rotated then apply_snapshot L env sn True else sret ()) (st1, w1) = (Inr (), t)" "t = (st', w')" "rv = rs_revision sn"
    unfolding finish_unchanged_def sbind_Inr by auto
  from adopt obtain r where grant: "api_get_grant A env w = (Inr r, w1)"
    and st1: "\<not> rotated \<and> st1 = st \<or> rotated \<and> (\<exists>key. update_env_vault_key env key st = Inr st1)" by (rule adopt_rotation_state)
  from last have w1: "w1 = w'" by (auto simp: apply_snapshot_def run_local_Inr split: if_splits)
  from grants [OF good grant] have later: "revision w \<le> revision w'" "revision w' = revision w \<Longrightarrow> view w' = view w" by (auto simp: w1)
  have st1_same: "find_local env i st1 = find_local env i st" "synced_revision env st1 = synced_revision env st" for i
    using st1 update_env_vault_key_state by blast+
  have ok1: "local_ok st1" using st1 ok store_write_ok store_write.vault_key by blast
  have live1: "local_live env st1 = server_live (view w)" using live by (simp add: fun_eq_iff local_live_def st1_same)
  have "local_ok st' \<and> synced_revision env st' = rs_revision sn \<and> local_live env st' = server_live (view w)"
  proof (cases rotated)
    case True
    with last have entries: "apply_entries L env True (rs_secrets sn) st1 = (Inr (), st')" by (auto simp: apply_snapshot_def run_local_Inr)
    from apply_entries_writes [OF entries] store_writes_ok [of st1 st'] ok1 forced_state [OF codec [OF good] entries sh live1] synced show ?thesis
      by (auto simp: synced_revision_def st1_same(2) [unfolded synced_revision_def])
  next
    case False
    with last ok1 live1 st1_same synced show ?thesis by auto
  qed
  with later last(3) rev show ?thesis by (auto simp: in_step_def)
qed

lemma push_attempts_in_step:
  "push_attempts L A org_id e n (st, w) = (Inr rv, st', w') \<Longrightarrow> le_id e = env \<Longrightarrow> good w \<Longrightarrow> local_ok st \<Longrightarrow>
     local_authored au env st \<Longrightarrow> in_step st' rv w'"
proof (induction n arbitrary: st w)
  case (Suc n)
  obtain sn t where "fast_forward L A env (st, w) = (Inr sn, t)"
    and "sbind (look (diff L env sn)) (\<lambda>changes. if changes = [] then finish_unchanged L A org_id e sn
      else sbind (check_grant L A org_id e) (\<lambda>_. upload A env \<lparr>bt_base = rs_revision sn, bt_changes = changes\<rparr>
        (push_attempts L A org_id e n))) t = (Inr rv, st', w')"
    using Suc.prems(1) unfolding push_attempts.simps Suc.prems(2) sbind_Inr [of "fast_forward L A env"] by blast
  moreover obtain st1 w1 where "t = (st1, w1)" by (cases t)
  ultimately have ff: "fast_forward L A env (st, w) = (Inr sn, st1, w1)"
    and rest: "(if diff L env sn st1 = [] then finish_unchanged L A org_id e sn
      else sbind (check_grant L A org_id e) (\<lambda>_. upload A env \<lparr>bt_base = rs_revision sn, bt_changes = diff L env sn st1\<rparr>
        (push_attempts L A org_id e n))) (st1, w1) = (Inr rv, st', w')"
    by (simp_all add: sbind_def [of "look _"] look_def)
  note ffs = fast_forward_state [OF ff Suc.prems(3-5)] and mirror = diff_shows [OF ff Suc.prems(3-5)]
  show ?case
  proof (cases "diff L env sn st1 = []")
    case True
    with rest mirror show ?thesis
      by (intro finish_unchanged_in_step [OF _ Suc.prems(2) ffs(1,4,3,2,6)]) auto
  next
    case False
    let ?b = "\<lparr>bt_base = rs_revision sn, bt_changes = diff L env sn st1\<rparr>"
    from False rest obtain st2 w2 where check: "check_grant L A org_id e (st1, w1) = (Inr (), st2, w2)"
      and upl: "upload A env ?b (push_attempts L A org_id e n) (st2, w2) = (Inr rv, st', w')"
      by (auto simp: sbind_Inr)
    from check_grant_state [OF check] Suc.prems(2) grants [OF ffs(1)] ffs(1)
    have w2: "st2 = st1" "good w2" "revision w1 \<le> revision w2" "revision w2 = revision w1 \<Longrightarrow> view w2 = view w1" by auto
    obtain r w3 where api: "api_write_secrets A env ?b w2 = (r, w3)" by (cases "api_write_secrets A env ?b w2")
    show ?thesis
    proof (cases r)
      case (Inl err)
      with upl api obtain m where m: "err = CliConflict m" "push_attempts L A org_id e n (st1, w3) = (Inr rv, st', w')"
        by (cases err) (auto simp: upload_def request_def w2(1))
      have "good w3" by (rule writes_refused [OF w2(2) api [unfolded Inl m(1)]])
      with m(2) show ?thesis using Suc.IH Suc.prems(2) ffs(4,7) by blast
    next
      case (Inr rv')
      with upl api have rv: "rv' = rv" "w3 = w'" and sync: "set_synced_revision env rv st1 = Inr st'"
        by (auto simp: upload_def request_def w2(1) sbind_Inr modify_Inr)
      from writes_applied [OF w2(2) api [unfolded Inr rv]] obtain wx where wx: "revision w2 \<le> revision wx"
        "revision wx = revision w2 \<Longrightarrow> view wx = view w2" "revision wx = rs_revision sn"
        "view w' = foldl (spec_change L) (view wx) (diff L env sn st1)" "revision w' = rv" by auto
      then have "view wx = view w1" using ffs(2) w2(3,4) by simp
      with wx mirror have "local_live env st1 = server_live (view w')" by simp
      with set_synced_state [OF sync] wx(5) store_write_ok [OF store_write.synced [OF sync] ffs(4)] show ?thesis
        by (simp add: in_step_def fun_eq_iff local_live_def)
    qed
  qed
qed simp

end

section \<open>The server is a sync service\<close>

lemma upsert_ids:
  assumes "distinct (map s_id (secrets db))" and "upsert_secret env i name val key version db = (n, db')"
  shows "distinct (map s_id (secrets db'))"
proof (cases "find_secret db i")
  case None
  then have "\<forall>r \<in> set (secrets db). s_id r \<noteq> i" by (simp add: find_secret_def sql_find_None_iff)
  with None assms show ?thesis by (auto simp: upsert_secret_def distinct_sql_insert)
next
  case (Some s)
  with assms show ?thesis by (auto simp: upsert_secret_def keys_sql_update split: if_splits)
qed

lemma apply_change_ids:
  assumes "apply_change L now env db c = Inr db'" and "distinct (map s_id (secrets db))"
  shows "distinct (map s_id (secrets db'))"
proof (cases "ch_op c")
  case Set
  with assms(1) have "apply_set L env c db = Inr db'" by (simp add: apply_change_def rbind_eq_Inr_iff)
  then have "\<exists>name val key. secrets db' = secrets (snd (upsert_secret env (ch_id c) name val key (ch_version c) db))"
    unfolding apply_set_def Let_def case_prod_beta rbind_eq_Inr_iff by auto blast
  then show ?thesis using upsert_ids [OF assms(2) surjective_pairing] by metis
next
  case Delete
  with assms show ?thesis by (auto simp: apply_change_def apply_delete_def rbind_eq_Inr_iff keys_sql_update)
qed

lemma apply_changes_ids:
  "fold_result (apply_change L now env) db cs = Inr db' \<Longrightarrow> distinct (map s_id (secrets db)) \<Longrightarrow> distinct (map s_id (secrets db'))"
proof (induction cs arbitrary: db)
  case (Cons c cs)
  then show ?case by (auto simp: rbind_eq_Inr_iff dest: apply_change_ids)
qed simp

lemma write_secrets_ids:
  assumes "write_secrets L now user env base cs db0 db = (r, db')" and "distinct (map s_id (secrets db))"
  shows "distinct (map s_id (secrets db'))"
proof (cases r)
  case (Inl e)
  with assms write_secrets_failed show ?thesis by blast
next
  case (Inr p)
  obtain tag rv where "p = (tag, rv)" by (cases p)
  with Inr assms(1) have "write_secrets L now user env base cs db0 db = (Inr (tag, rv), db')" by simp
  then obtain project acc where "write_secrets_tx L now acc user env base cs db = Inr (rv, db')" by (rule write_secrets_committed)
  then obtain db1 where "fold_result (apply_change L now env) db cs = Inr db1" "secrets db' = secrets db1" by (rule write_secrets_tx_committed)
  with apply_changes_ids assms(2) show ?thesis by metis
qed

text \<open>The contents of the changes somebody else makes.\<close>

definition changes_authored :: "lib \<Rightarrow> authors \<Rightarrow> change list \<Rightarrow> bool" where
  "changes_authored L au cs \<longleftrightarrow> (\<forall>c \<in> set cs. is_set c \<longrightarrow>
     (payload L (ch_enc_name c), payload L (ch_enc_value c), payload L (ch_enc_data_key c)) = au (ch_id c) (ch_version c))"

lemma spec_change_authored:
  assumes "server_authored au m" and "changes_authored L au [c]"
  shows "server_authored au (spec_change L m c)"
  using assms unfolding server_authored_def changes_authored_def
  by (auto simp: spec_change_def is_set_def split: change_op.splits option.splits)

lemma spec_changes_authored:
  "server_authored au m \<Longrightarrow> changes_authored L au cs \<Longrightarrow> server_authored au (foldl (spec_change L) m cs)"
proof (induction cs arbitrary: m)
  case (Cons c cs)
  then have "server_authored au (spec_change L m c)" by (intro spec_change_authored) (simp_all add: changes_authored_def)
  then show ?case using Cons by (simp add: changes_authored_def)
qed simp

definition revision_at :: "string \<Rightarrow> db \<Rightarrow> int" where
  "revision_at env db = (case env_revision db env of Inl _ \<Rightarrow> 0 | Inr rv \<Rightarrow> rv)"

definition others_authored :: "lib \<Rightarrow> authors \<Rightarrow> string \<Rightarrow> other_write list \<Rightarrow> bool" where
  "others_authored L au env os \<longleftrightarrow> (\<forall>ow \<in> set os. ow_env ow = env \<longrightarrow> changes_authored L au (ow_changes ow))"

definition db_good :: "authors \<Rightarrow> string \<Rightarrow> db \<Rightarrow> bool" where
  "db_good au env db \<longleftrightarrow> distinct (map s_id (secrets db)) \<and> server_authored au (abs_env db env)"

definition service_good :: "lib \<Rightarrow> authors \<Rightarrow> string \<Rightarrow> world \<Rightarrow> bool" where
  "service_good L au env w \<longleftrightarrow> b64_ok L \<and> db_good au env (wd_db w) \<and> (\<forall>t \<in> set (wd_turns w). others_authored L au env (tn_others t))"

text \<open>Entries change only with the revision.\<close>

definition later :: "string \<Rightarrow> db \<Rightarrow> db \<Rightarrow> bool" where
  "later env db db' \<longleftrightarrow> revision_at env db \<le> revision_at env db' \<and>
     (revision_at env db' = revision_at env db \<longrightarrow> abs_env db' env = abs_env db env)"

lemma later_refl [simp]: "later env db db" by (simp add: later_def)

lemma later_trans: "later env a b \<Longrightarrow> later env b c \<Longrightarrow> later env a c"
  by (auto simp: later_def)

lemma other_step_good:
  assumes "db_good au env db" and "others_authored L au env [ow]"
  shows "db_good au env (other_step L db ow) \<and> later env db (other_step L db ow)"
proof -
  let ?r = "write_secrets L (ow_now ow) (ow_user ow) (ow_env ow) (ow_base ow) (ow_changes ow) db db"
  obtain r db' where run: "?r = (r, db')" by (cases ?r)
  have ids: "distinct (map s_id (secrets db'))" using write_secrets_ids [OF run] assms(1) by (simp add: db_good_def)
  show ?thesis
  proof (cases r)
    case (Inl e)
    have "db' = db" by (rule write_secrets_failed [OF run [unfolded Inl]])
    with run assms(1) show ?thesis by (simp add: other_step_def)
  next
    case (Inr p)
    obtain tag rv where "p = (tag, rv)" by (cases p)
    with Inr run have "?r = (Inr (tag, rv), db')" by simp
    note st = write_secrets_state [OF this]
    show ?thesis
    proof (cases "ow_env ow = env")
      case True
      have "server_authored au (abs_env db' env)"
        using spec_changes_authored [of au "abs_env db env" L "ow_changes ow"] assms st(5) True
        by (simp add: db_good_def others_authored_def)
      moreover have "revision_at env db < revision_at env db'" using st(1,2,4) True by (simp add: revision_at_def)
      ultimately show ?thesis using ids by (simp add: other_step_def run db_good_def later_def)
    next
      case False
      then have "abs_env db' env = abs_env db env" "revision_at env db' = revision_at env db"
        using st(4,6) by (simp_all add: revision_at_def)
      then show ?thesis using ids assms(1) by (simp add: other_step_def run db_good_def later_def)
    qed
  qed
qed

lemma others_good:
  "db_good au env db \<Longrightarrow> others_authored L au env os \<Longrightarrow>
     db_good au env (foldl (other_step L) db os) \<and> later env db (foldl (other_step L) db os)"
proof (induction os arbitrary: db)
  case (Cons ow os)
  then have "db_good au env (other_step L db ow) \<and> later env db (other_step L db ow)"
    by (intro other_step_good) (simp_all add: others_authored_def)
  with Cons.IH [of "other_step L db ow"] Cons.prems(2) show ?case by (auto simp: others_authored_def intro: later_trans)
qed simp

lemma others_first_good:
  assumes "service_good L au env w"
  shows "service_good L au env (others_first L w)" and "later env (wd_db w) (wd_db (others_first L w))"
proof -
  have "others_authored L au env (tn_others (next_turn w))"
    using assms by (cases "wd_turns w") (auto simp: next_turn_def service_good_def others_authored_def)
  with others_good [of au env "wd_db w" L "tn_others (next_turn w)"] assms
  show "service_good L au env (others_first L w)" "later env (wd_db w) (wd_db (others_first L w))"
    by (cases "wd_turns w"; simp add: service_good_def others_first_def)+
qed

lemma secret_views_show:
  assumes "distinct (map s_id (secrets db))"
  shows "shows_entries L (secret_views L db env) (abs_env db env)"
proof -
  let ?rows = "sort_key s_id (sql_select (\<lambda>s. s_env s = env) (secrets db))"
  have ids: "map sv_id (secret_views L db env) = map s_id ?rows" by (simp add: secret_views_def comp_def)
  have "distinct (map s_id (sql_select (\<lambda>s. s_env s = env) (secrets db)))" using assms by (simp add: sql_select_def distinct_map_filter)
  then have d: "distinct (map sv_id (secret_views L db env))" unfolding ids by (simp add: distinct_map)
  have find: "find_secret db i = Some s \<longleftrightarrow> s \<in> set (secrets db) \<and> s_id s = i" for i s
    unfolding find_secret_def by (rule sql_find_Some_iff_distinct [OF assms]) simp
  have "sql_find (\<lambda>v. sv_id v = i) (secret_views L db env) = map_option (entry_view L i) (abs_env db env i)" for i
  proof (cases "abs_env db env i")
    case None
    have "sv_id v \<noteq> i" if v: "v \<in> set (secret_views L db env)" for v
    proof
      assume "sv_id v = i"
      with v obtain s where "s \<in> set (secrets db)" "s_env s = env" "s_id s = i" by (auto simp: secret_views_def)
      with find [of i s] None show False by (simp add: abs_env_def)
    qed
    with None show ?thesis by (simp add: sql_find_None_iff)
  next
    case (Some e)
    then obtain s where s: "find_secret db i = Some s" "s_env s = env" "e = entry_of s"
      by (auto simp: abs_env_def split: option.splits if_splits)
    then have "s \<in> set (secrets db)" "s_id s = i" using find by auto
    with s have "entry_view L i e \<in> set (secret_views L db env)"
      by (auto simp: secret_views_def entry_view_def entry_of_def encoding_encode_def)
    with sql_find_Some_unique [OF d, of "\<lambda>v. sv_id v = i" i "entry_view L i e"] Some show ?thesis by (simp add: entry_view_def)
  qed
  with d show ?thesis by (simp add: shows_entries_def)
qed

text \<open>What a request that does not touch the environment's secrets leaves behind.\<close>

lemma exchange_good:
  assumes run: "exchange L answer f w = (r, w')" and good: "service_good L au env w"
    and keeps: "\<And>db0 db x db'. f db0 db = (x, db') \<Longrightarrow> db_good au env db \<Longrightarrow> db_good au env db'"
  shows "service_good L au env w'"
proof -
  let ?w1 = "others_first L w"
  note g = others_first_good(1) [OF good]
  obtain x db' where f: "f (wd_db w) (wd_db ?w1) = (x, db')" by (cases "f (wd_db w) (wd_db ?w1)")
  have "service_good L au env (?w1\<lparr>wd_db := db'\<rparr>)" using g keeps [OF f] by (simp add: service_good_def)
  then show ?thesis using run g f by (auto simp: exchange_def Let_def split: delivery.splits)
qed

lemma exchange_answer:
  assumes "exchange L answer f w = (Inr a, w')"
  obtains x where "answer x = Inr a" "f (wd_db w) (wd_db (others_first L w)) = (x, wd_db w')" "wd_turns w' = tl (wd_turns w)"
  using assms by (auto simp: exchange_def Let_def others_first_def split: delivery.splits prod.splits)

lemma same_secrets_good: "secrets db' = secrets db \<Longrightarrow> db_good au env db' = db_good au env db"
  using abs_env_congD [of db' db] by (simp add: db_good_def)

lemma parse_response_Inr [simp]: "parse_response r = Inr x \<longleftrightarrow> r = Inr x"
  by (cases r) (simp_all add: parse_response_def map_err_def)

lemma snapshot_answer_Some:
  assumes "snapshot_answer (snapshot L db user env None) = Inr (Some sn)"
  shows "env_revision db env = Inr (rs_revision sn)" and "rs_secrets sn = secret_views L db env"
  using assms by (auto simp: snapshot_answer_def snapshot_def rbind_eq_Inr_iff)

lemma exchange_read:
  assumes run: "exchange L answer (\<lambda>db0 db. (g db, db)) w = (r, w')" and good: "service_good L au env w"
  shows "service_good L au env w'" and "later env (wd_db w) (wd_db w')" and "r = Inr a \<Longrightarrow> answer (g (wd_db w')) = Inr a"
proof -
  show "service_good L au env w'" by (rule exchange_good [OF run good]) simp
  have "wd_db w' = wd_db (others_first L w)" using run by (auto simp: exchange_def Let_def split: delivery.splits)
  with others_first_good(2) [OF good] show "later env (wd_db w) (wd_db w')" by simp
  show "r = Inr a \<Longrightarrow> answer (g (wd_db w')) = Inr a" using run by (auto elim: exchange_answer)
qed

lemma server_writes:
  assumes run: "exchange L write_answer (write_secrets L now user env (bt_base b) (bt_changes b)) w = (Inr rv, w')"
    and good: "service_good L au env w"
  shows "\<exists>w1 :: world. later env (wd_db w) (wd_db w1) \<and> revision_at env (wd_db w1) = bt_base b \<and>
    abs_env (wd_db w') env = foldl (spec_change L) (abs_env (wd_db w1) env) (bt_changes b) \<and> revision_at env (wd_db w') = rv"
proof -
  let ?w1 = "others_first L w"
  from run obtain x where x: "write_answer x = Inr rv"
    and "write_secrets L now user env (bt_base b) (bt_changes b) (wd_db w) (wd_db ?w1) = (x, wd_db w')" by (rule exchange_answer)
  moreover obtain tag where "x = Inr (tag, rv)" using x by (auto simp: write_answer_def rbind_eq_Inr_iff)
  ultimately have "write_secrets L now user env (bt_base b) (bt_changes b) (wd_db w) (wd_db ?w1) = (Inr (tag, rv), wd_db w')" by simp
  note st = write_secrets_state [OF this]
  then have "revision_at env (wd_db ?w1) = bt_base b" "revision_at env (wd_db w') = rv" by (simp_all add: revision_at_def)
  with others_first_good(2) [OF good] st(5) show ?thesis by (intro exI [of _ ?w1]) simp
qed

lemma server_write_refused:
  assumes run: "exchange L write_answer (write_secrets L now user env base cs) w = (Inl (CliConflict m), w')"
    and good: "service_good L au env w"
  shows "service_good L au env w'"
proof -
  let ?w1 = "others_first L w"
  obtain x db' where f: "write_secrets L now user env base cs (wd_db w) (wd_db ?w1) = (x, db')"
    by (cases "write_secrets L now user env base cs (wd_db w) (wd_db ?w1)")
  with run have x: "write_answer x = Inl (CliConflict m)" and w': "w' = ?w1\<lparr>wd_db := db'\<rparr>"
    by (auto simp: exchange_def Let_def lost_def split: delivery.splits)
  then obtain e where "x = Inl e" by (cases x) (auto simp: write_answer_def rbind_def parse_response_def map_err_def)
  then have "db' = wd_db ?w1" using f write_secrets_failed by blast
  then show ?thesis using others_first_good(1) [OF good] w' by (simp add: service_good_def)
qed

interpretation server: sync_service "http_client L now user" L au env "\<lambda>w. abs_env (wd_db w) env" "\<lambda>w. revision_at env (wd_db w)"
  "service_good L au env"
  for L now user au env
proof unfold_locales
  fix w
  assume good: "service_good L au env w"
  then show "b64_ok L" "server_authored au (abs_env (wd_db w) env)" by (simp_all add: service_good_def db_good_def)
  fix w'
  show "service_good L au env w' \<and> (\<forall>sn. r = Inr (Some sn) \<longrightarrow> rs_revision sn = revision_at env (wd_db w') \<and>
      shows_entries L (rs_secrets sn) (abs_env (wd_db w') env))"
    if "api_snapshot (http_client L now user) env None w = (r, w')" for r
  proof -
    have run: "exchange L snapshot_answer (\<lambda>db0 db. (snapshot L db user env None, db)) w = (r, w')" using that by (simp add: http_defs)
    note read = exchange_read [OF run good]
    have "distinct (map s_id (secrets (wd_db w')))" using read(1) by (simp add: service_good_def db_good_def)
    with read snapshot_answer_Some [of L "wd_db w'" user env] secret_views_show show ?thesis by (auto simp: revision_at_def)
  qed
  show "service_good L au env w' \<and> revision_at env (wd_db w) \<le> revision_at env (wd_db w') \<and>
      (revision_at env (wd_db w') = revision_at env (wd_db w) \<longrightarrow> abs_env (wd_db w') env = abs_env (wd_db w) env)"
    if "api_get_grant (http_client L now user) env w = (g, w')" for g
  proof -
    have "exchange L grant_answer (\<lambda>db0 db. (get_grant L db user env, db)) w = (g, w')" using that by (simp add: http_defs)
    from exchange_read [OF this good] show ?thesis by (auto simp: later_def)
  qed
  show "\<exists>w1 :: world. revision_at env (wd_db w) \<le> revision_at env (wd_db w1) \<and>
      (revision_at env (wd_db w1) = revision_at env (wd_db w) \<longrightarrow> abs_env (wd_db w1) env = abs_env (wd_db w) env) \<and>
      revision_at env (wd_db w1) = bt_base b \<and> abs_env (wd_db w') env = foldl (spec_change L) (abs_env (wd_db w1) env) (bt_changes b) \<and>
      revision_at env (wd_db w') = rv"
    if "api_write_secrets (http_client L now user) env b w = (Inr rv, w')" for b rv
  proof -
    have "exchange L write_answer (write_secrets L now user env (bt_base b) (bt_changes b)) w = (Inr rv, w')"
      using that by (simp add: http_defs)
    from server_writes [OF this good] show ?thesis unfolding later_def by blast
  qed
  show "service_good L au env w'" if "api_write_secrets (http_client L now user) env b w = (Inl (CliConflict m), w')" for b m
    using server_write_refused [of L now user env "bt_base b" "bt_changes b" w m w' au] that good by (simp add: http_defs)
qed

section \<open>A whole push\<close>

lemma put_account_secrets: "put_account L user bundle db = (r, db') \<Longrightarrow> secrets db' = secrets db"
  by (auto simp: put_account_def Let_def split: sum.splits if_splits)

lemma create_project_secrets: "create_project L now user i n og db0 db = (r, db') \<Longrightarrow> secrets db' = secrets db"
  by (cases "db' = db") (auto elim: create_project_effect)

lemma create_environment_secrets: "create_environment L user p i n k db0 db = (r, db') \<Longrightarrow> secrets db' = secrets db"
  by (cases "db' = db") (auto elim: create_environment_effect)

definition keeps_good :: "lib \<Rightarrow> authors \<Rightarrow> string \<Rightarrow> ('a, world) command \<Rightarrow> bool" where
  "keeps_good L au env m \<longleftrightarrow> (\<forall>s r s'. m s = (r, s') \<longrightarrow> service_good L au env (snd s) \<longrightarrow> fst s' = fst s \<and> service_good L au env (snd s'))"

lemma keeps_goodD:
  "keeps_good L au env m \<Longrightarrow> m s = (r, s') \<Longrightarrow> service_good L au env (snd s) \<Longrightarrow> fst s' = fst s \<and> service_good L au env (snd s')"
  unfolding keeps_good_def by blast

named_theorems keeps_intros

lemma keeps_good_sbind [keeps_intros]:
  assumes "keeps_good L au env m" and "\<And>a. keeps_good L au env (f a)"
  shows "keeps_good L au env (sbind m f)"
  unfolding keeps_good_def
proof (intro allI impI)
  fix s r s'
  assume run: "sbind m f s = (r, s')" and good: "service_good L au env (snd s)"
  obtain x t where m: "m s = (x, t)" by (cases "m s")
  from keeps_goodD [OF assms(1) m good] have t: "fst t = fst s" "service_good L au env (snd t)" by simp_all
  show "fst s' = fst s \<and> service_good L au env (snd s')"
  proof (cases x)
    case (Inr a)
    with run m have "f a t = (r, s')" by (simp add: sbind_def)
    from keeps_goodD [OF assms(2) this t(2)] t(1) show ?thesis by simp
  qed (use run m t in \<open>auto simp: sbind_def\<close>)
qed

lemma keeps_good_steps [keeps_intros]: "keeps_good L au env (sret a)" "keeps_good L au env (lift r)" "keeps_good L au env (look g)"
  by (auto simp: keeps_good_def command_defs)

lemma keeps_good_request:
  assumes "\<And>db0 db x db'. f db0 db = (x, db') \<Longrightarrow> secrets db' = secrets db"
  shows "keeps_good L au env (request (exchange L answer f))"
  unfolding keeps_good_def request_Inr
proof (intro allI impI)
  fix s r s'
  assume "exchange L answer f (snd s) = (r, snd s') \<and> fst s' = fst s" and good: "service_good L au env (snd s)"
  then have run: "exchange L answer f (snd s) = (r, snd s')" and "fst s' = fst s" by simp_all
  moreover have "service_good L au env (snd s')"
    by (rule exchange_good [OF run good]) (use assms same_secrets_good in blast)
  ultimately show "fst s' = fst s \<and> service_good L au env (snd s')" by simp
qed

lemma keeps_good_requests [keeps_intros]:
  "keeps_good L au env (request (api_put_account (http_client L now user) b))"
  "keeps_good L au env (request (api_create_project (http_client L now user) i n og))"
  "keeps_good L au env (request (api_create_environment (http_client L now user) p i n k))"
  "keeps_good L au env (request (api_list_orgs (http_client L now user)))"
  by (auto simp: http_defs put_account_secrets create_project_secrets create_environment_secrets intro!: keeps_good_request)

text \<open>A command that looks at another's outcome and keeps its state.\<close>

lemma keeps_good_outcome:
  assumes "keeps_good L au env m" and "\<And>s. snd (m' s) = snd (m s)"
  shows "keeps_good L au env m'"
  unfolding keeps_good_def
proof (intro allI impI)
  fix s r s'
  assume "m' s = (r, s')" and good: "service_good L au env (snd s)"
  with assms(2) [of s] obtain x where "m s = (x, s')" by (cases "m s") simp
  with keeps_goodD [OF assms(1) this good] show "fst s' = fst s \<and> service_good L au env (snd s')" by simp
qed

lemma keeps_ensure_account [keeps_intros]: "keeps_good L au env (ensure_account L (http_client L now user))"
proof -
  have "keeps_good L au env (\<lambda>s. case request (api_put_account (http_client L now user) b) s of
      (Inl (CliConflict e), s') \<Rightarrow> (Inr (), s') | other \<Rightarrow> other)" for b
    by (rule keeps_good_outcome [where m = "request (api_put_account (http_client L now user) b)"], rule keeps_good_requests)
      (auto split: prod.split sum.split cli_error.split)
  then show ?thesis unfolding ensure_account_def by (auto intro!: keeps_intros split: prod.split)
qed

lemma keeps_tolerate [keeps_intros]: "keeps_good L au env m \<Longrightarrow> keeps_good L au env (tolerate_org_forbidden org_id m)"
  by (rule keeps_good_outcome [where m = m], assumption) (auto simp: tolerate_org_forbidden_def split: prod.split sum.split cli_error.split)

lemma keeps_org_key [keeps_intros]: "keeps_good L au env (org_key L c (http_client L now user) kp og)"
  unfolding org_key_def by (intro keeps_intros) (auto intro!: keeps_intros split: option.split)

lemma keeps_name_key [keeps_intros]: "keeps_good L au env (name_key L c (http_client L now user) master org_id)"
  unfolding keeps_good_def
proof (intro allI impI)
  fix s r s'
  assume run: "name_key L c (http_client L now user) master org_id s = (r, s')" and good: "service_good L au env (snd s)"
  show "fst s' = fst s \<and> service_good L au env (snd s')"
  proof (cases "\<exists>og kp. org_id = Some og \<and> local_keypair c master (fst s) = Inr kp")
    case True
    then obtain og kp where k: "org_id = Some og" "local_keypair c master (fst s) = Inr kp" by blast
    obtain x t where m: "org_key L c (http_client L now user) kp og s = (x, t)" by (cases "org_key L c (http_client L now user) kp og s")
    with run k have "s' = t" by (auto simp: name_key_def split: sum.splits option.splits)
    with keeps_goodD [OF keeps_org_key m good] show ?thesis by simp
  next
    case False
    with run good show ?thesis by (auto simp: name_key_def split: sum.splits option.splits)
  qed
qed

lemma push_in_step:
  assumes run: "push L c nonces (http_client L now user) master cfg (st, w) = (Inr rv, st', w')"
    and env: "get_environment (cfg_project_id cfg) (cfg_environment cfg) st = Some e"
    and good: "service_good L au (le_id e) w" and ok: "local_ok st" and au: "local_authored au (le_id e) st"
  shows "server.in_step (le_id e) st' rv w'"
proof -
  let ?A = "http_client L now user"
  have "resolve_env cfg (st, w) = (Inr e, st, w)" using env by (simp add: resolve_env_def sbind_def look_def lift_def ok_or_def)
  with run obtain found p where "found = get_project (cfg_project_id cfg) st"
    and rest: "sbind (lift (ok_or found (CliNotFound (''project `'' @ cfg_project_id cfg @ ''`'')))) (\<lambda>p.
     sbind (ensure_account L ?A) (\<lambda>_.
     sbind (name_key L c ?A master (cfg_org_id cfg)) (\<lambda>key.
     sbind (ensure_project_env L c nonces ?A key (cfg_org_id cfg) p e) (\<lambda>_.
     push_attempts L ?A (cfg_org_id cfg) e MAX_SYNC_ATTEMPTS)))) (st, w) = (Inr rv, st', w')"
    unfolding push_def sbind_def [of "resolve_env cfg"] by (simp add: sbind_def [of "look _"] look_def)
  from rest obtain p key t where pre: "sbind (ensure_account L ?A) (\<lambda>_. sbind (name_key L c ?A master (cfg_org_id cfg)) (\<lambda>key.
      ensure_project_env L c nonces ?A key (cfg_org_id cfg) p e)) (st, w) = (Inr (), t)"
    and last: "push_attempts L ?A (cfg_org_id cfg) e MAX_SYNC_ATTEMPTS t = (Inr rv, st', w')"
    unfolding sbind_Inr by auto
  have "keeps_good L au (le_id e) (sbind (ensure_account L ?A) (\<lambda>_. sbind (name_key L c ?A master (cfg_org_id cfg)) (\<lambda>key.
      ensure_project_env L c nonces ?A key (cfg_org_id cfg) p e)))"
    unfolding ensure_project_env_def by (intro keeps_intros)
  from keeps_goodD [OF this pre] good have t: "fst t = st" "service_good L au (le_id e) (snd t)" by simp_all
  then have "t = (st, snd t)" by (cases t) simp
  with last have "push_attempts L ?A (cfg_org_id cfg) e MAX_SYNC_ATTEMPTS (st, snd t) = (Inr rv, st', w')" by simp
  then show ?thesis by (rule server.push_attempts_in_step [OF _ refl t(2) ok au])
qed

text \<open>C15: A push brings the device and the server together, whatever other clients write between its
  requests and whatever the network loses: when it reports a revision, the device has recorded that
  revision, the environment has reached it, and unless somebody has written since, the live secrets on
  the device and on the server are the same, versions and ciphertexts. It assumes that no version of a
  secret has two contents.\<close>

theorem push_mirrors_server:
  assumes "push L c nonces (http_client L now user) master cfg (st, w) = (Inr rv, st', w')"
    and "get_environment (cfg_project_id cfg) (cfg_environment cfg) st = Some e"
    and "service_good L au (le_id e) w" and "local_ok st" and "local_authored au (le_id e) st"
  shows "local_ok st' \<and> synced_revision (le_id e) st' = rv \<and> rv \<le> revision_at (le_id e) (wd_db w') \<and>
    (revision_at (le_id e) (wd_db w') = rv \<longrightarrow> local_live (le_id e) st' = server_live (abs_env (wd_db w') (le_id e)))"
  using push_in_step [OF assms] by (simp add: server.in_step_def)

section \<open>An example\<close>

text \<open>An encoding with base64's lengths, and its inverse.\<close>

fun pack :: "bytes \<Rightarrow> string" where
  "pack [] = []"
| "pack [a] = [char_of (unat a), CHR ''='', CHR ''='', CHR ''1'']"
| "pack [a, b] = [char_of (unat a), char_of (unat b), CHR ''='', CHR ''2'']"
| "pack (a # b # c # bs) = char_of (unat a) # char_of (unat b) # char_of (unat c) # CHR ''3'' # pack bs"

fun unpack :: "string \<Rightarrow> bytes option" where
  "unpack [] = Some []"
| "unpack (w # x # y # m # s) =
     (if m = CHR ''1'' then Some [of_char w] else if m = CHR ''2'' then Some [of_char w, of_char x]
      else map_option (\<lambda>bs. of_char w # of_char x # of_char y # bs) (unpack s))"
| "unpack _ = None"

definition wire_lib :: lib where
  "wire_lib = \<lparr>b64_encode = pack, b64_decode = unpack, blake2b = (\<lambda>s. [])\<rparr>"

lemma unpack_pack: "unpack (pack bs) = Some bs"
  by (induction bs rule: pack.induct) (simp_all add: of_char_byte)

lemma length_pack: "length (pack bs) = (length bs + 2) div 3 * 4"
proof (induction bs rule: pack.induct)
  case (4 a b c bs)
  have len: "length (a # b # c # bs) + 2 = length bs + 2 + 3" by simp
  show ?case unfolding len using 4 by (simp only: div_add_self2 pack.simps list.size) simp
qed simp_all

lemma wire_ok: "b64_ok wire_lib"
  by (simp add: b64_ok_def wire_lib_def unpack_pack length_pack)

lemma wire_decode: "b64_decode wire_lib (b64encode wire_lib bs) = Some bs"
  and wire_length: "length (b64encode wire_lib bs) = (length bs + 2) div 3 * 4"
  using wire_ok by (simp_all add: b64_ok_def b64encode_def)

lemma wire_encoding: "length bs \<le> limit \<Longrightarrow> encoding_decode wire_lib (b64encode wire_lib bs) field limit = Inr bs"
  using encoding_decode_encode [OF wire_ok] by (simp add: encoding_encode_def b64encode_def)

lemma wire_account: "length bs \<le> MAX_BLOB \<Longrightarrow> account_decode wire_lib (b64encode wire_lib bs) field = Inr bs"
proof -
  assume "length bs \<le> MAX_BLOB"
  moreover from this have "(length bs + 2) div 3 \<le> (MAX_BLOB + 2) div 3" by (intro div_le_mono) simp
  ultimately show ?thesis by (simp add: account_decode_def wire_decode wire_length MAX_ENCODED_def require_def rbind_def ok_or_def)
qed

definition wire_store :: local_store where
  "wire_store = demo_secret_store\<lparr>st_identity := Some \<lparr>id_salt = [], id_verifier = []\<rparr>,
     st_keys := Some \<lparr>ak_public = replicate 32 1, ak_private = [], ak_recovery = []\<rparr>\<rparr>"

definition wire_config :: client_config where
  "wire_config = demo_config\<lparr>cfg_org_id := None\<rparr>"

definition wire_world :: world where
  "wire_world = \<lparr>wd_db = empty_db\<lparr>users := [(demo_user ''u'')\<lparr>u_public_key := None\<rparr>]\<rparr>, wd_turns = []\<rparr>"

lemma kdf_params_short: "length (kdf_params_bytes []) \<le> MAX_BLOB"
  by (simp add: kdf_params_bytes_def as_bytes_def OPSLIMIT_def MEMLIMIT_def MAX_BLOB_def dec_nat.simps)

lemma exchange_served:
  "wd_turns w = [] \<Longrightarrow> exchange L answer f w = (case f (wd_db w) (wd_db w) of (r, db) \<Rightarrow> (answer r, w\<lparr>wd_db := db\<rparr>))"
  by (cases w) (simp add: exchange_def next_turn_def others_first_def)

definition wire_keys :: account_keys where
  "wire_keys = \<lparr>ak_public_key = replicate 32 1, ak_enc_private_keys = [], ak_kdf_params = kdf_params_bytes [], ak_recovery_blob = []\<rparr>"

definition wire_db1 :: db where
  "wire_db1 = empty_db\<lparr>users := [store_keys wire_keys ((demo_user ''u'')\<lparr>u_public_key := None\<rparr>)]\<rparr>"

lemma wire_put:
  "ensure_account wire_lib (http_client wire_lib 50 ''u'') (wire_store, wire_world) = (Inr (), wire_store, wire_world\<lparr>wd_db := wire_db1\<rparr>)"
proof -
  have m: "material wire_store = Inr (replicate 32 1, [], kdf_params_bytes [], [])"
    by (simp add: material_def wire_store_def get_identity_def get_account_keys_def ok_or_def rbind_def)
  let ?b = "\<lparr>ab_public_key = b64encode wire_lib (replicate 32 1), ab_enc_private_keys = b64encode wire_lib [],
    ab_kdf_params = b64encode wire_lib (kdf_params_bytes []), ab_recovery_blob = b64encode wire_lib []\<rparr>"
  have "decode_bundle wire_lib ?b = Inr wire_keys"
    using kdf_params_short by (simp add: decode_bundle_def wire_account MAX_BLOB_def ACCOUNT_KEY_LEN_def wire_keys_def require_def rbind_def)
  then have "put_account wire_lib ''u'' ?b (wd_db wire_world) = (Inr 201, wire_db1)"
    by (simp add: put_account_def wire_world_def wire_db1_def demo_user_def sql_exists_def sql_update_def Let_def)
  then show ?thesis
    by (simp add: ensure_account_def sbind_def look_def lift_def m request_def http_defs exchange_served wire_world_def
      ok_response_def parse_response_def map_err_def rbind_def)
qed

definition wire_project :: local_project where
  "wire_project = \<lparr>lp_id = ''p'', lp_name = ''app''\<rparr>"

definition wire_env :: local_env where
  "wire_env = \<lparr>le_id = ''e'', le_project = ''p'', le_name = ''dev'', le_key = [1]\<rparr>"

definition wire_db2 :: db where
  "wire_db2 = wire_db1\<lparr>projects := [\<lparr>p_id = ''p'', p_owner = ''u'', p_org = None,
     p_enc_name = encrypt_project_name demo_crypto [] [9] ''p'' (as_bytes ''app'')\<rparr>]\<rparr>"

definition wire_db3 :: db where
  "wire_db3 = wire_db2\<lparr>envs := [\<lparr>e_id = ''e'', e_project = ''p'',
     e_enc_name = encrypt_env_name demo_crypto [] [9] ''e'' (as_bytes ''dev''), e_revision = 0\<rparr>],
     grants := [\<lparr>g_env = ''e'', g_user = ''u'', g_enc_vault_key = [1], g_granted_by = Some ''u''\<rparr>]\<rparr>"

lemma wire_create_project:
  "create_project wire_lib 50 ''u'' ''p'' (b64encode wire_lib (encrypt_project_name demo_crypto [] [9] ''p'' (as_bytes ''app''))) None wire_db1 wire_db1 =
    (Inr 201, wire_db2)"
proof -
  have "length (encrypt_project_name demo_crypto [] [9] ''p'' (as_bytes ''app'')) \<le> MAX_ENC_NAME"
    by (simp add: encrypt_project_name_def aead_seal_def demo_crypto_def marked_def as_bytes_def project_aad_def MAX_ENC_NAME_def)
  then show ?thesis
    by (simp add: create_project_def wire_encoding validate_id_def MAX_ID_def is_ascii_alphanumeric_def create_project_tx_def run_txn_def
      find_project_def user_exists_def sql_find_def sql_exists_def sql_insert_def wire_db1_def wire_db2_def empty_db_def store_keys_def demo_user_def)
qed

lemma wire_create_environment:
  "create_environment wire_lib ''u'' ''p'' ''e'' (b64encode wire_lib (encrypt_env_name demo_crypto [] [9] ''e'' (as_bytes ''dev'')))
     (b64encode wire_lib [1]) wire_db2 wire_db2 = (Inr 201, wire_db3)"
proof -
  have "length (encrypt_env_name demo_crypto [] [9] ''e'' (as_bytes ''dev'')) \<le> MAX_ENC_NAME"
    by (simp add: encrypt_env_name_def aead_seal_def demo_crypto_def marked_def as_bytes_def env_aad_def MAX_ENC_NAME_def)
  then show ?thesis
    by (simp add: create_environment_def wire_encoding MAX_ENC_KEY_def validate_id_def MAX_ID_def is_ascii_alphanumeric_def create_environment_tx_def run_txn_def
      project_access_def require_manage_structure_def require_manage_structure_tx_def can_manage_structure_def pa_require_write_def
      find_project_def find_env_def grant_exists_def user_exists_def sql_find_def sql_exists_def sql_insert_def wire_db3_def wire_db2_def wire_db1_def empty_db_def
      store_keys_def demo_user_def)
qed

lemma wire_structure:
  "ensure_project_env wire_lib demo_crypto ([], []) (http_client wire_lib 50 ''u'') [9] None wire_project wire_env
     (wire_store, wire_world\<lparr>wd_db := wire_db1\<rparr>) = (Inr (), wire_store, wire_world\<lparr>wd_db := wire_db3\<rparr>)"
  by (simp add: ensure_project_env_def sbind_def tolerate_org_forbidden_def request_def http_defs exchange_served wire_world_def
    wire_project_def wire_env_def wire_create_project wire_create_environment ok_response_def parse_response_def map_err_def rbind_def)

definition wire_synced :: "int \<Rightarrow> local_store" where
  "wire_synced rv = wire_store\<lparr>st_synced := [\<lparr>sy_env = ''e'', sy_revision = rv\<rparr>]\<rparr>"

lemma wire_snapshot: "snapshot wire_lib wire_db3 ''u'' ''e'' None = Inr (Snapshot (etag_of 0) 0 [])"
  by (simp add: snapshot_def env_revision_def env_access_def secret_views_def project_access_def rbind_def ok_or_def
    find_project_def find_env_def sql_find_def sql_select_def wire_db3_def wire_db2_def wire_db1_def empty_db_def)

lemma wire_set_synced: "set_synced_revision ''e'' rv (wire_synced rv') = Inr (wire_synced rv)" "set_synced_revision ''e'' rv wire_store = Inr (wire_synced rv)"
  by (simp_all add: set_synced_revision_def find_environment_def wire_synced_def wire_store_def demo_secret_store_def demo_local_def empty_store_def
    sql_find_def sql_insert_def sql_delete_def require_def rbind_def)

lemma wire_fast_forward:
  "fast_forward wire_lib (http_client wire_lib 50 ''u'') ''e'' (wire_store, wire_world\<lparr>wd_db := wire_db3\<rparr>) =
    (Inr \<lparr>rs_revision = 0, rs_secrets = []\<rparr>, wire_synced 0, wire_world\<lparr>wd_db := wire_db3\<rparr>)"
  by (simp add: fast_forward_def sbind_def request_def http_defs exchange_served wire_world_def wire_snapshot snapshot_answer_def
    parse_response_def map_err_def rbind_def lift_def ok_or_def apply_snapshot_def run_local_def modify_def wire_set_synced sret_def)

definition wire_change :: change where
  "wire_change = change_set ''s'' 1 (b64encode wire_lib [2]) (b64encode wire_lib [3]) (b64encode wire_lib [4])"

lemma wire_diff: "diff wire_lib ''e'' \<lparr>rs_revision = 0, rs_secrets = []\<rparr> (wire_synced 0) = [wire_change]"
  by (simp add: diff_def all_secrets_def wire_synced_def wire_store_def demo_secret_store_def sql_select_def sync_of_def change_for_def
    server_entry_def sql_find_def set_change_def wire_change_def List.map_filter_def)

lemma wire_write: "\<exists>tag db. write_secrets wire_lib 50 ''u'' ''e'' 0 [wire_change] wire_db3 wire_db3 = (Inr (tag, 1), db)"
  by (simp add: write_secrets_def write_secrets_tx_def env_revision_def env_access_def project_access_def pa_require_write_def require_write_tx_def
    find_project_def find_env_def sql_find_def wire_db3_def wire_db2_def wire_db1_def empty_db_def apply_change_def wire_change_def change_set_def
    validate_id_def MAX_ID_def is_ascii_alphanumeric_def apply_set_def decode_required_def wire_encoding MAX_ENC_NAME_def MAX_ENC_VALUE_def MAX_ENC_KEY_def
    upsert_secret_def find_secret_def version_exists_def sql_exists_def rbind_def ok_or_def require_def run_txn_def)

lemma wire_push:
  "\<exists>db. push wire_lib demo_crypto ([], []) (http_client wire_lib 50 ''u'') [9] wire_config (wire_store, wire_world) =
    (Inr 1, wire_synced 1, wire_world\<lparr>wd_db := db\<rparr>)"
proof -
  obtain tag db where "write_secrets wire_lib 50 ''u'' ''e'' 0 [wire_change] wire_db3 wire_db3 = (Inr (tag, 1), db)" using wire_write by blast
  then have "upload (http_client wire_lib 50 ''u'') ''e'' \<lparr>bt_base = 0, bt_changes = [wire_change]\<rparr> retry (wire_synced 0, wire_world\<lparr>wd_db := wire_db3\<rparr>) =
      (Inr 1, wire_synced 1, wire_world\<lparr>wd_db := db\<rparr>)" for retry
    by (simp add: upload_def request_def http_defs exchange_served wire_world_def write_answer_def parse_response_def map_err_def
      rbind_def sbind_def modify_def wire_set_synced sret_def)
  then have attempts: "push_attempts wire_lib (http_client wire_lib 50 ''u'') None wire_env (Suc n) (wire_store, wire_world\<lparr>wd_db := wire_db3\<rparr>) =
      (Inr 1, wire_synced 1, wire_world\<lparr>wd_db := db\<rparr>)" for n
    by (simp add: wire_env_def sbind_def wire_fast_forward look_def wire_diff check_grant_def sret_def)
  have "get_environment ''p'' ''dev'' wire_store = Some wire_env" "get_project ''p'' wire_store = Some wire_project"
    by (simp_all add: get_environment_def get_project_def wire_store_def demo_secret_store_def demo_local_def empty_store_def sql_find_def
      wire_env_def wire_project_def)
  then have "push wire_lib demo_crypto ([], []) (http_client wire_lib 50 ''u'') [9] wire_config (wire_store, wire_world) =
      (Inr 1, wire_synced 1, wire_world\<lparr>wd_db := db\<rparr>)"
    using attempts [of 4]
    by (simp add: push_def sbind_def resolve_env_def look_def lift_def ok_or_def wire_config_def demo_config_def wire_put name_key_def
      wire_structure MAX_SYNC_ATTEMPTS_def)
  then show ?thesis by blast
qed

theorem push_mirrors_server_witness:
  "\<exists>w'. push wire_lib demo_crypto ([], []) (http_client wire_lib 50 ''u'') [9] wire_config (wire_store, wire_world) = (Inr 1, wire_synced 1, w') \<and>
     synced_revision ''e'' (wire_synced 1) = 1 \<and> 1 \<le> revision_at ''e'' (wd_db w')"
proof -
  obtain db where run: "push wire_lib demo_crypto ([], []) (http_client wire_lib 50 ''u'') [9] wire_config (wire_store, wire_world) =
    (Inr 1, wire_synced 1, wire_world\<lparr>wd_db := db\<rparr>)" using wire_push by blast
  have env: "get_environment (cfg_project_id wire_config) (cfg_environment wire_config) wire_store = Some wire_env"
    by (simp add: get_environment_def wire_config_def demo_config_def wire_store_def demo_secret_store_def demo_local_def empty_store_def
      sql_find_def wire_env_def)
  have "service_good wire_lib (\<lambda>_ _. ([2], [3], [4])) (le_id wire_env) wire_world"
    by (simp add: service_good_def wire_ok db_good_def wire_world_def empty_db_def server_authored_def abs_env_def find_secret_def sql_find_def)
  moreover have "local_ok wire_store"
    using demo_secret_ok store_write_ok [OF store_write.identity_keys] by (simp add: wire_store_def put_identity_with_keys_def)
  moreover have "local_authored (\<lambda>_ _. ([2], [3], [4])) (le_id wire_env) wire_store"
    by (auto simp: local_authored_def find_local_def sync_of_def wire_store_def demo_secret_store_def sql_find_def split: if_splits)
  ultimately show ?thesis using push_mirrors_server [OF run env] by (simp add: run wire_env_def)
qed

end
