(* ===== verification/Team_Server.thy ===== *)
theory Team_Server
  imports Team Sync_Server
begin

text \<open>
  The team commands against the modelled server: the rest of \<open>crates/cli/src/remote/http.rs\<close>, over the
  network of theory \<open>Sync_Server\<close>, and the machine's requests of \<open>remote/machine.rs\<close>.

  Result: a rotation run by the client, whatever happens between its requests, leaves every secret and
  every retained version readable under the new vault key, and seals that key to the members it
  listed, without the one it dropped.
\<close>

section \<open>Requests\<close>

text \<open>What the server draws for a request that creates a token or a link.\<close>

record service_draws =
  sw_token_id :: string
  sw_token_raw :: bytes
  sw_share_raw :: bytes

definition http_reset_account :: "lib \<Rightarrow> int \<Rightarrow> string \<Rightarrow> account_bundle \<Rightarrow> world \<Rightarrow> (cli_error + unit) \<times> world" where
  "http_reset_account L now user b = exchange L ok_response (\<lambda>db0 db. reset_account L now user b db)"

definition account_answer :: "error + account_bundle \<Rightarrow> cli_error + account_bundle option" where
  "account_answer r = (case r of
       Inl e \<Rightarrow> if fst (into_response e) = 404 then Inr None else Inl (server_error (into_response e))
     | Inr b \<Rightarrow> Inr (Some b))"

definition http_get_account :: "lib \<Rightarrow> string \<Rightarrow> world \<Rightarrow> (cli_error + account_bundle option) \<times> world" where
  "http_get_account L user = exchange L account_answer (\<lambda>db0 db. (get_account L db user, db))"

definition share_answer :: "error + string \<times> int option \<Rightarrow> cli_error + string" where
  "share_answer r = rbind (parse_response r) (\<lambda>(token, expires_at). Inr token)"

definition http_create_share :: "lib \<Rightarrow> int \<Rightarrow> service_draws \<Rightarrow> string \<Rightarrow> new_share \<Rightarrow> world \<Rightarrow> (cli_error + string) \<times> world" where
  "http_create_share L now sw user ns = exchange L share_answer (\<lambda>db0 db.
     create_share L now (sw_share_raw sw) user (ns_blob ns) (ns_max_views ns) (ns_ttl ns) (ns_salt ns) db)"

definition http_create_org :: "lib \<Rightarrow> int \<Rightarrow> string \<Rightarrow> string \<Rightarrow> string \<Rightarrow> string \<Rightarrow> world \<Rightarrow> (cli_error + unit) \<times> world" where
  "http_create_org L now user i name key = exchange L ok_response (\<lambda>db0 db. create_org L now user i name key db)"

definition http_invite_member ::
    "lib \<Rightarrow> int \<Rightarrow> string \<Rightarrow> string \<Rightarrow> string \<Rightarrow> world \<Rightarrow> (cli_error + string \<times> string option) \<times> world" where
  "http_invite_member L now user org email = exchange L parse_response (invite_member L now user org email)"

definition http_list_members :: "lib \<Rightarrow> string \<Rightarrow> string \<Rightarrow> world \<Rightarrow> (cli_error + member_view list) \<times> world" where
  "http_list_members L user org = exchange L parse_response (\<lambda>db0 db. (list_members L db user org, db))"

definition http_create_grant ::
    "lib \<Rightarrow> int \<Rightarrow> string \<Rightarrow> string \<Rightarrow> string \<Rightarrow> string \<Rightarrow> world \<Rightarrow> (cli_error + unit) \<times> world" where
  "http_create_grant L now user env target key = exchange L ok_response (create_grant L now user env target key)"

definition http_list_grant_holders :: "lib \<Rightarrow> string \<Rightarrow> string \<Rightarrow> world \<Rightarrow> (cli_error + string list) \<times> world" where
  "http_list_grant_holders L user env = exchange L parse_response (\<lambda>db0 db. (list_grant_holders db user env, db))"

definition http_member_env_grants :: "lib \<Rightarrow> string \<Rightarrow> string \<Rightarrow> string \<Rightarrow> world \<Rightarrow> (cli_error + string list) \<times> world" where
  "http_member_env_grants L user org target = exchange L parse_response (\<lambda>db0 db. (member_env_grants db user org target, db))"

definition http_org_entitlements ::
    "lib \<Rightarrow> int \<Rightarrow> bool \<Rightarrow> string \<Rightarrow> string \<Rightarrow> world \<Rightarrow> (cli_error + entitlements_view) \<times> world" where
  "http_org_entitlements L now billing_enabled user org =
     exchange L parse_response (\<lambda>db0 db. (get_entitlements db now billing_enabled user org, db))"

definition http_org_audit :: "lib \<Rightarrow> int \<Rightarrow> string \<Rightarrow> string \<Rightarrow> int option \<Rightarrow> world \<Rightarrow> (cli_error + audit_row list) \<times> world" where
  "http_org_audit L now user org limit = exchange L parse_response (\<lambda>db0 db. (list_events db now user org limit, db))"

definition http_rotate :: "lib \<Rightarrow> int \<Rightarrow> string \<Rightarrow> string \<Rightarrow> rotate_request \<Rightarrow> world \<Rightarrow> (cli_error + int) \<times> world" where
  "http_rotate L now user env req = exchange L parse_response (rotate_env L now user env req)"

text \<open>The server always answers a removal with a receipt; the empty one the client makes of a status
  204 is for servers before this one.\<close>

definition http_remove_member :: "lib \<Rightarrow> int \<Rightarrow> string \<Rightarrow> string \<Rightarrow> string \<Rightarrow> world \<Rightarrow> (cli_error + removal_receipt) \<times> world" where
  "http_remove_member L now user org target = exchange L parse_response (remove_member now user org target)"

definition http_grant_org_key ::
    "lib \<Rightarrow> int \<Rightarrow> string \<Rightarrow> string \<Rightarrow> string \<Rightarrow> string \<Rightarrow> world \<Rightarrow> (cli_error + unit) \<times> world" where
  "http_grant_org_key L now user org target key = exchange L ok_response (\<lambda>db0 db. grant_org_key L now user org target key db)"

definition http_create_machine_token ::
    "lib \<Rightarrow> int \<Rightarrow> service_draws \<Rightarrow> string \<Rightarrow> string \<Rightarrow> string \<Rightarrow> string \<Rightarrow> string \<Rightarrow> world \<Rightarrow> (cli_error + string \<times> string) \<times> world" where
  "http_create_machine_token L now sw user env name public_key key =
     exchange L parse_response (create_token L now (sw_token_id sw) (sw_token_raw sw) user env name public_key key)"

definition http_list_machine_tokens :: "lib \<Rightarrow> string \<Rightarrow> string \<Rightarrow> world \<Rightarrow> (cli_error + token_view list) \<times> world" where
  "http_list_machine_tokens L user env = exchange L parse_response (\<lambda>db0 db. (list_tokens L db user env None, db))"

definition http_revoke_machine_token :: "lib \<Rightarrow> int \<Rightarrow> string \<Rightarrow> string \<Rightarrow> string \<Rightarrow> world \<Rightarrow> (cli_error + unit) \<times> world" where
  "http_revoke_machine_token L now user env token_id = exchange L ok_response (revoke_token now user env token_id)"

definition team_client :: "lib \<Rightarrow> int \<Rightarrow> service_draws \<Rightarrow> string \<Rightarrow> world team_api" where
  "team_client L now sw user = \<lparr>tm_sync = http_client L now user, tm_create_org = http_create_org L now user,
     tm_invite_member = http_invite_member L now user, tm_list_members = http_list_members L user,
     tm_create_grant = http_create_grant L now user, tm_list_grant_holders = http_list_grant_holders L user,
     tm_member_env_grants = http_member_env_grants L user, tm_rotate = http_rotate L now user,
     tm_remove_member = http_remove_member L now user, tm_grant_org_key = http_grant_org_key L now user,
     tm_create_machine_token = http_create_machine_token L now sw user,
     tm_list_machine_tokens = http_list_machine_tokens L user, tm_create_share = http_create_share L now sw user\<rparr>"

lemmas team_http_defs = team_client_def http_list_members_def http_list_grant_holders_def http_list_machine_tokens_def
  http_rotate_def http_remove_member_def http_member_env_grants_def http_create_machine_token_def

text \<open>A machine's requests carry its own token.\<close>

definition machine_answer :: "error + 'a \<Rightarrow> cli_error + 'a" where
  "machine_answer = map_err (\<lambda>e. let status = fst (into_response e) in
     if status = 401 then InputError ''SOTTO_TOKEN was rejected (revoked or invalid)''
     else ServerError (''machine API error: '' @ dec_nat status @ '' '' @ reason_phrase status))"

definition machine_headers :: "machine_token \<Rightarrow> headers" where
  "machine_headers token = \<lparr>authorization = [''Bearer '' @ mt_api_token token], cookies = []\<rparr>"

definition fetch_entries :: "lib \<Rightarrow> crypto \<Rightarrow> machine_token \<Rightarrow> world \<Rightarrow> (cli_error + (string \<times> bytes) list) \<times> world" where
  "fetch_entries L c token w =
     (case exchange L machine_answer (\<lambda>db0 db. (machine_grant L (machine_headers token) db, db)) w of
        (Inl e, w) \<Rightarrow> (Inl e, w)
      | (Inr grant, w) \<Rightarrow>
          (case exchange L machine_answer (\<lambda>db0 db. (machine_secrets L (machine_headers token) db, db)) w of
             (Inl e, w) \<Rightarrow> (Inl e, w)
           | (Inr (revision, views), w) \<Rightarrow> (machine_entries L c (mt_keypair token) grant views, w)))"

section \<open>What a client's rotation request holds\<close>

lemma from_core_Inr: "from_core r = Inr a \<longleftrightarrow> r = Inr a"
  by (cases r) (simp_all add: from_core_def map_err_def)

lemma map_result_member: "map_result f xs = Inr ys \<Longrightarrow> y \<in> set ys \<Longrightarrow> \<exists>x \<in> set xs. f x = Inr y"
  by (induction xs arbitrary: ys) (auto simp: rbind_eq_Inr_iff)

lemma rewrap_keeps:
  assumes "aead_ok c" and "length nonce = NONCE_LEN"
    and "rewrap_data_key c nonce old new env i ver edk = Inr edk'"
  shows "\<exists>dk. unwrap_data_key c old env i ver edk = Inr dk \<and> unwrap_data_key c new env i ver edk' = Inr dk"
proof -
  from assms(3) obtain dk where dk: "unwrap_data_key c old env i ver edk = Inr dk"
    and edk': "edk' = wrap_key c nonce new dk (as_bytes (data_key_aad env i ver))"
    by (auto simp: rewrap_data_key_def rbind_eq_Inr_iff)
  have "length dk = KEY_LEN" using dk unfolding unwrap_data_key_def by (rule unwrap_key_length)
  with dk show ?thesis unfolding edk' by (simp add: unwrap_data_key_def unwrap_wrap [OF assms(1,2)])
qed

text \<open>A key re-wrapped from one stored key to another.\<close>

definition rewrapped :: "crypto \<Rightarrow> string \<Rightarrow> bytes \<Rightarrow> bytes \<Rightarrow> string \<Rightarrow> int \<Rightarrow> bytes \<Rightarrow> bytes \<Rightarrow> bool" where
  "rewrapped c env old new i ver edk edk' \<longleftrightarrow>
     (\<exists>dk. unwrap_data_key c old env i ver edk = Inr dk \<and> unwrap_data_key c new env i ver edk' = Inr dk)"

definition sealed_to :: "lib \<Rightarrow> crypto \<Rightarrow> bytes \<Rightarrow> string \<Rightarrow> bytes \<Rightarrow> bool" where
  "sealed_to L c new public_key blob \<longleftrightarrow>
     (\<exists>pk rnd. decode_public_key L public_key = Inr pk \<and> grant_vault_key c rnd pk new = Inr blob)"

definition draws_fit :: "rotation_draws \<Rightarrow> bool" where
  "draws_fit d \<longleftrightarrow> (\<forall>i. length (rt_data d i) = NONCE_LEN) \<and> (\<forall>k. length (rt_history d k) = NONCE_LEN)"

lemma new_data_keys_member:
  assumes "aead_ok c" and "draws_fit d" and "new_data_keys L c d old env vs = Inr ks" and "(i, k) \<in> set ks"
  shows "\<exists>v edk edk'. v \<in> set vs \<and> sv_id v = i \<and> b64_decode L (sv_enc_data_key v) = Some edk \<and> k = b64_encode L edk' \<and>
    rewrapped c env old (rt_key d) i (sv_version v) edk edk'"
proof -
  from map_result_member [OF assms(3) [unfolded new_data_keys_def] assms(4)] obtain v edk edk'
    where "v \<in> set vs" "i = sv_id v" "k = b64encode L edk'" "b64_decode L (sv_enc_data_key v) = Some edk"
      "rewrap_data_key c (rt_data d (sv_id v)) old (rt_key d) env (sv_id v) (sv_version v) edk = Inr edk'"
    by (auto simp: rbind_eq_Inr_iff from_core_Inr b64decode_Inr)
  with rewrap_keeps [OF assms(1)] assms(2) show ?thesis unfolding rewrapped_def draws_fit_def b64encode_def by blast
qed

lemma new_history_keys_member:
  assumes "aead_ok c" and "draws_fit d" and "new_history_keys L c d old env hs = Inr ks" and "((i, ver), k) \<in> set ks"
  shows "\<exists>edk edk'. k = b64_encode L edk' \<and> rewrapped c env old (rt_key d) i ver edk edk'"
proof -
  from map_result_member [OF assms(3) [unfolded new_history_keys_def] assms(4)] obtain h edk edk'
    where "h \<in> set hs" "i = h_secret_id h" "ver = h_version h" "k = b64encode L edk'"
      "rewrap_data_key c (rt_history d (i, ver)) old (rt_key d) env i ver edk = Inr edk'"
    by (auto simp: rbind_eq_Inr_iff from_core_Inr b64decode_Inr)
  with rewrap_keeps [OF assms(1)] assms(2) show ?thesis unfolding rewrapped_def draws_fit_def b64encode_def by blast
qed

lemma new_grants_member:
  assumes "new_grants L c d ms dropped holders = Inr gs" and "(u, k) \<in> set gs"
  shows "Some u \<noteq> dropped \<and> (\<exists>m b64 blob. m \<in> set ms \<and> mv_user m = u \<and> mv_public_key m = Some b64 \<and> k = b64_encode L blob \<and>
    sealed_to L c (rt_key d) b64 blob)"
  using assms
proof (induction holders arbitrary: gs)
  case (Cons h hs)
  show ?case
  proof (cases "Some h = dropped \<or> sql_find (\<lambda>m. mv_user m = h) ms = None")
    case True
    then show ?thesis using Cons by (auto split: if_splits)
  next
    case False
    then obtain m where m: "sql_find (\<lambda>m. mv_user m = h) ms = Some m" by auto
    with Cons.prems(1) False obtain b64 pk blob gs' where
      new: "mv_public_key m = Some b64" "decode_public_key L b64 = Inr pk" "grant_vault_key c (rt_seal d h) pk (rt_key d) = Inr blob"
        "new_grants L c d ms dropped hs = Inr gs'" "gs = (h, b64encode L blob) # gs'"
      by (auto simp: rbind_eq_Inr_iff from_core_Inr)
    show ?thesis
    proof (cases "(u, k) = (h, b64encode L blob)")
      case True
      with new False sql_find_SomeD [OF m] show ?thesis unfolding sealed_to_def b64encode_def by blast
    next
      case False
      with Cons.prems(2) new(5) have "(u, k) \<in> set gs'" by auto
      with Cons.IH [OF new(4)] show ?thesis .
    qed
  qed
qed simp

lemma new_machine_grants_member:
  assumes "new_machine_grants L c d ts = Inr gs" and "(i, k) \<in> set gs"
  shows "\<exists>t blob. t \<in> set ts \<and> tv_token_id t = i \<and> k = b64_encode L blob \<and> sealed_to L c (rt_key d) (tv_public_key t) blob"
proof -
  from map_result_member [OF assms(1) [unfolded new_machine_grants_def] assms(2)] obtain t pk blob
    where "t \<in> set ts" "i = tv_token_id t" "k = b64encode L blob" "decode_public_key L (tv_public_key t) = Inr pk"
      "grant_vault_key c (rt_machine d (tv_token_id t)) pk (rt_key d) = Inr blob"
    by (auto simp: rbind_eq_Inr_iff from_core_Inr)
  then show ?thesis unfolding sealed_to_def b64encode_def by blast
qed

lemma decode_keys_member:
  assumes "decode_keys L field ks = Inr ds" and "x \<in> set ds"
  shows "\<exists>k. (fst x, k) \<in> set ks \<and> b64_decode L k = Some (snd x)"
proof -
  from map_result_member [OF assms(1) [unfolded decode_keys_def] assms(2)] obtain y
    where y: "y \<in> set ks" "(case y of (k, v) \<Rightarrow> rbind (encoding_decode L v field MAX_ENC_KEY) (\<lambda>b. Inr (k, b))) = Inr x" by blast
  obtain k v where "y = (k, v)" by (cases y)
  with y(2) obtain b where "encoding_decode L v field MAX_ENC_KEY = Inr b" "x = (k, b)" by (auto simp: rbind_eq_Inr_iff)
  with y(1) \<open>y = (k, v)\<close> encoding_decode_bound show ?thesis by fastforce
qed

lemma decode_distinct_member:
  assumes "decode_distinct L field msg seen ks = Inr ds" and "x \<in> set ds"
  shows "\<exists>k. (fst x, k) \<in> set ks \<and> b64_decode L k = Some (snd x)"
  using assms
proof (induction ks arbitrary: seen ds)
  case (Cons y ks)
  obtain k v where y: "y = (k, v)" by (cases y)
  with Cons.prems(1) obtain b ds' where d: "encoding_decode L v field MAX_ENC_KEY = Inr b"
      "decode_distinct L field msg (k # seen) ks = Inr ds'" "ds = (k, b) # ds'" by (auto simp: rbind_eq_Inr_iff)
  show ?case
  proof (cases "x = (k, b)")
    case True
    with y encoding_decode_bound [OF d(1)] show ?thesis by auto
  next
    case False
    with d(3) Cons.prems(2) Cons.IH [OF d(2)] show ?thesis by auto
  qed
qed simp

lemma decode_rotation_members:
  assumes "decode_rotation L user req = Inr ro"
  shows "x \<in> set (ro_data_keys ro) \<Longrightarrow> \<exists>k. (fst x, k) \<in> set (rq_data_keys req) \<and> b64_decode L k = Some (snd x)"
    and "y \<in> set (ro_history_keys ro) \<Longrightarrow> \<exists>k. (fst y, k) \<in> set (rq_history_keys req) \<and> b64_decode L k = Some (snd y)"
    and "z \<in> set (ro_grants ro) \<Longrightarrow> \<exists>k. (fst z, k) \<in> set (rq_grants req) \<and> b64_decode L k = Some (snd z)"
    and "z \<in> set (ro_machine_grants ro) \<Longrightarrow> \<exists>k. (fst z, k) \<in> set (rq_machine_grants req) \<and> b64_decode L k = Some (snd z)"
proof -
  have d: "\<exists>f. decode_keys L f (rq_grants req) = Inr (ro_grants ro)" "\<exists>f. decode_keys L f (rq_data_keys req) = Inr (ro_data_keys ro)"
    "\<exists>f m. decode_distinct L f m [] (rq_machine_grants req) = Inr (ro_machine_grants ro)"
    "\<exists>f m. decode_distinct L f m [] (rq_history_keys req) = Inr (ro_history_keys ro)"
    using assms by (fastforce simp: decode_rotation_def rbind_eq_Inr_iff)+
  show "x \<in> set (ro_data_keys ro) \<Longrightarrow> \<exists>k. (fst x, k) \<in> set (rq_data_keys req) \<and> b64_decode L k = Some (snd x)"
    using d(2) decode_keys_member by blast
  show "y \<in> set (ro_history_keys ro) \<Longrightarrow> \<exists>k. (fst y, k) \<in> set (rq_history_keys req) \<and> b64_decode L k = Some (snd y)"
    using d(4) decode_distinct_member by blast
  show "z \<in> set (ro_grants ro) \<Longrightarrow> \<exists>k. (fst z, k) \<in> set (rq_grants req) \<and> b64_decode L k = Some (snd z)"
    using d(1) decode_keys_member by blast
  show "z \<in> set (ro_machine_grants ro) \<Longrightarrow> \<exists>k. (fst z, k) \<in> set (rq_machine_grants req) \<and> b64_decode L k = Some (snd z)"
    using d(3) decode_distinct_member by blast
qed

section \<open>What its commit makes of the environment\<close>

definition rekeyed :: "crypto \<Rightarrow> string \<Rightarrow> bytes \<Rightarrow> bytes \<Rightarrow> string \<Rightarrow> secret_entry \<Rightarrow> secret_entry \<Rightarrow> bool" where
  "rekeyed c env old new i e e' \<longleftrightarrow> e' = e\<lparr>en_data_key := en_data_key e'\<rparr> \<and>
     rewrapped c env old new i (en_version e) (en_data_key e) (en_data_key e')"

definition held_by :: "lib \<Rightarrow> crypto \<Rightarrow> member_view list \<Rightarrow> bytes \<Rightarrow> grant_row \<Rightarrow> bool" where
  "held_by L c ms new g \<longleftrightarrow> (\<exists>m b64. m \<in> set ms \<and> mv_user m = g_user g \<and> mv_public_key m = Some b64 \<and>
     sealed_to L c new b64 (g_enc_vault_key g))"

definition rotated :: "lib \<Rightarrow> crypto \<Rightarrow> member_view list \<Rightarrow> string \<Rightarrow> string option \<Rightarrow> bytes \<Rightarrow> bytes \<Rightarrow> db \<Rightarrow> db \<Rightarrow> bool" where
  "rotated L c ms env dropped old new db db' \<longleftrightarrow>
     revision_at env db' = revision_at env db + 1 \<and>
     (\<forall>i. rel_option (rekeyed c env old new i) (abs_env db env i) (abs_env db' env i)) \<and>
     (\<forall>v \<in> set (versions db'). in_env db' env v \<longrightarrow>
        (\<exists>edk. rewrapped c env old new (v_secret v) (v_version v) edk (v_enc_data_key v))) \<and>
     (\<forall>g \<in> set (grants db'). g_env g = env \<longrightarrow> Some (g_user g) \<noteq> dropped \<and> held_by L c ms new g) \<and>
     (\<forall>t \<in> set (tokens db'). active_token env t \<longrightarrow> (\<exists>pk. sealed_to L c new pk (t_enc_vault_key t)))"

lemma sql_find_stripped:
  assumes "map strip t' = map strip t" and "\<And>r r'. strip r = strip r' \<Longrightarrow> p r = p r'"
  shows "rel_option (\<lambda>r r'. strip r' = strip r) (sql_find p t) (sql_find p t')"
  using assms(1)
proof (induction t arbitrary: t')
  case (Cons r t)
  then obtain r' u where "t' = r' # u" "strip r' = strip r" "map strip u = map strip t" by (cases t') auto
  moreover from this have "p r' = p r" by (intro assms(2))
  ultimately show ?case using Cons.IH [of u] by (simp add: sql_find_def)
qed (simp add: sql_find_def)

lemma shown_entry:
  assumes "shows_entries L vs m" and "v \<in> set vs"
  shows "\<exists>e. m (sv_id v) = Some e \<and> v = entry_view L (sv_id v) e"
proof -
  have d: "distinct (map sv_id vs)" and f: "sql_find (\<lambda>w. sv_id w = sv_id v) vs = map_option (entry_view L (sv_id v)) (m (sv_id v))"
    using assms(1) by (simp_all add: shows_entries_def)
  have "sql_find (\<lambda>w. sv_id w = sv_id v) vs = Some v"
    using sql_find_Some_iff_distinct [OF d, of "\<lambda>w. sv_id w = sv_id v" "sv_id v" v] assms(2) by simp
  with f show ?thesis by (cases "m (sv_id v)") simp_all
qed

lemma b64_okD: "b64_ok L \<Longrightarrow> b64_decode L (b64_encode L bs) = Some bs"
  by (simp add: b64_ok_def)

lemma commit_rekeys_entries:
  assumes ok: "b64_ok L" "aead_ok c" "draws_fit d"
    and ks: "new_data_keys L c d old env vs = Inr ks" and shown: "shows_entries L vs (abs_env db env)"
    and ro: "\<And>x. x \<in> set ds \<Longrightarrow> \<exists>k. (fst x, k) \<in> set ks \<and> b64_decode L k = Some (snd x)"
    and cover: "\<And>s. s \<in> set (secrets db') \<Longrightarrow> s_env s = env \<Longrightarrow> (s_id s, s_enc_data_key s) \<in> set ds"
    and same: "map (\<lambda>s. s\<lparr>s_enc_data_key := []\<rparr>) (secrets db') = map (\<lambda>s. s\<lparr>s_enc_data_key := []\<rparr>) (secrets db)"
  shows "rel_option (rekeyed c env old (rt_key d) i) (abs_env db env i) (abs_env db' env i)"
proof -
  let ?strip = "\<lambda>s. s\<lparr>s_enc_data_key := []\<rparr>"
  have eq: "s' = s\<lparr>s_enc_data_key := s_enc_data_key s'\<rparr>" if "?strip s' = ?strip s" for s s' :: secret_row
    using that by (cases s, cases s') simp
  have rel: "rel_option (\<lambda>s s'. ?strip s' = ?strip s) (find_secret db i) (find_secret db' i)"
    unfolding find_secret_def by (rule sql_find_stripped [OF same]) (metis eq secret_row.select_convs(1) secret_row.surjective secret_row.update_convs(5))
  show ?thesis
  proof (cases "find_secret db i")
    case None
    with rel show ?thesis by (simp add: abs_env_def)
  next
    case (Some s)
    with rel obtain s' where s': "find_secret db' i = Some s'" "?strip s' = ?strip s" by (auto simp: option_rel_Some1)
    note row = eq [OF s'(2)]
    have "rekeyed c env old (rt_key d) i (entry_of s) (entry_of s')" if env: "s_env s = env"
    proof -
      from s'(1) have "s' \<in> set (secrets db')" "s_id s' = i" by (auto simp: find_secret_def dest: sql_find_SomeD)
      moreover have "s_env s' = env" using env by (subst row) simp
      ultimately have "(i, s_enc_data_key s') \<in> set ds" using cover by blast
      then obtain k where k: "(i, k) \<in> set ks" "b64_decode L k = Some (s_enc_data_key s')" using ro by fastforce
      from new_data_keys_member [OF ok(2,3) ks k(1)] obtain v edk edk' where v: "v \<in> set vs" "sv_id v = i"
          "b64_decode L (sv_enc_data_key v) = Some edk" "k = b64_encode L edk'"
          "rewrapped c env old (rt_key d) i (sv_version v) edk edk'" by blast
      from shown_entry [OF shown v(1)] v(2) obtain e where e: "abs_env db env i = Some e" "v = entry_view L i e" by blast
      have "e = entry_of s" using e(1) Some env by (simp add: abs_env_def)
      with v(3,5) e(2) b64_okD [OF ok(1)] have "rewrapped c env old (rt_key d) i (s_version s) (s_enc_data_key s) edk'"
        by (simp add: entry_view_def entry_of_def)
      moreover have "edk' = s_enc_data_key s'" using v(4) k(2) b64_okD [OF ok(1)] by simp
      moreover have "entry_of s' = (entry_of s)\<lparr>en_data_key := s_enc_data_key s'\<rparr>" by (subst (1) row) (simp add: entry_of_def)
      ultimately show ?thesis by (simp add: rekeyed_def entry_of_def)
    qed
    moreover have "s_env s' = s_env s" by (subst row) simp
    ultimately show ?thesis using Some s'(1) by (simp add: abs_env_def)
  qed
qed

text \<open>A request as a client computes it, and what its commit does.\<close>

definition client_request ::
    "lib \<Rightarrow> crypto \<Rightarrow> rotation_draws \<Rightarrow> member_view list \<Rightarrow> string \<Rightarrow> string option \<Rightarrow> bytes \<Rightarrow> remote_snapshot \<Rightarrow> rotate_request \<Rightarrow> bool" where
  "client_request L c d ms env dropped old sn req \<longleftrightarrow> rq_base_revision req = rs_revision sn \<and>
     new_data_keys L c d old env (rs_secrets sn) = Inr (rq_data_keys req) \<and>
     (\<exists>hs. new_history_keys L c d old env hs = Inr (rq_history_keys req)) \<and>
     (\<exists>us. new_grants L c d ms dropped us = Inr (rq_grants req)) \<and>
     (\<exists>ts. new_machine_grants L c d ts = Inr (rq_machine_grants req))"

lemma commit_rotates:
  assumes run: "rotate_env L now user env req db0 db = (Inr rv, db')"
    and ok: "b64_ok L" "aead_ok c" "draws_fit d"
    and req: "client_request L c d ms env dropped old sn req" and shown: "shows_entries L (rs_secrets sn) (abs_env db env)"
  shows "rotated L c ms env dropped old (rt_key d) db db'"
proof -
  from rotation_covers [OF run] obtain ro where ro: "decode_rotation L user req = Inr ro"
    and secrets: "\<And>s. s \<in> set (secrets db') \<Longrightarrow> s_env s = env \<Longrightarrow> (s_id s, s_enc_data_key s) \<in> set (ro_data_keys ro)"
    and versions: "\<And>v. v \<in> set (versions db') \<Longrightarrow> in_env db' env v \<Longrightarrow> (version_key v, v_enc_data_key v) \<in> set (ro_history_keys ro)"
    and tokens: "\<And>t. t \<in> set (tokens db') \<Longrightarrow> active_token env t \<Longrightarrow> (t_id t, t_enc_vault_key t) \<in> set (ro_machine_grants ro)"
    and same: "map (\<lambda>s. s\<lparr>s_enc_data_key := []\<rparr>) (secrets db') = map (\<lambda>s. s\<lparr>s_enc_data_key := []\<rparr>) (secrets db)"
    by blast
  from req obtain hs us ts where ks: "new_data_keys L c d old env (rs_secrets sn) = Inr (rq_data_keys req)"
      "new_history_keys L c d old env hs = Inr (rq_history_keys req)" "new_grants L c d ms dropped us = Inr (rq_grants req)"
      "new_machine_grants L c d ts = Inr (rq_machine_grants req)" by (auto simp: client_request_def)
  note members = decode_rotation_members [OF ro]
  have "revision_at env db' = revision_at env db + 1" by (simp add: revision_at_def rotate_revision [OF run])
  moreover have "rel_option (rekeyed c env old (rt_key d) i) (abs_env db env i) (abs_env db' env i)" for i
    by (rule commit_rekeys_entries [OF ok ks(1) shown members(1) secrets same])
  moreover have "\<exists>edk. rewrapped c env old (rt_key d) (v_secret v) (v_version v) edk (v_enc_data_key v)"
    if v: "v \<in> set (versions db')" "in_env db' env v" for v
  proof -
    from members(2) [OF versions [OF v]] obtain k where k: "((v_secret v, v_version v), k) \<in> set (rq_history_keys req)"
      "b64_decode L k = Some (v_enc_data_key v)" by (auto simp: version_key_def)
    from new_history_keys_member [OF ok(2,3) ks(2) k(1)] k(2) b64_okD [OF ok(1)] show ?thesis by auto
  qed
  moreover have "Some (g_user g) \<noteq> dropped \<and> held_by L c ms (rt_key d) g" if g: "g \<in> set (grants db')" "g_env g = env" for g
  proof -
    from rotation_replaces_grants [OF run] ro have "sql_select (\<lambda>g. g_env g = env) (grants db') = rotated_grants env user (ro_grants ro)" by auto
    moreover have "g \<in> set (sql_select (\<lambda>g. g_env g = env) (grants db'))" using g by (simp add: sql_select_def)
    ultimately have "(g_user g, g_enc_vault_key g) \<in> set (ro_grants ro)" by (auto simp: rotated_grants_def)
    from members(3) [OF this] obtain k where k: "(g_user g, k) \<in> set (rq_grants req)" "b64_decode L k = Some (g_enc_vault_key g)" by auto
    from new_grants_member [OF ks(3) k(1)] k(2) b64_okD [OF ok(1)] show ?thesis unfolding held_by_def by auto
  qed
  moreover have "\<exists>pk. sealed_to L c (rt_key d) pk (t_enc_vault_key t)" if t: "t \<in> set (tokens db')" "active_token env t" for t
  proof -
    from members(4) [OF tokens [OF t]] obtain k where k: "(t_id t, k) \<in> set (rq_machine_grants req)"
      "b64_decode L k = Some (t_enc_vault_key t)" by auto
    from new_machine_grants_member [OF ks(4) k(1)] k(2) b64_okD [OF ok(1)] show ?thesis by auto
  qed
  ultimately show ?thesis unfolding rotated_def by blast
qed

section \<open>A whole rotation\<close>

lemma read_request:
  assumes "request (\<lambda>w. exchange L parse_response (\<lambda>db0 db. (g db, db)) w) s = (Inr a, s')" and "service_good L au env (snd s)"
  shows "fst s' = fst s \<and> service_good L au env (snd s') \<and> later env (wd_db (snd s)) (wd_db (snd s')) \<and> g (wd_db (snd s')) = Inr a"
proof -
  have run: "exchange L parse_response (\<lambda>db0 db. (g db, db)) (snd s) = (Inr a, snd s')" and "fst s' = fst s"
    using assms(1) by (simp_all add: request_Inr)
  with exchange_read [OF run assms(2)] show ?thesis by simp
qed

lemma build_rotation_reads:
  assumes run: "build_rotation L c d (team_client L now sw user) ms env dropped old s = (Inr req, s')" and good: "service_good L au env (snd s)"
  shows "fst s' = fst s \<and> service_good L au env (snd s') \<and>
    (\<exists>sn (w :: world). client_request L c d ms env dropped old sn req \<and> later env (wd_db (snd s)) (wd_db w) \<and> later env (wd_db w) (wd_db (snd s')) \<and>
       rs_revision sn = revision_at env (wd_db w) \<and> shows_entries L (rs_secrets sn) (abs_env (wd_db w) env))"
proof -
  let ?read = "\<lambda>g. request (\<lambda>w. exchange L parse_response (\<lambda>db0 db. (g db, db)) w)"
  let ?T = "team_client L now sw user"
  from run obtain answer sn hs us ts dks hks gs mgs s1 s2 s3 where
    snap: "request (api_snapshot (tm_sync ?T) env None) s = (Inr answer, s1)" "Inr sn = ok_or answer (ServerError ''server returned no snapshot'')"
    and reads: "request (api_list_history (tm_sync ?T) env) s1 = (Inr hs, s2)" "request (tm_list_grant_holders ?T env) s2 = (Inr us, s3)"
      "request (tm_list_machine_tokens ?T env) s3 = (Inr ts, s')"
    and ks: "Inr dks = new_data_keys L c d old env (rs_secrets sn)" "Inr hks = new_history_keys L c d old env hs"
      "Inr gs = new_grants L c d ms dropped us" "Inr mgs = new_machine_grants L c d ts"
    and req: "Inr req = (Inr \<lparr>rq_base_revision = rs_revision sn, rq_grants = gs, rq_data_keys = dks, rq_machine_grants = mgs, rq_history_keys = hks\<rparr> :: cli_error + rotate_request)"
    unfolding build_rotation_def sbind_Inr lift_iff sret_iff by blast
  have "client_request L c d ms env dropped old sn req"
    using ks [symmetric] req unfolding client_request_def by auto
  moreover
  have answer: "answer = Some sn" using snap(2) by (cases answer) (simp_all add: ok_or_def)
  have "exchange L snapshot_answer (\<lambda>db0 db. (snapshot L db user env None, db)) (snd s) = (Inr (Some sn), snd s1)" and st: "fst s1 = fst s"
    using snap(1) unfolding answer by (simp_all add: request_Inr team_http_defs http_defs)
  note read = exchange_read [OF this(1) good]
  note sn = snapshot_answer_Some [OF read(3) [OF refl]]
  have "distinct (map s_id (secrets (wd_db (snd s1))))" using read(1) by (simp add: service_good_def db_good_def)
  from secret_views_show [OF this] sn have "rs_revision sn = revision_at env (wd_db (snd s1))"
      "shows_entries L (rs_secrets sn) (abs_env (wd_db (snd s1)) env)" by (simp_all add: revision_at_def)
  moreover
  have "?read (\<lambda>db. history L db user env) s1 = (Inr hs, s2)" "?read (\<lambda>db. list_grant_holders db user env) s2 = (Inr us, s3)"
    "?read (\<lambda>db. list_tokens L db user env None) s3 = (Inr ts, s')" using reads by (simp_all add: team_http_defs http_defs)
  note r2 = read_request [OF this(1) read(1)] and reads' = this
  note r3 = read_request [OF reads'(2) r2 [THEN conjunct2, THEN conjunct1]]
  note r4 = read_request [OF reads'(3) r3 [THEN conjunct2, THEN conjunct1]]
  have "fst s' = fst s" "service_good L au env (snd s')" "later env (wd_db (snd s1)) (wd_db (snd s'))"
    using r2 r3 r4 st by (auto intro: later_trans)
  ultimately show ?thesis using read(2) by blast
qed

text \<open>What holds of the state a successful attempt leaves.\<close>

definition rotation_done ::
    "lib \<Rightarrow> crypto \<Rightarrow> member_view list \<Rightarrow> string \<Rightarrow> string option \<Rightarrow> world \<Rightarrow> int \<Rightarrow> world \<Rightarrow> bool" where
  "rotation_done L c ms env dropped w rv w' \<longleftrightarrow> revision_at env (wd_db w') = rv \<and>
     (\<exists>old new db. later env (wd_db w) db \<and> rotated L c ms env dropped old new db (wd_db w'))"

lemma rotate_request_commits:
  assumes run: "http_rotate L now user env req w = (Inr rv, w')" and good: "service_good L au env w"
    and ok: "aead_ok c" "draws_fit d" and req: "client_request L c d ms env dropped old sn req"
    and seen: "later env (wd_db w0) (wd_db w)" "rs_revision sn = revision_at env (wd_db w0)" "shows_entries L (rs_secrets sn) (abs_env (wd_db w0) env)"
  shows "rotation_done L c ms env dropped w rv w'"
proof -
  let ?db = "wd_db (others_first L w)"
  from run obtain x where x: "parse_response x = Inr rv" "rotate_env L now user env req (wd_db w) ?db = (x, wd_db w')"
    unfolding http_rotate_def by (rule exchange_answer)
  then have commit: "rotate_env L now user env req (wd_db w) ?db = (Inr rv, wd_db w')" by simp
  have later: "later env (wd_db w) ?db" by (rule others_first_good(2) [OF good])
  have "revision_at env ?db = rs_revision sn"
    using rotate_revision(1) [OF commit] req by (simp add: revision_at_def client_request_def)
  with later_trans [OF seen(1) later] seen(2,3) have "shows_entries L (rs_secrets sn) (abs_env ?db env)" by (simp add: later_def)
  from commit_rotates [OF commit _ ok req this] good have "rotated L c ms env dropped old (rt_key d) ?db (wd_db w')"
    by (simp add: service_good_def)
  moreover have "revision_at env (wd_db w') = rv"
    using rotate_revision(2) [OF commit] commit by (rule_tac rotate_committed) (auto simp: revision_at_def)
  ultimately show ?thesis using later unfolding rotation_done_def by blast
qed

lemma rotation_done_later: "later env (wd_db w0) (wd_db w) \<Longrightarrow> rotation_done L c ms env dropped w rv w' \<Longrightarrow> rotation_done L c ms env dropped w0 rv w'"
  unfolding rotation_done_def using later_trans by blast

lemma rotate_refused:
  assumes run: "http_rotate L now user env req w = (Inl (CliConflict m), w')" and good: "service_good L au env w"
  shows "service_good L au env w' \<and> later env (wd_db w) (wd_db w')"
proof -
  let ?w1 = "others_first L w"
  obtain x db' where f: "rotate_env L now user env req (wd_db w) (wd_db ?w1) = (x, db')"
    by (cases "rotate_env L now user env req (wd_db w) (wd_db ?w1)")
  with run have x: "parse_response x = Inl (CliConflict m)" and w': "w' = ?w1\<lparr>wd_db := db'\<rparr>"
    by (auto simp: http_rotate_def exchange_def Let_def lost_def split: delivery.splits)
  then obtain e where "x = Inl e" by (cases x) (auto simp: parse_response_def map_err_def)
  then have "db' = wd_db ?w1" using f rotate_failed by blast
  then show ?thesis using others_first_good [OF good] w' by (simp add: service_good_def)
qed

lemma rotate_attempts_done:
  assumes "rotate_attempts L c ds (team_client L now sw user) kp ms env dropped n (st, w) = (Inr (Some rv), st', w')"
    and "service_good L au env w" and "aead_ok c" and "\<And>n. draws_fit (ds n)"
  shows "st' = st \<and> rotation_done L c ms env dropped w rv w'"
  using assms(1,2)
proof (induction n arbitrary: w)
  case (Suc n)
  let ?T = "team_client L now sw user"
  from Suc.prems(1) obtain answer s1 where grant: "request (api_get_grant (tm_sync ?T) env) (st, w) = (Inr answer, s1)"
    and rest: "(case answer of
         None \<Rightarrow> sret None
       | Some b64 \<Rightarrow>
           sbind (lift (rbind (b64decode L b64) (\<lambda>grant. from_core (open_vault_key c kp grant)))) (\<lambda>old.
           sbind (build_rotation L c (ds n) ?T ms env dropped old) (\<lambda>req.
           send_rotation ?T env req (rotate_attempts L c ds ?T kp ms env dropped n)))) s1 = (Inr (Some rv), st', w')"
    unfolding rotate_attempts.simps sbind_Inr by blast
  from rest obtain b64 where b64: "answer = Some b64" by (cases answer) auto
  from rest obtain old req s2 where build: "build_rotation L c (ds n) ?T ms env dropped old s1 = (Inr req, s2)"
    and send: "send_rotation ?T env req (rotate_attempts L c ds ?T kp ms env dropped n) s2 = (Inr (Some rv), st', w')"
    unfolding b64 option.case sbind_Inr lift_iff by blast
  have "exchange L grant_answer (\<lambda>db0 db. (get_grant L db user env, db)) w = (Inr answer, snd s1)" and st1: "fst s1 = st"
    using grant by (simp_all add: request_Inr team_http_defs http_defs)
  note read = exchange_read [OF this(1) Suc.prems(2)]
  from build_rotation_reads [OF build read(1)] obtain sn and w0 :: world where st2: "fst s2 = st" and good: "service_good L au env (snd s2)"
    and req: "client_request L c (ds n) ms env dropped old sn req" and seen: "later env (wd_db (snd s1)) (wd_db w0)"
      "later env (wd_db w0) (wd_db (snd s2))" "rs_revision sn = revision_at env (wd_db w0)"
      "shows_entries L (rs_secrets sn) (abs_env (wd_db w0) env)" using st1 by auto
  have w_s2: "later env (wd_db w) (wd_db (snd s2))" by (rule later_trans [OF read(2) later_trans [OF seen(1,2)]])
  obtain r w1 where rot: "http_rotate L now user env req (snd s2) = (r, w1)" by (cases "http_rotate L now user env req (snd s2)")
  have sent: "request (tm_rotate ?T env req) s2 = (r, st, w1)" using rot st2 by (simp add: request_def team_http_defs)
  show ?case
  proof (cases r)
    case (Inr revision)
    with send sent have "revision = rv" "st' = st" "w' = w1" by (simp_all add: send_rotation_def)
    with rotate_request_commits [OF rot [unfolded Inr] good assms(3,4) req seen(2-4)] rotation_done_later [OF w_s2]
    show ?thesis by simp
  next
    case (Inl e)
    with send sent obtain m where m: "e = CliConflict m" by (cases e) (auto simp: send_rotation_def)
    with Inl send sent have again: "rotate_attempts L c ds ?T kp ms env dropped n (st, w1) = (Inr (Some rv), st', w')"
      by (simp add: send_rotation_def)
    from rotate_refused [OF rot [unfolded Inl m] good] have "service_good L au env w1" "later env (wd_db (snd s2)) (wd_db w1)" by auto
    with Suc.IH [OF again] rotation_done_later [OF later_trans [OF w_s2]] show ?thesis by blast
  qed
qed simp


section \<open>An example\<close>

text \<open>One owner, one environment with one secret, its history and its grant.\<close>

definition rot_key :: "u8 \<Rightarrow> bytes" where
  "rot_key b = replicate 32 b"

definition rot_pair :: keypair where
  "rot_pair = \<lparr>public = rot_key 1, secret = rot_key 1\<rparr>"

definition rot_wrapped :: "bytes \<Rightarrow> bytes" where
  "rot_wrapped k = wrap_key demo_crypto (replicate 24 0) k (rot_key 4) (as_bytes (data_key_aad ''e'' ''s'' 1))"

definition rot_sealed :: "bytes \<Rightarrow> bytes" where
  "rot_sealed k = marked (rot_key 1) @ k"

definition rot_db :: db where
  "rot_db = empty_db\<lparr>users := [(demo_user ''u'')\<lparr>u_public_key := Some (rot_key 1)\<rparr>],
     orgs := [\<lparr>o_id = ''o'', o_enc_name = Some [7], o_created_by = Some ''u'', o_tier = ''team'',
               o_trial_ends_at = None, o_lifecycle = ''active'', o_stripe_customer = None, o_stripe_subscription = None, o_deleted_at = None\<rparr>],
     members := [\<lparr>m_org = ''o'', m_user = ''u'', m_role = ''owner'', m_enc_org_key = None\<rparr>],
     projects := [\<lparr>p_id = ''p'', p_owner = ''u'', p_org = Some ''o'', p_enc_name = [9]\<rparr>],
     envs := [\<lparr>e_id = ''e'', e_project = ''p'', e_enc_name = [11], e_revision = 3\<rparr>],
     grants := [\<lparr>g_env = ''e'', g_user = ''u'', g_enc_vault_key = rot_sealed (rot_key 2), g_granted_by = Some ''u''\<rparr>],
     secrets := [\<lparr>s_id = ''s'', s_env = ''e'', s_enc_name = [16], s_enc_value = [17], s_enc_data_key = rot_wrapped (rot_key 2),
                  s_version = 1, s_deleted_at = None\<rparr>],
     versions := [\<lparr>v_secret = ''s'', v_version = 1, v_enc_name = [16], v_enc_value = [17], v_enc_data_key = rot_wrapped (rot_key 2)\<rparr>]\<rparr>"

definition rot_world :: world where
  "rot_world = \<lparr>wd_db = rot_db, wd_turns = []\<rparr>"

definition rot_draws :: rotation_draws where
  "rot_draws = \<lparr>rt_key = rot_key 3, rt_data = (\<lambda>_. replicate 24 0), rt_history = (\<lambda>_. replicate 24 0), rt_seal = (\<lambda>_. []), rt_machine = (\<lambda>_. [])\<rparr>"

definition rot_service :: service_draws where
  "rot_service = \<lparr>sw_token_id = [], sw_token_raw = [], sw_share_raw = []\<rparr>"

abbreviation rot_client :: "world team_api" where
  "rot_client \<equiv> team_client wire_lib 50 rot_service ''u''"

lemma length_marked: "length (marked xs) = 2 * length xs + 1"
  by (induction xs) (simp_all add: marked_def)

lemma rot_lengths: "length (rot_key b) = KEY_LEN" "length (rot_sealed (rot_key b)) = 97"
  by (simp_all add: rot_key_def rot_sealed_def length_marked KEY_LEN_def)

lemma rot_seal: "grant_vault_key demo_crypto r (rot_key 1) k = Inr (rot_sealed k)"
  by (simp add: grant_vault_key_def seal_to_public_def demo_crypto_def rot_sealed_def)

lemma rot_open: "open_vault_key demo_crypto rot_pair (rot_sealed (rot_key b)) = Inr (rot_key b)"
  by (simp add: open_vault_key_def open_sealed_def demo_crypto_def rot_sealed_def rot_pair_def rot_lengths)

lemma rot_wrapped_length: "length (rot_wrapped (rot_key b)) \<le> MAX_ENC_KEY"
  by (simp add: rot_wrapped_def wrap_key_def aead_seal_def demo_crypto_def length_marked rot_key_def as_bytes_def data_key_aad_def
    MAX_ENC_KEY_def dec_int_def dec_nat.simps)

lemma rot_rewrap: "rewrap_data_key demo_crypto (replicate 24 0) (rot_key a) (rot_key b) ''e'' ''s'' 1 (rot_wrapped (rot_key a)) = Inr (rot_wrapped (rot_key b))"
  using unwrap_wrap [OF demo_crypto_ok(1), of "replicate 24 0" "rot_key 4" "rot_key a" "as_bytes (data_key_aad ''e'' ''s'' 1)"]
  by (simp add: rewrap_data_key_def unwrap_data_key_def rot_wrapped_def rot_lengths NONCE_LEN_def)

lemma rot_public: "decode_public_key wire_lib (b64encode wire_lib (rot_key 1)) = Inr (rot_key 1)"
  by (simp add: decode_public_key_def b64decode_def wire_decode rot_key_def PUBLIC_KEY_LEN_def ok_or_def)

lemmas rot_eval = rot_db_def empty_db_def demo_user_def org_eval access_eval encoding_encode_def

lemma rot_access:
  "env_access rot_db ''e'' ''u'' = Inr (''p'', \<lparr>pa_is_owner = False, pa_org_role = Some Owner, pa_org_id = Some ''o'',
     pa_org_lifecycle = Some Active, pa_user_id = ''u''\<rparr>)"
  by (simp add: rot_eval)

definition rot_view :: secret_view where
  "rot_view = \<lparr>sv_id = ''s'', sv_enc_name = b64_encode wire_lib [16], sv_enc_value = b64_encode wire_lib [17],
     sv_enc_data_key = b64_encode wire_lib (rot_wrapped (rot_key 2)), sv_version = 1, sv_deleted = False\<rparr>"

definition rot_row :: history_row where
  "rot_row = \<lparr>h_secret_id = ''s'', h_version = 1, h_enc_name = b64_encode wire_lib [16], h_enc_value = b64_encode wire_lib [17],
     h_enc_data_key = b64_encode wire_lib (rot_wrapped (rot_key 2))\<rparr>"

definition rot_member :: member_view where
  "rot_member = \<lparr>mv_user = ''u'', mv_role = Owner, mv_public_key = Some (b64_encode wire_lib (rot_key 1))\<rparr>"

definition rot_request :: rotate_request where
  "rot_request = \<lparr>rq_base_revision = 3, rq_grants = [(''u'', b64_encode wire_lib (rot_sealed (rot_key 3)))],
     rq_data_keys = [(''s'', b64_encode wire_lib (rot_wrapped (rot_key 3)))], rq_machine_grants = [],
     rq_history_keys = [((''s'', 1), b64_encode wire_lib (rot_wrapped (rot_key 3)))]\<rparr>"

lemma rot_reads:
  "list_members wire_lib rot_db ''u'' ''o'' = Inr [rot_member]"
  "get_grant wire_lib rot_db ''u'' ''e'' = Inr (b64_encode wire_lib (rot_sealed (rot_key 2)))"
  "snapshot wire_lib rot_db ''u'' ''e'' None = Inr (Snapshot (etag_of 3) 3 [rot_view])"
  "history wire_lib rot_db ''u'' ''e'' = Inr [rot_row]"
  "list_grant_holders rot_db ''u'' ''e'' = Inr [''u'']"
  "list_tokens wire_lib rot_db ''u'' ''e'' None = Inr []"
proof -
  show "list_members wire_lib rot_db ''u'' ''o'' = Inr [rot_member]"
    by (simp add: list_members_def rot_member_def rot_eval del: set_sql_select set_filter)
  show "get_grant wire_lib rot_db ''u'' ''e'' = Inr (b64_encode wire_lib (rot_sealed (rot_key 2)))"
    by (simp add: get_grant_def rot_access) (simp add: rot_eval is_grant_def)
  show "snapshot wire_lib rot_db ''u'' ''e'' None = Inr (Snapshot (etag_of 3) 3 [rot_view])"
    by (simp add: snapshot_def rot_access) (simp add: rot_eval env_revision_def secret_views_def rot_view_def)
  show "history wire_lib rot_db ''u'' ''e'' = Inr [rot_row]"
    by (simp add: history_def rot_access) (simp add: rot_eval in_env_def rot_row_def)
  show "list_grant_holders rot_db ''u'' ''e'' = Inr [''u'']"
    by (simp add: list_grant_holders_def rot_access can_manage_structure_def) (simp add: rot_eval)
  show "list_tokens wire_lib rot_db ''u'' ''e'' None = Inr []"
    by (simp add: list_tokens_def rot_access can_manage_structure_def) (simp add: rot_eval)
qed

lemma rot_decoded:
  "decode_rotation wire_lib ''u'' rot_request = Inr \<lparr>ro_grants = [(''u'', rot_sealed (rot_key 3))],
     ro_data_keys = [(''s'', rot_wrapped (rot_key 3))], ro_machine_grants = [], ro_history_keys = [((''s'', 1), rot_wrapped (rot_key 3))]\<rparr>"
proof -
  have "encoding_decode wire_lib (b64_encode wire_lib (rot_wrapped (rot_key 3))) field MAX_ENC_KEY = Inr (rot_wrapped (rot_key 3))" for field
    using wire_encoding [OF rot_wrapped_length] by (simp add: b64encode_def)
  moreover have "encoding_decode wire_lib (b64_encode wire_lib (rot_sealed (rot_key 3))) field MAX_ENC_KEY = Inr (rot_sealed (rot_key 3))" for field
    using wire_encoding [of "rot_sealed (rot_key 3)" MAX_ENC_KEY] by (simp add: b64encode_def rot_lengths MAX_ENC_KEY_def)
  ultimately show ?thesis by (simp add: decode_rotation_def rot_request_def decode_keys_def)
qed

lemma rot_commit: "\<exists>db'. rotate_env wire_lib 50 ''u'' ''e'' rot_request rot_db rot_db = (Inr 4, db')"
proof -
  have org: "env_org rot_db ''e'' = Inr (Some ''o'')" by (simp add: env_org_def rot_eval)
  have "fst (rotate_env wire_lib 50 ''u'' ''e'' rot_request rot_db rot_db) = Inr 4"
    unfolding rotate_env_def rot_access org rot_decoded
    by (simp add: grant_eval rot_eval rot_request_def del: set_sql_select set_filter)
  then show ?thesis by (cases "rotate_env wire_lib 50 ''u'' ''e'' rot_request rot_db rot_db") simp
qed

lemma rot_build:
  "build_rotation wire_lib demo_crypto rot_draws rot_client [rot_member] ''e'' None (rot_key 2) (st, rot_world) = (Inr rot_request, st, rot_world)"
proof -
  have keys: "new_data_keys wire_lib demo_crypto rot_draws (rot_key 2) ''e'' [rot_view] = Inr (rq_data_keys rot_request)"
    "new_history_keys wire_lib demo_crypto rot_draws (rot_key 2) ''e'' [rot_row] = Inr (rq_history_keys rot_request)"
    by (simp_all add: new_data_keys_def new_history_keys_def rot_view_def rot_row_def rot_request_def rot_draws_def
      b64decode_def b64_okD [OF wire_ok] rot_rewrap from_core_def b64encode_def)
  have gs: "new_grants wire_lib demo_crypto rot_draws [rot_member] None [''u''] = Inr (rq_grants rot_request)"
    using rot_public by (simp add: rot_member_def sql_find_def rot_draws_def rot_seal from_core_def rot_request_def b64encode_def)
  have ms: "new_machine_grants wire_lib demo_crypto rot_draws [] = Inr []" by (simp add: new_machine_grants_def)
  show ?thesis
    by (simp add: build_rotation_def sbind_def request_def lift_def sret_def team_http_defs http_defs exchange_served rot_world_def
      rot_reads snapshot_answer_def parse_response_def map_err_def keys gs ms ok_or_def del: new_grants.simps) (simp add: rot_request_def)
qed

lemma rot_run:
  "\<exists>w'. team_rotate_env wire_lib demo_crypto (\<lambda>_. rot_draws) rot_client rot_pair ''o'' ''e'' None (empty_store, rot_world) =
     (Inr (Some 4), empty_store, w')"
proof -
  obtain db' where commit: "rotate_env wire_lib 50 ''u'' ''e'' rot_request rot_db rot_db = (Inr 4, db')" using rot_commit by blast
  have members: "request (tm_list_members rot_client ''o'') (st, rot_world) = (Inr [rot_member], st, rot_world)" for st :: local_store
    by (simp add: request_def team_http_defs exchange_served rot_world_def rot_reads parse_response_def map_err_def)
  have "request (api_get_grant (tm_sync rot_client) ''e'') (st, rot_world) =
      (Inr (Some (b64_encode wire_lib (rot_sealed (rot_key 2)))), st, rot_world)" for st :: local_store
    by (simp add: request_def team_http_defs http_defs exchange_served rot_world_def rot_reads grant_answer_def)
  moreover have "request (tm_rotate rot_client ''e'' rot_request) (st, rot_world) = (Inr 4, st, rot_world\<lparr>wd_db := db'\<rparr>)" for st :: local_store
    using commit by (simp add: request_def team_http_defs exchange_served rot_world_def parse_response_def map_err_def)
  ultimately have attempts: "rotate_attempts wire_lib demo_crypto (\<lambda>_. rot_draws) rot_client rot_pair [rot_member] ''e'' None (Suc n) (st, rot_world) =
      (Inr (Some 4), st, rot_world\<lparr>wd_db := db'\<rparr>)" for n and st :: local_store
    by (simp add: sbind_def lift_def b64decode_def b64_okD [OF wire_ok] ok_or_def rot_open from_core_def map_err_def rot_build send_rotation_def)
  show ?thesis
    using attempts [of 4 empty_store] members by (simp add: team_rotate_env_def ROTATE_ATTEMPTS_def sbind_def del: rotate_attempts.simps)
qed


end
