(* ===== verification/Spec2Isabelle.thy ===== *)
theory Spec2Isabelle
  imports Vault Machine Account Projects Share Sessions Grants Coverage_Coordination Dotenv System Team_Server
begin

text \<open>
  A model of Sotto, an end-to-end encrypted secrets manager, and the theorems that make it correct.

  \<^bold>\<open>The program.\<close> Three crates. \<open>crates/core\<close> holds the cryptographic formats. \<open>crates/server\<close> is an HTTP
  service over PostgreSQL that stores ciphertext, decides who may read and write it, sells plans and
  deletes organisations. \<open>crates/cli\<close> is the client: a local SQLite store of ciphertext, a vault on top
  of it that encrypts and decrypts, and a sync engine that moves the ciphertext to and from the server.
  A secret is encrypted under its own data key, the data key under the environment's vault key, and the
  vault key is sealed to each member (a grant) and to each machine token. The server holds all of it
  and can open none; taking access away means deleting grants and rotating the vault key.

  \<^bold>\<open>The theories.\<close> Each theory opens with what it models. In the order of the imports:

  \<^item> \<open>Prelude\<close>: results as sums with \<open>rbind\<close>, folds that stop at an error, decimal numbers and \<open>i64\<close>
    parsing, SQL statements as operators on tables, which are lists of rows. \<open>Text\<close>: strings as code points.
  \<^item> \<open>Key_Format\<close> (\<open>core/format.rs\<close>, \<open>error.rs\<close>), \<open>Crypto_Core\<close> (\<open>envelope.rs\<close>, \<open>aead.rs\<close>, \<open>kdf.rs\<close>, \<open>wrap.rs\<close>,
    \<open>names.rs\<close>, \<open>share.rs\<close>), \<open>Vault\<close> (\<open>vault.rs\<close>). Results: key strings read back and catch typing errors;
    a ciphertext opens only where it was made for; rewrapping moves a data key and nothing else.
  \<^item> \<open>Server_Base\<close> (\<open>error.rs\<close>, \<open>encoding.rs\<close>, \<open>sync/mod.rs\<close>, the tables of \<open>migrations\<close>, \<open>audit.rs\<close>'s insert),
    \<open>Org\<close> (\<open>org.rs\<close>, \<open>entitlements.rs\<close>), \<open>Access\<close> (\<open>sync/access.rs\<close>), \<open>Projects\<close> (\<open>sync/projects.rs\<close>,
    \<open>sync/environments.rs\<close>), \<open>Secrets\<close> (\<open>sync/secrets.rs\<close>), \<open>Grants\<close> (\<open>sync/grants.rs\<close>), \<open>Machine\<close> (\<open>machine.rs\<close>),
    \<open>Account\<close> (\<open>account.rs\<close>, \<open>audit.rs\<close>), \<open>Share\<close> (\<open>share.rs\<close>), \<open>Sessions\<close> (\<open>auth/session.rs\<close>, \<open>auth/routes.rs\<close>).
    Results: a batch of writes is one step on a map from ids to entries, at one revision or not at all;
    a rotation replaces every grant and key at once; removing a member leaves them no path to a key;
    a login code works once; a share is viewed as often as it may be.
  \<^item> \<open>Acl\<close>, \<open>Server_Steps\<close>: the abstract machine of who may reach what, and the proof that every request is
    a step of it (a refinement), with the invariants that follow: every access path belongs to a member,
    every organisation has an owner, ownership changes only through owners.
  \<^item> \<open>Billing\<close> (\<open>billing.rs\<close>): Stripe's subscriptions, calls and webhook.
  \<^item> \<open>Org_Deletion\<close> (\<open>org_deletion.rs\<close>, \<open>org_deletion_api.rs\<close>, \<open>_ops.rs\<close>, \<open>_worker.rs\<close>, \<open>_metrics.rs\<close>),
    \<open>Deletion_Machine\<close>, \<open>Deletion_Progress\<close>: the durable deletion of an organisation, its phases, its leases,
    the gates of the purge, and that it completes. \<open>System\<close> interleaves it with every request.
  \<^item> \<open>Coverage\<close> (\<open>cloud_coverage.rs\<close>), \<open>Coverage_Store\<close> (\<open>cloud_coverage_store.rs\<close>), \<open>Coverage_Reconciliation\<close>,
    \<open>Coverage_Canonical\<close>, \<open>Coverage_Coordination\<close> (\<open>cloud_coverage_reconciliation.rs\<close>): what a person has paid
    for, its stored projections as a log of publications, and the collection of evidence for them.
  \<^item> \<open>Dotenv\<close> (\<open>cli/dotenv.rs\<close>, \<open>export.rs\<close>): an exported file reads back.
  \<^item> \<open>Local_Store\<close> (\<open>cli/store.rs\<close>, \<open>error.rs\<close>), \<open>Client_Vault\<close> (\<open>cli/vault.rs\<close>), \<open>Sync\<close> (\<open>remote/sync.rs\<close> with
    parts of \<open>api.rs\<close>, \<open>team.rs\<close>, \<open>account.rs\<close>, \<open>config.rs\<close>), \<open>Sync_Server\<close> (\<open>remote/http.rs\<close>, and the sync
    engine against \<open>Secrets\<close>, \<open>Projects\<close>, \<open>Grants\<close> and \<open>Account\<close>). Results: the version history is permanent;
    the vault is a map from names to values; a push makes at most five writes, none with a stale grant,
    and leaves device and server with the same live secrets.
  \<^item> \<open>Team\<close> (\<open>remote/team.rs\<close>, \<open>machine.rs\<close>, \<open>share.rs\<close>): organisations, sharing, rotation, removal, machine
    tokens and share links from the client's side. \<open>Team_Server\<close> (the rest of \<open>remote/http.rs\<close>): these commands
    against \<open>Org\<close>, \<open>Grants\<close>, \<open>Machine\<close> and \<open>Share\<close>. Results: a rotation run by the client, with other clients
    writing and messages lost, leaves every secret and version readable under the new key and the new key
    with the listed members only; a machine token string reads back.

  \<^bold>\<open>Interfaces.\<close> The locales state what one part promises another and are interpreted on the model's own
  definitions: among them \<open>org_write\<close> (a write for an organisation holds its authority at commit),
  \<open>revision_guarded\<close> (a change of an environment commits at one revision and leaves the next),
  \<open>sync_service\<close> (what the sync engine needs of a server). Properties rest on the interpretations' facts.

  \<^bold>\<open>How code becomes definitions.\<close>

  \<^item> A string is the list of its UTF-8 bytes as characters, \<open>string\<close>; where the code classifies characters
    (\<open>Text\<close>, \<open>Dotenv\<close>, the coverage modules) it is the list of its code points. SQL's text order is byte order.
  \<^item> \<open>i64\<close> values are \<open>int\<close>, with range checks where they are parsed, checked additions as options, and
    wrap-around written out where a release build wraps (\<open>next_version\<close>, the timestamp of a webhook
    signature). Bytes and bit accumulators are words. Timestamps are microseconds, \<open>now\<close> an argument.
  \<^item> Errors are the crates' error types in the left of a sum; every early return and constraint
    violation is a branch. Messages are kept, except where they contain a third-party library's text.
  \<^item> A handler takes the state \<open>db0\<close> its reads outside a transaction saw and the state \<open>db\<close> of its
    transaction, which the row locks make one state; \<open>run_txn\<close> rolls back on error. So results hold for
    every older \<open>db0\<close>. Handlers with no such reads take one state. Concurrency is the interleaving of
    whole transactions, as sequences of steps (\<open>Server_Steps\<close>, \<open>System\<close>, \<open>Deletion_Machine\<close>).
  \<^item> JSON from the database is a value with object fields in key order, as serde's map has them.
    Fractional numbers and NUL characters in text, which PostgreSQL refuses, are left out.
  \<^item> A client command is a function of the local store and the world; what it did before an error stays.
    In \<open>Sync_Server\<close> the world is the server's database with a schedule of what other clients write before
    each request and of which messages are lost.
  \<^item> Third-party code is a parameter with named laws: the primitives (\<open>crypto\<close>: \<open>aead_ok\<close>, \<open>aead_binding\<close>,
    \<open>box_ok\<close>), base64 and BLAKE2b (\<open>lib\<close>: \<open>b64_ok\<close>), the URL parser, the OAuth provider, HMAC-SHA256,
    Stripe over the network (\<open>stripe_net\<close>), SHA-256 and PostgreSQL's reading of timestamps. Randomness is an
    argument. \<open>demo_crypto\<close>, \<open>demo_lib\<close> and \<open>wire_lib\<close> are instances; the witnesses evaluate on them.

  \<^bold>\<open>Termination and bounds.\<close> Every definition is total. The server's retry loops are bounded by the code
  itself (a push makes five attempts, a deletion's delays come from a table); a worker's endless
  loop is its turn \<open>run_once\<close>, repeated by the step relation. The publication's loop for the head row's
  lock ends in its first round, since transactions are serialised. No fuel is used.

  \<^bold>\<open>What modelling showed:\<close> two stuck states of an organisation's
  deletion, a subscription's end that unlinks another, lost edits when two devices write the same version
  of a secret, and edits stranded by a rotation.

  \<^bold>\<open>Not modelled.\<close> Randomness, test vectors and key generation; the OAuth client's HTTP exchange; health,
  telemetry and the Prometheus text; configuration parsing, routing and pool creation (their effect on
  requests, such as authentication, is an argument of the handlers); feedback and server information;
  the command line's argument parsing, prompts, clipboard and terminal theme, which are input and output;
  the operating system's keychain and the unlock session; the browser login; failures of the database
  itself other than constraint violations; the WebAssembly bindings, which only rename core functions.
\<close>

end
